(* ===== verification/Prelude.thy ===== *)
theory Prelude
  imports Main "HOL-Library.Word" "HOL-Library.Monad_Syntax" "HOL-Library.Multiset"
begin

text \<open>
  Shared vocabulary of the development: the machine types of the C code, the reading of
  a call that does not return, the collections of rewrite rules, the generic lemmas on
  lists, maps and words, and the first-in-first-out contract that several components
  offer to their clients.

  A call that aborts (a failed \<open>assert\<close>, a read through an invalid pointer, a double
  free) or that never returns is the value \<open>None\<close>; \<open>Some\<close> carries the result.
\<close>

section \<open>Machine types\<close>

type_synonym u8 = "8 word"
type_synonym u16 = "16 word"
type_synonym u32 = "32 word"
type_synonym i32 = "32 word"
type_synonym u64 = "64 word"
type_synonym ptr = nat

abbreviation (input) NULL :: ptr where
  "NULL \<equiv> 0"

abbreviation (input) NUL :: char where
  "NUL \<equiv> CHR 0x00"

section \<open>Rule collections\<close>

named_theorems outcome_simps \<open>unfolding of calls that may abort\<close>
named_theorems frame_simps \<open>fields that an operation leaves alone\<close>

unbundle bit_operations_syntax

section \<open>Calls that may abort\<close>

definition guard :: "bool \<Rightarrow> unit option" where
  \<comment> \<open>the C macro \<open>assert\<close>\<close>
  "guard b = (if b then Some () else None)"

lemma guard_simps [simp, outcome_simps]:
  "guard True = Some ()"
  "guard False = None"
  by (simp_all add: guard_def)

lemma guard_eq_Some [simp]: "guard b = Some u \<longleftrightarrow> b"
  by (simp add: guard_def)

lemma guard_bind_eq_Some:
  "(guard b \<bind> f) = Some r \<longleftrightarrow> b \<and> f () = Some r"
  by (cases b) simp_all

lemma bind_eq_SomeE [elim!]:
  assumes "(m \<bind> f) = Some r"
  obtains x where "m = Some x" and "f x = Some r"
  using assms by (cases m) auto

section \<open>Lists and maps\<close>

lemma list_update_same_length [simp]: "length (xs[i := x]) = length xs"
  by simp

lemma length_update_row [simp]: "length (xs[i := (xs ! i)[j := y]] ! k) = length (xs ! k)"
  by (cases "k = i \<and> i < length xs") (auto simp: not_less nth_list_update_neq list_update_beyond)

lemma list_update_None_SomeD: "xs[j := None] ! i = Some c \<Longrightarrow> xs ! i = Some c"
  by (metis list_update_beyond not_le nth_list_update_eq nth_list_update_neq option.distinct(1))

lemma nth_rotate_add:
  "i < length xs \<Longrightarrow> rotate n xs ! i = xs ! ((n + i) mod length xs)"
  by (simp add: nth_rotate)

lemma map_upt_Suc_shift:
  "map f [0..<Suc n] = f 0 # map (\<lambda>i. f (Suc i)) [0..<n]"
  by (simp add: upt_conv_Cons map_Suc_upt [symmetric] comp_def del: upt_Suc)

lemma map_upt_snoc: "map f [0..<Suc n] = map f [0..<n] @ [f n]"
  by simp

lemma mod_add_less_self:
  "(a::nat) < n \<Longrightarrow> i < n \<Longrightarrow> (a + i) mod n = (if a + i < n then a + i else a + i - n)"
  by (auto simp: mod_if)

section \<open>Words\<close>

lemma unat_and_mask: "unat (x AND mask k) = unat x mod 2 ^ k" for x :: "'a::len word"
proof -
  have "unat (x AND mask k) = take_bit k (unat x)"
    by (simp only: take_bit_eq_mask [symmetric] unsigned_take_bit_eq)
  then show ?thesis by (simp only: take_bit_eq_mod)
qed

lemma unat_less_u32: "unat (w :: u32) < 2 ^ 32"
proof -
  have "(unsigned w :: nat) < 2 ^ LENGTH(32)" by (rule unsigned_less)
  then show ?thesis by simp
qed

text \<open>Signed reading of a 32-bit word.\<close>

lemma sint_mod: "sint (a :: i32) = (int (unat a) + 2 ^ 31) mod 2 ^ 32 - 2 ^ 31"
  using int_word_sint [of "uint a", where 'a = 32] by simp

lemma signed_wrap:
  assumes "u < 2 ^ 32"
  shows "(int u + 2 ^ 31) mod 2 ^ 32 - 2 ^ 31 = (if u < 2 ^ 31 then int u else int u - 2 ^ 32)"
proof (cases "u < 2 ^ 31")
  case True
  then have "(int u + 2 ^ 31) mod 2 ^ 32 = int u + 2 ^ 31" by (intro mod_pos_pos_trivial) simp_all
  then show ?thesis using True by simp
next
  case False
  have "(int u + 2 ^ 31) mod 2 ^ 32 = (int u + 2 ^ 31 - 2 ^ 32) mod 2 ^ 32"
    by (simp only: minus_mod_self2)
  also have "\<dots> = int u + 2 ^ 31 - 2 ^ 32" using False assms by (intro mod_pos_pos_trivial) simp_all
  finally show ?thesis using False by simp
qed

lemma sint_cases: "sint (a :: i32) = (if unat a < 2 ^ 31 then int (unat a) else int (unat a) - 2 ^ 32)"
  unfolding sint_mod by (rule signed_wrap [OF unat_less_u32])

lemma sint_nonneg_iff: "0 \<le> sint (a :: i32) \<longleftrightarrow> unat a < 2 ^ 31"
proof -
  have "int (unat a) < 2 ^ 32" using unat_less_u32 [of a] by (metis of_nat_less_iff of_nat_numeral of_nat_power)
  then show ?thesis unfolding sint_cases by (simp split: if_splits)
qed

lemma sint_eq_unat: "0 \<le> sint (a :: i32) \<Longrightarrow> sint a = int (unat a)"
  by (simp only: sint_nonneg_iff) (simp only: sint_cases if_True)

lemma unat_drop_bit: "unat (drop_bit n x) = unat x div 2 ^ n" for x :: "'a::len word"
proof -
  have "unat (drop_bit n x) = drop_bit n (take_bit LENGTH('a) (unat x))"
    by (rule unsigned_drop_bit_eq)
  also have "take_bit LENGTH('a) (unat x) = unat x"
    by (simp add: take_bit_nat_eq_self_iff)
  finally show ?thesis by (simp only: drop_bit_eq_div)
qed

lemma or_mask_eq_iff:
  "x OR mask n = y OR mask n \<longleftrightarrow> drop_bit n x = drop_bit n y" for x y :: "'a::len word"
proof
  assume "x OR mask n = y OR mask n"
  then have "drop_bit n (x OR mask n) = drop_bit n (y OR mask n)" by simp
  moreover have "drop_bit n (mask n :: 'a word) = 0"
    by (rule bit_eqI) (auto simp: bit_drop_bit_eq bit_mask_iff)
  ultimately show "drop_bit n x = drop_bit n y" by (simp add: drop_bit_or)
next
  assume "drop_bit n x = drop_bit n y"
  then have "bit x (k + n) = bit y (k + n)" for k
    by (metis bit_drop_bit_eq comp_apply add.commute)
  then have "bit x k = bit y k" if "n \<le> k" for k
    using that by (metis le_add_diff_inverse2)
  then show "x OR mask n = y OR mask n"
    by (intro bit_eqI) (auto simp: bit_or_iff bit_mask_iff)
qed

lemma or_mask_eq_div_iff:
  "x OR mask n = y OR mask n \<longleftrightarrow> unat x div 2 ^ n = unat y div 2 ^ n" for x y :: "'a::len word"
  by (metis or_mask_eq_iff unat_drop_bit word_unat_eq_iff)

lemma word_of_nat_zero_iff: "n < 2 ^ 32 \<Longrightarrow> (word_of_nat n :: u32) = 0 \<longleftrightarrow> n = 0"
proof -
  assume "n < 2 ^ 32"
  then have "unat (word_of_nat n :: u32) = n" by (simp add: unat_of_nat)
  moreover have "(word_of_nat n :: u32) = 0 \<longleftrightarrow> unat (word_of_nat n :: u32) = 0"
    by (simp only: unat_eq_0)
  ultimately show ?thesis by (simp only:)
qed

section \<open>First in, first out\<close>

datatype 'a qop = Enq 'a | Deq

fun enqueued :: "'a qop list \<Rightarrow> 'a list" where
  "enqueued [] = []"
| "enqueued (Enq a # ops) = a # enqueued ops"
| "enqueued (Deq # ops) = enqueued ops"

fun fifo_run :: "('a \<Rightarrow> 's \<Rightarrow> 's option) \<Rightarrow> ('s \<Rightarrow> ('a option \<times> 's) option) \<Rightarrow>
    'a qop list \<Rightarrow> 's \<Rightarrow> ('a list \<times> 's) option" where
  "fifo_run enq deq [] s = Some ([], s)"
| "fifo_run enq deq (Enq a # ops) s = do { s' \<leftarrow> enq a s; fifo_run enq deq ops s' }"
| "fifo_run enq deq (Deq # ops) s =
     do { (r, s') \<leftarrow> deq s;
          (out, s'') \<leftarrow> fifo_run enq deq ops s';
          Some ((case r of None \<Rightarrow> out | Some a \<Rightarrow> a # out), s'') }"

text \<open>
  The contract of a queue whose entries may have a side condition \<open>can_enq\<close> (an
  intrusive list refuses an entry that is already linked).
\<close>

locale fifo =
  fixes invar :: "'s \<Rightarrow> bool"
    and content :: "'s \<Rightarrow> 'a list"
    and can_enq :: "'a \<Rightarrow> 's \<Rightarrow> bool"
    and enq :: "'a \<Rightarrow> 's \<Rightarrow> 's option"
    and deq :: "'s \<Rightarrow> ('a option \<times> 's) option"
  assumes enq_law: "invar s \<Longrightarrow> can_enq a s \<Longrightarrow>
      \<exists>s'. enq a s = Some s' \<and> invar s' \<and> content s' = content s @ [a]"
    and deq_Nil_law: "invar s \<Longrightarrow> content s = [] \<Longrightarrow>
      \<exists>s'. deq s = Some (None, s') \<and> invar s' \<and> content s' = []"
    and deq_Cons_law: "invar s \<Longrightarrow> content s = a # as \<Longrightarrow>
      \<exists>s'. deq s = Some (Some a, s') \<and> invar s' \<and> content s' = as"
begin

lemma deq_total:
  assumes "invar s"
  shows "\<exists>r s'. deq s = Some (r, s') \<and> invar s' \<and>
    content s = (case r of None \<Rightarrow> [] | Some a \<Rightarrow> [a]) @ content s' \<and>
    (r = None \<longrightarrow> content s' = [])"
proof (cases "content s")
  case Nil
  with deq_Nil_law [OF assms] show ?thesis by fastforce
next
  case (Cons a as)
  with deq_Cons_law [OF assms Cons] show ?thesis by fastforce
qed

text \<open>A queue without side condition returns what was entered, in order, and keeps the rest.\<close>

lemma run_fifo:
  assumes free: "\<And>a s. can_enq a s"
  shows "invar s \<Longrightarrow> \<exists>out s'. fifo_run enq deq ops s = Some (out, s') \<and> invar s' \<and>
    out @ content s' = content s @ enqueued ops"
proof (induction ops arbitrary: s)
  case Nil
  then show ?case by simp
next
  case (Cons op ops)
  show ?case
  proof (cases op)
    case (Enq a)
    from enq_law [OF Cons.prems free] obtain s1
      where s1: "enq a s = Some s1" "invar s1" "content s1 = content s @ [a]" by blast
    with Cons.IH [OF s1(2)] Enq show ?thesis by auto
  next
    case Deq
    from deq_total [OF Cons.prems] obtain r s1
      where s1: "deq s = Some (r, s1)" "invar s1"
        "content s = (case r of None \<Rightarrow> [] | Some a \<Rightarrow> [a]) @ content s1" by blast
    with Cons.IH [OF s1(2)] Deq show ?thesis
      by (cases r) auto
  qed
qed

end

section \<open>Transition systems\<close>

inductive reachable :: "('s \<Rightarrow> bool) \<Rightarrow> ('s \<Rightarrow> 's \<Rightarrow> bool) \<Rightarrow> 's \<Rightarrow> bool"
  for init :: "'s \<Rightarrow> bool" and step :: "'s \<Rightarrow> 's \<Rightarrow> bool" where
  reachable_init: "init s \<Longrightarrow> reachable init step s"
| reachable_step: "reachable init step s \<Longrightarrow> step s s' \<Longrightarrow> reachable init step s'"

text \<open>
  The contract of a component that several threads drive: an invariant that holds at the
  start and is kept by every atomic step, whichever thread takes it.
\<close>

locale safe_system =
  fixes init :: "'s \<Rightarrow> bool"
    and step :: "'s \<Rightarrow> 's \<Rightarrow> bool"
    and inv :: "'s \<Rightarrow> bool"
  assumes init_law: "init s \<Longrightarrow> inv s"
    and step_law: "inv s \<Longrightarrow> step s s' \<Longrightarrow> inv s'"
begin

lemma reachable_inv: "reachable init step s \<Longrightarrow> inv s"
  by (induction rule: reachable.induct) (auto intro: init_law step_law)

lemma steps_inv: "step\<^sup>*\<^sup>* s s' \<Longrightarrow> inv s \<Longrightarrow> inv s'"
  by (induction rule: rtranclp_induct) (auto intro: step_law)

end

section \<open>Refinement of operations\<close>

text \<open>Operations that may fail, run in order with their answers, beside a reference that never fails.\<close>

primrec run_ops :: "('o \<Rightarrow> 's \<Rightarrow> ('r \<times> 's) option) \<Rightarrow> 'o list \<Rightarrow> 's \<Rightarrow> ('r list \<times> 's) option" where
  "run_ops f [] s = Some ([], s)"
| "run_ops f (x # xs) s =
     (case f x s of None \<Rightarrow> None | Some (r, s1) \<Rightarrow> (case run_ops f xs s1 of None \<Rightarrow> None | Some (rs, s2) \<Rightarrow> Some (r # rs, s2)))"

primrec spec_ops :: "('o \<Rightarrow> 'a \<Rightarrow> 'r \<times> 'a) \<Rightarrow> 'o list \<Rightarrow> 'a \<Rightarrow> 'r list \<times> 'a" where
  "spec_ops g [] a = ([], a)"
| "spec_ops g (x # xs) a = (case g x a of (r, a1) \<Rightarrow> (case spec_ops g xs a1 of (rs, a2) \<Rightarrow> (r # rs, a2)))"

primrec all_allowed :: "('o \<Rightarrow> 'a \<Rightarrow> bool) \<Rightarrow> ('o \<Rightarrow> 'a \<Rightarrow> 'r \<times> 'a) \<Rightarrow> 'o list \<Rightarrow> 'a \<Rightarrow> bool" where
  "all_allowed ok g [] a = True"
| "all_allowed ok g (x # xs) a = (ok x a \<and> all_allowed ok g xs (snd (g x a)))"

locale op_refinement =
  fixes f :: "'o \<Rightarrow> 's \<Rightarrow> ('r \<times> 's) option"
    and g :: "'o \<Rightarrow> 'a \<Rightarrow> 'r \<times> 'a"
    and ok :: "'o \<Rightarrow> 'a \<Rightarrow> bool"
    and rel :: "'s \<Rightarrow> 'a \<Rightarrow> bool"
  assumes op_law: "rel s a \<Longrightarrow> ok x a \<Longrightarrow> \<exists>s'. f x s = Some (fst (g x a), s') \<and> rel s' (snd (g x a))"
begin

lemma ops_refine: "rel s a \<Longrightarrow> all_allowed ok g xs a \<Longrightarrow>
  \<exists>s'. run_ops f xs s = Some (fst (spec_ops g xs a), s') \<and> rel s' (snd (spec_ops g xs a))"
proof (induction xs arbitrary: s a)
  case (Cons x xs)
  obtain s1 where "f x s = Some (fst (g x a), s1)" "rel s1 (snd (g x a))" using op_law [of s a x] Cons.prems by auto
  then show ?case using Cons.IH [of s1 "snd (g x a)"] Cons.prems(2) by (auto split: prod.split)
qed simp

end

end
