(* ===== verification/MsgQueue.thy ===== *)
theory MsgQueue
  imports Prelude
begin

text \<open>
  Model of \<open>core/uboss_mq.c\<close> and \<open>core/uboss_mq.h\<close>: the ring buffer of one service and
  the global run queue, an intrusive list of service queues linked by their \<open>next\<close>
  fields. A slot of a ring that was never written holds \<open>None\<close>: reading it is reading
  uninitialised memory. Each definition is one critical section of the C code (the body
  between taking and releasing the queue's spin lock).
\<close>

section \<open>Messages and service queues\<close>

record uboss_message =
  msg_source :: u32
  msg_session :: i32
  msg_data :: ptr
  msg_sz :: u64

definition DEFAULT_QUEUE_SIZE :: nat where
  "DEFAULT_QUEUE_SIZE = 64"

definition MQ_OVERLOAD :: nat where
  "MQ_OVERLOAD = 1024"

definition MESSAGE_TYPE_SHIFT :: nat where
  "MESSAGE_TYPE_SHIFT = 56"

definition MESSAGE_TYPE_MASK :: u64 where
  "MESSAGE_TYPE_MASK = drop_bit 8 (- 1)"

record message_queue =
  mq_handle :: u32
  mq_cap :: nat
  mq_head :: nat
  mq_tail :: nat
  mq_release :: bool
  mq_in_global :: bool
  mq_overload :: nat
  mq_overload_threshold :: nat
  mq_queue :: "uboss_message option list"
  mq_next :: "ptr option"

record global_queue =
  gq_head :: "ptr option"
  gq_tail :: "ptr option"

record mq_state =
  mq_heap :: "ptr \<rightharpoonup> message_queue"
  mq_Q :: global_queue
  mq_brk :: ptr

definition mq_put :: "ptr \<Rightarrow> message_queue \<Rightarrow> mq_state \<Rightarrow> mq_state" where
  "mq_put p q S = S\<lparr>mq_heap := (mq_heap S)(p \<mapsto> q)\<rparr>"

section \<open>The global run queue\<close>

definition uboss_globalmq_push :: "ptr \<Rightarrow> mq_state \<Rightarrow> mq_state option" where
  "uboss_globalmq_push p S =
     do { queue \<leftarrow> mq_heap S p;
          guard (mq_next queue = None);
          case gq_tail (mq_Q S) of
            Some t \<Rightarrow>
              do { tq \<leftarrow> mq_heap S t;
                   let S1 = mq_put t (tq\<lparr>mq_next := Some p\<rparr>) S;
                   Some (S1\<lparr>mq_Q := (mq_Q S)\<lparr>gq_tail := Some p\<rparr>\<rparr>) }
          | None \<Rightarrow> Some (S\<lparr>mq_Q := \<lparr>gq_head = Some p, gq_tail = Some p\<rparr>\<rparr>) }"

definition uboss_globalmq_pop :: "mq_state \<Rightarrow> (ptr option \<times> mq_state) option" where
  "uboss_globalmq_pop S =
     (case gq_head (mq_Q S) of
        None \<Rightarrow> Some (None, S)
      | Some p \<Rightarrow>
          do { mq \<leftarrow> mq_heap S p;
               let Q1 = (mq_Q S)\<lparr>gq_head := mq_next mq\<rparr>;
               Q2 \<leftarrow> (if gq_head Q1 = None
                       then do { guard (Some p = gq_tail Q1); Some (Q1\<lparr>gq_tail := None\<rparr>) }
                       else Some Q1);
               Some (Some p, mq_put p (mq\<lparr>mq_next := None\<rparr>) (S\<lparr>mq_Q := Q2\<rparr>)) })"

definition uboss_mq_init :: mq_state where
  "uboss_mq_init = \<lparr>mq_heap = Map.empty, mq_Q = \<lparr>gq_head = None, gq_tail = None\<rparr>, mq_brk = 1\<rparr>"

section \<open>Operations on one service queue\<close>

definition mq_new :: "u32 \<Rightarrow> message_queue" where
  "mq_new handle =
     \<lparr>mq_handle = handle, mq_cap = DEFAULT_QUEUE_SIZE, mq_head = 0, mq_tail = 0,
      mq_release = False, mq_in_global = True, mq_overload = 0,
      mq_overload_threshold = MQ_OVERLOAD,
      mq_queue = replicate DEFAULT_QUEUE_SIZE None, mq_next = None\<rparr>"

definition uboss_mq_create :: "u32 \<Rightarrow> mq_state \<Rightarrow> ptr \<times> mq_state" where
  "uboss_mq_create handle S =
     (mq_brk S, (mq_put (mq_brk S) (mq_new handle) S)\<lparr>mq_brk := Suc (mq_brk S)\<rparr>)"

definition mq_free :: "ptr \<Rightarrow> mq_state \<Rightarrow> mq_state option" where
  \<comment> \<open>the static function \<open>_release\<close>\<close>
  "mq_free p S =
     do { q \<leftarrow> mq_heap S p;
          guard (mq_next q = None);
          Some (S\<lparr>mq_heap := (mq_heap S)(p := None)\<rparr>) }"

definition uboss_mq_length :: "message_queue \<Rightarrow> nat" where
  "uboss_mq_length q =
     (if mq_head q \<le> mq_tail q then mq_tail q - mq_head q
      else mq_tail q + mq_cap q - mq_head q)"

definition uboss_mq_overload :: "message_queue \<Rightarrow> nat \<times> message_queue" where
  "uboss_mq_overload q =
     (if mq_overload q \<noteq> 0 then (mq_overload q, q\<lparr>mq_overload := 0\<rparr>) else (0, q))"

partial_function (option) mq_raise_threshold ::
    "nat \<Rightarrow> message_queue \<Rightarrow> message_queue option" where
  "mq_raise_threshold len q =
     (if mq_overload_threshold q < len
      then mq_raise_threshold len
             (q\<lparr>mq_overload := len, mq_overload_threshold := mq_overload_threshold q * 2\<rparr>)
      else Some q)"

definition uboss_mq_pop ::
    "message_queue \<Rightarrow> (uboss_message option \<times> message_queue) option" where
  "uboss_mq_pop q =
     (if mq_head q \<noteq> mq_tail q then
        do { guard (mq_head q < length (mq_queue q));
             message \<leftarrow> mq_queue q ! mq_head q;
             let head = (if Suc (mq_head q) \<ge> mq_cap q then 0 else Suc (mq_head q));
             let len = (if head \<le> mq_tail q then mq_tail q - head
                        else mq_tail q + mq_cap q - head);
             q1 \<leftarrow> mq_raise_threshold len (q\<lparr>mq_head := head\<rparr>);
             Some (Some message, q1) }
      else Some (None, q\<lparr>mq_overload_threshold := MQ_OVERLOAD, mq_in_global := False\<rparr>))"

definition expand_queue :: "message_queue \<Rightarrow> message_queue" where
  "expand_queue q =
     q\<lparr>mq_queue := map (\<lambda>i. mq_queue q ! ((mq_head q + i) mod mq_cap q)) [0..<mq_cap q]
                   @ replicate (mq_cap q) None,
       mq_head := 0, mq_tail := mq_cap q, mq_cap := mq_cap q * 2\<rparr>"

definition mq_store :: "uboss_message \<Rightarrow> message_queue \<Rightarrow> message_queue option" where
  \<comment> \<open>the part of \<open>uboss_mq_push\<close> that touches the queue alone\<close>
  "mq_store message q =
     do { guard (mq_tail q < length (mq_queue q));
          let tail = (if Suc (mq_tail q) \<ge> mq_cap q then 0 else Suc (mq_tail q));
          let q1 = q\<lparr>mq_queue := (mq_queue q)[mq_tail q := Some message], mq_tail := tail\<rparr>;
          Some (if mq_head q1 = mq_tail q1 then expand_queue q1 else q1) }"

definition uboss_mq_push :: "ptr \<Rightarrow> uboss_message \<Rightarrow> mq_state \<Rightarrow> mq_state option" where
  "uboss_mq_push p message S =
     do { q \<leftarrow> mq_heap S p;
          q1 \<leftarrow> mq_store message q;
          if mq_in_global q1 then Some (mq_put p q1 S)
          else uboss_globalmq_push p (mq_put p (q1\<lparr>mq_in_global := True\<rparr>) S) }"

definition uboss_mq_mark_release :: "ptr \<Rightarrow> mq_state \<Rightarrow> mq_state option" where
  "uboss_mq_mark_release p S =
     do { q \<leftarrow> mq_heap S p;
          guard (\<not> mq_release q);
          let S1 = mq_put p (q\<lparr>mq_release := True\<rparr>) S;
          if mq_in_global q then Some S1 else uboss_globalmq_push p S1 }"

section \<open>The ring buffer keeps its messages\<close>

definition mq_wf :: "message_queue \<Rightarrow> bool" where
  "mq_wf q \<longleftrightarrow> 0 < mq_cap q \<and> length (mq_queue q) = mq_cap q \<and> mq_head q < mq_cap q \<and>
     mq_tail q < mq_cap q \<and> 0 < mq_overload_threshold q \<and>
     (\<forall>i < uboss_mq_length q. mq_queue q ! ((mq_head q + i) mod mq_cap q) \<noteq> None)"

definition mq_content :: "message_queue \<Rightarrow> uboss_message list" where
  "mq_content q =
     map (\<lambda>i. the (mq_queue q ! ((mq_head q + i) mod mq_cap q))) [0..<uboss_mq_length q]"

lemma length_mq_content [simp]: "length (mq_content q) = uboss_mq_length q"
  by (simp add: mq_content_def)

lemma mq_new_wf [simp]: "mq_wf (mq_new h)"
  by (simp add: mq_wf_def mq_new_def DEFAULT_QUEUE_SIZE_def MQ_OVERLOAD_def uboss_mq_length_def)

lemma mq_new_content [simp]: "mq_content (mq_new h) = []"
  by (simp add: mq_content_def mq_new_def uboss_mq_length_def)

lemma mq_wf_length_less: "mq_wf q \<Longrightarrow> uboss_mq_length q < mq_cap q"
  by (auto simp: mq_wf_def uboss_mq_length_def)

lemma mq_wf_tail: "mq_wf q \<Longrightarrow> mq_tail q = (mq_head q + uboss_mq_length q) mod mq_cap q"
  by (auto simp: mq_wf_def uboss_mq_length_def mod_if)

lemma mq_slot_ne_tail:
  assumes "mq_wf q" "i < uboss_mq_length q"
  shows "(mq_head q + i) mod mq_cap q \<noteq> mq_tail q"
proof -
  have "i < mq_cap q" using assms mq_wf_length_less by fastforce
  then have "(mq_head q + i) mod mq_cap q =
      (if mq_head q + i < mq_cap q then mq_head q + i else mq_head q + i - mq_cap q)"
    using assms(1) by (intro mod_add_less_self) (auto simp: mq_wf_def)
  then show ?thesis using assms by (auto simp: mq_wf_def uboss_mq_length_def split: if_splits)
qed

lemma mq_empty_iff: "mq_wf q \<Longrightarrow> mq_content q = [] \<longleftrightarrow> mq_head q = mq_tail q"
  by (auto simp: mq_content_def uboss_mq_length_def mq_wf_def)

lemma mq_raise_threshold_ok:
  assumes "0 < mq_overload_threshold q"
  shows "\<exists>ov th. mq_raise_threshold len q =
      Some (q\<lparr>mq_overload := ov, mq_overload_threshold := th\<rparr>) \<and> len \<le> th \<and> 0 < th"
  using assms
proof (induction "len - mq_overload_threshold q" arbitrary: q rule: less_induct)
  case less
  show ?case
  proof (cases "mq_overload_threshold q < len")
    case True
    let ?q = "q\<lparr>mq_overload := len, mq_overload_threshold := mq_overload_threshold q * 2\<rparr>"
    have "len - mq_overload_threshold ?q < len - mq_overload_threshold q"
      using True less.prems by simp
    with less.hyps [of ?q] less.prems
    obtain ov th where "mq_raise_threshold len ?q =
        Some (?q\<lparr>mq_overload := ov, mq_overload_threshold := th\<rparr>)" "len \<le> th" "0 < th"
      by auto
    moreover have "mq_raise_threshold len q = mq_raise_threshold len ?q"
      using True by (subst mq_raise_threshold.simps) simp
    ultimately show ?thesis by auto
  next
    case False
    have "mq_raise_threshold len q =
        Some (q\<lparr>mq_overload := mq_overload q, mq_overload_threshold := mq_overload_threshold q\<rparr>)"
      using False by (subst mq_raise_threshold.simps) simp
    with False less.prems show ?thesis
      by (intro exI [of _ "mq_overload q"] exI [of _ "mq_overload_threshold q"]) auto
  qed
qed

lemma mq_wf_overload [simp]:
  "0 < th \<Longrightarrow> 0 < mq_overload_threshold q \<Longrightarrow>
     mq_wf (q\<lparr>mq_overload := ov, mq_overload_threshold := th\<rparr>) = mq_wf q"
  "mq_content (q\<lparr>mq_overload := ov, mq_overload_threshold := th\<rparr>) = mq_content q"
  by (simp_all add: mq_wf_def mq_content_def uboss_mq_length_def)

lemma mq_flags_irrelevant [simp]:
  "mq_wf (q\<lparr>mq_in_global := b\<rparr>) = mq_wf q"
  "mq_wf (q\<lparr>mq_release := b\<rparr>) = mq_wf q"
  "mq_wf (q\<lparr>mq_next := n\<rparr>) = mq_wf q"
  "mq_content (q\<lparr>mq_in_global := b\<rparr>) = mq_content q"
  "mq_content (q\<lparr>mq_release := b\<rparr>) = mq_content q"
  "mq_content (q\<lparr>mq_next := n\<rparr>) = mq_content q"
  by (simp_all add: mq_wf_def mq_content_def uboss_mq_length_def)

text \<open>Popping an empty queue clears the \<open>in_global\<close> flag and resets the threshold.\<close>

lemma uboss_mq_pop_Nil:
  assumes "mq_wf q" "mq_content q = []"
  shows "uboss_mq_pop q =
     Some (None, q\<lparr>mq_overload_threshold := MQ_OVERLOAD, mq_in_global := False\<rparr>)"
  using assms by (simp add: uboss_mq_pop_def mq_empty_iff)

lemma mq_reset_threshold [simp]:
  "mq_wf q \<Longrightarrow> mq_wf (q\<lparr>mq_overload_threshold := MQ_OVERLOAD\<rparr>)"
  "mq_content (q\<lparr>mq_overload_threshold := MQ_OVERLOAD\<rparr>) = mq_content q"
  by (simp_all add: mq_wf_def mq_content_def uboss_mq_length_def MQ_OVERLOAD_def)

lemma mq_advance:
  assumes "mq_wf q" "mq_head q \<noteq> mq_tail q"
  defines "h \<equiv> (if Suc (mq_head q) \<ge> mq_cap q then 0 else Suc (mq_head q))"
  shows "h = Suc (mq_head q) mod mq_cap q"
    and "uboss_mq_length q = Suc (uboss_mq_length (q\<lparr>mq_head := h\<rparr>))"
    and "mq_wf (q\<lparr>mq_head := h\<rparr>)"
    and "mq_content q = the (mq_queue q ! mq_head q) # mq_content (q\<lparr>mq_head := h\<rparr>)"
proof -
  from assms(1) show h: "h = Suc (mq_head q) mod mq_cap q"
    by (auto simp: h_def mq_wf_def mod_if)
  from assms show len: "uboss_mq_length q = Suc (uboss_mq_length (q\<lparr>mq_head := h\<rparr>))"
    by (auto simp: h_def mq_wf_def uboss_mq_length_def)
  have shift: "(h + i) mod mq_cap q = (mq_head q + Suc i) mod mq_cap q" for i
    by (simp add: h mod_add_left_eq)
  have "\<forall>i < uboss_mq_length (q\<lparr>mq_head := h\<rparr>). mq_queue q ! ((h + i) mod mq_cap q) \<noteq> None"
    using assms(1) len unfolding shift mq_wf_def by (metis Suc_less_eq)
  moreover have "h < mq_cap q" using assms(1) by (auto simp: h_def mq_wf_def)
  ultimately show "mq_wf (q\<lparr>mq_head := h\<rparr>)"
    using assms(1) by (simp add: mq_wf_def)
  show "mq_content q = the (mq_queue q ! mq_head q) # mq_content (q\<lparr>mq_head := h\<rparr>)"
    using assms(1) by (simp add: mq_content_def len map_upt_Suc_shift shift mq_wf_def
        del: upt_Suc)
qed

lemma uboss_mq_pop_Cons:
  assumes wf: "mq_wf q" and cons: "mq_content q = m # ms"
  shows "\<exists>h ov th. uboss_mq_pop q =
      Some (Some m, q\<lparr>mq_head := h, mq_overload := ov, mq_overload_threshold := th\<rparr>) \<and>
    0 < th \<and> length ms \<le> th \<and>
    mq_wf (q\<lparr>mq_head := h, mq_overload := ov, mq_overload_threshold := th\<rparr>) \<and>
    mq_content (q\<lparr>mq_head := h, mq_overload := ov, mq_overload_threshold := th\<rparr>) = ms"
proof -
  define h where "h = (if Suc (mq_head q) \<ge> mq_cap q then 0 else Suc (mq_head q))"
  from wf cons have ne: "mq_head q \<noteq> mq_tail q" using mq_empty_iff by fastforce
  note adv = mq_advance [OF wf ne, folded h_def]
  let ?q = "q\<lparr>mq_head := h\<rparr>"
  from wf adv(2) have slot: "mq_queue q ! mq_head q \<noteq> None"
    by (auto simp: mq_wf_def dest: spec [where x = 0])
  with cons adv(4) have m: "mq_queue q ! mq_head q = Some m" and ms: "mq_content ?q = ms"
    by auto
  have th: "0 < mq_overload_threshold ?q" using adv(3) by (simp add: mq_wf_def)
  then obtain ov th' where r: "mq_raise_threshold (uboss_mq_length ?q) ?q =
      Some (?q\<lparr>mq_overload := ov, mq_overload_threshold := th'\<rparr>)"
      "uboss_mq_length ?q \<le> th'" "0 < th'"
    using mq_raise_threshold_ok by blast
  have len: "(if h \<le> mq_tail q then mq_tail q - h else mq_tail q + mq_cap q - h) =
      uboss_mq_length ?q"
    by (simp add: uboss_mq_length_def)
  have "uboss_mq_pop q = Some (Some m, ?q\<lparr>mq_overload := ov, mq_overload_threshold := th'\<rparr>)"
    unfolding uboss_mq_pop_def Let_def h_def [symmetric] len
    using ne m wf r(1) by (simp add: mq_wf_def)
  moreover have "length ms \<le> th'" using r(2) ms by (metis length_mq_content)
  moreover have "mq_wf (?q\<lparr>mq_overload := ov, mq_overload_threshold := th'\<rparr>)"
    using adv(3) r(3) th by simp
  ultimately show ?thesis using ms r(3) by auto
qed

lemma expand_queue_wf:
  assumes "0 < mq_cap q" "length (mq_queue q) = mq_cap q" "mq_head q < mq_cap q"
    "0 < mq_overload_threshold q"
    "\<forall>i < mq_cap q. mq_queue q ! ((mq_head q + i) mod mq_cap q) \<noteq> None"
  shows "mq_wf (expand_queue q)"
    and "mq_content (expand_queue q) =
      map (\<lambda>i. the (mq_queue q ! ((mq_head q + i) mod mq_cap q))) [0..<mq_cap q]"
  using assms
  by (simp_all add: mq_wf_def mq_content_def expand_queue_def uboss_mq_length_def nth_append)

lemma mq_stored_slot:
  assumes "mq_wf q" "i \<le> uboss_mq_length q"
  shows "(mq_queue q)[mq_tail q := Some m] ! ((mq_head q + i) mod mq_cap q) =
    (if i = uboss_mq_length q then Some m else mq_queue q ! ((mq_head q + i) mod mq_cap q))"
proof (cases "i = uboss_mq_length q")
  case True
  with assms(1) show ?thesis by (simp add: mq_wf_tail [symmetric]) (simp add: mq_wf_def)
next
  case False
  with assms mq_slot_ne_tail [of q i] show ?thesis by auto
qed

lemma mq_store_ok:
  assumes wf: "mq_wf q"
  shows "\<exists>q'. mq_store m q = Some q' \<and> mq_wf q' \<and> mq_content q' = mq_content q @ [m]"
proof -
  let ?L = "uboss_mq_length q"
  define t where "t = (if Suc (mq_tail q) \<ge> mq_cap q then 0 else Suc (mq_tail q))"
  define q1 where
    "q1 = q\<lparr>mq_queue := (mq_queue q)[mq_tail q := Some m], mq_tail := t\<rparr>"
  have store: "mq_store m q = Some (if mq_head q = t then expand_queue q1 else q1)"
    using wf by (simp add: mq_store_def t_def [symmetric] q1_def mq_wf_def)
  have slot: "i \<le> ?L \<Longrightarrow> mq_queue q1 ! ((mq_head q + i) mod mq_cap q) =
      (if i = ?L then Some m else mq_queue q ! ((mq_head q + i) mod mq_cap q))" for i
    using mq_stored_slot [OF wf] by (simp add: q1_def)
  then have full: "\<forall>i < Suc ?L. mq_queue q1 ! ((mq_head q + i) mod mq_cap q) \<noteq> None"
    using wf by (auto simp: mq_wf_def less_Suc_eq_le)
  have cont: "map (\<lambda>i. the (mq_queue q1 ! ((mq_head q + i) mod mq_cap q))) [0..<Suc ?L] =
      mq_content q @ [m]"
    by (simp add: mq_content_def slot del: mod_add_left_eq)
  show ?thesis
  proof (cases "mq_head q = t")
    case True
    with wf have cap: "mq_cap q = Suc ?L"
      by (auto simp: t_def mq_wf_def uboss_mq_length_def split: if_splits)
    have "mq_wf (expand_queue q1)" "mq_content (expand_queue q1) = mq_content q @ [m]"
      using expand_queue_wf [of q1] full cont wf cap
      by (auto simp: q1_def mq_wf_def simp del: upt_Suc)
    with True store show ?thesis by simp
  next
    case False
    with wf have len: "uboss_mq_length q1 = Suc ?L"
      by (auto simp: q1_def t_def mq_wf_def uboss_mq_length_def)
    have "t < mq_cap q" using wf by (auto simp: t_def mq_wf_def)
    with full wf len have "mq_wf q1" by (simp add: mq_wf_def q1_def)
    moreover have "mq_content q1 = mq_content q @ [m]"
      using cont by (simp add: mq_content_def [of q1] len del: upt_Suc) (simp add: q1_def)
    ultimately show ?thesis using False store by simp
  qed
qed

lemma mq_store_frame:
  assumes "mq_store m q = Some q'"
  shows "mq_handle q' = mq_handle q" "mq_release q' = mq_release q"
    "mq_in_global q' = mq_in_global q" "mq_next q' = mq_next q"
    "mq_overload_threshold q' = mq_overload_threshold q"
  using assms by (auto simp: mq_store_def expand_queue_def Let_def split: if_splits)

lemma mq_pop_law:
  assumes "mq_wf q"
  shows "\<exists>r q'. uboss_mq_pop q = Some (r, q') \<and> mq_wf q' \<and>
    mq_content q = (case r of None \<Rightarrow> [] | Some m \<Rightarrow> [m]) @ mq_content q' \<and>
    (r = None \<longrightarrow> mq_content q' = []) \<and>
    mq_in_global q' = (r \<noteq> None \<and> mq_in_global q)"
proof (cases "mq_content q")
  case Nil
  with assms show ?thesis by (simp add: uboss_mq_pop_Nil)
next
  case (Cons m ms)
  from uboss_mq_pop_Cons [OF assms Cons] Cons show ?thesis by fastforce
qed

lemma mq_pop_frame:
  assumes "mq_wf q" "uboss_mq_pop q = Some (r, q')"
  shows "mq_handle q' = mq_handle q" "mq_release q' = mq_release q" "mq_next q' = mq_next q"
proof -
  have "\<exists>h ov th b. q' = q\<lparr>mq_head := h, mq_overload := ov, mq_overload_threshold := th,
      mq_in_global := b\<rparr>"
  proof (cases "mq_content q")
    case Nil
    with assms have "q' = q\<lparr>mq_overload_threshold := MQ_OVERLOAD, mq_in_global := False\<rparr>"
      by (simp add: uboss_mq_pop_Nil)
    then have "q' = q\<lparr>mq_head := mq_head q, mq_overload := mq_overload q,
        mq_overload_threshold := MQ_OVERLOAD, mq_in_global := False\<rparr>" by simp
    then show ?thesis by blast
  next
    case (Cons m ms)
    from uboss_mq_pop_Cons [OF assms(1) Cons] assms(2) obtain h ov th
      where "q' = q\<lparr>mq_head := h, mq_overload := ov, mq_overload_threshold := th\<rparr>" by auto
    then have "q' = q\<lparr>mq_head := h, mq_overload := ov, mq_overload_threshold := th,
        mq_in_global := mq_in_global q\<rparr>" by simp
    then show ?thesis by blast
  qed
  then show "mq_handle q' = mq_handle q" "mq_release q' = mq_release q" "mq_next q' = mq_next q"
    by auto
qed

interpretation service_queue: fifo mq_wf mq_content "\<lambda>m q. True" mq_store uboss_mq_pop
proof unfold_locales
  fix q :: message_queue and m
  assume "mq_wf q"
  then show "\<exists>q'. mq_store m q = Some q' \<and> mq_wf q' \<and> mq_content q' = mq_content q @ [m]"
    by (rule mq_store_ok)
next
  fix q :: message_queue
  assume "mq_wf q" "mq_content q = []"
  then show "\<exists>q'. uboss_mq_pop q = Some (None, q') \<and> mq_wf q' \<and> mq_content q' = []"
    by (simp add: uboss_mq_pop_Nil)
next
  fix q :: message_queue and m ms
  assume "mq_wf q" "mq_content q = m # ms"
  then show "\<exists>q'. uboss_mq_pop q = Some (Some m, q') \<and> mq_wf q' \<and> mq_content q' = ms"
    using uboss_mq_pop_Cons by blast
qed

section \<open>The global run queue is a list of distinct queues\<close>

fun mq_chain :: "(ptr \<rightharpoonup> message_queue) \<Rightarrow> ptr option \<Rightarrow> ptr list \<Rightarrow> bool" where
  "mq_chain H p [] = (p = None)"
| "mq_chain H p (a # as) =
     (p = Some a \<and> (case H a of None \<Rightarrow> False | Some q \<Rightarrow> mq_chain H (mq_next q) as))"

text \<open>
  \<open>gq_inv S qs\<close>: the run queue of \<open>S\<close> is the list \<open>qs\<close>, the tail pointer is its last
  element, and no queue outside the list has a successor.
\<close>

definition gq_inv :: "mq_state \<Rightarrow> ptr list \<Rightarrow> bool" where
  "gq_inv S qs \<longleftrightarrow> mq_chain (mq_heap S) (gq_head (mq_Q S)) qs \<and> distinct qs \<and>
     gq_tail (mq_Q S) = (if qs = [] then None else Some (last qs)) \<and>
     (\<forall>p q. mq_heap S p = Some q \<longrightarrow> p \<notin> set qs \<longrightarrow> mq_next q = None) \<and>
     (\<forall>p. mq_heap S p \<noteq> None \<longrightarrow> p < mq_brk S)"

lemma mq_chain_dom: "mq_chain H p qs \<Longrightarrow> a \<in> set qs \<Longrightarrow> \<exists>q. H a = Some q"
  by (induction qs arbitrary: p) (auto split: option.splits)

lemma mq_chain_last: "mq_chain H p qs \<Longrightarrow> qs \<noteq> [] \<Longrightarrow> \<exists>q. H (last qs) = Some q \<and> mq_next q = None"
  by (induction qs arbitrary: p) (auto split: option.splits if_splits)

lemma mq_chain_cong:
  assumes "\<And>a. a \<in> set qs \<Longrightarrow> \<exists>q q'. H a = Some q \<and> H' a = Some q' \<and> mq_next q = mq_next q'"
  shows "mq_chain H p qs = mq_chain H' p qs"
  using assms by (induction qs arbitrary: p) (fastforce split: option.splits)+

lemma mq_chain_upd_next:
  assumes "H a = Some q" "mq_next q' = mq_next q"
  shows "mq_chain (H(a \<mapsto> q')) p qs = mq_chain H p qs"
  using assms by (induction qs arbitrary: p) (auto split: option.splits)

lemma mq_chain_upd_notin:
  "a \<notin> set qs \<Longrightarrow> mq_chain (H(a := x)) p qs = mq_chain H p qs"
  by (induction qs arbitrary: p) (auto split: option.splits)

lemma mq_chain_snoc:
  assumes "mq_chain H p qs" "qs \<noteq> []" "distinct qs" "a \<notin> set qs"
    "H (last qs) = Some t" "H a = Some q" "mq_next q = None"
  shows "mq_chain (H(last qs \<mapsto> t\<lparr>mq_next := Some a\<rparr>)) p (qs @ [a])"
  using assms
proof (induction qs arbitrary: p)
  case Nil
  then show ?case by simp
next
  case (Cons b bs)
  show ?case
  proof (cases "bs = []")
    case True
    with Cons.prems show ?thesis by (auto split: option.splits)
  next
    case False
    with Cons show ?thesis by (auto split: option.splits)
  qed
qed

lemma gq_inv_init [simp]: "gq_inv uboss_mq_init []"
  by (simp add: gq_inv_def uboss_mq_init_def)

lemma gq_inv_dom: "gq_inv S qs \<Longrightarrow> a \<in> set qs \<Longrightarrow> \<exists>q. mq_heap S a = Some q"
  by (auto simp: gq_inv_def dest: mq_chain_dom)

text \<open>The queues of a state up to their \<open>next\<close> links.\<close>

definition mq_core :: "message_queue \<Rightarrow> message_queue" where
  "mq_core q = q\<lparr>mq_next := None\<rparr>"

definition mq_cores :: "mq_state \<Rightarrow> ptr \<rightharpoonup> message_queue" where
  "mq_cores S = (\<lambda>p. map_option mq_core (mq_heap S p))"

lemma mq_core_simps [simp]:
  "mq_handle (mq_core q) = mq_handle q" "mq_release (mq_core q) = mq_release q"
  "mq_in_global (mq_core q) = mq_in_global q" "mq_wf (mq_core q) = mq_wf q"
  "mq_content (mq_core q) = mq_content q" "mq_core (q\<lparr>mq_next := n\<rparr>) = mq_core q"
  by (simp_all add: mq_core_def)

lemma mq_cores_SomeD: "mq_cores S p = Some c \<Longrightarrow> \<exists>q. mq_heap S p = Some q \<and> mq_core q = c"
  by (auto simp: mq_cores_def)

lemma mq_cores_None [simp]: "mq_cores S p = None \<longleftrightarrow> mq_heap S p = None"
  by (simp add: mq_cores_def)

lemma mq_cores_put [simp]: "mq_cores (mq_put p q S) = (mq_cores S)(p \<mapsto> mq_core q)"
  by (auto simp: mq_cores_def mq_put_def)

lemma mq_heap_put [simp]: "mq_heap (mq_put p q S) = (mq_heap S)(p \<mapsto> q)"
  "mq_Q (mq_put p q S) = mq_Q S" "mq_brk (mq_put p q S) = mq_brk S"
  by (simp_all add: mq_put_def)

lemma globalmq_push_ok:
  assumes inv: "gq_inv S qs" and q: "mq_heap S p = Some q" and new: "p \<notin> set qs"
  shows "\<exists>S'. uboss_globalmq_push p S = Some S' \<and> gq_inv S' (qs @ [p]) \<and>
    mq_cores S' = mq_cores S \<and> mq_brk S' = mq_brk S"
proof -
  from inv q new have nx: "mq_next q = None" by (auto simp: gq_inv_def)
  show ?thesis
  proof (cases "qs = []")
    case True
    let ?S = "S\<lparr>mq_Q := \<lparr>gq_head = Some p, gq_tail = Some p\<rparr>\<rparr>"
    have "gq_inv ?S [p]" using inv True q nx by (auto simp: gq_inv_def)
    moreover have "uboss_globalmq_push p S = Some ?S"
      using inv True q nx by (simp add: uboss_globalmq_push_def gq_inv_def)
    ultimately show ?thesis using True by (auto simp: mq_cores_def)
  next
    case False
    with inv obtain t where t: "mq_heap S (last qs) = Some t" "mq_next t = None"
      by (auto simp: gq_inv_def dest: mq_chain_last)
    let ?S = "(mq_put (last qs) (t\<lparr>mq_next := Some p\<rparr>) S)\<lparr>mq_Q := (mq_Q S)\<lparr>gq_tail := Some p\<rparr>\<rparr>"
    have push: "uboss_globalmq_push p S = Some ?S"
      using inv False q nx t by (simp add: uboss_globalmq_push_def gq_inv_def Let_def)
    have "gq_inv ?S (qs @ [p])"
      using inv False q nx t new
      by (auto simp: gq_inv_def mq_put_def intro!: mq_chain_snoc)
    moreover have "mq_cores ?S = mq_cores S"
      using t by (auto simp: mq_put_def mq_cores_def mq_core_def)
    ultimately show ?thesis using push by (auto simp: mq_put_def)
  qed
qed

lemma globalmq_pop_Nil: "gq_inv S [] \<Longrightarrow> uboss_globalmq_pop S = Some (None, S)"
  by (simp add: uboss_globalmq_pop_def gq_inv_def)

lemma globalmq_pop_Cons:
  assumes inv: "gq_inv S (p # qs)"
  shows "\<exists>S'. uboss_globalmq_pop S = Some (Some p, S') \<and> gq_inv S' qs \<and>
    mq_cores S' = mq_cores S \<and> mq_brk S' = mq_brk S"
proof -
  from inv obtain q where q: "mq_heap S p = Some q" "mq_chain (mq_heap S) (mq_next q) qs"
    "p \<notin> set qs" "gq_head (mq_Q S) = Some p"
    by (auto simp: gq_inv_def split: option.splits)
  let ?Q = "\<lparr>gq_head = mq_next q, gq_tail = (if qs = [] then None else Some (last qs))\<rparr>"
  let ?S = "mq_put p (q\<lparr>mq_next := None\<rparr>) (S\<lparr>mq_Q := ?Q\<rparr>)"
  have nx: "(mq_next q = None) = (qs = [])" using q(2) by (cases qs) auto
  have tl: "gq_tail (mq_Q S) = Some (last (p # qs))" using inv by (simp add: gq_inv_def)
  have "uboss_globalmq_pop S = Some (Some p, ?S)"
    using q nx tl by (cases "mq_Q S") (auto simp: uboss_globalmq_pop_def Let_def)
  moreover have "gq_inv ?S qs"
    using inv q by (auto simp: gq_inv_def mq_put_def mq_chain_upd_notin)
  moreover have "mq_cores ?S = mq_cores S"
    using q by (auto simp: mq_put_def mq_cores_def mq_core_def)
  ultimately show ?thesis by (auto simp: mq_put_def)
qed

text \<open>The run queue as a list, read off the links; \<open>mq_brk\<close> bounds its length.\<close>

fun gq_walk :: "(ptr \<rightharpoonup> message_queue) \<Rightarrow> nat \<Rightarrow> ptr option \<Rightarrow> ptr list" where
  "gq_walk H n None = []"
| "gq_walk H 0 (Some p) = []"
| "gq_walk H (Suc n) (Some p) =
     p # (case H p of None \<Rightarrow> [] | Some q \<Rightarrow> gq_walk H n (mq_next q))"

definition gq_content :: "mq_state \<Rightarrow> ptr list" where
  "gq_content S = gq_walk (mq_heap S) (mq_brk S) (gq_head (mq_Q S))"

lemma gq_walk_chain: "mq_chain H p qs \<Longrightarrow> length qs \<le> n \<Longrightarrow> gq_walk H n p = qs"
proof (induction qs arbitrary: p n)
  case Nil
  then show ?case by simp
next
  case (Cons a qs)
  then show ?case by (cases n) (auto split: option.splits)
qed

lemma gq_inv_length: "gq_inv S qs \<Longrightarrow> length qs \<le> mq_brk S"
proof -
  assume inv: "gq_inv S qs"
  then have "set qs \<subseteq> {..<mq_brk S}"
    using gq_inv_dom [OF inv] by (fastforce simp: gq_inv_def)
  then have "card (set qs) \<le> mq_brk S" by (metis card_lessThan card_mono finite_lessThan)
  with inv show "length qs \<le> mq_brk S" by (simp add: gq_inv_def distinct_card)
qed

lemma gq_content_eq: "gq_inv S qs \<Longrightarrow> gq_content S = qs"
  using gq_inv_length by (auto simp: gq_content_def gq_inv_def intro!: gq_walk_chain)

interpretation run_queue: fifo "\<lambda>S. gq_inv S (gq_content S)" gq_content
    "\<lambda>p S. p \<in> dom (mq_heap S) \<and> p \<notin> set (gq_content S)"
    uboss_globalmq_push uboss_globalmq_pop
proof unfold_locales
  fix S p
  assume "gq_inv S (gq_content S)" "p \<in> dom (mq_heap S) \<and> p \<notin> set (gq_content S)"
  then obtain S' where "uboss_globalmq_push p S = Some S'" "gq_inv S' (gq_content S @ [p])"
    using globalmq_push_ok by blast
  then show "\<exists>S'. uboss_globalmq_push p S = Some S' \<and> gq_inv S' (gq_content S') \<and>
      gq_content S' = gq_content S @ [p]"
    using gq_content_eq by fastforce
next
  fix S
  assume "gq_inv S (gq_content S)" "gq_content S = []"
  then show "\<exists>S'. uboss_globalmq_pop S = Some (None, S') \<and> gq_inv S' (gq_content S') \<and>
      gq_content S' = []"
    by (simp add: globalmq_pop_Nil)
next
  fix S p qs
  assume "gq_inv S (gq_content S)" "gq_content S = p # qs"
  then obtain S' where "uboss_globalmq_pop S = Some (Some p, S')" "gq_inv S' qs"
    using globalmq_pop_Cons by force
  then show "\<exists>S'. uboss_globalmq_pop S = Some (Some p, S') \<and> gq_inv S' (gq_content S') \<and>
      gq_content S' = qs"
    using gq_content_eq by fastforce
qed

section \<open>Queues on the heap\<close>

definition mqs_wf :: "mq_state \<Rightarrow> ptr list \<Rightarrow> bool" where
  "mqs_wf S qs \<longleftrightarrow> gq_inv S qs \<and> (\<forall>p q. mq_heap S p = Some q \<longrightarrow> mq_wf q)"

lemma mqs_wf_init [simp]: "mqs_wf uboss_mq_init []"
  by (simp add: mqs_wf_def) (simp add: uboss_mq_init_def)

lemma gq_inv_put:
  assumes "gq_inv S qs" "mq_heap S p = Some q" "mq_next q' = mq_next q"
  shows "gq_inv (mq_put p q' S) qs"
  using assms by (auto simp: gq_inv_def mq_chain_upd_next)

lemma mqs_wf_put:
  assumes "mqs_wf S qs" "mq_heap S p = Some q" "mq_next q' = mq_next q" "mq_wf q'"
  shows "mqs_wf (mq_put p q' S) qs"
  using assms gq_inv_put by (auto simp: mqs_wf_def)

lemma mqs_wf_cores:
  assumes "mq_cores S' = mq_cores S" "gq_inv S' qs'" "mqs_wf S qs"
  shows "mqs_wf S' qs'"
proof -
  have "mq_wf q'" if "mq_heap S' p = Some q'" for p q'
  proof -
    from that have "mq_cores S p = Some (mq_core q')"
      using assms(1) by (metis mq_cores_def option.simps(9))
    then obtain q where "mq_heap S p = Some q" "mq_core q = mq_core q'"
      by (auto dest: mq_cores_SomeD)
    with assms(3) show ?thesis by (metis mqs_wf_def mq_core_simps(4))
  qed
  with assms(2) show ?thesis by (simp add: mqs_wf_def)
qed

lemma uboss_mq_push_ok:
  assumes wf: "mqs_wf S qs" and q: "mq_heap S p = Some q"
    and free: "\<not> mq_in_global q \<Longrightarrow> p \<notin> set qs"
  shows "\<exists>S' q'. uboss_mq_push p m S = Some S' \<and>
    mqs_wf S' (if mq_in_global q then qs else qs @ [p]) \<and> mq_brk S' = mq_brk S \<and>
    mq_cores S' = (mq_cores S)(p \<mapsto> mq_core q') \<and>
    mq_content q' = mq_content q @ [m] \<and> mq_in_global q' \<and>
    mq_handle q' = mq_handle q \<and> mq_release q' = mq_release q"
proof -
  from wf q have "mq_wf q" by (simp add: mqs_wf_def)
  then obtain q1 where q1: "mq_store m q = Some q1" "mq_wf q1" "mq_content q1 = mq_content q @ [m]"
    using mq_store_ok by blast
  note frame = mq_store_frame [OF q1(1)]
  show ?thesis
  proof (cases "mq_in_global q")
    case True
    then have "uboss_mq_push p m S = Some (mq_put p q1 S)"
      using q q1 frame by (simp add: uboss_mq_push_def)
    moreover have "mqs_wf (mq_put p q1 S) qs"
      using wf q q1 frame by (auto intro: mqs_wf_put)
    ultimately show ?thesis using True q1 frame by auto
  next
    case False
    let ?q = "q1\<lparr>mq_in_global := True\<rparr>"
    let ?S = "mq_put p ?q S"
    have wf1: "mqs_wf ?S qs" using wf q q1 frame by (intro mqs_wf_put) auto
    with free [OF False] obtain S' where
      S': "uboss_globalmq_push p ?S = Some S'" "gq_inv S' (qs @ [p])"
        "mq_cores S' = mq_cores ?S" "mq_brk S' = mq_brk ?S"
      using globalmq_push_ok [of ?S qs p ?q] by (auto simp: mqs_wf_def)
    have "uboss_mq_push p m S = Some S'"
      using q q1 frame False S' by (simp add: uboss_mq_push_def)
    moreover have "mqs_wf S' (qs @ [p])"
      using S'(2,3) wf1 mqs_wf_cores by blast
    ultimately show ?thesis
      using False S' q1 frame by (intro exI [of _ S'] exI [of _ ?q]) auto
  qed
qed

lemma uboss_mq_mark_release_ok:
  assumes wf: "mqs_wf S qs" and q: "mq_heap S p = Some q" and nr: "\<not> mq_release q"
    and free: "\<not> mq_in_global q \<Longrightarrow> p \<notin> set qs"
  shows "\<exists>S'. uboss_mq_mark_release p S = Some S' \<and>
    mqs_wf S' (if mq_in_global q then qs else qs @ [p]) \<and> mq_brk S' = mq_brk S \<and>
    mq_cores S' = (mq_cores S)(p \<mapsto> mq_core (q\<lparr>mq_release := True\<rparr>))"
proof -
  let ?q = "q\<lparr>mq_release := True\<rparr>"
  let ?S = "mq_put p ?q S"
  have wf1: "mqs_wf ?S qs" using wf q by (intro mqs_wf_put) (auto simp: mqs_wf_def)
  show ?thesis
  proof (cases "mq_in_global q")
    case True
    then show ?thesis using wf1 q nr by (simp add: uboss_mq_mark_release_def Let_def)
  next
    case False
    with wf1 free obtain S' where
      S': "uboss_globalmq_push p ?S = Some S'" "gq_inv S' (qs @ [p])"
        "mq_cores S' = mq_cores ?S" "mq_brk S' = mq_brk ?S"
      using globalmq_push_ok [of ?S qs p ?q] by (auto simp: mqs_wf_def)
    then have "mqs_wf S' (qs @ [p])" using wf1 mqs_wf_cores by blast
    with S' False q nr show ?thesis by (simp add: uboss_mq_mark_release_def Let_def)
  qed
qed

lemma uboss_mq_create_ok:
  assumes wf: "mqs_wf S qs" and new: "uboss_mq_create h S = (p, S')"
  shows "mqs_wf S' qs" "mq_heap S p = None" "p \<notin> set qs" "mq_brk S' = Suc (mq_brk S)"
    "mq_cores S' = (mq_cores S)(p \<mapsto> mq_new h)"
proof -
  from new have p: "p = mq_brk S"
    and S': "S' = (mq_put p (mq_new h) S)\<lparr>mq_brk := Suc (mq_brk S)\<rparr>"
    by (auto simp: uboss_mq_create_def)
  from wf p show none: "mq_heap S p = None" by (auto simp: mqs_wf_def gq_inv_def)
  with wf show notin: "p \<notin> set qs" by (auto simp: mqs_wf_def dest: gq_inv_dom)
  from wf none notin p show "mqs_wf S' qs"
    by (auto simp: S' mqs_wf_def gq_inv_def mq_chain_upd_notin less_Suc_eq)
       (simp add: mq_new_def)
  show "mq_brk S' = Suc (mq_brk S)" by (simp add: S')
  show "mq_cores S' = (mq_cores S)(p \<mapsto> mq_new h)"
    by (auto simp: S' mq_cores_def mq_core_def mq_new_def)
qed

lemma mq_free_ok:
  assumes wf: "mqs_wf S qs" and q: "mq_heap S p = Some q" and out: "p \<notin> set qs"
  shows "\<exists>S'. mq_free p S = Some S' \<and> mqs_wf S' qs \<and> mq_cores S' = (mq_cores S)(p := None)"
proof -
  let ?S = "S\<lparr>mq_heap := (mq_heap S)(p := None)\<rparr>"
  from wf q out have "mq_free p S = Some ?S"
    by (simp add: mq_free_def mqs_wf_def gq_inv_def)
  moreover have "mqs_wf ?S qs"
    using wf out by (auto simp: mqs_wf_def gq_inv_def mq_chain_upd_notin)
  ultimately show ?thesis by (auto simp: mq_cores_def)
qed

section \<open>Properties\<close>

text \<open>C4. The ring buffer of a service is a first-in-first-out queue: over any sequence of
  pushes and pops no call aborts, and the messages that come out, followed by the messages
  still queued, are the messages that were queued followed by the ones pushed, in order.
  The buffer growing in between loses and reorders nothing.\<close>

theorem service_queue_fifo:
  assumes "mq_wf q"
  shows "\<exists>out q'. fifo_run mq_store uboss_mq_pop ops q = Some (out, q') \<and> mq_wf q' \<and>
    out @ mq_content q' = mq_content q @ enqueued ops"
  using assms by (intro service_queue.run_fifo) simp_all

theorem service_queue_fifo_witness:
  "\<exists>out q'. fifo_run mq_store uboss_mq_pop
      [Enq \<lparr>msg_source = 1, msg_session = 2, msg_data = 3, msg_sz = 4\<rparr>, Deq, Deq] (mq_new 7) =
      Some (out, q') \<and> mq_wf q' \<and>
    out @ mq_content q' = [\<lparr>msg_source = 1, msg_session = 2, msg_data = 3, msg_sz = 4\<rparr>]"
  using service_queue_fifo [OF mq_new_wf, of
      "[Enq \<lparr>msg_source = 1, msg_session = 2, msg_data = 3, msg_sz = 4\<rparr>, Deq, Deq]" 7]
  by (simp only: mq_new_content enqueued.simps append_Nil)

text \<open>The global run queue is first in, first out over the \<open>next\<close> links: pushing a
  queue that is not linked never trips \<open>assert(queue->next == NULL)\<close> and appends it, popping
  returns the oldest entry, unlinks it and keeps the head and tail pointers consistent, and
  neither changes any service queue apart from its link.\<close>

theorem globalmq_push_then_pop:
  assumes "gq_inv S qs" and "mq_heap S p = Some q" and "p \<notin> set qs"
  shows "\<exists>S' S''. uboss_globalmq_push p S = Some S' \<and> gq_inv S' (qs @ [p]) \<and>
    uboss_globalmq_pop S' = Some (Some (hd (qs @ [p])), S'') \<and> gq_inv S'' (tl (qs @ [p])) \<and>
    mq_cores S' = mq_cores S \<and> mq_cores S'' = mq_cores S"
proof -
  obtain S' where S': "uboss_globalmq_push p S = Some S'" "gq_inv S' (qs @ [p])"
    "mq_cores S' = mq_cores S" using globalmq_push_ok [OF assms] by blast
  moreover obtain a as where as: "qs @ [p] = a # as" by (cases qs) auto
  ultimately show ?thesis using globalmq_pop_Cons [of S' a as] by auto
qed

theorem globalmq_push_then_pop_witness:
  "\<exists>S' S''. uboss_globalmq_push 1 (snd (uboss_mq_create 5 uboss_mq_init)) = Some S' \<and>
    gq_inv S' [1] \<and> uboss_globalmq_pop S' = Some (Some 1, S'') \<and> gq_inv S'' []"
proof -
  let ?S = "snd (uboss_mq_create 5 uboss_mq_init)"
  have "gq_inv ?S []" "mq_heap ?S 1 = Some (mq_new 5)"
    by (auto simp: uboss_mq_create_def uboss_mq_init_def gq_inv_def mq_put_def mq_new_def)
  from globalmq_push_then_pop [OF this] show ?thesis by auto
qed

text \<open>C22. \<open>uboss_mq_push\<close> appends the message to its queue and schedules that queue exactly
  when it was not yet in the run queue: no wake-up is lost, no queue is linked twice, and
  every other queue is untouched.\<close>

theorem mq_push_delivers_and_schedules:
  assumes "mqs_wf S qs" and "mq_heap S p = Some q" and "\<not> mq_in_global q \<Longrightarrow> p \<notin> set qs"
  shows "\<exists>S' q'. uboss_mq_push p m S = Some S' \<and>
    mqs_wf S' (if mq_in_global q then qs else qs @ [p]) \<and>
    mq_cores S' = (mq_cores S)(p \<mapsto> mq_core q') \<and>
    mq_content q' = mq_content q @ [m] \<and> mq_in_global q' \<and> mq_release q' = mq_release q"
  using uboss_mq_push_ok [OF assms, of m] by blast

theorem mq_push_delivers_and_schedules_witness:
  "\<exists>S' q'. uboss_mq_push 1 \<lparr>msg_source = 1, msg_session = 2, msg_data = 3, msg_sz = 4\<rparr>
      (mq_put 1 ((mq_new 5)\<lparr>mq_in_global := False\<rparr>) (snd (uboss_mq_create 5 uboss_mq_init))) = Some S' \<and>
    mqs_wf S' [1] \<and> mq_cores S' 1 = Some (mq_core q') \<and>
    mq_content q' = [\<lparr>msg_source = 1, msg_session = 2, msg_data = 3, msg_sz = 4\<rparr>]"
proof -
  let ?q = "(mq_new 5)\<lparr>mq_in_global := False\<rparr>"
  let ?S = "mq_put 1 ?q (snd (uboss_mq_create 5 uboss_mq_init))"
  have "mqs_wf ?S []"
    by (auto simp: mqs_wf_def uboss_mq_create_def uboss_mq_init_def gq_inv_def mq_put_def)
       (simp add: mq_new_def)
  moreover have "mq_heap ?S 1 = Some ?q" by simp
  ultimately show ?thesis
    using mq_push_delivers_and_schedules [of ?S "[]" 1 ?q
        "\<lparr>msg_source = 1, msg_session = 2, msg_data = 3, msg_sz = 4\<rparr>"] by auto
qed

end
