(* ===== verification/Handle.thy ===== *)
theory Handle
  imports Prelude "HOL-Library.Char_ord" "HOL-Library.List_Lexorder"
begin

text \<open>
  Model of \<open>core/uboss_handle.c\<close>: the table that gives every service context its 32-bit
  handle, and the sorted array of service names. The handle that a context carries is a
  field of the context, so the operations take the reading \<open>hof\<close> of that field
  (\<open>uboss_context_handle\<close>) as an argument; \<open>hof c = None\<close> stands for a pointer that is
  not a context. Each definition is the body between taking and releasing the table's
  read-write lock.
\<close>

section \<open>The table\<close>

record handle_name =
  hn_name :: string
  hn_handle :: u32

record handle_storage =
  hs_harbor :: u32
  hs_handle_index :: u32
  hs_slot_size :: nat
  hs_slot :: "ptr option list"
  hs_name_cap :: nat
  hs_name_count :: nat
  hs_name :: "handle_name option list"

definition HANDLE_MASK :: u32 where
  "HANDLE_MASK = 0xffffff"

definition HANDLE_REMOTE_SHIFT :: nat where
  "HANDLE_REMOTE_SHIFT = 24"

definition DEFAULT_SLOT_SIZE :: nat where
  "DEFAULT_SLOT_SIZE = 4"

definition MAX_SLOT_SIZE :: nat where
  "MAX_SLOT_SIZE = 0x40000000"

definition slot_hash :: "u32 \<Rightarrow> nat \<Rightarrow> nat" where
  "slot_hash handle sz = unat (handle AND (word_of_nat sz - 1))"

definition uboss_handle_init :: "i32 \<Rightarrow> handle_storage" where
  "uboss_handle_init harbor =
     \<lparr>hs_harbor = push_bit HANDLE_REMOTE_SHIFT (harbor AND 0xff), hs_handle_index = 1,
      hs_slot_size = DEFAULT_SLOT_SIZE, hs_slot = replicate DEFAULT_SLOT_SIZE None,
      hs_name_cap = 2, hs_name_count = 0, hs_name = replicate 2 None\<rparr>"

text \<open>
  The inner loop of \<open>uboss_handle_register\<close>: try the handles from \<open>handle_index + i\<close> on.
  The outer option is an access outside the array; the inner one says whether an empty
  slot was found.
\<close>

fun handle_scan :: "handle_storage \<Rightarrow> ptr \<Rightarrow> nat \<Rightarrow> nat \<Rightarrow> (u32 \<times> handle_storage) option option" where
  "handle_scan s ctx i 0 = Some None"
| "handle_scan s ctx i (Suc n) =
     (let handle = (word_of_nat i + hs_handle_index s) AND HANDLE_MASK;
          hash = slot_hash handle (hs_slot_size s)
      in do { guard (hash < length (hs_slot s));
              if hs_slot s ! hash = None
              then Some (Some (handle OR hs_harbor s,
                     s\<lparr>hs_slot := (hs_slot s)[hash := Some ctx], hs_handle_index := handle + 1\<rparr>))
              else handle_scan s ctx (Suc i) n })"

text \<open>The loop that moves the old slots into the array of twice the size.\<close>

fun handle_rehash :: "(ptr \<rightharpoonup> u32) \<Rightarrow> nat \<Rightarrow> ptr option list \<Rightarrow> ptr option list \<Rightarrow>
    ptr option list option" where
  "handle_rehash hof size2 [] new = Some new"
| "handle_rehash hof size2 (sl # old) new =
     do { ctx \<leftarrow> sl;
          handle \<leftarrow> hof ctx;
          let hash = slot_hash handle size2;
          guard (hash < length new);
          guard (new ! hash = None);
          handle_rehash hof size2 old (new[hash := sl]) }"

partial_function (option) uboss_handle_register ::
    "(ptr \<rightharpoonup> u32) \<Rightarrow> ptr \<Rightarrow> handle_storage \<Rightarrow> (u32 \<times> handle_storage) option" where
  "uboss_handle_register hof ctx s =
     do { r \<leftarrow> handle_scan s ctx 0 (hs_slot_size s);
          case r of
            Some found \<Rightarrow> Some found
          | None \<Rightarrow>
              do { guard (hs_slot_size s * 2 - 1 \<le> unat HANDLE_MASK);
                   new \<leftarrow> handle_rehash hof (hs_slot_size s * 2) (hs_slot s)
                            (replicate (hs_slot_size s * 2) None);
                   uboss_handle_register hof ctx
                     (s\<lparr>hs_slot := new, hs_slot_size := hs_slot_size s * 2\<rparr>) } }"

text \<open>The table lookup of \<open>uboss_handle_grab\<close>; taking the reference is the server's part.\<close>

definition handle_lookup :: "(ptr \<rightharpoonup> u32) \<Rightarrow> u32 \<Rightarrow> handle_storage \<Rightarrow> ptr option" where
  "handle_lookup hof handle s =
     (let hash = slot_hash handle (hs_slot_size s)
      in if hash < length (hs_slot s)
         then (case hs_slot s ! hash of
                 None \<Rightarrow> None
               | Some ctx \<Rightarrow> if hof ctx = Some handle then Some ctx else None)
         else None)"

text \<open>
  The compaction loop of \<open>uboss_handle_retire\<close>: \<open>n\<close> entries are left from index \<open>i\<close> on,
  \<open>j\<close> is the next index to write.
\<close>

fun name_compact :: "u32 \<Rightarrow> nat \<Rightarrow> nat \<Rightarrow> nat \<Rightarrow> handle_name option list \<Rightarrow>
    (nat \<times> handle_name option list) option" where
  "name_compact handle i j 0 ns = Some (j, ns)"
| "name_compact handle i j (Suc n) ns =
     do { guard (i < length ns);
          e \<leftarrow> ns ! i;
          if hn_handle e = handle then name_compact handle (Suc i) j n ns
          else name_compact handle (Suc i) (Suc j) n (if i \<noteq> j then ns[j := Some e] else ns) }"

definition handle_retire :: "(ptr \<rightharpoonup> u32) \<Rightarrow> u32 \<Rightarrow> handle_storage \<Rightarrow>
    (ptr option \<times> handle_storage) option" where
  \<comment> \<open>the locked part of \<open>uboss_handle_retire\<close>: the context to release, if there is one\<close>
  "handle_retire hof handle s =
     (case handle_lookup hof handle s of
        None \<Rightarrow> Some (None, s)
      | Some ctx \<Rightarrow>
          do { let s1 = s\<lparr>hs_slot := (hs_slot s)[slot_hash handle (hs_slot_size s) := None]\<rparr>;
               (j, ns) \<leftarrow> name_compact handle 0 0 (hs_name_count s1) (hs_name s1);
               Some (Some ctx, s1\<lparr>hs_name := ns, hs_name_count := j\<rparr>) })"

section \<open>Names\<close>

fun strcmp :: "string \<Rightarrow> string \<Rightarrow> int" where
  "strcmp [] [] = 0"
| "strcmp [] (y # ys) = - 1"
| "strcmp (x # xs) [] = 1"
| "strcmp (x # xs) (y # ys) =
     (if x = y then strcmp xs ys
      else if (of_char x :: nat) < of_char y then - 1 else 1)"

text \<open>
  The binary search shared by \<open>uboss_handle_findname\<close> and \<open>_insert_name\<close>: the handle of
  the name, or the final value of \<open>begin\<close> when the name is not there.
\<close>

function name_search :: "handle_name option list \<Rightarrow> string \<Rightarrow> int \<Rightarrow> int \<Rightarrow> (u32 + int) option" where
  "name_search ns name begin_i end_i =
     (if begin_i \<le> end_i then
        let mid = (begin_i + end_i) div 2
        in do { guard (0 \<le> mid \<and> nat mid < length ns);
                n \<leftarrow> ns ! nat mid;
                let c = strcmp (hn_name n) name;
                if c = 0 then Some (Inl (hn_handle n))
                else if c < 0 then name_search ns name (mid + 1) end_i
                else name_search ns name begin_i (mid - 1) }
      else Some (Inr begin_i))"
  by pat_completeness auto
termination
  by (relation "measure (\<lambda>(ns, name, b, e). nat (e - b + 1))") auto

declare name_search.simps [simp del]

definition uboss_handle_findname :: "string \<Rightarrow> handle_storage \<Rightarrow> u32 option" where
  "uboss_handle_findname name s =
     do { r \<leftarrow> name_search (hs_name s) name 0 (int (hs_name_count s) - 1);
          Some (case r of Inl handle \<Rightarrow> handle | Inr _ \<Rightarrow> 0) }"

text \<open>The loop of the else branch of \<open>_insert_name_before\<close>, from \<open>i\<close> down to \<open>before\<close>.\<close>

fun shift_up :: "nat \<Rightarrow> nat \<Rightarrow> 'a list \<Rightarrow> 'a list" where
  "shift_up before 0 ns = ns"
| "shift_up before (Suc i) ns =
     (if before < Suc i then shift_up before i (ns[Suc i := ns ! i]) else ns)"

definition insert_name_before :: "string \<Rightarrow> u32 \<Rightarrow> nat \<Rightarrow> handle_storage \<Rightarrow> handle_storage option" where
  "insert_name_before name handle before s =
     do { s1 \<leftarrow>
            (if hs_name_count s \<ge> hs_name_cap s then
               do { let cap = hs_name_cap s * 2;
                    guard (cap \<le> MAX_SLOT_SIZE);
                    let n = map (\<lambda>i. if i < before then hs_name s ! i
                                     else if before < i \<and> i \<le> hs_name_count s then hs_name s ! (i - 1)
                                     else None) [0..<cap];
                    Some (s\<lparr>hs_name_cap := cap, hs_name := n\<rparr>) }
             else Some (s\<lparr>hs_name := shift_up before (hs_name_count s) (hs_name s)\<rparr>));
          guard (before < length (hs_name s1));
          Some (s1\<lparr>hs_name := (hs_name s1)[before := Some \<lparr>hn_name = name, hn_handle = handle\<rparr>],
                   hs_name_count := hs_name_count s1 + 1\<rparr>) }"

definition insert_name :: "string \<Rightarrow> u32 \<Rightarrow> handle_storage \<Rightarrow> (bool \<times> handle_storage) option" where
  \<comment> \<open>the returned flag says whether the C code returns a name (or NULL)\<close>
  "insert_name name handle s =
     do { r \<leftarrow> name_search (hs_name s) name 0 (int (hs_name_count s) - 1);
          case r of
            Inl _ \<Rightarrow> Some (False, s)
          | Inr begin_i \<Rightarrow>
              do { s' \<leftarrow> insert_name_before name handle (nat begin_i) s; Some (True, s') } }"

definition uboss_handle_namehandle :: "u32 \<Rightarrow> string \<Rightarrow> handle_storage \<Rightarrow>
    (string option \<times> handle_storage) option" where
  "uboss_handle_namehandle handle name s =
     do { (ok, s') \<leftarrow> insert_name name handle s;
          Some (if ok then Some name else None, s') }"

section \<open>Slots are addressed by the low bits of the handle\<close>

lemma slot_hash_mod:
  assumes "sz = 2 ^ k" "k \<le> 24"
  shows "slot_hash h sz = unat h mod sz"
proof -
  have "word_of_nat sz - 1 = (mask k :: u32)"
    using assms by (simp add: mask_eq_exp_minus_1)
  then show ?thesis using assms by (simp only: slot_hash_def unat_and_mask)
qed

lemma handle_mask_mod: "unat (x AND HANDLE_MASK) = unat x mod 2 ^ 24"
proof -
  have "HANDLE_MASK = mask 24" by (simp add: HANDLE_MASK_def mask_eq_exp_minus_1)
  then show ?thesis by (metis unat_and_mask)
qed

lemma mod_pow_cancel: "k \<le> n \<Longrightarrow> (x::nat) mod 2 ^ n mod 2 ^ k = x mod 2 ^ k"
  by (simp add: mod_mod_cancel le_imp_power_dvd)

lemma scan_hash:
  assumes "sz = 2 ^ k" "k \<le> 24"
  shows "slot_hash ((word_of_nat j + idx) AND HANDLE_MASK) sz = (j + unat idx) mod sz"
proof -
  have "unat (word_of_nat j + idx :: u32) mod 2 ^ k = (j + unat idx) mod 2 ^ k"
    using assms(2)
    by (simp only: unat_word_ariths unat_of_nat len_num1 len_num0 len_bit0 len_bit1)
       (simp add: mod_pow_cancel [of k 32, simplified] mod_add_left_eq)
  with assms show ?thesis
    by (simp only: slot_hash_mod handle_mask_mod mod_pow_cancel)
qed

lemma harbor_low_bits:
  assumes "harbor AND HANDLE_MASK = 0" "sz = 2 ^ k" "k \<le> 24"
  shows "unat ((h AND HANDLE_MASK) OR harbor) mod sz = unat (h AND HANDLE_MASK) mod sz"
proof -
  have "((h AND HANDLE_MASK) OR harbor) AND HANDLE_MASK = h AND HANDLE_MASK"
    using assms(1) by (simp add: bit.conj_disj_distrib2 and.assoc)
  then have "unat ((h AND HANDLE_MASK) OR harbor) mod 2 ^ 24 = unat (h AND HANDLE_MASK)"
    by (metis handle_mask_mod)
  then show ?thesis using assms by (metis mod_pow_cancel)
qed

section \<open>The table invariant\<close>

definition handle_wf :: "(ptr \<rightharpoonup> u32) \<Rightarrow> handle_storage \<Rightarrow> bool" where
  "handle_wf hof s \<longleftrightarrow> (\<exists>k. 2 \<le> k \<and> k \<le> 24 \<and> hs_slot_size s = 2 ^ k) \<and>
     length (hs_slot s) = hs_slot_size s \<and> hs_harbor s AND HANDLE_MASK = 0 \<and>
     (\<forall>i < hs_slot_size s. \<forall>c. hs_slot s ! i = Some c \<longrightarrow>
        (\<exists>h. hof c = Some h \<and> unat h mod hs_slot_size s = i))"

lemma handle_wf_size:
  assumes "handle_wf hof s"
  obtains k where "2 \<le> k" "k \<le> 24" "hs_slot_size s = 2 ^ k" "length (hs_slot s) = 2 ^ k"
  using assms by (auto simp: handle_wf_def)

lemma handle_wf_init [simp]: "handle_wf hof (uboss_handle_init harbor)"
  by (auto simp: handle_wf_def uboss_handle_init_def DEFAULT_SLOT_SIZE_def HANDLE_MASK_def
      HANDLE_REMOTE_SHIFT_def and.assoc intro!: exI [of _ "2::nat"])

lemma handle_lookup_iff:
  assumes "handle_wf hof s"
  shows "handle_lookup hof h s = Some c \<longleftrightarrow> Some c \<in> set (hs_slot s) \<and> hof c = Some h"
proof -
  obtain k where k: "k \<le> 24" "hs_slot_size s = 2 ^ k" "length (hs_slot s) = 2 ^ k"
    using assms by (rule handle_wf_size)
  have hash: "slot_hash h (2 ^ k) = unat h mod 2 ^ k" using k slot_hash_mod by simp
  show ?thesis
  proof
    assume "handle_lookup hof h s = Some c"
    then show "Some c \<in> set (hs_slot s) \<and> hof c = Some h"
      by (auto simp: handle_lookup_def Let_def split: if_splits option.splits)
         (metis nth_mem)
  next
    assume live: "Some c \<in> set (hs_slot s) \<and> hof c = Some h"
    then obtain i where i: "i < 2 ^ k" "hs_slot s ! i = Some c" using k by (metis in_set_conv_nth)
    with assms k live have "unat h mod 2 ^ k = i" by (fastforce simp: handle_wf_def)
    with i live k show "handle_lookup hof h s = Some c"
      by (simp add: handle_lookup_def hash)
  qed
qed

lemma handle_scan_cases:
  assumes k: "hs_slot_size s = 2 ^ k" "k \<le> 24" "length (hs_slot s) = 2 ^ k"
  shows "(\<exists>h. handle_scan s ctx i n = Some (Some (h OR hs_harbor s,
            s\<lparr>hs_slot := (hs_slot s)[unat h mod hs_slot_size s := Some ctx],
              hs_handle_index := h + 1\<rparr>)) \<and>
          hs_slot s ! (unat h mod hs_slot_size s) = None \<and> h = h AND HANDLE_MASK) \<or>
    (handle_scan s ctx i n = Some None \<and>
      (\<forall>j. i \<le> j \<and> j < i + n \<longrightarrow>
         hs_slot s ! ((j + unat (hs_handle_index s)) mod hs_slot_size s) \<noteq> None))"
proof (induction n arbitrary: i)
  case 0
  then show ?case by auto
next
  case (Suc n)
  let ?h = "(word_of_nat i + hs_handle_index s) AND HANDLE_MASK"
  have hash: "slot_hash ?h (hs_slot_size s) = (i + unat (hs_handle_index s)) mod hs_slot_size s"
    using k by (intro scan_hash)
  have hmod: "slot_hash ?h (hs_slot_size s) = unat ?h mod hs_slot_size s"
    using k by (intro slot_hash_mod)
  have bound: "unat ?h mod hs_slot_size s < length (hs_slot s)"
    using k by simp
  show ?case
  proof (cases "hs_slot s ! (unat ?h mod hs_slot_size s) = None")
    case True
    with bound hmod have "handle_scan s ctx i (Suc n) = Some (Some (?h OR hs_harbor s,
        s\<lparr>hs_slot := (hs_slot s)[unat ?h mod hs_slot_size s := Some ctx],
          hs_handle_index := ?h + 1\<rparr>))"
      by (simp only: handle_scan.simps Let_def hmod guard_simps) simp
    with True show ?thesis by (intro disjI1 exI [of _ ?h]) (simp add: and.assoc)
  next
    case False
    then have "handle_scan s ctx i (Suc n) = handle_scan s ctx (Suc i) n"
      using bound hmod by (simp only: handle_scan.simps Let_def hmod guard_simps) simp
    moreover have "hs_slot s ! ((i + unat (hs_handle_index s)) mod hs_slot_size s) \<noteq> None"
      using False hash hmod by simp
    ultimately show ?thesis
      using Suc.IH [of "Suc i"] by (auto simp del: handle_scan.simps)
        (metis Suc_leI add_Suc_right add_Suc le_eq_less_or_eq option.distinct(1))
  qed
qed

lemma scan_covers:
  assumes "(sz::nat) > 0" "x < sz"
  shows "\<exists>j < sz. (j + b) mod sz = x"
proof -
  let ?j = "(x + (sz - b mod sz)) mod sz"
  have "(?j + b) mod sz = (x + (sz - b mod sz) + b mod sz) mod sz"
    by (metis mod_add_eq mod_add_left_eq)
  also have "x + (sz - b mod sz) + b mod sz = x + sz"
    using mod_less_divisor [OF assms(1), of b] by linarith
  also have "(x + sz) mod sz = x" using assms by simp
  finally show ?thesis using assms(1) by (intro exI [of _ ?j]) simp
qed

lemma handle_scan_full:
  assumes "hs_slot_size s = 2 ^ k" "k \<le> 24" "length (hs_slot s) = 2 ^ k"
    "handle_scan s ctx 0 (hs_slot_size s) = Some None"
  shows "None \<notin> set (hs_slot s)"
proof
  assume "None \<in> set (hs_slot s)"
  then obtain x where x: "x < hs_slot_size s" "hs_slot s ! x = None"
    using assms(1,3) by (metis in_set_conv_nth)
  then obtain j where "j < hs_slot_size s" "(j + unat (hs_handle_index s)) mod hs_slot_size s = x"
    using scan_covers [of "hs_slot_size s" x] assms(1) by auto
  with handle_scan_cases [OF assms(1-3), of ctx 0 "hs_slot_size s"] assms(4) x
  show False by fastforce
qed

section \<open>Growing the table keeps every handle\<close>

lemma handle_rehash_ok:
  defines "hsh hof n sl \<equiv> slot_hash (the (hof (the sl))) n"
  assumes "\<forall>sl \<in> set old. \<exists>c h. sl = Some c \<and> hof c = Some h"
    "\<forall>sl \<in> set old. hsh hof n sl < length new \<and> new ! hsh hof n sl = None"
    "distinct (map (hsh hof n) old)"
  shows "\<exists>new'. handle_rehash hof n old new = Some new' \<and> length new' = length new \<and>
    (\<forall>sl \<in> set old. new' ! hsh hof n sl = sl) \<and>
    (\<forall>x. x \<notin> hsh hof n ` set old \<longrightarrow> new' ! x = new ! x)"
  using assms(2-4)
proof (induction old arbitrary: new)
  case Nil
  then show ?case by simp
next
  case (Cons sl old)
  let ?x = "hsh hof n sl"
  have "\<exists>new'. handle_rehash hof n old (new[?x := sl]) = Some new' \<and>
      length new' = length (new[?x := sl]) \<and> (\<forall>sl \<in> set old. new' ! hsh hof n sl = sl) \<and>
      (\<forall>x. x \<notin> hsh hof n ` set old \<longrightarrow> new' ! x = new[?x := sl] ! x)"
  proof (rule Cons.IH)
    show "\<forall>t\<in>set old. hsh hof n t < length (new[?x := sl]) \<and> new[?x := sl] ! hsh hof n t = None"
      using Cons.prems(2,3) by (auto simp: nth_list_update)
  qed (use Cons.prems in auto)
  then obtain new' where new': "handle_rehash hof n old (new[?x := sl]) = Some new'"
    "length new' = length new" "\<forall>sl \<in> set old. new' ! hsh hof n sl = sl"
    "\<forall>x. x \<notin> hsh hof n ` set old \<longrightarrow> new' ! x = new[?x := sl] ! x" by auto
  have "handle_rehash hof n (sl # old) new = Some new'"
    using Cons.prems(1,2) new'(1) by (auto simp: hsh_def)
  moreover have "new' ! ?x = sl"
    using Cons.prems(2,3) new'(4) by auto
  ultimately show ?case using new' by auto
qed

lemma handle_expand_ok:
  assumes wf: "handle_wf hof s" and full: "None \<notin> set (hs_slot s)"
    and room: "hs_slot_size s * 2 - 1 \<le> unat HANDLE_MASK"
  shows "\<exists>new. handle_rehash hof (hs_slot_size s * 2) (hs_slot s)
        (replicate (hs_slot_size s * 2) None) = Some new \<and>
      set new = insert None (set (hs_slot s)) \<and>
      handle_wf hof (s\<lparr>hs_slot := new, hs_slot_size := hs_slot_size s * 2\<rparr>)"
proof -
  let ?n = "hs_slot_size s" and ?m = "hs_slot_size s * 2"
  let ?h = "\<lambda>sl. slot_hash (the (hof (the sl))) ?m"
  obtain k where k: "2 \<le> k" "k \<le> 24" "?n = 2 ^ k" "length (hs_slot s) = 2 ^ k"
    using wf by (rule handle_wf_size)
  from room k have "(2::nat) ^ k * 2 \<le> 2 ^ 24"
    by (simp add: HANDLE_MASK_def)
  then have k1: "Suc k \<le> 24" by (metis power_Suc2 power_increasing_iff one_less_numeral_iff semiring_norm(76))
  have m: "?m = 2 ^ Suc k" using k by simp
  have hmod: "slot_hash h ?m = unat h mod ?m" for h using slot_hash_mod [OF m k1] .
  have ent: "\<exists>c h. hs_slot s ! i = Some c \<and> hof c = Some h \<and> unat h mod ?n = i" if "i < ?n" for i
    using that wf full k by (metis handle_wf_def nth_mem option.exhaust)
  have idx: "?h (hs_slot s ! i) mod ?n = i" if "i < ?n" for i
  proof -
    from ent [OF that] obtain c h where "hs_slot s ! i = Some c" "hof c = Some h" "unat h mod ?n = i"
      by blast
    then show ?thesis by (simp add: hmod mod_mod_cancel)
  qed
  have ok: "\<forall>sl \<in> set (hs_slot s). \<exists>c h. sl = Some c \<and> hof c = Some h"
    using ent k by (metis in_set_conv_nth)
  have less: "?h sl < ?m" for sl using hmod k by simp
  have dist: "distinct (map ?h (hs_slot s))"
    unfolding distinct_conv_nth using idx k by (metis length_map nth_map)
  obtain new where new: "handle_rehash hof ?m (hs_slot s) (replicate ?m None) = Some new"
    "length new = ?m" "\<forall>sl \<in> set (hs_slot s). new ! ?h sl = sl"
    "\<forall>x. x \<notin> ?h ` set (hs_slot s) \<longrightarrow> new ! x = replicate ?m None ! x"
    using handle_rehash_ok [of "hs_slot s" hof ?m "replicate ?m None"] ok less dist by auto
  have "card (?h ` set (hs_slot s)) \<le> card (set (hs_slot s))" by (intro card_image_le) simp
  also have "\<dots> \<le> length (hs_slot s)" by (rule card_length)
  also have "\<dots> < ?m" using k by simp
  finally have card: "card (?h ` set (hs_slot s)) < ?m" .
  have "\<exists>x < ?m. x \<notin> ?h ` set (hs_slot s)"
  proof (rule ccontr)
    assume "\<not> ?thesis"
    then have "{..<?m} \<subseteq> ?h ` set (hs_slot s)" by auto
    then have "card {..<?m} \<le> card (?h ` set (hs_slot s))" by (intro card_mono) auto
    with card show False by simp
  qed
  then have none: "None \<in> set new" using new(2,4) by (metis nth_mem nth_replicate)
  have ent2: "new ! x = None \<or> (new ! x \<in> set (hs_slot s) \<and> ?h (new ! x) = x)" if "x < ?m" for x
    using that new by (cases "x \<in> ?h ` set (hs_slot s)") auto
  have "set new = insert None (set (hs_slot s))"
  proof
    show "set new \<subseteq> insert None (set (hs_slot s))"
      using ent2 new(2) by (auto simp: set_conv_nth [of new])
    show "insert None (set (hs_slot s)) \<subseteq> set new"
      using none new(2,3) less by (metis insert_subset nth_mem subsetI)
  qed
  moreover have "handle_wf hof (s\<lparr>hs_slot := new, hs_slot_size := ?m\<rparr>)"
  proof -
    have "\<exists>h. hof c = Some h \<and> unat h mod ?m = x" if "x < ?m" "new ! x = Some c" for x c
    proof -
      from ent2 [OF that(1)] that(2) have "Some c \<in> set (hs_slot s)" "?h (Some c) = x" by auto
      with ok show ?thesis by (auto simp: hmod)
    qed
    moreover have "2 \<le> Suc k \<and> Suc k \<le> 24 \<and> ?m = 2 ^ Suc k" using k k1 m by simp
    ultimately show ?thesis using wf new(2) unfolding handle_wf_def by (auto simp del: power_Suc)
  qed
  ultimately show ?thesis using new(1) by blast
qed

section \<open>Registering and retiring\<close>

text \<open>There is room when a slot is empty or the table may still double.\<close>

definition handle_room :: "handle_storage \<Rightarrow> bool" where
  "handle_room s \<longleftrightarrow> None \<in> set (hs_slot s) \<or> hs_slot_size s * 2 - 1 \<le> unat HANDLE_MASK"

lemma register_step_found:
  assumes "handle_scan s ctx 0 (hs_slot_size s) = Some (Some r)"
  shows "uboss_handle_register hof ctx s = Some r"
  using assms by (subst uboss_handle_register.simps) simp

lemma register_place:
  assumes wf: "handle_wf hof s" and gap: "None \<in> set (hs_slot s)" and new: "Some ctx \<notin> set (hs_slot s)"
  shows "\<exists>h s'. uboss_handle_register hof ctx s = Some (h, s') \<and>
    handle_wf (hof(ctx \<mapsto> h)) s' \<and> (\<forall>c. Some c \<in> set (hs_slot s') \<longleftrightarrow> c = ctx \<or> Some c \<in> set (hs_slot s)) \<and>
    (\<forall>c. Some c \<in> set (hs_slot s) \<longrightarrow> hof c \<noteq> Some h) \<and> h AND NOT HANDLE_MASK = hs_harbor s \<and>
    hs_harbor s' = hs_harbor s \<and> hs_name s' = hs_name s \<and> hs_name_count s' = hs_name_count s \<and>
    hs_name_cap s' = hs_name_cap s"
proof -
  let ?n = "hs_slot_size s"
  obtain k where k: "2 \<le> k" "k \<le> 24" "?n = 2 ^ k" "length (hs_slot s) = 2 ^ k"
    using wf by (rule handle_wf_size)
  from handle_scan_full [OF k(3,2,4), of ctx] gap
  have "handle_scan s ctx 0 ?n \<noteq> Some None" by blast
  with handle_scan_cases [OF k(3,2,4), of ctx 0 ?n] obtain h where
    h: "handle_scan s ctx 0 ?n = Some (Some (h OR hs_harbor s,
          s\<lparr>hs_slot := (hs_slot s)[unat h mod ?n := Some ctx], hs_handle_index := h + 1\<rparr>))"
      "hs_slot s ! (unat h mod ?n) = None" "h = h AND HANDLE_MASK" by blast
  let ?h = "h OR hs_harbor s"
  let ?s = "s\<lparr>hs_slot := (hs_slot s)[unat h mod ?n := Some ctx], hs_handle_index := h + 1\<rparr>"
  have harbor: "hs_harbor s AND HANDLE_MASK = 0" using wf by (simp add: handle_wf_def)
  have low: "unat ?h mod ?n = unat h mod ?n"
    using harbor_low_bits [OF harbor k(3,2), of h] h(3) by simp
  have lt: "unat h mod ?n < length (hs_slot s)" using k by simp
  have slots: "Some c \<in> set ((hs_slot s)[unat h mod ?n := Some ctx]) \<longleftrightarrow>
      c = ctx \<or> Some c \<in> set (hs_slot s)" for c
  proof
    assume "Some c \<in> set ((hs_slot s)[unat h mod ?n := Some ctx])"
    then show "c = ctx \<or> Some c \<in> set (hs_slot s)"
      using set_update_subset_insert by fastforce
  next
    assume "c = ctx \<or> Some c \<in> set (hs_slot s)"
    then show "Some c \<in> set ((hs_slot s)[unat h mod ?n := Some ctx])"
      using lt h(2) by (metis in_set_conv_nth length_list_update nth_list_update option.distinct(1))
  qed
  have hi: "?h AND NOT HANDLE_MASK = hs_harbor s"
  proof (rule bit_eqI)
    fix n
    have "bit (hs_harbor s AND HANDLE_MASK) n = False" using harbor by simp
    moreover have "bit h n = bit (h AND HANDLE_MASK) n" using h(3) by simp
    ultimately show "bit (?h AND NOT HANDLE_MASK) n = bit (hs_harbor s) n"
      by (auto simp: bit_and_iff bit_or_iff bit_not_iff dest: bit_imp_le_length)
  qed
  have fresh: "hof c \<noteq> Some ?h" if "Some c \<in> set (hs_slot s)" for c
  proof
    assume "hof c = Some ?h"
    with that obtain i where i: "i < ?n" "hs_slot s ! i = Some c" using k by (metis in_set_conv_nth)
    with wf \<open>hof c = Some ?h\<close> have "unat ?h mod ?n = i" by (fastforce simp: handle_wf_def)
    with low h(2) i show False by simp
  qed
  have "handle_wf (hof(ctx \<mapsto> ?h)) ?s"
    unfolding handle_wf_def
  proof (intro conjI allI impI)
    fix i c
    assume i: "i < hs_slot_size ?s" and c: "hs_slot ?s ! i = Some c"
    show "\<exists>g. (hof(ctx \<mapsto> ?h)) c = Some g \<and> unat g mod hs_slot_size ?s = i"
    proof (cases "i = unat h mod ?n")
      case True
      with c lt have "c = ctx" by simp
      with True low show ?thesis by simp
    next
      case False
      with c have "hs_slot s ! i = Some c" by simp
      moreover from this have "c \<noteq> ctx" using new i k nth_mem [of i "hs_slot s"] by auto
      ultimately show ?thesis using wf i by (auto simp: handle_wf_def)
    qed
  qed (use wf in \<open>auto simp: handle_wf_def\<close>)
  with h(1) slots fresh hi register_step_found [OF h(1), of hof] show ?thesis
    by (intro exI [of _ ?h] exI [of _ ?s]) auto
qed

lemma register_ok:
  assumes wf: "handle_wf hof s" and room: "handle_room s" and new: "Some ctx \<notin> set (hs_slot s)"
  shows "\<exists>h s'. uboss_handle_register hof ctx s = Some (h, s') \<and>
    handle_wf (hof(ctx \<mapsto> h)) s' \<and> (\<forall>c. Some c \<in> set (hs_slot s') \<longleftrightarrow> c = ctx \<or> Some c \<in> set (hs_slot s)) \<and>
    (\<forall>c. Some c \<in> set (hs_slot s) \<longrightarrow> hof c \<noteq> Some h) \<and> h AND NOT HANDLE_MASK = hs_harbor s \<and>
    hs_harbor s' = hs_harbor s \<and> hs_name s' = hs_name s \<and> hs_name_count s' = hs_name_count s \<and>
    hs_name_cap s' = hs_name_cap s"
proof (cases "None \<in> set (hs_slot s)")
  case True
  with register_place [OF wf _ new] show ?thesis by blast
next
  case False
  let ?n = "hs_slot_size s"
  have grow: "?n * 2 - 1 \<le> unat HANDLE_MASK" using room False by (simp add: handle_room_def)
  obtain k where k: "2 \<le> k" "k \<le> 24" "?n = 2 ^ k" "length (hs_slot s) = 2 ^ k"
    using wf by (rule handle_wf_size)
  obtain t where t: "handle_rehash hof (?n * 2) (hs_slot s) (replicate (?n * 2) None) = Some t"
    "set t = insert None (set (hs_slot s))"
    "handle_wf hof (s\<lparr>hs_slot := t, hs_slot_size := ?n * 2\<rparr>)"
    using handle_expand_ok [OF wf False grow] by blast
  have "hs_slot s ! (unat h mod ?n) \<noteq> None" for h :: u32
    using False k by (metis mod_less_divisor nth_mem zero_less_numeral zero_less_power)
  then have "handle_scan s ctx 0 ?n = Some None"
    using handle_scan_cases [OF k(3,2,4), of ctx 0 ?n] by blast
  then have "uboss_handle_register hof ctx s =
      uboss_handle_register hof ctx (s\<lparr>hs_slot := t, hs_slot_size := ?n * 2\<rparr>)"
    using grow t(1) by (subst uboss_handle_register.simps) simp
  with register_place [OF t(3), of ctx] t(2) new show ?thesis by auto
qed

lemma handle_retire_table:
  assumes wf: "handle_wf hof s"
  shows "handle_wf hof (s\<lparr>hs_slot := (hs_slot s)[slot_hash h (hs_slot_size s) := None]\<rparr>)"
  using assms by (auto simp: handle_wf_def dest!: list_update_None_SomeD)

text \<open>A context sits in one slot only, so clearing its slot takes it out of the table.\<close>

lemma handle_retire_slots:
  assumes wf: "handle_wf hof s" and found: "handle_lookup hof h s = Some ctx"
  shows "Some c \<in> set ((hs_slot s)[slot_hash h (hs_slot_size s) := None]) \<longleftrightarrow>
    c \<noteq> ctx \<and> Some c \<in> set (hs_slot s)"
proof -
  obtain k where k: "2 \<le> k" "k \<le> 24" "hs_slot_size s = 2 ^ k" "length (hs_slot s) = 2 ^ k"
    using wf by (rule handle_wf_size)
  let ?i = "slot_hash h (hs_slot_size s)"
  from found have at: "?i < length (hs_slot s)" "hs_slot s ! ?i = Some ctx"
    by (auto simp: handle_lookup_def Let_def split: if_splits option.splits)
  have uniq: "j = ?i" if "j < length (hs_slot s)" "hs_slot s ! j = Some ctx" for j
    using that at wf k by (metis handle_wf_def option.inject)
  show ?thesis
  proof
    assume "Some c \<in> set ((hs_slot s)[?i := None])"
    then obtain j where "j < length (hs_slot s)" "(hs_slot s)[?i := None] ! j = Some c"
      by (metis in_set_conv_nth length_list_update)
    then show "c \<noteq> ctx \<and> Some c \<in> set (hs_slot s)"
      using uniq by (cases "j = ?i") (auto simp: in_set_conv_nth)
  next
    assume "c \<noteq> ctx \<and> Some c \<in> set (hs_slot s)"
    then obtain j where "j < length (hs_slot s)" "hs_slot s ! j = Some c" "c \<noteq> ctx"
      by (metis in_set_conv_nth)
    with at show "Some c \<in> set ((hs_slot s)[?i := None])"
      by (metis length_list_update nth_list_update_neq nth_mem option.inject)
  qed
qed

section \<open>The name array is a sorted map\<close>

lemma strcmp_eq_0 [simp]: "strcmp a b = 0 \<longleftrightarrow> a = b"
  by (induction a b rule: strcmp.induct) auto

lemma strcmp_neg [simp]: "strcmp a b < 0 \<longleftrightarrow> a < b"
  by (induction a b rule: strcmp.induct) (auto simp: less_char_def)

definition hs_names :: "handle_storage \<Rightarrow> handle_name list" where
  "hs_names s = map the (take (hs_name_count s) (hs_name s))"

definition names_wf :: "handle_storage \<Rightarrow> bool" where
  "names_wf s \<longleftrightarrow> 0 < hs_name_cap s \<and> length (hs_name s) = hs_name_cap s \<and>
     hs_name_count s \<le> hs_name_cap s \<and> (\<forall>i < hs_name_count s. hs_name s ! i \<noteq> None) \<and>
     sorted_wrt (<) (map hn_name (hs_names s))"

definition name_map :: "handle_storage \<Rightarrow> string \<rightharpoonup> u32" where
  "name_map s = map_of (map (\<lambda>n. (hn_name n, hn_handle n)) (hs_names s))"

lemma names_wf_init [simp]: "names_wf (uboss_handle_init harbor)"
  by (simp add: names_wf_def uboss_handle_init_def hs_names_def)

lemma length_hs_names: "names_wf s \<Longrightarrow> length (hs_names s) = hs_name_count s"
  by (simp add: hs_names_def names_wf_def)

lemma nth_hs_names:
  "names_wf s \<Longrightarrow> i < hs_name_count s \<Longrightarrow> hs_name s ! i = Some (hs_names s ! i)"
  by (auto simp: hs_names_def names_wf_def)

lemma names_less:
  "names_wf s \<Longrightarrow> i < j \<Longrightarrow> j < hs_name_count s \<Longrightarrow>
    hn_name (hs_names s ! i) < hn_name (hs_names s ! j)"
  using sorted_wrt_nth_less [of "(<)" "map hn_name (hs_names s)" i j] length_hs_names [of s]
  by (simp add: names_wf_def)

lemma name_map_at:
  assumes "names_wf s" "i < hs_name_count s"
  shows "name_map s (hn_name (hs_names s ! i)) = Some (hn_handle (hs_names s ! i))"
proof -
  let ?ns = "hs_names s"
  have "distinct (map hn_name ?ns)" using assms(1) by (auto simp: names_wf_def sorted_wrt_iff_nth_less
        distinct_conv_nth) (metis less_irrefl nat_neq_iff)
  moreover have "?ns ! i \<in> set ?ns" using assms by (simp add: length_hs_names)
  ultimately show ?thesis
    unfolding name_map_def by (intro map_of_is_SomeI) (auto simp: comp_def)
qed

lemma name_map_NoneI:
  assumes "names_wf s" "\<And>i. i < hs_name_count s \<Longrightarrow> hn_name (hs_names s ! i) \<noteq> name"
  shows "name_map s name = None"
proof -
  have "name \<notin> set (map hn_name (hs_names s))"
    using assms by (force simp: length_hs_names in_set_conv_nth)
  then show ?thesis by (auto simp: name_map_def map_of_eq_None_iff)
qed

lemma name_search_ok:
  assumes "names_wf s" "0 \<le> b" "e < int (hs_name_count s)" "b \<le> e + 1"
    "\<forall>i. int i < b \<longrightarrow> hn_name (hs_names s ! i) < name"
    "\<forall>i < hs_name_count s. e < int i \<longrightarrow> name < hn_name (hs_names s ! i)"
  shows "case name_map s name of
      Some h \<Rightarrow> name_search (hs_name s) name b e = Some (Inl h)
    | None \<Rightarrow> \<exists>p. name_search (hs_name s) name b e = Some (Inr (int p)) \<and> p \<le> hs_name_count s \<and>
        (\<forall>i < p. hn_name (hs_names s ! i) < name) \<and>
        (\<forall>i < hs_name_count s. p \<le> i \<longrightarrow> name < hn_name (hs_names s ! i))"
  using assms
proof (induction "hs_name s" name b e rule: name_search.induct)
  case (1 name b e)
  show ?case
  proof (cases "b \<le> e")
    case False
    with "1.prems" have be: "b = e + 1" by simp
    have cmp: "hn_name (hs_names s ! i) < name \<or> name < hn_name (hs_names s ! i)"
      if "i < hs_name_count s" for i
      using "1.prems"(5,6) that be by (cases "int i < b") auto
    have "name_map s name = None"
      using cmp by (intro name_map_NoneI [OF "1.prems"(1)]) (metis less_irrefl)
    moreover have "name_search (hs_name s) name b e = Some (Inr (int (nat b)))"
      using False "1.prems"(2) by (subst name_search.simps) simp
    ultimately show ?thesis
      using "1.prems"(2-6) be by (auto intro!: exI [of _ "nat b"])
  next
    case True
    let ?m = "(b + e) div 2"
    let ?n = "hs_names s ! nat ?m"
    have m: "0 \<le> ?m" "b \<le> ?m" "?m \<le> e" using True "1.prems"(2) by auto
    then have lt: "nat ?m < hs_name_count s" using "1.prems"(3) by linarith
    then have at: "hs_name s ! nat ?m = Some ?n" using "1.prems"(1) by (simp add: nth_hs_names)
    have len: "nat ?m < length (hs_name s)" using lt "1.prems"(1) by (simp add: names_wf_def)
    have unf: "name_search (hs_name s) name b e =
        (if hn_name ?n = name then Some (Inl (hn_handle ?n))
         else if hn_name ?n < name then name_search (hs_name s) name (?m + 1) e
         else name_search (hs_name s) name b (?m - 1))"
      using True m len at by (subst name_search.simps) (simp add: Let_def)
    consider (eq) "hn_name ?n = name" | (lt) "hn_name ?n < name" | (gt) "name < hn_name ?n"
      by (metis linorder_less_linear)
    then show ?thesis
    proof cases
      case eq
      with lt "1.prems"(1) have "name_map s name = Some (hn_handle ?n)" using name_map_at by blast
      with eq unf show ?thesis by simp
    next
      case lt
      have low: "hn_name (hs_names s ! i) < name" if "int i < ?m + 1" for i
      proof (cases "i = nat ?m")
        case False
        with that m(1) have "i < nat ?m" by linarith
        with names_less [OF "1.prems"(1) this] lt \<open>nat ?m < hs_name_count s\<close>
        show ?thesis by (auto intro: less_trans)
      qed (use lt in simp)
      have "strcmp (hn_name ?n) name \<noteq> 0" "strcmp (hn_name ?n) name < 0" using lt by auto
      with "1.hyps"(1) [OF True refl, of "()" ?n "strcmp (hn_name ?n) name"] m len at low "1.prems"
      have "case name_map s name of
          Some h \<Rightarrow> name_search (hs_name s) name (?m + 1) e = Some (Inl h)
        | None \<Rightarrow> \<exists>p. name_search (hs_name s) name (?m + 1) e = Some (Inr (int p)) \<and>
            p \<le> hs_name_count s \<and> (\<forall>i < p. hn_name (hs_names s ! i) < name) \<and>
            (\<forall>i < hs_name_count s. p \<le> i \<longrightarrow> name < hn_name (hs_names s ! i))"
        by auto
      moreover have "name_search (hs_name s) name b e = name_search (hs_name s) name (?m + 1) e"
        using lt unf less_imp_neq [OF lt] by (simp only: if_False if_True)
      ultimately show ?thesis by (simp only:)
    next
      case gt
      have high: "name < hn_name (hs_names s ! i)" if "i < hs_name_count s" "?m - 1 < int i" for i
        using names_less [OF "1.prems"(1), of "nat ?m" i] gt that m
        by (cases "i = nat ?m") (auto intro: less_trans)
      have "strcmp (hn_name ?n) name \<noteq> 0" "\<not> strcmp (hn_name ?n) name < 0" using gt by auto
      with "1.hyps"(2) [OF True refl, of "()" ?n "strcmp (hn_name ?n) name"] m len at high "1.prems"
      have "case name_map s name of
          Some h \<Rightarrow> name_search (hs_name s) name b (?m - 1) = Some (Inl h)
        | None \<Rightarrow> \<exists>p. name_search (hs_name s) name b (?m - 1) = Some (Inr (int p)) \<and>
            p \<le> hs_name_count s \<and> (\<forall>i < p. hn_name (hs_names s ! i) < name) \<and>
            (\<forall>i < hs_name_count s. p \<le> i \<longrightarrow> name < hn_name (hs_names s ! i))"
        by auto
      moreover have "name_search (hs_name s) name b e = name_search (hs_name s) name b (?m - 1)"
        using gt unf by (simp add: order_less_imp_not_eq2 order_less_not_sym)
      ultimately show ?thesis by (simp only:)
    qed
  qed
qed

lemma name_search_whole:
  assumes "names_wf s"
  shows "case name_map s name of
      Some h \<Rightarrow> name_search (hs_name s) name 0 (int (hs_name_count s) - 1) = Some (Inl h)
    | None \<Rightarrow> \<exists>p. name_search (hs_name s) name 0 (int (hs_name_count s) - 1) = Some (Inr (int p)) \<and>
        p \<le> hs_name_count s \<and> (\<forall>i < p. hn_name (hs_names s ! i) < name) \<and>
        (\<forall>i < hs_name_count s. p \<le> i \<longrightarrow> name < hn_name (hs_names s ! i))"
  using assms by (intro name_search_ok) auto

lemma findname_ok:
  assumes "names_wf s"
  shows "uboss_handle_findname name s =
    Some (case name_map s name of None \<Rightarrow> 0 | Some h \<Rightarrow> h)"
  using name_search_whole [OF assms, of name]
  by (auto simp: uboss_handle_findname_def split: option.splits)

end
