(* ===== verification/HandleNames.thy ===== *)
theory HandleNames
  imports Handle
begin

text \<open>
  Continuation of the model of \<open>core/uboss_handle.c\<close>: inserting names into the sorted
  array, dropping the names of a retired handle, and the registry contract that the table
  offers to the server.
\<close>

section \<open>Inserting a name\<close>

lemma length_shift_up [simp]: "length (shift_up p n xs) = length xs"
  by (induction p n xs rule: shift_up.induct) auto

lemma nth_shift_up:
  assumes "n < length xs"
  shows "shift_up p n xs ! i = (if p < i \<and> i \<le> n then xs ! (i - 1) else xs ! i)"
  using assms
proof (induction p n xs rule: shift_up.induct)
  case (1 p xs)
  then show ?case by simp
next
  case (2 p n xs)
  show ?case
  proof (cases "p < Suc n")
    case True
    with 2 show ?thesis by (auto simp: nth_list_update)
  next
    case False
    then show ?thesis by auto
  qed
qed

lemma insert_name_before_ok:
  assumes wf: "names_wf s" and p: "p \<le> hs_name_count s"
    and room: "hs_name_count s < hs_name_cap s \<or> hs_name_cap s * 2 \<le> MAX_SLOT_SIZE"
  shows "\<exists>s'. insert_name_before name h p s = Some s' \<and>
    hs_name_count s' = Suc (hs_name_count s) \<and> length (hs_name s') = hs_name_cap s' \<and>
    hs_name_count s' \<le> hs_name_cap s' \<and> 0 < hs_name_cap s' \<and>
    (\<forall>i < hs_name_count s'. hs_name s' ! i \<noteq> None) \<and>
    hs_names s' = take p (hs_names s) @ \<lparr>hn_name = name, hn_handle = h\<rparr> # drop p (hs_names s) \<and>
    (\<exists>cap ns. s' = s\<lparr>hs_name_cap := cap, hs_name := ns, hs_name_count := Suc (hs_name_count s)\<rparr>)"
proof -
  let ?e = "\<lparr>hn_name = name, hn_handle = h\<rparr>" and ?c = "hs_name_count s"
  obtain cap ns where
    ns: "length ns = cap" "Suc ?c \<le> cap" "0 < cap"
      "\<forall>i < p. ns ! i = hs_name s ! i" "\<forall>i. p < i \<and> i \<le> ?c \<longrightarrow> ns ! i = hs_name s ! (i - 1)"
    and ins: "insert_name_before name h p s =
      Some (s\<lparr>hs_name_cap := cap, hs_name := ns[p := Some ?e], hs_name_count := Suc ?c\<rparr>)"
  proof (cases "?c \<ge> hs_name_cap s")
    case True
    with wf have c: "?c = hs_name_cap s" by (simp add: names_wf_def)
    let ?cap = "hs_name_cap s * 2"
    let ?ns = "map (\<lambda>i. if i < p then hs_name s ! i
        else if p < i \<and> i \<le> ?c then hs_name s ! (i - 1) else None) [0..<?cap]"
    have pos: "0 < hs_name_cap s" using wf by (simp add: names_wf_def)
    show thesis
    proof (rule that [of ?ns ?cap])
      show "insert_name_before name h p s = Some (s\<lparr>hs_name_cap := ?cap,
          hs_name := ?ns[p := Some ?e], hs_name_count := Suc ?c\<rparr>)"
        using room p True pos c by (simp add: insert_name_before_def Let_def)
    qed (use pos c p in auto)
  next
    case False
    let ?ns = "shift_up p ?c (hs_name s)"
    have len: "length (hs_name s) = hs_name_cap s" using wf by (simp add: names_wf_def)
    show thesis
    proof (rule that [of ?ns "hs_name_cap s"])
      show "insert_name_before name h p s = Some (s\<lparr>hs_name_cap := hs_name_cap s,
          hs_name := ?ns[p := Some ?e], hs_name_count := Suc ?c\<rparr>)"
        using False p len by (simp add: insert_name_before_def)
    qed (use False len in \<open>auto simp: nth_shift_up\<close>)
  qed
  let ?s = "s\<lparr>hs_name_cap := cap, hs_name := ns[p := Some ?e], hs_name_count := Suc ?c\<rparr>"
  let ?new = "take p (hs_names s) @ ?e # drop p (hs_names s)"
  have entry: "(ns[p := Some ?e]) ! i = Some (?new ! i)" if "i < Suc ?c" for i
  proof -
    have "ns ! i = Some (hs_names s ! i)" if "i < p" for i
      using that ns(4) p nth_hs_names [OF wf, of i] by simp
    moreover have "ns ! i = Some (hs_names s ! (i - 1))" if "p < i" "i \<le> ?c" for i
      using that ns(5) nth_hs_names [OF wf, of "i - 1"] by auto
    moreover have "length (hs_names s) = ?c" using wf by (rule length_hs_names)
    ultimately show ?thesis using that ns(1,2) p
      by (cases "i = p"; cases "i < p") (auto simp: nth_append nth_Cons' min_def)
  qed
  have "hs_names ?s = ?new"
  proof (rule nth_equalityI)
    show len: "length (hs_names ?s) = length ?new"
      using ns(1,2) wf p by (simp add: hs_names_def names_wf_def)
    fix i
    assume "i < length (hs_names ?s)"
    then have "i < Suc ?c" "i < length ns" using ns(1,2) by (auto simp: hs_names_def)
    then show "hs_names ?s ! i = ?new ! i" using entry by (simp add: hs_names_def)
  qed
  moreover have "\<forall>i < Suc ?c. hs_name ?s ! i \<noteq> None" using entry by auto
  ultimately show ?thesis using ins ns(1-3) by (intro exI [of _ ?s]) auto
qed

lemma sorted_wrt_insert_at:
  fixes xs :: "'a::linorder list"
  assumes "sorted_wrt (<) xs" "p \<le> length xs" "\<forall>i < p. xs ! i < x"
    "\<forall>i < length xs. p \<le> i \<longrightarrow> x < xs ! i"
  shows "sorted_wrt (<) (take p xs @ x # drop p xs)"
proof -
  have "\<forall>y \<in> set (take p xs). y < x" using assms(2,3) by (auto simp: in_set_conv_nth)
  moreover have "\<forall>z \<in> set (drop p xs). x < z" using assms(2,4) by (auto simp: in_set_conv_nth)
  moreover have "sorted_wrt (<) (take p xs @ drop p xs)" using assms(1) by simp
  ultimately show ?thesis
    unfolding sorted_wrt_append by (auto simp del: append_take_drop_id)
qed

definition name_room :: "handle_storage \<Rightarrow> bool" where
  "name_room s \<longleftrightarrow> hs_name_count s < hs_name_cap s \<or> hs_name_cap s * 2 \<le> MAX_SLOT_SIZE"

lemma namehandle_new:
  assumes wf: "names_wf s" and room: "name_room s" and new: "name_map s name = None"
  shows "\<exists>s'. uboss_handle_namehandle h name s = Some (Some name, s') \<and> names_wf s' \<and>
    name_map s' = (name_map s)(name \<mapsto> h) \<and>
    (\<exists>cap ns. s' = s\<lparr>hs_name_cap := cap, hs_name := ns, hs_name_count := Suc (hs_name_count s)\<rparr>)"
proof -
  from name_search_whole [OF wf, of name] new obtain p where
    p: "name_search (hs_name s) name 0 (int (hs_name_count s) - 1) = Some (Inr (int p))"
      "p \<le> hs_name_count s" "\<forall>i < p. hn_name (hs_names s ! i) < name"
      "\<forall>i < hs_name_count s. p \<le> i \<longrightarrow> name < hn_name (hs_names s ! i)" by auto
  obtain s' where s': "insert_name_before name h p s = Some s'"
    "hs_name_count s' = Suc (hs_name_count s)" "length (hs_name s') = hs_name_cap s'"
    "hs_name_count s' \<le> hs_name_cap s'" "0 < hs_name_cap s'"
    "\<forall>i < hs_name_count s'. hs_name s' ! i \<noteq> None"
    "hs_names s' = take p (hs_names s) @ \<lparr>hn_name = name, hn_handle = h\<rparr> # drop p (hs_names s)"
    "\<exists>cap ns. s' = s\<lparr>hs_name_cap := cap, hs_name := ns, hs_name_count := Suc (hs_name_count s)\<rparr>"
    using insert_name_before_ok [OF wf p(2) room [unfolded name_room_def], of name h] by blast
  have len: "length (hs_names s) = hs_name_count s" using wf by (rule length_hs_names)
  have "sorted_wrt (<) (take p (map hn_name (hs_names s)) @ name # drop p (map hn_name (hs_names s)))"
  proof (rule sorted_wrt_insert_at)
    show "sorted_wrt (<) (map hn_name (hs_names s))" using wf by (simp add: names_wf_def)
    show "p \<le> length (map hn_name (hs_names s))" using p(2) len by simp
    show "\<forall>i < p. map hn_name (hs_names s) ! i < name" using p(2,3) len by simp
    show "\<forall>i < length (map hn_name (hs_names s)). p \<le> i \<longrightarrow> name < map hn_name (hs_names s) ! i"
      using p(4) len by simp
  qed
  then have "names_wf s'"
    using s'(3-7) by (simp add: names_wf_def take_map drop_map)
  moreover have "name_map s' = (name_map s)(name \<mapsto> h)"
  proof
    fix x
    have none: "map_of (map (\<lambda>n. (hn_name n, hn_handle n)) (take p (hs_names s))) name = None"
      using new by (auto simp: name_map_def map_of_eq_None_iff dest: in_set_takeD)
    have "name_map s x =
        (map_of (map (\<lambda>n. (hn_name n, hn_handle n)) (drop p (hs_names s))) ++
         map_of (map (\<lambda>n. (hn_name n, hn_handle n)) (take p (hs_names s)))) x"
      by (simp only: name_map_def map_of_append [symmetric] map_append [symmetric]
          append_take_drop_id)
    then show "name_map s' x = ((name_map s)(name \<mapsto> h)) x"
      using none by (auto simp: name_map_def [of s'] s'(7) map_add_def split: option.splits)
  qed
  ultimately show ?thesis
    using s'(1,8) p(1) by (simp add: uboss_handle_namehandle_def insert_name_def)
qed

lemma namehandle_taken:
  assumes "names_wf s" "name_map s name = Some g"
  shows "uboss_handle_namehandle h name s = Some (None, s)"
  using name_search_whole [OF assms(1), of name] assms(2)
  by (simp add: uboss_handle_namehandle_def insert_name_def)

section \<open>Dropping the names of a handle\<close>

lemma name_compact_ok:
  assumes "j \<le> i" "i + n \<le> length ns" "\<forall>k. i \<le> k \<and> k < i + n \<longrightarrow> ns ! k \<noteq> None"
  shows "\<exists>j' ns'. name_compact h i j n ns = Some (j', ns') \<and> length ns' = length ns \<and>
    j' \<le> i + n \<and> take j' ns' =
      take j ns @ filter (\<lambda>e. hn_handle (the e) \<noteq> h) (take n (drop i ns))"
  using assms
proof (induction n arbitrary: i j ns)
  case 0
  then show ?case by simp
next
  case (Suc n)
  from Suc.prems have i: "i < length ns" by simp
  from Suc.prems(3) obtain e where e: "ns ! i = Some e" by (metis add_Suc_right le_refl less_add_Suc1 option.exhaust)
  have tk: "take (Suc n) (drop i ns) = Some e # take n (drop (Suc i) ns)"
    using i e by (metis Cons_nth_drop_Suc take_Suc_Cons)
  show ?case
  proof (cases "hn_handle e = h")
    case True
    with Suc.IH [of j "Suc i" ns] Suc.prems i e tk show ?thesis by auto
  next
    case False
    let ?ns = "if i \<noteq> j then ns[j := Some e] else ns"
    have "\<exists>j' ns'. name_compact h (Suc i) (Suc j) n ?ns = Some (j', ns') \<and> length ns' = length ?ns \<and>
        j' \<le> Suc i + n \<and> take j' ns' =
          take (Suc j) ?ns @ filter (\<lambda>e. hn_handle (the e) \<noteq> h) (take n (drop (Suc i) ?ns))"
      using Suc.prems by (intro Suc.IH) (auto simp: nth_list_update)
    moreover have "take (Suc j) ?ns = take j ns @ [Some e]"
      using Suc.prems(1) i e by (auto simp: take_Suc_conv_app_nth)
    moreover have "drop (Suc i) ?ns = drop (Suc i) ns" using Suc.prems(1) by auto
    ultimately show ?thesis using False e i tk by auto
  qed
qed

lemma handle_retire_ok:
  assumes wf: "handle_wf hof s" and nwf: "names_wf s" and found: "handle_lookup hof h s = Some ctx"
  shows "\<exists>s'. handle_retire hof h s = Some (Some ctx, s') \<and> handle_wf hof s' \<and> names_wf s' \<and>
    (\<forall>c. Some c \<in> set (hs_slot s') \<longleftrightarrow> c \<noteq> ctx \<and> Some c \<in> set (hs_slot s)) \<and>
    hs_names s' = filter (\<lambda>n. hn_handle n \<noteq> h) (hs_names s)"
proof -
  let ?c = "hs_name_count s"
  from nwf have "0 \<le> (0::nat)" "0 + ?c \<le> length (hs_name s)"
    "\<forall>k. 0 \<le> k \<and> k < 0 + ?c \<longrightarrow> hs_name s ! k \<noteq> None" by (auto simp: names_wf_def)
  from name_compact_ok [OF this, of h] obtain j ns where
    j: "name_compact h 0 0 ?c (hs_name s) = Some (j, ns)" "length ns = length (hs_name s)" "j \<le> ?c"
      "take j ns = filter (\<lambda>e. hn_handle (the e) \<noteq> h) (take ?c (hs_name s))" by auto
  let ?s1 = "s\<lparr>hs_slot := (hs_slot s)[slot_hash h (hs_slot_size s) := None]\<rparr>"
  let ?s = "?s1\<lparr>hs_name := ns, hs_name_count := j\<rparr>"
  have ret: "handle_retire hof h s = Some (Some ctx, ?s)"
    using found j(1) by (simp add: handle_retire_def)
  have names: "hs_names ?s = filter (\<lambda>n. hn_handle n \<noteq> h) (hs_names s)"
    using j(4) by (simp add: hs_names_def filter_map comp_def)
  have "ns ! i \<noteq> None" if "i < j" for i
  proof -
    have "ns ! i = take j ns ! i" using that by simp
    also have "\<dots> \<in> set (take j ns)" using that j(2,3) nwf by (intro nth_mem) (simp add: names_wf_def)
    also have "set (take j ns) \<subseteq> set (take ?c (hs_name s))" by (simp only: j(4)) auto
    finally have "\<exists>k < ?c. hs_name s ! k = ns ! i" by (auto simp: in_set_conv_nth)
    then show ?thesis using nwf by (metis names_wf_def)
  qed
  moreover have "sorted_wrt (<) (map hn_name (hs_names ?s))"
    using nwf unfolding names names_wf_def sorted_wrt_map by (intro sorted_wrt_filter) simp
  ultimately have "names_wf ?s" using nwf j(2,3) by (auto simp: names_wf_def)
  moreover have "handle_wf hof ?s"
    using handle_retire_table [OF wf, of h] by (simp add: handle_wf_def)
  ultimately show ?thesis using ret names handle_retire_slots [OF wf found] by auto
qed

lemma handle_retire_none:
  "handle_lookup hof h s = None \<Longrightarrow> handle_retire hof h s = Some (None, s)"
  by (simp add: handle_retire_def)

section \<open>The registry contract\<close>

text \<open>
  What the server relies on: a registered object is found under its handle until that
  handle is retired, and no two objects share a handle. The state pairs the table with
  the handle fields of the contexts, since registering a context ends with
  \<open>ctx->handle = uboss_handle_register(ctx)\<close>.
\<close>

locale registry =
  fixes invar :: "'s \<Rightarrow> bool"
    and lookup :: "'k \<Rightarrow> 's \<Rightarrow> 'v option"
    and can_add :: "'v \<Rightarrow> 's \<Rightarrow> bool"
    and add :: "'v \<Rightarrow> 's \<Rightarrow> ('k \<times> 's) option"
    and del :: "'k \<Rightarrow> 's \<Rightarrow> ('v option \<times> 's) option"
  assumes add_law: "invar s \<Longrightarrow> can_add v s \<Longrightarrow>
      \<exists>k s'. add v s = Some (k, s') \<and> invar s' \<and> lookup k s = None \<and>
        (\<forall>k'. lookup k' s' = (if k' = k then Some v else lookup k' s))"
    and del_law: "invar s \<Longrightarrow>
      \<exists>s'. del k s = Some (lookup k s, s') \<and> invar s' \<and>
        (\<forall>k'. lookup k' s' = (if k' = k then None else lookup k' s))"
    and can_add_new: "can_add v s \<Longrightarrow> lookup k s \<noteq> Some v"
begin

lemma add_finds:
  assumes "invar s" "can_add v s" "add v s = Some (k, s')"
  shows "lookup k s' = Some v" "lookup k s = None" "invar s'"
    "k' \<noteq> k \<Longrightarrow> lookup k' s' = lookup k' s"
  using add_law [OF assms(1,2)] assms(3) by auto

lemma add_keeps_injective:
  assumes "invar s" "can_add v s" "add v s = Some (k, s')"
    and inj: "\<And>a b x. lookup a s = Some x \<Longrightarrow> lookup b s = Some x \<Longrightarrow> a = b"
    and "lookup a s' = Some x" "lookup b s' = Some x"
  shows "a = b"
  using add_law [OF assms(1,2)] assms(3,5,6) can_add_new [OF assms(2)] inj
  by (auto split: if_splits)

lemma del_then_lookup:
  assumes "invar s" "del k s = Some (r, s')"
  shows "r = lookup k s" "lookup k s' = None" "invar s'"
    "k' \<noteq> k \<Longrightarrow> lookup k' s' = lookup k' s"
  using del_law [OF assms(1), of k] assms(2) by auto

lemma add_del_roundtrip:
  assumes "invar s" "can_add v s" "add v s = Some (k, s')"
  shows "\<exists>s''. del k s' = Some (Some v, s'') \<and> (\<forall>k'. lookup k' s'' = lookup k' s)"
proof -
  note found = add_finds [OF assms]
  from del_law [OF found(3), of k] obtain s'' where
    s'': "del k s' = Some (lookup k s', s'')"
      "\<forall>k'. lookup k' s'' = (if k' = k then None else lookup k' s')" by blast
  with found show ?thesis by auto
qed

end

type_synonym handle_view = "(ptr \<rightharpoonup> u32) \<times> handle_storage"

definition view_wf :: "handle_view \<Rightarrow> bool" where
  "view_wf v \<longleftrightarrow> handle_wf (fst v) (snd v) \<and> names_wf (snd v)"

definition view_lookup :: "u32 \<Rightarrow> handle_view \<Rightarrow> ptr option" where
  "view_lookup h v = handle_lookup (fst v) h (snd v)"

definition view_register :: "ptr \<Rightarrow> handle_view \<Rightarrow> (u32 \<times> handle_view) option" where
  "view_register ctx v =
     do { (h, s') \<leftarrow> uboss_handle_register (fst v) ctx (snd v);
          Some (h, ((fst v)(ctx \<mapsto> h), s')) }"

definition view_retire :: "u32 \<Rightarrow> handle_view \<Rightarrow> (ptr option \<times> handle_view) option" where
  "view_retire h v =
     do { (c, s') \<leftarrow> handle_retire (fst v) h (snd v); Some (c, (fst v, s')) }"

definition view_can_add :: "ptr \<Rightarrow> handle_view \<Rightarrow> bool" where
  "view_can_add ctx v \<longleftrightarrow> handle_room (snd v) \<and> Some ctx \<notin> set (hs_slot (snd v))"

lemma view_lookup_iff:
  "view_wf v \<Longrightarrow> view_lookup h v = Some c \<longleftrightarrow>
     Some c \<in> set (hs_slot (snd v)) \<and> fst v c = Some h"
  by (simp add: view_wf_def view_lookup_def handle_lookup_iff)

lemma view_lookup_eqI:
  assumes "\<And>c. view_lookup h v = Some c \<longleftrightarrow> r = Some c"
  shows "view_lookup h v = r"
  using assms by (metis option.exhaust)

lemma view_register_ok:
  assumes wf: "view_wf v" and add: "view_can_add ctx v"
  shows "\<exists>h v'. view_register ctx v = Some (h, v') \<and> view_wf v' \<and> view_lookup h v = None \<and>
    (\<forall>g. view_lookup g v' = (if g = h then Some ctx else view_lookup g v))"
proof -
  obtain hof s where v: "v = (hof, s)" by (cases v)
  from wf add v have pre: "handle_wf hof s" "handle_room s" "Some ctx \<notin> set (hs_slot s)"
    by (auto simp: view_wf_def view_can_add_def)
  obtain h s' where r: "uboss_handle_register hof ctx s = Some (h, s')"
    "handle_wf (hof(ctx \<mapsto> h)) s'"
    "\<forall>c. Some c \<in> set (hs_slot s') \<longleftrightarrow> c = ctx \<or> Some c \<in> set (hs_slot s)"
    "\<forall>c. Some c \<in> set (hs_slot s) \<longrightarrow> hof c \<noteq> Some h"
    "hs_name s' = hs_name s" "hs_name_count s' = hs_name_count s" "hs_name_cap s' = hs_name_cap s"
    using register_ok [OF pre] by auto
  let ?v = "(hof(ctx \<mapsto> h), s')"
  have wf': "view_wf ?v" using r wf v by (simp add: view_wf_def names_wf_def hs_names_def)
  have fresh: "view_lookup h v = None"
    using view_lookup_iff [OF wf, of h] r(4) v by (cases "view_lookup h v") auto
  have "view_lookup g ?v = (if g = h then Some ctx else view_lookup g v)" for g
  proof (rule view_lookup_eqI)
    fix c
    have "c = ctx \<Longrightarrow> view_lookup g v \<noteq> Some c"
      using view_lookup_iff [OF wf] pre(3) v by auto
    then show "view_lookup g ?v = Some c \<longleftrightarrow> (if g = h then Some ctx else view_lookup g v) = Some c"
      using view_lookup_iff [OF wf'] view_lookup_iff [OF wf] r(3,4) v by auto
  qed
  with r(1) wf' fresh v show ?thesis
    by (intro exI [of _ h] exI [of _ ?v]) (simp add: view_register_def)
qed

lemma view_retire_ok:
  assumes wf: "view_wf v"
  shows "\<exists>v'. view_retire h v = Some (view_lookup h v, v') \<and> view_wf v' \<and>
    (\<forall>g. view_lookup g v' = (if g = h then None else view_lookup g v)) \<and> fst v' = fst v"
proof (cases "view_lookup h v")
  case None
  then have "view_retire h v = Some (None, v)"
    by (simp add: view_retire_def view_lookup_def handle_retire_none)
  with None wf show ?thesis by auto
next
  case (Some ctx)
  obtain hof s where v: "v = (hof, s)" by (cases v)
  from wf Some v obtain s' where r: "handle_retire hof h s = Some (Some ctx, s')"
    "handle_wf hof s'" "names_wf s'"
    "\<forall>c. Some c \<in> set (hs_slot s') \<longleftrightarrow> c \<noteq> ctx \<and> Some c \<in> set (hs_slot s)"
    using handle_retire_ok [of hof s h ctx] by (auto simp: view_wf_def view_lookup_def)
  have wf': "view_wf (hof, s')" using r by (simp add: view_wf_def)
  have at: "Some ctx \<in> set (hs_slot s)" "hof ctx = Some h"
    using view_lookup_iff [OF wf] Some v by auto
  have "view_lookup g (hof, s') = (if g = h then None else view_lookup g v)" for g
  proof (rule view_lookup_eqI)
    fix c
    have "g = h \<Longrightarrow> Some c \<in> set (hs_slot s) \<Longrightarrow> hof c = Some g \<Longrightarrow> c = ctx"
      using Some view_lookup_iff [OF wf, of h c] v by auto
    then show "view_lookup g (hof, s') = Some c \<longleftrightarrow>
        (if g = h then None else view_lookup g v) = Some c"
      using view_lookup_iff [OF wf'] view_lookup_iff [OF wf] r(4) at v by auto
  qed
  with r(1) wf' Some v show ?thesis by (simp add: view_retire_def)
qed

interpretation handles: registry view_wf view_lookup
    "\<lambda>ctx v. view_wf v \<and> view_can_add ctx v" view_register view_retire
proof unfold_locales
  fix v ctx
  assume "view_wf v" "view_wf v \<and> view_can_add ctx v"
  then show "\<exists>h v'. view_register ctx v = Some (h, v') \<and> view_wf v' \<and> view_lookup h v = None \<and>
      (\<forall>g. view_lookup g v' = (if g = h then Some ctx else view_lookup g v))"
    using view_register_ok by blast
next
  fix v h
  assume "view_wf v"
  then show "\<exists>v'. view_retire h v = Some (view_lookup h v, v') \<and> view_wf v' \<and>
      (\<forall>g. view_lookup g v' = (if g = h then None else view_lookup g v))"
    using view_retire_ok by blast
next
  fix ctx v h
  assume "view_wf v \<and> view_can_add ctx v"
  then show "view_lookup h v \<noteq> Some ctx"
    using view_lookup_iff by (auto simp: view_can_add_def)
qed

section \<open>Properties\<close>

text \<open>C8. Registering a context in a table with room never aborts, whether or not the
  table has to double: the handle it returns was not in use, carries the harbor of the
  node, finds the new context, and every other handle finds what it found before.\<close>

theorem handle_register_finds:
  assumes "handle_wf hof s" and "names_wf s" and "handle_room s" and "Some ctx \<notin> set (hs_slot s)"
  shows "\<exists>h s'. uboss_handle_register hof ctx s = Some (h, s') \<and>
    handle_wf (hof(ctx \<mapsto> h)) s' \<and> names_wf s' \<and> h AND NOT HANDLE_MASK = hs_harbor s \<and>
    handle_lookup hof h s = None \<and>
    (\<forall>g. handle_lookup (hof(ctx \<mapsto> h)) g s' = (if g = h then Some ctx else handle_lookup hof g s))"
proof -
  have "view_wf (hof, s)" "view_can_add ctx (hof, s)"
    using assms by (simp_all add: view_wf_def view_can_add_def)
  then obtain h v where v: "view_register ctx (hof, s) = Some (h, v)" "view_wf v"
    "view_lookup h (hof, s) = None"
    "\<forall>g. view_lookup g v = (if g = h then Some ctx else view_lookup g (hof, s))"
    using handles.add_law by blast
  moreover obtain h' s' where "uboss_handle_register hof ctx s = Some (h', s')"
    "h' AND NOT HANDLE_MASK = hs_harbor s" using register_ok [OF assms(1,3,4)] by blast
  ultimately show ?thesis by (auto simp: view_register_def view_wf_def view_lookup_def)
qed

lemma sample_view_room: "handle_room (uboss_handle_init 3)" "names_wf (uboss_handle_init 3)"
  "Some ctx \<notin> set (hs_slot (uboss_handle_init 3))"
  by (simp_all add: handle_room_def) (simp_all add: uboss_handle_init_def DEFAULT_SLOT_SIZE_def)

theorem handle_register_finds_witness:
  "\<exists>h s'. uboss_handle_register Map.empty 9 (uboss_handle_init 3) = Some (h, s') \<and>
    h AND NOT HANDLE_MASK = 0x3000000 \<and> handle_lookup [9 \<mapsto> h] h s' = Some 9"
  using handle_register_finds [OF handle_wf_init sample_view_room(2,1,3), of Map.empty 9]
  by (auto simp: uboss_handle_init_def HANDLE_REMOTE_SHIFT_def)

text \<open>C9. Retiring a handle takes exactly that context out of the table and exactly the
  names of that handle out of the name array, which stays sorted; an unknown handle
  changes nothing.\<close>

theorem handle_retire_removes:
  assumes "handle_wf hof s" and "names_wf s"
  shows "\<exists>s'. handle_retire hof h s = Some (handle_lookup hof h s, s') \<and>
    handle_wf hof s' \<and> names_wf s' \<and>
    (\<forall>g. handle_lookup hof g s' = (if g = h then None else handle_lookup hof g s)) \<and>
    hs_names s' = (if handle_lookup hof h s = None then hs_names s
                   else filter (\<lambda>n. hn_handle n \<noteq> h) (hs_names s))"
proof -
  have "view_wf (hof, s)" using assms by (simp add: view_wf_def)
  then obtain s' where "view_retire h (hof, s) = Some (view_lookup h (hof, s), (hof, s'))"
    "view_wf (hof, s')"
    "\<forall>g. view_lookup g (hof, s') = (if g = h then None else view_lookup g (hof, s))"
    using view_retire_ok [of "(hof, s)" h] by (metis fst_conv surj_pair)
  moreover have "hs_names s' = (if handle_lookup hof h s = None then hs_names s
      else filter (\<lambda>n. hn_handle n \<noteq> h) (hs_names s))"
    if "handle_retire hof h s = Some (r, s')" for r s'
  proof (cases "handle_lookup hof h s")
    case None
    with that show ?thesis by (simp add: handle_retire_none)
  next
    case (Some ctx)
    with that handle_retire_ok [OF assms Some] show ?thesis by auto
  qed
  ultimately show ?thesis by (auto simp: view_retire_def view_wf_def view_lookup_def)
qed

theorem handle_retire_removes_witness:
  "\<exists>s'. handle_retire Map.empty 7 (uboss_handle_init 3) = Some (None, s') \<and>
    hs_names s' = []"
  using handle_retire_removes [OF handle_wf_init sample_view_room(2), of Map.empty 7]
  by (auto simp: handle_lookup_def uboss_handle_init_def DEFAULT_SLOT_SIZE_def slot_hash_def
      hs_names_def split: if_splits option.splits)

text \<open>A name is found under the handle it was given to, all other names as before; a
  name that is taken is refused and the table is left alone. The search is the binary
  search of the code on the sorted array, growth of the array included.\<close>

theorem namehandle_then_findname:
  assumes "names_wf s" and "name_room s"
  shows "\<exists>r s'. uboss_handle_namehandle h name s = Some (r, s') \<and> names_wf s' \<and>
    (r = None) = (name_map s name \<noteq> None) \<and> (r = None \<longrightarrow> s' = s) \<and>
    (\<forall>other. uboss_handle_findname other s' =
       (if r \<noteq> None \<and> other = name then Some h else uboss_handle_findname other s))"
proof (cases "name_map s name")
  case None
  with namehandle_new [OF assms None, of h] findname_ok [OF assms(1)] findname_ok
  show ?thesis by (auto simp: map_upd_Some_unfold)
next
  case (Some g)
  with namehandle_taken [OF assms(1) Some, of h] assms(1) show ?thesis by auto
qed

theorem namehandle_then_findname_witness:
  "\<exists>s'. uboss_handle_namehandle 5 ''launcher'' (uboss_handle_init 3) = Some (Some ''launcher'', s') \<and>
    uboss_handle_findname ''launcher'' s' = Some 5"
proof -
  have room: "name_room (uboss_handle_init 3)" and new: "name_map (uboss_handle_init 3) ''launcher'' = None"
    by (simp_all add: name_room_def name_map_def hs_names_def uboss_handle_init_def MAX_SLOT_SIZE_def)
  from namehandle_then_findname [OF sample_view_room(2) room, of 5 "''launcher''"] new
  obtain r s' where r: "uboss_handle_namehandle 5 ''launcher'' (uboss_handle_init 3) = Some (r, s')"
    "r \<noteq> None" "uboss_handle_findname ''launcher'' s' = Some 5" by metis
  then have "r = Some ''launcher''"
    by (auto simp: uboss_handle_namehandle_def split: if_splits)
  with r show ?thesis by auto
qed

end
