(* ===== verification/Timer.thy ===== *)
theory Timer
  imports MsgQueue
begin

text \<open>
  Model of \<open>core/uboss_timer.c\<close>: the hierarchical timing wheel. An intrusive list of timer
  nodes is the list of its nodes in order (\<open>link\<close> appends, \<open>link_clear\<close> empties and
  returns the nodes). The clock readings of \<open>clock_gettime\<close> are arguments. Operations
  that dispatch nodes return the events in the order in which \<open>dispatch_list\<close> sends
  them; the server pushes them to the services. \<open>timer_execute\<close> repeats while nodes
  are left in the slot; the lock is only released to dispatch, and no node can be added
  to the slot of the current tick meanwhile, so one round is the whole loop.
\<close>

section \<open>The wheel\<close>

record timer_event =
  te_handle :: u32
  te_session :: i32

record timer_node =
  tn_expire :: u32
  tn_event :: timer_event

record timer =
  tm_near :: "timer_node list list"
  tm_t :: "timer_node list list list"
  tm_time :: u32
  tm_starttime :: u32
  tm_current :: u64
  tm_current_point :: u64

definition TIME_NEAR_SHIFT :: nat where "TIME_NEAR_SHIFT = 8"
definition TIME_LEVEL_SHIFT :: nat where "TIME_LEVEL_SHIFT = 6"
definition TIME_NEAR :: nat where "TIME_NEAR = 256"
definition TIME_LEVEL :: nat where "TIME_LEVEL = 64"
definition TIME_NEAR_MASK :: u32 where "TIME_NEAR_MASK = 0xff"
definition TIME_LEVEL_MASK :: u32 where "TIME_LEVEL_MASK = 0x3f"

lemmas time_consts = TIME_NEAR_SHIFT_def TIME_LEVEL_SHIFT_def TIME_NEAR_def TIME_LEVEL_def
  TIME_NEAR_MASK_def TIME_LEVEL_MASK_def

definition link_near :: "nat \<Rightarrow> timer_node \<Rightarrow> timer \<Rightarrow> timer" where
  "link_near i node T = T\<lparr>tm_near := (tm_near T)[i := tm_near T ! i @ [node]]\<rparr>"

definition link_level :: "nat \<Rightarrow> nat \<Rightarrow> timer_node \<Rightarrow> timer \<Rightarrow> timer" where
  "link_level i j node T =
     T\<lparr>tm_t := (tm_t T)[i := (tm_t T ! i)[j := tm_t T ! i ! j @ [node]]]\<rparr>"

text \<open>The loop of \<open>add_node\<close> that looks for the level; \<open>n\<close> iterations are left.\<close>

fun add_level :: "u32 \<Rightarrow> u32 \<Rightarrow> nat \<Rightarrow> u32 \<Rightarrow> nat \<Rightarrow> nat" where
  "add_level time current_time i msk 0 = i"
| "add_level time current_time i msk (Suc n) =
     (if time OR (msk - 1) = current_time OR (msk - 1) then i
      else add_level time current_time (Suc i) (push_bit TIME_LEVEL_SHIFT msk) n)"

definition add_node :: "timer_node \<Rightarrow> timer \<Rightarrow> timer" where
  "add_node node T =
     (let time = tn_expire node; current_time = tm_time T
      in if time OR TIME_NEAR_MASK = current_time OR TIME_NEAR_MASK
         then link_near (unat (time AND TIME_NEAR_MASK)) node T
         else let i = add_level time current_time 0
                        (push_bit TIME_LEVEL_SHIFT (word_of_nat TIME_NEAR)) 3
              in link_level i
                   (unat (drop_bit (TIME_NEAR_SHIFT + i * TIME_LEVEL_SHIFT) time AND TIME_LEVEL_MASK))
                   node T)"

definition timer_add :: "timer_event \<Rightarrow> i32 \<Rightarrow> timer \<Rightarrow> timer" where
  "timer_add arg time T = add_node \<lparr>tn_expire = time + tm_time T, tn_event = arg\<rparr> T"

definition move_list :: "nat \<Rightarrow> nat \<Rightarrow> timer \<Rightarrow> timer" where
  "move_list level idx T =
     fold add_node (tm_t T ! level ! idx)
       (T\<lparr>tm_t := (tm_t T)[level := (tm_t T ! level)[idx := []]]\<rparr>)"

text \<open>
  The loop of \<open>timer_shift\<close>. Its fifth round would shift the mask out of its 32 bits;
  \<open>None\<close> stands for getting that far.
\<close>

fun shift_loop :: "nat \<Rightarrow> u32 \<Rightarrow> u32 \<Rightarrow> u32 \<Rightarrow> nat \<Rightarrow> timer \<Rightarrow> timer option" where
  "shift_loop 0 ct time msk i T = None"
| "shift_loop (Suc n) ct time msk i T =
     (if ct AND (msk - 1) = 0 then
        let idx = unat (time AND TIME_LEVEL_MASK)
        in if idx \<noteq> 0 then Some (move_list i idx T)
           else shift_loop n ct (drop_bit TIME_LEVEL_SHIFT time) (push_bit TIME_LEVEL_SHIFT msk)
                  (Suc i) T
      else Some T)"

definition timer_shift :: "timer \<Rightarrow> timer option" where
  "timer_shift T =
     (let ct = tm_time T + 1; T1 = T\<lparr>tm_time := ct\<rparr>
      in if ct = 0 then Some (move_list 3 0 T1)
         else shift_loop 4 ct (drop_bit TIME_NEAR_SHIFT ct) (word_of_nat TIME_NEAR) 0 T1)"

definition timer_execute :: "timer \<Rightarrow> timer_event list \<times> timer" where
  "timer_execute T =
     (let idx = unat (tm_time T AND TIME_NEAR_MASK)
      in (map tn_event (tm_near T ! idx), T\<lparr>tm_near := (tm_near T)[idx := []]\<rparr>))"

definition timer_update :: "timer \<Rightarrow> (timer_event list \<times> timer) option" where
  "timer_update T =
     do { let (out1, T1) = timer_execute T;
          T2 \<leftarrow> timer_shift T1;
          let (out2, T3) = timer_execute T2;
          Some (out1 @ out2, T3) }"

definition timer_create_timer :: timer where
  "timer_create_timer =
     \<lparr>tm_near = replicate TIME_NEAR [], tm_t = replicate 4 (replicate TIME_LEVEL []),
      tm_time = 0, tm_starttime = 0, tm_current = 0, tm_current_point = 0\<rparr>"

text \<open>The message that \<open>dispatch_list\<close> and \<open>uboss_timeout\<close> send: an empty response.\<close>

definition PTYPE_RESPONSE :: nat where "PTYPE_RESPONSE = 1"

definition timeout_message :: "i32 \<Rightarrow> uboss_message" where
  "timeout_message session =
     \<lparr>msg_source = 0, msg_session = session, msg_data = NULL,
      msg_sz = push_bit MESSAGE_TYPE_SHIFT (word_of_nat PTYPE_RESPONSE)\<rparr>"

definition dispatch_list :: "timer_event list \<Rightarrow> (u32 \<times> uboss_message) list" where
  "dispatch_list = map (\<lambda>ev. (te_handle ev, timeout_message (te_session ev)))"

text \<open>Seconds and nanoseconds of a clock reading, in the code's units.\<close>

definition systime :: "u64 \<Rightarrow> u64 \<Rightarrow> u32 \<times> u32" where
  "systime tv_sec tv_nsec = (ucast tv_sec, ucast (tv_nsec div 10000000))"

definition gettime :: "u64 \<Rightarrow> u64 \<Rightarrow> u64" where
  "gettime tv_sec tv_nsec = tv_sec * 100 + tv_nsec div 10000000"

definition uboss_thread_time :: "u64 \<Rightarrow> u64 \<Rightarrow> u64" where
  "uboss_thread_time tv_sec tv_nsec = tv_sec * 1000000 + tv_nsec div 1000"

fun timer_ticks :: "nat \<Rightarrow> timer \<Rightarrow> (timer_event list \<times> timer) option" where
  "timer_ticks 0 T = Some ([], T)"
| "timer_ticks (Suc n) T =
     do { (out, T1) \<leftarrow> timer_update T;
          (out', T2) \<leftarrow> timer_ticks n T1;
          Some (out @ out', T2) }"

definition uboss_updatetime :: "u64 \<Rightarrow> timer \<Rightarrow> (timer_event list \<times> timer) option" where
  "uboss_updatetime cp T =
     (if cp < tm_current_point T then Some ([], T\<lparr>tm_current_point := cp\<rparr>)
      else if cp \<noteq> tm_current_point T then
        let diff = (ucast (cp - tm_current_point T) :: u32)
        in timer_ticks (unat diff)
             (T\<lparr>tm_current_point := cp, tm_current := tm_current T + ucast diff\<rparr>)
      else Some ([], T))"

definition uboss_starttime :: "timer \<Rightarrow> u32" where
  "uboss_starttime T = tm_starttime T"

definition uboss_now :: "timer \<Rightarrow> u64" where
  "uboss_now T = tm_current T"

definition uboss_timer_init :: "u64 \<Rightarrow> u64 \<Rightarrow> u64 \<Rightarrow> u64 \<Rightarrow> timer" where
  \<comment> \<open>the arguments are the real-time and the monotonic clock reading\<close>
  "uboss_timer_init rt_sec rt_nsec mono_sec mono_nsec =
     timer_create_timer\<lparr>tm_starttime := fst (systime rt_sec rt_nsec),
       tm_current := ucast (snd (systime rt_sec rt_nsec)),
       tm_current_point := gettime mono_sec mono_nsec\<rparr>"

section \<open>Where a node belongs\<close>

datatype bucket = Near nat | Level nat nat

fun bucket_list :: "timer \<Rightarrow> bucket \<Rightarrow> timer_node list" where
  "bucket_list T (Near i) = tm_near T ! i"
| "bucket_list T (Level i j) = tm_t T ! i ! j"

fun bucket_ok :: "bucket \<Rightarrow> bool" where
  "bucket_ok (Near i) = (i < 256)"
| "bucket_ok (Level i j) = (i < 4 \<and> j < 64)"

definition wheel :: "nat \<Rightarrow> nat" where
  "wheel l = 2 ^ (8 + 6 * l)"

definition upper :: "nat \<Rightarrow> nat \<Rightarrow> nat" where
  \<comment> \<open>the digits of a time above the given level\<close>
  "upper l x = x div wheel l"

text \<open>The bucket for an expiry time \<open>e\<close> seen from the time \<open>t\<close>.\<close>

definition bucket_for :: "nat \<Rightarrow> nat \<Rightarrow> bucket" where
  "bucket_for e t =
     (if upper 0 e = upper 0 t then Near (e mod 256)
      else if upper 1 e = upper 1 t then Level 0 (upper 0 e mod 64)
      else if upper 2 e = upper 2 t then Level 1 (upper 1 e mod 64)
      else if upper 3 e = upper 3 t then Level 2 (upper 2 e mod 64)
      else Level 3 (upper 3 e mod 64))"

lemma upper_unat: "unat w div 2 ^ 8 = upper 0 (unat w)" "unat w div 2 ^ 14 = upper 1 (unat w)"
  "unat w div 2 ^ 20 = upper 2 (unat w)" "unat w div 2 ^ 26 = upper 3 (unat w)"
  by (simp_all add: upper_def wheel_def)

lemma add_level_3:
  "add_level e t 0 m 3 =
    (if e OR (m - 1) = t OR (m - 1) then 0
     else if e OR (push_bit 6 m - 1) = t OR (push_bit 6 m - 1) then 1
     else if e OR (push_bit 6 (push_bit 6 m) - 1) = t OR (push_bit 6 (push_bit 6 m) - 1) then 2
     else 3)"
proof -
  have "add_level e t 0 m (Suc (Suc (Suc 0))) =
    (if e OR (m - 1) = t OR (m - 1) then 0
     else if e OR (push_bit 6 m - 1) = t OR (push_bit 6 m - 1) then Suc 0
     else if e OR (push_bit 6 (push_bit 6 m) - 1) = t OR (push_bit 6 (push_bit 6 m) - 1) then Suc (Suc 0)
     else Suc (Suc (Suc 0)))"
    by (simp only: add_level.simps TIME_LEVEL_SHIFT_def)
  then show ?thesis by (simp only: numeral_3_eq_3 numeral_2_eq_2 One_nat_def)
qed
lemma near_masks:
    "push_bit 6 (word_of_nat 256 :: u32) - 1 = mask 14"
      "push_bit 6 (push_bit 6 (word_of_nat 256 :: u32)) - 1 = mask 20"
      "push_bit 6 (push_bit 6 (push_bit 6 (word_of_nat 256 :: u32))) - 1 = mask 26"
      by (simp_all add: mask_eq_exp_minus_1)

lemma time_masks: "TIME_NEAR_MASK = mask 8" "TIME_LEVEL_MASK = mask 6"
  by (simp_all add: time_consts mask_eq_exp_minus_1)

lemma near_index: "unat (e AND TIME_NEAR_MASK) = unat e mod 256"
  by (simp only: time_masks unat_and_mask) simp

lemma level_index:
  "unat (drop_bit (TIME_NEAR_SHIFT + l * TIME_LEVEL_SHIFT) e AND TIME_LEVEL_MASK) =
     upper l (unat e) mod 64"
  by (simp only: time_masks unat_and_mask unat_drop_bit TIME_NEAR_SHIFT_def TIME_LEVEL_SHIFT_def
      upper_def wheel_def mult.commute) simp

lemma add_node_level:
  "add_level e t 0 (push_bit TIME_LEVEL_SHIFT (word_of_nat TIME_NEAR)) 3 =
    (if upper 1 (unat e) = upper 1 (unat t) then 0
     else if upper 2 (unat e) = upper 2 (unat t) then 1
     else if upper 3 (unat e) = upper 3 (unat t) then 2 else 3)"
  by (simp only: add_level_3 TIME_LEVEL_SHIFT_def TIME_NEAR_def near_masks or_mask_eq_div_iff
      upper_unat)

lemma add_node_link:
  "add_node node T =
     (case bucket_for (unat (tn_expire node)) (unat (tm_time T)) of
        Near i \<Rightarrow> link_near i node T | Level i j \<Rightarrow> link_level i j node T)"
proof -
  have near: "(e OR TIME_NEAR_MASK = t OR TIME_NEAR_MASK) = (upper 0 (unat e) = upper 0 (unat t))" for e t
    by (simp only: time_masks or_mask_eq_div_iff upper_unat)
  show ?thesis
    unfolding add_node_def Let_def near near_index level_index add_node_level bucket_for_def
    by simp
qed

text \<open>The bucket that advancing to the time \<open>t\<close> empties, if any.\<close>

definition shifted_bucket :: "nat \<Rightarrow> (nat \<times> nat) option" where
  "shifted_bucket t =
     (if t = 0 then Some (3, 0)
      else if t mod 256 \<noteq> 0 then None
      else if upper 0 t mod 64 \<noteq> 0 then Some (0, upper 0 t mod 64)
      else if upper 1 t mod 64 \<noteq> 0 then Some (1, upper 1 t mod 64)
      else if upper 2 t mod 64 \<noteq> 0 then Some (2, upper 2 t mod 64)
      else Some (3, upper 3 t mod 64))"

lemma wheel_pos [simp]: "0 < wheel l" "wheel l \<noteq> 0"
  by (simp_all add: wheel_def)

lemma wheel_Suc: "wheel (Suc l) = wheel l * 64"
  by (simp add: wheel_def power_add)

lemma div_wheel_Suc: "upper (Suc l) x = upper l x div 64"
  by (simp add: upper_def wheel_Suc div_mult2_eq)

lemma mod_wheel_Suc: "x mod wheel (Suc l) = wheel l * (upper l x mod 64) + x mod wheel l"
  by (simp add: upper_def wheel_Suc mod_mult2_eq)

lemma mod_wheel_zero: "x mod wheel (Suc l) = 0 \<longleftrightarrow> x mod wheel l = 0 \<and> upper l x mod 64 = 0"
  by (auto simp: mod_wheel_Suc)

lemma div_wheel_mono:
  "l \<le> l' \<Longrightarrow> upper l x = upper l y \<Longrightarrow> upper l' x = upper l' y"
  by (induction l' rule: dec_induct) (simp_all add: div_wheel_Suc)

lemma mod_wheel_mono: "l \<le> l' \<Longrightarrow> x mod wheel l' = 0 \<Longrightarrow> x mod wheel l = 0"
  by (induction l' rule: dec_induct) (simp_all add: mod_wheel_Suc)

lemma mod_wheel_digits: "x mod wheel l = 0 \<Longrightarrow> i < l \<Longrightarrow> upper i x mod 64 = 0"
  using mod_wheel_mono [of "Suc i" l x] wheel_pos [of i] by (simp add: mod_wheel_Suc)

lemma shifted_bucket_eq:
  assumes "l < 4" "t mod wheel l = 0" "upper l t mod 64 \<noteq> 0"
  shows "shifted_bucket t = Some (l, upper l t mod 64)"
proof -
  have "t \<noteq> 0" using assms(3) by (intro notI) (simp add: upper_def)
  moreover have "t mod 256 = 0" using assms(2) mod_wheel_mono [of 0 l t] by (simp add: wheel_def)
  moreover have "i < l \<Longrightarrow> upper i t mod 64 = 0" for i
    using assms(2) by (rule mod_wheel_digits)
  moreover have "l = 0 \<or> l = 1 \<or> l = 2 \<or> l = 3" using assms(1) by auto
  ultimately show ?thesis
    using assms(3) unfolding shifted_bucket_def by (elim disjE) (simp_all)
qed

text \<open>
  The level of an expiry time: the least level at which the two times agree in all higher
  digits, or 4.
\<close>

definition level_for :: "nat \<Rightarrow> nat \<Rightarrow> nat" where
  "level_for e t =
     (if upper 0 e = upper 0 t then 0 else if upper 1 e = upper 1 t then 1
      else if upper 2 e = upper 2 t then 2 else if upper 3 e = upper 3 t then 3
      else 4)"

lemma bucket_for_level:
  "bucket_for e t =
     (case level_for e t of 0 \<Rightarrow> Near (e mod 256) | Suc l \<Rightarrow> Level l (upper l e mod 64))"
  by (simp add: bucket_for_def level_for_def)

lemma level_for_eq:
  assumes "l \<le> 4" "l < 4 \<Longrightarrow> upper l e = upper l t"
    "0 < l \<Longrightarrow> upper (l - 1) e \<noteq> upper (l - 1) t"
  shows "level_for e t = l"
proof -
  have "upper i e \<noteq> upper i t" if "i < l" for i
    using that assms(3) div_wheel_mono [of i "l - 1" e t] by fastforce
  moreover have "l = 0 \<or> l = 1 \<or> l = 2 \<or> l = 3 \<or> l = 4" using assms(1) by auto
  ultimately show ?thesis
    using assms(2) unfolding level_for_def by (elim disjE) (simp_all)
qed

lemma level_for_cases:
  "level_for e t \<le> 4"
  "level_for e t < 4 \<Longrightarrow> upper (level_for e t) e = upper (level_for e t) t"
  "0 < level_for e t \<Longrightarrow> upper (level_for e t - 1) e \<noteq> upper (level_for e t - 1) t"
  by (auto simp: level_for_def split: if_splits)

lemma upper_Suc_step:
  "upper l (Suc t) = (if Suc t mod wheel l = 0 then Suc (upper l t) else upper l t)"
  by (auto simp: upper_def div_Suc mod_Suc)

text \<open>Two times in the same block with less than half a turn between them do not wrap.\<close>

lemma same_block_less:
  assumes "upper l e = upper l t" "l < 4" "e \<noteq> t" "(e + 2 ^ 32 - t) mod 2 ^ 32 < 2 ^ 31"
    "e < 2 ^ 32" "t < 2 ^ 32"
  shows "t < e"
proof (rule ccontr)
  assume "\<not> t < e"
  with assms(3) have "e < t" by simp
  have "t < e + wheel l"
    using assms(1) dividend_less_div_times [of "wheel l" t] div_times_less_eq_dividend [of e "wheel l"]
    by (simp add: upper_def mult.commute)
  moreover have "wheel l \<le> 2 ^ 26"
    using assms(2) unfolding wheel_def by (intro power_increasing) auto
  ultimately have "2 ^ 31 \<le> e + 2 ^ 32 - t" "e + 2 ^ 32 - t < 2 ^ 32"
    using \<open>e < t\<close> by auto
  then show False using assms(4) by simp
qed

lemma no_carry:
  assumes "upper l e = upper l t" "t < e"
  shows "Suc t mod wheel l \<noteq> 0"
proof
  assume "Suc t mod wheel l = 0"
  then have "upper l (Suc t) = Suc (upper l t)" by (simp add: upper_Suc_step)
  moreover have "upper l (Suc t) \<le> upper l e" using assms(2) by (simp add: upper_def div_le_mono)
  ultimately show False using assms(1) by simp
qed

text \<open>
  Advancing the time by one changes the bucket of a pending node only if the node is in
  the bucket that the wheel empties at that tick.
\<close>

lemma bucket_stable:
  assumes pend: "e \<noteq> t" "(e + 2 ^ 32 - t) mod 2 ^ 32 < 2 ^ 31" "e < 2 ^ 32" "t < 2 ^ 32"
  defines "t' \<equiv> Suc t mod 2 ^ 32"
  shows "bucket_for e t' = bucket_for e t \<or>
    (case shifted_bucket t' of None \<Rightarrow> False | Some (i, j) \<Rightarrow> bucket_for e t = Level i j)"
proof -
  define l where "l = level_for e t"
  note lev = level_for_cases [of e t, folded l_def]
  have nowrap: "t' = Suc t" if "l < 4"
  proof -
    have "t < e" using same_block_less [OF lev(2) [OF that] that] pend by simp
    then show ?thesis using pend by (simp add: t'_def)
  qed
  have keep: "upper l t' = upper l e" if "l < 4"
  proof -
    have "t < e" using same_block_less [OF lev(2) [OF that] that] pend by simp
    with no_carry [OF lev(2) [OF that]] have "Suc t mod wheel l \<noteq> 0" by simp
    then show ?thesis using lev(2) [OF that] nowrap [OF that] by (simp add: upper_Suc_step)
  qed
  show ?thesis
  proof (cases l)
    case 0
    then have "level_for e t' = 0" using keep by (intro level_for_eq) auto
    with 0 show ?thesis by (simp add: bucket_for_level l_def)
  next
    case (Suc k)
    have k: "k < 4" using lev(1) Suc by simp
    have b: "bucket_for e t = Level k (upper k e mod 64)"
      using Suc by (simp add: bucket_for_level l_def)
    show ?thesis
    proof (cases "upper k t' = upper k e")
      case False
      then have "level_for e t' = l" using Suc k keep lev(1) by (intro level_for_eq) auto
      with Suc show ?thesis by (simp add: bucket_for_level l_def)
    next
      case True
      have diff: "upper k e \<noteq> upper k t" using lev(3) Suc by simp
      show ?thesis
      proof (cases "Suc t < 2 ^ 32")
        case True
        with \<open>upper k t' = upper k e\<close> diff have z: "Suc t mod wheel k = 0" and "t' = Suc t"
          using upper_Suc_step [of k t] by (auto simp: t'_def split: if_splits)
        have "upper k t' mod 64 \<noteq> 0"
        proof
          assume digit: "upper k t' mod 64 = 0"
          show False
          proof (cases "l < 4")
            case True
            have "t < e" using same_block_less [OF lev(2) [OF True] True] pend by simp
            from no_carry [OF lev(2) [OF True] this] digit z \<open>t' = Suc t\<close> Suc
            show False by (simp add: mod_wheel_Suc)
          next
            case False
            with Suc k have "k = 3" using lev(1) by simp
            have "upper 3 t' < 64" using True \<open>t' = Suc t\<close> by (simp add: upper_def wheel_def div_less_iff_less_mult)
            with digit \<open>k = 3\<close> have "upper 3 t' = 0" by simp
            with z \<open>t' = Suc t\<close> \<open>k = 3\<close> show False
              by (simp add: upper_def) (metis div_mult_mod_eq mult_0 add_0 nat.distinct(1))
          qed
        qed
        then have "shifted_bucket t' = Some (k, upper k t' mod 64)"
          using z \<open>t' = Suc t\<close> k by (intro shifted_bucket_eq) auto
        with b \<open>upper k t' = upper k e\<close> show ?thesis by simp
      next
        case False
        then have "Suc t = 2 ^ 32" using pend(4) by linarith
        then have "t' = 0" by (simp add: t'_def)
        moreover have "\<not> l < 4" using nowrap calculation by auto
        ultimately show ?thesis
          using b \<open>upper k t' = upper k e\<close> Suc lev(1)
          by (auto simp: shifted_bucket_def upper_def)
      qed
    qed
  qed
qed

lemma shift_loop_step:
  "shift_loop (Suc n) ct (drop_bit (8 + 6 * i) ct) (push_bit (8 + 6 * i) 1) i T =
     (if unat ct mod wheel i = 0 then
        if upper i (unat ct) mod 64 \<noteq> 0 then Some (move_list i (upper i (unat ct) mod 64) T)
        else shift_loop n ct (drop_bit (8 + 6 * Suc i) ct) (push_bit (8 + 6 * Suc i) 1) (Suc i) T
      else Some T)"
proof -
  have m: "push_bit (8 + 6 * i) 1 - 1 = (mask (8 + 6 * i) :: u32)"
    by (simp add: mask_eq_exp_minus_1 push_bit_eq_mult)
  have z: "(ct AND mask (8 + 6 * i) = 0) = (unat ct mod wheel i = 0)"
    unfolding wheel_def unat_and_mask [symmetric] by (simp add: unat_eq_0)
  have idx: "unat (drop_bit (8 + 6 * i) ct AND TIME_LEVEL_MASK) = upper i (unat ct) mod 64"
    using level_index [of i ct] by (simp add: TIME_NEAR_SHIFT_def TIME_LEVEL_SHIFT_def mult.commute)
  have d: "drop_bit TIME_LEVEL_SHIFT (drop_bit (8 + 6 * i) ct) = drop_bit (8 + 6 * Suc i) ct"
    by (simp only: TIME_LEVEL_SHIFT_def drop_bit_drop_bit) (simp add: algebra_simps)
  have p: "push_bit TIME_LEVEL_SHIFT (push_bit (8 + 6 * i) 1) = (push_bit (8 + 6 * Suc i) 1 :: u32)"
    by (simp only: TIME_LEVEL_SHIFT_def push_bit_push_bit) (simp add: algebra_simps)
  show ?thesis by (simp only: shift_loop.simps m z idx d p Let_def)
qed

lemma timer_shift_eq:
  "timer_shift T =
     (let T1 = T\<lparr>tm_time := tm_time T + 1\<rparr>
      in Some (case shifted_bucket (unat (tm_time T + 1)) of
           None \<Rightarrow> T1 | Some (i, j) \<Rightarrow> move_list i j T1))"
proof (cases "tm_time T + 1 = 0")
  case True
  then show ?thesis by (simp add: timer_shift_def shifted_bucket_def)
next
  case False
  define ct where "ct = tm_time T + 1"
  define T1 where "T1 = T\<lparr>tm_time := ct\<rparr>"
  define t where "t = unat ct"
  have t0: "t \<noteq> 0" using False by (simp add: t_def ct_def unat_eq_0)
  have m0: "t mod wheel 0 = t mod 256" by (simp add: wheel_def)
  have m: "t mod wheel 1 = 0 \<longleftrightarrow> t mod 256 = 0 \<and> upper 0 t mod 64 = 0"
    "t mod wheel 2 = 0 \<longleftrightarrow> t mod wheel 1 = 0 \<and> upper 1 t mod 64 = 0"
    "t mod wheel 3 = 0 \<longleftrightarrow> t mod wheel 2 = 0 \<and> upper 2 t mod 64 = 0"
    using mod_wheel_zero [of t 0] mod_wheel_zero [of t 1] mod_wheel_zero [of t 2]
    by (simp_all only: m0 One_nat_def numeral_2_eq_2 numeral_3_eq_3)
  have top: "upper 3 t mod 64 \<noteq> 0" if "t mod wheel 3 = 0"
  proof
    assume digit: "upper 3 t mod 64 = 0"
    have "t < 2 ^ 32" using unat_less_u32 [of ct] by (simp add: t_def)
    then have "upper 3 t < 64" by (simp add: upper_def wheel_def div_less_iff_less_mult)
    with digit have "t div wheel 3 = 0" by (simp add: upper_def)
    with that t0 show False by (metis add_0 div_mult_mod_eq mult_0)
  qed
  have "shift_loop 4 ct (drop_bit TIME_NEAR_SHIFT ct) (word_of_nat TIME_NEAR) 0 T1 =
      shift_loop (Suc (Suc (Suc (Suc 0)))) ct (drop_bit (8 + 6 * 0) ct) (push_bit (8 + 6 * 0) 1) 0 T1"
    by (simp add: time_consts eval_nat_numeral)
  also have "\<dots> = Some (case shifted_bucket t of None \<Rightarrow> T1 | Some (i, j) \<Rightarrow> move_list i j T1)"
    unfolding shift_loop_step t_def [symmetric] shifted_bucket_def
    using t0 m m0 top by (auto simp: numeral_2_eq_2 numeral_3_eq_3)
  finally show ?thesis
    using False unfolding timer_shift_def Let_def ct_def t_def T1_def by simp
qed

section \<open>The wheel holds every pending node in its bucket\<close>

definition timer_shape :: "timer \<Rightarrow> bool" where
  "timer_shape T \<longleftrightarrow> length (tm_near T) = 256 \<and> length (tm_t T) = 4 \<and>
     (\<forall>i < 4. length (tm_t T ! i) = 64)"

definition pending :: "timer \<Rightarrow> timer_node multiset" where
  "pending T = mset (concat (tm_near T)) + mset (concat (concat (tm_t T)))"

text \<open>Ticks until a node expires.\<close>

definition remaining :: "u32 \<Rightarrow> timer_node \<Rightarrow> nat" where
  "remaining t n = unat (tn_expire n - t)"

definition timer_inv :: "timer \<Rightarrow> bool" where
  "timer_inv T \<longleftrightarrow> timer_shape T \<and>
     (\<forall>b. bucket_ok b \<longrightarrow> (\<forall>n \<in> set (bucket_list T b).
        b = bucket_for (unat (tn_expire n)) (unat (tm_time T)) \<and> remaining (tm_time T) n < 2 ^ 31))"

definition timer_wf :: "timer \<Rightarrow> bool" where
  "timer_wf T \<longleftrightarrow> timer_inv T \<and> (\<forall>n \<in># pending T. tn_expire n \<noteq> tm_time T)"

lemma bucket_for_ok [simp]: "bucket_ok (bucket_for e t)"
  by (simp add: bucket_for_def)

lemma mset_concat_update:
  "i < length xs \<Longrightarrow> mset (concat (xs[i := y])) + mset (xs ! i) = mset (concat xs) + mset y"
  by (induction xs arbitrary: i) (auto split: nat.splits simp: ac_simps)

lemma pending_near:
  assumes "timer_shape T" "i < 256"
  shows "pending (T\<lparr>tm_near := (tm_near T)[i := xs]\<rparr>) + mset (tm_near T ! i) = pending T + mset xs"
  using assms mset_concat_update [of i "tm_near T" xs]
  by (simp add: pending_def timer_shape_def ac_simps)


lemma mset_concat_concat_update:
  "i < length xs \<Longrightarrow> mset (concat (concat (xs[i := y]))) + mset (concat (xs ! i)) =
     mset (concat (concat xs)) + mset (concat y)"
  by (induction xs arbitrary: i) (auto split: nat.splits simp: ac_simps)

lemma cancel_swap:
  fixes a b c :: "'a multiset"
  assumes "a + c = b + r" "r + d = c + x"
  shows "a + d = b + x"
proof -
  have "(a + d) + c = (a + c) + d" by (simp add: ac_simps)
  also have "\<dots> = b + (r + d)" by (simp only: assms(1) add.assoc)
  also have "\<dots> = (b + x) + c" by (simp only: assms(2)) (simp add: ac_simps)
  finally show ?thesis by (rule add_right_imp_eq)
qed

lemma pending_level:
  assumes "timer_shape T" "i < 4" "j < 64"
  shows "pending (T\<lparr>tm_t := (tm_t T)[i := (tm_t T ! i)[j := xs]]\<rparr>) + mset (tm_t T ! i ! j) =
    pending T + mset xs"
proof -
  let ?row = "(tm_t T ! i)[j := xs]"
  have "mset (concat (concat ((tm_t T)[i := ?row]))) + mset (concat (tm_t T ! i)) =
      mset (concat (concat (tm_t T))) + mset (concat ?row)"
    using assms by (intro mset_concat_concat_update) (simp add: timer_shape_def)
  moreover have "mset (concat ?row) + mset (tm_t T ! i ! j) = mset (concat (tm_t T ! i)) + mset xs"
    using assms by (intro mset_concat_update) (simp add: timer_shape_def)
  ultimately have "mset (concat (concat ((tm_t T)[i := ?row]))) + mset (tm_t T ! i ! j) =
      mset (concat (concat (tm_t T))) + mset xs"
    by (rule cancel_swap)
  then show ?thesis by (simp add: pending_def add.assoc)
qed

lemma add_node_bucket:
  assumes "timer_shape T" "bucket_ok b"
  shows "bucket_list (add_node n T) b =
    (if b = bucket_for (unat (tn_expire n)) (unat (tm_time T))
     then bucket_list T b @ [n] else bucket_list T b)"
proof -
  let ?b = "bucket_for (unat (tn_expire n)) (unat (tm_time T))"
  have "bucket_ok ?b" by simp
  with assms show ?thesis
    by (cases ?b; cases b)
       (auto simp: add_node_link link_near_def link_level_def timer_shape_def nth_list_update
        simp del: bucket_for_ok)
qed

lemma add_node_frame [simp]:
  "tm_time (add_node n T) = tm_time T"
  "timer_shape (add_node n T) = timer_shape T"
  by (auto simp: add_node_link link_near_def link_level_def timer_shape_def nth_list_update
      split: bucket.split)

lemma add_node_clock [simp]:
  "tm_current (add_node n T) = tm_current T" "tm_starttime (add_node n T) = tm_starttime T"
  "tm_current_point (add_node n T) = tm_current_point T"
  by (auto simp: add_node_link link_near_def link_level_def split: bucket.split)

lemma pending_add_node:
  assumes "timer_shape T"
  shows "pending (add_node n T) = add_mset n (pending T)"
proof (cases "bucket_for (unat (tn_expire n)) (unat (tm_time T))")
  case (Near i)
  then have "i < 256" using bucket_for_ok by (metis bucket_ok.simps(1))
  with pending_near [OF assms this, of "tm_near T ! i @ [n]"] Near show ?thesis
    by (simp add: add_node_link link_near_def)
next
  case (Level i j)
  then have "i < 4" "j < 64" using bucket_for_ok by (metis bucket_ok.simps(2))+
  with pending_level [OF assms this, of "tm_t T ! i ! j @ [n]"] Level show ?thesis
    by (simp add: add_node_link link_level_def)
qed

lemma timer_inv_add_node:
  assumes "timer_inv T" "remaining (tm_time T) n < 2 ^ 31"
  shows "timer_inv (add_node n T)"
  unfolding timer_inv_def
proof (intro conjI allI impI ballI)
  show "timer_shape (add_node n T)" using assms(1) by (simp add: timer_inv_def)
next
  fix b m
  assume b: "bucket_ok b" "m \<in> set (bucket_list (add_node n T) b)"
  then have "m \<in> set (bucket_list T b) \<or>
      (m = n \<and> b = bucket_for (unat (tn_expire n)) (unat (tm_time T)))"
    using assms(1) by (auto simp: add_node_bucket timer_inv_def split: if_splits)
  with b(1) assms
  show "b = bucket_for (unat (tn_expire m)) (unat (tm_time (add_node n T)))"
    "remaining (tm_time (add_node n T)) m < 2 ^ 31"
    unfolding timer_inv_def add_node_frame by blast+
qed

lemma fold_add_node:
  assumes "timer_inv T" "\<forall>n \<in> set ns. remaining (tm_time T) n < 2 ^ 31"
  shows "timer_inv (fold add_node ns T)" "tm_time (fold add_node ns T) = tm_time T"
    "pending (fold add_node ns T) = pending T + mset ns"
    "tm_current (fold add_node ns T) = tm_current T"
proof -
  have "timer_inv (fold add_node ns T) \<and> tm_time (fold add_node ns T) = tm_time T \<and>
      pending (fold add_node ns T) = pending T + mset ns \<and>
      tm_current (fold add_node ns T) = tm_current T"
    using assms
  proof (induction ns arbitrary: T)
    case Nil
    then show ?case by simp
  next
    case (Cons n ns)
    then have "timer_inv (add_node n T)" using timer_inv_add_node by simp
    moreover have "pending (add_node n T) = add_mset n (pending T)"
      using Cons.prems(1) pending_add_node by (simp add: timer_inv_def)
    ultimately show ?case using Cons.IH [of "add_node n T"] Cons.prems(2) by simp
  qed
  then show "timer_inv (fold add_node ns T)" "tm_time (fold add_node ns T) = tm_time T"
    "pending (fold add_node ns T) = pending T + mset ns"
    "tm_current (fold add_node ns T) = tm_current T" by blast+
qed

lemma remaining_nat:
  "remaining t n = (unat (tn_expire n) + 2 ^ 32 - unat t) mod 2 ^ 32"
proof -
  have "unat t \<le> 2 ^ 32" using unat_less_u32 [of t] by simp
  then show ?thesis
    unfolding remaining_def unat_sub_if'
    using unat_less_u32 [of "tn_expire n"] unat_less_u32 [of t] by (auto simp: not_le mod_if)
qed

lemma unat_Suc_mod: "unat (t + 1) = Suc (unat t) mod 2 ^ 32" for t :: u32
  by (simp add: unat_word_ariths)

lemma remaining_step:
  assumes "tn_expire n \<noteq> t"
  shows "remaining t n = Suc (remaining (t + 1) n)"
proof -
  have "tn_expire n - t = (tn_expire n - (t + 1)) + 1" by simp
  moreover have "tn_expire n - t \<noteq> 0" using assms by simp
  ultimately show ?thesis
    unfolding remaining_def by (metis unatSuc add.commute)
qed

lemma bucket_mem_pending:
  assumes "timer_shape T" "bucket_ok b" "n \<in> set (bucket_list T b)"
  shows "n \<in># pending T"
proof (cases b)
  case (Near i)
  then have "tm_near T ! i \<in> set (tm_near T)" using assms by (simp add: timer_shape_def)
  with Near assms(3) show ?thesis by (auto simp: pending_def)
next
  case (Level i j)
  then have "tm_t T ! i \<in> set (tm_t T)" "tm_t T ! i ! j \<in> set (tm_t T ! i)"
    using assms by (simp_all add: timer_shape_def)
  with Level assms(3) show ?thesis by (auto simp: pending_def)
qed

lemma pending_mem_bucket:
  assumes "timer_shape T" "n \<in># pending T"
  shows "\<exists>b. bucket_ok b \<and> n \<in> set (bucket_list T b)"
proof -
  from assms(2) consider xs where "xs \<in> set (tm_near T)" "n \<in> set xs"
    | r xs where "r \<in> set (tm_t T)" "xs \<in> set r" "n \<in> set xs"
    by (auto simp: pending_def)
  then show ?thesis
  proof cases
    case (1 xs)
    then obtain i where "i < 256" "tm_near T ! i = xs" using assms(1)
      by (auto simp: timer_shape_def in_set_conv_nth)
    with 1 show ?thesis by (intro exI [of _ "Near i"]) simp
  next
    case (2 r xs)
    then obtain i where i: "i < 4" "tm_t T ! i = r" using assms(1)
      by (auto simp: timer_shape_def in_set_conv_nth)
    with 2 obtain j where "j < 64" "r ! j = xs" using assms(1)
      by (auto simp: timer_shape_def in_set_conv_nth)
    with 2 i show ?thesis by (intro exI [of _ "Level i j"]) simp
  qed
qed

lemma bucket_step:
  assumes wf: "timer_wf T" and b: "bucket_ok b" and n: "n \<in> set (bucket_list T b)"
    and keep: "\<And>i j. shifted_bucket (unat (tm_time T + 1)) = Some (i, j) \<Longrightarrow> b \<noteq> Level i j"
  shows "b = bucket_for (unat (tn_expire n)) (unat (tm_time T + 1))"
proof -
  let ?e = "unat (tn_expire n)" and ?t = "unat (tm_time T)"
  from wf b n have bf: "b = bucket_for ?e ?t" and rem: "remaining (tm_time T) n < 2 ^ 31"
    and ne: "tn_expire n \<noteq> tm_time T"
    using bucket_mem_pending [of T b n] by (auto simp: timer_wf_def timer_inv_def)
  have "bucket_for ?e (Suc ?t mod 2 ^ 32) = bucket_for ?e ?t \<or>
    (case shifted_bucket (Suc ?t mod 2 ^ 32) of None \<Rightarrow> False | Some (i, j) \<Rightarrow> bucket_for ?e ?t = Level i j)"
    using ne rem unat_less_u32 [of "tn_expire n"] unat_less_u32 [of "tm_time T"]
    by (intro bucket_stable) (simp_all add: remaining_nat word_unat_eq_iff)
  then show ?thesis
    using keep bf unfolding unat_Suc_mod by (auto split: option.splits)
qed

lemma timer_shift_ok:
  assumes wf: "timer_wf T"
  shows "\<exists>T'. timer_shift T = Some T' \<and> timer_inv T' \<and> tm_time T' = tm_time T + 1 \<and>
    pending T' = pending T \<and> tm_current T' = tm_current T"
proof -
  let ?T1 = "T\<lparr>tm_time := tm_time T + 1\<rparr>"
  have shape: "timer_shape T" using wf by (simp add: timer_wf_def timer_inv_def)
  have shape1: "timer_shape ?T1" using shape by (simp add: timer_shape_def)
  have bl: "bucket_list ?T1 b = bucket_list T b" for b by (cases b) simp_all
  have pend1: "pending ?T1 = pending T" by (simp add: pending_def)
  have rem: "remaining (tm_time T + 1) n < 2 ^ 31" if "bucket_ok b" "n \<in> set (bucket_list T b)" for b n
    using that wf remaining_step [of n "tm_time T"] bucket_mem_pending [OF shape that]
    by (fastforce simp: timer_wf_def timer_inv_def)
  show ?thesis
  proof (cases "shifted_bucket (unat (tm_time T + 1))")
    case None
    have "timer_inv ?T1"
      using bucket_step [OF wf] rem None shape1 by (auto simp: timer_inv_def bl)
    with None pend1 show ?thesis by (simp add: timer_shift_eq)
  next
    case (Some ij)
    obtain i j where ij: "ij = (i, j)" by (cases ij)
    have "bucket_ok (Level i j)"
      using Some ij by (auto simp: shifted_bucket_def split: if_splits)
    then have ok: "i < 4" "j < 64" by simp_all
    let ?T2 = "?T1\<lparr>tm_t := (tm_t ?T1)[i := (tm_t ?T1 ! i)[j := []]]\<rparr>"
    let ?ns = "tm_t T ! i ! j"
    have bl2: "bucket_list ?T2 b = (if b = Level i j then [] else bucket_list T b)" if "bucket_ok b" for b
      using that ok shape by (cases b) (auto simp: nth_list_update timer_shape_def)
    have "timer_inv ?T2"
      unfolding timer_inv_def
    proof (intro conjI allI impI ballI)
      show "timer_shape ?T2" using shape by (auto simp: timer_shape_def nth_list_update)
    next
      fix b n
      assume b: "bucket_ok b" "n \<in> set (bucket_list ?T2 b)"
      then have "b \<noteq> Level i j" "n \<in> set (bucket_list T b)" using bl2 by (auto split: if_splits)
      with b bucket_step [OF wf, of b n] rem [of b n] Some ij
      show "b = bucket_for (unat (tn_expire n)) (unat (tm_time ?T2))"
        "remaining (tm_time ?T2) n < 2 ^ 31" by auto
    qed
    moreover have "\<forall>n \<in> set ?ns. remaining (tm_time ?T2) n < 2 ^ 31"
      using rem [of "Level i j"] ok by simp
    moreover have "pending ?T2 + mset ?ns = pending T"
      using pending_level [OF shape1 ok, of "[]"] pend1 by simp
    ultimately have "timer_inv (move_list i j ?T1)" "tm_time (move_list i j ?T1) = tm_time T + 1"
      "pending (move_list i j ?T1) = pending T" "tm_current (move_list i j ?T1) = tm_current T"
      using fold_add_node [of ?T2 ?ns] by (simp_all add: move_list_def)
    then show ?thesis using Some ij by (simp add: timer_shift_eq)
  qed
qed

lemma near_bucket_time:
  "bucket_for e t = Near (t mod 256) \<longleftrightarrow> e = t"
proof
  assume "bucket_for e t = Near (t mod 256)"
  then have "upper 0 e = upper 0 t" "e mod 256 = t mod 256"
    by (auto simp: bucket_for_def split: if_splits)
  then show "e = t" by (simp add: upper_def wheel_def) (metis div_mult_mod_eq)
qed (simp add: bucket_for_def)

lemma due_nodes:
  assumes inv: "timer_inv T"
  shows "mset (tm_near T ! unat (tm_time T AND TIME_NEAR_MASK)) =
      filter_mset (\<lambda>n. tn_expire n = tm_time T) (pending T)"
proof -
  let ?i = "unat (tm_time T) mod 256" and ?t = "tm_time T"
  let ?T = "T\<lparr>tm_near := (tm_near T)[?i := []]\<rparr>"
  have shape: "timer_shape T" using inv by (simp add: timer_inv_def)
  have split: "pending T = pending ?T + mset (tm_near T ! ?i)"
    using pending_near [OF shape, of ?i "[]"] by simp
  have due: "tn_expire n = ?t" if "n \<in> set (tm_near T ! ?i)" for n
  proof -
    have "Near ?i = bucket_for (unat (tn_expire n)) (unat ?t)"
      using inv that unfolding timer_inv_def by (metis bucket_list.simps(1) bucket_ok.simps(1)
          mod_less_divisor zero_less_numeral)
    then show ?thesis using near_bucket_time word_unat_eq_iff by metis
  qed
  have rest: "tn_expire n \<noteq> ?t" if mem: "n \<in># pending ?T" for n
  proof
    assume e: "tn_expire n = ?t"
    have "timer_shape ?T" using shape by (simp add: timer_shape_def)
    then obtain b where b: "bucket_ok b" "n \<in> set (bucket_list ?T b)"
      using pending_mem_bucket mem by blast
    have "bucket_list ?T b = (if b = Near ?i then [] else bucket_list T b)"
      using shape by (cases b) (auto simp: timer_shape_def nth_list_update)
    with b have "b \<noteq> Near ?i" "n \<in> set (bucket_list T b)" by (auto split: if_splits)
    moreover have "b = bucket_for (unat ?t) (unat ?t)" using inv b calculation(2) e
      by (metis timer_inv_def)
    ultimately show False using near_bucket_time [of "unat ?t" "unat ?t"] by simp
  qed
  have "filter (\<lambda>n. tn_expire n = ?t) (tm_near T ! ?i) = tm_near T ! ?i"
    using due by (simp add: filter_id_conv)
  then have "filter_mset (\<lambda>n. tn_expire n = ?t) (mset (tm_near T ! ?i)) = mset (tm_near T ! ?i)"
    by (metis mset_filter)
  moreover have "filter_mset (\<lambda>n. tn_expire n = ?t) (pending ?T) = {#}"
    using rest by simp
  ultimately have "filter_mset (\<lambda>n. tn_expire n = ?t) (pending T) = mset (tm_near T ! ?i)"
    unfolding split by (simp add: filter_union_mset)
  then show ?thesis by (simp add: near_index)
qed

text \<open>
  The abstract timer is the current time and the multiset of pending nodes: executing
  removes exactly the nodes due now.
\<close>

lemma timer_execute_ok:
  assumes inv: "timer_inv T" and ex: "timer_execute T = (out, T')"
  shows "timer_wf T'" "tm_time T' = tm_time T"
    "mset out = image_mset tn_event {#n \<in># pending T. tn_expire n = tm_time T#}"
    "pending T' = {#n \<in># pending T. tn_expire n \<noteq> tm_time T#}"
    "tm_current T' = tm_current T"
proof -
  let ?i = "unat (tm_time T AND TIME_NEAR_MASK)"
  have shape: "timer_shape T" using inv by (simp add: timer_inv_def)
  have i: "?i < 256" by (simp add: near_index)
  from ex have out: "out = map tn_event (tm_near T ! ?i)"
    and T': "T' = T\<lparr>tm_near := (tm_near T)[?i := []]\<rparr>"
    by (auto simp: timer_execute_def Let_def)
  show time: "tm_time T' = tm_time T" and "tm_current T' = tm_current T" by (simp_all add: T')
  show "mset out = image_mset tn_event {#n \<in># pending T. tn_expire n = tm_time T#}"
    using due_nodes [OF inv] by (simp add: out)
  have "pending T' + mset (tm_near T ! ?i) = pending T"
    using pending_near [OF shape i, of "[]"] by (simp add: T')
  then show pend: "pending T' = {#n \<in># pending T. tn_expire n \<noteq> tm_time T#}"
    using due_nodes [OF inv] multiset_partition [of "pending T" "\<lambda>n. tn_expire n = tm_time T"]
    by (metis add.commute add_right_imp_eq)
  have "bucket_list T' b = (if b = Near ?i then [] else bucket_list T b)" for b
    using shape i by (cases b) (auto simp: T' timer_shape_def nth_list_update)
  moreover have "timer_shape T'" using shape by (simp add: T' timer_shape_def)
  ultimately have "timer_inv T'" using inv by (auto simp: timer_inv_def time)
  then show "timer_wf T'" using pend time by (auto simp: timer_wf_def)
qed

lemma timer_update_ok:
  assumes wf: "timer_wf T"
  shows "\<exists>out T'. timer_update T = Some (out, T') \<and> timer_wf T' \<and> tm_time T' = tm_time T + 1 \<and>
    mset out = image_mset tn_event {#n \<in># pending T. tn_expire n = tm_time T + 1#} \<and>
    pending T' = {#n \<in># pending T. tn_expire n \<noteq> tm_time T + 1#} \<and> tm_current T' = tm_current T"
proof -
  obtain out1 T1 where e1: "timer_execute T = (out1, T1)" by (cases "timer_execute T")
  have inv: "timer_inv T" and none: "{#n \<in># pending T. tn_expire n = tm_time T#} = {#}"
    and all: "{#n \<in># pending T. tn_expire n \<noteq> tm_time T#} = pending T"
    using wf by (auto simp: timer_wf_def intro!: filter_mset_eq_conv [THEN iffD2])
  note x1 = timer_execute_ok [OF inv e1]
  obtain T2 where e2: "timer_shift T1 = Some T2" "timer_inv T2" "tm_time T2 = tm_time T1 + 1"
    "pending T2 = pending T1" "tm_current T2 = tm_current T1"
    using timer_shift_ok [OF x1(1)] by blast
  obtain out2 T3 where e3: "timer_execute T2 = (out2, T3)" by (cases "timer_execute T2")
  note x3 = timer_execute_ok [OF e2(2) e3]
  have "timer_update T = Some (out1 @ out2, T3)"
    by (simp add: timer_update_def e1 e2 e3)
  moreover have "out1 = []" using x1(3) none by simp
  moreover have "pending T1 = pending T" using x1(4) all by simp
  ultimately show ?thesis using x1 x3 e2 by simp
qed

lemma timer_add_ok:
  assumes wf: "timer_wf T" and d: "0 < unat d" "unat d < 2 ^ 31"
  shows "timer_wf (timer_add ev d T)" "tm_time (timer_add ev d T) = tm_time T"
    "pending (timer_add ev d T) = add_mset \<lparr>tn_expire = d + tm_time T, tn_event = ev\<rparr> (pending T)"
proof -
  let ?n = "\<lparr>tn_expire = d + tm_time T, tn_event = ev\<rparr>"
  have rem: "remaining (tm_time T) ?n < 2 ^ 31" using d(2) by (simp add: remaining_def)
  have inv: "timer_inv T" using wf by (simp add: timer_wf_def)
  show time: "tm_time (timer_add ev d T) = tm_time T" by (simp add: timer_add_def)
  show pend: "pending (timer_add ev d T) = add_mset ?n (pending T)"
    using inv by (simp add: timer_add_def pending_add_node timer_inv_def)
  have "d \<noteq> 0" using d(1) by auto
  then show "timer_wf (timer_add ev d T)"
    using timer_inv_add_node [OF inv rem] wf pend time
    by (auto simp: timer_wf_def timer_add_def)
qed

lemma timer_create_wf [simp]: "timer_wf timer_create_timer" "pending timer_create_timer = {#}"
proof -
  show p: "pending timer_create_timer = {#}"
    by (simp add: pending_def timer_create_timer_def time_consts)
  have "timer_shape timer_create_timer"
    by (simp add: timer_shape_def timer_create_timer_def time_consts)
  moreover have "bucket_ok b \<Longrightarrow> bucket_list timer_create_timer b = []" for b
    by (cases b) (simp_all add: timer_create_timer_def time_consts)
  ultimately show "timer_wf timer_create_timer" using p by (simp add: timer_wf_def timer_inv_def)
qed

text \<open>Over any number of ticks below half a turn, exactly the due nodes fire.\<close>

lemma timer_ticks_ok:
  assumes "timer_wf T" "k < 2 ^ 31"
  shows "\<exists>out T'. timer_ticks k T = Some (out, T') \<and> timer_wf T' \<and>
    tm_time T' = tm_time T + word_of_nat k \<and>
    mset out = image_mset tn_event {#n \<in># pending T. remaining (tm_time T) n \<le> k#} \<and>
    pending T' = {#n \<in># pending T. k < remaining (tm_time T) n#}"
  using assms
proof (induction k arbitrary: T)
  case 0
  have "remaining (tm_time T) n \<noteq> 0" if "n \<in># pending T" for n
    using 0 that by (auto simp: timer_wf_def remaining_def unat_eq_0)
  then have "{#n \<in># pending T. remaining (tm_time T) n \<le> 0#} = {#}"
    "{#n \<in># pending T. 0 < remaining (tm_time T) n#} = pending T"
    by (auto intro!: filter_mset_eq_conv [THEN iffD2])
  with 0 show ?case by simp
next
  case (Suc k)
  obtain out1 T1 where u: "timer_update T = Some (out1, T1)" "timer_wf T1" "tm_time T1 = tm_time T + 1"
    "mset out1 = image_mset tn_event {#n \<in># pending T. tn_expire n = tm_time T + 1#}"
    "pending T1 = {#n \<in># pending T. tn_expire n \<noteq> tm_time T + 1#}"
    using timer_update_ok [OF Suc.prems(1)] by blast
  obtain out2 T2 where t: "timer_ticks k T1 = Some (out2, T2)" "timer_wf T2"
    "tm_time T2 = tm_time T1 + word_of_nat k"
    "mset out2 = image_mset tn_event {#n \<in># pending T1. remaining (tm_time T1) n \<le> k#}"
    "pending T2 = {#n \<in># pending T1. k < remaining (tm_time T1) n#}"
    using Suc.IH [OF u(2)] Suc.prems(2) by auto
  have step: "remaining (tm_time T) n = Suc (remaining (tm_time T1) n)" if "n \<in># pending T" for n
    using that Suc.prems(1) u(3) remaining_step by (auto simp: timer_wf_def)
  have zero: "remaining (tm_time T1) n = 0 \<longleftrightarrow> tn_expire n = tm_time T + 1" for n
    using u(3) by (simp add: remaining_def unat_eq_0)
  have "{#n \<in># pending T. remaining (tm_time T) n \<le> Suc k#} =
      {#n \<in># pending T. tn_expire n = tm_time T + 1#} + {#n \<in># pending T1. remaining (tm_time T1) n \<le> k#}"
  proof -
    have "{#n \<in># pending T. remaining (tm_time T) n \<le> Suc k#} =
        {#n \<in># pending T. remaining (tm_time T1) n \<le> k#}"
      using step by (intro filter_mset_cong) auto
    also have "\<dots> = {#n \<in># {#n \<in># pending T. remaining (tm_time T1) n \<le> k#}. tn_expire n = tm_time T + 1#} +
        {#n \<in># {#n \<in># pending T. remaining (tm_time T1) n \<le> k#}. tn_expire n \<noteq> tm_time T + 1#}"
      by (rule multiset_partition)
    also have "{#n \<in># {#n \<in># pending T. remaining (tm_time T1) n \<le> k#}. tn_expire n = tm_time T + 1#} =
        {#n \<in># pending T. tn_expire n = tm_time T + 1#}"
      using zero by (auto simp: filter_filter_mset intro!: filter_mset_cong) (metis le0)
    also have "{#n \<in># {#n \<in># pending T. remaining (tm_time T1) n \<le> k#}. tn_expire n \<noteq> tm_time T + 1#} =
        {#n \<in># pending T1. remaining (tm_time T1) n \<le> k#}"
      by (auto simp: u(5) filter_filter_mset intro!: filter_mset_cong)
    finally show ?thesis .
  qed
  then have "mset (out1 @ out2) = image_mset tn_event {#n \<in># pending T. remaining (tm_time T) n \<le> Suc k#}"
    using u(4) t(4) by simp
  moreover have "pending T2 = {#n \<in># pending T. Suc k < remaining (tm_time T) n#}"
    unfolding t(5) u(5) filter_filter_mset
  proof (rule filter_mset_cong [OF refl])
    fix n
    assume "n \<in># pending T"
    then show "(tn_expire n \<noteq> tm_time T + 1 \<and> k < remaining (tm_time T1) n) =
        (Suc k < remaining (tm_time T) n)"
      using step zero [of n] by auto
  qed
  moreover have "timer_ticks (Suc k) T = Some (out1 @ out2, T2)" using u(1) t(1) by simp
  ultimately show ?case using t(2,3) u(3) by simp
qed

section \<open>Properties\<close>

lemma uboss_timer_init_wf [simp]:
  "timer_wf (uboss_timer_init rs rn ms mn)" "pending (uboss_timer_init rs rn ms mn) = {#}"
  "tm_time (uboss_timer_init rs rn ms mn) = 0"
  "tm_current_point (uboss_timer_init rs rn ms mn) = gettime ms mn"
proof -
  have "bucket_list (uboss_timer_init rs rn ms mn) b = bucket_list timer_create_timer b" for b
    by (cases b) (simp_all add: uboss_timer_init_def)
  moreover show p: "pending (uboss_timer_init rs rn ms mn) = {#}"
    using timer_create_wf(2) by (simp add: uboss_timer_init_def pending_def)
  ultimately show "timer_wf (uboss_timer_init rs rn ms mn)"
    using timer_create_wf(1)
    by (simp add: timer_wf_def timer_inv_def timer_shape_def) (simp add: uboss_timer_init_def)
qed (simp_all add: uboss_timer_init_def timer_create_timer_def)

lemma timer_clock_irrelevant [simp]:
  "timer_wf (T\<lparr>tm_current_point := a, tm_current := b\<rparr>) = timer_wf T"
  "timer_wf (T\<lparr>tm_current_point := a\<rparr>) = timer_wf T"
  "pending (T\<lparr>tm_current_point := a, tm_current := b\<rparr>) = pending T"
  "pending (T\<lparr>tm_current_point := a\<rparr>) = pending T"
proof -
  have "bucket_list (T\<lparr>tm_current_point := a, tm_current := b\<rparr>) c = bucket_list T c"
    "bucket_list (T\<lparr>tm_current_point := a\<rparr>) c = bucket_list T c" for c
    by (cases c; simp)+
  then show "timer_wf (T\<lparr>tm_current_point := a, tm_current := b\<rparr>) = timer_wf T"
    "timer_wf (T\<lparr>tm_current_point := a\<rparr>) = timer_wf T"
    "pending (T\<lparr>tm_current_point := a, tm_current := b\<rparr>) = pending T"
    "pending (T\<lparr>tm_current_point := a\<rparr>) = pending T"
    by (simp_all add: timer_wf_def timer_inv_def timer_shape_def pending_def)
qed

text \<open>C7. A clock update by any amount below half a turn of the 32-bit tick counter fires
  exactly the timeouts that became due, each once, and keeps all others: the cascade of the
  five wheels loses, duplicates and delays nothing, also across the wrap of the counter.\<close>

theorem updatetime_fires_exactly_due:
  assumes "timer_wf T" and "tm_current_point T \<le> cp" and "unat (cp - tm_current_point T) < 2 ^ 31"
  defines "k \<equiv> unat (cp - tm_current_point T)"
  shows "\<exists>out T'. uboss_updatetime cp T = Some (out, T') \<and> timer_wf T' \<and>
    tm_time T' = tm_time T + word_of_nat k \<and>
    mset out = image_mset tn_event {#n \<in># pending T. remaining (tm_time T) n \<le> k#} \<and>
    pending T' = {#n \<in># pending T. k < remaining (tm_time T) n#}"
proof (cases "cp = tm_current_point T")
  case True
  then have "uboss_updatetime cp T = timer_ticks k T" by (simp add: uboss_updatetime_def k_def)
  with timer_ticks_ok [OF assms(1,3)] k_def show ?thesis by simp
next
  case False
  let ?d = "ucast (cp - tm_current_point T) :: u32"
  let ?T = "T\<lparr>tm_current_point := cp, tm_current := tm_current T + ucast ?d\<rparr>"
  have "k < 2 ^ 32" using assms(3) by (simp add: k_def)
  then have "unat ?d = k" by (simp add: k_def unsigned_ucast_eq take_bit_nat_eq_self)
  then have "uboss_updatetime cp T = timer_ticks k ?T"
    using False assms(2) by (simp add: uboss_updatetime_def Let_def not_less [symmetric])
  with timer_ticks_ok [of ?T k] assms(1,3) k_def show ?thesis by simp
qed

theorem updatetime_fires_exactly_due_witness:
  "\<exists>out T'. uboss_updatetime 107 (uboss_timer_init 0 0 1 0) = Some (out, T') \<and>
    tm_time T' = 7 \<and> out = []"
  using updatetime_fires_exactly_due [of "uboss_timer_init 0 0 1 0" 107]
  by (auto simp: gettime_def)

text \<open>C23. A timeout of \<open>d\<close> ticks fires after exactly \<open>d\<close> ticks: it is not among the events
  of fewer ticks, it is among those of \<open>d\<close> or more, and the other timeouts are not affected.\<close>

theorem timer_add_fires_on_time:
  assumes "timer_wf T" and "0 < unat d" and "unat d < 2 ^ 31" and "k < 2 ^ 31"
  shows "\<exists>out out0 T' T0. timer_ticks k (timer_add ev d T) = Some (out, T') \<and>
    timer_ticks k T = Some (out0, T0) \<and>
    mset out = (if unat d \<le> k then add_mset ev (mset out0) else mset out0)"
proof -
  note add = timer_add_ok [OF assms(1-3), of ev]
  from timer_ticks_ok [OF add(1) assms(4)] timer_ticks_ok [OF assms(1,4)] show ?thesis
    by (auto simp: add(2,3) remaining_def)
qed

theorem timer_add_fires_on_time_witness:
  "\<exists>out T'. timer_ticks 300 (timer_add \<lparr>te_handle = 1, te_session = 2\<rparr> 300 timer_create_timer) =
      Some (out, T') \<and> mset out = {#\<lparr>te_handle = 1, te_session = 2\<rparr>#}"
proof -
  have "\<exists>T0. timer_ticks 300 timer_create_timer = Some ([], T0)"
    using timer_ticks_ok [of timer_create_timer 300] by auto
  with timer_add_fires_on_time [of timer_create_timer 300 300 "\<lparr>te_handle = 1, te_session = 2\<rparr>"]
  show ?thesis by auto
qed

end
