(* ===== verification/Locks.thy ===== *)
theory Locks
  imports Prelude
begin

text \<open>
  Model of \<open>core/uboss_lock.h\<close> (the variant without \<open>USE_PTHREAD_LOCK\<close>): the spin lock and
  the read-write lock as they interleave between threads. Every access of the code to a
  shared word is one atomic step, as its \<open>__sync\<close> builtins with their full barriers make it;
  a thread's position inside the lock functions is its program counter. Threads are the
  numbers below \<open>n\<close>.
\<close>

section \<open>Spin lock\<close>

datatype spin_pc = SpinIdle | SpinTry | SpinHeld

record spinlock =
  sl_lock :: i32
  sl_pc :: "nat \<Rightarrow> spin_pc"

definition spinlock_init :: spinlock where
  "spinlock_init = \<lparr>sl_lock = 0, sl_pc = (\<lambda>_. SpinIdle)\<rparr>"

definition spin_goto :: "nat \<Rightarrow> spin_pc \<Rightarrow> spinlock \<Rightarrow> spinlock" where
  "spin_goto t pc s = s\<lparr>sl_pc := (sl_pc s)(t := pc)\<rparr>"

text \<open>The builtin \<open>__sync_lock_test_and_set(&lock, 1)\<close>: the old value and the new state.\<close>

definition test_and_set :: "spinlock \<Rightarrow> i32 \<times> spinlock" where
  "test_and_set s = (sl_lock s, s\<lparr>sl_lock := 1\<rparr>)"

definition spinlock_trylock :: "nat \<Rightarrow> spinlock \<Rightarrow> bool \<times> spinlock" where
  "spinlock_trylock t s =
     (let (old, s1) = test_and_set s
      in if old = 0 then (True, spin_goto t SpinHeld s1) else (False, s1))"

definition spinlock_lock :: "nat \<Rightarrow> spinlock \<Rightarrow> spinlock" where
  \<comment> \<open>one round of the waiting loop\<close>
  "spinlock_lock t s =
     (let (old, s1) = test_and_set s
      in if old = 0 then spin_goto t SpinHeld s1 else spin_goto t SpinTry s1)"

definition spinlock_unlock :: "nat \<Rightarrow> spinlock \<Rightarrow> spinlock" where
  "spinlock_unlock t s = spin_goto t SpinIdle (s\<lparr>sl_lock := 0\<rparr>)"

inductive spin_step :: "nat \<Rightarrow> spinlock \<Rightarrow> spinlock \<Rightarrow> bool" for n :: nat where
  spin_call: "t < n \<Longrightarrow> sl_pc s t = SpinIdle \<Longrightarrow> spin_step n s (spin_goto t SpinTry s)"
| spin_try: "t < n \<Longrightarrow> sl_pc s t = SpinTry \<Longrightarrow> spin_step n s (spinlock_lock t s)"
| spin_trylock: "t < n \<Longrightarrow> sl_pc s t = SpinIdle \<Longrightarrow> spin_step n s (snd (spinlock_trylock t s))"
| spin_unlock: "t < n \<Longrightarrow> sl_pc s t = SpinHeld \<Longrightarrow> spin_step n s (spinlock_unlock t s)"

inductive_cases spin_stepE [elim!]: "spin_step n s s'"

definition spin_inv :: "spinlock \<Rightarrow> bool" where
  "spin_inv s \<longleftrightarrow> (\<forall>t u. sl_pc s t = SpinHeld \<longrightarrow> sl_pc s u = SpinHeld \<longrightarrow> t = u) \<and>
     ((\<exists>t. sl_pc s t = SpinHeld) \<longleftrightarrow> sl_lock s \<noteq> 0)"

lemmas spin_defs = spin_goto_def test_and_set_def spinlock_trylock_def spinlock_lock_def
  spinlock_unlock_def

interpretation spin: safe_system "\<lambda>s. s = spinlock_init" "spin_step n" spin_inv for n
proof unfold_locales
  fix s
  assume "s = spinlock_init"
  then show "spin_inv s" by (simp add: spin_inv_def spinlock_init_def)
next
  fix s s'
  assume "spin_inv s" "spin_step n s s'"
  then show "spin_inv s'"
    by (cases "sl_lock s = 0")
       (auto simp: spin_inv_def spin_defs Let_def split: if_splits; metis spin_pc.distinct)+
qed

section \<open>Read-write lock\<close>

datatype rw_pc = RwIdle | ReadSpin | ReadInc | ReadCheck | ReadUndo | Reading
  | WriteTry | WriteWait | Writing

record rwlock =
  rw_write :: i32
  rw_read :: i32
  rw_pc_of :: "nat \<Rightarrow> rw_pc"

definition rwlock_init :: rwlock where
  "rwlock_init = \<lparr>rw_write = 0, rw_read = 0, rw_pc_of = (\<lambda>_. RwIdle)\<rparr>"

definition rw_goto :: "nat \<Rightarrow> rw_pc \<Rightarrow> rwlock \<Rightarrow> rwlock" where
  "rw_goto t pc s = s\<lparr>rw_pc_of := (rw_pc_of s)(t := pc)\<rparr>"

text \<open>The next atomic step of a thread inside \<open>rwlock_rlock\<close>, and inside \<open>rwlock_wlock\<close>.\<close>

definition rwlock_rlock :: "nat \<Rightarrow> rwlock \<Rightarrow> rwlock" where
  "rwlock_rlock t s =
     (case rw_pc_of s t of
        ReadSpin \<Rightarrow> if rw_write s \<noteq> 0 then s else rw_goto t ReadInc s
      | ReadInc \<Rightarrow> rw_goto t ReadCheck (s\<lparr>rw_read := rw_read s + 1\<rparr>)
      | ReadCheck \<Rightarrow> if rw_write s \<noteq> 0 then rw_goto t ReadUndo s else rw_goto t Reading s
      | ReadUndo \<Rightarrow> rw_goto t ReadSpin (s\<lparr>rw_read := rw_read s - 1\<rparr>)
      | _ \<Rightarrow> s)"

definition rwlock_wlock :: "nat \<Rightarrow> rwlock \<Rightarrow> rwlock" where
  "rwlock_wlock t s =
     (case rw_pc_of s t of
        WriteTry \<Rightarrow> (let s1 = s\<lparr>rw_write := 1\<rparr>
                     in if rw_write s \<noteq> 0 then s1 else rw_goto t WriteWait s1)
      | WriteWait \<Rightarrow> if rw_read s \<noteq> 0 then s else rw_goto t Writing s
      | _ \<Rightarrow> s)"

definition rwlock_wunlock :: "nat \<Rightarrow> rwlock \<Rightarrow> rwlock" where
  "rwlock_wunlock t s = rw_goto t RwIdle (s\<lparr>rw_write := 0\<rparr>)"

definition rwlock_runlock :: "nat \<Rightarrow> rwlock \<Rightarrow> rwlock" where
  "rwlock_runlock t s = rw_goto t RwIdle (s\<lparr>rw_read := rw_read s - 1\<rparr>)"

inductive rw_step :: "nat \<Rightarrow> rwlock \<Rightarrow> rwlock \<Rightarrow> bool" for n :: nat where
  rw_call_read: "t < n \<Longrightarrow> rw_pc_of s t = RwIdle \<Longrightarrow> rw_step n s (rw_goto t ReadSpin s)"
| rw_call_write: "t < n \<Longrightarrow> rw_pc_of s t = RwIdle \<Longrightarrow> rw_step n s (rw_goto t WriteTry s)"
| rw_rlock: "t < n \<Longrightarrow> rw_pc_of s t \<in> {ReadSpin, ReadInc, ReadCheck, ReadUndo} \<Longrightarrow>
    rw_step n s (rwlock_rlock t s)"
| rw_wlock: "t < n \<Longrightarrow> rw_pc_of s t \<in> {WriteTry, WriteWait} \<Longrightarrow> rw_step n s (rwlock_wlock t s)"
| rw_runlock: "t < n \<Longrightarrow> rw_pc_of s t = Reading \<Longrightarrow> rw_step n s (rwlock_runlock t s)"
| rw_wunlock: "t < n \<Longrightarrow> rw_pc_of s t = Writing \<Longrightarrow> rw_step n s (rwlock_wunlock t s)"

text \<open>The threads that \<open>read\<close> counts, and those that own the write flag.\<close>

fun rw_reader :: "rw_pc \<Rightarrow> bool" where
  "rw_reader ReadCheck = True"
| "rw_reader ReadUndo = True"
| "rw_reader Reading = True"
| "rw_reader _ = False"

fun rw_owner :: "rw_pc \<Rightarrow> bool" where
  "rw_owner WriteWait = True"
| "rw_owner Writing = True"
| "rw_owner _ = False"

definition rw_counted :: "nat \<Rightarrow> rwlock \<Rightarrow> nat set" where
  "rw_counted n s = {t. t < n \<and> rw_reader (rw_pc_of s t)}"

definition rw_inv :: "nat \<Rightarrow> rwlock \<Rightarrow> bool" where
  "rw_inv n s \<longleftrightarrow> (\<forall>t. n \<le> t \<longrightarrow> rw_pc_of s t = RwIdle) \<and>
     rw_read s = word_of_nat (card (rw_counted n s)) \<and>
     (rw_write s \<noteq> 0 \<longleftrightarrow> (\<exists>t. rw_owner (rw_pc_of s t))) \<and>
     (\<forall>t u. rw_owner (rw_pc_of s t) \<longrightarrow> rw_owner (rw_pc_of s u) \<longrightarrow> t = u) \<and>
     (\<forall>t u. rw_pc_of s t = Writing \<longrightarrow> rw_pc_of s u \<noteq> Reading)"

lemma rw_goto_simps [simp]:
  "rw_pc_of (rw_goto t pc s) = (rw_pc_of s)(t := pc)"
  "rw_read (rw_goto t pc s) = rw_read s" "rw_write (rw_goto t pc s) = rw_write s"
  by (simp_all add: rw_goto_def)

lemma rw_counted_finite [simp]: "finite (rw_counted n s)"
  by (simp add: rw_counted_def)

lemma rw_counted_words [simp]:
  "rw_counted n (s\<lparr>rw_read := r, rw_write := w\<rparr>) = rw_counted n s"
  "rw_counted n (s\<lparr>rw_write := w\<rparr>) = rw_counted n s"
  "rw_counted n (s\<lparr>rw_read := r\<rparr>) = rw_counted n s"
  by (simp_all add: rw_counted_def)

lemma rw_counted_goto:
  assumes "t < n"
  shows "rw_counted n (rw_goto t pc s) =
    (if rw_reader pc then insert t (rw_counted n s)
     else rw_counted n s - {t})"
  using assms by (auto simp: rw_counted_def split: if_splits)

lemma rw_counted_iff:
  "t < n \<Longrightarrow> t \<in> rw_counted n s \<longleftrightarrow> rw_reader (rw_pc_of s t)"
  by (simp add: rw_counted_def)

lemma rw_counted_less: "n < 2 ^ 32 \<Longrightarrow> card (rw_counted n s) < 2 ^ 32"
proof -
  assume n: "n < 2 ^ 32"
  have "rw_counted n s \<subseteq> {..<n}" by (auto simp: rw_counted_def)
  then have "card (rw_counted n s) \<le> card {..<n}" by (intro card_mono) auto
  with n show ?thesis by simp
qed

lemma rw_read_zero:
  assumes "n < 2 ^ 32" "rw_inv n s" "rw_read s = 0"
  shows "rw_counted n s = {}"
proof -
  have "unat (word_of_nat (card (rw_counted n s)) :: u32) = card (rw_counted n s)"
    using rw_counted_less [OF assms(1), of s] by (simp add: unat_of_nat)
  then have "card (rw_counted n s) = 0" using assms(2,3) by (simp add: rw_inv_def)
  then show ?thesis by simp
qed

lemma rw_invD:
  assumes "rw_inv n s"
  shows "n \<le> t \<Longrightarrow> rw_pc_of s t = RwIdle" "rw_read s = word_of_nat (card (rw_counted n s))"
    "rw_write s \<noteq> 0 \<longleftrightarrow> (\<exists>t. rw_owner (rw_pc_of s t))"
    "rw_owner (rw_pc_of s t) \<Longrightarrow> rw_owner (rw_pc_of s u) \<Longrightarrow> t = u"
    "rw_pc_of s t = Writing \<Longrightarrow> rw_pc_of s u \<noteq> Reading"
  using assms unfolding rw_inv_def by blast+

text \<open>Moving one thread to a new position, with the matching change of the two words.\<close>

lemma rw_inv_goto:
  assumes inv: "rw_inv n s" and t: "t < n"
    and rd: "r = word_of_nat (card (if rw_reader pc
        then insert t (rw_counted n s) else rw_counted n s - {t}))"
    and wr: "w \<noteq> 0 \<longleftrightarrow> rw_owner pc \<or> (\<exists>u. u \<noteq> t \<and> rw_owner (rw_pc_of s u))"
    and own: "\<And>u. rw_owner pc \<Longrightarrow> u \<noteq> t \<Longrightarrow> \<not> rw_owner (rw_pc_of s u)"
    and excl: "\<And>u. pc = Writing \<Longrightarrow> rw_pc_of s u \<noteq> Reading"
      "\<And>u. pc = Reading \<Longrightarrow> rw_pc_of s u \<noteq> Writing"
  shows "rw_inv n (rw_goto t pc (s\<lparr>rw_read := r, rw_write := w\<rparr>))"
proof -
  let ?s = "rw_goto t pc (s\<lparr>rw_read := r, rw_write := w\<rparr>)"
  have "rw_read ?s = word_of_nat (card (rw_counted n ?s))"
    by (simp only: rw_counted_goto [OF t] rw_counted_words rd rw_goto_simps) simp
  moreover have "\<forall>u v. rw_owner (rw_pc_of ?s u) \<longrightarrow> rw_owner (rw_pc_of ?s v) \<longrightarrow> u = v"
    using rw_invD(4) [OF inv] own by auto
  moreover have "\<forall>u v. rw_pc_of ?s u = Writing \<longrightarrow> rw_pc_of ?s v \<noteq> Reading"
    using rw_invD(5) [OF inv] excl by auto
  moreover have "rw_write ?s \<noteq> 0 \<longleftrightarrow> (\<exists>u. rw_owner (rw_pc_of ?s u))"
    using wr by auto
  moreover have "\<forall>u. n \<le> u \<longrightarrow> rw_pc_of ?s u = RwIdle" using rw_invD(1) [OF inv] t by auto
  ultimately show ?thesis unfolding rw_inv_def by blast
qed


lemma rw_words_id: "s\<lparr>rw_read := rw_read s, rw_write := rw_write s\<rparr> = s"
  by simp

lemma rw_write_others:
  "rw_inv n s \<Longrightarrow> \<not> rw_owner (rw_pc_of s t) \<Longrightarrow>
    rw_write s \<noteq> 0 \<longleftrightarrow> (\<exists>u. u \<noteq> t \<and> rw_owner (rw_pc_of s u))"
  using rw_invD(3) by metis

lemma rw_owner_alone:
  "rw_inv n s \<Longrightarrow> rw_owner (rw_pc_of s t) \<Longrightarrow> u \<noteq> t \<Longrightarrow> \<not> rw_owner (rw_pc_of s u)"
  using rw_invD(4) by blast

lemma rw_read_same:
  assumes "rw_inv n s" "t < n" "rw_reader (rw_pc_of s t) = rw_reader pc"
  shows "rw_read s = word_of_nat (card (if rw_reader pc
    then insert t (rw_counted n s) else rw_counted n s - {t}))"
proof -
  have "(if rw_reader pc then insert t (rw_counted n s) else rw_counted n s - {t}) = rw_counted n s"
    using assms(3) rw_counted_iff [OF assms(2), of s] by auto
  then show ?thesis using rw_invD(2) [OF assms(1)] by simp
qed

lemma rw_inv_goto_same:
  assumes "rw_inv n s" "t < n" "\<not> rw_owner (rw_pc_of s t)" "\<not> rw_owner pc" "pc \<noteq> Reading"
    "rw_reader (rw_pc_of s t) = rw_reader pc"
  shows "rw_inv n (rw_goto t pc s)"
  using rw_write_others [OF assms(1,3)] assms(4,5)
  by (intro rw_inv_goto [OF assms(1,2) rw_read_same [OF assms(1,2,6)], of "rw_write s", unfolded rw_words_id])
     auto

lemma rw_card_enter:
  assumes "rw_inv n s" "t < n" "\<not> rw_reader (rw_pc_of s t)"
  shows "rw_read s + 1 = word_of_nat (card (insert t (rw_counted n s)))"
  using assms rw_counted_iff [of t n s] by (simp add: rw_invD(2) add.commute)

lemma rw_card_leave:
  assumes "rw_inv n s" "t < n" "rw_reader (rw_pc_of s t)"
  shows "rw_read s - 1 = word_of_nat (card (rw_counted n s - {t}))"
proof -
  have "t \<in> rw_counted n s" using assms(2,3) rw_counted_iff by blast
  then have "card (rw_counted n s) = Suc (card (rw_counted n s - {t}))"
    by (metis card.remove rw_counted_finite)
  then show ?thesis using assms(1) by (simp add: rw_invD(2))
qed

lemma rw_inv_leave:
  assumes "rw_inv n s" "t < n" "rw_reader (rw_pc_of s t)" "pc = RwIdle \<or> pc = ReadSpin"
  shows "rw_inv n (rw_goto t pc (s\<lparr>rw_read := rw_read s - 1\<rparr>))"
proof -
  have pc: "\<not> rw_reader pc" "\<not> rw_owner pc" "pc \<noteq> Reading" "pc \<noteq> Writing" using assms(4) by auto
  have own: "\<not> rw_owner (rw_pc_of s t)" using assms(3) by (cases "rw_pc_of s t") auto
  have "rw_inv n (rw_goto t pc (s\<lparr>rw_read := rw_read s - 1, rw_write := rw_write s\<rparr>))"
    using rw_write_others [OF assms(1) own] rw_card_leave [OF assms(1-3)] pc
    by (intro rw_inv_goto [OF assms(1,2)]) simp_all
  then show ?thesis by simp
qed

lemma rw_inv_rlock:
  assumes inv: "rw_inv n s" and t: "t < n" and pc: "rw_pc_of s t \<in> {ReadSpin, ReadInc, ReadCheck, ReadUndo}"
  shows "rw_inv n (rwlock_rlock t s)"
proof -
  have own: "\<not> rw_owner (rw_pc_of s t)" using pc by auto
  note others = rw_write_others [OF inv own]
  consider "rw_pc_of s t = ReadSpin" | "rw_pc_of s t = ReadInc" | "rw_pc_of s t = ReadCheck"
    | "rw_pc_of s t = ReadUndo" using pc by blast
  then show ?thesis
  proof cases
    case 1
    then have "rw_inv n (rw_goto t ReadInc s)" using inv t by (intro rw_inv_goto_same) simp_all
    with 1 inv show ?thesis by (simp add: rwlock_rlock_def)
  next
    case 2
    have "rw_inv n (rw_goto t ReadCheck (s\<lparr>rw_read := rw_read s + 1, rw_write := rw_write s\<rparr>))"
      using 2 rw_card_enter [OF inv t] others by (intro rw_inv_goto [OF inv t]) simp_all
    with 2 show ?thesis by (simp add: rwlock_rlock_def)
  next
    case 3
    have "rw_inv n (rw_goto t Reading s)" if zero: "rw_write s = 0"
    proof (rule rw_inv_goto [OF inv t, where r = "rw_read s" and w = "rw_write s", unfolded rw_words_id])
      show "rw_read s = word_of_nat (card (if rw_reader Reading
          then insert t (rw_counted n s) else rw_counted n s - {t}))"
        using 3 by (intro rw_read_same [OF inv t]) simp
      show "rw_pc_of s u \<noteq> Writing" for u
        using zero rw_invD(3) [OF inv] rw_owner.simps(2) by metis
    qed (use others in simp_all)
    moreover have "rw_inv n (rw_goto t ReadUndo s)"
      using inv t 3 by (intro rw_inv_goto_same) simp_all
    ultimately show ?thesis using 3 by (simp add: rwlock_rlock_def)
  next
    case 4
    with inv t show ?thesis by (simp add: rwlock_rlock_def rw_inv_leave)
  qed
qed

lemma rw_inv_wlock:
  assumes n: "n < 2 ^ 32" and inv: "rw_inv n s" and t: "t < n" and pc: "rw_pc_of s t \<in> {WriteTry, WriteWait}"
  shows "rw_inv n (rwlock_wlock t s)"
proof -
  consider "rw_pc_of s t = WriteTry" | "rw_pc_of s t = WriteWait" using pc by blast
  then show ?thesis
  proof cases
    case 1
    have "rw_inv n (s\<lparr>rw_write := 1\<rparr>)" if "rw_write s \<noteq> 0"
      using inv that unfolding rw_inv_def by simp
    moreover have "rw_inv n (rw_goto t WriteWait (s\<lparr>rw_read := rw_read s, rw_write := 1\<rparr>))"
      if zero: "rw_write s = 0"
    proof (rule rw_inv_goto [OF inv t])
      show "rw_read s = word_of_nat (card (if rw_reader WriteWait
          then insert t (rw_counted n s) else rw_counted n s - {t}))"
        using 1 by (intro rw_read_same [OF inv t]) simp
      show "\<not> rw_owner (rw_pc_of s u)" for u using zero rw_invD(3) [OF inv] by blast
    qed simp_all
    ultimately show ?thesis using 1 by (simp add: rwlock_wlock_def Let_def)
  next
    case 2
    have "rw_inv n (rw_goto t Writing s)" if zero: "rw_read s = 0"
    proof (rule rw_inv_goto [OF inv t, where r = "rw_read s" and w = "rw_write s", unfolded rw_words_id])
      show "rw_read s = word_of_nat (card (if rw_reader Writing
          then insert t (rw_counted n s) else rw_counted n s - {t}))"
        using 2 by (intro rw_read_same [OF inv t]) simp
      show "rw_pc_of s u \<noteq> Reading" for u
      proof (cases "u < n")
        case True
        with rw_read_zero [OF n inv zero] rw_counted_iff [OF True, of s] show ?thesis by auto
      next
        case False
        then show ?thesis using rw_invD(1) [OF inv, of u] by simp
      qed
      show "rw_write s \<noteq> 0 \<longleftrightarrow> rw_owner Writing \<or> (\<exists>u. u \<noteq> t \<and> rw_owner (rw_pc_of s u))"
        using 2 rw_invD(3) [OF inv] by (metis rw_owner.simps(1,2))
      show "u \<noteq> t \<Longrightarrow> \<not> rw_owner (rw_pc_of s u)" for u
        using 2 by (intro rw_owner_alone [OF inv]) simp_all
    qed simp
    with 2 inv show ?thesis by (simp add: rwlock_wlock_def)
  qed
qed

lemma rw_inv_wunlock:
  assumes inv: "rw_inv n s" and t: "t < n" and pc: "rw_pc_of s t = Writing"
  shows "rw_inv n (rwlock_wunlock t s)"
proof -
  have "rw_inv n (rw_goto t RwIdle (s\<lparr>rw_read := rw_read s, rw_write := 0\<rparr>))"
  proof (rule rw_inv_goto [OF inv t])
    show "rw_read s = word_of_nat (card (if rw_reader RwIdle
        then insert t (rw_counted n s) else rw_counted n s - {t}))"
      using pc by (intro rw_read_same [OF inv t]) simp
    have "\<not> rw_owner (rw_pc_of s u)" if "u \<noteq> t" for u
      using pc that by (intro rw_owner_alone [OF inv]) simp_all
    then show "(0::u32) \<noteq> 0 \<longleftrightarrow> rw_owner RwIdle \<or> (\<exists>u. u \<noteq> t \<and> rw_owner (rw_pc_of s u))" by auto
  qed simp_all
  then show ?thesis by (simp add: rwlock_wunlock_def)
qed

lemma rw_step_inv:
  assumes n: "n < 2 ^ 32" and inv: "rw_inv n s" and step: "rw_step n s s'"
  shows "rw_inv n s'"
  using step
proof (cases rule: rw_step.cases)
  case (rw_rlock t)
  then show ?thesis using inv rw_inv_rlock by blast
next
  case (rw_wlock t)
  then show ?thesis using n inv rw_inv_wlock by blast
next
  case (rw_runlock t)
  then show ?thesis using inv rw_inv_leave [of n s t RwIdle] by (simp add: rwlock_runlock_def)
next
  case (rw_wunlock t)
  then show ?thesis using inv rw_inv_wunlock by blast
qed (use inv in \<open>auto intro!: rw_inv_goto_same\<close>)

interpretation rw: safe_system "\<lambda>s. s = rwlock_init \<and> n < 2 ^ 32" "rw_step n" "\<lambda>s. n < 2 ^ 32 \<and> rw_inv n s" for n
proof unfold_locales
  fix s
  assume "s = rwlock_init \<and> n < 2 ^ 32"
  then show "n < 2 ^ 32 \<and> rw_inv n s" by (simp add: rw_inv_def rwlock_init_def rw_counted_def)
next
  fix s s'
  assume "n < 2 ^ 32 \<and> rw_inv n s" "rw_step n s s'"
  then show "n < 2 ^ 32 \<and> rw_inv n s'" using rw_step_inv by blast
qed

section \<open>Properties\<close>

text \<open>The spin lock excludes: in every interleaving of the threads' calls of
  \<open>spinlock_lock\<close>, \<open>spinlock_trylock\<close> and \<open>spinlock_unlock\<close> at most one thread holds the lock.\<close>

theorem spinlock_excludes:
  assumes "reachable (\<lambda>s. s = spinlock_init) (spin_step n) s"
    and "sl_pc s t = SpinHeld" and "sl_pc s u = SpinHeld"
  shows "t = u"
  using spin.reachable_inv [OF assms(1)] assms(2,3) by (auto simp: spin_inv_def)

lemma spin_held_reachable:
  "reachable (\<lambda>s. s = spinlock_init) (spin_step 2) (snd (spinlock_trylock 1 spinlock_init))"
  by (rule reachable_step, rule reachable_init, rule refl, rule spin_trylock)
     (simp_all add: spinlock_init_def)

theorem spinlock_excludes_witness:
  "sl_pc (snd (spinlock_trylock 1 spinlock_init)) 1 = SpinHeld \<and>
   sl_pc (snd (spinlock_trylock 1 spinlock_init)) 0 \<noteq> SpinHeld"
proof -
  have held: "sl_pc (snd (spinlock_trylock 1 spinlock_init)) 1 = SpinHeld"
    by (simp add: spin_defs spinlock_init_def)
  with spinlock_excludes [OF spin_held_reachable held, of 0] show ?thesis by auto
qed

text \<open>C24. The read-write lock excludes: in every interleaving of fewer than \<open>2 ^ 32\<close> threads,
  while one thread is between \<open>rwlock_wlock\<close> and \<open>rwlock_wunlock\<close> no other thread is there
  and no thread is between \<open>rwlock_rlock\<close> and \<open>rwlock_runlock\<close>, although a reader announces
  itself before it looks at the write flag and backs out again.\<close>

theorem rwlock_excludes:
  assumes "reachable (\<lambda>s. s = rwlock_init \<and> n < 2 ^ 32) (rw_step n) s"
    and "rw_pc_of s t = Writing"
  shows "rw_pc_of s u \<noteq> Reading \<and> (rw_pc_of s u = Writing \<longrightarrow> u = t)"
  using rw.reachable_inv [OF assms(1)] assms(2) by (auto simp: rw_inv_def)

lemma rw_writing_reachable:
  "reachable (\<lambda>s. s = rwlock_init \<and> (2::nat) < 2 ^ 32) (rw_step 2)
     (rwlock_wlock 1 (rwlock_wlock 1 (rw_goto 1 WriteTry rwlock_init)))"
proof -
  have "reachable (\<lambda>s. s = rwlock_init \<and> (2::nat) < 2 ^ 32) (rw_step 2) (rw_goto 1 WriteTry rwlock_init)"
    by (rule reachable_step, rule reachable_init, simp, rule rw_call_write)
       (simp_all add: rwlock_init_def)
  then have "reachable (\<lambda>s. s = rwlock_init \<and> (2::nat) < 2 ^ 32) (rw_step 2)
      (rwlock_wlock 1 (rw_goto 1 WriteTry rwlock_init))"
    by (rule reachable_step) (rule rw_wlock, simp_all)
  then show ?thesis
    by (rule reachable_step) (rule rw_wlock, simp_all add: rwlock_wlock_def rwlock_init_def Let_def)
qed

theorem rwlock_excludes_witness:
  "rw_pc_of (rwlock_wlock 1 (rwlock_wlock 1 (rw_goto 1 WriteTry rwlock_init))) 1 = Writing \<and>
   rw_pc_of (rwlock_wlock 1 (rwlock_wlock 1 (rw_goto 1 WriteTry rwlock_init))) 0 \<noteq> Reading"
proof -
  have "rw_pc_of (rwlock_wlock 1 (rwlock_wlock 1 (rw_goto 1 WriteTry rwlock_init))) 1 = Writing"
    by (simp add: rwlock_wlock_def rwlock_init_def Let_def)
  with rwlock_excludes [OF rw_writing_reachable this, of 0] show ?thesis by blast
qed

end
