(* ===== verification/Modules.thy ===== *)
theory Modules
  imports Prelude
begin

text \<open>
  Model of \<open>core/uboss_module.c\<close>: the table of loaded service modules, the search of a
  module file along the module path and the lookup of its entry points. The dynamic linker
  is not part of the program: \<open>dlopen\<close> and \<open>dlsym\<close> are arguments, and the address 0 is
  their NULL. Leaving the process (\<open>exit(1)\<close>) is \<open>None\<close>.
\<close>

section \<open>The table\<close>

definition MAX_MODULE_TYPE :: nat where
  "MAX_MODULE_TYPE = 32"

record uboss_module =
  um_name :: string
  um_module :: ptr
  um_create :: ptr
  um_init :: ptr
  um_release :: ptr
  um_signal :: ptr

record modules =
  ms_count :: nat
  ms_path :: string
  ms_m :: "uboss_module option list"

definition uboss_module_init :: "string \<Rightarrow> modules" where
  "uboss_module_init path =
     \<lparr>ms_count = 0, ms_path = path, ms_m = replicate MAX_MODULE_TYPE None\<rparr>"

section \<open>Searching the path\<close>

text \<open>Writing a block of characters into a buffer; outside of it is \<open>None\<close>.\<close>

definition buf_put :: "nat \<Rightarrow> 'a list \<Rightarrow> 'a list \<Rightarrow> 'a list option" where
  "buf_put i xs buf =
     do { guard (i + length xs \<le> length buf);
          Some (take i buf @ xs @ drop (i + length xs) buf) }"

text \<open>
  The file name that one round builds in \<open>tmp\<close>: the template up to \<open>?\<close>, the module name, the
  rest of the template. The string ends at the first zero of the buffer, which must exist.
\<close>

definition tmp_name :: "nat \<Rightarrow> string \<Rightarrow> string \<Rightarrow> string option" where
  "tmp_name sz name template =
     (let i = length (takeWhile (\<lambda>c. c \<noteq> CHR ''?'') template)
      in do { tmp \<leftarrow> buf_put 0 (take i template) (replicate sz NUL);
              tmp \<leftarrow> buf_put i name tmp;
              guard (i < length template);
              tmp \<leftarrow> buf_put (i + length name) (drop (Suc i) template) tmp;
              guard (NUL \<in> set tmp);
              Some (takeWhile (\<lambda>c. c \<noteq> NUL) tmp) })"

lemma dropWhile_shorter:
  assumes "dropWhile (\<lambda>c. c = a) xs \<noteq> []"
  shows "length (dropWhile (\<lambda>c. c \<noteq> a) (dropWhile (\<lambda>c. c = a) xs)) < length xs"
proof -
  let ?ys = "dropWhile (\<lambda>c. c = a) xs"
  obtain y ys where ys: "?ys = y # ys" "y \<noteq> a"
    using assms hd_dropWhile [of "\<lambda>c. c = a" xs] by (cases ?ys) auto
  then have "length (dropWhile (\<lambda>c. c \<noteq> a) ?ys) \<le> length ys"
    using length_dropWhile_le by simp
  also have "\<dots> < length ?ys" using ys by simp
  also have "\<dots> \<le> length xs" by (rule length_dropWhile_le)
  finally show ?thesis .
qed

function try_open_loop :: "(string \<Rightarrow> ptr) \<Rightarrow> string \<Rightarrow> nat \<Rightarrow> string \<Rightarrow> ptr option" where
  "try_open_loop dlopen name sz path =
     (let path1 = dropWhile (\<lambda>c. c = CHR '';'') path
      in if path1 = [] then Some NULL
         else let template = takeWhile (\<lambda>c. c \<noteq> CHR '';'') path1;
                  l = dropWhile (\<lambda>c. c \<noteq> CHR '';'') path1
              in do { file \<leftarrow> tmp_name sz name template;
                      if dlopen file = NULL then try_open_loop dlopen name sz l
                      else Some (dlopen file) })"
  by pat_completeness auto

termination
  by (relation "measure (\<lambda>(d, n, s, path). length path)") (auto simp: dropWhile_shorter)

declare try_open_loop.simps [simp del]

definition try_open :: "(string \<Rightarrow> ptr) \<Rightarrow> modules \<Rightarrow> string \<Rightarrow> ptr option" where
  "try_open dlopen m name =
     try_open_loop dlopen name (length (ms_path m) + length name) (ms_path m)"

section \<open>Loading modules\<close>

text \<open>The loop of \<open>_query\<close> from index \<open>i\<close> on, \<open>n\<close> entries left.\<close>

fun query_from :: "uboss_module option list \<Rightarrow> string \<Rightarrow> nat \<Rightarrow> nat \<Rightarrow> nat option option" where
  "query_from ms name i 0 = Some None"
| "query_from ms name i (Suc n) =
     do { guard (i < length ms);
          m \<leftarrow> ms ! i;
          if um_name m = name then Some (Some i) else query_from ms name (Suc i) n }"

definition module_query :: "string \<Rightarrow> modules \<Rightarrow> nat option option" where
  \<comment> \<open>the static function \<open>_query\<close>: the index of the module\<close>
  "module_query name M = query_from (ms_m M) name 0 (ms_count M)"

definition open_sym :: "(ptr \<Rightarrow> string \<Rightarrow> ptr) \<Rightarrow> uboss_module \<Rightarrow> bool \<times> uboss_module" where
  \<comment> \<open>the flag is the non-zero result of \<open>_open_sym\<close>, a failure\<close>
  "open_sym dlsym m =
     (let m1 = m\<lparr>um_create := dlsym (um_module m) (um_name m @ ''_create''),
                 um_init := dlsym (um_module m) (um_name m @ ''_init''),
                 um_release := dlsym (um_module m) (um_name m @ ''_release''),
                 um_signal := dlsym (um_module m) (um_name m @ ''_signal'')\<rparr>
      in (um_init m1 = NULL, m1))"

definition uboss_module_query :: "(string \<Rightarrow> ptr) \<Rightarrow> (ptr \<Rightarrow> string \<Rightarrow> ptr) \<Rightarrow> string \<Rightarrow> modules \<Rightarrow>
    (nat option \<times> modules) option" where
  "uboss_module_query dlopen dlsym name M =
     do { result \<leftarrow> module_query name M;
          if result \<noteq> None then Some (result, M)
          else if ms_count M < MAX_MODULE_TYPE then
            do { let index = ms_count M;
                 dl \<leftarrow> try_open dlopen M name;
                 if dl \<noteq> NULL then
                   do { guard (index < length (ms_m M));
                        let (failed, m) = open_sym dlsym
                          \<lparr>um_name = name, um_module = dl, um_create = 0, um_init = 0,
                           um_release = 0, um_signal = 0\<rparr>;
                        let M1 = M\<lparr>ms_m := (ms_m M)[index := Some m]\<rparr>;
                        Some (if failed then (None, M1)
                              else (Some index, M1\<lparr>ms_count := index + 1\<rparr>)) }
                 else Some (None, M) }
          else Some (None, M) }"

definition uboss_module_insert :: "uboss_module \<Rightarrow> modules \<Rightarrow> modules option" where
  "uboss_module_insert m M =
     do { found \<leftarrow> module_query (um_name m) M;
          guard (found = None \<and> ms_count M < MAX_MODULE_TYPE);
          guard (ms_count M < length (ms_m M));
          Some (M\<lparr>ms_m := (ms_m M)[ms_count M := Some m], ms_count := ms_count M + 1\<rparr>) }"

section \<open>The search tries the templates in order\<close>

text \<open>The templates of a path, and a template with the module name put in.\<close>

function templates :: "string \<Rightarrow> string list" where
  "templates path =
     (let path1 = dropWhile (\<lambda>c. c = CHR '';'') path
      in if path1 = [] then []
         else takeWhile (\<lambda>c. c \<noteq> CHR '';'') path1 # templates (dropWhile (\<lambda>c. c \<noteq> CHR '';'') path1))"
  by pat_completeness auto
termination
  by (relation "measure length") (auto simp: dropWhile_shorter)

declare templates.simps [simp del]

definition subst_name :: "string \<Rightarrow> string \<Rightarrow> string" where
  "subst_name name template =
     takeWhile (\<lambda>c. c \<noteq> CHR ''?'') template @ name @ tl (dropWhile (\<lambda>c. c \<noteq> CHR ''?'') template)"

definition cstring :: "string \<Rightarrow> bool" where
  "cstring s \<longleftrightarrow> NUL \<notin> set s"

lemma buf_put_0:
  "length xs \<le> n \<Longrightarrow> buf_put 0 xs (replicate n z) = Some (xs @ replicate (n - length xs) z)"
  by (simp add: buf_put_def)

lemma buf_put_append:
  "i = length xs \<Longrightarrow> length ys \<le> n \<Longrightarrow>
    buf_put i ys (xs @ replicate n z) = Some ((xs @ ys) @ replicate (n - length ys) z)"
  by (simp add: buf_put_def)

lemma tmp_name_ok:
  assumes q: "CHR ''?'' \<in> set template" and c: "cstring name" "cstring template"
    and sz: "length template + length name \<le> sz"
  shows "tmp_name sz name template = Some (subst_name name template)"
proof -
  define pre where "pre = takeWhile (\<lambda>c. c \<noteq> CHR ''?'') template"
  define post where "post = tl (dropWhile (\<lambda>c. c \<noteq> CHR ''?'') template)"
  let ?rest = "dropWhile (\<lambda>c. c \<noteq> CHR ''?'') template"
  have ne: "?rest \<noteq> []" using q by (simp add: dropWhile_eq_Nil_conv)
  then have "?rest = CHR ''?'' # post"
    using hd_dropWhile [OF ne] by (cases ?rest) (simp_all add: post_def)
  moreover have "template = pre @ ?rest" by (simp add: pre_def)
  ultimately have t: "template = pre @ CHR ''?'' # post" by simp
  define k where "k = sz - (length pre + length name + length post)"
  have k: "sz - length pre - length name - length post = k" "0 < k" using sz t by (auto simp: k_def)
  have "takeWhile (\<lambda>c. c \<noteq> NUL) (((pre @ name) @ post) @ replicate k NUL) = (pre @ name) @ post"
    using c t by (subst takeWhile_append2) (auto simp: cstring_def takeWhile_eq_Nil_iff)
  moreover have "take (length pre) template = pre" "drop (Suc (length pre)) template = post"
    "length pre < length template" using t by auto
  moreover have "buf_put (length pre + length name) post
      (pre @ name @ replicate (sz - (length pre + length name)) NUL) =
      Some (pre @ name @ post @ replicate k NUL)"
    using buf_put_append [of _ "pre @ name" post "sz - (length pre + length name)" NUL] sz t k
    by (simp add: diff_diff_eq)
  ultimately show ?thesis
    using sz t k unfolding tmp_name_def Let_def pre_def [symmetric] subst_name_def post_def [symmetric]
    by (simp add: buf_put_0 buf_put_append diff_diff_eq)
qed

lemma try_open_loop_ok:
  assumes "\<forall>t \<in> set (templates path). CHR ''?'' \<in> set t" "cstring name" "cstring path"
    "length path + length name \<le> sz"
  shows "try_open_loop dlopen name sz path =
    Some (case find (\<lambda>t. dlopen (subst_name name t) \<noteq> NULL) (templates path) of
            None \<Rightarrow> NULL | Some t \<Rightarrow> dlopen (subst_name name t))"
  using assms
proof (induction path rule: templates.induct)
  case (1 path)
  let ?p = "dropWhile (\<lambda>c. c = CHR '';'') path"
  let ?t = "takeWhile (\<lambda>c. c \<noteq> CHR '';'') ?p" and ?l = "dropWhile (\<lambda>c. c \<noteq> CHR '';'') ?p"
  show ?case
  proof (cases "?p = []")
    case True
    then show ?thesis
      by (subst try_open_loop.simps, subst templates.simps) (simp add: Let_def)
  next
    case False
    then have temps: "templates path = ?t # templates ?l"
      by (subst templates.simps) (simp add: Let_def)
    have sub: "set ?t \<subseteq> set path" "set ?l \<subseteq> set path" "length ?t \<le> length path" "length ?l \<le> length path"
      using length_takeWhile_le [of _ ?p] length_dropWhile_le [of _ ?p] length_dropWhile_le [of _ path]
      by (auto dest: set_takeWhileD set_dropWhileD le_trans)
    then have built: "tmp_name sz name ?t = Some (subst_name name ?t)"
      using "1.prems" temps by (intro tmp_name_ok) (auto simp: cstring_def)
    have "try_open_loop dlopen name sz ?l =
      Some (case find (\<lambda>t. dlopen (subst_name name t) \<noteq> NULL) (templates ?l) of
            None \<Rightarrow> NULL | Some t \<Rightarrow> dlopen (subst_name name t))"
      using "1.prems" temps sub False by (intro "1.IH") (auto simp: cstring_def)
    moreover have "try_open_loop dlopen name sz path =
        (if dlopen (subst_name name ?t) = NULL then try_open_loop dlopen name sz ?l
         else Some (dlopen (subst_name name ?t)))"
      using built False by (subst try_open_loop.simps) (simp only: Let_def if_False bind.bind_lunit)
    ultimately show ?thesis using temps by simp
  qed
qed

section \<open>The table keeps its modules\<close>

definition mods_names :: "modules \<Rightarrow> string list" where
  "mods_names M = map (\<lambda>i. um_name (the (ms_m M ! i))) [0..<ms_count M]"

definition mods_wf :: "modules \<Rightarrow> bool" where
  "mods_wf M \<longleftrightarrow> length (ms_m M) = MAX_MODULE_TYPE \<and> ms_count M \<le> MAX_MODULE_TYPE \<and>
     (\<forall>i < ms_count M. ms_m M ! i \<noteq> None) \<and> distinct (mods_names M)"

lemma mods_wf_init [simp]: "mods_wf (uboss_module_init path)" "mods_names (uboss_module_init path) = []"
  by (simp_all add: mods_wf_def mods_names_def uboss_module_init_def)

lemma query_from_ok:
  assumes "i + n \<le> length ms" "\<forall>j. i \<le> j \<and> j < i + n \<longrightarrow> ms ! j \<noteq> None"
  shows "query_from ms name i n = Some (find (\<lambda>j. um_name (the (ms ! j)) = name) [i..<i + n])"
  using assms
proof (induction n arbitrary: i)
  case 0
  then show ?case by simp
next
  case (Suc n)
  then obtain m where "ms ! i = Some m" by force
  with Suc.IH [of "Suc i"] Suc.prems show ?case by (simp add: upt_conv_Cons del: upt_Suc)
qed

lemma module_query_ok:
  assumes "mods_wf M"
  shows "module_query name M =
    Some (find (\<lambda>j. um_name (the (ms_m M ! j)) = name) [0..<ms_count M])"
  using assms query_from_ok [of 0 "ms_count M" "ms_m M" name]
  by (simp add: module_query_def mods_wf_def)

lemma find_append_case:
  "find P (xs @ ys) = (case find P xs of None \<Rightarrow> find P ys | Some x \<Rightarrow> Some x)"
  by (induction xs) auto

lemma find_upt_None:
  "find P [0..<n] = None \<longleftrightarrow> (\<forall>j < n. \<not> P j)"
  by (simp add: find_None_iff)

lemma module_append_wf:
  assumes wf: "mods_wf M" and room: "ms_count M < MAX_MODULE_TYPE"
    and new: "module_query (um_name m) M = Some None"
  defines "M' \<equiv> M\<lparr>ms_m := (ms_m M)[ms_count M := Some m], ms_count := ms_count M + 1\<rparr>"
  shows "mods_wf M'" "mods_names M' = mods_names M @ [um_name m]"
    "module_query (um_name m) M' = Some (Some (ms_count M))"
proof -
  have old: "\<forall>j < ms_count M. um_name (the (ms_m M ! j)) \<noteq> um_name m"
    using new module_query_ok [OF wf] by (simp add: find_upt_None)
  have len: "ms_count M < length (ms_m M)" using wf room by (simp add: mods_wf_def)
  show names: "mods_names M' = mods_names M @ [um_name m]"
    using len by (simp add: mods_names_def M'_def)
  have "um_name m \<notin> set (mods_names M)" using old by (auto simp: mods_names_def)
  then have "distinct (mods_names M')" using wf unfolding names by (simp add: mods_wf_def)
  then show wf': "mods_wf M'"
    using wf room len by (auto simp: mods_wf_def M'_def nth_list_update less_Suc_eq)
  have "find (\<lambda>j. um_name (the (ms_m M' ! j)) = um_name m) [0..<ms_count M] = None"
    using old by (simp add: find_upt_None M'_def)
  moreover have "um_name (the (ms_m M' ! ms_count M)) = um_name m" using len by (simp add: M'_def)
  ultimately have "find (\<lambda>j. um_name (the (ms_m M' ! j)) = um_name m) [0..<ms_count M'] =
      Some (ms_count M)"
    by (simp add: M'_def find_append_case)
  then show "module_query (um_name m) M' = Some (Some (ms_count M))"
    using module_query_ok [OF wf'] by simp
qed

lemma mods_wf_scratch:
  assumes "mods_wf M" "ms_count M \<le> i"
  shows "mods_wf (M\<lparr>ms_m := (ms_m M)[i := x]\<rparr>)" "mods_names (M\<lparr>ms_m := (ms_m M)[i := x]\<rparr>) = mods_names M"
proof -
  show names: "mods_names (M\<lparr>ms_m := (ms_m M)[i := x]\<rparr>) = mods_names M"
    using assms(2) by (simp add: mods_names_def)
  show "mods_wf (M\<lparr>ms_m := (ms_m M)[i := x]\<rparr>)"
    using assms unfolding mods_wf_def names by auto
qed

section \<open>Properties\<close>

text \<open>Opening a module tries the templates of the module path in order and opens the first
  that the linker accepts: the name built in the stack buffer is the template with the
  module name in the place of its first question mark, the buffer is never overrun and
  always terminated, and NULL is returned exactly if no template can be opened.\<close>

theorem try_open_first_template:
  assumes "\<forall>t \<in> set (templates (ms_path m)). CHR ''?'' \<in> set t"
    and "cstring name" and "cstring (ms_path m)"
  shows "try_open dlopen m name =
    Some (case find (\<lambda>t. dlopen (subst_name name t) \<noteq> NULL) (templates (ms_path m)) of
            None \<Rightarrow> NULL | Some t \<Rightarrow> dlopen (subst_name name t))"
  unfolding try_open_def by (rule try_open_loop_ok [OF assms]) simp

lemma sample_templates: "templates ''./?.so;m/?.so'' = [''./?.so'', ''m/?.so'']"
  by (simp add: templates.simps)

theorem try_open_first_template_witness:
  "try_open (\<lambda>f. if f = ''m/gate.so'' then 7 else 0) (uboss_module_init ''./?.so;m/?.so'') ''gate'' = Some 7"
proof -
  have path: "ms_path (uboss_module_init ''./?.so;m/?.so'') = ''./?.so;m/?.so''"
    by (simp add: uboss_module_init_def)
  have "\<forall>t \<in> set (templates (ms_path (uboss_module_init ''./?.so;m/?.so''))). CHR ''?'' \<in> set t"
    "cstring ''gate''" "cstring (ms_path (uboss_module_init ''./?.so;m/?.so''))"
    by (simp_all add: path sample_templates cstring_def)
  from try_open_first_template [OF this, of "\<lambda>f. if f = ''m/gate.so'' then 7 else 0"]
  show ?thesis by (simp add: path sample_templates subst_name_def)
qed

text \<open>Querying a module keeps the table well formed: a loaded module keeps its index and
  its entry points for ever, a name is loaded at most once and only with an init entry
  point, and a name that was found is found at the same index by every later query,
  without opening the file again.\<close>

theorem module_query_stable:
  assumes "mods_wf M" and "\<forall>t \<in> set (templates (ms_path M)). CHR ''?'' \<in> set t"
    and "cstring name" and "cstring (ms_path M)"
  shows "\<exists>r M'. uboss_module_query dlopen dlsym name M = Some (r, M') \<and> mods_wf M' \<and>
    (\<forall>i < ms_count M. ms_m M' ! i = ms_m M ! i) \<and>
    mods_names M' = mods_names M @ (if r \<noteq> None \<and> name \<notin> set (mods_names M) then [name] else []) \<and>
    (\<forall>i dlopen'. r = Some i \<longrightarrow> uboss_module_query dlopen' dlsym name M' = Some (Some i, M'))"
proof -
  obtain dl where dl: "try_open dlopen M name = Some dl"
    using try_open_loop_ok [OF assms(2-4)] by (simp add: try_open_def)
  let ?q = "find (\<lambda>j. um_name (the (ms_m M ! j)) = name) [0..<ms_count M]"
  let ?m = "snd (open_sym dlsym \<lparr>um_name = name, um_module = dl, um_create = 0, um_init = 0,
      um_release = 0, um_signal = 0\<rparr>)"
  have mname: "um_name ?m = name" by (simp add: open_sym_def Let_def)
  have q: "module_query name M = Some ?q" using module_query_ok [OF assms(1)] by simp
  have len: "ms_count M < MAX_MODULE_TYPE \<Longrightarrow> ms_count M < length (ms_m M)"
    using assms(1) by (simp add: mods_wf_def)
  consider i where "?q = Some i"
    | "?q = None" "ms_count M < MAX_MODULE_TYPE" "dl \<noteq> NULL" "um_init ?m \<noteq> NULL"
    | "?q = None" "\<not> (ms_count M < MAX_MODULE_TYPE \<and> dl \<noteq> NULL \<and> um_init ?m \<noteq> NULL)"
    by (cases ?q) auto
  then show ?thesis
  proof cases
    case 1
    then have "name \<in> set (mods_names M)"
      by (auto simp: find_Some_iff mods_names_def)
    with 1 q assms(1) show ?thesis by (auto simp: uboss_module_query_def)
  next
    case 2
    let ?M = "M\<lparr>ms_m := (ms_m M)[ms_count M := Some ?m], ms_count := ms_count M + 1\<rparr>"
    have "uboss_module_query dlopen dlsym name M = Some (Some (ms_count M), ?M)"
      using 2 q dl len by (simp add: uboss_module_query_def open_sym_def Let_def)
    moreover have ap: "mods_wf ?M" "mods_names ?M = mods_names M @ [name]"
      "module_query name ?M = Some (Some (ms_count M))"
      using module_append_wf [OF assms(1) 2(2), of ?m] q 2(1) mname by simp_all
    moreover have "name \<notin> set (mods_names M)" using ap(1,2) by (simp add: mods_wf_def)
    moreover have "uboss_module_query d dlsym name ?M = Some (Some (ms_count M), ?M)" for d
      using ap(3) by (simp add: uboss_module_query_def)
    ultimately show ?thesis by auto
  next
    case 3
    have "\<exists>x. uboss_module_query dlopen dlsym name M = Some (None, M\<lparr>ms_m := (ms_m M)[ms_count M := x]\<rparr>)"
    proof (cases "ms_count M < MAX_MODULE_TYPE \<and> dl \<noteq> NULL")
      case True
      with 3 q dl len show ?thesis
        by (intro exI [of _ "Some ?m"]) (simp add: uboss_module_query_def open_sym_def Let_def)
    next
      case False
      with 3 q dl show ?thesis
        by (intro exI [of _ "ms_m M ! ms_count M"]) (auto simp: uboss_module_query_def)
    qed
    with mods_wf_scratch [OF assms(1) le_refl] show ?thesis by fastforce
  qed
qed

theorem module_query_stable_witness:
  "\<exists>r M'. uboss_module_query (\<lambda>f. 1) (\<lambda>d s. 2) ''gate'' (uboss_module_init ''./?.so;m/?.so'') = Some (r, M') \<and>
    mods_wf M'"
proof -
  have path: "ms_path (uboss_module_init ''./?.so;m/?.so'') = ''./?.so;m/?.so''"
    by (simp add: uboss_module_init_def)
  have "\<forall>t \<in> set (templates (ms_path (uboss_module_init ''./?.so;m/?.so''))). CHR ''?'' \<in> set t"
    "cstring ''gate''" "cstring (ms_path (uboss_module_init ''./?.so;m/?.so''))"
    by (simp_all add: path sample_templates cstring_def)
  from module_query_stable [OF mods_wf_init(1) this] show ?thesis by blast
qed

end
