(* ===== verification/Monitor.thy ===== *)
theory Monitor
  imports Prelude
begin

text \<open>
  Model of \<open>core/uboss_monitor.c\<close>, the watchdog that reports a worker stuck in one message,
  and of \<open>core/uboss_env.c\<close>, the environment. The environment lives in the global table
  of a Lua state that only these two functions use: it is a map from names to strings, and
  a name without value reads as nil. What the watchdog does with a stuck worker (marking
  the service, logging) is the server's part.
\<close>

section \<open>The watchdog\<close>

record uboss_monitor =
  mo_version :: i32
  mo_check_version :: i32
  mo_source :: u32
  mo_destination :: u32

definition uboss_monitor_new :: uboss_monitor where
  "uboss_monitor_new =
     \<lparr>mo_version = 0, mo_check_version = 0, mo_source = 0, mo_destination = 0\<rparr>"

definition uboss_monitor_trigger :: "u32 \<Rightarrow> u32 \<Rightarrow> uboss_monitor \<Rightarrow> uboss_monitor" where
  "uboss_monitor_trigger source destination um =
     um\<lparr>mo_source := source, mo_destination := destination, mo_version := mo_version um + 1\<rparr>"

definition monitor_check :: "uboss_monitor \<Rightarrow> bool \<times> uboss_monitor" where
  \<comment> \<open>\<open>uboss_monitor_check\<close>: whether the service of the monitor is reported\<close>
  "monitor_check um =
     (if mo_version um = mo_check_version um then (mo_destination um \<noteq> 0, um)
      else (False, um\<lparr>mo_check_version := mo_version um\<rparr>))"

text \<open>A sequence of triggers, and whether a second check after it reports.\<close>

definition triggers :: "(u32 \<times> u32) list \<Rightarrow> uboss_monitor \<Rightarrow> uboss_monitor" where
  "triggers ts um = fold (\<lambda>(s, d). uboss_monitor_trigger s d) ts um"

lemma triggers_version:
  "mo_version (triggers ts um) = mo_version um + word_of_nat (length ts)"
  "mo_check_version (triggers ts um) = mo_check_version um"
  "mo_destination (triggers ts um) = (if ts = [] then mo_destination um else snd (last ts))"
proof (induction ts arbitrary: um)
  case (Cons t ts)
  obtain s d where t: "t = (s, d)" by (cases t)
  {
    case 1
    show ?case using Cons.IH(1) [of "uboss_monitor_trigger s d um"]
      by (simp add: triggers_def t uboss_monitor_trigger_def)
  next
    case 2
    show ?case using Cons.IH(2) [of "uboss_monitor_trigger s d um"]
      by (simp add: triggers_def t uboss_monitor_trigger_def)
  next
    case 3
    show ?case using Cons.IH(3) [of "uboss_monitor_trigger s d um"]
      by (simp add: triggers_def t uboss_monitor_trigger_def)
  }
qed (simp_all add: triggers_def)

lemma check_levels: "mo_version (snd (monitor_check um)) = mo_version um"
  "mo_check_version (snd (monitor_check um)) = mo_version um"
  "mo_destination (snd (monitor_check um)) = mo_destination um"
  by (simp_all add: monitor_check_def)

section \<open>The environment\<close>

type_synonym uboss_env = "string \<rightharpoonup> string"

definition uboss_env_init :: uboss_env where
  "uboss_env_init = Map.empty"

definition uboss_getenv :: "string \<Rightarrow> uboss_env \<Rightarrow> string option" where
  "uboss_getenv key E = E key"

definition uboss_setenv :: "string \<Rightarrow> string \<Rightarrow> uboss_env \<Rightarrow> uboss_env option" where
  "uboss_setenv key v E = do { guard (E key = None); Some (E(key \<mapsto> v)) }"

section \<open>Properties\<close>

text \<open>The watchdog reports a worker exactly if it entered a message before the last check
  and has neither finished it nor entered another one since: between two checks with fewer
  than \<open>2 ^ 32\<close> triggers, the second one reports if and only if there was no trigger and the
  worker is inside a service.\<close>

theorem monitor_reports_stuck:
  assumes "length ts < 2 ^ 32"
  shows "fst (monitor_check (triggers ts (snd (monitor_check um)))) =
    (ts = [] \<and> mo_destination um \<noteq> 0)"
  using word_of_nat_zero_iff [OF assms]
  by (auto simp: monitor_check_def triggers_version)

theorem monitor_reports_stuck_witness:
  "fst (monitor_check (triggers [] (snd (monitor_check (uboss_monitor_trigger 1 2 uboss_monitor_new)))))"
  using monitor_reports_stuck [of "[]" "uboss_monitor_trigger 1 2 uboss_monitor_new"]
  by (simp add: uboss_monitor_trigger_def)

end
