(* ===== verification/Format.thy ===== *)
theory Format
  imports Prelude
begin

text \<open>
  The text conversions of the C library that the sources use, on C strings without their
  terminating zero: \<open>printf\<close> of \<open>%d\<close>, \<open>%u\<close>, \<open>%x\<close> and \<open>%08x\<close>, \<open>strtoul\<close> in base 16, \<open>strtol\<close>,
  \<open>strsep\<close>, \<open>strchr\<close> and the two-word \<open>sscanf\<close>; and \<open>id_to_hex\<close> of \<open>core/uboss_command.c\<close>.
\<close>

section \<open>Digits\<close>

definition hex_lower :: "nat \<Rightarrow> char" where
  "hex_lower d = ''0123456789abcdef'' ! d"

definition hex_upper :: "nat \<Rightarrow> char" where
  "hex_upper d = ''0123456789ABCDEF'' ! d"

definition digit_value :: "char \<Rightarrow> nat option" where
  "digit_value c =
     (let n = of_char c :: nat
      in if 48 \<le> n \<and> n \<le> 57 then Some (n - 48)
         else if 97 \<le> n \<and> n \<le> 122 then Some (n - 87)
         else if 65 \<le> n \<and> n \<le> 90 then Some (n - 55)
         else None)"

definition isspace :: "char \<Rightarrow> bool" where
  "isspace c \<longleftrightarrow> c \<in> {CHR '' '', CHR 0x09, CHR 0x0A, CHR 0x0B, CHR 0x0C, CHR 0x0D}"

text \<open>Digits of a number in a base, most significant first, without leading zeros.\<close>

function digits_in :: "nat \<Rightarrow> nat \<Rightarrow> nat list" where
  "digits_in b n = (if n < b \<or> b < 2 then [n] else digits_in b (n div b) @ [n mod b])"
  by pat_completeness auto
termination
  by (relation "measure snd") (auto intro: div_less_dividend)

declare digits_in.simps [simp del]

definition print_u :: "nat \<Rightarrow> string" where
  "print_u n = map hex_lower (digits_in 10 n)"

definition print_d :: "int \<Rightarrow> string" where
  "print_d i = (if i < 0 then CHR ''-'' # print_u (nat (- i)) else print_u (nat i))"

definition print_x :: "nat \<Rightarrow> string" where
  "print_x n = map hex_lower (digits_in 16 n)"

definition print_08x :: "u32 \<Rightarrow> string" where
  "print_08x w = map (\<lambda>i. hex_lower (unat (drop_bit ((7 - i) * 4) w AND 0xf))) [0..<8]"

definition print_02x :: "u8 \<Rightarrow> string" where
  "print_02x w = [hex_lower (unat (drop_bit 4 w)), hex_lower (unat (w AND 0xf))]"

definition id_to_hex :: "u32 \<Rightarrow> string" where
  "id_to_hex w = CHR '':'' # map (\<lambda>i. hex_upper (unat (drop_bit ((7 - i) * 4) w AND 0xf))) [0..<8]"

section \<open>Reading numbers\<close>

text \<open>The digits at the front of a string, read in a base; the rest is returned.\<close>

fun read_digits :: "nat \<Rightarrow> nat \<Rightarrow> string \<Rightarrow> nat \<times> string" where
  "read_digits b acc [] = (acc, [])"
| "read_digits b acc (c # cs) =
     (case digit_value c of
        None \<Rightarrow> (acc, c # cs)
      | Some d \<Rightarrow> if d < b then read_digits b (acc * b + d) cs else (acc, c # cs))"

definition strip_sign :: "string \<Rightarrow> bool \<times> string" where
  "strip_sign s =
     (case dropWhile isspace s of
        [] \<Rightarrow> (False, [])
      | c # cs \<Rightarrow> if c = CHR ''-'' then (True, cs) else if c = CHR ''+'' then (False, cs)
                  else (False, c # cs))"

definition hexdigit :: "char \<Rightarrow> bool" where
  "hexdigit c \<longleftrightarrow> (case digit_value c of None \<Rightarrow> False | Some d \<Rightarrow> d < 16)"

definition strip_0x :: "string \<Rightarrow> string" where
  \<comment> \<open>the prefix is only a prefix if a hexadecimal digit follows\<close>
  "strip_0x s =
     (case s of
        a # b # c # cs \<Rightarrow>
          if a = CHR ''0'' \<and> (b = CHR ''x'' \<or> b = CHR ''X'') \<and> hexdigit c then c # cs else s
      | _ \<Rightarrow> s)"

text \<open>\<open>strtoul(s, NULL, 16)\<close> with a 64-bit \<open>unsigned long\<close>, saturating at its maximum.\<close>

definition strtoul16 :: "string \<Rightarrow> u64" where
  "strtoul16 s =
     (let (neg, t) = strip_sign s;
          n = fst (read_digits 16 0 (strip_0x t))
      in if n \<ge> 2 ^ 64 then - 1
         else if neg then - word_of_nat n else word_of_nat n)"

text \<open>\<open>strtol(s, NULL, 10)\<close> and \<open>strtol(s, NULL, 0)\<close>, saturating at the 64-bit range.\<close>

definition clip_long :: "bool \<Rightarrow> nat \<Rightarrow> int" where
  "clip_long neg n =
     (if neg then (if n > 2 ^ 63 then - (2 ^ 63) else - int n)
      else if n \<ge> 2 ^ 63 then 2 ^ 63 - 1 else int n)"

definition strtol10 :: "string \<Rightarrow> int" where
  "strtol10 s = (let (neg, t) = strip_sign s in clip_long neg (fst (read_digits 10 0 t)))"

definition strtol0 :: "string \<Rightarrow> int" where
  "strtol0 s =
     (let (neg, t) = strip_sign s
      in clip_long neg
           (if strip_0x t \<noteq> t then fst (read_digits 16 0 (strip_0x t))
            else if t \<noteq> [] \<and> hd t = CHR ''0'' then fst (read_digits 8 0 t)
            else fst (read_digits 10 0 t)))"

section \<open>Splitting strings\<close>

text \<open>\<open>strsep\<close>: the token up to the first delimiter, and what follows it (NULL if none).\<close>

definition strsep :: "string \<Rightarrow> string option \<Rightarrow> string option \<times> string option" where
  "strsep delim s =
     (case s of
        None \<Rightarrow> (None, None)
      | Some t \<Rightarrow>
          (let tok = takeWhile (\<lambda>c. c \<notin> set delim) t; rest = dropWhile (\<lambda>c. c \<notin> set delim) t
           in (Some tok, if rest = [] then None else Some (tl rest))))"

definition scan_word :: "string \<Rightarrow> string \<times> string" where
  "scan_word s =
     (let t = dropWhile isspace s in (takeWhile (\<lambda>c. \<not> isspace c) t, dropWhile (\<lambda>c. \<not> isspace c) t))"

text \<open>\<open>sscanf(s, "%s %s", a, b)\<close>: a word that is not there leaves its buffer uninitialised.\<close>

definition scan_two :: "string \<Rightarrow> string option \<times> string option" where
  "scan_two s =
     (let (a, r) = scan_word s; (b, r') = scan_word r
      in (if a = [] then None else Some a, if a = [] \<or> b = [] then None else Some b))"

definition c_str :: "string \<Rightarrow> string" where
  "c_str s = takeWhile (\<lambda>c. c \<noteq> NUL) s"

definition scan_int :: "string \<Rightarrow> (i32 \<times> string) option" where
  \<comment> \<open>\<open>%d\<close>\<close>
  "scan_int s =
     (let (neg, t) = strip_sign s; (k, r) = read_digits 10 0 t
      in if r = t then None else Some (word_of_int (clip_long neg k), r))"

text \<open>
  \<open>sprintf("%lf", (double)x / 1000000.0)\<close>. The division is exact to six decimals for
  \<open>x < 2 ^ 52\<close>, more than a century of microseconds.
\<close>

definition print_micro :: "nat \<Rightarrow> string" where
  "print_micro x = print_u (x div 1000000) @ ''.'' @
     map (\<lambda>k. hex_lower (x div 10 ^ k mod 10)) [5, 4, 3, 2, 1, 0]"

section \<open>Reading back what was printed\<close>

lemma digit_value_hex:
  assumes "d < 16"
  shows "digit_value (hex_lower d) = Some d" "digit_value (hex_upper d) = Some d"
proof -
  have "\<forall>d \<in> set [0..<16]. digit_value (hex_lower d) = Some d \<and> digit_value (hex_upper d) = Some d"
    by code_simp
  with assms show "digit_value (hex_lower d) = Some d" "digit_value (hex_upper d) = Some d" by auto
qed

fun num_of :: "nat \<Rightarrow> nat \<Rightarrow> nat list \<Rightarrow> nat" where
  "num_of b acc [] = acc"
| "num_of b acc (d # ds) = num_of b (acc * b + d) ds"

lemma num_of_append: "num_of b acc (xs @ ys) = num_of b (num_of b acc xs) ys"
  by (induction xs arbitrary: acc) auto

lemma num_of_digits_in: "2 \<le> b \<Longrightarrow> num_of b 0 (digits_in b n) = n"
proof (induction b n rule: digits_in.induct)
  case (1 b n)
  then show ?case
    by (cases "n < b") (subst digits_in.simps, simp add: num_of_append div_mult_mod_eq)+
qed

lemma digits_in_less: "2 \<le> b \<Longrightarrow> d \<in> set (digits_in b n) \<Longrightarrow> d < b"
proof (induction b n rule: digits_in.induct)
  case (1 b n)
  then show ?case by (cases "n < b") (auto simp: digits_in.simps [of b n])
qed

lemma read_digits_print:
  assumes "\<And>d. d \<in> set ds \<Longrightarrow> digit_value (f d) = Some d \<and> d < b"
    and "rest = [] \<or> digit_value (hd rest) = None"
  shows "read_digits b acc (map f ds @ rest) = (num_of b acc ds, rest)"
  using assms
proof (induction ds arbitrary: acc)
  case Nil
  then show ?case by (cases rest) auto
next
  case (Cons d ds)
  then show ?case by simp
qed


lemma digit_not_sign:
  assumes "digit_value c = Some d"
  shows "\<not> isspace c" "c \<noteq> CHR ''-''" "c \<noteq> CHR ''+''"
  using assms by (auto simp: isspace_def digit_value_def)

lemma digit_not_x: "digit_value c = Some d \<Longrightarrow> d < 16 \<Longrightarrow> c \<noteq> CHR ''x'' \<and> c \<noteq> CHR ''X''"
  by (auto simp: digit_value_def)

lemma strtoul16_print:
  assumes ds: "\<And>d. d \<in> set ds \<Longrightarrow> digit_value (f d) = Some d \<and> d < 16" and "ds \<noteq> []"
    and n: "num_of 16 0 ds < 2 ^ 64"
  shows "strtoul16 (map f ds) = word_of_nat (num_of 16 0 ds)"
proof -
  obtain d ds' where cons: "ds = d # ds'" using assms(2) by (cases ds) auto
  then have "strip_sign (map f ds) = (False, map f ds)"
    using ds digit_not_sign [of "f d" d] by (simp add: strip_sign_def)
  moreover have "strip_0x (map f ds) = map f ds"
    using ds digit_not_x cons by (cases ds'; cases "tl ds'") (auto simp: strip_0x_def)
  moreover have "read_digits 16 0 (map f ds) = (num_of 16 0 ds, [])"
    using read_digits_print [of ds f 16 "[]" 0] ds by simp
  ultimately show ?thesis using n by (simp add: strtoul16_def)
qed

lemma strtoul16_print_x: "strtoul16 (print_x (unat w)) = ucast w" for w :: u32
proof -
  have "num_of 16 0 (digits_in 16 (unat w)) = unat w" by (simp add: num_of_digits_in)
  moreover have "digits_in 16 (unat w) \<noteq> []" by (simp add: digits_in.simps)
  ultimately have "strtoul16 (print_x (unat w)) = word_of_nat (unat w)"
    unfolding print_x_def using unat_less_u32 [of w]
    by (subst strtoul16_print) (auto simp: digit_value_hex dest: digits_in_less [rotated])
  then show ?thesis by (simp add: of_nat_unat)
qed

text \<open>The eight nibbles of a word, most significant first.\<close>

definition nibbles :: "u32 \<Rightarrow> nat list" where
  "nibbles w = map (\<lambda>i. unat (drop_bit ((7 - i) * 4) w AND 0xf)) [0..<8]"

lemma nibble_eq: "unat (drop_bit k w AND 0xf) = unat w div 2 ^ k mod 16" for w :: u32
proof -
  have "(0xf :: u32) = mask 4" by (simp add: mask_eq_exp_minus_1)
  then show ?thesis by (simp only: unat_and_mask unat_drop_bit) simp
qed

lemma upt_eight: "[0..<8] = [0, 1, 2, 3, 4, 5, 6, 7]"
  by code_simp

lemma num_of_nibbles: "num_of 16 0 (nibbles w) = unat w"
proof -
  define n where "n = unat w"
  have step: "a div (16 * b) * 16 + a div b mod 16 = a div b" for a b :: nat
    by (simp add: div_mult2_eq mult.commute)
  have "n < 2 ^ 32" unfolding n_def by (rule unat_less_u32)
  then have top: "n div 2 ^ 28 mod 16 = n div 2 ^ 28" by (simp add: div_less_iff_less_mult)
  have "nibbles w = map (\<lambda>k. n div 2 ^ k mod 16) [28, 24, 20, 16, 12, 8, 4, 0]"
    unfolding nibbles_def nibble_eq n_def [symmetric] upt_eight by simp
  then have "num_of 16 0 (nibbles w) =
     ((((((n div 2 ^ 28 * 16 + n div 2 ^ 24 mod 16) * 16 + n div 2 ^ 20 mod 16) * 16 + n div 2 ^ 16 mod 16) * 16
       + n div 2 ^ 12 mod 16) * 16 + n div 2 ^ 8 mod 16) * 16 + n div 2 ^ 4 mod 16) * 16 + n mod 16"
    using top by simp
  also have "\<dots> = n"
    using step [of n "2 ^ 24"] step [of n "2 ^ 20"] step [of n "2 ^ 16"] step [of n "2 ^ 12"]
      step [of n "2 ^ 8"] step [of n "2 ^ 4"] step [of n 1] by simp
  finally show ?thesis by (simp add: n_def)
qed

section \<open>Properties\<close>

text \<open>A service address printed by \<open>id_to_hex\<close>, or by \<open>sprintf(":%x")\<close>, is read back by
  \<open>strtoul(addr + 1, NULL, 16)\<close> as the same handle.\<close>

theorem address_text_roundtrip:
  "strtoul16 (tl (id_to_hex w)) = ucast w \<and> strtoul16 (print_x (unat w)) = ucast w"
proof -
  have map: "tl (id_to_hex w) = map hex_upper (nibbles w)" by (simp add: id_to_hex_def nibbles_def)
  have "\<And>d. d \<in> set (nibbles w) \<Longrightarrow> d < 16" by (auto simp: nibbles_def nibble_eq)
  moreover have "nibbles w \<noteq> []" by (simp add: nibbles_def)
  ultimately have "strtoul16 (tl (id_to_hex w)) = word_of_nat (unat w)"
    unfolding map using unat_less_u32 [of w]
    by (subst strtoul16_print) (auto simp: digit_value_hex num_of_nibbles)
  then show ?thesis using strtoul16_print_x by (simp add: of_nat_unat)
qed

end
