(* ===== verification/Node.thy ===== *)
theory Node
  imports MsgQueue HandleNames Timer Modules Monitor Format
begin

text \<open>
  The state of a node and the operations of \<open>core/uboss_server.c\<close>, \<open>core/uboss_error.c\<close>,
  \<open>core/uboss_harbor.c\<close>, \<open>core/uboss_log.c\<close> and the parts of \<open>core/uboss_mq.c\<close>,
  \<open>core/uboss_handle.c\<close> and \<open>core/uboss_timer.c\<close> that work on contexts. Service modules, the
  dynamic linker, files and clocks are not part of the program: they are the fields of a
  \<open>world\<close>, functions on the node like the C functions behind the pointers.

  A pointer that is not allocated reads as \<open>None\<close>, so using freed memory, freeing twice
  and a failed \<open>assert\<close> all make the result \<open>None\<close>.
\<close>

section \<open>State\<close>

definition PTYPE_TEXT :: u32 where "PTYPE_TEXT = 0"
definition PTYPE_CLIENT :: u32 where "PTYPE_CLIENT = 3"
definition PTYPE_SYSTEM :: u32 where "PTYPE_SYSTEM = 4"
definition PTYPE_HARBOR :: u32 where "PTYPE_HARBOR = 5"
definition PTYPE_SOCKET :: u32 where "PTYPE_SOCKET = 6"
definition PTYPE_ERROR :: u32 where "PTYPE_ERROR = 7"
definition PTYPE_TAG_DONTCOPY :: u32 where "PTYPE_TAG_DONTCOPY = 0x10000"
definition PTYPE_TAG_ALLOCSESSION :: u32 where "PTYPE_TAG_ALLOCSESSION = 0x20000"
definition GLOBALNAME_LENGTH :: nat where "GLOBALNAME_LENGTH = 16"
definition THREAD_MAIN :: u32 where "THREAD_MAIN = 1"

record remote_name =
  rn_name :: "string option"
  rn_handle :: u32

record remote_message =
  rm_destination :: remote_name
  rm_message :: ptr
  rm_sz :: u64

record uboss_socket_message =
  sk_type :: i32
  sk_id :: i32
  sk_ud :: i32
  sk_buffer :: ptr

text \<open>
  A block of memory: the bytes of a message, a message for another node, or a socket
  event with the bytes that follow the structure.
\<close>

datatype cell = Bytes string | Remote remote_message | Socket uboss_socket_message string

record uboss_context =
  cx_instance :: ptr
  cx_mod :: nat
  cx_cb_ud :: ptr
  cx_cb :: ptr
  cx_queue :: ptr
  cx_logfile :: ptr
  cx_cpu_cost :: u64
  cx_cpu_start :: u64
  cx_result :: string
  cx_handle :: u32
  cx_session_id :: i32
  cx_ref :: i32
  cx_message_count :: i32
  cx_init :: bool
  cx_endless :: bool
  cx_profile :: bool

record uboss_node =
  gn_total :: i32
  gn_init :: bool
  gn_monitor_exit :: u32

record node =
  nd_ctx :: "ptr \<rightharpoonup> uboss_context"
  nd_mq :: mq_state
  nd_handles :: handle_storage
  nd_timer :: timer
  nd_mods :: modules
  nd_env :: uboss_env
  nd_mem :: "ptr \<rightharpoonup> cell"
  nd_files :: "ptr \<rightharpoonup> string"
  nd_brk :: ptr
  nd_G :: uboss_node
  nd_key :: u32
  nd_HARBOR :: u32
  nd_REMOTE :: ptr
  nd_logger :: u32

record world =
  w_dlopen :: "string \<Rightarrow> ptr"
  w_dlsym :: "ptr \<Rightarrow> string \<Rightarrow> ptr"
  w_create :: "ptr \<Rightarrow> node \<Rightarrow> (ptr \<times> node) option"
  w_init :: "ptr \<Rightarrow> ptr \<Rightarrow> ptr \<Rightarrow> string option \<Rightarrow> node \<Rightarrow> (i32 \<times> node) option"
  w_release :: "ptr \<Rightarrow> ptr \<Rightarrow> node \<Rightarrow> node option"
  w_signal :: "ptr \<Rightarrow> ptr \<Rightarrow> i32 \<Rightarrow> node \<Rightarrow> node option"
  w_cb :: "ptr \<Rightarrow> ptr \<Rightarrow> ptr \<Rightarrow> u32 \<Rightarrow> i32 \<Rightarrow> u32 \<Rightarrow> ptr \<Rightarrow> u64 \<Rightarrow> node \<Rightarrow> (i32 \<times> node) option"
  w_raw :: "node \<Rightarrow> uboss_context"
  w_thread_time :: "node \<Rightarrow> u64"
  w_fopen :: "string \<Rightarrow> node \<Rightarrow> bool"
  w_ctime :: "u64 \<Rightarrow> string"

text \<open>The handle field of a context: what \<open>uboss_context_handle\<close> reads.\<close>

definition hof :: "node \<Rightarrow> ptr \<rightharpoonup> u32" where
  "hof n = (\<lambda>c. map_option cx_handle (nd_ctx n c))"

definition uboss_context_handle :: "ptr \<Rightarrow> node \<Rightarrow> u32 option" where
  "uboss_context_handle ctx n = hof n ctx"

definition with_ctx :: "ptr \<Rightarrow> (uboss_context \<Rightarrow> uboss_context) \<Rightarrow> node \<Rightarrow> node option" where
  "with_ctx ctx f n = do { c \<leftarrow> nd_ctx n ctx; Some (n\<lparr>nd_ctx := (nd_ctx n)(ctx \<mapsto> f c)\<rparr>) }"

definition lift_mq :: "(mq_state \<Rightarrow> mq_state option) \<Rightarrow> node \<Rightarrow> node option" where
  "lift_mq f n = do { S \<leftarrow> f (nd_mq n); Some (n\<lparr>nd_mq := S\<rparr>) }"

definition node_malloc :: "cell \<Rightarrow> node \<Rightarrow> ptr \<times> node" where
  "node_malloc v n =
     (nd_brk n, n\<lparr>nd_mem := (nd_mem n)(nd_brk n \<mapsto> v), nd_brk := Suc (nd_brk n)\<rparr>)"

definition node_free :: "ptr \<Rightarrow> node \<Rightarrow> node option" where
  "node_free p n =
     (if p = NULL then Some n
      else do { guard (nd_mem n p \<noteq> None); Some (n\<lparr>nd_mem := (nd_mem n)(p := None)\<rparr>) })"

definition file_write :: "ptr \<Rightarrow> string \<Rightarrow> node \<Rightarrow> node option" where
  "file_write f s n =
     do { old \<leftarrow> nd_files n f; Some (n\<lparr>nd_files := (nd_files n)(f \<mapsto> old @ s)\<rparr>) }"

definition file_close :: "ptr \<Rightarrow> node \<Rightarrow> node option" where
  "file_close f n =
     do { guard (nd_files n f \<noteq> None); Some (n\<lparr>nd_files := (nd_files n)(f := None)\<rparr>) }"

section \<open>Threads and counters\<close>

definition uboss_context_total :: "node \<Rightarrow> i32" where
  "uboss_context_total n = gn_total (nd_G n)"

definition context_inc :: "node \<Rightarrow> node" where
  "context_inc n = n\<lparr>nd_G := (nd_G n)\<lparr>gn_total := gn_total (nd_G n) + 1\<rparr>\<rparr>"

definition context_dec :: "node \<Rightarrow> node" where
  "context_dec n = n\<lparr>nd_G := (nd_G n)\<lparr>gn_total := gn_total (nd_G n) - 1\<rparr>\<rparr>"

definition uboss_current_handle :: "node \<Rightarrow> u32" where
  "uboss_current_handle n = (if gn_init (nd_G n) then nd_key n else - THREAD_MAIN)"

definition uboss_initthread :: "u32 \<Rightarrow> node \<Rightarrow> node" where
  "uboss_initthread m n = n\<lparr>nd_key := - m\<rparr>"

definition uboss_globalinit :: "node \<Rightarrow> node" where
  "uboss_globalinit n =
     uboss_initthread THREAD_MAIN (n\<lparr>nd_G := \<lparr>gn_total = 0, gn_init = True, gn_monitor_exit = 0\<rparr>\<rparr>)"

section \<open>Module instances\<close>

definition mod_at :: "nat \<Rightarrow> node \<Rightarrow> uboss_module option" where
  "mod_at i n = (if i < length (ms_m (nd_mods n)) then ms_m (nd_mods n) ! i else None)"

definition uboss_module_instance_create :: "world \<Rightarrow> nat \<Rightarrow> node \<Rightarrow> (ptr \<times> node) option" where
  "uboss_module_instance_create w i n =
     do { m \<leftarrow> mod_at i n;
          if um_create m \<noteq> NULL then w_create w (um_create m) n else Some (2 ^ 64 - 1, n) }"

definition uboss_module_instance_init ::
    "world \<Rightarrow> nat \<Rightarrow> ptr \<Rightarrow> ptr \<Rightarrow> string option \<Rightarrow> node \<Rightarrow> (i32 \<times> node) option" where
  "uboss_module_instance_init w i inst ctx parm n =
     do { m \<leftarrow> mod_at i n; guard (um_init m \<noteq> NULL); w_init w (um_init m) inst ctx parm n }"

definition uboss_module_instance_release :: "world \<Rightarrow> nat \<Rightarrow> ptr \<Rightarrow> node \<Rightarrow> node option" where
  "uboss_module_instance_release w i inst n =
     do { m \<leftarrow> mod_at i n;
          if um_release m \<noteq> NULL then w_release w (um_release m) inst n else Some n }"

definition uboss_module_instance_signal :: "world \<Rightarrow> nat \<Rightarrow> ptr \<Rightarrow> i32 \<Rightarrow> node \<Rightarrow> node option" where
  "uboss_module_instance_signal w i inst sig n =
     do { m \<leftarrow> mod_at i n;
          if um_signal m \<noteq> NULL then w_signal w (um_signal m) inst sig n else Some n }"

section \<open>References\<close>

definition uboss_context_newsession :: "ptr \<Rightarrow> node \<Rightarrow> (i32 \<times> node) option" where
  "uboss_context_newsession ctx n =
     do { c \<leftarrow> nd_ctx n ctx;
          let session = cx_session_id c + 1;
          let s = (if sint session \<le> 0 then 1 else session);
          n1 \<leftarrow> with_ctx ctx (\<lambda>c. c\<lparr>cx_session_id := s\<rparr>) n;
          Some (s, n1) }"

definition uboss_context_grab :: "ptr \<Rightarrow> node \<Rightarrow> node option" where
  "uboss_context_grab ctx n = with_ctx ctx (\<lambda>c. c\<lparr>cx_ref := cx_ref c + 1\<rparr>) n"

definition uboss_context_reserve :: "ptr \<Rightarrow> node \<Rightarrow> node option" where
  "uboss_context_reserve ctx n = do { n1 \<leftarrow> uboss_context_grab ctx n; Some (context_dec n1) }"

definition delete_context :: "world \<Rightarrow> ptr \<Rightarrow> node \<Rightarrow> node option" where
  "delete_context w ctx n =
     do { c \<leftarrow> nd_ctx n ctx;
          n1 \<leftarrow> (if cx_logfile c \<noteq> NULL then file_close (cx_logfile c) n else Some n);
          n2 \<leftarrow> uboss_module_instance_release w (cx_mod c) (cx_instance c) n1;
          c2 \<leftarrow> nd_ctx n2 ctx;
          n3 \<leftarrow> lift_mq (uboss_mq_mark_release (cx_queue c2)) n2;
          guard (nd_ctx n3 ctx \<noteq> None);
          Some (context_dec (n3\<lparr>nd_ctx := (nd_ctx n3)(ctx := None)\<rparr>)) }"

definition uboss_context_release :: "world \<Rightarrow> ptr \<Rightarrow> node \<Rightarrow> (ptr \<times> node) option" where
  \<comment> \<open>the returned pointer is NULL if the context was deleted\<close>
  "uboss_context_release w ctx n =
     do { n1 \<leftarrow> with_ctx ctx (\<lambda>c. c\<lparr>cx_ref := cx_ref c - 1\<rparr>) n;
          c \<leftarrow> nd_ctx n1 ctx;
          if cx_ref c = 0
          then do { n2 \<leftarrow> delete_context w ctx n1; Some (NULL, n2) }
          else Some (ctx, n1) }"

definition slot_live :: "u32 \<Rightarrow> node \<Rightarrow> bool" where
  \<comment> \<open>the context in the slot of a handle may be read\<close>
  "slot_live handle n =
     (let s = nd_handles n; hash = slot_hash handle (hs_slot_size s)
      in hash < length (hs_slot s) \<and>
         (case hs_slot s ! hash of None \<Rightarrow> True | Some c \<Rightarrow> nd_ctx n c \<noteq> None))"

definition uboss_handle_grab :: "u32 \<Rightarrow> node \<Rightarrow> (ptr \<times> node) option" where
  "uboss_handle_grab handle n =
     do { guard (slot_live handle n);
          case handle_lookup (hof n) handle (nd_handles n) of
            None \<Rightarrow> Some (NULL, n)
          | Some ctx \<Rightarrow> do { n1 \<leftarrow> uboss_context_grab ctx n; Some (ctx, n1) } }"

definition uboss_handle_retire :: "world \<Rightarrow> u32 \<Rightarrow> node \<Rightarrow> (i32 \<times> node) option" where
  "uboss_handle_retire w handle n =
     do { guard (slot_live handle n);
          (r, hs) \<leftarrow> handle_retire (hof n) handle (nd_handles n);
          let n1 = n\<lparr>nd_handles := hs\<rparr>;
          case r of
            None \<Rightarrow> Some (0, n1)
          | Some ctx \<Rightarrow> do { (_, n2) \<leftarrow> uboss_context_release w ctx n1; Some (1, n2) } }"

text \<open>\<open>uboss_handle_retireall\<close>: one sweep over the slots, repeated until it retires nothing.\<close>

partial_function (option) retire_sweep :: "world \<Rightarrow> nat \<Rightarrow> nat \<Rightarrow> node \<Rightarrow> (nat \<times> node) option" where
  "retire_sweep w i cnt n =
     (if i < hs_slot_size (nd_handles n) then
        do { guard (i < length (hs_slot (nd_handles n)));
             handle \<leftarrow> (case hs_slot (nd_handles n) ! i of None \<Rightarrow> Some 0 | Some ctx \<Rightarrow> hof n ctx);
             if handle \<noteq> 0 then
               do { (r, n1) \<leftarrow> uboss_handle_retire w handle n;
                    retire_sweep w (Suc i) (if r \<noteq> 0 then Suc cnt else cnt) n1 }
             else retire_sweep w (Suc i) cnt n }
      else Some (cnt, n))"

partial_function (option) uboss_handle_retireall :: "world \<Rightarrow> node \<Rightarrow> node option" where
  "uboss_handle_retireall w n =
     do { (cnt, n1) \<leftarrow> retire_sweep w 0 0 n;
          if cnt = 0 then Some n1 else uboss_handle_retireall w n1 }"

section \<open>Delivering a message\<close>

definition uboss_context_push :: "world \<Rightarrow> u32 \<Rightarrow> uboss_message \<Rightarrow> node \<Rightarrow> (i32 \<times> node) option" where
  "uboss_context_push w handle message n =
     do { (ctx, n1) \<leftarrow> uboss_handle_grab handle n;
          if ctx = NULL then Some (- 1, n1)
          else do { c \<leftarrow> nd_ctx n1 ctx;
                    n2 \<leftarrow> lift_mq (uboss_mq_push (cx_queue c) message) n1;
                    (_, n3) \<leftarrow> uboss_context_release w ctx n2;
                    Some (0, n3) } }"

definition uboss_context_endless :: "world \<Rightarrow> u32 \<Rightarrow> node \<Rightarrow> node option" where
  "uboss_context_endless w handle n =
     do { (ctx, n1) \<leftarrow> uboss_handle_grab handle n;
          if ctx = NULL then Some n1
          else do { n2 \<leftarrow> with_ctx ctx (\<lambda>c. c\<lparr>cx_endless := True\<rparr>) n1;
                    (_, n3) \<leftarrow> uboss_context_release w ctx n2;
                    Some n3 } }"

definition uboss_context_send :: "ptr \<Rightarrow> ptr \<Rightarrow> u64 \<Rightarrow> u32 \<Rightarrow> u32 \<Rightarrow> i32 \<Rightarrow> node \<Rightarrow> node option" where
  "uboss_context_send ctx msg sz source type session n =
     do { c \<leftarrow> nd_ctx n ctx;
          lift_mq (uboss_mq_push (cx_queue c)
            \<lparr>msg_source = source, msg_session = session, msg_data = msg,
             msg_sz = sz OR push_bit MESSAGE_TYPE_SHIFT (scast type)\<rparr>) n }"

definition LOG_MESSAGE_SIZE :: nat where
  "LOG_MESSAGE_SIZE = 256"

text \<open>The size of the buffer that the formatting loop of \<open>uboss_error\<close> ends with.\<close>

function error_buffer :: "nat \<Rightarrow> nat \<Rightarrow> nat" where
  "error_buffer len max_size =
     (if max_size = 0 \<or> len < max_size * 2 then max_size * 2 else error_buffer len (max_size * 2))"
  by pat_completeness auto
termination
  by (relation "measure (\<lambda>(len, m). len - m)") auto

declare error_buffer.simps [simp del]

definition uboss_error :: "world \<Rightarrow> ptr \<Rightarrow> string \<Rightarrow> node \<Rightarrow> node option" where
  \<comment> \<open>the string is the formatted message\<close>
  "uboss_error w context text n =
     do { h \<leftarrow> (if nd_logger n = 0 then uboss_handle_findname ''logger'' (nd_handles n)
                 else Some (nd_logger n));
          let n0 = n\<lparr>nd_logger := h\<rparr>;
          if h = 0 then Some n0
          else do { let len = length text;
                    let cap = (if len < LOG_MESSAGE_SIZE then len + 1
                               else error_buffer len LOG_MESSAGE_SIZE);
                    let (data, n1) = node_malloc (Bytes (text @ replicate (cap - len) NUL)) n0;
                    source \<leftarrow> (if context = NULL then Some 0 else uboss_context_handle context n1);
                    (_, n2) \<leftarrow> uboss_context_push w h
                      \<lparr>msg_source = source, msg_session = 0, msg_data = data,
                       msg_sz = word_of_nat len OR push_bit MESSAGE_TYPE_SHIFT (ucast PTYPE_TEXT)\<rparr> n1;
                    Some n2 } }"

section \<open>The harbor\<close>

definition uboss_harbor_init :: "i32 \<Rightarrow> node \<Rightarrow> node" where
  "uboss_harbor_init harbor n = n\<lparr>nd_HARBOR := push_bit HANDLE_REMOTE_SHIFT harbor\<rparr>"

definition uboss_harbor_message_isremote :: "u32 \<Rightarrow> node \<Rightarrow> bool option" where
  "uboss_harbor_message_isremote handle n =
     do { guard (nd_HARBOR n \<noteq> - 1);
          let h = handle AND NOT HANDLE_MASK;
          Some (h \<noteq> nd_HARBOR n \<and> h \<noteq> 0) }"

definition uboss_harbor_start :: "ptr \<Rightarrow> node \<Rightarrow> node option" where
  "uboss_harbor_start ctx n = do { n1 \<leftarrow> uboss_context_reserve ctx n; Some (n1\<lparr>nd_REMOTE := ctx\<rparr>) }"

definition uboss_harbor_exit :: "world \<Rightarrow> node \<Rightarrow> node option" where
  "uboss_harbor_exit w n =
     do { let ctx = nd_REMOTE n;
          let n1 = n\<lparr>nd_REMOTE := NULL\<rparr>;
          if ctx \<noteq> NULL then do { (_, n2) \<leftarrow> uboss_context_release w ctx n1; Some n2 }
          else Some n1 }"

definition sizeof_remote_message :: u64 where
  "sizeof_remote_message = 40"

definition uboss_harbor_send :: "ptr \<Rightarrow> u32 \<Rightarrow> i32 \<Rightarrow> node \<Rightarrow> node option" where
  "uboss_harbor_send rmsg source session n =
     (case nd_mem n rmsg of
        Some (Remote r) \<Rightarrow>
          do { let type = (ucast (drop_bit MESSAGE_TYPE_SHIFT (rm_sz r)) :: u32);
               let n1 = n\<lparr>nd_mem := (nd_mem n)(rmsg \<mapsto>
                 Remote (r\<lparr>rm_sz := rm_sz r AND MESSAGE_TYPE_MASK\<rparr>))\<rparr>;
               guard (type \<noteq> PTYPE_SYSTEM \<and> type \<noteq> PTYPE_HARBOR \<and> nd_REMOTE n \<noteq> NULL);
               uboss_context_send (nd_REMOTE n) rmsg sizeof_remote_message source type session n1 }
      | _ \<Rightarrow> None)"

definition uboss_isremote :: "u32 \<Rightarrow> node \<Rightarrow> (bool \<times> i32) option" where
  "uboss_isremote handle n =
     do { ret \<leftarrow> uboss_harbor_message_isremote handle n;
          Some (ret, drop_bit HANDLE_REMOTE_SHIFT handle) }"

section \<open>Sending\<close>

definition filter_args :: "ptr \<Rightarrow> u32 \<Rightarrow> i32 \<Rightarrow> ptr \<Rightarrow> u64 \<Rightarrow> node \<Rightarrow>
    (i32 \<times> ptr \<times> u64 \<times> node) option" where
  "filter_args context type session data sz n =
     do { (session1, n1) \<leftarrow>
            (if type AND PTYPE_TAG_ALLOCSESSION \<noteq> 0
             then do { guard (session = 0); uboss_context_newsession context n }
             else Some (session, n));
          (data1, n2) \<leftarrow>
            (if type AND PTYPE_TAG_DONTCOPY = 0 \<and> data \<noteq> NULL
             then (case nd_mem n1 data of
                     Some (Bytes bs) \<Rightarrow>
                       do { guard (unat sz \<le> length bs);
                            Some (node_malloc (Bytes (take (unat sz) bs @ [NUL])) n1) }
                   | _ \<Rightarrow> None)
             else Some (data, n1));
          Some (session1, data1, sz OR push_bit MESSAGE_TYPE_SHIFT (ucast (type AND 0xff)), n2) }"

definition uboss_send :: "world \<Rightarrow> ptr \<Rightarrow> u32 \<Rightarrow> u32 \<Rightarrow> u32 \<Rightarrow> i32 \<Rightarrow> ptr \<Rightarrow> u64 \<Rightarrow> node \<Rightarrow>
    (i32 \<times> node) option" where
  "uboss_send w context source destination type session data sz n =
     (if sz AND MESSAGE_TYPE_MASK \<noteq> sz then
        do { n1 \<leftarrow> uboss_error w context
               (''The message to '' @ print_x (unat destination) @ '' is too large'') n;
             n2 \<leftarrow> (if type AND PTYPE_TAG_DONTCOPY \<noteq> 0 then node_free data n1 else Some n1);
             Some (- 1, n2) }
      else
        do { (session1, data1, sz1, n1) \<leftarrow> filter_args context type session data sz n;
             source1 \<leftarrow> (if source = 0 then uboss_context_handle context n1 else Some source);
             if destination = 0 then Some (session1, n1)
             else
               do { remote \<leftarrow> uboss_harbor_message_isremote destination n1;
                    if remote then
                      do { let (rmsg, n2) = node_malloc (Remote
                             \<lparr>rm_destination = \<lparr>rn_name = None, rn_handle = destination\<rparr>,
                              rm_message = data1, rm_sz = sz1\<rparr>) n1;
                           n3 \<leftarrow> uboss_harbor_send rmsg source1 session1 n2;
                           Some (session1, n3) }
                    else
                      do { (r, n2) \<leftarrow> uboss_context_push w destination
                             \<lparr>msg_source = source1, msg_session = session1, msg_data = data1,
                              msg_sz = sz1\<rparr> n1;
                           if r \<noteq> 0 then do { n3 \<leftarrow> node_free data1 n2; Some (- 1, n3) }
                           else Some (session1, n2) } } })"

definition copy_name :: "string \<Rightarrow> string" where
  "copy_name addr =
     (let s = take GLOBALNAME_LENGTH addr in s @ replicate (GLOBALNAME_LENGTH - length s) NUL)"

definition uboss_queryname :: "world \<Rightarrow> ptr \<Rightarrow> string \<Rightarrow> node \<Rightarrow> (u32 \<times> node) option" where
  "uboss_queryname w context name n =
     (case name of
        CHR '':'' # rest \<Rightarrow> Some (ucast (strtoul16 rest), n)
      | CHR ''.'' # rest \<Rightarrow> do { h \<leftarrow> uboss_handle_findname rest (nd_handles n); Some (h, n) }
      | _ \<Rightarrow> do { n1 \<leftarrow> uboss_error w context (''Don't support query global name '' @ name) n;
                  Some (0, n1) })"

definition uboss_sendname :: "world \<Rightarrow> ptr \<Rightarrow> u32 \<Rightarrow> string \<Rightarrow> u32 \<Rightarrow> i32 \<Rightarrow> ptr \<Rightarrow> u64 \<Rightarrow> node \<Rightarrow>
    (i32 \<times> node) option" where
  "uboss_sendname w context source addr type session data sz n =
     do { source1 \<leftarrow> (if source = 0 then uboss_context_handle context n else Some source);
          case addr of
            CHR '':'' # rest \<Rightarrow>
              uboss_send w context source1 (ucast (strtoul16 rest)) type session data sz n
          | CHR ''.'' # rest \<Rightarrow>
              do { des \<leftarrow> uboss_handle_findname rest (nd_handles n);
                   if des = 0 then
                     do { n1 \<leftarrow> (if type AND PTYPE_TAG_DONTCOPY \<noteq> 0 then node_free data n else Some n);
                          Some (- 1, n1) }
                   else uboss_send w context source1 des type session data sz n }
          | _ \<Rightarrow>
              do { (session1, data1, sz1, n1) \<leftarrow> filter_args context type session data sz n;
                   let (rmsg, n2) = node_malloc (Remote
                     \<lparr>rm_destination = \<lparr>rn_name = Some (copy_name addr), rn_handle = 0\<rparr>,
                      rm_message = data1, rm_sz = sz1\<rparr>) n1;
                   n3 \<leftarrow> uboss_harbor_send rmsg source1 session1 n2;
                   Some (session1, n3) } }"

definition uboss_callback :: "ptr \<Rightarrow> ptr \<Rightarrow> ptr \<Rightarrow> node \<Rightarrow> node option" where
  "uboss_callback context ud cb n = with_ctx context (\<lambda>c. c\<lparr>cx_cb := cb, cx_cb_ud := ud\<rparr>) n"

end
