(* ===== verification/Server.thy ===== *)
theory Server
  imports Node
begin

text \<open>
  Continuation of the model of \<open>core/uboss_server.c\<close>: message logs (\<open>core/uboss_log.c\<close>),
  dropping a dead queue, creating a service, dispatching messages to it, and the node-level
  effects of the timer and of the watchdog.
\<close>

section \<open>Message logs\<close>

definition uboss_log_open :: "world \<Rightarrow> ptr \<Rightarrow> u32 \<Rightarrow> node \<Rightarrow> (ptr \<times> node) option" where
  "uboss_log_open w ctx handle n =
     (case uboss_getenv ''logpath'' (nd_env n) of
        None \<Rightarrow> Some (NULL, n)
      | Some logpath \<Rightarrow>
          (let tmp = logpath @ ''/'' @ print_08x handle @ ''.log''
           in if w_fopen w tmp n then
                do { let f = nd_brk n;
                     let n1 = n\<lparr>nd_files := (nd_files n)(f \<mapsto> []), nd_brk := Suc f\<rparr>;
                     let starttime = uboss_starttime (nd_timer n1);
                     let currenttime = uboss_now (nd_timer n1);
                     let ti = ucast starttime + currenttime div 100;
                     n2 \<leftarrow> uboss_error w ctx (''Open log file '' @ tmp) n1;
                     n3 \<leftarrow> file_write f (''open time: '' @ print_u (unat (ucast currenttime :: u32)) @ '' '' @
                            w_ctime w ti) n2;
                     Some (f, n3) }
              else do { n1 \<leftarrow> uboss_error w ctx (''Open log file '' @ tmp @ '' fail'') n;
                        Some (NULL, n1) }))"

definition uboss_log_close :: "world \<Rightarrow> ptr \<Rightarrow> ptr \<Rightarrow> u32 \<Rightarrow> node \<Rightarrow> node option" where
  "uboss_log_close w ctx f handle n =
     do { n1 \<leftarrow> uboss_error w ctx (''Close log file :'' @ print_08x handle) n;
          n2 \<leftarrow> file_write f (''close time: '' @
                 print_u (unat (ucast (uboss_now (nd_timer n1)) :: u32)) @ [CHR 0x0A]) n1;
          file_close f n2 }"

definition log_blob :: "string \<Rightarrow> string" where
  "log_blob bs = concat (map (\<lambda>c. print_02x (word_of_nat (of_char c))) bs)"

definition sizeof_socket_message :: nat where
  "sizeof_socket_message = 24"

text \<open>
  \<open>log_socket\<close>: the text of a socket event. \<open>%*s\<close> takes the size as a minimal width and
  prints up to the terminating zero, which must be in the block.
\<close>

definition log_socket :: "ptr \<Rightarrow> u64 \<Rightarrow> node \<Rightarrow> string option" where
  "log_socket buffer sz n =
     (case nd_mem n buffer of
        Some (Socket m padding) \<Rightarrow>
          do { let front = ''[socket] '' @ print_d (sint (sk_type m)) @ '' '' @ print_d (sint (sk_id m)) @
                 '' '' @ print_d (sint (sk_ud m)) @ '' '';
               body \<leftarrow>
                 (if sk_buffer m = NULL then
                    do { guard (NUL \<in> set padding);
                         let text = takeWhile (\<lambda>c. c \<noteq> NUL) padding;
                         let width = (if length text < unat sz - sizeof_socket_message then length text
                                      else unat sz - sizeof_socket_message);
                         Some (''['' @ replicate (width - length text) (CHR '' '') @ text @ '']'') }
                  else
                    (case nd_mem n (sk_buffer m) of
                       Some (Bytes bs) \<Rightarrow>
                         do { guard (0 \<le> sint (sk_ud m) \<and> unat (sk_ud m) \<le> length bs);
                              Some (log_blob (take (unat (sk_ud m)) bs)) }
                     | _ \<Rightarrow> None));
               Some (front @ body @ [CHR 0x0A]) }
      | _ \<Rightarrow> None)"

definition uboss_log_output :: "ptr \<Rightarrow> u32 \<Rightarrow> u32 \<Rightarrow> i32 \<Rightarrow> ptr \<Rightarrow> u64 \<Rightarrow> node \<Rightarrow> node option" where
  "uboss_log_output f source type session buffer sz n =
     (if type = PTYPE_SOCKET then
        do { text \<leftarrow> log_socket buffer sz n; file_write f text n }
      else
        do { blob \<leftarrow> (if sz = 0 then Some []
                      else (case nd_mem n buffer of
                              Some (Bytes bs) \<Rightarrow>
                                do { guard (unat sz \<le> length bs); Some (log_blob (take (unat sz) bs)) }
                            | _ \<Rightarrow> None));
             file_write f (CHR '':'' # print_08x source @ '' '' @ print_d (sint type) @ '' '' @
               print_d (sint session) @ '' '' @ print_u (unat (ucast (uboss_now (nd_timer n)) :: u32)) @
               '' '' @ blob @ [CHR 0x0A]) n })"

section \<open>Dropping a queue\<close>

definition drop_message :: "world \<Rightarrow> u32 \<Rightarrow> uboss_message \<Rightarrow> node \<Rightarrow> node option" where
  "drop_message w handle msg n =
     do { n1 \<leftarrow> node_free (msg_data msg) n;
          guard (handle \<noteq> 0);
          (_, n2) \<leftarrow> uboss_send w NULL handle (msg_source msg) PTYPE_ERROR 0 NULL 0 n1;
          Some n2 }"

definition node_mq_pop :: "ptr \<Rightarrow> node \<Rightarrow> (uboss_message option \<times> node) option" where
  "node_mq_pop q n =
     do { mq \<leftarrow> mq_heap (nd_mq n) q;
          (r, mq1) \<leftarrow> uboss_mq_pop mq;
          Some (r, n\<lparr>nd_mq := mq_put q mq1 (nd_mq n)\<rparr>) }"

partial_function (option) drop_queue :: "world \<Rightarrow> ptr \<Rightarrow> u32 \<Rightarrow> node \<Rightarrow> node option" where
  "drop_queue w q handle n =
     do { (r, n1) \<leftarrow> node_mq_pop q n;
          case r of
            Some msg \<Rightarrow> do { n2 \<leftarrow> drop_message w handle msg n1; drop_queue w q handle n2 }
          | None \<Rightarrow> lift_mq (mq_free q) n1 }"

definition uboss_mq_release :: "world \<Rightarrow> ptr \<Rightarrow> u32 \<Rightarrow> node \<Rightarrow> node option" where
  "uboss_mq_release w q handle n =
     do { mq \<leftarrow> mq_heap (nd_mq n) q;
          if mq_release mq then drop_queue w q handle n
          else lift_mq (uboss_globalmq_push q) n }"

section \<open>Creating a service\<close>

definition new_context :: "nat \<Rightarrow> ptr \<Rightarrow> uboss_context \<Rightarrow> uboss_context" where
  \<comment> \<open>the assignments of \<open>uboss_context_new\<close> to a fresh block\<close>
  "new_context i inst raw =
     raw\<lparr>cx_mod := i, cx_instance := inst, cx_ref := 2, cx_cb := NULL, cx_cb_ud := NULL,
         cx_session_id := 0, cx_logfile := NULL, cx_init := False, cx_endless := False,
         cx_handle := 0\<rparr>"

definition uboss_context_new :: "world \<Rightarrow> string \<Rightarrow> string option \<Rightarrow> node \<Rightarrow> (ptr \<times> node) option" where
  "uboss_context_new w name param n =
     do { (found, M) \<leftarrow> uboss_module_query (w_dlopen w) (w_dlsym w) name (nd_mods n);
          let n1 = n\<lparr>nd_mods := M\<rparr>;
          case found of
            None \<Rightarrow> Some (NULL, n1)
          | Some i \<Rightarrow>
              do { (inst, n2) \<leftarrow> uboss_module_instance_create w i n1;
                   if inst = NULL then Some (NULL, n2)
                   else
                     do { let ctx = nd_brk n2;
                          let n3 = n2\<lparr>nd_brk := Suc ctx,
                            nd_ctx := (nd_ctx n2)(ctx \<mapsto> new_context i inst (w_raw w n2))\<rparr>;
                          (handle, hs) \<leftarrow> uboss_handle_register (hof n3) ctx (nd_handles n3);
                          n4 \<leftarrow> with_ctx ctx (\<lambda>c. c\<lparr>cx_handle := handle\<rparr>) (n3\<lparr>nd_handles := hs\<rparr>);
                          let (queue, mqs) = uboss_mq_create handle (nd_mq n4);
                          n5 \<leftarrow> with_ctx ctx (\<lambda>c. c\<lparr>cx_queue := queue\<rparr>) (n4\<lparr>nd_mq := mqs\<rparr>);
                          let n6 = context_inc n5;
                          (r, n7) \<leftarrow> uboss_module_instance_init w i inst ctx param n6;
                          if r = 0 then
                            do { (ret, n8) \<leftarrow> uboss_context_release w ctx n7;
                                 n9 \<leftarrow> (if ret \<noteq> NULL then with_ctx ctx (\<lambda>c. c\<lparr>cx_init := True\<rparr>) n8
                                         else Some n8);
                                 n10 \<leftarrow> lift_mq (uboss_globalmq_push queue) n9;
                                 n11 \<leftarrow> (if ret \<noteq> NULL then uboss_error w ret
                                            (''LAUNCH '' @ name @ '' '' @
                                             (case param of None \<Rightarrow> [] | Some p \<Rightarrow> p)) n10
                                          else Some n10);
                                 Some (ret, n11) }
                          else
                            do { n8 \<leftarrow> uboss_error w ctx (''FAILED launch '' @ name) n7;
                                 h \<leftarrow> uboss_context_handle ctx n8;
                                 (_, n9) \<leftarrow> uboss_context_release w ctx n8;
                                 (_, n10) \<leftarrow> uboss_handle_retire w h n9;
                                 n11 \<leftarrow> uboss_mq_release w queue h n10;
                                 Some (NULL, n11) } } } }"

section \<open>Dispatching\<close>

definition message_type :: "uboss_message \<Rightarrow> u32" where
  "message_type msg = ucast (drop_bit MESSAGE_TYPE_SHIFT (msg_sz msg))"

definition message_size :: "uboss_message \<Rightarrow> u64" where
  "message_size msg = msg_sz msg AND MESSAGE_TYPE_MASK"

definition dispatch_message :: "world \<Rightarrow> ptr \<Rightarrow> uboss_message \<Rightarrow> node \<Rightarrow>
    node option" where
  "dispatch_message w ctx msg n =
     do { c \<leftarrow> nd_ctx n ctx;
          guard (cx_init c);
          let n1 = n\<lparr>nd_key := cx_handle c\<rparr>;
          let type = message_type msg;
          let sz = message_size msg;
          n2 \<leftarrow> (if cx_logfile c \<noteq> NULL
                  then uboss_log_output (cx_logfile c) (msg_source msg) type (msg_session msg)
                         (msg_data msg) sz n1
                  else Some n1);
          n3 \<leftarrow> with_ctx ctx (\<lambda>c. c\<lparr>cx_message_count := cx_message_count c + 1\<rparr>) n2;
          c3 \<leftarrow> nd_ctx n3 ctx;
          (reserve_msg, n6) \<leftarrow>
            (if cx_profile c3 then
               do { n4 \<leftarrow> with_ctx ctx (\<lambda>c. c\<lparr>cx_cpu_start := w_thread_time w n3\<rparr>) n3;
                    (r, n5) \<leftarrow> w_cb w (cx_cb c3) ctx (cx_cb_ud c3) type (msg_session msg)
                                 (msg_source msg) (msg_data msg) sz n4;
                    n6 \<leftarrow> with_ctx ctx (\<lambda>c. c\<lparr>cx_cpu_cost :=
                             cx_cpu_cost c + (w_thread_time w n5 - cx_cpu_start c)\<rparr>) n5;
                    Some (r, n6) }
             else w_cb w (cx_cb c3) ctx (cx_cb_ud c3) type (msg_session msg) (msg_source msg)
                    (msg_data msg) sz n3);
          if reserve_msg = 0 then node_free (msg_data msg) n6 else Some n6 }"

partial_function (option) uboss_context_dispatchall ::
    "world \<Rightarrow> ptr \<Rightarrow> node \<Rightarrow> node option" where
  "uboss_context_dispatchall w ctx n =
     do { c \<leftarrow> nd_ctx n ctx;
          (r, n1) \<leftarrow> node_mq_pop (cx_queue c) n;
          case r of
            None \<Rightarrow> Some n1
          | Some msg \<Rightarrow> do { n2 \<leftarrow> dispatch_message w ctx msg n1;
                             uboss_context_dispatchall w ctx n2 } }"

text \<open>The body of the dispatch loop after a message was popped.\<close>

definition dispatch_one :: "world \<Rightarrow> ptr \<Rightarrow> ptr \<Rightarrow> u32 \<Rightarrow> uboss_message \<Rightarrow>
    uboss_monitor \<Rightarrow> node \<Rightarrow> (uboss_monitor \<times> node) option" where
  "dispatch_one w ctx q handle msg sm n =
     do { mq \<leftarrow> mq_heap (nd_mq n) q;
          let (overload, mq1) = uboss_mq_overload mq;
          let n1 = n\<lparr>nd_mq := mq_put q mq1 (nd_mq n)\<rparr>;
          n2 \<leftarrow> (if overload \<noteq> 0
                  then uboss_error w ctx (''May overload, message queue length = '' @
                         print_d (int overload)) n1
                  else Some n1);
          let sm1 = uboss_monitor_trigger (msg_source msg) handle sm;
          c \<leftarrow> nd_ctx n2 ctx;
          n3 \<leftarrow> (if cx_cb c = NULL then node_free (msg_data msg) n2
                  else dispatch_message w ctx msg n2);
          Some (uboss_monitor_trigger 0 0 sm1, n3) }"

text \<open>
  The rounds of the loop after the first one, \<open>k\<close> of them; the flag says whether the loop
  ran to its end (and not into an empty queue).
\<close>

fun dispatch_rest :: "world \<Rightarrow> ptr \<Rightarrow> ptr \<Rightarrow> u32 \<Rightarrow> nat \<Rightarrow>
    uboss_monitor \<Rightarrow> node \<Rightarrow> (bool \<times> uboss_monitor \<times> node) option" where
  "dispatch_rest w ctx q handle 0 sm n = Some (True, sm, n)"
| "dispatch_rest w ctx q handle (Suc k) sm n =
     do { (r, n1) \<leftarrow> node_mq_pop q n;
          case r of
            None \<Rightarrow> Some (False, sm, n1)
          | Some msg \<Rightarrow> do { (sm1, n2) \<leftarrow> dispatch_one w ctx q handle msg sm n1;
                             dispatch_rest w ctx q handle k sm1 n2 } }"

definition node_globalmq_pop :: "node \<Rightarrow> (ptr option \<times> node) option" where
  "node_globalmq_pop n =
     do { (r, S) \<leftarrow> uboss_globalmq_pop (nd_mq n); Some (r, n\<lparr>nd_mq := S\<rparr>) }"

definition dispatch_loop :: "world \<Rightarrow> ptr \<Rightarrow> ptr \<Rightarrow> u32 \<Rightarrow> int \<Rightarrow>
    uboss_monitor \<Rightarrow> node \<Rightarrow> (bool \<times> uboss_monitor \<times> node) option" where
  "dispatch_loop w ctx q handle weight sm n =
     do { (r, n1) \<leftarrow> node_mq_pop q n;
          case r of
            None \<Rightarrow> Some (False, sm, n1)
          | Some msg \<Rightarrow>
              do { mq \<leftarrow> mq_heap (nd_mq n1) q;
                   let rounds = (if weight \<ge> 0 then uboss_mq_length mq div 2 ^ nat weight else 1);
                   (sm1, n2) \<leftarrow> dispatch_one w ctx q handle msg sm n1;
                   dispatch_rest w ctx q handle (rounds - 1) sm1 n2 } }"

definition uboss_context_message_dispatch :: "world \<Rightarrow> ptr option \<Rightarrow> int \<Rightarrow>
    uboss_monitor \<Rightarrow> node \<Rightarrow> (ptr option \<times> uboss_monitor \<times> node) option" where
  "uboss_context_message_dispatch w q0 weight sm n =
     do { (got, n1) \<leftarrow> (case q0 of None \<Rightarrow> node_globalmq_pop n | Some q \<Rightarrow> Some (Some q, n));
          case got of
            None \<Rightarrow> Some (None, sm, n1)
          | Some q \<Rightarrow>
              do { mq \<leftarrow> mq_heap (nd_mq n1) q;
                   let handle = mq_handle mq;
                   (ctx, n2) \<leftarrow> uboss_handle_grab handle n1;
                   if ctx = NULL then
                     do { n3 \<leftarrow> uboss_mq_release w q handle n2;
                          (nq, n4) \<leftarrow> node_globalmq_pop n3;
                          Some (nq, sm, n4) }
                   else
                     do { (done, sm1, n3) \<leftarrow> dispatch_loop w ctx q handle weight sm n2;
                          if \<not> done then
                            do { (_, n4) \<leftarrow> uboss_context_release w ctx n3;
                                 (nq, n5) \<leftarrow> node_globalmq_pop n4;
                                 Some (nq, sm1, n5) }
                          else
                            do { c \<leftarrow> nd_ctx n3 ctx;
                                 guard (q = cx_queue c);
                                 (nq, n4) \<leftarrow> node_globalmq_pop n3;
                                 (next, n5) \<leftarrow>
                                   (case nq of
                                      Some p \<Rightarrow> do { n5 \<leftarrow> lift_mq (uboss_globalmq_push q) n4;
                                                     Some (p, n5) }
                                    | None \<Rightarrow> Some (q, n4));
                                 (_, n6) \<leftarrow> uboss_context_release w ctx n5;
                                 Some (Some next, sm1, n6) } } } }"

section \<open>Timeouts and the watchdog\<close>

definition uboss_timeout :: "world \<Rightarrow> u32 \<Rightarrow> i32 \<Rightarrow> i32 \<Rightarrow> node \<Rightarrow> (i32 \<times> node) option" where
  "uboss_timeout w handle time session n =
     (if sint time \<le> 0 then
        do { (r, n1) \<leftarrow> uboss_context_push w handle (timeout_message session) n;
             Some (if r \<noteq> 0 then - 1 else session, n1) }
      else Some (session, n\<lparr>nd_timer :=
             timer_add \<lparr>te_handle = handle, te_session = session\<rparr> time (nd_timer n)\<rparr>))"

fun push_all :: "world \<Rightarrow> (u32 \<times> uboss_message) list \<Rightarrow> node \<Rightarrow> node option" where
  "push_all w [] n = Some n"
| "push_all w ((h, m) # ms) n =
     do { (_, n1) \<leftarrow> uboss_context_push w h m n; push_all w ms n1 }"

definition node_timer_execute :: "world \<Rightarrow> node \<Rightarrow> node option" where
  "node_timer_execute w n =
     (let (out, T) = timer_execute (nd_timer n)
      in push_all w (dispatch_list out) (n\<lparr>nd_timer := T\<rparr>))"

definition node_timer_update :: "world \<Rightarrow> node \<Rightarrow> node option" where
  "node_timer_update w n =
     do { n1 \<leftarrow> node_timer_execute w n;
          T \<leftarrow> timer_shift (nd_timer n1);
          node_timer_execute w (n1\<lparr>nd_timer := T\<rparr>) }"

fun node_ticks :: "world \<Rightarrow> nat \<Rightarrow> node \<Rightarrow> node option" where
  "node_ticks w 0 n = Some n"
| "node_ticks w (Suc k) n = do { n1 \<leftarrow> node_timer_update w n; node_ticks w k n1 }"

definition node_updatetime :: "world \<Rightarrow> u64 \<Rightarrow> node \<Rightarrow> node option" where
  "node_updatetime w cp n =
     (let T = nd_timer n
      in if cp < tm_current_point T then
           do { n1 \<leftarrow> uboss_error w NULL (''time diff error: change from '' @
                       print_d (sint cp) @ '' to '' @ print_d (sint (tm_current_point T))) n;
                Some (n1\<lparr>nd_timer := (nd_timer n1)\<lparr>tm_current_point := cp\<rparr>\<rparr>) }
         else if cp \<noteq> tm_current_point T then
           (let diff = (ucast (cp - tm_current_point T) :: u32)
            in node_ticks w (unat diff) (n\<lparr>nd_timer :=
                 T\<lparr>tm_current_point := cp, tm_current := tm_current T + ucast diff\<rparr>\<rparr>))
         else Some n)"

definition uboss_monitor_check :: "world \<Rightarrow> uboss_monitor \<Rightarrow> node \<Rightarrow> (uboss_monitor \<times> node) option" where
  "uboss_monitor_check w um n =
     (let (stuck, um1) = monitor_check um
      in if stuck then
           do { n1 \<leftarrow> uboss_context_endless w (mo_destination um) n;
                n2 \<leftarrow> uboss_error w NULL (''A message from [ :'' @ print_08x (mo_source um) @
                        '' ] to [ :'' @ print_08x (mo_destination um) @
                        '' ] maybe in an endless loop (version = '' @
                        print_d (sint (mo_version um)) @ '')'') n1;
                Some (um1, n2) }
         else Some (um1, n))"

end
