(* ===== verification/ServerInv.thy ===== *)
theory ServerInv
  imports Server
begin

text \<open>
  The invariant of a node between two calls, and what the delivery functions of
  \<open>core/uboss_server.c\<close> do to a node that satisfies it.
\<close>

section \<open>The invariant\<close>

text \<open>
  Every context has its own live queue that carries its handle; a queue of a context is in
  the run queue only if its \<open>in_global\<close> flag is set; the handle table refers to live
  contexts; the run queue is the list \<open>qs\<close>.
\<close>

definition ctx_queue_ok :: "node \<Rightarrow> ptr list \<Rightarrow> uboss_context \<Rightarrow> bool" where
  "ctx_queue_ok n qs c \<longleftrightarrow> (\<exists>q. mq_heap (nd_mq n) (cx_queue c) = Some q \<and> \<not> mq_release q \<and>
     mq_handle q = cx_handle c \<and> (\<not> mq_in_global q \<longrightarrow> cx_queue c \<notin> set qs))"

definition node_inv :: "node \<Rightarrow> ptr list \<Rightarrow> bool" where
  "node_inv n qs \<longleftrightarrow> view_wf (hof n, nd_handles n) \<and> mqs_wf (nd_mq n) qs \<and>
     (\<forall>ctx c. nd_ctx n ctx = Some c \<longrightarrow> ctx \<noteq> NULL \<and> cx_ref c \<noteq> 0 \<and> ctx_queue_ok n qs c) \<and>
     (\<forall>a b ca cb. nd_ctx n a = Some ca \<longrightarrow> nd_ctx n b = Some cb \<longrightarrow>
        cx_queue ca = cx_queue cb \<longrightarrow> a = b) \<and>
     (\<forall>p. nd_brk n \<le> p \<longrightarrow> nd_mem n p = None \<and> nd_ctx n p = None) \<and>
     nd_mem n NULL = None \<and> 0 < nd_brk n"

lemma node_invD:
  assumes "node_inv n qs"
  shows "handle_wf (hof n) (nd_handles n)" "names_wf (nd_handles n)" "mqs_wf (nd_mq n) qs"
    "nd_ctx n ctx = Some c \<Longrightarrow> ctx \<noteq> NULL" "nd_ctx n ctx = Some c \<Longrightarrow> cx_ref c \<noteq> 0"
    "nd_ctx n ctx = Some c \<Longrightarrow> ctx_queue_ok n qs c"
    "nd_ctx n a = Some ca \<Longrightarrow> nd_ctx n b = Some cb \<Longrightarrow> cx_queue ca = cx_queue cb \<Longrightarrow> a = b"
    "nd_mem n (nd_brk n) = None" "nd_mem n NULL = None" "0 < nd_brk n"
    "nd_ctx n NULL = None"
  using assms unfolding node_inv_def view_wf_def by (auto, metis option.exhaust_sel)

lemma slot_live_inv: "node_inv n qs \<Longrightarrow> slot_live h n"
proof -
  assume inv: "node_inv n qs"
  have wf: "handle_wf (hof n) (nd_handles n)" using node_invD(1) [OF inv] .
  obtain k where k: "k \<le> 24" "hs_slot_size (nd_handles n) = 2 ^ k" "length (hs_slot (nd_handles n)) = 2 ^ k"
    using wf by (rule handle_wf_size)
  let ?i = "slot_hash h (hs_slot_size (nd_handles n))"
  have i: "?i < hs_slot_size (nd_handles n)" using k by (simp add: slot_hash_mod)
  have "nd_ctx n c \<noteq> None" if "hs_slot (nd_handles n) ! ?i = Some c" for c
    using wf i that by (auto simp: handle_wf_def hof_def)
  with i k show ?thesis by (auto simp: slot_live_def Let_def split: option.splits)
qed

text \<open>What a lookup in the table returns: a live context that carries the handle.\<close>

lemma lookup_ctx:
  assumes "node_inv n qs" "handle_lookup (hof n) h (nd_handles n) = Some ctx"
  obtains c where "nd_ctx n ctx = Some c" "cx_handle c = h"
  using assms handle_lookup_iff [OF node_invD(1) [OF assms(1)]] by (auto simp: hof_def)

section \<open>Grabbing and releasing around a use\<close>

lemma hof_upd_frame: "cx_handle c' = cx_handle c \<Longrightarrow> nd_ctx n ctx = Some c \<Longrightarrow>
    hof (n\<lparr>nd_ctx := (nd_ctx n)(ctx \<mapsto> c')\<rparr>) = hof n"
  by (auto simp: hof_def)

lemma with_ctx_Some:
  "nd_ctx n ctx = Some c \<Longrightarrow> with_ctx ctx f n = Some (n\<lparr>nd_ctx := (nd_ctx n)(ctx \<mapsto> f c)\<rparr>)"
  by (simp add: with_ctx_def)

lemma release_not_last:
  assumes "nd_ctx n ctx = Some c" "cx_ref c \<noteq> 1"
  shows "uboss_context_release w ctx n =
    Some (ctx, n\<lparr>nd_ctx := (nd_ctx n)(ctx \<mapsto> c\<lparr>cx_ref := cx_ref c - 1\<rparr>)\<rparr>)"
  using assms by (simp add: uboss_context_release_def with_ctx_Some)

lemma ref_plus_minus: "c\<lparr>cx_ref := cx_ref c + 1 - 1\<rparr> = c"
  by simp

lemma grab_found:
  assumes "node_inv n qs" "handle_lookup (hof n) h (nd_handles n) = Some ctx" "nd_ctx n ctx = Some c"
  shows "uboss_handle_grab h n =
    Some (ctx, n\<lparr>nd_ctx := (nd_ctx n)(ctx \<mapsto> c\<lparr>cx_ref := cx_ref c + 1\<rparr>)\<rparr>)"
  using assms slot_live_inv [OF assms(1), of h]
  by (simp add: uboss_handle_grab_def uboss_context_grab_def with_ctx_Some)

lemma grab_missing:
  assumes "node_inv n qs" "handle_lookup (hof n) h (nd_handles n) = None"
  shows "uboss_handle_grab h n = Some (NULL, n)"
  using assms slot_live_inv [OF assms(1), of h] by (simp add: uboss_handle_grab_def)

text \<open>Pushing to a queue of a context keeps the invariant.\<close>

lemma mq_heap_of_cores:
  "mq_cores S p = Some (mq_core q) \<Longrightarrow> \<exists>q'. mq_heap S p = Some q' \<and> mq_handle q' = mq_handle q \<and>
     mq_release q' = mq_release q \<and> mq_in_global q' = mq_in_global q \<and> mq_content q' = mq_content q"
  by (metis mq_core_simps(1-3,5) mq_cores_SomeD)

lemma push_keeps_inv:
  assumes inv: "node_inv n qs" and c: "nd_ctx n ctx = Some c"
  obtains S' q q' where "uboss_mq_push (cx_queue c) m (nd_mq n) = Some S'"
    "mq_heap (nd_mq n) (cx_queue c) = Some q"
    "mq_cores S' = (mq_cores (nd_mq n))(cx_queue c \<mapsto> mq_core q')"
    "mq_content q' = mq_content q @ [m]" "mq_in_global q'" "mq_handle q' = mq_handle q"
    "mq_release q' = mq_release q"
    "node_inv (n\<lparr>nd_mq := S'\<rparr>) (if mq_in_global q then qs else qs @ [cx_queue c])"
proof -
  note D = node_invD [OF inv]
  from D(6) [OF c] obtain q where q: "mq_heap (nd_mq n) (cx_queue c) = Some q" "\<not> mq_release q"
    "mq_handle q = cx_handle c" "\<not> mq_in_global q \<Longrightarrow> cx_queue c \<notin> set qs"
    by (auto simp: ctx_queue_ok_def)
  let ?qs = "if mq_in_global q then qs else qs @ [cx_queue c]"
  from uboss_mq_push_ok [OF D(3) q(1,4), of m] obtain S' q' where
    S': "uboss_mq_push (cx_queue c) m (nd_mq n) = Some S'" "mqs_wf S' ?qs"
      "mq_cores S' = (mq_cores (nd_mq n))(cx_queue c \<mapsto> mq_core q')"
      "mq_content q' = mq_content q @ [m]" "mq_in_global q'" "mq_handle q' = mq_handle q"
      "mq_release q' = mq_release q" by blast
  have "ctx_queue_ok (n\<lparr>nd_mq := S'\<rparr>) ?qs d" if d: "nd_ctx n e = Some d" for e d
  proof (cases "e = ctx")
    case True
    with d c have "d = c" by simp
    moreover obtain q2 where "mq_heap S' (cx_queue c) = Some q2" "mq_handle q2 = mq_handle q'"
      "mq_release q2 = mq_release q'" "mq_in_global q2 = mq_in_global q'"
      using mq_heap_of_cores [of S' "cx_queue c" q'] S'(3) by auto
    ultimately show ?thesis using S' q by (auto simp: ctx_queue_ok_def)
  next
    case False
    then have ne: "cx_queue d \<noteq> cx_queue c" using D(7) [OF d c] by blast
    from D(6) [OF d] obtain p where p: "mq_heap (nd_mq n) (cx_queue d) = Some p" "\<not> mq_release p"
      "mq_handle p = cx_handle d" "\<not> mq_in_global p \<Longrightarrow> cx_queue d \<notin> set qs"
      by (auto simp: ctx_queue_ok_def)
    have "mq_cores S' (cx_queue d) = Some (mq_core p)" using S'(3) ne p(1) by (simp add: mq_cores_def)
    then obtain p2 where "mq_heap S' (cx_queue d) = Some p2" "mq_handle p2 = mq_handle p"
      "mq_release p2 = mq_release p" "mq_in_global p2 = mq_in_global p"
      using mq_heap_of_cores by blast
    with p ne show ?thesis by (auto simp: ctx_queue_ok_def)
  qed
  moreover have "hof (n\<lparr>nd_mq := S'\<rparr>) = hof n" by (simp add: hof_def)
  ultimately have "node_inv (n\<lparr>nd_mq := S'\<rparr>) ?qs"
    using inv S'(2) unfolding node_inv_def by simp
  with that [OF S'(1) q(1) S'(3-7)] show thesis by blast
qed

lemma node_inv_ref:
  assumes "node_inv n qs" "nd_ctx n ctx = Some c" "r \<noteq> 0"
  shows "node_inv (n\<lparr>nd_ctx := (nd_ctx n)(ctx \<mapsto> c\<lparr>cx_ref := r\<rparr>)\<rparr>) qs"
proof -
  let ?n = "n\<lparr>nd_ctx := (nd_ctx n)(ctx \<mapsto> c\<lparr>cx_ref := r\<rparr>)\<rparr>"
  have "hof ?n = hof n" using assms(2) by (auto simp: hof_def)
  moreover have "ctx_queue_ok ?n qs d = ctx_queue_ok n qs d" for d by (simp add: ctx_queue_ok_def)
  moreover have "ctx_queue_ok n qs (c\<lparr>cx_ref := r\<rparr>) = ctx_queue_ok n qs c"
    by (simp add: ctx_queue_ok_def)
  ultimately show ?thesis using assms unfolding node_inv_def by auto
qed

text \<open>Delivery to a registered service: only its queue and the run queue change.\<close>

lemma context_push_found:
  assumes inv: "node_inv n qs" and look: "handle_lookup (hof n) h (nd_handles n) = Some ctx"
    and c: "nd_ctx n ctx = Some c" and ref: "cx_ref c \<noteq> - 1"
  obtains S' q q' where "uboss_context_push w h m n = Some (0, n\<lparr>nd_mq := S'\<rparr>)"
    "mq_heap (nd_mq n) (cx_queue c) = Some q"
    "mq_cores S' = (mq_cores (nd_mq n))(cx_queue c \<mapsto> mq_core q')"
    "mq_content q' = mq_content q @ [m]" "mq_handle q' = mq_handle q" "mq_release q' = mq_release q"
    "mq_in_global q'"
    "node_inv (n\<lparr>nd_mq := S'\<rparr>) (if mq_in_global q then qs else qs @ [cx_queue c])"
proof -
  let ?c = "c\<lparr>cx_ref := cx_ref c + 1\<rparr>"
  let ?n1 = "n\<lparr>nd_ctx := (nd_ctx n)(ctx \<mapsto> ?c)\<rparr>"
  have r: "cx_ref c + 1 \<noteq> 0" using ref by (metis add_eq_0_iff2)
  have "node_inv ?n1 qs" using node_inv_ref [OF inv c r] .
  moreover have "nd_ctx ?n1 ctx = Some ?c" by simp
  ultimately obtain S' q q' where S': "uboss_mq_push (cx_queue ?c) m (nd_mq ?n1) = Some S'"
    "mq_heap (nd_mq ?n1) (cx_queue ?c) = Some q"
    "mq_cores S' = (mq_cores (nd_mq ?n1))(cx_queue ?c \<mapsto> mq_core q')"
    "mq_content q' = mq_content q @ [m]" "mq_in_global q'" "mq_handle q' = mq_handle q"
    "mq_release q' = mq_release q"
    "node_inv (?n1\<lparr>nd_mq := S'\<rparr>) (if mq_in_global q then qs else qs @ [cx_queue ?c])"
    by (rule push_keeps_inv)
  let ?n2 = "?n1\<lparr>nd_mq := S'\<rparr>"
  have one: "cx_ref ?c \<noteq> 1" using node_invD(5) [OF inv c] by simp
  have restored: "?n2\<lparr>nd_ctx := (nd_ctx ?n2)(ctx \<mapsto> ?c\<lparr>cx_ref := cx_ref ?c - 1\<rparr>)\<rparr> = n\<lparr>nd_mq := S'\<rparr>"
    using c by (simp add: fun_upd_idem)
  have rel: "uboss_context_release w ctx ?n2 = Some (ctx, n\<lparr>nd_mq := S'\<rparr>)"
    using release_not_last [of ?n2 ctx ?c w] one restored by simp
  have push: "uboss_context_push w h m n = Some (0, n\<lparr>nd_mq := S'\<rparr>)"
    unfolding uboss_context_push_def grab_found [OF inv look c]
    using node_invD(4) [OF inv c] S'(1) rel by (simp add: lift_mq_def)
  have "node_inv (n\<lparr>nd_mq := S'\<rparr>) (if mq_in_global q then qs else qs @ [cx_queue c])"
    using node_inv_ref [of ?n2 _ ctx ?c "cx_ref c"] S'(8) restored node_invD(5) [OF inv c] by (cases "mq_in_global q") simp_all
  with that [OF push] S' show thesis by simp
qed

lemma context_push_missing:
  assumes "node_inv n qs" "handle_lookup (hof n) h (nd_handles n) = None"
  shows "uboss_context_push w h m n = Some (- 1, n)"
  by (simp add: uboss_context_push_def grab_missing [OF assms])

section \<open>Type and size share one word\<close>

lemma type_mask: "MESSAGE_TYPE_MASK = mask 56"
  by (rule bit_eqI) (auto simp: MESSAGE_TYPE_MASK_def bit_drop_bit_eq bit_mask_iff bit_minus_1_iff)

lemma word_parts:
  fixes t :: u32 and sz :: u64
  assumes "sz AND MESSAGE_TYPE_MASK = sz"
  defines "s \<equiv> sz OR push_bit MESSAGE_TYPE_SHIFT (ucast (t AND 0xff))"
  shows "ucast (drop_bit MESSAGE_TYPE_SHIFT s) = t AND 0xff" "s AND MESSAGE_TYPE_MASK = sz"
proof -
  have ff: "(0xff :: u32) = mask 8" by (simp add: mask_eq_exp_minus_1)
  have sz: "bit sz i \<Longrightarrow> i < 56" for i
    using assms(1) by (metis bit_and_iff bit_mask_iff type_mask)
  show "ucast (drop_bit MESSAGE_TYPE_SHIFT s) = t AND 0xff"
  proof (rule bit_eqI)
    fix i
    assume "possible_bit TYPE(32 word) i"
    then show "bit (ucast (drop_bit MESSAGE_TYPE_SHIFT s) :: u32) i = bit (t AND 0xff) i"
      using sz [of "56 + i"]
      by (auto simp: s_def MESSAGE_TYPE_SHIFT_def ff bit_simps possible_bit_def)
  qed
  show "s AND MESSAGE_TYPE_MASK = sz"
  proof (rule bit_eqI)
    fix i
    assume "possible_bit TYPE(64 word) i"
    then show "bit (s AND MESSAGE_TYPE_MASK) i = bit sz i"
      using sz [of i]
      by (auto simp: s_def MESSAGE_TYPE_SHIFT_def type_mask bit_simps)
  qed
qed

section \<open>Memory\<close>

lemma node_inv_mem:
  assumes "node_inv n qs" "brk \<ge> nd_brk n" "mem NULL = None" "\<forall>p \<ge> brk. mem p = None"
  shows "node_inv (n\<lparr>nd_mem := mem, nd_brk := brk\<rparr>) qs"
proof -
  let ?n = "n\<lparr>nd_mem := mem, nd_brk := brk\<rparr>"
  have "hof ?n = hof n" "ctx_queue_ok ?n qs d = ctx_queue_ok n qs d" for d
    by (simp_all add: hof_def ctx_queue_ok_def)
  then show ?thesis using assms unfolding node_inv_def by auto
qed

lemma node_inv_malloc:
  assumes "node_inv n qs" "node_malloc v n = (p, n')"
  shows "node_inv n' qs" "nd_mem n p = None" "nd_mem n' = (nd_mem n)(p \<mapsto> v)" "p \<noteq> NULL"
    "hof n' = hof n" "nd_handles n' = nd_handles n" "nd_ctx n' = nd_ctx n" "nd_mq n' = nd_mq n"
    "nd_HARBOR n' = nd_HARBOR n" "n' = n\<lparr>nd_mem := (nd_mem n)(p \<mapsto> v), nd_brk := Suc (nd_brk n)\<rparr>"
proof -
  have p: "p = nd_brk n" and n': "n' = n\<lparr>nd_mem := (nd_mem n)(p \<mapsto> v), nd_brk := Suc (nd_brk n)\<rparr>"
    using assms(2) by (auto simp: node_malloc_def)
  show "node_inv n' qs" unfolding n'
    using assms(1) p by (intro node_inv_mem) (auto simp: node_inv_def)
  show "nd_mem n p = None" "p \<noteq> NULL" using node_invD(8,10) [OF assms(1)] p by auto
  show "n' = n\<lparr>nd_mem := (nd_mem n)(p \<mapsto> v), nd_brk := Suc (nd_brk n)\<rparr>" by (rule n')
qed (use assms(2) in \<open>auto simp: node_malloc_def hof_def\<close>)

section \<open>Sending to a local service\<close>

lemma filter_args_copy:
  assumes "node_inv n qs" "type AND PTYPE_TAG_ALLOCSESSION = 0" "type AND PTYPE_TAG_DONTCOPY = 0"
    "nd_mem n data = Some (Bytes bs)" "unat sz \<le> length bs"
    "node_malloc (Bytes (take (unat sz) bs @ [NUL])) n = (p, n1)"
  shows "filter_args context type session data sz n =
    Some (session, p, sz OR push_bit MESSAGE_TYPE_SHIFT (ucast (type AND 0xff)), n1)"
proof -
  have "data \<noteq> NULL" using assms(4) node_invD(9) [OF assms(1)] by (cases data) auto
  then show ?thesis using assms(2-6) by (simp add: filter_args_def)
qed

lemma filter_args_keep:
  assumes "type AND PTYPE_TAG_ALLOCSESSION = 0" "type AND PTYPE_TAG_DONTCOPY \<noteq> 0 \<or> data = NULL"
  shows "filter_args context type session data sz n =
    Some (session, data, sz OR push_bit MESSAGE_TYPE_SHIFT (ucast (type AND 0xff)), n)"
  using assms by (auto simp: filter_args_def)

lemma isremote_frame:
  "nd_HARBOR n' = nd_HARBOR n \<Longrightarrow>
    uboss_harbor_message_isremote h n' = uboss_harbor_message_isremote h n"
  by (simp add: uboss_harbor_message_isremote_def)

text \<open>After the arguments are prepared, sending to a local address is a push.\<close>

lemma uboss_send_local:
  assumes "sz AND MESSAGE_TYPE_MASK = sz" "filter_args context type session data sz n = Some (s1, d1, z1, n1)"
    "source \<noteq> 0" "destination \<noteq> 0" "uboss_harbor_message_isremote destination n1 = Some False"
  shows "uboss_send w context source destination type session data sz n =
    do { (r, n2) \<leftarrow> uboss_context_push w destination
           \<lparr>msg_source = source, msg_session = s1, msg_data = d1, msg_sz = z1\<rparr> n1;
         if r \<noteq> 0 then do { n3 \<leftarrow> node_free d1 n2; Some (- 1, n3) } else Some (s1, n2) }"
  using assms by (simp add: uboss_send_def)

section \<open>Properties of delivery\<close>

text \<open>C21. A message to a registered local service is delivered: \<open>uboss_send\<close> returns the
  session, the service's queue grows by exactly one message at its end, with the sender, the
  session, the type and the size given and a fresh zero-terminated copy of the payload, and
  no other queue and no context changes.\<close>

theorem send_local_delivers:
  assumes "node_inv n qs" and "handle_lookup (hof n) destination (nd_handles n) = Some ctx"
    and "nd_ctx n ctx = Some c" and "cx_ref c \<noteq> - 1"
    and "source \<noteq> 0" and "destination \<noteq> 0"
    and "uboss_harbor_message_isremote destination n = Some False"
    and "type AND PTYPE_TAG_ALLOCSESSION = 0" and "type AND PTYPE_TAG_DONTCOPY = 0"
    and "nd_mem n data = Some (Bytes bs)" and "unat sz \<le> length bs" and "sz AND MESSAGE_TYPE_MASK = sz"
  shows "\<exists>n' qs' q q' m. uboss_send w context source destination type session data sz n = Some (session, n') \<and>
    node_inv n' qs' \<and> mq_heap (nd_mq n) (cx_queue c) = Some q \<and> mq_heap (nd_mq n') (cx_queue c) = Some q' \<and>
    mq_content q' = mq_content q @ [m] \<and> mq_in_global q' \<and>
    msg_source m = source \<and> msg_session m = session \<and>
    message_type m = type AND 0xff \<and> message_size m = sz \<and>
    nd_mem n (msg_data m) = None \<and>
    nd_mem n' = (nd_mem n)(msg_data m \<mapsto> Bytes (take (unat sz) bs @ [NUL])) \<and>
    nd_ctx n' = nd_ctx n \<and>
    (\<forall>p. p \<noteq> cx_queue c \<longrightarrow> mq_cores (nd_mq n') p = mq_cores (nd_mq n) p)"
proof -
  obtain p n1 where p: "node_malloc (Bytes (take (unat sz) bs @ [NUL])) n = (p, n1)" by fastforce
  note mal = node_inv_malloc [OF assms(1) p]
  note args = filter_args_copy [OF assms(1,8,9,10,11) p, of "context" session]
  let ?z = "sz OR push_bit MESSAGE_TYPE_SHIFT (ucast (type AND 0xff))"
  let ?m = "\<lparr>msg_source = source, msg_session = session, msg_data = p, msg_sz = ?z\<rparr>"
  have c1: "handle_lookup (hof n1) destination (nd_handles n1) = Some ctx" "nd_ctx n1 ctx = Some c"
    using assms(2,3) mal by simp_all
  obtain S' q q' where S': "uboss_context_push w destination ?m n1 = Some (0, n1\<lparr>nd_mq := S'\<rparr>)"
    "mq_heap (nd_mq n1) (cx_queue c) = Some q"
    "mq_cores S' = (mq_cores (nd_mq n1))(cx_queue c \<mapsto> mq_core q')"
    "mq_content q' = mq_content q @ [?m]" "mq_in_global q'"
    "node_inv (n1\<lparr>nd_mq := S'\<rparr>) (if mq_in_global q then qs else qs @ [cx_queue c])"
    by (rule context_push_found [OF mal(1) c1 assms(4)]) blast
  obtain q2 where "mq_heap S' (cx_queue c) = Some q2" "mq_content q2 = mq_content q'"
    "mq_in_global q2 = mq_in_global q'"
    using mq_heap_of_cores [of S' "cx_queue c" q'] S'(3) by auto
  moreover have "uboss_send w context source destination type session data sz n =
      Some (session, n1\<lparr>nd_mq := S'\<rparr>)"
    using uboss_send_local [OF assms(12) args assms(5,6)] S'(1) assms(7) isremote_frame [OF mal(9)]
    by simp
  moreover have "message_type ?m = type AND 0xff" "message_size ?m = sz"
    using word_parts [OF assms(12), of type] by (simp_all add: message_type_def message_size_def)
  ultimately show ?thesis
    using S'(2-6) mal by (intro exI [of _ "n1\<lparr>nd_mq := S'\<rparr>"] exI [of _ q] exI [of _ q2] exI [of _ ?m]
        exI [of _ "if mq_in_global q then qs else qs @ [cx_queue c]"]) auto
qed

text \<open>C40. A message to an address that no service has is refused with \<open>-1\<close> and leaks nothing:
  the copy that was made, or the payload that was handed over with \<open>PTYPE_TAG_DONTCOPY\<close>, is
  freed again and the node is otherwise unchanged.\<close>

theorem send_dead_leaks_nothing:
  assumes "node_inv n qs" and "handle_lookup (hof n) destination (nd_handles n) = None"
    and "source \<noteq> 0" and "destination \<noteq> 0"
    and "uboss_harbor_message_isremote destination n = Some False"
    and "type AND PTYPE_TAG_ALLOCSESSION = 0"
    and "nd_mem n data = Some (Bytes bs)" and "unat sz \<le> length bs" and "sz AND MESSAGE_TYPE_MASK = sz"
  shows "\<exists>n'. uboss_send w context source destination type session data sz n = Some (- 1, n') \<and>
    nd_mem n' = (if type AND PTYPE_TAG_DONTCOPY = 0 then nd_mem n else (nd_mem n)(data := None)) \<and>
    nd_ctx n' = nd_ctx n \<and> nd_mq n' = nd_mq n"
proof (cases "type AND PTYPE_TAG_DONTCOPY = 0")
  case True
  obtain p n1 where p: "node_malloc (Bytes (take (unat sz) bs @ [NUL])) n = (p, n1)" by fastforce
  note mal = node_inv_malloc [OF assms(1) p]
  note args = filter_args_copy [OF assms(1,6) True assms(7,8) p, of "context" session]
  have "handle_lookup (hof n1) destination (nd_handles n1) = None" using assms(2) mal by simp
  note push = context_push_missing [OF mal(1) this]
  have "(nd_mem n1)(p := None) = nd_mem n" using mal(2,3) by (auto simp: fun_upd_idem)
  then show ?thesis
    using uboss_send_local [OF assms(9) args assms(3,4)] push assms(5) isremote_frame [OF mal(9)]
      mal(3,4,7,8) True
    by (simp add: node_free_def)
next
  case False
  have ne: "data \<noteq> NULL" using assms(7) node_invD(9) [OF assms(1)] by (cases data) auto
  have "filter_args context type session data sz n =
      Some (session, data, sz OR push_bit MESSAGE_TYPE_SHIFT (ucast (type AND 0xff)), n)"
    using assms(6) False by (intro filter_args_keep) simp_all
  from uboss_send_local [OF assms(9) this assms(3,4,5)] context_push_missing [OF assms(1,2)] False ne
    assms(7) show ?thesis by (simp add: node_free_def)
qed

end
