(* ===== verification/ServerProps.thy ===== *)
theory ServerProps
  imports ServerInv
begin

text \<open>
  Further properties of \<open>core/uboss_server.c\<close> and \<open>core/uboss_harbor.c\<close>: sessions, reference
  counts, dropping the queue of a dead service, local and remote addresses; and a small
  concrete node on which the theorems are applied.
\<close>

section \<open>A concrete node\<close>

definition sample_ctx :: uboss_context where
  "sample_ctx =
     \<lparr>cx_instance = 7, cx_mod = 0, cx_cb_ud = 0, cx_cb = 0, cx_queue = 1, cx_logfile = 0,
      cx_cpu_cost = 0, cx_cpu_start = 0, cx_result = [], cx_handle = 0x1000001,
      cx_session_id = 0, cx_ref = 1, cx_message_count = 0, cx_init = True,
      cx_endless = False, cx_profile = False\<rparr>"

definition sample_mods :: modules where
  "sample_mods = (uboss_module_init ''./?.so'')\<lparr>ms_count := 1, ms_m := Some
     \<lparr>um_name = ''logger'', um_module = 1, um_create = 0, um_init = 2, um_release = 0, um_signal = 0\<rparr>
     # replicate 31 None\<rparr>"

definition sample_node :: node where
  "sample_node =
     \<lparr>nd_ctx = [1 \<mapsto> sample_ctx], nd_mq = snd (uboss_mq_create 0x1000001 uboss_mq_init),
      nd_handles = (uboss_handle_init 1)\<lparr>hs_slot := [None, Some 1, None, None], hs_handle_index := 2\<rparr>,
      nd_timer = timer_create_timer, nd_mods = sample_mods, nd_env = Map.empty,
      nd_mem = [2 \<mapsto> Bytes ''hello''], nd_files = Map.empty, nd_brk = 3,
      nd_G = \<lparr>gn_total = 1, gn_init = True, gn_monitor_exit = 0\<rparr>, nd_key = 0,
      nd_HARBOR = 0x1000000, nd_REMOTE = 0, nd_logger = 0\<rparr>"

definition idle_world :: world where
  "idle_world =
     \<lparr>w_dlopen = (\<lambda>_. 1), w_dlsym = (\<lambda>_ _. 2), w_create = (\<lambda>_ n. Some (7, n)),
      w_init = (\<lambda>_ _ _ _ n. Some (0, n)), w_release = (\<lambda>_ _ n. Some n), w_signal = (\<lambda>_ _ _ n. Some n),
      w_cb = (\<lambda>_ _ _ _ _ _ _ _ n. Some (0, n)), w_raw = (\<lambda>_. sample_ctx), w_thread_time = (\<lambda>_. 0),
      w_fopen = (\<lambda>_ _. True), w_ctime = (\<lambda>_. [])\<rparr>"

lemma sample_hof: "hof sample_node = [1 \<mapsto> 0x1000001]"
  by (auto simp: hof_def sample_node_def sample_ctx_def)

lemma sample_handle_wf: "handle_wf (hof sample_node) (nd_handles sample_node)"
proof -
  have "\<exists>h. [1::ptr \<mapsto> (0x1000001 :: u32)] c = Some h \<and> unat h mod 4 = i"
    if "i < 4" "[None, Some 1, None, None] ! i = Some c" for i c
  proof -
    have "i = 0 \<or> i = 1 \<or> i = 2 \<or> i = 3" using that(1) by auto
    with that(2) have "i = 1" "c = 1" by (auto simp: nth_Cons' split: if_splits)
    then show ?thesis by simp
  qed
  moreover have "\<exists>k. 2 \<le> k \<and> k \<le> 24 \<and> (4::nat) = 2 ^ k" by (intro exI [of _ 2]) simp
  ultimately show ?thesis unfolding sample_hof
    by (simp add: handle_wf_def sample_node_def uboss_handle_init_def DEFAULT_SLOT_SIZE_def
        HANDLE_REMOTE_SHIFT_def HANDLE_MASK_def)
qed

lemma sample_names_wf: "names_wf (nd_handles sample_node)"
  by (simp add: names_wf_def sample_node_def uboss_handle_init_def hs_names_def)

lemma sample_mqs_wf: "mqs_wf (nd_mq sample_node) []"
proof -
  have "nd_mq sample_node = snd (uboss_mq_create 0x1000001 uboss_mq_init)"
    by (simp add: sample_node_def)
  moreover have "mqs_wf (snd (uboss_mq_create 0x1000001 uboss_mq_init)) []"
    using uboss_mq_create_ok(1) [OF mqs_wf_init, of "0x1000001"] by (metis prod.collapse)
  ultimately show ?thesis by simp
qed

lemma sample_queue: "mq_heap (nd_mq sample_node) 1 = Some (mq_new 0x1000001)"
  by (simp add: sample_node_def uboss_mq_create_def uboss_mq_init_def)

lemma sample_ctx_at: "nd_ctx sample_node 1 = Some sample_ctx" "nd_ctx sample_node c = None \<longleftrightarrow> c \<noteq> 1"
  by (auto simp: sample_node_def)

lemma sample_node_inv: "node_inv sample_node []"
proof -
  have "ctx_queue_ok sample_node [] sample_ctx"
    using sample_queue by (simp add: ctx_queue_ok_def sample_ctx_def) (simp add: mq_new_def)
  then show ?thesis
    using sample_handle_wf sample_names_wf sample_mqs_wf unfolding node_inv_def view_wf_def
    by (auto simp: sample_node_def sample_ctx_def)
qed

lemma sample_lookup: "handle_lookup (hof sample_node) 0x1000001 (nd_handles sample_node) = Some 1"
  using handle_lookup_iff [OF sample_handle_wf] unfolding sample_hof by (simp add: sample_node_def)

lemma sample_lookup_none: "handle_lookup (hof sample_node) 0x1000009 (nd_handles sample_node) = None"
proof (cases "handle_lookup (hof sample_node) 0x1000009 (nd_handles sample_node)")
  case (Some c)
  then have "hof sample_node c = Some 0x1000009" using handle_lookup_iff [OF sample_handle_wf] by blast
  then show ?thesis unfolding sample_hof by (simp split: if_splits)
qed simp

lemma sample_local: "uboss_harbor_message_isremote 0x1000001 sample_node = Some False"
  "uboss_harbor_message_isremote 0x1000009 sample_node = Some False"
  by (simp_all add: uboss_harbor_message_isremote_def sample_node_def HANDLE_MASK_def)

lemma sample_size: "(5::u64) AND MESSAGE_TYPE_MASK = 5"
  by (simp add: type_mask mask_eq_exp_minus_1)

theorem send_local_delivers_witness:
  "\<exists>n' q'. uboss_send idle_world 0 9 0x1000001 3 4 2 5 sample_node = Some (4, n') \<and>
    mq_heap (nd_mq n') 1 = Some q' \<and> map msg_source (mq_content q') = [9]"
proof -
  have *: "cx_ref sample_ctx \<noteq> - 1" "(9::u32) \<noteq> 0" "(0x1000001::u32) \<noteq> 0"
    "(3::u32) AND PTYPE_TAG_ALLOCSESSION = 0" "(3::u32) AND PTYPE_TAG_DONTCOPY = 0"
    "nd_mem sample_node 2 = Some (Bytes ''hello'')" "unat (5::u64) \<le> length ''hello''"
    by (simp_all add: sample_ctx_def PTYPE_TAG_ALLOCSESSION_def PTYPE_TAG_DONTCOPY_def sample_node_def)
  from send_local_delivers [OF sample_node_inv sample_lookup sample_ctx_at(1) *(1-3) sample_local(1)
      *(4-7) sample_size, of idle_world 0 4] sample_queue
  show ?thesis by (auto simp: sample_ctx_def)
qed

theorem send_dead_leaks_nothing_witness:
  "\<exists>n'. uboss_send idle_world 0 9 0x1000009 3 4 2 5 sample_node = Some (- 1, n') \<and>
    nd_mem n' = nd_mem sample_node"
proof -
  have *: "(9::u32) \<noteq> 0" "(0x1000009::u32) \<noteq> 0"
    "(3::u32) AND PTYPE_TAG_ALLOCSESSION = 0" "(3::u32) AND PTYPE_TAG_DONTCOPY = 0"
    "nd_mem sample_node 2 = Some (Bytes ''hello'')" "unat (5::u64) \<le> length ''hello''"
    by (simp_all add: PTYPE_TAG_ALLOCSESSION_def PTYPE_TAG_DONTCOPY_def sample_node_def)
  from send_dead_leaks_nothing [OF sample_node_inv sample_lookup_none *(1,2) sample_local(2)
      *(3,5,6) sample_size, of idle_world 0 4] *(4) show ?thesis by auto
qed

section \<open>Sessions\<close>

text \<open>A session number is always a positive 32-bit integer: it is the successor of the
  last one, or 1 when the counter would leave the positive range; so two successive
  sessions of a context differ.\<close>

theorem newsession_positive:
  assumes "nd_ctx n ctx = Some c"
  shows "\<exists>s n'. uboss_context_newsession ctx n = Some (s, n') \<and> 0 < sint s \<and>
    s \<noteq> cx_session_id c \<and>
    (s = cx_session_id c + 1 \<or> s = 1 \<and> sint (cx_session_id c + 1) \<le> 0) \<and>
    nd_ctx n' = (nd_ctx n)(ctx \<mapsto> c\<lparr>cx_session_id := s\<rparr>)"
proof -
  have "(1 :: u32) \<noteq> x" if "sint (x + 1) \<le> 0" for x :: u32 using that by auto
  then show ?thesis
    using assms by (auto simp: uboss_context_newsession_def Let_def with_ctx_Some)
qed

theorem newsession_positive_witness:
  "\<exists>s n'. uboss_context_newsession 1 sample_node = Some (s, n') \<and> 0 < sint s"
  using newsession_positive [OF sample_ctx_at(1)] by blast

section \<open>Reference counts\<close>

lemma release_world:
  assumes "\<And>f k m. \<exists>m'. w_release w f k m = Some m' \<and>
      nd_ctx m' = nd_ctx m \<and> nd_mq m' = nd_mq m \<and> nd_G m' = nd_G m"
    and "mod_at i n \<noteq> None"
  shows "\<exists>m. uboss_module_instance_release w i k (n\<lparr>nd_ctx := C\<rparr>) = Some m \<and> nd_ctx m = C \<and>
    nd_mq m = nd_mq n \<and> nd_G m = nd_G n"
proof -
  obtain md where "mod_at i n = Some md" using assms(2) by blast
  then have md: "mod_at i (n\<lparr>nd_ctx := C\<rparr>) = Some md" by (simp add: mod_at_def split: if_splits)
  from assms(1) [of "um_release md" k "n\<lparr>nd_ctx := C\<rparr>"] show ?thesis
    by (cases "um_release md = NULL") (auto simp: uboss_module_instance_release_def md)
qed

text \<open>Releasing a reference: as long as others are left only the counter changes; the last
  one deletes the context, takes it from the total and marks its queue for release, and the
  queue is then in the run queue or in the hands of a worker, so that a worker will drop it.
  The module's own release function may do anything but touch the context table and the
  queues.\<close>

theorem release_deletes_on_last:
  assumes "node_inv n qs" and "nd_ctx n ctx = Some c"
    and "\<And>f k m. \<exists>m'. w_release w f k m = Some m' \<and>
      nd_ctx m' = nd_ctx m \<and> nd_mq m' = nd_mq m \<and> nd_G m' = nd_G m"
    and "mod_at (cx_mod c) n \<noteq> None" and "cx_logfile c = NULL"
  shows "\<exists>r n'. uboss_context_release w ctx n = Some (r, n') \<and>
    (if cx_ref c = 1
     then r = NULL \<and> nd_ctx n' = (nd_ctx n)(ctx := None) \<and>
       gn_total (nd_G n') = gn_total (nd_G n) - 1 \<and>
       (\<exists>q'. mq_heap (nd_mq n') (cx_queue c) = Some q' \<and> mq_release q' \<and>
          (mq_in_global q' \<or> cx_queue c \<in> set (gq_content (nd_mq n'))))
     else r = ctx \<and> n' = n\<lparr>nd_ctx := (nd_ctx n)(ctx \<mapsto> c\<lparr>cx_ref := cx_ref c - 1\<rparr>)\<rparr>)"
proof (cases "cx_ref c = 1")
  case False
  with release_not_last [OF assms(2) False, of w] show ?thesis by simp
next
  case True
  let ?c = "c\<lparr>cx_ref := 0\<rparr>"
  let ?n1 = "n\<lparr>nd_ctx := (nd_ctx n)(ctx \<mapsto> ?c)\<rparr>"
  obtain m where m: "uboss_module_instance_release w (cx_mod c) (cx_instance c) ?n1 = Some m"
    "nd_ctx m = nd_ctx ?n1" "nd_mq m = nd_mq n" "nd_G m = nd_G n"
    using release_world [OF assms(3,4), of "cx_instance c" "nd_ctx ?n1"] by auto
  from node_invD(6) [OF assms(1,2)] obtain q where
    q: "mq_heap (nd_mq n) (cx_queue c) = Some q" "\<not> mq_release q"
      "\<not> mq_in_global q \<Longrightarrow> cx_queue c \<notin> set qs" by (auto simp: ctx_queue_ok_def)
  let ?qs = "if mq_in_global q then qs else qs @ [cx_queue c]"
  obtain S' where S': "uboss_mq_mark_release (cx_queue c) (nd_mq n) = Some S'" "mqs_wf S' ?qs"
    "mq_cores S' = (mq_cores (nd_mq n))(cx_queue c \<mapsto> mq_core (q\<lparr>mq_release := True\<rparr>))"
    using uboss_mq_mark_release_ok [OF node_invD(3) [OF assms(1)] q] by blast
  obtain q' where q': "mq_heap S' (cx_queue c) = Some q'" "mq_release q'" "mq_in_global q' = mq_in_global q"
    using mq_heap_of_cores [of S' "cx_queue c" "q\<lparr>mq_release := True\<rparr>"] S'(3) by auto
  have "gq_content S' = ?qs" using S'(2) gq_content_eq by (simp add: mqs_wf_def)
  then have sched: "mq_in_global q' \<or> cx_queue c \<in> set (gq_content S')" using q' by auto
  have "uboss_context_release w ctx n = Some (NULL,
      context_dec (m\<lparr>nd_mq := S', nd_ctx := (nd_ctx n)(ctx := None)\<rparr>))"
    using assms(2,5) True m S'(1)
    by (simp add: uboss_context_release_def with_ctx_Some delete_context_def lift_mq_def)
  with True q' sched m(4) show ?thesis by (auto simp: context_dec_def)
qed

theorem release_deletes_on_last_witness:
  "\<exists>n'. uboss_context_release idle_world 1 sample_node = Some (NULL, n') \<and> nd_ctx n' 1 = None"
proof -
  have *: "\<And>f k m. \<exists>m'. w_release idle_world f k m = Some m' \<and>
      nd_ctx m' = nd_ctx m \<and> nd_mq m' = nd_mq m \<and> nd_G m' = nd_G m"
    by (simp add: idle_world_def)
  have "mod_at (cx_mod sample_ctx) sample_node \<noteq> None" "cx_logfile sample_ctx = NULL" "cx_ref sample_ctx = 1"
    by (simp_all add: mod_at_def sample_ctx_def sample_node_def sample_mods_def)
  with release_deletes_on_last [OF sample_node_inv sample_ctx_at(1) *] show ?thesis by auto
qed

section \<open>Local and remote addresses\<close>

text \<open>With the handle table and the harbor initialised with the same number below 256, every handle that the table gives out on this node is local for
  \<open>uboss_harbor_message_isremote\<close>, and a handle with another non-zero harbor prefix is remote.\<close>

theorem registered_handles_are_local:
  assumes "unat harbor < 256" and "handle_wf h s" and "hs_harbor s = hs_harbor (uboss_handle_init harbor)"
    and "handle_room s" and "Some ctx \<notin> set (hs_slot s)"
  shows "\<exists>g s'. uboss_handle_register h ctx s = Some (g, s') \<and>
    uboss_harbor_message_isremote g (uboss_harbor_init harbor n) = Some False \<and>
    (\<forall>x. x AND NOT HANDLE_MASK \<noteq> 0 \<longrightarrow> x AND NOT HANDLE_MASK \<noteq> hs_harbor s \<longrightarrow>
       uboss_harbor_message_isremote x (uboss_harbor_init harbor n) = Some True)"
proof -
  have "harbor AND mask 8 = harbor"
    using assms(1) by (intro word_unat_eq_iff [THEN iffD2]) (simp add: unat_and_mask)
  then have "harbor AND 0xff = harbor" by (simp add: mask_eq_exp_minus_1)
  then have eq: "nd_HARBOR (uboss_harbor_init harbor n) = hs_harbor s"
    using assms(3) by (simp add: uboss_harbor_init_def uboss_handle_init_def)
  obtain g s' where g: "uboss_handle_register h ctx s = Some (g, s')" "g AND NOT HANDLE_MASK = hs_harbor s"
    using register_ok [OF assms(2,4,5)] by blast
  have "hs_harbor s AND HANDLE_MASK = 0" using assms(2) by (simp add: handle_wf_def)
  then have "hs_harbor s \<noteq> - 1" by (auto simp: HANDLE_MASK_def)
  with g eq show ?thesis by (auto simp: uboss_harbor_message_isremote_def)
qed

theorem registered_handles_are_local_witness:
  "\<exists>g s'. uboss_handle_register Map.empty 9 (uboss_handle_init 3) = Some (g, s') \<and>
    uboss_harbor_message_isremote g (uboss_harbor_init 3 sample_node) = Some False"
  using registered_handles_are_local [of 3 Map.empty "uboss_handle_init 3" 9 sample_node]
    sample_view_room by auto

section \<open>Dropping the queue of a dead service\<close>

text \<open>The error report that a dropped message causes, and its effect on the queues.\<close>

definition error_report :: "u32 \<Rightarrow> uboss_message" where
  "error_report handle =
     \<lparr>msg_source = handle, msg_session = 0, msg_data = NULL,
      msg_sz = 0 OR push_bit MESSAGE_TYPE_SHIFT (ucast (PTYPE_ERROR AND 0xff))\<rparr>"

text \<open>The queues of the services, as a function of their contexts.\<close>

definition inbox :: "node \<Rightarrow> ptr \<Rightarrow> uboss_message list" where
  "inbox n ctx =
     (case nd_ctx n ctx of
        None \<Rightarrow> []
      | Some c \<Rightarrow> (case mq_heap (nd_mq n) (cx_queue c) of None \<Rightarrow> [] | Some q \<Rightarrow> mq_content q))"

definition reports :: "node \<Rightarrow> u32 \<Rightarrow> ptr \<Rightarrow> uboss_message list \<Rightarrow> uboss_message list" where
  "reports n handle ctx ms =
     map (\<lambda>_. error_report handle)
       (filter (\<lambda>m. msg_source m \<noteq> 0 \<and> handle_lookup (hof n) (msg_source m) (nd_handles n) = Some ctx) ms)"

text \<open>A queue that belongs to no context any more.\<close>

definition orphan :: "node \<Rightarrow> ptr list \<Rightarrow> ptr \<Rightarrow> bool" where
  "orphan n qs p \<longleftrightarrow> p \<notin> set qs \<and> (\<forall>ctx c. nd_ctx n ctx = Some c \<longrightarrow> cx_queue c \<noteq> p)"

lemma node_inv_put_orphan:
  assumes inv: "node_inv n qs" and orph: "orphan n qs p" and q: "mq_heap (nd_mq n) p = Some q"
    and q': "mq_wf q'" "mq_next q' = mq_next q"
  shows "node_inv (n\<lparr>nd_mq := mq_put p q' (nd_mq n)\<rparr>) qs"
    "orphan (n\<lparr>nd_mq := mq_put p q' (nd_mq n)\<rparr>) qs p"
    "inbox (n\<lparr>nd_mq := mq_put p q' (nd_mq n)\<rparr>) ctx = inbox n ctx"
proof -
  let ?n = "n\<lparr>nd_mq := mq_put p q' (nd_mq n)\<rparr>"
  have "mqs_wf (mq_put p q' (nd_mq n)) qs"
    using mqs_wf_put [OF node_invD(3) [OF inv] q q'(2,1)] .
  moreover have "ctx_queue_ok ?n qs c = ctx_queue_ok n qs c" if "nd_ctx n ctx = Some c" for ctx c
    using orph that by (auto simp: ctx_queue_ok_def orphan_def)
  moreover have "hof ?n = hof n" by (simp add: hof_def)
  ultimately show "node_inv ?n qs" using inv unfolding node_inv_def by simp
  show "orphan ?n qs p" using orph by (simp add: orphan_def)
  show "inbox ?n ctx = inbox n ctx"
    using orph by (auto simp: inbox_def orphan_def split: option.splits)
qed

lemma node_inv_free:
  assumes "node_inv n qs" "p = NULL \<or> nd_mem n p \<noteq> None"
  shows "\<exists>n'. node_free p n = Some n' \<and> node_inv n' qs \<and> n' = n\<lparr>nd_mem := (nd_mem n)(p := None)\<rparr>"
proof (cases "p = NULL")
  case True
  then have "n\<lparr>nd_mem := (nd_mem n)(p := None)\<rparr> = n" using node_invD(9) [OF assms(1)]
    by (simp add: fun_upd_idem)
  then show ?thesis using True assms(1) by (simp add: node_free_def)
next
  case False
  have "node_inv (n\<lparr>nd_mem := (nd_mem n)(p := None), nd_brk := nd_brk n\<rparr>) qs"
    using assms(1) by (intro node_inv_mem) (auto simp: node_inv_def)
  then show ?thesis using False assms(2) by (simp add: node_free_def)
qed

lemma inbox_cores:
  "inbox n ctx =
     (case nd_ctx n ctx of
        None \<Rightarrow> []
      | Some c \<Rightarrow> (case mq_cores (nd_mq n) (cx_queue c) of None \<Rightarrow> [] | Some q \<Rightarrow> mq_content q))"
  by (auto simp: inbox_def mq_cores_def split: option.splits)

lemma inbox_push:
  assumes inv: "node_inv n qs" and c: "nd_ctx n ctx = Some c"
    and q: "mq_heap (nd_mq n) (cx_queue c) = Some q"
    and S': "mq_cores S' = (mq_cores (nd_mq n))(cx_queue c \<mapsto> mq_core q')" "mq_content q' = mq_content q @ [m]"
  shows "inbox (n\<lparr>nd_mq := S'\<rparr>) d = inbox n d @ (if d = ctx then [m] else [])"
proof (cases "nd_ctx n d")
  case None
  then show ?thesis using c by (auto simp: inbox_def)
next
  case (Some cd)
  then show ?thesis
  proof (cases "d = ctx")
    case True
    with Some c q S' show ?thesis by (simp add: inbox_cores) (simp add: mq_cores_def)
  next
    case False
    then have "cx_queue cd \<noteq> cx_queue c" using node_invD(7) [OF inv Some c] by blast
    with False Some S' show ?thesis by (simp add: inbox_cores)
  qed
qed

lemma drop_report:
  assumes inv: "node_inv n qs" and h: "handle \<noteq> 0"
    and local: "msg_source m \<noteq> 0 \<longrightarrow> uboss_harbor_message_isremote (msg_source m) n = Some False"
    and refs: "\<forall>ctx c. nd_ctx n ctx = Some c \<longrightarrow> cx_ref c \<noteq> - 1"
  shows "\<exists>r S' qs'. uboss_send w NULL handle (msg_source m) PTYPE_ERROR 0 NULL 0 n = Some (r, n\<lparr>nd_mq := S'\<rparr>) \<and>
    node_inv (n\<lparr>nd_mq := S'\<rparr>) qs' \<and>
    (\<forall>p. orphan n qs p \<longrightarrow> orphan (n\<lparr>nd_mq := S'\<rparr>) qs' p \<and> mq_cores S' p = mq_cores (nd_mq n) p) \<and>
    (\<forall>ctx. inbox (n\<lparr>nd_mq := S'\<rparr>) ctx = inbox n ctx @ reports n handle ctx [m])"
proof -
  have args: "filter_args NULL PTYPE_ERROR 0 NULL 0 n =
      Some (0, NULL, 0 OR push_bit MESSAGE_TYPE_SHIFT (ucast (PTYPE_ERROR AND 0xff)), n)"
    by (intro filter_args_keep) (simp_all add: PTYPE_ERROR_def PTYPE_TAG_ALLOCSESSION_def)
  consider "msg_source m = 0"
    | "msg_source m \<noteq> 0" "handle_lookup (hof n) (msg_source m) (nd_handles n) = None"
    | ctx where "msg_source m \<noteq> 0" "handle_lookup (hof n) (msg_source m) (nd_handles n) = Some ctx"
    by (cases "handle_lookup (hof n) (msg_source m) (nd_handles n)") auto
  then show ?thesis
  proof cases
    case 1
    then have "uboss_send w NULL handle (msg_source m) PTYPE_ERROR 0 NULL 0 n = Some (0, n\<lparr>nd_mq := nd_mq n\<rparr>)"
      using args h by (simp add: uboss_send_def)
    then show ?thesis using inv 1
      by (intro exI [of _ 0] exI [of _ "nd_mq n"] exI [of _ qs]) (simp add: reports_def)
  next
    case 2
    then have "uboss_send w NULL handle (msg_source m) PTYPE_ERROR 0 NULL 0 n = Some (- 1, n\<lparr>nd_mq := nd_mq n\<rparr>)"
      using uboss_send_local [OF _ args h 2(1) local [rule_format, OF 2(1)], of w] context_push_missing [OF inv 2(2)]
      by (simp add: node_free_def)
    then show ?thesis using inv 2
      by (intro exI [of _ "- 1"] exI [of _ "nd_mq n"] exI [of _ qs]) (simp add: reports_def)
  next
    case 3
    obtain c where c: "nd_ctx n ctx = Some c" by (rule lookup_ctx [OF inv 3(2)])
    obtain S' q q' where S': "uboss_context_push w (msg_source m) (error_report handle) n = Some (0, n\<lparr>nd_mq := S'\<rparr>)"
      "mq_heap (nd_mq n) (cx_queue c) = Some q"
      "mq_cores S' = (mq_cores (nd_mq n))(cx_queue c \<mapsto> mq_core q')"
      "mq_content q' = mq_content q @ [error_report handle]"
      "node_inv (n\<lparr>nd_mq := S'\<rparr>) (if mq_in_global q then qs else qs @ [cx_queue c])"
      by (rule context_push_found [OF inv 3(2) c refs [rule_format, OF c]]) blast
    let ?qs = "if mq_in_global q then qs else qs @ [cx_queue c]"
    have "uboss_send w NULL handle (msg_source m) PTYPE_ERROR 0 NULL 0 n = Some (0, n\<lparr>nd_mq := S'\<rparr>)"
      using uboss_send_local [OF _ args h 3(1) local [rule_format, OF 3(1)], of w] S'(1)
      by (simp add: error_report_def)
    moreover have "orphan (n\<lparr>nd_mq := S'\<rparr>) ?qs p \<and> mq_cores S' p = mq_cores (nd_mq n) p"
      if "orphan n qs p" for p
    proof -
      have "p \<noteq> cx_queue c" using that c by (auto simp: orphan_def)
      then show ?thesis using that S'(3) by (auto simp: orphan_def)
    qed
    moreover have "inbox (n\<lparr>nd_mq := S'\<rparr>) d = inbox n d @ reports n handle d [m]" for d
      using inbox_push [OF inv c S'(2-4)] 3 by (auto simp: reports_def)
    ultimately show ?thesis using S'(5) by blast
  qed
qed

lemma node_mq_pop_Cons:
  assumes inv: "node_inv n qs" and orph: "orphan n qs p" and q: "mq_heap (nd_mq n) p = Some q"
    and cont: "mq_content q = m # ms"
  shows "\<exists>q'. node_mq_pop p n = Some (Some m, n\<lparr>nd_mq := mq_put p q' (nd_mq n)\<rparr>) \<and>
    mq_wf q' \<and> mq_next q' = mq_next q \<and> mq_content q' = ms"
proof -
  have wf: "mq_wf q" using node_invD(3) [OF inv] q by (simp add: mqs_wf_def)
  from uboss_mq_pop_Cons [OF wf cont] obtain q' where
    pop: "uboss_mq_pop q = Some (Some m, q')" "mq_wf q'" "mq_content q' = ms" by blast
  with mq_pop_frame(3) [OF wf pop(1)] q show ?thesis by (auto simp: node_mq_pop_def)
qed

lemma node_mq_pop_Nil:
  assumes inv: "node_inv n qs" and q: "mq_heap (nd_mq n) p = Some q" and cont: "mq_content q = []"
  shows "\<exists>q'. node_mq_pop p n = Some (None, n\<lparr>nd_mq := mq_put p q' (nd_mq n)\<rparr>) \<and>
    mq_wf q' \<and> mq_next q' = mq_next q"
proof -
  have wf: "mq_wf q" using node_invD(3) [OF inv] q by (simp add: mqs_wf_def)
  let ?q = "q\<lparr>mq_overload_threshold := MQ_OVERLOAD, mq_in_global := False\<rparr>"
  show ?thesis using q wf uboss_mq_pop_Nil [OF wf cont]
    by (intro exI [of _ ?q]) (simp add: node_mq_pop_def)
qed

lemma inbox_mem [simp]: "inbox (n\<lparr>nd_mem := M\<rparr>) ctx = inbox n ctx"
  by (cases "nd_ctx n ctx") (simp_all add: inbox_def)

lemma reports_frame:
  "hof n' = hof n \<Longrightarrow> nd_handles n' = nd_handles n \<Longrightarrow> reports n' h ctx ms = reports n h ctx ms"
  by (simp add: reports_def)

lemma reports_Cons: "reports n h ctx (m # ms) = reports n h ctx [m] @ reports n h ctx ms"
  by (simp add: reports_def)

lemma mq_heap_content_of_cores:
  assumes "mq_cores S p = mq_cores S' p" "mq_heap S' p = Some q"
  shows "\<exists>q2. mq_heap S p = Some q2 \<and> mq_content q2 = mq_content q"
  using assms mq_heap_of_cores [of S p q] by (auto simp: mq_cores_def)

text \<open>The payload pointers of the messages, each owned once.\<close>

definition payloads_ok :: "node \<Rightarrow> uboss_message list \<Rightarrow> bool" where
  "payloads_ok n ms \<longleftrightarrow> distinct (filter (\<lambda>p. p \<noteq> NULL) (map msg_data ms)) \<and>
     (\<forall>m \<in> set ms. msg_data m \<noteq> NULL \<longrightarrow> nd_mem n (msg_data m) \<noteq> None)"

lemma drop_queue_step:
  assumes inv: "node_inv n qs" and orph: "orphan n qs p" and q: "mq_heap (nd_mq n) p = Some q"
    and cont: "mq_content q = m # ms" and h: "handle \<noteq> 0" and pay: "payloads_ok n (m # ms)"
    and local: "msg_source m \<noteq> 0 \<longrightarrow> uboss_harbor_message_isremote (msg_source m) n = Some False"
    and refs: "\<forall>ctx c. nd_ctx n ctx = Some c \<longrightarrow> cx_ref c \<noteq> - 1"
  shows "\<exists>S' qs' q'. drop_queue w p handle n =
      drop_queue w p handle (n\<lparr>nd_mem := (nd_mem n)(msg_data m := None), nd_mq := S'\<rparr>) \<and>
    node_inv (n\<lparr>nd_mem := (nd_mem n)(msg_data m := None), nd_mq := S'\<rparr>) qs' \<and>
    orphan (n\<lparr>nd_mem := (nd_mem n)(msg_data m := None), nd_mq := S'\<rparr>) qs' p \<and>
    mq_heap S' p = Some q' \<and> mq_content q' = ms \<and>
    (\<forall>ctx. inbox (n\<lparr>nd_mem := (nd_mem n)(msg_data m := None), nd_mq := S'\<rparr>) ctx =
       inbox n ctx @ reports n handle ctx [m])"
proof -
  obtain q1 where pop: "node_mq_pop p n = Some (Some m, n\<lparr>nd_mq := mq_put p q1 (nd_mq n)\<rparr>)"
    "mq_wf q1" "mq_next q1 = mq_next q" "mq_content q1 = ms"
    using node_mq_pop_Cons [OF inv orph q cont] by blast
  let ?n1 = "n\<lparr>nd_mq := mq_put p q1 (nd_mq n)\<rparr>"
  note put = node_inv_put_orphan [OF inv orph q pop(2,3)]
  have "msg_data m = NULL \<or> nd_mem ?n1 (msg_data m) \<noteq> None" using pay by (auto simp: payloads_ok_def)
  then obtain n2 where n2: "node_free (msg_data m) ?n1 = Some n2" "node_inv n2 qs"
    "n2 = ?n1\<lparr>nd_mem := (nd_mem ?n1)(msg_data m := None)\<rparr>"
    using node_inv_free [OF put(1)] by blast
  have "msg_source m \<noteq> 0 \<longrightarrow> uboss_harbor_message_isremote (msg_source m) n2 = Some False"
    using local isremote_frame [of n2 n] n2(3) by simp
  moreover have "\<forall>ctx c. nd_ctx n2 ctx = Some c \<longrightarrow> cx_ref c \<noteq> - 1" using refs n2(3) by simp
  ultimately obtain r S' qs' where S':
    "uboss_send w NULL handle (msg_source m) PTYPE_ERROR 0 NULL 0 n2 = Some (r, n2\<lparr>nd_mq := S'\<rparr>)"
    "node_inv (n2\<lparr>nd_mq := S'\<rparr>) qs'"
    "\<And>p. orphan n2 qs p \<Longrightarrow> orphan (n2\<lparr>nd_mq := S'\<rparr>) qs' p \<and> mq_cores S' p = mq_cores (nd_mq n2) p"
    "\<And>ctx. inbox (n2\<lparr>nd_mq := S'\<rparr>) ctx = inbox n2 ctx @ reports n2 handle ctx [m]"
    using drop_report [OF n2(2) h, of m w] by blast
  let ?n3 = "n\<lparr>nd_mem := (nd_mem n)(msg_data m := None), nd_mq := S'\<rparr>"
  have n3: "n2\<lparr>nd_mq := S'\<rparr> = ?n3" using n2(3) by simp
  have orph2: "orphan n2 qs p" using put(2) n2(3) by (simp add: orphan_def)
  have "drop_queue w p handle n = drop_queue w p handle ?n3"
    using pop(1) n2(1) S'(1) h n3
    by (subst drop_queue.simps) (simp add: drop_message_def)
  moreover obtain q' where "mq_heap S' p = Some q'" "mq_content q' = ms"
    using mq_heap_content_of_cores [of S' p "nd_mq n2" q1] S'(3) [OF orph2] n2(3) pop(4) by auto
  moreover have "inbox n2 ctx = inbox n ctx" for ctx
    unfolding n2(3) inbox_mem by (rule put(3))
  moreover have "reports n2 handle ctx [m] = reports n handle ctx [m]" for ctx
    using n2(3) by (intro reports_frame) (simp_all add: hof_def)
  ultimately show ?thesis using S'(2,4) S'(3) [OF orph2] n3 by auto
qed


lemma drop_queue_ok:
  assumes "node_inv n qs" "orphan n qs p" "mq_heap (nd_mq n) p = Some q" "mq_content q = ms"
    "handle \<noteq> 0" "payloads_ok n ms"
    "\<forall>m \<in> set ms. msg_source m \<noteq> 0 \<longrightarrow> uboss_harbor_message_isremote (msg_source m) n = Some False"
    "\<forall>ctx c. nd_ctx n ctx = Some c \<longrightarrow> cx_ref c \<noteq> - 1"
  shows "\<exists>n' qs'. drop_queue w p handle n = Some n' \<and> node_inv n' qs' \<and> mq_heap (nd_mq n') p = None \<and>
    nd_ctx n' = nd_ctx n \<and> nd_mem n' = (\<lambda>x. if x \<in> msg_data ` set ms then None else nd_mem n x) \<and>
    (\<forall>ctx. inbox n' ctx = inbox n ctx @ reports n handle ctx ms)"
  using assms
proof (induction ms arbitrary: n qs q)
  case Nil
  obtain q1 where pop: "node_mq_pop p n = Some (None, n\<lparr>nd_mq := mq_put p q1 (nd_mq n)\<rparr>)"
    "mq_wf q1" "mq_next q1 = mq_next q" using node_mq_pop_Nil [OF Nil.prems(1,3,4)] by blast
  let ?n1 = "n\<lparr>nd_mq := mq_put p q1 (nd_mq n)\<rparr>"
  note put = node_inv_put_orphan [OF Nil.prems(1,2,3) pop(2,3)]
  have "mq_heap (nd_mq ?n1) p = Some q1" "p \<notin> set qs"
    using Nil.prems(2) by (simp_all add: orphan_def)
  then obtain S' where S': "mq_free p (nd_mq ?n1) = Some S'" "mqs_wf S' qs"
    "mq_cores S' = (mq_cores (nd_mq ?n1))(p := None)"
    using mq_free_ok [OF node_invD(3) [OF put(1)]] by blast
  let ?n2 = "n\<lparr>nd_mq := S'\<rparr>"
  have other: "mq_cores S' x = mq_cores (nd_mq ?n1) x" if "x \<noteq> p" for x using S'(3) that by simp
  have keep: "ctx_queue_ok ?n2 qs c" if "nd_ctx n ctx = Some c" for ctx c
  proof -
    have ne: "cx_queue c \<noteq> p" using put(2) that by (simp add: orphan_def)
    from node_invD(6) [OF put(1), of ctx c] that obtain qq where
      qq: "mq_heap (nd_mq ?n1) (cx_queue c) = Some qq" "\<not> mq_release qq"
        "mq_handle qq = cx_handle c" "\<not> mq_in_global qq \<Longrightarrow> cx_queue c \<notin> set qs"
      by (auto simp: ctx_queue_ok_def)
    then have "mq_cores S' (cx_queue c) = Some (mq_core qq)"
      using other [OF ne] by (simp add: mq_cores_def)
    then show ?thesis using qq mq_heap_of_cores [of S' "cx_queue c" qq] by (auto simp: ctx_queue_ok_def)
  qed
  have "hof ?n2 = hof n" by (simp add: hof_def)
  with keep S'(2) Nil.prems(1) have "node_inv ?n2 qs" unfolding node_inv_def by simp
  moreover have "inbox ?n2 ctx = inbox n ctx" for ctx
  proof -
    have "inbox ?n2 ctx = inbox ?n1 ctx"
      using put(2) other by (auto simp: inbox_cores orphan_def split: option.splits)
    then show ?thesis using put(3) by simp
  qed
  moreover have "drop_queue w p handle n = Some ?n2"
    using pop(1) S'(1) by (subst drop_queue.simps) (simp add: lift_mq_def)
  moreover have "mq_heap S' p = None" using S'(3) mq_cores_None by (metis fun_upd_same)
  ultimately show ?case by (intro exI [of _ ?n2] exI [of _ qs]) (simp add: reports_def)
next
  case (Cons m ms)
  have loc: "msg_source m \<noteq> 0 \<longrightarrow> uboss_harbor_message_isremote (msg_source m) n = Some False"
    using Cons.prems(7) by simp
  obtain S1 qs1 q1 where s1: "drop_queue w p handle n =
      drop_queue w p handle (n\<lparr>nd_mem := (nd_mem n)(msg_data m := None), nd_mq := S1\<rparr>)"
    "node_inv (n\<lparr>nd_mem := (nd_mem n)(msg_data m := None), nd_mq := S1\<rparr>) qs1"
    "orphan (n\<lparr>nd_mem := (nd_mem n)(msg_data m := None), nd_mq := S1\<rparr>) qs1 p"
    "mq_heap S1 p = Some q1" "mq_content q1 = ms"
    "\<And>ctx. inbox (n\<lparr>nd_mem := (nd_mem n)(msg_data m := None), nd_mq := S1\<rparr>) ctx =
       inbox n ctx @ reports n handle ctx [m]"
    using drop_queue_step [OF Cons.prems(1-6) loc Cons.prems(8), where w = w] by blast
  let ?n1 = "n\<lparr>nd_mem := (nd_mem n)(msg_data m := None), nd_mq := S1\<rparr>"
  have "payloads_ok ?n1 ms" using Cons.prems(6)
    by (auto simp: payloads_ok_def split: if_splits) (metis imageI)
  moreover have "\<forall>x \<in> set ms. msg_source x \<noteq> 0 \<longrightarrow>
      uboss_harbor_message_isremote (msg_source x) ?n1 = Some False"
    using Cons.prems(7) isremote_frame [of ?n1 n] by simp
  moreover have "\<forall>ctx c. nd_ctx ?n1 ctx = Some c \<longrightarrow> cx_ref c \<noteq> - 1" using Cons.prems(8) by simp
  ultimately obtain n' qs' where n': "drop_queue w p handle ?n1 = Some n'" "node_inv n' qs'"
    "mq_heap (nd_mq n') p = None" "nd_ctx n' = nd_ctx ?n1"
    "nd_mem n' = (\<lambda>x. if x \<in> msg_data ` set ms then None else nd_mem ?n1 x)"
    "\<And>ctx. inbox n' ctx = inbox ?n1 ctx @ reports ?n1 handle ctx ms"
    using Cons.IH [of ?n1 qs1 q1] s1(2-5) Cons.prems(5) by auto
  have "inbox n' ctx = inbox n ctx @ reports n handle ctx (m # ms)" for ctx
    using n'(6) s1(6) reports_Cons [of n handle ctx m ms] reports_frame [of ?n1 n handle ctx ms]
    by (simp add: hof_def)
  with n' s1(1) show ?case by (intro exI [of _ n'] exI [of _ qs']) auto
qed

text \<open>A worker that finds the queue of a dead service drops it to the end: the loop
  terminates, frees every payload exactly once, frees the queue, and sends every message's
  sender that is still registered exactly one error message per lost message; no other
  service is affected.\<close>

theorem drop_queue_reports_and_frees:
  assumes "node_inv n qs" and "orphan n qs p" and "mq_heap (nd_mq n) p = Some q" and "mq_release q"
    and "handle \<noteq> 0" and "payloads_ok n (mq_content q)"
    and "\<forall>m \<in> set (mq_content q). msg_source m \<noteq> 0 \<longrightarrow>
      uboss_harbor_message_isremote (msg_source m) n = Some False"
    and "\<forall>ctx c. nd_ctx n ctx = Some c \<longrightarrow> cx_ref c \<noteq> - 1"
  shows "\<exists>n' qs'. uboss_mq_release w p handle n = Some n' \<and> node_inv n' qs' \<and>
    mq_heap (nd_mq n') p = None \<and> nd_ctx n' = nd_ctx n \<and>
    nd_mem n' = (\<lambda>x. if x \<in> msg_data ` set (mq_content q) then None else nd_mem n x) \<and>
    (\<forall>ctx. inbox n' ctx = inbox n ctx @ reports n handle ctx (mq_content q))"
  using drop_queue_ok [OF assms(1-3) refl assms(5-8), where w = w] assms(3,4)
  by (simp add: uboss_mq_release_def)


text \<open>The sample node after its service was retired and one message was left behind.\<close>

definition dead_message :: uboss_message where
  "dead_message = \<lparr>msg_source = 0x1000001, msg_session = 0, msg_data = 2, msg_sz = 5\<rparr>"

definition dead_queue :: message_queue where
  "dead_queue = (mq_new 0x1000002)\<lparr>mq_release := True,
     mq_queue := Some dead_message # replicate 63 None, mq_tail := 1\<rparr>"

definition dead_node :: node where
  "dead_node = sample_node\<lparr>nd_mq := (mq_put 2 dead_queue (nd_mq sample_node))\<lparr>mq_brk := 3\<rparr>\<rparr>"

lemma dead_queue_wf: "mq_wf dead_queue" "mq_content dead_queue = [dead_message]" "mq_release dead_queue"
  "mq_next dead_queue = None"
  by (simp_all add: mq_wf_def mq_content_def uboss_mq_length_def dead_queue_def mq_new_def
      DEFAULT_QUEUE_SIZE_def MQ_OVERLOAD_def)

lemma dead_node_inv: "node_inv dead_node []"
proof -
  have "gq_inv (nd_mq sample_node) []" using sample_mqs_wf by (simp add: mqs_wf_def)
  then have "gq_inv (nd_mq dead_node) []"
    by (auto simp: gq_inv_def dead_node_def dead_queue_wf split: if_splits)
       (auto simp: sample_node_def uboss_mq_create_def uboss_mq_init_def)
  moreover have "mq_heap (nd_mq dead_node) x = Some q \<Longrightarrow> mq_wf q" for x q
    using sample_mqs_wf dead_queue_wf by (auto simp: dead_node_def mqs_wf_def split: if_splits)
  ultimately have wf: "mqs_wf (nd_mq dead_node) []" by (simp add: mqs_wf_def)
  have "ctx_queue_ok dead_node [] sample_ctx"
    using sample_queue by (simp add: ctx_queue_ok_def sample_ctx_def dead_node_def) (simp add: mq_new_def)
  moreover have "nd_ctx dead_node = [1 \<mapsto> sample_ctx]" "hof dead_node = hof sample_node"
    "nd_handles dead_node = nd_handles sample_node" "nd_mem dead_node = nd_mem sample_node"
    "nd_brk dead_node = nd_brk sample_node"
    by (simp_all add: dead_node_def hof_def) (simp add: sample_node_def)
  moreover have "cx_ref sample_ctx \<noteq> 0" by (simp add: sample_ctx_def)
  ultimately show ?thesis
    using wf sample_node_inv unfolding node_inv_def by (auto simp: sample_ctx_at split: if_splits)
qed

theorem drop_queue_reports_and_frees_witness:
  "\<exists>n'. uboss_mq_release idle_world 2 0x1000002 dead_node = Some n' \<and> nd_mem n' 2 = None \<and>
    inbox n' 1 = inbox dead_node 1 @ reports dead_node 0x1000002 1 [dead_message]"
proof -
  have *: "orphan dead_node [] 2" "mq_heap (nd_mq dead_node) 2 = Some dead_queue" "(0x1000002::u32) \<noteq> 0"
    "payloads_ok dead_node (mq_content dead_queue)"
    "\<forall>m \<in> set (mq_content dead_queue). msg_source m \<noteq> 0 \<longrightarrow>
       uboss_harbor_message_isremote (msg_source m) dead_node = Some False"
    "\<forall>ctx c. nd_ctx dead_node ctx = Some c \<longrightarrow> cx_ref c \<noteq> - 1"
    using sample_local isremote_frame [of dead_node sample_node]
    by (auto simp: orphan_def payloads_ok_def dead_queue_wf dead_node_def sample_node_def
        sample_ctx_def dead_message_def split: if_splits)
  from drop_queue_reports_and_frees [OF dead_node_inv *(1,2) dead_queue_wf(3) *(3-6), of idle_world]
  obtain n' where "uboss_mq_release idle_world 2 0x1000002 dead_node = Some n'"
    "nd_mem n' = (\<lambda>x. if x \<in> msg_data ` set (mq_content dead_queue) then None else nd_mem dead_node x)"
    "\<forall>ctx. inbox n' ctx = inbox dead_node ctx @ reports dead_node 0x1000002 ctx (mq_content dead_queue)"
    by blast
  then show ?thesis by (simp add: dead_queue_wf dead_message_def)
qed

end
