(* ===== verification/Command.thy ===== *)
theory Command
  imports Server
begin

text \<open>
  Model of \<open>core/uboss_command.c\<close>: the text commands a service gives to its node. A
  parameter or result that may be a NULL pointer is an option; reading through NULL or
  from an uninitialised buffer is \<open>None\<close>. Writing the context's 32-byte result buffer
  checks that the text and its terminating zero fit.
\<close>

section \<open>Helpers\<close>

definition set_result :: "ptr \<Rightarrow> string \<Rightarrow> node \<Rightarrow> (string option \<times> node) option" where
  \<comment> \<open>\<open>sprintf(context->result, ...); return context->result;\<close>\<close>
  "set_result context s n =
     do { guard (length s < 32);
          n1 \<leftarrow> with_ctx context (\<lambda>c. c\<lparr>cx_result := s\<rparr>) n;
          Some (Some s, n1) }"

definition handle_exit :: "world \<Rightarrow> ptr \<Rightarrow> u32 \<Rightarrow> node \<Rightarrow> node option" where
  "handle_exit w context handle n =
     do { (h, n1) \<leftarrow>
            (if handle = 0 then
               do { h \<leftarrow> uboss_context_handle context n;
                    n1 \<leftarrow> uboss_error w context ''KILL self'' n;
                    Some (h, n1) }
             else do { n1 \<leftarrow> uboss_error w context (''KILL :'' @ print_x (unat handle)) n;
                       Some (handle, n1) });
          n2 \<leftarrow> (if gn_monitor_exit (nd_G n1) \<noteq> 0
                  then do { (_, n2) \<leftarrow> uboss_send w context h (gn_monitor_exit (nd_G n1)) PTYPE_CLIENT 0
                                        NULL 0 n1;
                            Some n2 }
                  else Some n1);
          (_, n3) \<leftarrow> uboss_handle_retire w h n2;
          Some n3 }"

definition tohandle :: "world \<Rightarrow> ptr \<Rightarrow> string \<Rightarrow> node \<Rightarrow> (u32 \<times> node) option" where
  "tohandle w context param n =
     (case param of
        CHR '':'' # rest \<Rightarrow> Some (ucast (strtoul16 rest), n)
      | CHR ''.'' # rest \<Rightarrow> do { h \<leftarrow> uboss_handle_findname rest (nd_handles n); Some (h, n) }
      | _ \<Rightarrow> do { n1 \<leftarrow> uboss_error w context (''Can't convert '' @ param @ '' to handle'') n;
                  Some (0, n1) })"

section \<open>Commands\<close>

type_synonym command = "world \<Rightarrow> ptr \<Rightarrow> string option \<Rightarrow> node \<Rightarrow> (string option \<times> node) option"

definition cmd_timeout :: command where
  "cmd_timeout w context param n =
     do { p \<leftarrow> param;
          let ti = (word_of_int (strtol10 p) :: i32);
          (session, n1) \<leftarrow> uboss_context_newsession context n;
          h \<leftarrow> uboss_context_handle context n1;
          (_, n2) \<leftarrow> uboss_timeout w h ti session n1;
          set_result context (print_d (sint session)) n2 }"

definition namehandle :: "u32 \<Rightarrow> string \<Rightarrow> node \<Rightarrow> (string option \<times> node) option" where
  "namehandle handle name n =
     do { (r, hs) \<leftarrow> uboss_handle_namehandle handle name (nd_handles n);
          Some (r, n\<lparr>nd_handles := hs\<rparr>) }"

definition cmd_reg :: command where
  "cmd_reg w context param n =
     (case param of
        None \<Rightarrow> do { h \<leftarrow> uboss_context_handle context n; set_result context (CHR '':'' # print_x (unat h)) n }
      | Some [] \<Rightarrow> do { h \<leftarrow> uboss_context_handle context n; set_result context (CHR '':'' # print_x (unat h)) n }
      | Some (CHR ''.'' # name) \<Rightarrow> do { h \<leftarrow> uboss_context_handle context n; namehandle h name n }
      | Some p \<Rightarrow> do { n1 \<leftarrow> uboss_error w context (''Can't register global name '' @ p @ '' in C'') n;
                       Some (None, n1) })"

definition cmd_query :: command where
  "cmd_query w context param n =
     do { p \<leftarrow> param;
          case p of
            CHR ''.'' # name \<Rightarrow>
              do { handle \<leftarrow> uboss_handle_findname name (nd_handles n);
                   if handle \<noteq> 0 then set_result context (CHR '':'' # print_x (unat handle)) n
                   else Some (None, n) }
          | _ \<Rightarrow> Some (None, n) }"

definition cmd_name :: command where
  "cmd_name w context param n =
     do { p \<leftarrow> param;
          let (name0, handle0) = scan_two p;
          handle \<leftarrow> handle0;
          case handle of
            CHR '':'' # rest \<Rightarrow>
              (let handle_id = (ucast (strtoul16 rest) :: u32)
               in if handle_id = 0 then Some (None, n)
                  else do { name \<leftarrow> name0;
                            case name of
                              CHR ''.'' # nm \<Rightarrow> namehandle handle_id nm n
                            | _ \<Rightarrow> do { n1 \<leftarrow> uboss_error w context
                                               (''Can't set global name '' @ name @ '' in C'') n;
                                        Some (None, n1) } })
          | _ \<Rightarrow> Some (None, n) }"

definition cmd_exit :: command where
  "cmd_exit w context param n = do { n1 \<leftarrow> handle_exit w context 0 n; Some (None, n1) }"

definition cmd_kill :: command where
  "cmd_kill w context param n =
     do { p \<leftarrow> param;
          (handle, n1) \<leftarrow> tohandle w context p n;
          n2 \<leftarrow> (if handle \<noteq> 0 then handle_exit w context handle n1 else Some n1);
          Some (None, n2) }"

definition cmd_launch :: command where
  "cmd_launch w context param n =
     do { p \<leftarrow> param;
          let (mod0, args0) = strsep ([CHR '' '', CHR 0x09, CHR 0x0D, CHR 0x0A]) (Some p);
          let (args, rest) = strsep ([CHR 0x0D, CHR 0x0A]) args0;
          m \<leftarrow> mod0;
          (inst, n1) \<leftarrow> uboss_context_new w m args n;
          if inst = NULL then Some (None, n1)
          else do { h \<leftarrow> uboss_context_handle inst n1; set_result context (id_to_hex h) n1 } }"

definition cmd_getenv :: command where
  "cmd_getenv w context param n = do { p \<leftarrow> param; Some (uboss_getenv p (nd_env n), n) }"

definition cmd_setenv :: command where
  "cmd_setenv w context param n =
     do { p \<leftarrow> param;
          let key = takeWhile (\<lambda>c. c \<noteq> CHR '' '') p;
          let rest = dropWhile (\<lambda>c. c \<noteq> CHR '' '') p;
          if rest = [] then Some (None, n)
          else do { E \<leftarrow> uboss_setenv key (tl rest) (nd_env n); Some (None, n\<lparr>nd_env := E\<rparr>) } }"

definition cmd_starttime :: command where
  "cmd_starttime w context param n =
     set_result context (print_u (unat (uboss_starttime (nd_timer n)))) n"

definition cmd_endless :: command where
  "cmd_endless w context param n =
     do { c \<leftarrow> nd_ctx n context;
          if cx_endless c then
            do { (r, n1) \<leftarrow> set_result context ''1'' n;
                 n2 \<leftarrow> with_ctx context (\<lambda>c. c\<lparr>cx_endless := False\<rparr>) n1;
                 Some (r, n2) }
          else Some (None, n) }"

definition cmd_abort :: command where
  "cmd_abort w context param n = do { n1 \<leftarrow> uboss_handle_retireall w n; Some (None, n1) }"

definition cmd_monitor :: command where
  "cmd_monitor w context param n =
     (if param = None \<or> param = Some [] then
        (if gn_monitor_exit (nd_G n) \<noteq> 0
         then set_result context (CHR '':'' # print_x (unat (gn_monitor_exit (nd_G n)))) n
         else Some (None, n))
      else do { p \<leftarrow> param;
                (handle, n1) \<leftarrow> tohandle w context p n;
                Some (None, n1\<lparr>nd_G := (nd_G n1)\<lparr>gn_monitor_exit := handle\<rparr>\<rparr>) })"

definition mq_length_of :: "ptr \<Rightarrow> node \<Rightarrow> nat option" where
  "mq_length_of context n =
     do { c \<leftarrow> nd_ctx n context; q \<leftarrow> mq_heap (nd_mq n) (cx_queue c); Some (uboss_mq_length q) }"

definition cmd_stat :: command where
  "cmd_stat w context param n =
     do { p \<leftarrow> param;
          c \<leftarrow> nd_ctx n context;
          if p = ''mqlen'' then
            do { len \<leftarrow> mq_length_of context n; set_result context (print_d (int len)) n }
          else if p = ''endless'' then
            (if cx_endless c then
               do { (r, n1) \<leftarrow> set_result context ''1'' n;
                    n2 \<leftarrow> with_ctx context (\<lambda>c. c\<lparr>cx_endless := False\<rparr>) n1;
                    Some (r, n2) }
             else set_result context ''0'' n)
          else if p = ''cpu'' then set_result context (print_micro (unat (cx_cpu_cost c))) n
          else if p = ''time'' then
            (if cx_profile c
             then set_result context (print_micro (unat (w_thread_time w n - cx_cpu_start c))) n
             else set_result context ''0'' n)
          else if p = ''message'' then set_result context (print_d (sint (cx_message_count c))) n
          else set_result context [] n }"

definition cmd_mqlen :: command where
  "cmd_mqlen w context param n =
     do { len \<leftarrow> mq_length_of context n; set_result context (print_d (int len)) n }"

definition cmd_logon :: command where
  "cmd_logon w context param n =
     do { p \<leftarrow> param;
          (handle, n1) \<leftarrow> tohandle w context p n;
          if handle = 0 then Some (None, n1)
          else
            do { (ctx, n2) \<leftarrow> uboss_handle_grab handle n1;
                 if ctx = NULL then Some (None, n2)
                 else
                   do { c \<leftarrow> nd_ctx n2 ctx;
                        n4 \<leftarrow>
                          (if cx_logfile c = NULL then
                             do { (f, n3) \<leftarrow> uboss_log_open w context handle n2;
                                  if f \<noteq> NULL then
                                    do { c3 \<leftarrow> nd_ctx n3 ctx;
                                         if cx_logfile c3 = NULL
                                         then with_ctx ctx (\<lambda>c. c\<lparr>cx_logfile := f\<rparr>) n3
                                         else file_close f n3 }
                                  else Some n3 }
                           else Some n2);
                        (_, n5) \<leftarrow> uboss_context_release w ctx n4;
                        Some (None, n5) } } }"

definition cmd_logoff :: command where
  "cmd_logoff w context param n =
     do { p \<leftarrow> param;
          (handle, n1) \<leftarrow> tohandle w context p n;
          if handle = 0 then Some (None, n1)
          else
            do { (ctx, n2) \<leftarrow> uboss_handle_grab handle n1;
                 if ctx = NULL then Some (None, n2)
                 else
                   do { c \<leftarrow> nd_ctx n2 ctx;
                        n4 \<leftarrow>
                          (if cx_logfile c \<noteq> NULL then
                             do { n3 \<leftarrow> with_ctx ctx (\<lambda>c. c\<lparr>cx_logfile := NULL\<rparr>) n2;
                                  uboss_log_close w context (cx_logfile c) handle n3 }
                           else Some n2);
                        (_, n5) \<leftarrow> uboss_context_release w ctx n4;
                        Some (None, n5) } } }"

definition cmd_signal :: command where
  "cmd_signal w context param n =
     do { p \<leftarrow> param;
          (handle, n1) \<leftarrow> tohandle w context p n;
          if handle = 0 then Some (None, n1)
          else
            do { (ctx, n2) \<leftarrow> uboss_handle_grab handle n1;
                 if ctx = NULL then Some (None, n2)
                 else
                   do { let rest = dropWhile (\<lambda>c. c \<noteq> CHR '' '') p;
                        let sig = (if rest = [] then 0 else word_of_int (strtol0 rest));
                        c \<leftarrow> nd_ctx n2 ctx;
                        n3 \<leftarrow> uboss_module_instance_signal w (cx_mod c) (cx_instance c) sig n2;
                        (_, n4) \<leftarrow> uboss_context_release w ctx n3;
                        Some (None, n4) } } }"

section \<open>The command table\<close>

definition cmd_funcs :: "(string \<times> command) list" where
  "cmd_funcs =
     [(''TIMEOUT'', cmd_timeout), (''REG'', cmd_reg), (''QUERY'', cmd_query), (''NAME'', cmd_name),
      (''EXIT'', cmd_exit), (''KILL'', cmd_kill), (''LAUNCH'', cmd_launch), (''GETENV'', cmd_getenv),
      (''SETENV'', cmd_setenv), (''STARTTIME'', cmd_starttime), (''ENDLESS'', cmd_endless),
      (''ABORT'', cmd_abort), (''MONITOR'', cmd_monitor), (''STAT'', cmd_stat), (''MQLEN'', cmd_mqlen),
      (''LOGON'', cmd_logon), (''LOGOFF'', cmd_logoff), (''SIGNAL'', cmd_signal)]"

fun command_search :: "(string \<times> command) list \<Rightarrow> string \<Rightarrow> command" where
  "command_search [] cmd w context param n = Some (None, n)"
| "command_search ((name, f) # fs) cmd w context param n =
     (if cmd = name then f w context param n else command_search fs cmd w context param n)"

definition uboss_command :: "world \<Rightarrow> ptr \<Rightarrow> string \<Rightarrow> string option \<Rightarrow> node \<Rightarrow>
    (string option \<times> node) option" where
  "uboss_command w context cmd param n = command_search cmd_funcs cmd w context param n"

end
