(* ===== verification/Scheduler.thy ===== *)
theory Scheduler
  imports MsgQueue
begin

text \<open>
  The worker threads of \<open>core/uboss_start.c\<close> and \<open>uboss_context_message_dispatch\<close> of
  \<open>core/uboss_server.c\<close>, together with the threads that send to, create, retire and release
  services, as they interleave. One step of an agent is one critical section or atomic
  operation of the code: taking a queue from the run queue, looking up and grabbing a
  context, popping or pushing one message, dropping one reference, marking and freeing.
  What a callback does to other services is done by other agents.

  The handle table is the map that the registry contract of the handle theory provides.
  Creating a context is one step (registering it and giving it its queue), and a handle
  is only given out again when no queue carries it any more; the 24-bit handle counter runs
  through all its values before that can happen.
\<close>

section \<open>State\<close>

text \<open>What an agent does after releasing a context.\<close>

datatype cont = KIdle | KHave ptr | KPush ptr | KRetire u32 ptr | KDead ptr

datatype agent_pc =
    Idle
  | Have ptr
  | Dead ptr
  | Drop ptr
  | DropFree ptr
  | Busy ptr ptr
  | Done ptr ptr
  | Swap ptr ptr ptr
  | Hold ptr
  | Init ptr ptr
  | Rel ptr cont
  | Del ptr cont
  | Push ptr
  | Retire u32 cont

record sctx =
  sx_ref :: i32
  sx_queue :: ptr
  sx_handle :: u32

record sched =
  sc_mq :: mq_state
  sc_ctx :: "ptr \<rightharpoonup> sctx"
  sc_table :: "u32 \<rightharpoonup> ptr"
  sc_brk :: ptr
  sc_pc :: "nat \<Rightarrow> agent_pc"

definition sched_init :: sched where
  "sched_init =
     \<lparr>sc_mq = uboss_mq_init, sc_ctx = Map.empty, sc_table = Map.empty, sc_brk = 1,
      sc_pc = (\<lambda>_. Idle)\<rparr>"

fun resume :: "cont \<Rightarrow> agent_pc" where
  "resume KIdle = Idle"
| "resume (KHave q) = Have q"
| "resume (KPush q) = Push q"
| "resume (KRetire h q) = Retire h (KDead q)"
| "resume (KDead q) = Dead q"

definition goto :: "nat \<Rightarrow> agent_pc \<Rightarrow> sched \<Rightarrow> sched" where
  "goto a pc s = s\<lparr>sc_pc := (sc_pc s)(a := pc)\<rparr>"

section \<open>Steps\<close>

text \<open>The worker loop: \<open>thread_worker\<close> calling \<open>uboss_context_message_dispatch\<close>.\<close>

definition step_pop :: "nat \<Rightarrow> sched \<Rightarrow> sched option" where
  "step_pop a s =
     do { (r, S) \<leftarrow> uboss_globalmq_pop (sc_mq s);
          Some (goto a (case r of None \<Rightarrow> Idle | Some q \<Rightarrow> Have q) (s\<lparr>sc_mq := S\<rparr>)) }"

definition grab :: "ptr \<Rightarrow> sched \<Rightarrow> sched option" where
  "grab ctx s =
     do { c \<leftarrow> sc_ctx s ctx;
          Some (s\<lparr>sc_ctx := (sc_ctx s)(ctx \<mapsto> c\<lparr>sx_ref := sx_ref c + 1\<rparr>)\<rparr>) }"

definition step_have :: "nat \<Rightarrow> ptr \<Rightarrow> sched \<Rightarrow> sched option" where
  "step_have a q s =
     do { m \<leftarrow> mq_heap (sc_mq s) q;
          case sc_table s (mq_handle m) of
            None \<Rightarrow> Some (goto a (Dead q) s)
          | Some ctx \<Rightarrow> do { s1 \<leftarrow> grab ctx s; Some (goto a (Busy q ctx) s1) } }"

definition step_dead :: "nat \<Rightarrow> ptr \<Rightarrow> sched \<Rightarrow> sched option" where
  \<comment> \<open>\<open>uboss_mq_release\<close>\<close>
  "step_dead a q s =
     do { m \<leftarrow> mq_heap (sc_mq s) q;
          if mq_release m then Some (goto a (Drop q) s)
          else do { S \<leftarrow> uboss_globalmq_push q (sc_mq s); Some (goto a Idle (s\<lparr>sc_mq := S\<rparr>)) } }"

definition step_drop :: "nat \<Rightarrow> ptr \<Rightarrow> sched \<Rightarrow> sched option" where
  \<comment> \<open>\<open>_drop_queue\<close>\<close>
  "step_drop a q s =
     do { m \<leftarrow> mq_heap (sc_mq s) q;
          (r, m1) \<leftarrow> uboss_mq_pop m;
          Some (goto a (if r = None then DropFree q else Drop q)
                  (s\<lparr>sc_mq := mq_put q m1 (sc_mq s)\<rparr>)) }"

definition step_drop_free :: "nat \<Rightarrow> ptr \<Rightarrow> sched \<Rightarrow> sched option" where
  "step_drop_free a q s =
     do { S \<leftarrow> mq_free q (sc_mq s); Some (goto a Idle (s\<lparr>sc_mq := S\<rparr>)) }"

definition step_busy :: "nat \<Rightarrow> bool \<Rightarrow> ptr \<Rightarrow> ptr \<Rightarrow> sched \<Rightarrow> sched option" where
  \<comment> \<open>one round of the dispatch loop; \<open>stop\<close> says that it was the last one\<close>
  "step_busy a stop q ctx s =
     do { m \<leftarrow> mq_heap (sc_mq s) q;
          (r, m1) \<leftarrow> uboss_mq_pop m;
          Some (goto a (if r = None then Rel ctx KIdle else if stop then Done q ctx else Busy q ctx)
                  (s\<lparr>sc_mq := mq_put q m1 (sc_mq s)\<rparr>)) }"

definition step_done :: "nat \<Rightarrow> ptr \<Rightarrow> ptr \<Rightarrow> sched \<Rightarrow> sched option" where
  "step_done a q ctx s =
     do { c \<leftarrow> sc_ctx s ctx;
          guard (q = sx_queue c);
          (r, S) \<leftarrow> uboss_globalmq_pop (sc_mq s);
          Some (goto a (case r of None \<Rightarrow> Rel ctx (KHave q) | Some nq \<Rightarrow> Swap q nq ctx)
                  (s\<lparr>sc_mq := S\<rparr>)) }"

definition step_swap :: "nat \<Rightarrow> ptr \<Rightarrow> ptr \<Rightarrow> ptr \<Rightarrow> sched \<Rightarrow> sched option" where
  "step_swap a q nq ctx s =
     do { S \<leftarrow> uboss_globalmq_push q (sc_mq s);
          Some (goto a (Rel ctx (KHave nq)) (s\<lparr>sc_mq := S\<rparr>)) }"

text \<open>Reference counting: \<open>uboss_context_release\<close> and \<open>delete_context\<close>.\<close>

definition step_rel :: "nat \<Rightarrow> ptr \<Rightarrow> cont \<Rightarrow> sched \<Rightarrow> sched option" where
  "step_rel a ctx k s =
     do { c \<leftarrow> sc_ctx s ctx;
          Some (goto a (if sx_ref c - 1 = 0 then Del ctx k else resume k)
                  (s\<lparr>sc_ctx := (sc_ctx s)(ctx \<mapsto> c\<lparr>sx_ref := sx_ref c - 1\<rparr>)\<rparr>)) }"

definition step_del :: "nat \<Rightarrow> ptr \<Rightarrow> cont \<Rightarrow> sched \<Rightarrow> sched option" where
  "step_del a ctx k s =
     do { c \<leftarrow> sc_ctx s ctx;
          S \<leftarrow> uboss_mq_mark_release (sx_queue c) (sc_mq s);
          Some (goto a (resume k) (s\<lparr>sc_mq := S, sc_ctx := (sc_ctx s)(ctx := None)\<rparr>)) }"

text \<open>Senders, creators and retirers.\<close>

definition step_grab :: "nat \<Rightarrow> u32 \<Rightarrow> sched \<Rightarrow> sched option" where
  \<comment> \<open>\<open>uboss_handle_grab\<close>\<close>
  "step_grab a h s =
     (case sc_table s h of
        None \<Rightarrow> Some s
      | Some ctx \<Rightarrow> do { s1 \<leftarrow> grab ctx s; Some (goto a (Hold ctx) s1) })"

definition step_send :: "ptr \<Rightarrow> uboss_message \<Rightarrow> sched \<Rightarrow> sched option" where
  \<comment> \<open>\<open>uboss_mq_push\<close> on the queue of a grabbed context\<close>
  "step_send ctx m s =
     do { c \<leftarrow> sc_ctx s ctx;
          S \<leftarrow> uboss_mq_push (sx_queue c) m (sc_mq s);
          Some (s\<lparr>sc_mq := S\<rparr>) }"

definition step_create :: "nat \<Rightarrow> u32 \<Rightarrow> sched \<Rightarrow> sched option" where
  \<comment> \<open>the first half of \<open>uboss_context_new\<close>\<close>
  "step_create a h s =
     (let ctx = sc_brk s; (q, S) = uboss_mq_create h (sc_mq s)
      in Some (goto a (Init ctx q)
           (s\<lparr>sc_mq := S, sc_brk := Suc ctx, sc_table := (sc_table s)(h \<mapsto> ctx),
              sc_ctx := (sc_ctx s)(ctx \<mapsto> \<lparr>sx_ref = 2, sx_queue = q, sx_handle = h\<rparr>)\<rparr>)))"

definition step_init :: "nat \<Rightarrow> bool \<Rightarrow> ptr \<Rightarrow> ptr \<Rightarrow> sched \<Rightarrow> sched option" where
  \<comment> \<open>the module's init function succeeds or fails\<close>
  "step_init a ok ctx q s =
     do { c \<leftarrow> sc_ctx s ctx;
          Some (goto a (Rel ctx (if ok then KPush q else KRetire (sx_handle c) q)) s) }"

definition step_push :: "nat \<Rightarrow> ptr \<Rightarrow> sched \<Rightarrow> sched option" where
  "step_push a q s = do { S \<leftarrow> uboss_globalmq_push q (sc_mq s); Some (goto a Idle (s\<lparr>sc_mq := S\<rparr>)) }"

definition step_retire :: "nat \<Rightarrow> u32 \<Rightarrow> cont \<Rightarrow> sched \<Rightarrow> sched option" where
  \<comment> \<open>\<open>uboss_handle_retire\<close>\<close>
  "step_retire a h k s =
     (case sc_table s h of
        None \<Rightarrow> Some (goto a (resume k) s)
      | Some ctx \<Rightarrow> Some (goto a (Rel ctx k) (s\<lparr>sc_table := (sc_table s)(h := None)\<rparr>)))"

datatype choice = Work | Stop | Grab u32 | Send uboss_message | Create u32 | Fail | Forget u32

definition fresh_handle :: "u32 \<Rightarrow> sched \<Rightarrow> bool" where
  "fresh_handle h s \<longleftrightarrow> sc_table s h = None \<and>
     (\<forall>p m. mq_heap (sc_mq s) p = Some m \<longrightarrow> mq_handle m \<noteq> h) \<and>
     (\<forall>ctx c. sc_ctx s ctx = Some c \<longrightarrow> sx_handle c \<noteq> h)"

text \<open>The step of an agent under a choice of its environment; \<open>None\<close> is an abort.\<close>

definition agent_step :: "nat \<Rightarrow> choice \<Rightarrow> sched \<Rightarrow> sched option" where
  "agent_step a ch s =
     (case sc_pc s a of
        Idle \<Rightarrow> (case ch of
            Work \<Rightarrow> step_pop a s
          | Grab h \<Rightarrow> step_grab a h s
          | Create h \<Rightarrow> step_create a h s
          | Forget h \<Rightarrow> Some (goto a (Retire h KIdle) s)
          | _ \<Rightarrow> Some s)
      | Have q \<Rightarrow> step_have a q s
      | Dead q \<Rightarrow> step_dead a q s
      | Drop q \<Rightarrow> step_drop a q s
      | DropFree q \<Rightarrow> step_drop_free a q s
      | Busy q ctx \<Rightarrow> step_busy a (ch = Stop) q ctx s
      | Done q ctx \<Rightarrow> step_done a q ctx s
      | Swap q nq ctx \<Rightarrow> step_swap a q nq ctx s
      | Hold ctx \<Rightarrow> (case ch of
            Send m \<Rightarrow> step_send ctx m s
          | _ \<Rightarrow> Some (goto a (Rel ctx KIdle) s))
      | Init ctx q \<Rightarrow> step_init a (ch \<noteq> Fail) ctx q s
      | Rel ctx k \<Rightarrow> step_rel a ctx k s
      | Del ctx k \<Rightarrow> step_del a ctx k s
      | Push q \<Rightarrow> step_push a q s
      | Retire h k \<Rightarrow> step_retire a h k s)"

inductive sched_step :: "nat \<Rightarrow> sched \<Rightarrow> sched \<Rightarrow> bool" for n :: nat where
  sched_stepI: "a < n \<Longrightarrow> (\<forall>h. ch = Create h \<longrightarrow> fresh_handle h s) \<Longrightarrow>
    agent_step a ch s = Some s' \<Longrightarrow> sched_step n s s'"

end
