(* ===== verification/SchedPlaces.thy ===== *)
theory SchedPlaces
  imports Scheduler
begin

text \<open>
  The first part of the invariant of the interleaving model: where a service queue is. A
  queue that is scheduled (or marked for release) is in exactly one place, the run queue
  or the hands of one agent; a queue that is not is empty. \<open>Q a\<close> is the set of queues that
  agent \<open>a\<close> has in hand.
\<close>

definition scheduled :: "mq_state \<Rightarrow> ptr \<Rightarrow> bool" where
  "scheduled S p \<longleftrightarrow> (\<exists>m. mq_cores S p = Some m \<and> (mq_in_global m \<or> mq_release m))"

definition places :: "mq_state \<Rightarrow> ptr list \<Rightarrow> (nat \<Rightarrow> ptr set) \<Rightarrow> bool" where
  "places S qs Q \<longleftrightarrow> mqs_wf S qs \<and>
     (\<forall>a b p. p \<in> Q a \<longrightarrow> p \<in> Q b \<longrightarrow> a = b) \<and>
     (\<forall>a p. p \<in> Q a \<longrightarrow> p \<notin> set qs) \<and>
     (\<forall>p. p \<in> set qs \<or> (\<exists>a. p \<in> Q a) \<longleftrightarrow> scheduled S p) \<and>
     (\<forall>p m. mq_cores S p = Some m \<longrightarrow> \<not> mq_in_global m \<longrightarrow> \<not> mq_release m \<longrightarrow> mq_content m = [])"

lemma placesD:
  assumes "places S qs Q"
  shows "mqs_wf S qs" "p \<in> Q a \<Longrightarrow> p \<in> Q b \<Longrightarrow> a = b" "p \<in> Q a \<Longrightarrow> p \<notin> set qs"
    "p \<in> set qs \<or> (\<exists>a. p \<in> Q a) \<longleftrightarrow> scheduled S p" "p \<in> Q a \<Longrightarrow> scheduled S p"
    "mq_cores S p = Some m \<Longrightarrow> \<not> mq_in_global m \<Longrightarrow> \<not> mq_release m \<Longrightarrow> mq_content m = []"
    "p \<in> set qs \<Longrightarrow> scheduled S p"
proof -
  note P = assms [unfolded places_def]
  show "mqs_wf S qs" using P by blast
  show "p \<in> Q a \<Longrightarrow> p \<in> Q b \<Longrightarrow> a = b" using P by blast
  show "p \<in> Q a \<Longrightarrow> p \<notin> set qs" using P by blast
  show *: "p \<in> set qs \<or> (\<exists>a. p \<in> Q a) \<longleftrightarrow> scheduled S p" using P by blast
  then show "p \<in> Q a \<Longrightarrow> scheduled S p" "p \<in> set qs \<Longrightarrow> scheduled S p" by blast+
  show "mq_cores S p = Some m \<Longrightarrow> \<not> mq_in_global m \<Longrightarrow> \<not> mq_release m \<Longrightarrow> mq_content m = []"
    using P by blast
qed

lemma placesI:
  assumes "mqs_wf S qs" "\<And>a b p. p \<in> Q a \<Longrightarrow> p \<in> Q b \<Longrightarrow> a = b" "\<And>a p. p \<in> Q a \<Longrightarrow> p \<notin> set qs"
    "\<And>p. p \<in> set qs \<or> (\<exists>a. p \<in> Q a) \<longleftrightarrow> scheduled S p"
    "\<And>p m. mq_cores S p = Some m \<Longrightarrow> \<not> mq_in_global m \<Longrightarrow> \<not> mq_release m \<Longrightarrow> mq_content m = []"
  shows "places S qs Q"
  using assms unfolding places_def by blast

lemma places_heap:
  assumes "places S qs Q" "p \<in> Q a"
  obtains m where "mq_heap S p = Some m" "mq_wf m" "mq_in_global m \<or> mq_release m"
proof -
  from placesD(5) [OF assms] obtain m where "mq_cores S p = Some m" "mq_in_global m \<or> mq_release m"
    by (auto simp: scheduled_def)
  then obtain q where "mq_heap S p = Some q" "mq_core q = m" by (auto dest: mq_cores_SomeD)
  moreover have "mq_wf q" using placesD(1) [OF assms(1)] calculation(1) by (simp add: mqs_wf_def)
  ultimately show thesis
    using that \<open>mq_in_global m \<or> mq_release m\<close> by (metis mq_core_simps(2,3))
qed

lemma scheduled_cong: "mq_cores S' = mq_cores S \<Longrightarrow> scheduled S' p = scheduled S p"
  by (simp add: scheduled_def)

lemma scheduled_upd:
  assumes "mq_cores S' = (mq_cores S)(p := v)"
  shows "scheduled S' x =
    (if x = p then (\<exists>m. v = Some m \<and> (mq_in_global m \<or> mq_release m)) else scheduled S x)"
  using assms by (simp add: scheduled_def)

lemma scheduled_put: "scheduled (mq_put p m S) x =
    (if x = p then mq_in_global m \<or> mq_release m else scheduled S x)"
  using scheduled_upd [OF mq_cores_put [of p m S], of x] by simp

lemma held_insert: "(\<exists>b. x \<in> (Q(a := insert p (Q a))) b) \<longleftrightarrow> x = p \<or> (\<exists>b. x \<in> Q b)"
  by (metis fun_upd_apply insert_iff)

lemma held_remove:
  assumes "\<forall>b. p \<in> Q b \<longrightarrow> a = b"
  shows "(\<exists>b. x \<in> (Q(a := Q a - {p})) b) \<longleftrightarrow> x \<noteq> p \<and> (\<exists>b. x \<in> Q b)"
proof
  assume "\<exists>b. x \<in> (Q(a := Q a - {p})) b"
  then show "x \<noteq> p \<and> (\<exists>b. x \<in> Q b)" using assms by (auto split: if_splits)
next
  assume "x \<noteq> p \<and> (\<exists>b. x \<in> Q b)"
  then show "\<exists>b. x \<in> (Q(a := Q a - {p})) b" by (metis Diff_iff fun_upd_apply singletonD)
qed

text \<open>Taking a queue from the run queue.\<close>

lemma places_pop:
  assumes pl: "places S (p # qs) Q"
  shows "\<exists>S'. uboss_globalmq_pop S = Some (Some p, S') \<and> mq_cores S' = mq_cores S \<and>
    places S' qs (Q(a := insert p (Q a))) \<and> (\<forall>b. p \<notin> Q b)"
proof -
  note D = placesD [OF pl]
  have "gq_inv S (p # qs)" using D(1) by (simp add: mqs_wf_def)
  from globalmq_pop_Cons [OF this] obtain S' where
    S': "uboss_globalmq_pop S = Some (Some p, S')" "gq_inv S' qs" "mq_cores S' = mq_cores S" by blast
  have out: "p \<notin> Q b" for b using D(3) by fastforce
  have new: "p \<notin> set qs" using \<open>gq_inv S (p # qs)\<close> by (simp add: gq_inv_def)
  have "places S' qs (Q(a := insert p (Q a)))"
  proof (rule placesI)
    show "mqs_wf S' qs" using mqs_wf_cores [OF S'(3,2) D(1)] .
    show "\<And>b c x. x \<in> (Q(a := insert p (Q a))) b \<Longrightarrow> x \<in> (Q(a := insert p (Q a))) c \<Longrightarrow> b = c"
      using D(2) out by (auto split: if_splits)
    show "\<And>b x. x \<in> (Q(a := insert p (Q a))) b \<Longrightarrow> x \<notin> set qs"
      using D(3) new by (fastforce split: if_splits)
    show "x \<in> set qs \<or> (\<exists>b. x \<in> (Q(a := insert p (Q a))) b) \<longleftrightarrow> scheduled S' x" for x
      using D(4) [of x] unfolding held_insert scheduled_cong [OF S'(3)] by auto
    show "\<And>x m. mq_cores S' x = Some m \<Longrightarrow> \<not> mq_in_global m \<Longrightarrow> \<not> mq_release m \<Longrightarrow> mq_content m = []"
      using D(6) S'(3) by simp
  qed
  with S' out show ?thesis by blast
qed

lemma places_pop_Nil: "places S [] Q \<Longrightarrow> uboss_globalmq_pop S = Some (None, S)"
  using placesD(1) globalmq_pop_Nil by (auto simp: mqs_wf_def)

text \<open>Putting a queue in hand back into the run queue never trips the assertion.\<close>

lemma places_push:
  assumes pl: "places S qs Q" and p: "p \<in> Q a"
  shows "\<exists>S'. uboss_globalmq_push p S = Some S' \<and> mq_cores S' = mq_cores S \<and>
    places S' (qs @ [p]) (Q(a := Q a - {p}))"
proof -
  note D = placesD [OF pl]
  have uq: "\<forall>b. p \<in> Q b \<longrightarrow> a = b" using D(2) [OF p] by blast
  obtain m where m: "mq_heap S p = Some m" by (rule places_heap [OF pl p])
  have "gq_inv S qs" using D(1) by (simp add: mqs_wf_def)
  from globalmq_push_ok [OF this m D(3) [OF p]] obtain S' where
    S': "uboss_globalmq_push p S = Some S'" "gq_inv S' (qs @ [p])" "mq_cores S' = mq_cores S" by blast
  have "places S' (qs @ [p]) (Q(a := Q a - {p}))"
  proof (rule placesI)
    show "mqs_wf S' (qs @ [p])" using mqs_wf_cores [OF S'(3,2) D(1)] .
    show "\<And>b c x. x \<in> (Q(a := Q a - {p})) b \<Longrightarrow> x \<in> (Q(a := Q a - {p})) c \<Longrightarrow> b = c"
      using D(2) by (auto split: if_splits)
    show "\<And>b x. x \<in> (Q(a := Q a - {p})) b \<Longrightarrow> x \<notin> set (qs @ [p])"
      using D(2) [OF p] D(3) by (fastforce split: if_splits)
    show "x \<in> set (qs @ [p]) \<or> (\<exists>b. x \<in> (Q(a := Q a - {p})) b) \<longleftrightarrow> scheduled S' x" for x
      using D(4) [of x] D(5) [OF p] unfolding held_remove [OF uq] scheduled_cong [OF S'(3)]
      by auto
    show "\<And>x m. mq_cores S' x = Some m \<Longrightarrow> \<not> mq_in_global m \<Longrightarrow> \<not> mq_release m \<Longrightarrow> mq_content m = []"
      using D(6) S'(3) by simp
  qed
  with S' show ?thesis by blast
qed

text \<open>Popping a message from a queue in hand.\<close>

lemma places_put:
  assumes pl: "places S qs Q" and q: "mq_heap S p = Some m" and m': "mq_wf m'" "mq_next m' = mq_next m"
    and sched: "mq_in_global m' \<or> mq_release m' \<longleftrightarrow> (\<exists>b. p \<in> Q' b) \<or> p \<in> set qs"
    and empty: "\<not> mq_in_global m' \<Longrightarrow> \<not> mq_release m' \<Longrightarrow> mq_content m' = []"
    and Q': "\<And>b. Q' b = Q b \<or> Q' b = Q b - {p}"
  shows "places (mq_put p m' S) qs Q'"
proof -
  note D = placesD [OF pl]
  have sub: "x \<in> Q' b \<Longrightarrow> x \<in> Q b" "x \<noteq> p \<Longrightarrow> x \<in> Q b \<Longrightarrow> x \<in> Q' b" for x b
    using Q' [of b] by auto
  show ?thesis
  proof (rule placesI)
    show "mqs_wf (mq_put p m' S) qs" using mqs_wf_put [OF D(1) q m'(2,1)] .
    show "\<And>a b x. x \<in> Q' a \<Longrightarrow> x \<in> Q' b \<Longrightarrow> a = b" using D(2) sub by blast
    show "\<And>a x. x \<in> Q' a \<Longrightarrow> x \<notin> set qs" using D(3) sub by blast
    show "x \<in> set qs \<or> (\<exists>b. x \<in> Q' b) \<longleftrightarrow> scheduled (mq_put p m' S) x" for x
    proof (cases "x = p")
      case True
      then show ?thesis using sched unfolding scheduled_put by auto
    next
      case False
      then have "(\<exists>b. x \<in> Q' b) \<longleftrightarrow> (\<exists>b. x \<in> Q b)" using sub by blast
      with False show ?thesis using D(4) [of x] unfolding scheduled_put by simp
    qed
    show "\<And>x m. mq_cores (mq_put p m' S) x = Some m \<Longrightarrow> \<not> mq_in_global m \<Longrightarrow> \<not> mq_release m \<Longrightarrow>
        mq_content m = []"
      using D(6) empty by (auto split: if_splits)
  qed
qed

lemma places_mq_pop:
  assumes pl: "places S qs Q" and p: "p \<in> Q a"
  shows "\<exists>m r m'. mq_heap S p = Some m \<and> uboss_mq_pop m = Some (r, m') \<and>
    mq_handle m' = mq_handle m \<and> mq_release m' = mq_release m \<and>
    (r \<noteq> None \<longrightarrow> places (mq_put p m' S) qs Q) \<and>
    (r = None \<longrightarrow> mq_release m \<longrightarrow> places (mq_put p m' S) qs Q) \<and>
    (r = None \<longrightarrow> \<not> mq_release m \<longrightarrow> places (mq_put p m' S) qs (Q(a := Q a - {p})))"
proof -
  note D = placesD [OF pl]
  obtain m where m: "mq_heap S p = Some m" "mq_wf m" "mq_in_global m \<or> mq_release m"
    by (rule places_heap [OF pl p])
  obtain r m' where pop: "uboss_mq_pop m = Some (r, m')" "mq_wf m'"
    "r = None \<longrightarrow> mq_content m' = []" "mq_in_global m' = (r \<noteq> None \<and> mq_in_global m)"
    using mq_pop_law [OF m(2)] by blast
  note fr = mq_pop_frame [OF m(2) pop(1)]
  have out: "p \<notin> set qs" using D(3) [OF p] .
  have uq: "\<forall>b. p \<in> Q b \<longrightarrow> a = b" using D(2) [OF p] by blast
  have "places (mq_put p m' S) qs Q" if c: "r \<noteq> None \<or> mq_release m"
  proof (rule places_put [OF pl m(1) pop(2) fr(3)])
    have "mq_in_global m' \<or> mq_release m'" using m(3) c pop(4) fr(2) by auto
    then show "mq_in_global m' \<or> mq_release m' \<longleftrightarrow> (\<exists>b. p \<in> Q b) \<or> p \<in> set qs"
      "\<not> mq_in_global m' \<Longrightarrow> \<not> mq_release m' \<Longrightarrow> mq_content m' = []" using p by blast+
  qed simp
  moreover have "places (mq_put p m' S) qs (Q(a := Q a - {p}))" if c: "r = None" "\<not> mq_release m"
  proof (rule places_put [OF pl m(1) pop(2) fr(3)])
    have "\<not> (mq_in_global m' \<or> mq_release m')" using c pop(4) fr(2) by auto
    then show "mq_in_global m' \<or> mq_release m' \<longleftrightarrow> (\<exists>b. p \<in> (Q(a := Q a - {p})) b) \<or> p \<in> set qs"
      using out unfolding held_remove [OF uq] by blast
    show "mq_content m' = []" using pop(3) c(1) by blast
  qed simp
  ultimately show ?thesis using m pop fr by blast
qed

text \<open>Freeing a queue in hand, and creating one.\<close>

lemma places_free:
  assumes pl: "places S qs Q" and p: "p \<in> Q a"
  shows "\<exists>S'. mq_free p S = Some S' \<and> mq_cores S' = (mq_cores S)(p := None) \<and>
    places S' qs (Q(a := Q a - {p}))"
proof -
  note D = placesD [OF pl]
  have uq: "\<forall>b. p \<in> Q b \<longrightarrow> a = b" using D(2) [OF p] by blast
  obtain m where m: "mq_heap S p = Some m" by (rule places_heap [OF pl p])
  from mq_free_ok [OF D(1) m D(3) [OF p]] obtain S' where
    S': "mq_free p S = Some S'" "mqs_wf S' qs" "mq_cores S' = (mq_cores S)(p := None)" by blast
  have "places S' qs (Q(a := Q a - {p}))"
  proof (rule placesI)
    show "mqs_wf S' qs" by fact
    show "\<And>b c x. x \<in> (Q(a := Q a - {p})) b \<Longrightarrow> x \<in> (Q(a := Q a - {p})) c \<Longrightarrow> b = c"
      using D(2) by (auto split: if_splits)
    show "\<And>b x. x \<in> (Q(a := Q a - {p})) b \<Longrightarrow> x \<notin> set qs" using D(3) by (auto split: if_splits)
    show "x \<in> set qs \<or> (\<exists>b. x \<in> (Q(a := Q a - {p})) b) \<longleftrightarrow> scheduled S' x" for x
      using D(4) [of x] D(3) [OF p]
      unfolding held_remove [OF uq] scheduled_upd [OF S'(3)] by auto
    show "\<And>x m. mq_cores S' x = Some m \<Longrightarrow> \<not> mq_in_global m \<Longrightarrow> \<not> mq_release m \<Longrightarrow> mq_content m = []"
      using D(6) S'(3) by (auto split: if_splits)
  qed
  with S' show ?thesis by blast
qed

lemma places_create:
  assumes pl: "places S qs Q" and new: "uboss_mq_create h S = (p, S')"
  shows "places S' qs (Q(a := insert p (Q a)))" "mq_cores S p = None"
    "mq_cores S' = (mq_cores S)(p \<mapsto> mq_new h)"
proof -
  note D = placesD [OF pl]
  note C = uboss_mq_create_ok [OF D(1) new]
  show none: "mq_cores S p = None" using C(2) by simp
  show cores: "mq_cores S' = (mq_cores S)(p \<mapsto> mq_new h)" by (rule C(5))
  have out: "p \<notin> Q b" for b using D(5) [of p b] none unfolding scheduled_def by auto
  have g: "mq_in_global (mq_new h)" by (simp add: mq_new_def)
  show "places S' qs (Q(a := insert p (Q a)))"
  proof (rule placesI)
    show "mqs_wf S' qs" by (rule C(1))
    show "\<And>b c x. x \<in> (Q(a := insert p (Q a))) b \<Longrightarrow> x \<in> (Q(a := insert p (Q a))) c \<Longrightarrow> b = c"
      using D(2) out by (auto split: if_splits)
    show "\<And>b x. x \<in> (Q(a := insert p (Q a))) b \<Longrightarrow> x \<notin> set qs"
      using D(3) C(3) by (auto split: if_splits)
    show "x \<in> set qs \<or> (\<exists>b. x \<in> (Q(a := insert p (Q a))) b) \<longleftrightarrow> scheduled S' x" for x
      using D(4) [of x] g unfolding held_insert scheduled_upd [OF cores] by auto
    show "\<And>x m. mq_cores S' x = Some m \<Longrightarrow> \<not> mq_in_global m \<Longrightarrow> \<not> mq_release m \<Longrightarrow> mq_content m = []"
      using D(6) cores g by (auto split: if_splits)
  qed
qed

text \<open>Pushing a message to the queue of a live context, and marking it for release.\<close>

lemma places_add:
  assumes pl: "places S qs Q" and m: "mq_heap S p = Some m"
    and S': "mqs_wf S' (if mq_in_global m then qs else qs @ [p])"
      "mq_cores S' = (mq_cores S)(p \<mapsto> m')" "mq_in_global m' \<or> mq_release m'"
    and nr: "\<not> mq_release m" "mq_in_global m \<Longrightarrow> mq_in_global m' \<or> mq_release m'"
  shows "places S' (if mq_in_global m then qs else qs @ [p]) Q"
proof -
  note D = placesD [OF pl]
  have core: "mq_cores S p = Some (mq_core m)" using m by (simp add: mq_cores_def)
  then have sch: "scheduled S p \<longleftrightarrow> mq_in_global m" using nr(1) by (simp add: scheduled_def)
  show ?thesis
  proof (rule placesI)
    show "mqs_wf S' (if mq_in_global m then qs else qs @ [p])" by fact
    show "\<And>b c x. x \<in> Q b \<Longrightarrow> x \<in> Q c \<Longrightarrow> b = c" using D(2) by blast
    show "x \<notin> set (if mq_in_global m then qs else qs @ [p])" if "x \<in> Q b" for b x
      using D(3) [OF that] D(5) [OF that] sch by auto
    show "x \<in> set (if mq_in_global m then qs else qs @ [p]) \<or> (\<exists>b. x \<in> Q b) \<longleftrightarrow> scheduled S' x" for x
      using D(4) [of x] D(4) [of p] sch S'(3) unfolding scheduled_upd [OF S'(2)] by auto
    show "\<And>x m. mq_cores S' x = Some m \<Longrightarrow> \<not> mq_in_global m \<Longrightarrow> \<not> mq_release m \<Longrightarrow> mq_content m = []"
      using D(6) S'(2,3) by (auto split: if_splits)
  qed
qed

lemma places_not_scheduled:
  assumes "places S qs Q" "mq_heap S p = Some m" "\<not> mq_release m" "\<not> mq_in_global m"
  shows "p \<notin> set qs"
  using placesD(4) [OF assms(1), of p] assms(2-4) by (auto simp: scheduled_def mq_cores_def)

lemma places_send:
  assumes pl: "places S qs Q" and m: "mq_heap S p = Some m" "\<not> mq_release m"
  shows "\<exists>S' qs' m'. uboss_mq_push p msg S = Some S' \<and> places S' qs' Q \<and>
    mq_cores S' = (mq_cores S)(p \<mapsto> mq_core m') \<and> mq_handle m' = mq_handle m \<and> \<not> mq_release m' \<and>
    mq_content m' = mq_content m @ [msg]"
proof -
  have free: "\<not> mq_in_global m \<Longrightarrow> p \<notin> set qs" using places_not_scheduled [OF pl m] .
  from uboss_mq_push_ok [OF placesD(1) [OF pl] m(1) free, of msg] obtain S' m' where
    S': "uboss_mq_push p msg S = Some S'" "mqs_wf S' (if mq_in_global m then qs else qs @ [p])"
      "mq_cores S' = (mq_cores S)(p \<mapsto> mq_core m')" "mq_content m' = mq_content m @ [msg]"
      "mq_in_global m'" "mq_handle m' = mq_handle m" "mq_release m' = mq_release m" by blast
  have "places S' (if mq_in_global m then qs else qs @ [p]) Q"
    using pl m(1) S'(2,3) by (rule places_add) (use S'(5) m(2) in simp_all)
  with S' m(2) show ?thesis by auto
qed

lemma places_mark:
  assumes pl: "places S qs Q" and m: "mq_heap S p = Some m" "\<not> mq_release m"
  shows "\<exists>S' qs'. uboss_mq_mark_release p S = Some S' \<and> places S' qs' Q \<and>
    mq_cores S' = (mq_cores S)(p \<mapsto> mq_core (m\<lparr>mq_release := True\<rparr>))"
proof -
  have free: "\<not> mq_in_global m \<Longrightarrow> p \<notin> set qs" using places_not_scheduled [OF pl m] .
  from uboss_mq_mark_release_ok [OF placesD(1) [OF pl] m free] obtain S' where
    S': "uboss_mq_mark_release p S = Some S'" "mqs_wf S' (if mq_in_global m then qs else qs @ [p])"
      "mq_cores S' = (mq_cores S)(p \<mapsto> mq_core (m\<lparr>mq_release := True\<rparr>))" by blast
  have "places S' (if mq_in_global m then qs else qs @ [p]) Q"
    using pl m(1) S'(2,3) by (rule places_add) (use m(2) in simp_all)
  with S' show ?thesis by blast
qed

end
