(* ===== verification/SchedRefs.thy ===== *)
theory SchedRefs
  imports SchedPlaces
begin

text \<open>
  The second part of the invariant of the interleaving model: reference counts and the
  links between contexts, handles and queues. \<open>C\<close> are the contexts, \<open>T\<close> the handle table,
  \<open>R a\<close> is the context that agent \<open>a\<close> holds a reference to, \<open>D a\<close> the one it is deleting.
\<close>

section \<open>Reference counts\<close>

definition holders :: "nat \<Rightarrow> (nat \<Rightarrow> ptr option) \<Rightarrow> ptr \<Rightarrow> nat set" where
  "holders n R ctx = {a. a < n \<and> R a = Some ctx}"

definition listed :: "(u32 \<rightharpoonup> ptr) \<Rightarrow> ptr \<Rightarrow> sctx \<Rightarrow> bool" where
  "listed T ctx c \<longleftrightarrow> T (sx_handle c) = Some ctx"

definition ref_count :: "nat \<Rightarrow> (u32 \<rightharpoonup> ptr) \<Rightarrow> (nat \<Rightarrow> ptr option) \<Rightarrow> ptr \<Rightarrow> sctx \<Rightarrow> nat" where
  "ref_count n T R ctx c = card (holders n R ctx) + (if listed T ctx c then 1 else 0)"

definition refs_ok :: "nat \<Rightarrow> (ptr \<rightharpoonup> sctx) \<Rightarrow> (u32 \<rightharpoonup> ptr) \<Rightarrow> (nat \<Rightarrow> ptr option) \<Rightarrow>
    (nat \<Rightarrow> ptr option) \<Rightarrow> bool" where
  "refs_ok n C T R D \<longleftrightarrow>
     (\<forall>ctx c. C ctx = Some c \<longrightarrow> sx_ref c = word_of_nat (ref_count n T R ctx c)) \<and>
     (\<forall>h ctx. T h = Some ctx \<longrightarrow> (\<exists>c. C ctx = Some c \<and> sx_handle c = h)) \<and>
     (\<forall>a ctx. R a = Some ctx \<longrightarrow> C ctx \<noteq> None) \<and>
     (\<forall>a ctx. D a = Some ctx \<longrightarrow> (\<exists>c. C ctx = Some c \<and> \<not> listed T ctx c) \<and> holders n R ctx = {} \<and>
        (\<forall>b. D b = Some ctx \<longrightarrow> b = a)) \<and>
     (\<forall>a. n \<le> a \<longrightarrow> R a = None \<and> D a = None)"

lemma refs_okD:
  assumes "refs_ok n C T R D"
  shows "C ctx = Some c \<Longrightarrow> sx_ref c = word_of_nat (ref_count n T R ctx c)"
    "T h = Some ctx \<Longrightarrow> \<exists>c. C ctx = Some c \<and> sx_handle c = h"
    "R a = Some ctx \<Longrightarrow> \<exists>c. C ctx = Some c"
    "D a = Some ctx \<Longrightarrow> \<exists>c. C ctx = Some c \<and> \<not> listed T ctx c"
    "D a = Some ctx \<Longrightarrow> holders n R ctx = {}"
    "D a = Some ctx \<Longrightarrow> D b = Some ctx \<Longrightarrow> b = a"
    "n \<le> a \<Longrightarrow> R a = None" "n \<le> a \<Longrightarrow> D a = None"
  using assms unfolding refs_ok_def by blast+

lemma refs_okI:
  assumes "\<And>ctx c. C ctx = Some c \<Longrightarrow> sx_ref c = word_of_nat (ref_count n T R ctx c)"
    "\<And>h ctx. T h = Some ctx \<Longrightarrow> \<exists>c. C ctx = Some c \<and> sx_handle c = h"
    "\<And>a ctx. R a = Some ctx \<Longrightarrow> C ctx \<noteq> None"
    "\<And>a ctx. D a = Some ctx \<Longrightarrow> \<exists>c. C ctx = Some c \<and> \<not> listed T ctx c"
    "\<And>a ctx. D a = Some ctx \<Longrightarrow> holders n R ctx = {}"
    "\<And>a b ctx. D a = Some ctx \<Longrightarrow> D b = Some ctx \<Longrightarrow> b = a"
    "\<And>a. n \<le> a \<Longrightarrow> R a = None" "\<And>a. n \<le> a \<Longrightarrow> D a = None"
  shows "refs_ok n C T R D"
  using assms unfolding refs_ok_def by blast

lemma holders_finite [simp]: "finite (holders n R ctx)"
  by (simp add: holders_def)

lemma holders_upd:
  assumes "a < n"
  shows "holders n (R(a := v)) ctx = (if v = Some ctx then insert a (holders n R ctx) else holders n R ctx - {a})"
  using assms by (auto simp: holders_def)

lemma holders_iff: "a < n \<Longrightarrow> a \<in> holders n R ctx \<longleftrightarrow> R a = Some ctx"
  by (simp add: holders_def)

lemma card_holders_enter:
  assumes "a < n" "R a = None"
  shows "card (holders n (R(a := Some ctx)) x) = card (holders n R x) + (if x = ctx then 1 else 0)"
  using assms by (auto simp: holders_upd holders_iff)

lemma card_holders_leave:
  assumes "a < n" "R a = Some ctx"
  shows "card (holders n R x) = card (holders n (R(a := None)) x) + (if x = ctx then 1 else 0)"
proof (cases "x = ctx")
  case True
  then have "a \<in> holders n R x" using assms by (simp add: holders_iff)
  then have "card (holders n R x) = Suc (card (holders n R x - {a}))" by (metis card.remove holders_finite)
  then show ?thesis using True assms(1) by (simp add: holders_upd)
next
  case False
  then have "a \<notin> holders n R x" using assms by (simp add: holders_iff)
  then show ?thesis using False assms(1) by (simp add: holders_upd)
qed

lemma ref_count_less:
  assumes "Suc n < 2 ^ 32"
  shows "ref_count n T R ctx c < 2 ^ 32"
proof -
  have "holders n R ctx \<subseteq> {..<n}" by (auto simp: holders_def)
  then have "card (holders n R ctx) \<le> card {..<n}" by (intro card_mono) auto
  with assms show ?thesis by (simp add: ref_count_def)
qed

lemma ref_zero_iff:
  assumes "Suc n < 2 ^ 32" "refs_ok n C T R D" "C ctx = Some c"
  shows "sx_ref c = 0 \<longleftrightarrow> holders n R ctx = {} \<and> \<not> listed T ctx c"
  using word_of_nat_zero_iff [OF ref_count_less [OF assms(1)]] refs_okD(1) [OF assms(2,3)]
  by (simp add: ref_count_def)

lemma listed_cong: "sx_handle c' = sx_handle c \<Longrightarrow> listed T ctx c' = listed T ctx c"
  by (simp add: listed_def)

lemma ref_count_cong: "sx_handle c' = sx_handle c \<Longrightarrow> ref_count n T R ctx c' = ref_count n T R ctx c"
  by (simp add: ref_count_def listed_def)

text \<open>Grabbing a context that the table lists.\<close>

lemma refs_grab:
  assumes ok: "refs_ok n C T R D" and a: "a < n" "R a = None" and h: "T h = Some ctx" "C ctx = Some c"
  shows "refs_ok n (C(ctx \<mapsto> c\<lparr>sx_ref := sx_ref c + 1\<rparr>)) T (R(a := Some ctx)) D"
proof (rule refs_okI)
  note O = refs_okD [OF ok]
  have lst: "listed T ctx c" using O(2) [OF h(1)] h by (auto simp: listed_def)
  show "sx_ref d = word_of_nat (ref_count n T (R(a := Some ctx)) x d)"
    if "(C(ctx \<mapsto> c\<lparr>sx_ref := sx_ref c + 1\<rparr>)) x = Some d" for x d
    using that O(1) [OF h(2)] O(1) [of x d] card_holders_enter [of a n R ctx x, OF a]
    by (cases "x = ctx") (auto simp: ref_count_def listed_def add.commute)
  show "\<exists>d. (C(ctx \<mapsto> c\<lparr>sx_ref := sx_ref c + 1\<rparr>)) x = Some d \<and> sx_handle d = g" if "T g = Some x" for g x
    using O(2) [OF that] h(2) by auto
  show "(C(ctx \<mapsto> c\<lparr>sx_ref := sx_ref c + 1\<rparr>)) x \<noteq> None" if "(R(a := Some ctx)) b = Some x" for b x
    using that O(3) [of b x] by (auto split: if_splits)
  show "\<exists>d. (C(ctx \<mapsto> c\<lparr>sx_ref := sx_ref c + 1\<rparr>)) x = Some d \<and> \<not> listed T x d"
    if "D b = Some x" for b x
    using O(4) [OF that] h(2) lst by (auto simp: listed_def)
  show "holders n (R(a := Some ctx)) x = {}" if "D b = Some x" for b x
    using O(4,5) [OF that] h(2) lst a by (auto simp: holders_upd)
qed (use refs_okD(6-8) [OF ok] a in \<open>auto split: if_splits\<close>)

text \<open>Dropping a reference; the one who takes the count to zero has to delete.\<close>

lemma refs_drop:
  assumes n: "Suc n < 2 ^ 32" and ok: "refs_ok n C T R D" and a: "a < n" "R a = Some ctx" "D a = None"
    and c: "C ctx = Some c"
  shows "refs_ok n (C(ctx \<mapsto> c\<lparr>sx_ref := sx_ref c - 1\<rparr>)) T (R(a := None))
    (D(a := if sx_ref c - 1 = 0 then Some ctx else None))"
proof -
  note O = refs_okD [OF ok]
  let ?C = "C(ctx \<mapsto> c\<lparr>sx_ref := sx_ref c - 1\<rparr>)" and ?R = "R(a := None)"
  have ref: "sx_ref c - 1 = word_of_nat (ref_count n T ?R ctx c)"
    using O(1) [OF c] card_holders_leave [of a n R ctx ctx, OF a(1,2)] by (simp add: ref_count_def)
  have zero: "sx_ref c - 1 = 0 \<longleftrightarrow> holders n ?R ctx = {} \<and> \<not> listed T ctx c"
    using word_of_nat_zero_iff [OF ref_count_less [OF n, of T ?R ctx c]]
    unfolding ref by (simp add: ref_count_def)
  have nodel: "D b \<noteq> Some ctx" for b
    using O(5) [of b ctx] holders_iff [OF a(1), of R ctx] a(2) by auto
  show ?thesis
  proof (rule refs_okI)
    show "sx_ref d = word_of_nat (ref_count n T ?R x d)" if "?C x = Some d" for x d
      using that ref O(1) [of x d] card_holders_leave [of a n R ctx x, OF a(1,2)]
      by (cases "x = ctx") (auto simp: ref_count_def listed_def)
    show "\<exists>d. ?C x = Some d \<and> sx_handle d = g" if "T g = Some x" for g x
      using O(2) [OF that] c by auto
    show "?C x \<noteq> None" if "?R b = Some x" for b x
      using that O(3) [of b x] by (auto split: if_splits)
    show "\<exists>d. ?C x = Some d \<and> \<not> listed T x d"
      if "(D(a := if sx_ref c - 1 = 0 then Some ctx else None)) b = Some x" for b x
    proof (cases "b = a")
      case True
      with that zero show ?thesis by (auto simp: listed_def split: if_splits)
    next
      case False
      with that have "D b = Some x" by simp
      then show ?thesis using O(4) [of b x] nodel [of b] by auto
    qed
    show "holders n ?R x = {}"
      if "(D(a := if sx_ref c - 1 = 0 then Some ctx else None)) b = Some x" for b x
    proof (cases "b = a")
      case True
      with that zero show ?thesis by (auto split: if_splits)
    next
      case False
      with that have "D b = Some x" by simp
      then show ?thesis using O(5) [of b x] a(1) by (auto simp: holders_upd)
    qed
    show "b' = b" if "(D(a := if sx_ref c - 1 = 0 then Some ctx else None)) b = Some x"
      "(D(a := if sx_ref c - 1 = 0 then Some ctx else None)) b' = Some x" for b b' x
      using that nodel O(6) by (auto split: if_splits)
  qed (use O(7,8) a in \<open>auto split: if_splits\<close>)
qed

lemma refs_delete:
  assumes ok: "refs_ok n C T R D" and a: "D a = Some ctx"
  shows "refs_ok n (C(ctx := None)) T R (D(a := None))"
proof -
  note O = refs_okD [OF ok]
  obtain c where c: "C ctx = Some c" "\<not> listed T ctx c" using O(4) [OF a] by blast
  have noref: "R b \<noteq> Some ctx" for b
    using O(5) [OF a] O(7) [of b] by (cases "b < n") (auto simp: holders_def)
  show ?thesis
  proof (rule refs_okI)
    show "sx_ref d = word_of_nat (ref_count n T R x d)" if "(C(ctx := None)) x = Some d" for x d
      using that O(1) by (auto split: if_splits)
    show "\<exists>d. (C(ctx := None)) x = Some d \<and> sx_handle d = h" if "T h = Some x" for h x
      using O(2) [OF that] c that by (auto simp: listed_def)
    show "(C(ctx := None)) x \<noteq> None" if "R b = Some x" for b x
      using that O(3) [OF that] noref by auto
    show "\<exists>d. (C(ctx := None)) x = Some d \<and> \<not> listed T x d" if "(D(a := None)) b = Some x" for b x
      using that O(4) [of b x] O(6) [OF a, of b] by (auto split: if_splits)
    show "holders n R x = {}" if "(D(a := None)) b = Some x" for b x
      using that O(5) [of b x] by (auto split: if_splits)
    show "b' = b" if "(D(a := None)) b = Some x" "(D(a := None)) b' = Some x" for b b' x
      using that O(6) by (auto split: if_splits)
  qed (use O(7,8) in \<open>auto split: if_splits\<close>)
qed

text \<open>Taking a context out of the table moves the table's reference to the agent.\<close>

lemma refs_unlist:
  assumes ok: "refs_ok n C T R D" and a: "a < n" "R a = None" and h: "T h = Some ctx"
  shows "refs_ok n C (T(h := None)) (R(a := Some ctx)) D"
proof -
  note O = refs_okD [OF ok]
  obtain c where c: "C ctx = Some c" "sx_handle c = h" using O(2) [OF h] by blast
  have lst: "listed T ctx c" using c h by (simp add: listed_def)
  have lists: "listed (T(h := None)) x d \<longleftrightarrow> listed T x d \<and> x \<noteq> ctx" if "C x = Some d" for x d
    using that h c by (auto simp: listed_def)
  show ?thesis
  proof (rule refs_okI)
    show "sx_ref d = word_of_nat (ref_count n (T(h := None)) (R(a := Some ctx)) x d)" if "C x = Some d" for x d
      using O(1) [OF that] lists [OF that] card_holders_enter [of a n R ctx x, OF a] lst c(1) that
      by (cases "x = ctx") (auto simp: ref_count_def)
    show "\<exists>d. C x = Some d \<and> sx_handle d = g" if "(T(h := None)) g = Some x" for g x
      using that O(2) [of g x] by (auto split: if_splits)
    show "C x \<noteq> None" if "(R(a := Some ctx)) b = Some x" for b x
      using that O(3) [of b x] c by (auto split: if_splits)
    show "\<exists>d. C x = Some d \<and> \<not> listed (T(h := None)) x d" if "D b = Some x" for b x
      using O(4) [OF that] lists by blast
    show "holders n (R(a := Some ctx)) x = {}" if "D b = Some x" for b x
      using O(4,5) [OF that] c lst a by (auto simp: holders_upd)
  qed (use O(6-8) a in \<open>auto split: if_splits\<close>)
qed

lemma refs_create:
  assumes ok: "refs_ok n C T R D" and a: "a < n" "R a = None" and new: "C ctx = None" "T h = None"
    and c: "sx_ref c = 2" "sx_handle c = h"
  shows "refs_ok n (C(ctx \<mapsto> c)) (T(h \<mapsto> ctx)) (R(a := Some ctx)) D"
proof -
  note O = refs_okD [OF ok]
  have "holders n R ctx = {}" using O(3) new(1) by (fastforce simp: holders_def)
  then have one: "card (holders n (R(a := Some ctx)) ctx) = 1"
    using card_holders_enter [of a n R ctx ctx, OF a] by simp
  have lists: "listed (T(h \<mapsto> ctx)) x d \<longleftrightarrow> listed T x d" if "C x = Some d" "x \<noteq> ctx" for x d
    using that new by (auto simp: listed_def)
  show ?thesis
  proof (rule refs_okI)
    show "sx_ref d = word_of_nat (ref_count n (T(h \<mapsto> ctx)) (R(a := Some ctx)) x d)"
      if "(C(ctx \<mapsto> c)) x = Some d" for x d
    proof (cases "x = ctx")
      case True
      then have "ref_count n (T(h \<mapsto> ctx)) (R(a := Some ctx)) x d = 2"
        using that one c by (simp add: ref_count_def listed_def)
      then show ?thesis using that True c by simp
    next
      case False
      then show ?thesis
        using that O(1) [of x d] lists [of x d] card_holders_enter [of a n R ctx x, OF a]
        by (simp add: ref_count_def)
    qed
    show "\<exists>d. (C(ctx \<mapsto> c)) x = Some d \<and> sx_handle d = g" if "(T(h \<mapsto> ctx)) g = Some x" for g x
      using that O(2) [of g x] c new by (auto split: if_splits)
    show "(C(ctx \<mapsto> c)) x \<noteq> None" if "(R(a := Some ctx)) b = Some x" for b x
      using that O(3) [of b x] by (auto split: if_splits)
    show "\<exists>d. (C(ctx \<mapsto> c)) x = Some d \<and> \<not> listed (T(h \<mapsto> ctx)) x d" if "D b = Some x" for b x
      using O(4) [OF that] lists new by (metis fun_upd_apply option.distinct(1))
    show "holders n (R(a := Some ctx)) x = {}" if "D b = Some x" for b x
      using O(4,5) [OF that] new a by (auto simp: holders_upd)
  qed (use O(6-8) a in \<open>auto split: if_splits\<close>)
qed

end
