(* ===== verification/SchedProps.thy ===== *)
theory SchedProps
  imports SchedRefs
begin

text \<open>
  The invariant of the interleaving model and its preservation by every step of every
  agent, and the theorems that follow for all interleavings.
\<close>

section \<open>What an agent has\<close>

fun ref_of :: "agent_pc \<Rightarrow> ptr option" where
  "ref_of (Busy q ctx) = Some ctx"
| "ref_of (Done q ctx) = Some ctx"
| "ref_of (Swap q nq ctx) = Some ctx"
| "ref_of (Hold ctx) = Some ctx"
| "ref_of (Init ctx q) = Some ctx"
| "ref_of (Rel ctx k) = Some ctx"
| "ref_of _ = None"

fun del_of :: "agent_pc \<Rightarrow> ptr option" where
  "del_of (Del ctx k) = Some ctx"
| "del_of _ = None"

fun cont_queue :: "cont \<Rightarrow> ptr set" where
  "cont_queue KIdle = {}"
| "cont_queue (KHave q) = {q}"
| "cont_queue (KPush q) = {q}"
| "cont_queue (KRetire h q) = {q}"
| "cont_queue (KDead q) = {q}"

fun queues_of :: "agent_pc \<Rightarrow> ptr set" where
  "queues_of Idle = {}"
| "queues_of (Have q) = {q}"
| "queues_of (Dead q) = {q}"
| "queues_of (Drop q) = {q}"
| "queues_of (DropFree q) = {q}"
| "queues_of (Busy q ctx) = {q}"
| "queues_of (Done q ctx) = {q}"
| "queues_of (Swap q nq ctx) = {q, nq}"
| "queues_of (Hold ctx) = {}"
| "queues_of (Init ctx q) = {q}"
| "queues_of (Rel ctx k) = cont_queue k"
| "queues_of (Del ctx k) = cont_queue k"
| "queues_of (Push q) = {q}"
| "queues_of (Retire h k) = cont_queue k"

text \<open>The queue that an agent takes for the queue of its context, and the one it drops.\<close>

fun own_of :: "agent_pc \<Rightarrow> (ptr \<times> ptr) option" where
  "own_of (Busy q ctx) = Some (ctx, q)"
| "own_of (Done q ctx) = Some (ctx, q)"
| "own_of (Swap q nq ctx) = Some (ctx, q)"
| "own_of (Init ctx q) = Some (ctx, q)"
| "own_of _ = None"

fun drop_of :: "agent_pc \<Rightarrow> ptr option" where
  "drop_of (Drop q) = Some q"
| "drop_of (DropFree q) = Some q"
| "drop_of _ = None"

fun swap_ok :: "agent_pc \<Rightarrow> bool" where
  "swap_ok (Swap q nq ctx) = (q \<noteq> nq)"
| "swap_ok _ = True"

lemma resume_simps [simp]:
  "queues_of (resume k) = cont_queue k" "ref_of (resume k) = None" "del_of (resume k) = None"
  "own_of (resume k) = None" "drop_of (resume k) = None" "swap_ok (resume k)"
  by (cases k; simp)+

lemma own_holds: "own_of pc = Some (ctx, q) \<Longrightarrow> ref_of pc = Some ctx"
  by (cases pc) auto

lemma drop_has: "drop_of pc = Some q \<Longrightarrow> q \<in> queues_of pc"
  by (cases pc) auto

section \<open>Links between contexts, handles and queues\<close>

definition cshape :: "(ptr \<rightharpoonup> sctx) \<Rightarrow> ptr \<rightharpoonup> ptr \<times> u32" where
  "cshape C = (\<lambda>ctx. map_option (\<lambda>c. (sx_queue c, sx_handle c)) (C ctx))"

definition qshape :: "mq_state \<Rightarrow> ptr \<rightharpoonup> u32 \<times> bool" where
  "qshape S = (\<lambda>p. map_option (\<lambda>m. (mq_handle m, mq_release m)) (mq_cores S p))"

definition links :: "(ptr \<rightharpoonup> ptr \<times> u32) \<Rightarrow> (u32 \<rightharpoonup> ptr) \<Rightarrow> (ptr \<rightharpoonup> u32 \<times> bool) \<Rightarrow> bool" where
  "links cs T sh \<longleftrightarrow> (\<forall>ctx q h. cs ctx = Some (q, h) \<longrightarrow> sh q = Some (h, False)) \<and>
     (\<forall>x y q h h'. cs x = Some (q, h) \<longrightarrow> cs y = Some (q, h') \<longrightarrow> x = y) \<and>
     (\<forall>p h r ctx. sh p = Some (h, r) \<longrightarrow> T h = Some ctx \<longrightarrow> (\<exists>h'. cs ctx = Some (p, h')))"

lemma linksD:
  assumes "links cs T sh"
  shows "cs ctx = Some (q, h) \<Longrightarrow> sh q = Some (h, False)"
    "cs x = Some (q, h) \<Longrightarrow> cs y = Some (q, h') \<Longrightarrow> x = y"
    "sh p = Some (h, r) \<Longrightarrow> T h = Some ctx \<Longrightarrow> \<exists>h'. cs ctx = Some (p, h')"
  using assms unfolding links_def by blast+

lemma cshape_ref [simp]:
  "C ctx = Some c \<Longrightarrow> cshape (C(ctx \<mapsto> c\<lparr>sx_ref := r\<rparr>)) = cshape C"
  by (auto simp: cshape_def)

lemma cshape_Some: "C ctx = Some c \<Longrightarrow> cshape C ctx = Some (sx_queue c, sx_handle c)"
  by (simp add: cshape_def)

lemma cshape_upd: "cshape (C(ctx := v)) = (cshape C)(ctx := map_option (\<lambda>c. (sx_queue c, sx_handle c)) v)"
  by (auto simp: cshape_def)

lemma qshape_cores: "mq_cores S' = mq_cores S \<Longrightarrow> qshape S' = qshape S"
  by (simp add: qshape_def)

lemma qshape_upd:
  "mq_cores S' = (mq_cores S)(p := v) \<Longrightarrow>
    qshape S' = (qshape S)(p := map_option (\<lambda>m. (mq_handle m, mq_release m)) v)"
  by (auto simp: qshape_def)

lemma qshape_heap: "mq_heap S p = Some m \<Longrightarrow> qshape S p = Some (mq_handle m, mq_release m)"
  by (simp add: qshape_def mq_cores_def)

lemma qshape_put:
  "mq_heap S p = Some m \<Longrightarrow> mq_handle m' = mq_handle m \<Longrightarrow> mq_release m' = mq_release m \<Longrightarrow>
    qshape (mq_put p m' S) = qshape S"
  using qshape_upd [OF mq_cores_put [of p m' S]] qshape_heap [of S p m] by (auto simp: fun_upd_idem)

section \<open>The invariant\<close>

abbreviation "Qf s \<equiv> \<lambda>b. queues_of (sc_pc s b)"
abbreviation "Rf s \<equiv> \<lambda>b. ref_of (sc_pc s b)"
abbreviation "Df s \<equiv> \<lambda>b. del_of (sc_pc s b)"

definition sinv :: "nat \<Rightarrow> sched \<Rightarrow> ptr list \<Rightarrow> bool" where
  "sinv n s qs \<longleftrightarrow> places (sc_mq s) qs (Qf s) \<and>
     refs_ok n (sc_ctx s) (sc_table s) (Rf s) (Df s) \<and>
     links (cshape (sc_ctx s)) (sc_table s) (qshape (sc_mq s)) \<and>
     (\<forall>b ctx q. own_of (sc_pc s b) = Some (ctx, q) \<longrightarrow> (\<exists>h. cshape (sc_ctx s) ctx = Some (q, h))) \<and>
     (\<forall>b q. drop_of (sc_pc s b) = Some q \<longrightarrow> (\<exists>h. qshape (sc_mq s) q = Some (h, True))) \<and>
     (\<forall>b. swap_ok (sc_pc s b)) \<and> (\<forall>b. n \<le> b \<longrightarrow> sc_pc s b = Idle) \<and>
     (\<forall>x. sc_brk s \<le> x \<longrightarrow> sc_ctx s x = None)"

lemma sinvD:
  assumes "sinv n s qs"
  shows "places (sc_mq s) qs (Qf s)" "refs_ok n (sc_ctx s) (sc_table s) (Rf s) (Df s)"
    "links (cshape (sc_ctx s)) (sc_table s) (qshape (sc_mq s))"
    "own_of (sc_pc s b) = Some (ctx, q) \<Longrightarrow> \<exists>h. cshape (sc_ctx s) ctx = Some (q, h)"
    "drop_of (sc_pc s b) = Some q \<Longrightarrow> \<exists>h. qshape (sc_mq s) q = Some (h, True)"
    "swap_ok (sc_pc s b)" "n \<le> b \<Longrightarrow> sc_pc s b = Idle" "sc_brk s \<le> x \<Longrightarrow> sc_ctx s x = None"
  using assms unfolding sinv_def by blast+

lemma sinv_goto:
  assumes inv: "sinv n s qs" and a: "a < n"
    and S: "places (sc_mq s') qs' ((Qf s)(a := queues_of pc))"
      "refs_ok n (sc_ctx s') (sc_table s') ((Rf s)(a := ref_of pc)) ((Df s)(a := del_of pc))"
      "links (cshape (sc_ctx s')) (sc_table s') (qshape (sc_mq s'))"
    and own: "\<And>ctx q. own_of pc = Some (ctx, q) \<Longrightarrow> \<exists>h. cshape (sc_ctx s') ctx = Some (q, h)"
      "\<And>b ctx q. b \<noteq> a \<Longrightarrow> own_of (sc_pc s b) = Some (ctx, q) \<Longrightarrow> \<exists>h. cshape (sc_ctx s') ctx = Some (q, h)"
    and drp: "\<And>q. drop_of pc = Some q \<Longrightarrow> \<exists>h. qshape (sc_mq s') q = Some (h, True)"
      "\<And>b q. b \<noteq> a \<Longrightarrow> drop_of (sc_pc s b) = Some q \<Longrightarrow> \<exists>h. qshape (sc_mq s') q = Some (h, True)"
    and sw: "swap_ok pc" and brk: "\<And>x. sc_brk s' \<le> x \<Longrightarrow> sc_ctx s' x = None" and pcs: "sc_pc s' = sc_pc s"
  shows "sinv n (goto a pc s') qs'"
proof -
  have old: "swap_ok (sc_pc s b)" "n \<le> b \<Longrightarrow> sc_pc s b = Idle" for b
    using sinvD(6,7) [OF inv] by blast+
  have fields: "Qf (goto a pc s') = (Qf s)(a := queues_of pc)" "Rf (goto a pc s') = (Rf s)(a := ref_of pc)"
    "Df (goto a pc s') = (Df s)(a := del_of pc)" "sc_mq (goto a pc s') = sc_mq s'"
    "sc_ctx (goto a pc s') = sc_ctx s'" "sc_table (goto a pc s') = sc_table s'"
    "sc_brk (goto a pc s') = sc_brk s'" "sc_pc (goto a pc s') = (sc_pc s)(a := pc)"
    using pcs by (auto simp: goto_def fun_eq_iff)
  have "places (sc_mq (goto a pc s')) qs' (Qf (goto a pc s'))"
    using S(1) unfolding fields(1,4) .
  moreover have "refs_ok n (sc_ctx (goto a pc s')) (sc_table (goto a pc s')) (Rf (goto a pc s')) (Df (goto a pc s'))"
    using S(2) unfolding fields(2,3,5,6) .
  ultimately show ?thesis
    unfolding sinv_def using S(3) own drp sw brk old a by (simp add: fields(4-8))
qed

text \<open>The common case: contexts keep their queues and handles, queues their handles and marks.\<close>

lemma sinv_goto_frame:
  assumes inv: "sinv n s qs" and a: "a < n"
    and S: "places (sc_mq s') qs' ((Qf s)(a := queues_of pc))"
      "refs_ok n (sc_ctx s') (sc_table s') ((Rf s)(a := ref_of pc)) ((Df s)(a := del_of pc))"
    and shape: "cshape (sc_ctx s') = cshape (sc_ctx s)" "sc_table s' = sc_table s"
      "qshape (sc_mq s') = qshape (sc_mq s)" "sc_brk s' = sc_brk s" "sc_pc s' = sc_pc s"
    and own: "\<And>ctx q. own_of pc = Some (ctx, q) \<Longrightarrow> \<exists>h. cshape (sc_ctx s) ctx = Some (q, h)"
    and drp: "\<And>q. drop_of pc = Some q \<Longrightarrow> \<exists>h. qshape (sc_mq s) q = Some (h, True)"
    and sw: "swap_ok pc"
  shows "sinv n (goto a pc s') qs'"
proof (rule sinv_goto [OF inv a S])
  show "sc_ctx s' x = None" if "sc_brk s' \<le> x" for x
    using that sinvD(8) [OF inv, of x] shape(1,4) by (metis cshape_def map_option_is_None)
qed (use sinvD(3-5) [OF inv] own drp sw shape in auto)

section \<open>Every step keeps the invariant and none aborts\<close>

lemma fun_upd_same_val: "f a = v \<Longrightarrow> f(a := v) = f"
  by auto

lemma Qf_same: "queues_of pc = queues_of (sc_pc s a) \<Longrightarrow> (Qf s)(a := queues_of pc) = Qf s"
  by (rule fun_upd_same_val) simp

lemma Rf_same: "ref_of pc = ref_of (sc_pc s a) \<Longrightarrow> (Rf s)(a := ref_of pc) = Rf s"
  by (rule fun_upd_same_val) simp

lemma Df_same: "del_of pc = del_of (sc_pc s a) \<Longrightarrow> (Df s)(a := del_of pc) = Df s"
  by (rule fun_upd_same_val) simp

lemmas same_fields = Qf_same Rf_same Df_same

text \<open>A step that only moves the program counter.\<close>

lemma sinv_move:
  assumes inv: "sinv n s qs" and a: "a < n"
    and same: "queues_of pc = queues_of (sc_pc s a)" "ref_of pc = ref_of (sc_pc s a)"
      "del_of pc = del_of (sc_pc s a)"
    and own: "\<And>ctx q. own_of pc = Some (ctx, q) \<Longrightarrow> \<exists>h. cshape (sc_ctx s) ctx = Some (q, h)"
    and drp: "\<And>q. drop_of pc = Some q \<Longrightarrow> \<exists>h. qshape (sc_mq s) q = Some (h, True)"
    and sw: "swap_ok pc"
  shows "sinv n (goto a pc s) qs"
  by (rule sinv_goto_frame [OF inv a])
     (use sinvD(1,2) [OF inv] Qf_same [OF same(1)] Rf_same [OF same(2)] Df_same [OF same(3)]
        own drp sw in simp_all)

lemma sinv_in_hand:
  assumes "sinv n s qs" "q \<in> queues_of (sc_pc s a)"
  obtains m where "mq_heap (sc_mq s) q = Some m" "mq_wf m"
  using places_heap [OF sinvD(1) [OF assms(1)], of q a] assms(2) by metis

lemma pop_keeps:
  assumes inv: "sinv n s qs" and a: "a < n"
  shows "\<exists>r S qs'. uboss_globalmq_pop (sc_mq s) = Some (r, S) \<and> mq_cores S = mq_cores (sc_mq s) \<and>
    places S qs' ((Qf s)(a := (case r of None \<Rightarrow> {} | Some p \<Rightarrow> {p}) \<union> queues_of (sc_pc s a))) \<and>
    (\<forall>p. r = Some p \<longrightarrow> p \<notin> queues_of (sc_pc s a))"
proof (cases qs)
  case Nil
  have pl: "places (sc_mq s) [] (Qf s)" using sinvD(1) [OF inv] Nil by simp
  have "(Qf s)(a := {} \<union> queues_of (sc_pc s a)) = Qf s" by (rule fun_upd_same_val) simp
  with pl places_pop_Nil [OF pl] show ?thesis by force
next
  case (Cons p qs')
  have "places (sc_mq s) (p # qs') (Qf s)" using sinvD(1) [OF inv] Cons by simp
  from places_pop [OF this, of a] show ?thesis by fastforce
qed

lemma step_pop_ok:
  assumes inv: "sinv n s qs" and a: "a < n" "sc_pc s a = Idle"
  shows "\<exists>s' qs'. step_pop a s = Some s' \<and> sinv n s' qs'"
proof -
  obtain r S qs' where r: "uboss_globalmq_pop (sc_mq s) = Some (r, S)" "mq_cores S = mq_cores (sc_mq s)"
    "places S qs' ((Qf s)(a := (case r of None \<Rightarrow> {} | Some p \<Rightarrow> {p}) \<union> queues_of (sc_pc s a)))"
    using pop_keeps [OF inv a(1)] by blast
  let ?pc = "case r of None \<Rightarrow> Idle | Some q \<Rightarrow> Have q"
  have "queues_of ?pc = (case r of None \<Rightarrow> {} | Some p \<Rightarrow> {p}) \<union> queues_of (sc_pc s a)"
    "ref_of ?pc = ref_of (sc_pc s a)" "del_of ?pc = del_of (sc_pc s a)"
    "own_of ?pc = None" "drop_of ?pc = None" "swap_ok ?pc"
    using a(2) by (simp_all split: option.splits)
  then have "sinv n (goto a ?pc (s\<lparr>sc_mq := S\<rparr>)) qs'"
    using sinvD(2) [OF inv] r qshape_cores [OF r(2)]
    by (intro sinv_goto_frame [OF inv a(1)]) (simp_all add: same_fields)
  with r(1) show ?thesis by (auto simp: step_pop_def)
qed

lemma refs_free:
  assumes "sinv n s qs" "del_of (sc_pc s a) = None" "del_of pc = None"
  shows "(Df s)(a := del_of pc) = Df s"
  using assms by (intro fun_upd_same_val) simp

lemma grab_ok:
  assumes inv: "sinv n s qs" and a: "a < n" and h: "sc_table s h = Some ctx"
    and old: "ref_of (sc_pc s a) = None" "del_of (sc_pc s a) = None"
    and pc: "queues_of pc = queues_of (sc_pc s a)" "ref_of pc = Some ctx" "del_of pc = None"
      "\<And>x q. own_of pc = Some (x, q) \<Longrightarrow> \<exists>h. cshape (sc_ctx s) x = Some (q, h)"
      "drop_of pc = None" "swap_ok pc"
  shows "\<exists>s'. grab ctx s = Some s' \<and> sinv n (goto a pc s') qs"
proof -
  obtain c where c: "sc_ctx s ctx = Some c" using refs_okD(2) [OF sinvD(2) [OF inv] h] by blast
  let ?s = "s\<lparr>sc_ctx := (sc_ctx s)(ctx \<mapsto> c\<lparr>sx_ref := sx_ref c + 1\<rparr>)\<rparr>"
  have "refs_ok n (sc_ctx ?s) (sc_table ?s) ((Rf s)(a := ref_of pc)) ((Df s)(a := del_of pc))"
    using refs_grab [OF sinvD(2) [OF inv] a _ h c] old(1) pc(2) refs_free [OF inv old(2) pc(3)] by simp
  then have "sinv n (goto a pc ?s) qs"
    using sinvD(1) [OF inv] c pc by (intro sinv_goto_frame [OF inv a]) (simp_all add: same_fields)
  with c show ?thesis by (simp add: grab_def)
qed

lemma step_have_ok:
  assumes inv: "sinv n s qs" and a: "a < n" "sc_pc s a = Have q"
  shows "\<exists>s' qs'. step_have a q s = Some s' \<and> sinv n s' qs'"
proof -
  obtain m where m: "mq_heap (sc_mq s) q = Some m" by (rule sinv_in_hand [OF inv, of q a]) (use a in simp)
  show ?thesis
  proof (cases "sc_table s (mq_handle m)")
    case None
    have "sinv n (goto a (Dead q) s) qs" using inv a by (intro sinv_move) simp_all
    with m None show ?thesis by (auto simp: step_have_def)
  next
    case (Some ctx)
    have "\<exists>h. cshape (sc_ctx s) ctx = Some (q, h)"
      using linksD(3) [OF sinvD(3) [OF inv] qshape_heap [OF m] Some] .
    then have "\<exists>s'. grab ctx s = Some s' \<and> sinv n (goto a (Busy q ctx) s') qs"
      using a by (intro grab_ok [OF inv a(1) Some]) auto
    with m Some show ?thesis by (auto simp: step_have_def)
  qed
qed

lemma step_grab_ok:
  assumes inv: "sinv n s qs" and a: "a < n" "sc_pc s a = Idle"
  shows "\<exists>s' qs'. step_grab a h s = Some s' \<and> sinv n s' qs'"
proof (cases "sc_table s h")
  case None
  with inv show ?thesis by (auto simp: step_grab_def)
next
  case (Some ctx)
  have "\<exists>s'. grab ctx s = Some s' \<and> sinv n (goto a (Hold ctx) s') qs"
    using a by (intro grab_ok [OF inv a(1) Some]) auto
  with Some show ?thesis by (auto simp: step_grab_def)
qed

text \<open>Putting a queue in hand back into the run queue.\<close>

lemma push_back_ok:
  assumes inv: "sinv n s qs" and a: "a < n" and q: "q \<in> queues_of (sc_pc s a)"
    and pc: "queues_of pc = queues_of (sc_pc s a) - {q}" "ref_of pc = ref_of (sc_pc s a)"
      "del_of pc = del_of (sc_pc s a)" "own_of pc = None" "drop_of pc = None" "swap_ok pc"
  shows "\<exists>S qs'. uboss_globalmq_push q (sc_mq s) = Some S \<and> sinv n (goto a pc (s\<lparr>sc_mq := S\<rparr>)) qs'"
proof -
  from places_push [OF sinvD(1) [OF inv], of q a] q obtain S where
    S: "uboss_globalmq_push q (sc_mq s) = Some S" "mq_cores S = mq_cores (sc_mq s)"
      "places S (qs @ [q]) ((Qf s)(a := queues_of (sc_pc s a) - {q}))" by blast
  have "sinv n (goto a pc (s\<lparr>sc_mq := S\<rparr>)) (qs @ [q])"
    using sinvD(2) [OF inv] S pc qshape_cores [OF S(2)]
    by (intro sinv_goto_frame [OF inv a]) (simp_all add: same_fields)
  with S(1) show ?thesis by blast
qed

lemma step_dead_ok:
  assumes inv: "sinv n s qs" and a: "a < n" "sc_pc s a = Dead q"
  shows "\<exists>s' qs'. step_dead a q s = Some s' \<and> sinv n s' qs'"
proof -
  obtain m where m: "mq_heap (sc_mq s) q = Some m" by (rule sinv_in_hand [OF inv, of q a]) (use a in simp)
  have "sinv n (goto a (Drop q) s) qs" if "mq_release m"
    using inv a that qshape_heap [OF m] by (intro sinv_move) auto
  moreover have "\<exists>S qs'. uboss_globalmq_push q (sc_mq s) = Some S \<and>
      sinv n (goto a Idle (s\<lparr>sc_mq := S\<rparr>)) qs'"
    using a by (intro push_back_ok [OF inv a(1)]) simp_all
  ultimately show ?thesis using m by (auto simp: step_dead_def)
qed

lemma step_swap_ok:
  assumes inv: "sinv n s qs" and a: "a < n" "sc_pc s a = Swap q nq ctx"
  shows "\<exists>s' qs'. step_swap a q nq ctx s = Some s' \<and> sinv n s' qs'"
proof -
  have "q \<noteq> nq" using sinvD(6) [OF inv, of a] a by simp
  then have "\<exists>S qs'. uboss_globalmq_push q (sc_mq s) = Some S \<and>
      sinv n (goto a (Rel ctx (KHave nq)) (s\<lparr>sc_mq := S\<rparr>)) qs'"
    using a by (intro push_back_ok [OF inv a(1)]) auto
  then show ?thesis by (auto simp: step_swap_def)
qed

lemma step_push_ok:
  assumes inv: "sinv n s qs" and a: "a < n" "sc_pc s a = Push q"
  shows "\<exists>s' qs'. step_push a q s = Some s' \<and> sinv n s' qs'"
proof -
  have "\<exists>S qs'. uboss_globalmq_push q (sc_mq s) = Some S \<and>
      sinv n (goto a Idle (s\<lparr>sc_mq := S\<rparr>)) qs'"
    using a by (intro push_back_ok [OF inv a(1)]) auto
  then show ?thesis by (auto simp: step_push_def)
qed

text \<open>Popping a message from a queue in hand.\<close>

lemma step_drop_ok:
  assumes inv: "sinv n s qs" and a: "a < n" "sc_pc s a = Drop q"
  shows "\<exists>s' qs'. step_drop a q s = Some s' \<and> sinv n s' qs'"
proof -
  have q: "q \<in> queues_of (sc_pc s a)" using a by simp
  from places_mq_pop [OF sinvD(1) [OF inv], of q a] q obtain m r m' where
    m: "mq_heap (sc_mq s) q = Some m" "uboss_mq_pop m = Some (r, m')" "mq_handle m' = mq_handle m"
      "mq_release m' = mq_release m" "r \<noteq> None \<longrightarrow> places (mq_put q m' (sc_mq s)) qs (Qf s)"
      "r = None \<longrightarrow> mq_release m \<longrightarrow> places (mq_put q m' (sc_mq s)) qs (Qf s)" by blast
  have rel: "mq_release m" using sinvD(5) [OF inv, of a q] a(2) qshape_heap [OF m(1)] by auto
  have pl: "places (mq_put q m' (sc_mq s)) qs (Qf s)" using m(5,6) rel by blast
  let ?pc = "if r = None then DropFree q else Drop q"
  have "sinv n (goto a ?pc (s\<lparr>sc_mq := mq_put q m' (sc_mq s)\<rparr>)) qs"
    using sinvD(2) [OF inv] pl a qshape_put [OF m(1,3,4)] rel qshape_heap [OF m(1)]
    by (intro sinv_goto_frame [OF inv a(1)]) (auto simp: same_fields split: if_splits)
  with m show ?thesis by (auto simp: step_drop_def)
qed

lemma step_busy_ok:
  assumes inv: "sinv n s qs" and a: "a < n" "sc_pc s a = Busy q ctx"
  shows "\<exists>s' qs'. step_busy a stop q ctx s = Some s' \<and> sinv n s' qs'"
proof -
  have q: "q \<in> queues_of (sc_pc s a)" using a by simp
  from places_mq_pop [OF sinvD(1) [OF inv], of q a] q obtain m r m' where
    m: "mq_heap (sc_mq s) q = Some m" "uboss_mq_pop m = Some (r, m')" "mq_handle m' = mq_handle m"
      "mq_release m' = mq_release m" "r \<noteq> None \<longrightarrow> places (mq_put q m' (sc_mq s)) qs (Qf s)"
      "r = None \<longrightarrow> \<not> mq_release m \<longrightarrow>
         places (mq_put q m' (sc_mq s)) qs ((Qf s)(a := queues_of (sc_pc s a) - {q}))" by blast
  obtain h where h: "cshape (sc_ctx s) ctx = Some (q, h)" using sinvD(4) [OF inv, of a ctx q] a by auto
  have "\<not> mq_release m" using linksD(1) [OF sinvD(3) [OF inv] h] qshape_heap [OF m(1)] by simp
  then have pl: "places (mq_put q m' (sc_mq s)) qs ((Qf s)(a := {}))" if "r = None"
    using m(6) that a(2) by simp
  let ?pc = "if r = None then Rel ctx KIdle else if stop then Done q ctx else Busy q ctx"
  have "places (mq_put q m' (sc_mq s)) qs ((Qf s)(a := queues_of ?pc))"
    using pl m(5) a(2) Qf_same [of ?pc s a] by (cases "r = None") auto
  then have "sinv n (goto a ?pc (s\<lparr>sc_mq := mq_put q m' (sc_mq s)\<rparr>)) qs"
    using sinvD(2) [OF inv] a qshape_put [OF m(1,3,4)] h
    by (intro sinv_goto_frame [OF inv a(1)]) (auto simp: Rf_same Df_same split: if_splits)
  with m show ?thesis by (auto simp: step_busy_def)
qed

lemma step_done_ok:
  assumes inv: "sinv n s qs" and a: "a < n" "sc_pc s a = Done q ctx"
  shows "\<exists>s' qs'. step_done a q ctx s = Some s' \<and> sinv n s' qs'"
proof -
  obtain h where h: "cshape (sc_ctx s) ctx = Some (q, h)" using sinvD(4) [OF inv, of a ctx q] a by auto
  then obtain c where c: "sc_ctx s ctx = Some c" "sx_queue c = q" by (auto simp: cshape_def)
  obtain r S qs' where r: "uboss_globalmq_pop (sc_mq s) = Some (r, S)" "mq_cores S = mq_cores (sc_mq s)"
    "places S qs' ((Qf s)(a := (case r of None \<Rightarrow> {} | Some p \<Rightarrow> {p}) \<union> queues_of (sc_pc s a)))"
    "\<forall>p. r = Some p \<longrightarrow> p \<notin> queues_of (sc_pc s a)"
    using pop_keeps [OF inv a(1)] by blast
  let ?pc = "case r of None \<Rightarrow> Rel ctx (KHave q) | Some nq \<Rightarrow> Swap q nq ctx"
  have "queues_of ?pc = (case r of None \<Rightarrow> {} | Some p \<Rightarrow> {p}) \<union> queues_of (sc_pc s a)"
    "ref_of ?pc = ref_of (sc_pc s a)" "del_of ?pc = del_of (sc_pc s a)" "drop_of ?pc = None" "swap_ok ?pc"
    "own_of ?pc = None \<or> own_of ?pc = Some (ctx, q)"
    using a(2) r(4) by (auto split: option.splits)
  then have "sinv n (goto a ?pc (s\<lparr>sc_mq := S\<rparr>)) qs'"
    using sinvD(2) [OF inv] r h qshape_cores [OF r(2)]
    by (intro sinv_goto_frame [OF inv a(1)]) (auto simp: same_fields)
  with r(1) c show ?thesis by (auto simp: step_done_def)
qed

text \<open>Freeing a dropped queue.\<close>

lemma step_drop_free_ok:
  assumes inv: "sinv n s qs" and a: "a < n" "sc_pc s a = DropFree q"
  shows "\<exists>s' qs'. step_drop_free a q s = Some s' \<and> sinv n s' qs'"
proof -
  have q: "q \<in> queues_of (sc_pc s a)" using a by simp
  from places_free [OF sinvD(1) [OF inv], of q a] q obtain S where
    S: "mq_free q (sc_mq s) = Some S" "mq_cores S = (mq_cores (sc_mq s))(q := None)"
      "places S qs ((Qf s)(a := queues_of (sc_pc s a) - {q}))" by blast
  have sh: "qshape S = (qshape (sc_mq s))(q := None)" using qshape_upd [OF S(2)] by simp
  obtain h where rel: "qshape (sc_mq s) q = Some (h, True)" using sinvD(5) [OF inv, of a q] a by auto
  note L = linksD [OF sinvD(3) [OF inv]]
  have "links (cshape (sc_ctx s)) (sc_table s) (qshape S)"
    unfolding links_def
  proof (intro conjI allI impI)
    fix x p g
    assume "cshape (sc_ctx s) x = Some (p, g)"
    then have "qshape (sc_mq s) p = Some (g, False)" by (rule L(1))
    then show "qshape S p = Some (g, False)" using rel sh by auto
  next
    fix p g r x
    assume "qshape S p = Some (g, r)" "sc_table s g = Some x"
    then show "\<exists>h'. cshape (sc_ctx s) x = Some (p, h')" using L(3) sh by (auto split: if_splits)
  qed (use L(2) in blast)
  moreover have "\<exists>h. qshape S p = Some (h, True)" if "b \<noteq> a" "drop_of (sc_pc s b) = Some p" for b p
  proof -
    have "p \<in> queues_of (sc_pc s b)" using drop_has [OF that(2)] .
    then have "p \<noteq> q" using placesD(2) [OF sinvD(1) [OF inv], of q a b] q that(1) by auto
    then show ?thesis using sinvD(5) [OF inv that(2)] sh by simp
  qed
  moreover have "refs_ok n (sc_ctx s) (sc_table s) ((Rf s)(a := ref_of Idle)) ((Df s)(a := del_of Idle))"
    using sinvD(2) [OF inv] Rf_same [of Idle s a] Df_same [of Idle s a] a by simp
  ultimately have "sinv n (goto a Idle (s\<lparr>sc_mq := S\<rparr>)) qs"
    using sinvD(4,8) [OF inv] S(3) a by (intro sinv_goto [OF inv a(1)]) auto
  with S(1) show ?thesis by (auto simp: step_drop_free_def)
qed

text \<open>References.\<close>

lemma step_rel_ok:
  assumes n: "Suc n < 2 ^ 32" and inv: "sinv n s qs" and a: "a < n" "sc_pc s a = Rel ctx k"
  shows "\<exists>s' qs'. step_rel a ctx k s = Some s' \<and> sinv n s' qs'"
proof -
  have R: "Rf s a = Some ctx" "Df s a = None" using a by simp_all
  obtain c where c: "sc_ctx s ctx = Some c" using refs_okD(3) [OF sinvD(2) [OF inv] R(1)] by blast
  let ?pc = "if sx_ref c - 1 = 0 then Del ctx k else resume k"
  let ?s = "s\<lparr>sc_ctx := (sc_ctx s)(ctx \<mapsto> c\<lparr>sx_ref := sx_ref c - 1\<rparr>)\<rparr>"
  have pc: "ref_of ?pc = None" "del_of ?pc = (if sx_ref c - 1 = 0 then Some ctx else None)"
    "queues_of ?pc = queues_of (sc_pc s a)" "own_of ?pc = None" "drop_of ?pc = None" "swap_ok ?pc"
    using a by auto
  have "refs_ok n (sc_ctx ?s) (sc_table ?s) ((Rf s)(a := ref_of ?pc)) ((Df s)(a := del_of ?pc))"
    using refs_drop [OF n sinvD(2) [OF inv] a(1) R c] unfolding pc(1,2) by simp
  then have "sinv n (goto a ?pc ?s) qs"
    using sinvD(1) [OF inv] c pc(3-6) by (intro sinv_goto_frame [OF inv a(1)]) (simp_all add: Qf_same)
  with c show ?thesis by (auto simp: step_rel_def)
qed

lemma step_del_ok:
  assumes inv: "sinv n s qs" and a: "a < n" "sc_pc s a = Del ctx k"
  shows "\<exists>s' qs'. step_del a ctx k s = Some s' \<and> sinv n s' qs'"
proof -
  note R = refs_okD [OF sinvD(2) [OF inv]] and L = linksD [OF sinvD(3) [OF inv]]
  have Da: "Df s a = Some ctx" using a by simp
  obtain c where c: "sc_ctx s ctx = Some c" "\<not> listed (sc_table s) ctx c" using R(4) [OF Da] by blast
  have cs: "cshape (sc_ctx s) ctx = Some (sx_queue c, sx_handle c)" using c(1) by (rule cshape_Some)
  obtain m where m: "mq_heap (sc_mq s) (sx_queue c) = Some m" "\<not> mq_release m" "mq_handle m = sx_handle c"
    using L(1) [OF cs] by (auto simp: qshape_def mq_cores_def)
  from places_mark [OF sinvD(1) [OF inv] m(1,2)] obtain S qs' where
    S: "uboss_mq_mark_release (sx_queue c) (sc_mq s) = Some S" "places S qs' (Qf s)"
      "mq_cores S = (mq_cores (sc_mq s))(sx_queue c \<mapsto> mq_core (m\<lparr>mq_release := True\<rparr>))" by blast
  let ?C = "(sc_ctx s)(ctx := None)"
  have sh: "qshape S = (qshape (sc_mq s))(sx_queue c \<mapsto> (sx_handle c, True))"
    using qshape_upd [OF S(3)] m(3) by simp
  have cs': "cshape ?C = (cshape (sc_ctx s))(ctx := None)" by (simp add: cshape_upd)
  have "links (cshape ?C) (sc_table s) (qshape S)"
    unfolding links_def
  proof (intro conjI allI impI)
    fix x q h
    assume "cshape ?C x = Some (q, h)"
    then have x: "x \<noteq> ctx" "cshape (sc_ctx s) x = Some (q, h)" by (auto simp: cs' split: if_splits)
    then have "q \<noteq> sx_queue c" using L(2) [of x q h ctx] cs by auto
    then show "qshape S q = Some (h, False)" using L(1) [OF x(2)] sh by simp
  next
    fix x y q h h'
    assume "cshape ?C x = Some (q, h)" "cshape ?C y = Some (q, h')"
    then show "x = y" using L(2) by (auto simp: cs' split: if_splits)
  next
    fix p h r x
    assume p: "qshape S p = Some (h, r)" "sc_table s h = Some x"
    have "x \<noteq> ctx" using R(2) [OF p(2)] c p(2) by (auto simp: listed_def)
    moreover have "\<exists>r'. qshape (sc_mq s) p = Some (h, r')"
      using p(1) sh qshape_heap [OF m(1)] m(3) by (auto split: if_splits)
    ultimately show "\<exists>h'. cshape ?C x = Some (p, h')" using L(3) [OF _ p(2)] by (auto simp: cs')
  qed
  moreover have "\<exists>h. cshape ?C x = Some (q, h)" if "b \<noteq> a" "own_of (sc_pc s b) = Some (x, q)" for b x q
  proof -
    have "Rf s b = Some x" using own_holds [OF that(2)] by simp
    then have "x \<noteq> ctx"
      using R(5) [OF Da] R(7) [of b] by (cases "b < n") (auto simp: holders_def)
    then show ?thesis using sinvD(4) [OF inv that(2)] by (simp add: cs')
  qed
  moreover have "\<exists>h. qshape S q = Some (h, True)" if "b \<noteq> a" "drop_of (sc_pc s b) = Some q" for b q
    using sinvD(5) [OF inv that(2)] sh by auto
  moreover have "refs_ok n ?C (sc_table s) ((Rf s)(a := None)) ((Df s)(a := None))"
    using refs_delete [OF sinvD(2) [OF inv] Da] Rf_same [of Idle s a] a by simp
  moreover have "places S qs' ((Qf s)(a := queues_of (resume k)))"
    using S(2) Qf_same [of "resume k" s a] a by simp
  ultimately have "sinv n (goto a (resume k) (s\<lparr>sc_mq := S, sc_ctx := ?C\<rparr>)) qs'"
    using sinvD(8) [OF inv] by (intro sinv_goto [OF inv a(1)]) auto
  with c(1) S(1) show ?thesis by (auto simp: step_del_def)
qed

text \<open>Senders, creators and retirers.\<close>

lemma step_send_ok:
  assumes inv: "sinv n s qs" and a: "sc_pc s a = Hold ctx"
  shows "\<exists>s' qs'. step_send ctx m s = Some s' \<and> sinv n s' qs'"
proof -
  have "Rf s a = Some ctx" using a by simp
  then obtain c where c: "sc_ctx s ctx = Some c" using refs_okD(3) [OF sinvD(2) [OF inv]] by blast
  obtain q where q: "mq_heap (sc_mq s) (sx_queue c) = Some q" "\<not> mq_release q"
    using linksD(1) [OF sinvD(3) [OF inv] cshape_Some [of "sc_ctx s" ctx c, OF c]] by (auto simp: qshape_def mq_cores_def)
  from places_send [OF sinvD(1) [OF inv] q, of m] obtain S qs' q' where
    S: "uboss_mq_push (sx_queue c) m (sc_mq s) = Some S" "places S qs' (Qf s)"
      "mq_cores S = (mq_cores (sc_mq s))(sx_queue c \<mapsto> mq_core q')" "mq_handle q' = mq_handle q"
      "\<not> mq_release q'" by blast
  have "qshape S = qshape (sc_mq s)"
    using qshape_upd [OF S(3)] S(4,5) q(2) qshape_heap [OF q(1)] by (auto simp: fun_upd_idem)
  then have "sinv n (s\<lparr>sc_mq := S\<rparr>) qs'" using inv S(2) unfolding sinv_def by simp
  with c S(1) show ?thesis by (auto simp: step_send_def)
qed

lemma step_create_ok:
  assumes inv: "sinv n s qs" and a: "a < n" "sc_pc s a = Idle" and h: "fresh_handle h s"
  shows "\<exists>s' qs'. step_create a h s = Some s' \<and> sinv n s' qs'"
proof -
  note L = linksD [OF sinvD(3) [OF inv]]
  obtain q S where new: "uboss_mq_create h (sc_mq s) = (q, S)" by fastforce
  note P = places_create [OF sinvD(1) [OF inv] new]
  let ?x = "sc_brk s" and ?c = "\<lparr>sx_ref = 2, sx_queue = q, sx_handle = h\<rparr>"
  let ?C = "(sc_ctx s)(?x \<mapsto> ?c)" and ?T = "(sc_table s)(h \<mapsto> ?x)"
  have none: "sc_ctx s ?x = None" using sinvD(8) [OF inv] by simp
  have T: "sc_table s h = None" using h by (simp add: fresh_handle_def)
  have sh: "qshape S = (qshape (sc_mq s))(q \<mapsto> (h, False))"
    using qshape_upd [OF P(3)] by (simp add: mq_new_def)
  have old: "qshape (sc_mq s) q = None" using P(2) by (simp add: qshape_def)
  have cs: "cshape ?C = (cshape (sc_ctx s))(?x \<mapsto> (q, h))" by (simp add: cshape_upd)
  have csx: "cshape (sc_ctx s) ?x = None" using none by (simp add: cshape_def)
  have noq: "qshape (sc_mq s) p \<noteq> Some (h, r)" for p r
  proof
    assume "qshape (sc_mq s) p = Some (h, r)"
    then obtain m where "mq_heap (sc_mq s) p = Some m" "mq_handle m = h"
      by (auto simp: qshape_def mq_cores_def)
    then show False using h by (auto simp: fresh_handle_def)
  qed
  have "links (cshape ?C) ?T (qshape S)"
    unfolding links_def
  proof (intro conjI allI impI)
    fix y p g
    assume "cshape ?C y = Some (p, g)"
    then show "qshape S p = Some (g, False)" using L(1) [of y p g] old by (auto simp: cs sh split: if_splits)
  next
    fix y z p g g'
    assume "cshape ?C y = Some (p, g)" "cshape ?C z = Some (p, g')"
    then show "y = z" using L(1) [of y p g] L(1) [of z p g'] L(2) [of y p g z g'] old
      by (auto simp: cs split: if_splits)
  next
    fix p g r y
    assume "qshape S p = Some (g, r)" "?T g = Some y"
    then show "\<exists>h'. cshape ?C y = Some (p, h')"
      using L(3) [of p g r y] noq csx by (auto simp: cs sh split: if_splits)
  qed
  moreover have "refs_ok n ?C ?T ((Rf s)(a := ref_of (Init ?x q))) ((Df s)(a := del_of (Init ?x q)))"
    using refs_create [OF sinvD(2) [OF inv] a(1) _ none T, of ?c] a(2) Df_same [of "Init ?x q" s a] by simp
  moreover have "places S qs ((Qf s)(a := queues_of (Init ?x q)))" using P(1) [of a] a(2) by simp
  moreover have "\<exists>h. cshape ?C y = Some (p, h)" if "own_of (sc_pc s b) = Some (y, p)" for b y p
    using sinvD(4) [OF inv that] csx by (auto simp: cs)
  moreover have "\<exists>h. qshape S p = Some (h, True)" if "drop_of (sc_pc s b) = Some p" for b p
    using sinvD(5) [OF inv that] old by (auto simp: sh)
  ultimately have "sinv n (goto a (Init ?x q) (s\<lparr>sc_mq := S, sc_brk := Suc ?x, sc_table := ?T, sc_ctx := ?C\<rparr>)) qs"
    using sinvD(8) [OF inv] by (intro sinv_goto [OF inv a(1)]) (auto simp: cs)
  with new show ?thesis by (auto simp: step_create_def Let_def)
qed

lemma step_init_ok:
  assumes inv: "sinv n s qs" and a: "a < n" "sc_pc s a = Init ctx q"
  shows "\<exists>s' qs'. step_init a ok ctx q s = Some s' \<and> sinv n s' qs'"
proof -
  have "Rf s a = Some ctx" using a by simp
  then obtain c where c: "sc_ctx s ctx = Some c" using refs_okD(3) [OF sinvD(2) [OF inv]] by blast
  have "sinv n (goto a (Rel ctx (if ok then KPush q else KRetire (sx_handle c) q)) s) qs"
    using inv a by (intro sinv_move) auto
  with c show ?thesis by (auto simp: step_init_def)
qed

lemma step_retire_ok:
  assumes inv: "sinv n s qs" and a: "a < n" "sc_pc s a = Retire h k"
  shows "\<exists>s' qs'. step_retire a h k s = Some s' \<and> sinv n s' qs'"
proof (cases "sc_table s h")
  case None
  have "sinv n (goto a (resume k) s) qs" using inv a by (intro sinv_move) simp_all
  with None show ?thesis by (auto simp: step_retire_def)
next
  case (Some ctx)
  let ?T = "(sc_table s)(h := None)"
  have "links (cshape (sc_ctx s)) ?T (qshape (sc_mq s))"
    using sinvD(3) [OF inv] unfolding links_def by simp
  moreover have "refs_ok n (sc_ctx s) ?T ((Rf s)(a := ref_of (Rel ctx k))) ((Df s)(a := del_of (Rel ctx k)))"
    using refs_unlist [OF sinvD(2) [OF inv] a(1) _ Some] a(2) Df_same [of "Rel ctx k" s a] by simp
  moreover have "places (sc_mq s) qs ((Qf s)(a := queues_of (Rel ctx k)))"
    using sinvD(1) [OF inv] Qf_same [of "Rel ctx k" s a] a(2) by simp
  ultimately have "sinv n (goto a (Rel ctx k) (s\<lparr>sc_table := ?T\<rparr>)) qs"
    using sinvD(4,5,8) [OF inv] by (intro sinv_goto [OF inv a(1)]) auto
  with Some show ?thesis by (auto simp: step_retire_def)
qed

lemma sinv_init: "sinv n sched_init []"
proof -
  have "places uboss_mq_init [] (\<lambda>b. {})"
    by (rule placesI) (simp_all add: scheduled_def mq_cores_def, simp_all add: uboss_mq_init_def)
  moreover have "refs_ok n Map.empty Map.empty (\<lambda>b. None) (\<lambda>b. None)"
    by (simp add: refs_ok_def)
  ultimately show ?thesis
    by (simp add: sinv_def sched_init_def links_def cshape_def)
qed

lemma agent_step_ok:
  assumes n: "Suc n < 2 ^ 32" and inv: "sinv n s qs" and a: "a < n"
    and fresh: "\<forall>h. ch = Create h \<longrightarrow> fresh_handle h s"
  shows "\<exists>s' qs'. agent_step a ch s = Some s' \<and> sinv n s' qs'"
proof (cases "sc_pc s a")
  case Idle
  then have "sinv n (goto a (Retire h KIdle) s) qs" for h using inv a by (intro sinv_move) simp_all
  with Idle fresh inv step_pop_ok [OF inv a Idle] step_grab_ok [OF inv a Idle] step_create_ok [OF inv a Idle]
  show ?thesis by (cases ch) (auto simp: agent_step_def)
next
  case (Hold ctx)
  then have "sinv n (goto a (Rel ctx KIdle) s) qs" using inv a by (intro sinv_move) simp_all
  with Hold step_send_ok [OF inv Hold] show ?thesis by (cases ch) (auto simp: agent_step_def)
next
  case (Rel ctx k)
  with step_rel_ok [OF n inv a Rel] show ?thesis by (simp add: agent_step_def)
qed (use step_have_ok [OF inv a] step_dead_ok [OF inv a] step_drop_ok [OF inv a] step_drop_free_ok [OF inv a]
      step_busy_ok [OF inv a] step_done_ok [OF inv a] step_swap_ok [OF inv a] step_init_ok [OF inv a]
      step_del_ok [OF inv a] step_push_ok [OF inv a] step_retire_ok [OF inv a]
    in \<open>auto simp: agent_step_def\<close>)

section \<open>All interleavings\<close>

abbreviation sched_reach :: "nat \<Rightarrow> sched \<Rightarrow> bool" where
  "sched_reach n \<equiv> reachable (\<lambda>s. s = sched_init \<and> Suc n < 2 ^ 32) (sched_step n)"

interpretation workers: safe_system "\<lambda>s. s = sched_init \<and> Suc n < 2 ^ 32" "sched_step n"
  "\<lambda>s. Suc n < 2 ^ 32 \<and> (\<exists>qs. sinv n s qs)" for n
proof unfold_locales
  fix s
  assume "s = sched_init \<and> Suc n < 2 ^ 32"
  then show "Suc n < 2 ^ 32 \<and> (\<exists>qs. sinv n s qs)" using sinv_init by blast
next
  fix s s'
  assume inv: "Suc n < 2 ^ 32 \<and> (\<exists>qs. sinv n s qs)" and "sched_step n s s'"
  from this(2) show "Suc n < 2 ^ 32 \<and> (\<exists>qs. sinv n s' qs)"
  proof (cases rule: sched_step.cases)
    case (sched_stepI a ch)
    from inv obtain qs where n: "Suc n < 2 ^ 32" and qs: "sinv n s qs" by blast
    from agent_step_ok [OF n qs sched_stepI(1,2)] sched_stepI(3) n show ?thesis by auto
  qed
qed

lemma reach_sinv:
  assumes "sched_reach n s"
  obtains qs where "sinv n s qs" "Suc n < 2 ^ 32"
  using workers.reachable_inv [OF assms] by blast

lemma reach_agent:
  assumes "sched_reach n s" "a < n" "agent_step a ch s = Some s'" "\<forall>h. ch = Create h \<longrightarrow> fresh_handle h s"
  shows "sched_reach n s'"
  using assms by (blast intro: reachable.intros sched_stepI)

text \<open>A concrete run of two agents: agent 0 creates service 5 and sends it a message, agent 1
  takes its queue and starts to dispatch it.\<close>

fun run_agents :: "(nat \<times> choice) list \<Rightarrow> sched \<Rightarrow> sched option" where
  "run_agents [] s = Some s"
| "run_agents ((a, ch) # ts) s = do { s1 \<leftarrow> agent_step a ch s; run_agents ts s1 }"

lemma run_agents_reach:
  assumes "sched_reach n s" "run_agents ts s = Some s'" "\<forall>(a, ch) \<in> set ts. a < n \<and> (\<forall>h. ch \<noteq> Create h)"
  shows "sched_reach n s'"
  using assms
proof (induction ts arbitrary: s)
  case (Cons t ts)
  obtain a ch where t: "t = (a, ch)" by (cases t)
  with Cons.prems obtain s1 where "agent_step a ch s = Some s1" "run_agents ts s1 = Some s'"
    by (auto split: bind_splits)
  with t Cons reach_agent [of n s a ch s1] show ?case by auto
qed simp

definition sample_made :: sched where
  "sample_made = the (agent_step 0 (Create 5) sched_init)"

definition sample_run :: sched where
  "sample_run = the (run_agents [(0, Work), (0, Work), (0, Work), (0, Grab 5),
     (0, Send \<lparr>msg_source = 1, msg_session = 7, msg_data = NULL, msg_sz = 0\<rparr>), (1, Work), (1, Work)] sample_made)"


text \<open>C2. A service is never dispatched by two workers at once: two agents that run the
  message loop of the same context, or of the same queue, are the same agent.\<close>

theorem one_worker_per_service:
  assumes "sched_reach n s" "sc_pc s a = Busy q ctx" "sc_pc s b = Busy q' ctx'"
    and "ctx = ctx' \<or> q = q'"
  shows "a = b"
proof -
  from assms(1) obtain qs where inv: "sinv n s qs" by (rule reach_sinv)
  have "own_of (sc_pc s a) = Some (ctx, q)" "own_of (sc_pc s b) = Some (ctx', q')"
    using assms(2,3) by simp_all
  then have "q = q'" using sinvD(4) [OF inv, of a ctx q] sinvD(4) [OF inv, of b ctx' q'] assms(4) by auto
  with assms(2,3) have "q \<in> Qf s a" "q \<in> Qf s b" by simp_all
  then show ?thesis using placesD(2) [OF sinvD(1) [OF inv]] by blast
qed

text \<open>C3. No wake-up is lost: in every reachable state a queue that has a message is in the
  run queue or in the hands of exactly one agent, and never in both.\<close>

theorem no_lost_wakeup:
  assumes "sched_reach n s" "mq_heap (sc_mq s) q = Some m" "mq_content m \<noteq> []"
  shows "\<exists>qs. gq_inv (sc_mq s) qs \<and> distinct qs \<and>
    (if q \<in> set qs then \<forall>a<n. q \<notin> queues_of (sc_pc s a)
     else \<exists>!a. a < n \<and> q \<in> queues_of (sc_pc s a))"
proof -
  from assms(1) obtain qs where inv: "sinv n s qs" by (rule reach_sinv)
  note P = placesD [OF sinvD(1) [OF inv]]
  have "mq_cores (sc_mq s) q = Some (mq_core m)" using assms(2) by (simp add: mq_cores_def)
  then have "scheduled (sc_mq s) q"
    using P(6) [of q "mq_core m"] assms(3) by (auto simp: scheduled_def)
  then have "q \<in> set qs \<or> (\<exists>a. q \<in> Qf s a)" using P(4) by blast
  moreover have "a < n" if "q \<in> Qf s a" for a
    using that sinvD(7) [OF inv, of a] by (cases "a < n") auto
  ultimately have "if q \<in> set qs then \<forall>a<n. q \<notin> Qf s a else \<exists>!a. a < n \<and> q \<in> Qf s a"
    using P(2,3) by (metis (no_types, lifting))
  moreover have "gq_inv (sc_mq s) qs" "distinct qs" using P(1) by (simp_all add: mqs_wf_def gq_inv_def)
  ultimately show ?thesis by blast
qed

text \<open>C5. Reference counts are exact: in every reachable state the count of a context is
  the number of agents that hold it, plus one while its handle names it in the table; a
  context that is held or listed has not been freed.\<close>

theorem ref_counts_exact:
  assumes "sched_reach n s" "sc_ctx s ctx = Some c"
  shows "unat (sx_ref c) = card {a. a < n \<and> ref_of (sc_pc s a) = Some ctx} +
      (if sc_table s (sx_handle c) = Some ctx then 1 else 0) \<and>
    (\<forall>a y. ref_of (sc_pc s a) = Some y \<longrightarrow> sc_ctx s y \<noteq> None) \<and>
    (\<forall>h y. sc_table s h = Some y \<longrightarrow> sc_ctx s y \<noteq> None)"
proof -
  from assms(1) obtain qs where inv: "sinv n s qs" and n: "Suc n < 2 ^ 32" by (rule reach_sinv)
  note R = refs_okD [OF sinvD(2) [OF inv]]
  have held: "\<forall>a y. ref_of (sc_pc s a) = Some y \<longrightarrow> sc_ctx s y \<noteq> None" using R(3) by blast
  have lst: "\<forall>h y. sc_table s h = Some y \<longrightarrow> sc_ctx s y \<noteq> None" using R(2) by blast
  have "card (holders n (Rf s) ctx) \<le> card {..<n}"
    by (rule card_mono) (auto simp: holders_def)
  then have "ref_count n (sc_table s) (Rf s) ctx c < 2 ^ 32" using n by (simp add: ref_count_def)
  then have "unat (sx_ref c) = ref_count n (sc_table s) (Rf s) ctx c"
    using R(1) [OF assms(2)] by (simp add: unat_of_nat take_bit_nat_eq_self)
  with held lst show ?thesis by (simp add: ref_count_def holders_def listed_def)
qed

text \<open>What the concrete run leads to.\<close>

lemma sample_made_step: "agent_step 0 (Create 5) sched_init = Some sample_made"
  by (simp add: sample_made_def agent_step_def sched_init_def step_create_def split: prod.split)

lemma sample_run_facts:
  "sc_pc sample_run 0 = Hold 1" "sc_pc sample_run 1 = Busy 1 1"
  "map_option mq_content (mq_heap (sc_mq sample_run) 1) =
     Some [\<lparr>msg_source = 1, msg_session = 7, msg_data = NULL, msg_sz = 0\<rparr>]"
  "map_option sx_ref (sc_ctx sample_run 1) = Some 3"
  by code_simp+

lemma sample_run_step:
  "run_agents [(0, Work), (0, Work), (0, Work), (0, Grab 5),
     (0, Send \<lparr>msg_source = 1, msg_session = 7, msg_data = NULL, msg_sz = 0\<rparr>), (1, Work), (1, Work)]
     sample_made = Some sample_run"
proof -
  have "run_agents [(0, Work), (0, Work), (0, Work), (0, Grab 5),
     (0, Send \<lparr>msg_source = 1, msg_session = 7, msg_data = NULL, msg_sz = 0\<rparr>), (1, Work), (1, Work)]
     sample_made \<noteq> None" by code_simp
  then show ?thesis unfolding sample_run_def by (rule option.collapse [symmetric])
qed

lemma sample_init_reach: "sched_reach 2 sched_init"
  by (rule reachable.intros(1)) simp

lemma sample_run_reach: "sched_reach 2 sample_run"
proof -
  have "fresh_handle 5 sched_init" by (simp add: fresh_handle_def sched_init_def uboss_mq_init_def)
  then have "sched_reach 2 sample_made"
    using reach_agent [OF sample_init_reach _ sample_made_step] by simp
  then show ?thesis using sample_run_step by (rule run_agents_reach) simp
qed


theorem one_worker_per_service_witness: "{b. \<exists>q. sc_pc sample_run b = Busy q 1} = {1}"
  using one_worker_per_service [OF sample_run_reach _ sample_run_facts(2)] sample_run_facts(2) by blast

theorem no_lost_wakeup_witness:
  "\<exists>m qs. mq_heap (sc_mq sample_run) 1 = Some m \<and> gq_inv (sc_mq sample_run) qs \<and>
    (if 1 \<in> set qs then \<forall>a<2. 1 \<notin> queues_of (sc_pc sample_run a)
     else \<exists>!a. a < 2 \<and> 1 \<in> queues_of (sc_pc sample_run a))"
proof -
  obtain m where m: "mq_heap (sc_mq sample_run) 1 = Some m" "mq_content m \<noteq> []"
    using sample_run_facts(3) by auto
  show ?thesis using no_lost_wakeup [OF sample_run_reach m] m(1) by blast
qed

theorem ref_counts_exact_witness:
  "\<exists>c. sc_ctx sample_run 1 = Some c \<and>
    (3::nat) = card {a. a < 2 \<and> ref_of (sc_pc sample_run a) = Some 1} +
      (if sc_table sample_run (sx_handle c) = Some 1 then 1 else 0)"
proof -
  obtain c where c: "sc_ctx sample_run 1 = Some c" "sx_ref c = 3" using sample_run_facts(4) by auto
  show ?thesis using ref_counts_exact [OF sample_run_reach c(1)] c by simp
qed

end
