(* ===== verification/SocketServer.thy ===== *)
theory SocketServer
  imports Format
begin

text \<open>
  The data of \<open>core/socket_server.c\<close> and its send path: the table of sockets, the write
  buffers, closing, sending and the control requests that change a socket.

  What the operating system answers is a parameter, the record \<open>kernel\<close>: every answer may
  depend on the number of calls made before (\<open>ss_tick\<close>), so a fixed record covers every
  behaviour of the system. The state keeps what was given to the system: the bytes that
  each descriptor accepted, the descriptors that are open and the poll set. A write buffer
  list is the chain of buffers from its head, with the tail pointer beside it; every buffer
  carries its address. A failed \<open>assert\<close>, a read of memory that is not allocated and a
  second \<open>free\<close> are \<open>None\<close>.
\<close>

section \<open>Constants\<close>

definition MAX_INFO :: nat where "MAX_INFO = 128"
definition MAX_SOCKET_P :: nat where "MAX_SOCKET_P = 16"
definition MAX_SOCKET :: nat where "MAX_SOCKET = 2 ^ MAX_SOCKET_P"
definition MAX_EVENT :: nat where "MAX_EVENT = 64"
definition MIN_READ_BUFFER :: i32 where "MIN_READ_BUFFER = 64"
definition UDP_ADDRESS_SIZE :: nat where "UDP_ADDRESS_SIZE = 19"
definition MAX_UDP_PACKAGE :: nat where "MAX_UDP_PACKAGE = 65535"
definition WARNING_SIZE :: u64 where "WARNING_SIZE = 1024 * 1024"
definition PRIORITY_HIGH :: nat where "PRIORITY_HIGH = 0"
definition PRIORITY_LOW :: nat where "PRIORITY_LOW = 1"
definition PROTOCOL_TCP :: u8 where "PROTOCOL_TCP = 0"
definition PROTOCOL_UDP :: u8 where "PROTOCOL_UDP = 1"
definition PROTOCOL_UDPv6 :: u8 where "PROTOCOL_UDPv6 = 2"

text \<open>The type field of a socket.\<close>

datatype socket_type =
    SOCKET_TYPE_INVALID | SOCKET_TYPE_RESERVE | SOCKET_TYPE_PLISTEN | SOCKET_TYPE_LISTEN
  | SOCKET_TYPE_CONNECTING | SOCKET_TYPE_CONNECTED | SOCKET_TYPE_HALFCLOSE
  | SOCKET_TYPE_PACCEPT | SOCKET_TYPE_BIND

text \<open>What an operation of the socket thread reports; \<open>SOCKET_NONE\<close> is the value \<open>-1\<close>.\<close>

datatype socket_event =
    SOCKET_NONE | SOCKET_DATA | SOCKET_CLOSE | SOCKET_OPEN | SOCKET_ACCEPT | SOCKET_ERR
  | SOCKET_EXIT | SOCKET_UDP | SOCKET_WARNING

definition HASH_ID :: "i32 \<Rightarrow> nat" where
  "HASH_ID n = unat n mod MAX_SOCKET"

text \<open>Error numbers of the operating system.\<close>

definition EINTR :: i32 where "EINTR = 4"
definition EAGAIN :: i32 where "EAGAIN = 11"
definition ENFILE :: i32 where "ENFILE = 23"
definition EMFILE :: i32 where "EMFILE = 24"
definition EINPROGRESS :: i32 where "EINPROGRESS = 115"

section \<open>Data\<close>

record write_buffer =
  wb_addr :: ptr
  wb_buffer :: ptr
  wb_ptr :: "ptr \<times> nat"
  wb_sz :: i32
  wb_userobject :: bool
  wb_udp_address :: "string option"

record wb_list =
  wl_bufs :: "write_buffer list"
  wl_tail :: ptr

datatype sock_p = PSize i32 | PUdp string

record socket =
  so_opaque :: u64
  so_high :: wb_list
  so_low :: wb_list
  so_wb_size :: u64
  so_fd :: i32
  so_id :: i32
  so_protocol :: u8
  so_type :: socket_type
  so_udpconnecting :: u16
  so_warn_size :: u64
  so_p :: sock_p
  so_dw_lock :: bool
  so_dw_offset :: i32
  so_dw_buffer :: ptr
  so_dw_size :: u64

text \<open>An Internet address: the port in network byte order and the 4 or 16 address bytes.\<close>

datatype sockaddr = V4 string string | V6 string string

datatype addr_family = AF_INET | AF_INET6 | AF_OTHER

record addrinfo =
  ai_family :: addr_family
  ai_addr :: sockaddr

datatype sdata = NoData | Text string | Block ptr

record socket_message =
  sm_id :: i32
  sm_opaque :: u64
  sm_ud :: i32
  sm_data :: sdata

record event =
  ev_s :: "nat option"
  ev_read :: bool
  ev_write :: bool
  ev_error :: bool

text \<open>The request structures of the control pipe.\<close>

datatype request =
    ReqOpen i32 i32 u64 string
  | ReqSend i32 i32 ptr
  | ReqSendUdp i32 i32 ptr string
  | ReqSetudp i32 string
  | ReqClose i32 bool u64
  | ReqListen i32 i32 u64
  | ReqBind i32 i32 u64
  | ReqStart i32 u64
  | ReqSetopt i32 i32 i32
  | ReqUdp i32 i32 addr_family u64
  | ReqNone

record request_package =
  rq_type :: char
  rq_len :: u8
  rq_size :: nat
  rq_body :: request

record socket_object_interface =
  soi_buffer :: "ptr \<Rightarrow> ptr"
  soi_size :: "ptr \<Rightarrow> i32"
  soi_free :: "ptr \<Rightarrow> (ptr \<rightharpoonup> string) \<Rightarrow> (ptr \<rightharpoonup> string) option"

record socket_server =
  ss_recvctrl_fd :: i32
  ss_sendctrl_fd :: i32
  ss_checkctrl :: bool
  ss_event_fd :: i32
  ss_alloc_id :: i32
  ss_event_n :: nat
  ss_event_index :: nat
  ss_soi :: "socket_object_interface option"
  ss_ev :: "event list"
  ss_slot :: "nat \<Rightarrow> socket"
  ss_buffer :: string
  ss_pipe :: "request_package list"
  ss_mem :: "ptr \<rightharpoonup> string"
  ss_brk :: ptr
  ss_tick :: nat
  ss_errno :: i32
  ss_sent :: "i32 \<Rightarrow> string"
  ss_dgrams :: "i32 \<Rightarrow> (string \<times> sockaddr option) list"
  ss_closed :: "i32 list"
  ss_poll :: "i32 \<rightharpoonup> nat option \<times> bool"

section \<open>The operating system\<close>

datatype 'a io = Got 'a | Err i32

record kernel =
  k_write :: "nat \<Rightarrow> i32 \<Rightarrow> string \<Rightarrow> nat io"
  k_sendto :: "nat \<Rightarrow> i32 \<Rightarrow> string \<Rightarrow> sockaddr option \<Rightarrow> nat io"
  k_read :: "nat \<Rightarrow> i32 \<Rightarrow> nat \<Rightarrow> string io"
  k_recvfrom :: "nat \<Rightarrow> i32 \<Rightarrow> nat \<Rightarrow> (string \<times> sockaddr) io"
  k_accept :: "nat \<Rightarrow> i32 \<Rightarrow> (i32 \<times> sockaddr) io"
  k_getaddrinfo :: "nat \<Rightarrow> string \<Rightarrow> i32 \<Rightarrow> addrinfo list io"
  k_socket :: "nat \<Rightarrow> addr_family \<Rightarrow> i32 io"
  k_connect :: "nat \<Rightarrow> i32 \<Rightarrow> sockaddr \<Rightarrow> unit io"
  k_bind :: "nat \<Rightarrow> i32 \<Rightarrow> sockaddr \<Rightarrow> unit io"
  k_listen :: "nat \<Rightarrow> i32 \<Rightarrow> i32 \<Rightarrow> unit io"
  k_setsockopt :: "nat \<Rightarrow> i32 \<Rightarrow> unit io"
  k_so_error :: "nat \<Rightarrow> i32 \<Rightarrow> i32 io"
  k_getpeername :: "nat \<Rightarrow> i32 \<Rightarrow> sockaddr io"
  k_epoll_ctl :: "nat \<Rightarrow> i32 \<Rightarrow> unit io"
  k_epoll_wait :: "nat \<Rightarrow> event list io"
  k_close :: "nat \<Rightarrow> i32 \<Rightarrow> unit io"
  k_create :: "nat \<Rightarrow> i32 io"
  k_pipe :: "nat \<Rightarrow> (i32 \<times> i32) io"
  k_pipe_write :: "nat \<Rightarrow> nat \<Rightarrow> nat io"
  k_busy :: "nat \<Rightarrow> bool"
  k_ready :: "nat \<Rightarrow> bool"
  k_strerror :: "i32 \<Rightarrow> string"
  k_gai_strerror :: "i32 \<Rightarrow> string"
  k_inet_ntop :: "sockaddr \<Rightarrow> string option"

text \<open>One call: the answer, and the error number it leaves.\<close>

definition sys :: "(nat \<Rightarrow> 'a io) \<Rightarrow> socket_server \<Rightarrow> 'a io \<times> socket_server" where
  "sys f ss =
     (f (ss_tick ss),
      ss\<lparr>ss_tick := Suc (ss_tick ss),
         ss_errno := (case f (ss_tick ss) of Err e \<Rightarrow> e | Got _ \<Rightarrow> ss_errno ss)\<rparr>)"

definition upd_slot :: "nat \<Rightarrow> (socket \<Rightarrow> socket) \<Rightarrow> socket_server \<Rightarrow> socket_server" where
  "upd_slot i f ss = ss\<lparr>ss_slot := (ss_slot ss)(i := f (ss_slot ss i))\<rparr>"

definition MALLOC :: "string \<Rightarrow> socket_server \<Rightarrow> ptr \<times> socket_server" where
  "MALLOC v ss = (ss_brk ss, ss\<lparr>ss_mem := (ss_mem ss)(ss_brk ss \<mapsto> v), ss_brk := Suc (ss_brk ss)\<rparr>)"

definition FREE :: "ptr \<Rightarrow> socket_server \<Rightarrow> socket_server option" where
  "FREE p ss =
     (if p = NULL then Some ss
      else do { guard (ss_mem ss p \<noteq> None); Some (ss\<lparr>ss_mem := (ss_mem ss)(p := None)\<rparr>) })"

definition mem_at :: "socket_server \<Rightarrow> ptr \<times> nat \<Rightarrow> nat \<Rightarrow> string option" where
  "mem_at ss p n =
     do { s \<leftarrow> ss_mem ss (fst p);
          guard (snd p + n \<le> length s);
          Some (take n (drop (snd p) s)) }"

definition sys_write :: "kernel \<Rightarrow> i32 \<Rightarrow> string \<Rightarrow> socket_server \<Rightarrow> nat io \<times> socket_server" where
  "sys_write K fd bytes ss =
     (case sys (\<lambda>t. k_write K t fd bytes) ss of
        (Got n, ss1) \<Rightarrow> (Got n, ss1\<lparr>ss_sent := (ss_sent ss1)(fd := ss_sent ss1 fd @ take n bytes)\<rparr>)
      | (Err e, ss1) \<Rightarrow> (Err e, ss1))"

definition sys_sendto :: "kernel \<Rightarrow> i32 \<Rightarrow> string \<Rightarrow> sockaddr option \<Rightarrow> socket_server \<Rightarrow> nat io \<times> socket_server"
  where
  "sys_sendto K fd bytes sa ss =
     (case sys (\<lambda>t. k_sendto K t fd bytes sa) ss of
        (Got n, ss1) \<Rightarrow> (Got n, ss1\<lparr>ss_dgrams := (ss_dgrams ss1)(fd := ss_dgrams ss1 fd @ [(bytes, sa)])\<rparr>)
      | (Err e, ss1) \<Rightarrow> (Err e, ss1))"

definition sys_close :: "kernel \<Rightarrow> i32 \<Rightarrow> socket_server \<Rightarrow> socket_server" where
  "sys_close K fd ss =
     (case sys (\<lambda>t. k_close K t fd) ss of (r, ss1) \<Rightarrow> ss1\<lparr>ss_closed := ss_closed ss1 @ [fd]\<rparr>)"

text \<open>The poll set (\<open>core/socket_epoll.h\<close>).\<close>

definition sp_add :: "kernel \<Rightarrow> i32 \<Rightarrow> nat option \<Rightarrow> socket_server \<Rightarrow> bool \<times> socket_server" where
  "sp_add K fd ud ss =
     (case sys (\<lambda>t. k_epoll_ctl K t fd) ss of
        (Got _, ss1) \<Rightarrow> (False, ss1\<lparr>ss_poll := (ss_poll ss1)(fd \<mapsto> (ud, False))\<rparr>)
      | (Err _, ss1) \<Rightarrow> (True, ss1))"

definition sp_del :: "kernel \<Rightarrow> i32 \<Rightarrow> socket_server \<Rightarrow> socket_server" where
  "sp_del K fd ss =
     (case sys (\<lambda>t. k_epoll_ctl K t fd) ss of
        (Got _, ss1) \<Rightarrow> ss1\<lparr>ss_poll := (ss_poll ss1)(fd := None)\<rparr>
      | (Err _, ss1) \<Rightarrow> ss1)"

definition sp_write :: "kernel \<Rightarrow> i32 \<Rightarrow> nat option \<Rightarrow> bool \<Rightarrow> socket_server \<Rightarrow> socket_server" where
  "sp_write K fd ud enable ss =
     (case sys (\<lambda>t. k_epoll_ctl K t fd) ss of
        (Got _, ss1) \<Rightarrow> ss1\<lparr>ss_poll := (ss_poll ss1)(fd \<mapsto> (ud, enable))\<rparr>
      | (Err _, ss1) \<Rightarrow> ss1)"

section \<open>The lock of a socket\<close>

text \<open>
  \<open>l\<close> is the count of a \<open>struct socket_lock\<close>, local to an operation; the lock is taken for
  the first time only. A blocking acquisition of a lock that the operation itself holds
  would never return.
\<close>

definition socket_lock :: "nat \<Rightarrow> nat \<Rightarrow> socket_server \<Rightarrow> (nat \<times> socket_server) option" where
  "socket_lock i l ss =
     (if l = 0 then
        do { guard (\<not> so_dw_lock (ss_slot ss i));
             Some (Suc l, upd_slot i (\<lambda>s. s\<lparr>so_dw_lock := True\<rparr>) ss) }
      else Some (Suc l, ss))"

definition socket_trylock :: "kernel \<Rightarrow> nat \<Rightarrow> nat \<Rightarrow> socket_server \<Rightarrow> bool \<times> nat \<times> socket_server" where
  "socket_trylock K i l ss =
     (if l = 0 then
        if so_dw_lock (ss_slot ss i) \<or> k_busy K (ss_tick ss)
        then (False, l, ss\<lparr>ss_tick := Suc (ss_tick ss)\<rparr>)
        else (True, Suc l, upd_slot i (\<lambda>s. s\<lparr>so_dw_lock := True\<rparr>) (ss\<lparr>ss_tick := Suc (ss_tick ss)\<rparr>))
      else (True, Suc l, ss))"

definition socket_unlock :: "nat \<Rightarrow> nat \<Rightarrow> socket_server \<Rightarrow> (nat \<times> socket_server) option" where
  "socket_unlock i l ss =
     do { guard (0 < l);
          Some (l - 1, if l = 1 then upd_slot i (\<lambda>s. s\<lparr>so_dw_lock := False\<rparr>) ss else ss) }"

section \<open>Objects, buffers and identifiers\<close>

text \<open>\<open>send_object_init\<close>: whether it is a user object, the address of its bytes and their number.\<close>

definition send_object_init :: "ptr \<Rightarrow> i32 \<Rightarrow> socket_server \<Rightarrow> (bool \<times> ptr \<times> i32) option" where
  "send_object_init object sz ss =
     (if sint sz < 0 then
        do { soi \<leftarrow> ss_soi ss; Some (True, soi_buffer soi object, soi_size soi object) }
      else Some (False, object, sz))"

definition free_func :: "bool \<Rightarrow> ptr \<Rightarrow> socket_server \<Rightarrow> socket_server option" where
  "free_func userobject p ss =
     (if userobject then
        do { soi \<leftarrow> ss_soi ss; mem \<leftarrow> soi_free soi p (ss_mem ss); Some (ss\<lparr>ss_mem := mem\<rparr>) }
      else FREE p ss)"

definition write_buffer_free :: "write_buffer \<Rightarrow> socket_server \<Rightarrow> socket_server option" where
  "write_buffer_free wb ss =
     do { ss1 \<leftarrow> free_func (wb_userobject wb) (wb_buffer wb) ss; FREE (wb_addr wb) ss1 }"

definition next_id :: "i32 \<Rightarrow> i32" where
  \<comment> \<open>the counter is increased and, if that makes it negative, its sign bit is cleared\<close>
  "next_id a = (if sint (a + 1) < 0 then (a + 1) AND 0x7fffffff else a + 1)"

fun reserve_scan :: "nat \<Rightarrow> socket_server \<Rightarrow> i32 \<times> socket_server" where
  \<comment> \<open>the loop of \<open>reserve_id\<close>, \<open>n\<close> rounds left\<close>
  "reserve_scan 0 ss = (- 1, ss)"
| "reserve_scan (Suc n) ss =
     (let new = next_id (ss_alloc_id ss);
          ss1 = ss\<lparr>ss_alloc_id := new\<rparr>
      in if so_type (ss_slot ss (HASH_ID new)) = SOCKET_TYPE_INVALID then
           (new, upd_slot (HASH_ID new)
              (\<lambda>s. s\<lparr>so_type := SOCKET_TYPE_RESERVE, so_id := new, so_udpconnecting := 0, so_fd := - 1\<rparr>) ss1)
         else reserve_scan n ss1)"

definition reserve_id :: "socket_server \<Rightarrow> i32 \<times> socket_server" where
  "reserve_id ss = reserve_scan MAX_SOCKET ss"

definition clear_wb_list :: wb_list where
  "clear_wb_list = \<lparr>wl_bufs = [], wl_tail = NULL\<rparr>"

definition FD_SETSIZE :: int where "FD_SETSIZE = 1024"

definition socket_server_create ::
    "kernel \<Rightarrow> (nat \<Rightarrow> socket) \<Rightarrow> socket_server \<Rightarrow> (bool \<times> socket_server) option" where
  \<comment> \<open>\<open>raw\<close> is what the allocated table holds before it is set; the first result says whether the
      server could be made\<close>
  "socket_server_create K raw ss =
     (case sys (k_create K) ss of
        (Err _, ss1) \<Rightarrow> Some (False, ss1)
      | (Got efd, ss1) \<Rightarrow>
          (case sys (k_pipe K) ss1 of
             (Err _, ss2) \<Rightarrow> Some (False, sys_close K efd ss2)
           | (Got (rfd, wfd), ss2) \<Rightarrow>
               (case sp_add K rfd None ss2 of
                  (True, ss3) \<Rightarrow> Some (False, sys_close K efd (sys_close K wfd (sys_close K rfd ss3)))
                | (False, ss3) \<Rightarrow>
                    do { guard (sint rfd < FD_SETSIZE);
                         Some (True,
                           ss3\<lparr>ss_event_fd := efd, ss_recvctrl_fd := rfd, ss_sendctrl_fd := wfd,
                               ss_checkctrl := True,
                               ss_slot := (\<lambda>i. (raw i)\<lparr>so_type := SOCKET_TYPE_INVALID,
                                                    so_high := clear_wb_list, so_low := clear_wb_list\<rparr>),
                               ss_alloc_id := 0, ss_event_n := 0, ss_event_index := 0, ss_soi := None\<rparr>) })))"

fun free_bufs :: "write_buffer list \<Rightarrow> socket_server \<Rightarrow> socket_server option" where
  "free_bufs [] ss = Some ss"
| "free_bufs (wb # wbs) ss = do { ss1 \<leftarrow> write_buffer_free wb ss; free_bufs wbs ss1 }"

definition get_list :: "nat \<Rightarrow> socket \<Rightarrow> wb_list" where
  "get_list prio s = (if prio = PRIORITY_HIGH then so_high s else so_low s)"

definition put_list :: "nat \<Rightarrow> wb_list \<Rightarrow> socket \<Rightarrow> socket" where
  "put_list prio wl s = (if prio = PRIORITY_HIGH then s\<lparr>so_high := wl\<rparr> else s\<lparr>so_low := wl\<rparr>)"

definition free_wb_list :: "nat \<Rightarrow> nat \<Rightarrow> socket_server \<Rightarrow> socket_server option" where
  "free_wb_list i prio ss =
     do { ss1 \<leftarrow> free_bufs (wl_bufs (get_list prio (ss_slot ss i))) ss;
          Some (upd_slot i (put_list prio \<lparr>wl_bufs = [], wl_tail = NULL\<rparr>) ss1) }"

definition free_buffer :: "ptr \<Rightarrow> i32 \<Rightarrow> socket_server \<Rightarrow> socket_server option" where
  "free_buffer buffer sz ss =
     do { (userobject, _, _) \<leftarrow> send_object_init buffer sz ss; free_func userobject buffer ss }"

section \<open>Closing\<close>

definition force_close ::
    "kernel \<Rightarrow> nat \<Rightarrow> nat \<Rightarrow> socket_message \<Rightarrow> socket_server \<Rightarrow> (nat \<times> socket_message \<times> socket_server) option"
  where
  "force_close K i l result ss =
     (let s = ss_slot ss i;
          res = result\<lparr>sm_id := so_id s, sm_ud := 0, sm_data := NoData, sm_opaque := so_opaque s\<rparr>
      in if so_type s = SOCKET_TYPE_INVALID then Some (l, res, ss)
         else do {
           guard (so_type s \<noteq> SOCKET_TYPE_RESERVE);
           ss1 \<leftarrow> free_wb_list i PRIORITY_HIGH ss;
           ss2 \<leftarrow> free_wb_list i PRIORITY_LOW ss1;
           let ss3 = (if so_type s \<noteq> SOCKET_TYPE_PACCEPT \<and> so_type s \<noteq> SOCKET_TYPE_PLISTEN
                      then sp_del K (so_fd s) ss2 else ss2);
           (l1, ss4) \<leftarrow> socket_lock i l ss3;
           let ss5 = (if so_type s \<noteq> SOCKET_TYPE_BIND then sys_close K (so_fd s) ss4 else ss4);
           let ss6 = upd_slot i (\<lambda>s. s\<lparr>so_type := SOCKET_TYPE_INVALID\<rparr>) ss5;
           ss7 \<leftarrow> (if so_dw_buffer s \<noteq> NULL
                   then do { x \<leftarrow> free_buffer (so_dw_buffer s) (ucast (so_dw_size s)) ss6;
                             Some (upd_slot i (\<lambda>s. s\<lparr>so_dw_buffer := NULL\<rparr>) x) }
                   else Some ss6);
           (l2, ss8) \<leftarrow> socket_unlock i l1 ss7;
           Some (l2, res, ss8) })"

definition dummy_message :: socket_message where
  "dummy_message = \<lparr>sm_id = 0, sm_opaque = 0, sm_ud = 0, sm_data = NoData\<rparr>"

fun release_slots :: "kernel \<Rightarrow> nat list \<Rightarrow> socket_server \<Rightarrow> socket_server option" where
  "release_slots K [] ss = Some ss"
| "release_slots K (i # is) ss =
     (if so_type (ss_slot ss i) \<noteq> SOCKET_TYPE_RESERVE
      then do { (l, r, ss1) \<leftarrow> force_close K i 0 dummy_message ss; release_slots K is ss1 }
      else release_slots K is ss)"

definition socket_server_release :: "kernel \<Rightarrow> socket_server \<Rightarrow> socket_server option" where
  "socket_server_release K ss =
     do { ss1 \<leftarrow> release_slots K [0..<MAX_SOCKET] ss;
          Some (sys_close K (ss_event_fd ss) (sys_close K (ss_recvctrl_fd ss) (sys_close K (ss_sendctrl_fd ss) ss1))) }"

definition check_wb_list :: "wb_list \<Rightarrow> unit option" where
  "check_wb_list wl = do { guard (wl_bufs wl = []); guard (wl_tail wl = NULL) }"

definition new_fd ::
    "kernel \<Rightarrow> i32 \<Rightarrow> i32 \<Rightarrow> u8 \<Rightarrow> u64 \<Rightarrow> bool \<Rightarrow> socket_server \<Rightarrow> (nat option \<times> socket_server) option"
  where
  "new_fd K sid fd protocol opaque add ss =
     (let i = HASH_ID sid
      in do { guard (so_type (ss_slot ss i) = SOCKET_TYPE_RESERVE);
              let (failed, ss1) = (if add then sp_add K fd (Some i) ss else (False, ss));
              if failed then Some (None, upd_slot i (\<lambda>s. s\<lparr>so_type := SOCKET_TYPE_INVALID\<rparr>) ss1)
              else do {
                check_wb_list (so_high (ss_slot ss1 i));
                check_wb_list (so_low (ss_slot ss1 i));
                Some (Some i, upd_slot i (\<lambda>s. s\<lparr>so_id := sid, so_fd := fd, so_protocol := protocol,
                  so_p := PSize MIN_READ_BUFFER, so_opaque := opaque, so_wb_size := 0, so_warn_size := 0,
                  so_dw_lock := False, so_dw_buffer := NULL, so_dw_size := 0\<rparr>) ss1) } })"

section \<open>Connecting\<close>

fun connect_loop :: "kernel \<Rightarrow> addrinfo list \<Rightarrow> socket_server \<Rightarrow> (i32 \<times> bool \<times> addrinfo) option \<times> socket_server"
  where
  \<comment> \<open>the loop of \<open>open_socket\<close> over the addresses: the descriptor, whether it is connected, the address\<close>
  "connect_loop K [] ss = (None, ss)"
| "connect_loop K (ai # ais) ss =
     (case sys (\<lambda>t. k_socket K t (ai_family ai)) ss of
        (Err _, ss1) \<Rightarrow> connect_loop K ais ss1
      | (Got sock, ss1) \<Rightarrow>
          (case sys (\<lambda>t. k_connect K t sock (ai_addr ai)) ss1 of
             (Got _, ss2) \<Rightarrow> (Some (sock, True, ai), ss2)
           | (Err e, ss2) \<Rightarrow>
               if e \<noteq> EINPROGRESS then connect_loop K ais (sys_close K sock ss2)
               else (Some (sock, False, ai), ss2)))"

definition open_failed :: "i32 \<Rightarrow> string \<Rightarrow> socket_message \<Rightarrow> socket_server \<Rightarrow>
    socket_event \<times> socket_message \<times> socket_server" where
  \<comment> \<open>the label \<open>_failed\<close>\<close>
  "open_failed sid err res ss =
     (SOCKET_ERR, res\<lparr>sm_data := Text err\<rparr>,
      upd_slot (HASH_ID sid) (\<lambda>s. s\<lparr>so_type := SOCKET_TYPE_INVALID\<rparr>) ss)"

definition open_socket :: "kernel \<Rightarrow> i32 \<Rightarrow> i32 \<Rightarrow> u64 \<Rightarrow> string \<Rightarrow> socket_message \<Rightarrow> socket_server \<Rightarrow>
    (socket_event \<times> socket_message \<times> socket_server) option" where
  "open_socket K sid port opaque host result ss =
     (let res = result\<lparr>sm_opaque := opaque, sm_id := sid, sm_ud := 0, sm_data := NoData\<rparr>
      in case sys (\<lambda>t. k_getaddrinfo K t host port) ss of
           (Err status, ss1) \<Rightarrow> Some (open_failed sid (k_gai_strerror K status) res ss1)
         | (Got ai_list, ss1) \<Rightarrow>
             (case connect_loop K ai_list ss1 of
                (None, ss2) \<Rightarrow> Some (open_failed sid (k_strerror K (ss_errno ss2)) res ss2)
              | (Some (sock, done, ai), ss2) \<Rightarrow>
                  do { (ns, ss3) \<leftarrow> new_fd K sid sock PROTOCOL_TCP opaque True ss2;
                       case ns of
                         None \<Rightarrow> Some (open_failed sid ''reach uboss socket number limit'' res (sys_close K sock ss3))
                       | Some i \<Rightarrow>
                           if done then
                             let ss4 = upd_slot i (\<lambda>s. s\<lparr>so_type := SOCKET_TYPE_CONNECTED\<rparr>) ss3
                             in case k_inet_ntop K (ai_addr ai) of
                                  Some txt \<Rightarrow> Some (SOCKET_OPEN, res\<lparr>sm_data := Text txt\<rparr>, ss4\<lparr>ss_buffer := txt\<rparr>)
                                | None \<Rightarrow> Some (SOCKET_OPEN, res, ss4)
                           else
                             Some (SOCKET_NONE, res,
                               sp_write K sock (Some i) True
                                 (upd_slot i (\<lambda>s. s\<lparr>so_type := SOCKET_TYPE_CONNECTING\<rparr>) ss3)) }))"

section \<open>Sending the write buffers\<close>

partial_function (option) write_retry ::
    "kernel \<Rightarrow> i32 \<Rightarrow> string \<Rightarrow> socket_server \<Rightarrow> (nat io \<times> socket_server) option" where
  \<comment> \<open>\<open>write\<close>, repeated while it is interrupted\<close>
  "write_retry K fd bytes ss =
     (case sys_write K fd bytes ss of
        (Got n, ss1) \<Rightarrow> Some (Got n, ss1)
      | (Err e, ss1) \<Rightarrow> if e = EINTR then write_retry K fd bytes ss1 else Some (Err e, ss1))"

partial_function (option) send_list_tcp ::
    "kernel \<Rightarrow> nat \<Rightarrow> nat \<Rightarrow> nat \<Rightarrow> socket_message \<Rightarrow> socket_server \<Rightarrow>
     (socket_event \<times> nat \<times> socket_message \<times> socket_server) option" where
  "send_list_tcp K i prio l result ss =
     (let s = ss_slot ss i; wl = get_list prio s
      in case wl_bufs wl of
           [] \<Rightarrow> Some (SOCKET_NONE, l, result, upd_slot i (put_list prio (wl\<lparr>wl_tail := NULL\<rparr>)) ss)
         | tmp # rest \<Rightarrow> do {
             guard (0 \<le> sint (wb_sz tmp));
             bytes \<leftarrow> mem_at ss (wb_ptr tmp) (unat (wb_sz tmp));
             (r, ss1) \<leftarrow> write_retry K (so_fd s) bytes ss;
             case r of
               Err e \<Rightarrow>
                 if e = EAGAIN then Some (SOCKET_NONE, l, result, ss1)
                 else do { (l1, res, ss2) \<leftarrow> force_close K i l result ss1;
                           Some (SOCKET_CLOSE, l1, res, ss2) }
             | Got n \<Rightarrow>
                 let ss2 = upd_slot i (\<lambda>s. s\<lparr>so_wb_size := so_wb_size s - word_of_nat n\<rparr>) ss1
                 in if n \<noteq> unat (wb_sz tmp) then
                      let tmp1 = tmp\<lparr>wb_ptr := (fst (wb_ptr tmp), snd (wb_ptr tmp) + n),
                                     wb_sz := wb_sz tmp - word_of_nat n\<rparr>
                      in Some (SOCKET_NONE, l, result,
                               upd_slot i (put_list prio (wl\<lparr>wl_bufs := tmp1 # rest\<rparr>)) ss2)
                    else do {
                      ss3 \<leftarrow> write_buffer_free tmp (upd_slot i (put_list prio (wl\<lparr>wl_bufs := rest\<rparr>)) ss2);
                      send_list_tcp K i prio l result ss3 } })"

definition udp_socket_address :: "u8 \<Rightarrow> string \<Rightarrow> sockaddr option" where
  \<comment> \<open>\<open>None\<close> is the address of length zero\<close>
  "udp_socket_address protocol address =
     (if of_char (hd address) \<noteq> protocol then None
      else if protocol = PROTOCOL_UDP then Some (V4 (take 2 (drop 1 address)) (take 4 (drop 3 address)))
      else if protocol = PROTOCOL_UDPv6 then Some (V6 (take 2 (drop 1 address)) (take 16 (drop 3 address)))
      else None)"

partial_function (option) send_list_udp ::
    "kernel \<Rightarrow> nat \<Rightarrow> nat \<Rightarrow> socket_message \<Rightarrow> socket_server \<Rightarrow>
     (socket_event \<times> socket_message \<times> socket_server) option" where
  "send_list_udp K i prio result ss =
     (let s = ss_slot ss i; wl = get_list prio s
      in case wl_bufs wl of
           [] \<Rightarrow> Some (SOCKET_NONE, result, upd_slot i (put_list prio (wl\<lparr>wl_tail := NULL\<rparr>)) ss)
         | tmp # rest \<Rightarrow> do {
             address \<leftarrow> wb_udp_address tmp;
             guard (0 \<le> sint (wb_sz tmp));
             bytes \<leftarrow> mem_at ss (wb_ptr tmp) (unat (wb_sz tmp));
             let (r, ss1) = sys_sendto K (so_fd s) bytes (udp_socket_address (so_protocol s) address) ss;
             case r of
               Err e \<Rightarrow> Some (SOCKET_NONE, result, ss1)
             | Got n \<Rightarrow> do {
                 ss2 \<leftarrow> write_buffer_free tmp
                   (upd_slot i (\<lambda>s. put_list prio (wl\<lparr>wl_bufs := rest\<rparr>)
                      (s\<lparr>so_wb_size := so_wb_size s - scast (wb_sz tmp)\<rparr>)) ss1);
                 send_list_udp K i prio result ss2 } })"

definition send_list ::
    "kernel \<Rightarrow> nat \<Rightarrow> nat \<Rightarrow> nat \<Rightarrow> socket_message \<Rightarrow> socket_server \<Rightarrow>
     (socket_event \<times> nat \<times> socket_message \<times> socket_server) option" where
  "send_list K i prio l result ss =
     (if so_protocol (ss_slot ss i) = PROTOCOL_TCP then send_list_tcp K i prio l result ss
      else do { (e, res, ss1) \<leftarrow> send_list_udp K i prio result ss; Some (e, l, res, ss1) })"

definition list_uncomplete :: "wb_list \<Rightarrow> bool" where
  "list_uncomplete wl =
     (case wl_bufs wl of [] \<Rightarrow> False | wb # _ \<Rightarrow> wb_ptr wb \<noteq> (wb_buffer wb, 0))"

definition raise_uncomplete :: "socket \<Rightarrow> socket option" where
  "raise_uncomplete s =
     (case wl_bufs (so_low s) of
        [] \<Rightarrow> None
      | tmp # rest \<Rightarrow> do {
          let low = \<lparr>wl_bufs = rest, wl_tail = (if rest = [] then NULL else wl_tail (so_low s))\<rparr>;
          guard (wl_bufs (so_high s) = []);
          Some (s\<lparr>so_low := low, so_high := \<lparr>wl_bufs = [tmp], wl_tail = wb_addr tmp\<rparr>\<rparr>) })"

definition send_buffer_empty :: "socket \<Rightarrow> bool" where
  "send_buffer_empty s \<longleftrightarrow> wl_bufs (so_high s) = [] \<and> wl_bufs (so_low s) = []"

definition send_done :: "kernel \<Rightarrow> nat \<Rightarrow> nat \<Rightarrow> socket_message \<Rightarrow> socket_server \<Rightarrow>
    (socket_event \<times> nat \<times> socket_message \<times> socket_server) option" where
  \<comment> \<open>step 4 of \<open>send_buffer_\<close>\<close>
  "send_done K i l result ss =
     do { guard (send_buffer_empty (ss_slot ss i) \<and> so_wb_size (ss_slot ss i) = 0);
          let ss1 = sp_write K (so_fd (ss_slot ss i)) (Some i) False ss;
          let s = ss_slot ss1 i;
          if so_type s = SOCKET_TYPE_HALFCLOSE
          then do { (l1, res, ss2) \<leftarrow> force_close K i l result ss1; Some (SOCKET_CLOSE, l1, res, ss2) }
          else if 0 < sint (so_warn_size s)
          then Some (SOCKET_WARNING, l,
                 result\<lparr>sm_opaque := so_opaque s, sm_id := so_id s, sm_ud := 0, sm_data := NoData\<rparr>,
                 upd_slot i (\<lambda>s. s\<lparr>so_warn_size := 0\<rparr>) ss1)
          else Some (SOCKET_NONE, l, result, ss1) }"

definition send_low :: "kernel \<Rightarrow> nat \<Rightarrow> nat \<Rightarrow> socket_message \<Rightarrow> socket_server \<Rightarrow>
    (socket_event \<times> nat \<times> socket_message \<times> socket_server) option" where
  \<comment> \<open>steps 2 to 4 of \<open>send_buffer_\<close>\<close>
  "send_low K i l result ss =
     (if wl_bufs (so_low (ss_slot ss i)) = [] then send_done K i l result ss
      else do {
        (e, l1, res, ss1) \<leftarrow> send_list K i PRIORITY_LOW l result ss;
        if e = SOCKET_CLOSE then Some (SOCKET_CLOSE, l1, res, ss1)
        else if list_uncomplete (so_low (ss_slot ss1 i))
        then do { s \<leftarrow> raise_uncomplete (ss_slot ss1 i); Some (SOCKET_NONE, l1, res, upd_slot i (\<lambda>_. s) ss1) }
        else send_done K i l1 res ss1 })"

definition send_buffers :: "kernel \<Rightarrow> nat \<Rightarrow> nat \<Rightarrow> socket_message \<Rightarrow> socket_server \<Rightarrow>
    (socket_event \<times> nat \<times> socket_message \<times> socket_server) option" where
  \<comment> \<open>\<open>send_buffer_\<close>\<close>
  "send_buffers K i l result ss =
     do { guard (\<not> list_uncomplete (so_low (ss_slot ss i)));
          (e, l1, res, ss1) \<leftarrow> send_list K i PRIORITY_HIGH l result ss;
          if e = SOCKET_CLOSE then Some (SOCKET_CLOSE, l1, res, ss1)
          else if wl_bufs (so_high (ss_slot ss1 i)) = [] then send_low K i l1 res ss1
          else Some (SOCKET_NONE, l1, res, ss1) }"

definition take_direct :: "nat \<Rightarrow> socket_server \<Rightarrow> socket_server option" where
  \<comment> \<open>\<open>send_buffer\<close>: the rest of a direct write goes in front of the high list\<close>
  "take_direct i ss =
     (let s = ss_slot ss i
      in if so_dw_buffer s = NULL then Some ss
         else do {
           let (a, ss1) = MALLOC [] ss;
           (userobject, b, sz) \<leftarrow> send_object_init (so_dw_buffer s) (ucast (so_dw_size s)) ss1;
           let buf = \<lparr>wb_addr = a, wb_buffer = so_dw_buffer s, wb_ptr = (b, unat (so_dw_offset s)),
                      wb_sz = sz - so_dw_offset s, wb_userobject = userobject, wb_udp_address = None\<rparr>;
           let high = \<lparr>wl_bufs = buf # wl_bufs (so_high s),
                       wl_tail = (if wl_bufs (so_high s) = [] then a else wl_tail (so_high s))\<rparr>;
           Some (upd_slot i (\<lambda>s. s\<lparr>so_wb_size := so_wb_size s + scast (wb_sz buf), so_high := high,
                                  so_dw_buffer := NULL\<rparr>) ss1) })"

definition send_buffer :: "kernel \<Rightarrow> nat \<Rightarrow> nat \<Rightarrow> socket_message \<Rightarrow> socket_server \<Rightarrow>
    (socket_event \<times> nat \<times> socket_message \<times> socket_server) option" where
  "send_buffer K i l result ss =
     (case socket_trylock K i l ss of
        (False, l1, ss1) \<Rightarrow> Some (SOCKET_NONE, l1, result, ss1)
      | (True, l1, ss1) \<Rightarrow>
          do { ss2 \<leftarrow> take_direct i ss1;
               (e, l2, res, ss3) \<leftarrow> send_buffers K i l1 result ss2;
               (l3, ss4) \<leftarrow> socket_unlock i l2 ss3;
               Some (e, l3, res, ss4) })"

section \<open>Queueing\<close>

definition append_buffer :: "nat \<Rightarrow> nat \<Rightarrow> ptr \<Rightarrow> i32 \<Rightarrow> string option \<Rightarrow> socket_server \<Rightarrow>
    socket_server option" where
  \<comment> \<open>\<open>append_sendbuffer_\<close>, with the update of \<open>wb_size\<close> that all its callers make\<close>
  "append_buffer i prio buffer sz address ss =
     do { let (a, ss1) = MALLOC [] ss;
          (userobject, b, n) \<leftarrow> send_object_init buffer sz ss1;
          let buf = \<lparr>wb_addr = a, wb_buffer = buffer, wb_ptr = (b, 0), wb_sz = n,
                     wb_userobject = userobject, wb_udp_address = address\<rparr>;
          let wl = get_list prio (ss_slot ss1 i);
          guard (wl_bufs wl = [] \<or> wl_tail wl \<noteq> NULL);
          guard (wl_bufs wl = [] \<or> wb_addr (last (wl_bufs wl)) = wl_tail wl);
          Some (upd_slot i (\<lambda>s. put_list prio \<lparr>wl_bufs = wl_bufs wl @ [buf], wl_tail = a\<rparr>
                  (s\<lparr>so_wb_size := so_wb_size s + scast n\<rparr>)) ss1) }"

definition append_sendbuffer_udp :: "nat \<Rightarrow> nat \<Rightarrow> ptr \<Rightarrow> i32 \<Rightarrow> string \<Rightarrow> socket_server \<Rightarrow> socket_server option" where
  "append_sendbuffer_udp i prio buffer sz address ss = append_buffer i prio buffer sz (Some address) ss"

definition append_sendbuffer :: "nat \<Rightarrow> ptr \<Rightarrow> i32 \<Rightarrow> socket_server \<Rightarrow> socket_server option" where
  "append_sendbuffer i buffer sz ss = append_buffer i PRIORITY_HIGH buffer sz None ss"

definition append_sendbuffer_low :: "nat \<Rightarrow> ptr \<Rightarrow> i32 \<Rightarrow> socket_server \<Rightarrow> socket_server option" where
  "append_sendbuffer_low i buffer sz ss = append_buffer i PRIORITY_LOW buffer sz None ss"

definition sock_address :: "string option \<Rightarrow> socket \<Rightarrow> string option" where
  \<comment> \<open>the given address, or the default one of the socket\<close>
  "sock_address address s =
     (case address of Some a \<Rightarrow> Some a | None \<Rightarrow> (case so_p s of PUdp a \<Rightarrow> Some a | PSize _ \<Rightarrow> None))"

definition send_warning :: "nat \<Rightarrow> socket_message \<Rightarrow> socket_server \<Rightarrow>
    (socket_event \<times> socket_message \<times> socket_server)" where
  \<comment> \<open>the end of \<open>send_socket\<close>\<close>
  "send_warning i result ss =
     (let s = ss_slot ss i
      in if sint WARNING_SIZE \<le> sint (so_wb_size s) \<and> sint (so_warn_size s) \<le> sint (so_wb_size s)
         then (SOCKET_WARNING,
               result\<lparr>sm_opaque := so_opaque s, sm_id := so_id s,
                      sm_ud := (let k = sint (so_wb_size s)
                                in word_of_int (if k mod 1024 = 0 then k div 1024 else k div 1024 + 1)),
                      sm_data := NoData\<rparr>,
               upd_slot i (\<lambda>s. s\<lparr>so_warn_size :=
                 (if so_warn_size s = 0 then WARNING_SIZE * 2 else so_warn_size s * 2)\<rparr>) ss)
         else (SOCKET_NONE, result, ss))"

definition send_socket :: "kernel \<Rightarrow> i32 \<Rightarrow> i32 \<Rightarrow> ptr \<Rightarrow> nat \<Rightarrow> string option \<Rightarrow> socket_message \<Rightarrow>
    socket_server \<Rightarrow> (socket_event \<times> socket_message \<times> socket_server) option" where
  "send_socket K sid sz buffer prio udp_address result ss =
     (let i = HASH_ID sid; s = ss_slot ss i
      in do {
        (userobject, b, n) \<leftarrow> send_object_init buffer sz ss;
        if so_type s = SOCKET_TYPE_INVALID \<or> so_id s \<noteq> sid \<or> so_type s = SOCKET_TYPE_HALFCLOSE
           \<or> so_type s = SOCKET_TYPE_PACCEPT \<or> so_type s = SOCKET_TYPE_PLISTEN \<or> so_type s = SOCKET_TYPE_LISTEN
        then do { ss1 \<leftarrow> free_func userobject buffer ss; Some (SOCKET_NONE, result, ss1) }
        else if send_buffer_empty s \<and> so_type s = SOCKET_TYPE_CONNECTED then
          if so_protocol s = PROTOCOL_TCP then do {
            ss1 \<leftarrow> append_sendbuffer i buffer sz ss;
            Some (send_warning i result (sp_write K (so_fd s) (Some i) True ss1)) }
          else do {
            address \<leftarrow> sock_address udp_address s;
            guard (0 \<le> sint n);
            bytes \<leftarrow> mem_at ss (b, 0) (unat n);
            let (r, ss1) = sys_sendto K (so_fd s) bytes (udp_socket_address (so_protocol s) address) ss;
            if r = Got (unat n) then do { ss2 \<leftarrow> free_func userobject buffer ss1; Some (SOCKET_NONE, result, ss2) }
            else do {
              ss2 \<leftarrow> append_sendbuffer_udp i prio buffer sz address ss1;
              Some (send_warning i result (sp_write K (so_fd s) (Some i) True ss2)) } }
        else if so_protocol s = PROTOCOL_TCP then do {
          ss1 \<leftarrow> (if prio = PRIORITY_LOW then append_sendbuffer_low i buffer sz ss
                  else append_sendbuffer i buffer sz ss);
          Some (send_warning i result ss1) }
        else do {
          address \<leftarrow> sock_address udp_address s;
          ss1 \<leftarrow> append_sendbuffer_udp i prio buffer sz address ss;
          Some (send_warning i result ss1) } })"

end
