(* ===== verification/SocketControl.thy ===== *)
theory SocketControl
  imports SocketServer
begin

text \<open>
  The rest of \<open>core/socket_server.c\<close>: the requests that arrive on the control pipe, the
  events of the poll set, the loop of the socket thread, and the functions that other
  threads call. An entry of the control pipe carries the length byte of its header beside
  the real length of its body; the two are compared where the body is read.
\<close>

section \<open>Control requests\<close>

type_synonym outcome = "(socket_event \<times> socket_message \<times> socket_server) option"

definition message_for :: "u64 \<Rightarrow> i32 \<Rightarrow> i32 \<Rightarrow> sdata \<Rightarrow> socket_message \<Rightarrow> socket_message" where
  "message_for opaque sid ud d result = result\<lparr>sm_opaque := opaque, sm_id := sid, sm_ud := ud, sm_data := d\<rparr>"

definition set_type :: "nat \<Rightarrow> socket_type \<Rightarrow> socket_server \<Rightarrow> socket_server" where
  "set_type i t ss = upd_slot i (\<lambda>s. s\<lparr>so_type := t\<rparr>) ss"

definition listen_socket :: "kernel \<Rightarrow> i32 \<Rightarrow> i32 \<Rightarrow> u64 \<Rightarrow> socket_message \<Rightarrow> socket_server \<Rightarrow> outcome" where
  "listen_socket K sid listen_fd opaque result ss =
     do { (s, ss1) \<leftarrow> new_fd K sid listen_fd PROTOCOL_TCP opaque False ss;
          case s of
            Some i \<Rightarrow> Some (SOCKET_NONE, result, set_type i SOCKET_TYPE_PLISTEN ss1)
          | None \<Rightarrow> Some (SOCKET_ERR,
              message_for opaque sid 0 (Text ''reach uboss socket number limit'') result,
              set_type (HASH_ID sid) SOCKET_TYPE_INVALID (sys_close K listen_fd ss1)) }"

definition close_now :: "kernel \<Rightarrow> nat \<Rightarrow> i32 \<Rightarrow> bool \<Rightarrow> u64 \<Rightarrow> nat \<Rightarrow> socket_message \<Rightarrow> socket_server \<Rightarrow> outcome" where
  \<comment> \<open>the end of \<open>close_socket\<close>\<close>
  "close_now K i sid shutdown opaque l result ss =
     (if shutdown \<or> send_buffer_empty (ss_slot ss i) then
        do { (l1, res, ss1) \<leftarrow> force_close K i l result ss;
             Some (SOCKET_CLOSE, res\<lparr>sm_id := sid, sm_opaque := opaque\<rparr>, ss1) }
      else Some (SOCKET_NONE, result, set_type i SOCKET_TYPE_HALFCLOSE ss))"

definition close_socket :: "kernel \<Rightarrow> i32 \<Rightarrow> bool \<Rightarrow> u64 \<Rightarrow> socket_message \<Rightarrow> socket_server \<Rightarrow> outcome" where
  "close_socket K sid shutdown opaque result ss =
     (let i = HASH_ID sid; s = ss_slot ss i
      in if so_type s = SOCKET_TYPE_INVALID \<or> so_id s \<noteq> sid
         then Some (SOCKET_CLOSE, message_for opaque sid 0 NoData result, ss)
         else if \<not> send_buffer_empty s then
           do { (e, l, res, ss1) \<leftarrow> send_buffer K i 0 result ss;
                if e \<noteq> SOCKET_NONE \<and> e \<noteq> SOCKET_WARNING then Some (e, res, ss1)
                else close_now K i sid shutdown opaque l res ss1 }
         else close_now K i sid shutdown opaque 0 result ss)"

definition bind_socket :: "kernel \<Rightarrow> i32 \<Rightarrow> i32 \<Rightarrow> u64 \<Rightarrow> socket_message \<Rightarrow> socket_server \<Rightarrow> outcome" where
  "bind_socket K sid fd opaque result ss =
     do { (s, ss1) \<leftarrow> new_fd K sid fd PROTOCOL_TCP opaque True ss;
          case s of
            None \<Rightarrow> Some (SOCKET_ERR,
              message_for opaque sid 0 (Text ''reach uboss socket number limit'') result, ss1)
          | Some i \<Rightarrow> Some (SOCKET_OPEN, message_for opaque sid 0 (Text ''binding'') result,
              set_type i SOCKET_TYPE_BIND ss1) }"

definition start_socket :: "kernel \<Rightarrow> i32 \<Rightarrow> u64 \<Rightarrow> socket_message \<Rightarrow> socket_server \<Rightarrow> outcome" where
  "start_socket K sid opaque result ss =
     (let i = HASH_ID sid; s = ss_slot ss i; res = message_for opaque sid 0 NoData result
      in if so_type s = SOCKET_TYPE_INVALID \<or> so_id s \<noteq> sid
         then Some (SOCKET_ERR, res\<lparr>sm_data := Text ''invalid socket''\<rparr>, ss)
         else if so_type s = SOCKET_TYPE_PACCEPT \<or> so_type s = SOCKET_TYPE_PLISTEN then
           (case sp_add K (so_fd s) (Some i) ss of
              (True, ss1) \<Rightarrow> do {
                (l, res1, ss2) \<leftarrow> force_close K i 0 res ss1;
                Some (SOCKET_ERR, res1\<lparr>sm_data := Text (k_strerror K (ss_errno ss2))\<rparr>, ss2) }
            | (False, ss1) \<Rightarrow>
                Some (SOCKET_OPEN, res\<lparr>sm_data := Text ''start''\<rparr>,
                  upd_slot i (\<lambda>s. s\<lparr>so_type := (if so_type s = SOCKET_TYPE_PACCEPT then SOCKET_TYPE_CONNECTED
                                               else SOCKET_TYPE_LISTEN),
                                   so_opaque := opaque\<rparr>) ss1))
         else if so_type s = SOCKET_TYPE_CONNECTED
         then Some (SOCKET_OPEN, res\<lparr>sm_data := Text ''transfer''\<rparr>, upd_slot i (\<lambda>s. s\<lparr>so_opaque := opaque\<rparr>) ss)
         else Some (SOCKET_NONE, res, ss))"

definition setopt_socket :: "kernel \<Rightarrow> i32 \<Rightarrow> i32 \<Rightarrow> i32 \<Rightarrow> socket_server \<Rightarrow> socket_server" where
  "setopt_socket K sid what val ss =
     (let s = ss_slot ss (HASH_ID sid)
      in if so_type s = SOCKET_TYPE_INVALID \<or> so_id s \<noteq> sid then ss
         else snd (sys (\<lambda>t. k_setsockopt K t (so_fd s)) ss))"

definition has_cmd :: "kernel \<Rightarrow> socket_server \<Rightarrow> bool \<times> socket_server" where
  "has_cmd K ss = (ss_pipe ss \<noteq> [] \<and> k_ready K (ss_tick ss), ss\<lparr>ss_tick := Suc (ss_tick ss)\<rparr>)"

definition add_udp_socket :: "kernel \<Rightarrow> i32 \<Rightarrow> i32 \<Rightarrow> addr_family \<Rightarrow> u64 \<Rightarrow> socket_server \<Rightarrow> socket_server option" where
  "add_udp_socket K sid fd family opaque ss =
     (let protocol = (if family = AF_INET6 then PROTOCOL_UDPv6 else PROTOCOL_UDP)
      in do { (ns, ss1) \<leftarrow> new_fd K sid fd protocol opaque True ss;
              case ns of
                None \<Rightarrow> Some (set_type (HASH_ID sid) SOCKET_TYPE_INVALID (sys_close K fd ss1))
              | Some i \<Rightarrow> Some (upd_slot i (\<lambda>s. s\<lparr>so_type := SOCKET_TYPE_CONNECTED,
                                                 so_p := PUdp (replicate UDP_ADDRESS_SIZE NUL)\<rparr>) ss1) })"

definition set_udp_address :: "i32 \<Rightarrow> string \<Rightarrow> socket_message \<Rightarrow> socket_server \<Rightarrow> outcome" where
  "set_udp_address sid address result ss =
     (let i = HASH_ID sid; s = ss_slot ss i
      in if so_type s = SOCKET_TYPE_INVALID \<or> so_id s \<noteq> sid then Some (SOCKET_NONE, result, ss)
         else if of_char (hd address) \<noteq> so_protocol s
         then Some (SOCKET_ERR, message_for (so_opaque s) (so_id s) 0 (Text ''protocol mismatch'') result, ss)
         else let n = (if of_char (hd address) = PROTOCOL_UDP then 1 + 2 + 4 else 1 + 2 + 16)
              in case so_p s of
                   PSize _ \<Rightarrow> None
                 | PUdp old \<Rightarrow>
                     Some (SOCKET_NONE, result,
                       upd_slot i (\<lambda>s. s\<lparr>so_p := PUdp (take n address @ drop n old),
                                        so_udpconnecting := so_udpconnecting s - 1\<rparr>) ss))"

definition run_request :: "kernel \<Rightarrow> char \<Rightarrow> request \<Rightarrow> socket_message \<Rightarrow> socket_server \<Rightarrow> outcome" where
  \<comment> \<open>the switch of \<open>ctrl_cmd\<close>\<close>
  "run_request K type body result ss =
     (if type = CHR ''S'' then (case body of ReqStart sid opaque \<Rightarrow> start_socket K sid opaque result ss | _ \<Rightarrow> None)
      else if type = CHR ''B'' then
        (case body of ReqBind sid fd opaque \<Rightarrow> bind_socket K sid fd opaque result ss | _ \<Rightarrow> None)
      else if type = CHR ''L'' then
        (case body of ReqListen sid fd opaque \<Rightarrow> listen_socket K sid fd opaque result ss | _ \<Rightarrow> None)
      else if type = CHR ''K'' then
        (case body of ReqClose sid shutdown opaque \<Rightarrow> close_socket K sid shutdown opaque result ss | _ \<Rightarrow> None)
      else if type = CHR ''O'' then
        (case body of ReqOpen sid port opaque host \<Rightarrow> open_socket K sid port opaque host result ss | _ \<Rightarrow> None)
      else if type = CHR ''X'' then Some (SOCKET_EXIT, message_for 0 0 0 NoData result, ss)
      else if type = CHR ''D'' then
        (case body of ReqSend sid sz buffer \<Rightarrow> send_socket K sid sz buffer PRIORITY_HIGH None result ss | _ \<Rightarrow> None)
      else if type = CHR ''P'' then
        (case body of ReqSend sid sz buffer \<Rightarrow> send_socket K sid sz buffer PRIORITY_LOW None result ss | _ \<Rightarrow> None)
      else if type = CHR ''A'' then
        (case body of ReqSendUdp sid sz buffer address \<Rightarrow>
           send_socket K sid sz buffer PRIORITY_HIGH (Some address) result ss | _ \<Rightarrow> None)
      else if type = CHR ''C'' then
        (case body of ReqSetudp sid address \<Rightarrow> set_udp_address sid address result ss | _ \<Rightarrow> None)
      else if type = CHR ''T'' then
        (case body of ReqSetopt sid what val \<Rightarrow> Some (SOCKET_NONE, result, setopt_socket K sid what val ss) | _ \<Rightarrow> None)
      else if type = CHR ''U'' then
        (case body of ReqUdp sid fd family opaque \<Rightarrow>
           do { ss1 \<leftarrow> add_udp_socket K sid fd family opaque ss; Some (SOCKET_NONE, result, ss1) } | _ \<Rightarrow> None)
      else Some (SOCKET_NONE, result, ss))"

definition ctrl_cmd :: "kernel \<Rightarrow> socket_message \<Rightarrow> socket_server \<Rightarrow> outcome" where
  "ctrl_cmd K result ss =
     (case ss_pipe ss of
        [] \<Rightarrow> None
      | p # ps \<Rightarrow> do { guard (unat (rq_len p) = rq_size p);
                      run_request K (rq_type p) (rq_body p) result (ss\<lparr>ss_pipe := ps\<rparr>) })"

section \<open>Events\<close>

definition forward_message_tcp :: "kernel \<Rightarrow> nat \<Rightarrow> socket_message \<Rightarrow> socket_server \<Rightarrow> outcome" where
  "forward_message_tcp K i result ss =
     (let s = ss_slot ss i
      in case so_p s of
           PUdp _ \<Rightarrow> None
         | PSize sz \<Rightarrow> do {
             guard (0 \<le> sint sz);
             let (buffer, ss1) = MALLOC [] ss;
             case sys (\<lambda>t. k_read K t (so_fd s) (unat sz)) ss1 of
               (Err e, ss2) \<Rightarrow> do {
                 ss3 \<leftarrow> FREE buffer ss2;
                 if e = EINTR \<or> e = EAGAIN then Some (SOCKET_NONE, result, ss3)
                 else do { (l, res, ss4) \<leftarrow> force_close K i 0 result ss3;
                           Some (SOCKET_ERR, res\<lparr>sm_data := Text (k_strerror K (ss_errno ss4))\<rparr>, ss4) } }
             | (Got bytes, ss2) \<Rightarrow>
                 if bytes = [] then do {
                   ss3 \<leftarrow> FREE buffer ss2;
                   (l, res, ss4) \<leftarrow> force_close K i 0 result ss3;
                   Some (SOCKET_CLOSE, res, ss4) }
                 else if so_type s = SOCKET_TYPE_HALFCLOSE then do {
                   ss3 \<leftarrow> FREE buffer ss2; Some (SOCKET_NONE, result, ss3) }
                 else do {
                   let n = word_of_nat (length bytes);
                   let sz1 = (if n = sz then sz * 2
                              else if sint MIN_READ_BUFFER < sint sz \<and> sint (n * 2) < sint sz then sz div 2
                              else sz);
                   let ss3 = upd_slot i (\<lambda>s. s\<lparr>so_p := PSize sz1\<rparr>)
                               (ss2\<lparr>ss_mem := (ss_mem ss2)(buffer \<mapsto> bytes)\<rparr>);
                   Some (SOCKET_DATA, message_for (so_opaque s) (so_id s) n (Block buffer) result, ss3) } })"

definition gen_udp_address :: "u8 \<Rightarrow> sockaddr \<Rightarrow> string option" where
  "gen_udp_address protocol sa =
     (case sa of
        V4 port addr \<Rightarrow> if protocol = PROTOCOL_UDP then Some (char_of (unat protocol) # port @ addr) else None
      | V6 port addr \<Rightarrow> if protocol = PROTOCOL_UDP then None else Some (char_of (unat protocol) # port @ addr))"

definition forward_message_udp :: "kernel \<Rightarrow> nat \<Rightarrow> socket_message \<Rightarrow> socket_server \<Rightarrow> outcome" where
  "forward_message_udp K i result ss =
     (let s = ss_slot ss i
      in case sys (\<lambda>t. k_recvfrom K t (so_fd s) MAX_UDP_PACKAGE) ss of
           (Err e, ss1) \<Rightarrow>
             if e = EINTR \<or> e = EAGAIN then Some (SOCKET_NONE, result, ss1)
             else do { (l, res, ss2) \<leftarrow> force_close K i 0 result ss1;
                       Some (SOCKET_ERR, res\<lparr>sm_data := Text (k_strerror K (ss_errno ss2))\<rparr>, ss2) }
         | (Got (bytes, sa), ss1) \<Rightarrow>
             let protocol = (case sa of V4 _ _ \<Rightarrow> PROTOCOL_UDP | V6 _ _ \<Rightarrow> PROTOCOL_UDPv6)
             in if so_protocol s \<noteq> protocol then Some (SOCKET_NONE, result, ss1)
                else do {
                  address \<leftarrow> gen_udp_address protocol sa;
                  let (buffer, ss2) = MALLOC (bytes @ address) ss1;
                  Some (SOCKET_UDP,
                    message_for (so_opaque s) (so_id s) (word_of_nat (length bytes)) (Block buffer) result, ss2) })"

definition report_connect :: "kernel \<Rightarrow> nat \<Rightarrow> socket_message \<Rightarrow> socket_server \<Rightarrow> outcome" where
  "report_connect K i result ss =
     (let s = ss_slot ss i
      in case sys (\<lambda>t. k_so_error K t (so_fd s)) ss of
           (r, ss1) \<Rightarrow>
             if r \<noteq> Got 0 then do {
               (l, res, ss2) \<leftarrow> force_close K i 0 result ss1;
               Some (SOCKET_ERR,
                 res\<lparr>sm_data := Text (k_strerror K (case r of Got e \<Rightarrow> e | Err _ \<Rightarrow> ss_errno ss2))\<rparr>, ss2) }
             else
               let ss2 = set_type i SOCKET_TYPE_CONNECTED ss1;
                   ss3 = (if send_buffer_empty s then sp_write K (so_fd s) (Some i) False ss2 else ss2)
               in case sys (\<lambda>t. k_getpeername K t (so_fd s)) ss3 of
                    (Got sa, ss4) \<Rightarrow>
                      (case k_inet_ntop K sa of
                         Some txt \<Rightarrow> Some (SOCKET_OPEN, message_for (so_opaque s) (so_id s) 0 (Text txt) result,
                                          ss4\<lparr>ss_buffer := txt\<rparr>)
                       | None \<Rightarrow> Some (SOCKET_OPEN, message_for (so_opaque s) (so_id s) 0 NoData result, ss4))
                  | (Err _, ss4) \<Rightarrow> Some (SOCKET_OPEN, message_for (so_opaque s) (so_id s) 0 NoData result, ss4))"

definition ntohs :: "string \<Rightarrow> nat" where
  "ntohs port = of_char (port ! 0) * 256 + of_char (port ! 1)"

definition report_accept :: "kernel \<Rightarrow> nat \<Rightarrow> socket_message \<Rightarrow> socket_server \<Rightarrow> (int \<times> socket_message \<times> socket_server) option"
  where
  "report_accept K i result ss =
     (let s = ss_slot ss i
      in case sys (\<lambda>t. k_accept K t (so_fd s)) ss of
           (Err e, ss1) \<Rightarrow>
             if e = EMFILE \<or> e = ENFILE
             then Some (- 1, message_for (so_opaque s) (so_id s) 0 (Text (k_strerror K e)) result, ss1)
             else Some (0, result, ss1)
         | (Got (client_fd, u), ss1) \<Rightarrow>
             (case reserve_id ss1 of
                (sid, ss2) \<Rightarrow>
                  if sint sid < 0 then Some (0, result, sys_close K client_fd ss2)
                  else do {
                    (ns, ss3) \<leftarrow> new_fd K sid client_fd PROTOCOL_TCP (so_opaque s) False ss2;
                    case ns of
                      None \<Rightarrow> Some (0, result, sys_close K client_fd ss3)
                    | Some j \<Rightarrow>
                        let ss4 = set_type j SOCKET_TYPE_PACCEPT ss3;
                            port = (case u of V4 p _ \<Rightarrow> p | V6 p _ \<Rightarrow> p)
                        in case k_inet_ntop K u of
                             Some txt \<Rightarrow>
                               let line = take (MAX_INFO - 1) (txt @ '':'' @ print_d (int (ntohs port)))
                               in Some (1, message_for (so_opaque s) (so_id s) sid (Text line) result,
                                        ss4\<lparr>ss_buffer := line\<rparr>)
                           | None \<Rightarrow> Some (1, message_for (so_opaque s) (so_id s) sid NoData result, ss4) }))"

fun clear_events :: "i32 \<Rightarrow> (nat \<Rightarrow> socket) \<Rightarrow> event list \<Rightarrow> event list" where
  \<comment> \<open>the loop of \<open>clear_closed_event\<close>: only the first event of the closed socket\<close>
  "clear_events sid slot [] = []"
| "clear_events sid slot (e # es) =
     (case ev_s e of
        Some i \<Rightarrow>
          if so_type (slot i) = SOCKET_TYPE_INVALID \<and> so_id (slot i) = sid then e\<lparr>ev_s := None\<rparr> # es
          else e # clear_events sid slot es
      | None \<Rightarrow> e # clear_events sid slot es)"

definition clear_closed_event :: "socket_message \<Rightarrow> socket_event \<Rightarrow> socket_server \<Rightarrow> socket_server" where
  "clear_closed_event result type ss =
     (if type = SOCKET_CLOSE \<or> type = SOCKET_ERR
      then ss\<lparr>ss_ev := take (ss_event_index ss) (ss_ev ss) @
                        clear_events (sm_id result) (ss_slot ss) (drop (ss_event_index ss) (ss_ev ss))\<rparr>
      else ss)"

section \<open>The loop of the socket thread\<close>

text \<open>One round: \<open>Inl\<close> goes round again, \<open>Inr\<close> returns; the flag is \<open>*more\<close>.\<close>

type_synonym round = "((socket_message \<times> bool \<times> socket_server) + (socket_event \<times> socket_message \<times> bool \<times> socket_server)) option"

definition returns :: "bool \<Rightarrow> socket_event \<times> socket_message \<times> socket_server \<Rightarrow> round" where
  "returns mr r = (case r of (e, res, ss) \<Rightarrow> Some (Inr (e, res, mr, ss)))"

definition unless_none :: "bool \<Rightarrow> socket_event \<times> socket_message \<times> socket_server \<Rightarrow> round" where
  "unless_none mr r =
     (case r of (e, res, ss) \<Rightarrow>
        if e = SOCKET_NONE then Some (Inl (res, mr, ss)) else Some (Inr (e, res, mr, ss)))"

definition poll_error :: "kernel \<Rightarrow> nat \<Rightarrow> socket_message \<Rightarrow> socket_server \<Rightarrow> outcome" where
  "poll_error K i result ss =
     (case sys (\<lambda>t. k_so_error K t (so_fd (ss_slot ss i))) ss of
        (r, ss1) \<Rightarrow>
          let err = (case r of Err e \<Rightarrow> k_strerror K e
                     | Got e \<Rightarrow> if e \<noteq> 0 then k_strerror K e else ''Unknown error'')
          in do { (l, res, ss2) \<leftarrow> force_close K i 0 result ss1;
                  Some (SOCKET_ERR, res\<lparr>sm_data := Text err\<rparr>, ss2) })"

definition poll_socket :: "kernel \<Rightarrow> event \<Rightarrow> nat \<Rightarrow> socket_message \<Rightarrow> bool \<Rightarrow> socket_server \<Rightarrow> round" where
  \<comment> \<open>the default case of the switch of \<open>socket_server_poll\<close>; the event has been counted already\<close>
  "poll_socket K e i result mr ss =
     (if ev_read e then
        if so_protocol (ss_slot ss i) = PROTOCOL_TCP then do {
          (type, res, ss1) \<leftarrow> forward_message_tcp K i result ss;
          let ss2 = (if ev_write e \<and> type \<noteq> SOCKET_CLOSE \<and> type \<noteq> SOCKET_ERR
                     then ss1\<lparr>ss_event_index := ss_event_index ss1 - 1,
                              ss_ev := (ss_ev ss1)[ss_event_index ss1 - 1 := e\<lparr>ev_read := False\<rparr>]\<rparr>
                     else ss1);
          unless_none mr (type, res, ss2) }
        else do {
          (type, res, ss1) \<leftarrow> forward_message_udp K i result ss;
          if type = SOCKET_UDP
          then returns mr (SOCKET_UDP, res, ss1\<lparr>ss_event_index := ss_event_index ss1 - 1\<rparr>)
          else
            let ss2 = (if ev_write e \<and> type \<noteq> SOCKET_CLOSE \<and> type \<noteq> SOCKET_ERR
                       then ss1\<lparr>ss_event_index := ss_event_index ss1 - 1,
                                ss_ev := (ss_ev ss1)[ss_event_index ss1 - 1 := e\<lparr>ev_read := False\<rparr>]\<rparr>
                       else ss1)
            in unless_none mr (type, res, ss2) }
      else if ev_write e then do {
        (type, l, res, ss1) \<leftarrow> send_buffer K i 0 result ss;
        unless_none mr (type, res, ss1) }
      else if ev_error e then do { r \<leftarrow> poll_error K i result ss; returns mr r }
      else Some (Inl (result, mr, ss)))"

definition poll_event :: "kernel \<Rightarrow> socket_message \<Rightarrow> bool \<Rightarrow> socket_server \<Rightarrow> round" where
  \<comment> \<open>the next event is handled\<close>
  "poll_event K result mr ss =
     do { guard (ss_event_index ss < length (ss_ev ss));
          let e = ss_ev ss ! ss_event_index ss;
          let ss1 = ss\<lparr>ss_event_index := Suc (ss_event_index ss)\<rparr>;
          case ev_s e of
            None \<Rightarrow> Some (Inl (result, mr, ss1))
          | Some i \<Rightarrow>
              (case so_type (ss_slot ss1 i) of
                 SOCKET_TYPE_CONNECTING \<Rightarrow> do { r \<leftarrow> report_connect K i result ss1; returns mr r }
               | SOCKET_TYPE_LISTEN \<Rightarrow> do {
                   (ok, res, ss2) \<leftarrow> report_accept K i result ss1;
                   if 0 < ok then returns mr (SOCKET_ACCEPT, res, ss2)
                   else if ok < 0 then returns mr (SOCKET_ERR, res, ss2)
                   else Some (Inl (res, mr, ss2)) }
               | SOCKET_TYPE_INVALID \<Rightarrow> Some (Inl (result, mr, ss1))
               | _ \<Rightarrow> poll_socket K e i result mr ss1) }"

definition poll_wait :: "kernel \<Rightarrow> socket_message \<Rightarrow> bool \<Rightarrow> socket_server \<Rightarrow> round" where
  "poll_wait K result mr ss =
     (if ss_event_index ss = ss_event_n ss then
        (case sys (k_epoll_wait K) ss of
           (r, ss1) \<Rightarrow>
             let es = (case r of Got es \<Rightarrow> take MAX_EVENT es | Err _ \<Rightarrow> []);
                 ss2 = ss1\<lparr>ss_ev := (if es = [] then ss_ev ss1 else es), ss_event_n := length es,
                           ss_checkctrl := True, ss_event_index := 0\<rparr>
             in if es = [] then
                  if ss_errno ss2 = EINTR then Some (Inl (result, False, ss2))
                  else Some (Inr (SOCKET_NONE, result, False, ss2))
                else poll_event K result False ss2)
      else poll_event K result mr ss)"

definition poll_round :: "kernel \<Rightarrow> socket_message \<Rightarrow> bool \<Rightarrow> socket_server \<Rightarrow> round" where
  "poll_round K result mr ss =
     (if ss_checkctrl ss then
        (case has_cmd K ss of
           (True, ss1) \<Rightarrow> do {
             (type, res, ss2) \<leftarrow> ctrl_cmd K result ss1;
             if type \<noteq> SOCKET_NONE then returns mr (type, res, clear_closed_event res type ss2)
             else Some (Inl (res, mr, ss2)) }
         | (False, ss1) \<Rightarrow> poll_wait K result mr (ss1\<lparr>ss_checkctrl := False\<rparr>))
      else poll_wait K result mr ss)"

partial_function (option) socket_server_poll :: "kernel \<Rightarrow> socket_message \<Rightarrow> bool \<Rightarrow> socket_server \<Rightarrow>
    (socket_event \<times> socket_message \<times> bool \<times> socket_server) option" where
  "socket_server_poll K result mr ss =
     (case poll_round K result mr ss of
        None \<Rightarrow> None
      | Some (Inr r) \<Rightarrow> Some r
      | Some (Inl (res, more1, ss1)) \<Rightarrow> socket_server_poll K res more1 ss1)"

section \<open>The functions of other threads\<close>

partial_function (option) send_request :: "kernel \<Rightarrow> char \<Rightarrow> nat \<Rightarrow> request \<Rightarrow> socket_server \<Rightarrow> socket_server option"
  where
  \<comment> \<open>\<open>len\<close> is the length of the body; a failed write to the pipe is repeated\<close>
  "send_request K type len body ss =
     (case sys (\<lambda>t. k_pipe_write K t (len + 2)) ss of
        (Err _, ss1) \<Rightarrow> send_request K type len body ss1
      | (Got n, ss1) \<Rightarrow> do {
          guard (n = len + 2);
          Some (ss1\<lparr>ss_pipe := ss_pipe ss1 @
            [\<lparr>rq_type = type, rq_len = word_of_nat len, rq_size = len, rq_body = body\<rparr>]\<rparr>) })"

text \<open>The sizes of the request structures, with eight-byte pointers.\<close>

definition sizeof_open :: nat where "sizeof_open = 24"
definition sizeof_send :: nat where "sizeof_send = 16"
definition sizeof_close :: nat where "sizeof_close = 16"
definition sizeof_listen :: nat where "sizeof_listen = 24"
definition sizeof_bind :: nat where "sizeof_bind = 16"
definition sizeof_start :: nat where "sizeof_start = 16"
definition sizeof_setopt :: nat where "sizeof_setopt = 12"
definition sizeof_udp :: nat where "sizeof_udp = 24"
definition sizeof_setudp :: nat where "sizeof_setudp = 24"

definition open_request :: "u64 \<Rightarrow> string \<Rightarrow> i32 \<Rightarrow> socket_server \<Rightarrow> ((i32 \<times> request) option \<times> socket_server)" where
  "open_request opaque addr port ss =
     (if 256 \<le> length addr + sizeof_open then (None, ss)
      else (case reserve_id ss of
              (sid, ss1) \<Rightarrow> if sint sid < 0 then (None, ss1) else (Some (sid, ReqOpen sid port opaque addr), ss1)))"

definition socket_server_connect :: "kernel \<Rightarrow> u64 \<Rightarrow> string \<Rightarrow> i32 \<Rightarrow> socket_server \<Rightarrow> (i32 \<times> socket_server) option" where
  "socket_server_connect K opaque addr port ss =
     (case open_request opaque addr port ss of
        (None, ss1) \<Rightarrow> Some (- 1, ss1)
      | (Some (sid, req), ss1) \<Rightarrow> do {
          ss2 \<leftarrow> send_request K (CHR ''O'') (sizeof_open + length addr) req ss1;
          Some (sid, ss2) })"

definition can_direct_write :: "socket \<Rightarrow> i32 \<Rightarrow> bool" where
  "can_direct_write s sid \<longleftrightarrow>
     so_id s = sid \<and> send_buffer_empty s \<and> so_type s = SOCKET_TYPE_CONNECTED \<and> so_dw_buffer s = NULL
     \<and> so_udpconnecting s = 0"

definition direct_write :: "kernel \<Rightarrow> nat \<Rightarrow> ptr \<Rightarrow> i32 \<Rightarrow> socket_server \<Rightarrow> (nat \<times> socket_server) option" where
  \<comment> \<open>the attempt of \<open>socket_server_send\<close> to write at once: the number of bytes taken\<close>
  "direct_write K i b n ss =
     (let s = ss_slot ss i
      in do {
        guard (0 \<le> sint n);
        bytes \<leftarrow> mem_at ss (b, 0) (unat n);
        (r, ss1) \<leftarrow> (if so_protocol s = PROTOCOL_TCP then Some (sys_write K (so_fd s) bytes ss)
                     else do { address \<leftarrow> sock_address None s;
                               Some (sys_sendto K (so_fd s) bytes (udp_socket_address (so_protocol s) address) ss) });
        Some (case r of Got k \<Rightarrow> k | Err _ \<Rightarrow> 0, ss1) })"

definition socket_server_send :: "kernel \<Rightarrow> i32 \<Rightarrow> ptr \<Rightarrow> i32 \<Rightarrow> socket_server \<Rightarrow> (i32 \<times> socket_server) option" where
  "socket_server_send K sid buffer sz ss =
     (let i = HASH_ID sid; s = ss_slot ss i
      in if so_id s \<noteq> sid \<or> so_type s = SOCKET_TYPE_INVALID
         then do { ss1 \<leftarrow> free_buffer buffer sz ss; Some (- 1, ss1) }
         else case (if can_direct_write s sid then socket_trylock K i 0 ss else (False, 0, ss)) of
           (False, l, ss1) \<Rightarrow> do {
             ss2 \<leftarrow> send_request K (CHR ''D'') sizeof_send (ReqSend sid sz buffer) ss1; Some (0, ss2) }
         | (True, l, ss1) \<Rightarrow>
             if can_direct_write (ss_slot ss1 i) sid then do {
               (userobject, b, n) \<leftarrow> send_object_init buffer sz ss1;
               (k, ss2) \<leftarrow> direct_write K i b n ss1;
               if k = unat n then do {
                 (l1, ss3) \<leftarrow> socket_unlock i l ss2;
                 ss4 \<leftarrow> free_func userobject buffer ss3;
                 Some (0, ss4) }
               else do {
                 let ss3 = upd_slot i (\<lambda>s. s\<lparr>so_dw_buffer := buffer, so_dw_size := scast sz,
                                            so_dw_offset := word_of_nat k\<rparr>) ss2;
                 (l1, ss5) \<leftarrow> socket_unlock i l (sp_write K (so_fd (ss_slot ss3 i)) (Some i) True ss3);
                 Some (0, ss5) } }
             else do {
               (l1, ss2) \<leftarrow> socket_unlock i l ss1;
               ss3 \<leftarrow> send_request K (CHR ''D'') sizeof_send (ReqSend sid sz buffer) ss2; Some (0, ss3) })"

definition socket_server_send_lowpriority :: "kernel \<Rightarrow> i32 \<Rightarrow> ptr \<Rightarrow> i32 \<Rightarrow> socket_server \<Rightarrow> (i32 \<times> socket_server) option"
  where
  "socket_server_send_lowpriority K sid buffer sz ss =
     (let s = ss_slot ss (HASH_ID sid)
      in if so_id s \<noteq> sid \<or> so_type s = SOCKET_TYPE_INVALID
         then do { ss1 \<leftarrow> free_buffer buffer sz ss; Some (- 1, ss1) }
         else do { ss1 \<leftarrow> send_request K (CHR ''P'') sizeof_send (ReqSend sid sz buffer) ss; Some (0, ss1) })"

definition socket_server_exit :: "kernel \<Rightarrow> socket_server \<Rightarrow> socket_server option" where
  "socket_server_exit K ss = send_request K (CHR ''X'') 0 ReqNone ss"

definition socket_server_close :: "kernel \<Rightarrow> u64 \<Rightarrow> i32 \<Rightarrow> socket_server \<Rightarrow> socket_server option" where
  "socket_server_close K opaque sid ss = send_request K (CHR ''K'') sizeof_close (ReqClose sid False opaque) ss"

definition socket_server_shutdown :: "kernel \<Rightarrow> u64 \<Rightarrow> i32 \<Rightarrow> socket_server \<Rightarrow> socket_server option" where
  "socket_server_shutdown K opaque sid ss = send_request K (CHR ''K'') sizeof_close (ReqClose sid True opaque) ss"

definition do_bind :: "kernel \<Rightarrow> string option \<Rightarrow> i32 \<Rightarrow> socket_server \<Rightarrow> (i32 \<times> addr_family) option \<times> socket_server" where
  \<comment> \<open>\<open>None\<close> is the result \<open>-1\<close>; a lookup that succeeds has at least one address\<close>
  "do_bind K host port ss =
     (let host1 = (case host of None \<Rightarrow> ''0.0.0.0'' | Some h \<Rightarrow> if h = [] then ''0.0.0.0'' else h)
      in case sys (\<lambda>t. k_getaddrinfo K t host1 port) ss of
           (Err _, ss1) \<Rightarrow> (None, ss1)
         | (Got [], ss1) \<Rightarrow> (None, ss1)
         | (Got (ai # ais), ss1) \<Rightarrow>
             (case sys (\<lambda>t. k_socket K t (ai_family ai)) ss1 of
                (Err _, ss2) \<Rightarrow> (None, ss2)
              | (Got fd, ss2) \<Rightarrow>
                  (case sys (\<lambda>t. k_setsockopt K t fd) ss2 of
                     (Err _, ss3) \<Rightarrow> (None, sys_close K fd ss3)
                   | (Got _, ss3) \<Rightarrow>
                       (case sys (\<lambda>t. k_bind K t fd (ai_addr ai)) ss3 of
                          (Err _, ss4) \<Rightarrow> (None, sys_close K fd ss4)
                        | (Got _, ss4) \<Rightarrow> (Some (fd, ai_family ai), ss4)))))"

definition do_listen :: "kernel \<Rightarrow> string option \<Rightarrow> i32 \<Rightarrow> i32 \<Rightarrow> socket_server \<Rightarrow> i32 option \<times> socket_server" where
  "do_listen K host port backlog ss =
     (case do_bind K host port ss of
        (None, ss1) \<Rightarrow> (None, ss1)
      | (Some (fd, family), ss1) \<Rightarrow>
          (case sys (\<lambda>t. k_listen K t fd backlog) ss1 of
             (Err _, ss2) \<Rightarrow> (None, sys_close K fd ss2)
           | (Got _, ss2) \<Rightarrow> (Some fd, ss2)))"

definition socket_server_listen ::
    "kernel \<Rightarrow> u64 \<Rightarrow> string option \<Rightarrow> i32 \<Rightarrow> i32 \<Rightarrow> socket_server \<Rightarrow> (i32 \<times> socket_server) option" where
  "socket_server_listen K opaque addr port backlog ss =
     (case do_listen K addr port backlog ss of
        (None, ss1) \<Rightarrow> Some (- 1, ss1)
      | (Some fd, ss1) \<Rightarrow>
          (case reserve_id ss1 of
             (sid, ss2) \<Rightarrow>
               if sint sid < 0 then Some (sid, sys_close K fd ss2)
               else do { ss3 \<leftarrow> send_request K (CHR ''L'') sizeof_listen (ReqListen sid fd opaque) ss2;
                         Some (sid, ss3) }))"

definition socket_server_bind :: "kernel \<Rightarrow> u64 \<Rightarrow> i32 \<Rightarrow> socket_server \<Rightarrow> (i32 \<times> socket_server) option" where
  "socket_server_bind K opaque fd ss =
     (case reserve_id ss of
        (sid, ss1) \<Rightarrow>
          if sint sid < 0 then Some (- 1, ss1)
          else do { ss2 \<leftarrow> send_request K (CHR ''B'') sizeof_bind (ReqBind sid fd opaque) ss1; Some (sid, ss2) })"

definition socket_server_start :: "kernel \<Rightarrow> u64 \<Rightarrow> i32 \<Rightarrow> socket_server \<Rightarrow> socket_server option" where
  "socket_server_start K opaque sid ss = send_request K (CHR ''S'') sizeof_start (ReqStart sid opaque) ss"

definition TCP_NODELAY :: i32 where "TCP_NODELAY = 1"

definition socket_server_nodelay :: "kernel \<Rightarrow> i32 \<Rightarrow> socket_server \<Rightarrow> socket_server option" where
  "socket_server_nodelay K sid ss = send_request K (CHR ''T'') sizeof_setopt (ReqSetopt sid TCP_NODELAY 1) ss"

definition socket_server_userobject :: "socket_object_interface \<Rightarrow> socket_server \<Rightarrow> socket_server" where
  "socket_server_userobject soi ss = ss\<lparr>ss_soi := Some soi\<rparr>"

definition socket_server_udp :: "kernel \<Rightarrow> u64 \<Rightarrow> string option \<Rightarrow> i32 \<Rightarrow> socket_server \<Rightarrow> (i32 \<times> socket_server) option" where
  "socket_server_udp K opaque addr port ss =
     (let (r, ss1) =
        (if port \<noteq> 0 \<or> addr \<noteq> None then do_bind K addr port ss
         else (case sys (\<lambda>t. k_socket K t AF_INET) ss of
                 (Err _, ss1) \<Rightarrow> (None, ss1)
               | (Got fd, ss1) \<Rightarrow> (Some (fd, AF_INET), ss1)))
      in case r of
           None \<Rightarrow> Some (- 1, ss1)
         | Some (fd, family) \<Rightarrow>
             (case reserve_id ss1 of
                (sid, ss2) \<Rightarrow>
                  if sint sid < 0 then Some (- 1, sys_close K fd ss2)
                  else do { ss3 \<leftarrow> send_request K (CHR ''U'') sizeof_udp (ReqUdp sid fd family opaque) ss2;
                            Some (sid, ss3) }))"

definition udp_address_size :: "string \<Rightarrow> nat option" where
  \<comment> \<open>by the type byte\<close>
  "udp_address_size address =
     (if address = [] then None
      else if of_char (hd address) = PROTOCOL_UDP then Some (1 + 2 + 4)
      else if of_char (hd address) = PROTOCOL_UDPv6 then Some (1 + 2 + 16)
      else None)"

definition socket_server_udp_send ::
    "kernel \<Rightarrow> i32 \<Rightarrow> string \<Rightarrow> ptr \<Rightarrow> i32 \<Rightarrow> socket_server \<Rightarrow> (i32 \<times> socket_server) option" where
  "socket_server_udp_send K sid addr buffer sz ss =
     (let i = HASH_ID sid; s = ss_slot ss i
      in if so_id s \<noteq> sid \<or> so_type s = SOCKET_TYPE_INVALID
         then do { ss1 \<leftarrow> free_buffer buffer sz ss; Some (- 1, ss1) }
         else if addr = [] then None
         else case udp_address_size addr of
           None \<Rightarrow> do { ss1 \<leftarrow> free_buffer buffer sz ss; Some (- 1, ss1) }
         | Some addrsz \<Rightarrow>
             let request = (\<lambda>ss. do {
                   ss1 \<leftarrow> send_request K (CHR ''A'') (sizeof_send + addrsz)
                             (ReqSendUdp sid sz buffer (take addrsz addr)) ss;
                   Some (0, ss1) })
             in case (if can_direct_write s sid then socket_trylock K i 0 ss else (False, 0, ss)) of
                  (False, l, ss1) \<Rightarrow> request ss1
                | (True, l, ss1) \<Rightarrow>
                    if can_direct_write (ss_slot ss1 i) sid then do {
                      (userobject, b, n) \<leftarrow> send_object_init buffer sz ss1;
                      guard (0 \<le> sint n);
                      bytes \<leftarrow> mem_at ss1 (b, 0) (unat n);
                      let (r, ss2) = sys_sendto K (so_fd s) bytes (udp_socket_address (so_protocol s) addr) ss1;
                      (l1, ss3) \<leftarrow> socket_unlock i l ss2;
                      case r of
                        Got _ \<Rightarrow> do { ss4 \<leftarrow> free_func userobject buffer ss3; Some (0, ss4) }
                      | Err _ \<Rightarrow> request ss3 }
                    else do { (l1, ss2) \<leftarrow> socket_unlock i l ss1; request ss2 })"

definition socket_server_udp_connect ::
    "kernel \<Rightarrow> i32 \<Rightarrow> string \<Rightarrow> i32 \<Rightarrow> socket_server \<Rightarrow> (i32 \<times> socket_server) option" where
  "socket_server_udp_connect K sid addr port ss =
     (let i = HASH_ID sid; s = ss_slot ss i
      in if so_id s \<noteq> sid \<or> so_type s = SOCKET_TYPE_INVALID then Some (- 1, ss)
         else do {
           (l, ss1) \<leftarrow> socket_lock i 0 ss;
           (l1, ss2) \<leftarrow> socket_unlock i l
             (upd_slot i (\<lambda>s. s\<lparr>so_udpconnecting := so_udpconnecting s + 1\<rparr>) ss1);
           case sys (\<lambda>t. k_getaddrinfo K t addr port) ss2 of
             (Err _, ss3) \<Rightarrow> Some (- 1, ss3)
           | (Got [], ss3) \<Rightarrow> None
           | (Got (ai # ais), ss3) \<Rightarrow>
               (case (case ai_family ai of AF_INET \<Rightarrow> gen_udp_address PROTOCOL_UDP (ai_addr ai)
                      | AF_INET6 \<Rightarrow> gen_udp_address PROTOCOL_UDPv6 (ai_addr ai) | AF_OTHER \<Rightarrow> None) of
                  None \<Rightarrow> Some (- 1, ss3)
                | Some address \<Rightarrow> do {
                    ss4 \<leftarrow> send_request K (CHR ''C'') (sizeof_setudp - UDP_ADDRESS_SIZE + length address)
                              (ReqSetudp sid address) ss3;
                    Some (0, ss4) }) })"

definition socket_server_udp_address :: "string \<Rightarrow> nat \<Rightarrow> (string \<times> nat) option option" where
  \<comment> \<open>\<open>bytes\<close> is the block of the message, \<open>ud\<close> the length of its data\<close>
  "socket_server_udp_address bytes ud =
     (let address = drop ud bytes
      in if address = [] then None
         else Some (case udp_address_size address of None \<Rightarrow> None | Some n \<Rightarrow> Some (take n address, n)))"

end
