(* ===== verification/SocketProps.thy ===== *)
theory SocketProps
  imports SocketControl
begin

text \<open>
  Properties of the socket server: identifiers, the write buffers of a TCP socket and the
  bytes that leave it, closing, the control pipe, and the addresses of UDP messages.
\<close>

section \<open>Identifiers\<close>

lemma hash_next:
  assumes "0 \<le> sint a"
  shows "0 \<le> sint (next_id a)" "HASH_ID (next_id a) = Suc (HASH_ID a) mod MAX_SOCKET"
proof -
  have a: "unat a < 2 ^ 31" using assms by (simp add: sint_nonneg_iff)
  then have u: "unat (a + 1) = Suc (unat a)" by (simp add: unat_word_ariths)
  have m: "(0x7fffffff :: i32) = mask 31" by (simp add: mask_eq_exp_minus_1)
  have "unat (next_id a) = Suc (unat a) mod 2 ^ 31"
  proof (cases "sint (a + 1) < 0")
    case True
    then have "next_id a = (a + 1) AND mask 31" unfolding next_id_def m by simp
    then show ?thesis using u by (simp only: unat_and_mask)
  next
    case False
    then have "unat (a + 1) < 2 ^ 31" using sint_nonneg_iff [of "a + 1"] by linarith
    then show ?thesis using False u by (simp add: next_id_def)
  qed
  then show "0 \<le> sint (next_id a)" "HASH_ID (next_id a) = Suc (HASH_ID a) mod MAX_SOCKET"
    by (simp_all add: sint_nonneg_iff HASH_ID_def MAX_SOCKET_def MAX_SOCKET_P_def mod_mod_cancel mod_Suc_eq)
qed

definition reserved :: "i32 \<Rightarrow> socket \<Rightarrow> socket" where
  "reserved sid s = s\<lparr>so_type := SOCKET_TYPE_RESERVE, so_id := sid, so_udpconnecting := 0, so_fd := - 1\<rparr>"

lemma reserve_scan_cases:
  assumes "0 \<le> sint (ss_alloc_id ss)" "reserve_scan n ss = (sid, ss')"
  shows "0 \<le> sint (ss_alloc_id ss') \<and>
    (sid = - 1 \<and> ss_slot ss' = ss_slot ss \<and>
       (\<forall>k. 0 < k \<longrightarrow> k \<le> n \<longrightarrow>
          so_type (ss_slot ss ((HASH_ID (ss_alloc_id ss) + k) mod MAX_SOCKET)) \<noteq> SOCKET_TYPE_INVALID) \<or>
     0 \<le> sint sid \<and> so_type (ss_slot ss (HASH_ID sid)) = SOCKET_TYPE_INVALID \<and>
       ss_slot ss' = (ss_slot ss)(HASH_ID sid := reserved sid (ss_slot ss (HASH_ID sid))))"
  using assms
proof (induction n arbitrary: ss)
  case 0
  then show ?case by auto
next
  case (Suc n)
  let ?a = "ss_alloc_id ss"
  let ?b = "next_id ?a"
  let ?ss = "ss\<lparr>ss_alloc_id := ?b\<rparr>"
  note hb = hash_next [OF Suc.prems(1)]
  show ?case
  proof (cases "so_type (ss_slot ss (HASH_ID ?b)) = SOCKET_TYPE_INVALID")
    case True
    with Suc.prems hb show ?thesis by (auto simp: Let_def upd_slot_def reserved_def)
  next
    case False
    have "reserve_scan n ?ss = (sid, ss')" using Suc.prems(2) False by (simp add: Let_def)
    from Suc.IH [of ?ss, OF _ this] hb(1) have IH: "0 \<le> sint (ss_alloc_id ss') \<and>
      (sid = - 1 \<and> ss_slot ss' = ss_slot ss \<and>
         (\<forall>k. 0 < k \<longrightarrow> k \<le> n \<longrightarrow>
            so_type (ss_slot ss ((HASH_ID ?b + k) mod MAX_SOCKET)) \<noteq> SOCKET_TYPE_INVALID) \<or>
       0 \<le> sint sid \<and> so_type (ss_slot ss (HASH_ID sid)) = SOCKET_TYPE_INVALID \<and>
         ss_slot ss' = (ss_slot ss)(HASH_ID sid := reserved sid (ss_slot ss (HASH_ID sid))))"
      by (simp add: fun_upd_def)
    have "so_type (ss_slot ss ((HASH_ID ?a + k) mod MAX_SOCKET)) \<noteq> SOCKET_TYPE_INVALID"
      if all: "\<forall>k. 0 < k \<longrightarrow> k \<le> n \<longrightarrow> so_type (ss_slot ss ((HASH_ID ?b + k) mod MAX_SOCKET)) \<noteq> SOCKET_TYPE_INVALID"
        and k: "0 < k" "k \<le> Suc n" for k
    proof (cases "k = 1")
      case True
      with False hb(2) show ?thesis by simp
    next
      case False
      have "(HASH_ID ?b + (k - 1)) mod MAX_SOCKET = (HASH_ID ?a + k) mod MAX_SOCKET"
        using k(1) mod_add_left_eq [of "Suc (HASH_ID ?a)" MAX_SOCKET "k - 1"] unfolding hb(2) by simp
      moreover have "0 < k - 1" "k - 1 \<le> n" using False k by simp_all
      ultimately show ?thesis using all by metis
    qed
    with IH show ?thesis by blast
  qed
qed

lemma residue_reached:
  assumes "i < m" "h < (m::nat)"
  shows "\<exists>k. 0 < k \<and> k \<le> m \<and> (h + k) mod m = i"
proof (cases "h < i")
  case True
  with assms show ?thesis by (intro exI [of _ "i - h"]) simp
next
  case False
  have "(h + (m + i - h)) mod m = i" using assms False by simp
  with assms False show ?thesis by (intro exI [of _ "m + i - h"]) simp
qed

text \<open>C34. \<open>reserve_id\<close> finds a free slot whenever there is one, wherever its counter stands and
  also when the counter wraps around: the identifier is not negative, it hashes to a slot
  that was free and is now reserved for it, and no other slot changes. Without a free slot it
  returns -1 and changes none.\<close>

theorem reserve_id_complete:
  assumes "0 \<le> sint (ss_alloc_id ss)" "reserve_id ss = (sid, ss')"
  shows "0 \<le> sint (ss_alloc_id ss') \<and>
    (if \<exists>i<MAX_SOCKET. so_type (ss_slot ss i) = SOCKET_TYPE_INVALID
     then 0 \<le> sint sid \<and> so_type (ss_slot ss (HASH_ID sid)) = SOCKET_TYPE_INVALID \<and>
       ss_slot ss' = (ss_slot ss)(HASH_ID sid := reserved sid (ss_slot ss (HASH_ID sid)))
     else sid = - 1 \<and> ss_slot ss' = ss_slot ss)"
proof -
  have m: "0 < MAX_SOCKET" by (simp add: MAX_SOCKET_def)
  then have h: "HASH_ID x < MAX_SOCKET" for x by (simp add: HASH_ID_def)
  note R = reserve_scan_cases [OF assms(1) assms(2) [unfolded reserve_id_def]]
  show ?thesis
  proof (cases "\<exists>i<MAX_SOCKET. so_type (ss_slot ss i) = SOCKET_TYPE_INVALID")
    case True
    then obtain i where "i < MAX_SOCKET" "so_type (ss_slot ss i) = SOCKET_TYPE_INVALID" by blast
    with R residue_reached [OF _ h] show ?thesis by metis
  next
    case False
    with R h show ?thesis by metis
  qed
qed

section \<open>Write buffers and what they own\<close>

text \<open>
  The blocks of a list of buffers, for buffers that are not user objects: the data and the
  buffer itself. A list of buffers is sound when these blocks are allocated and no block is
  owned twice.
\<close>

definition owned :: "write_buffer list \<Rightarrow> ptr list" where
  "owned bs = concat (map (\<lambda>b. [wb_buffer b, wb_addr b]) bs)"

definition buf_ok :: "(ptr \<rightharpoonup> string) \<Rightarrow> write_buffer \<Rightarrow> bool" where
  "buf_ok M b \<longleftrightarrow> \<not> wb_userobject b \<and> fst (wb_ptr b) = wb_buffer b \<and> 0 \<le> sint (wb_sz b) \<and>
     wb_buffer b \<noteq> NULL \<and> wb_addr b \<noteq> NULL \<and> M (wb_addr b) \<noteq> None \<and>
     (\<exists>d. M (wb_buffer b) = Some d \<and> snd (wb_ptr b) + unat (wb_sz b) \<le> length d)"

definition bufs_ok :: "(ptr \<rightharpoonup> string) \<Rightarrow> write_buffer list \<Rightarrow> bool" where
  "bufs_ok M bs \<longleftrightarrow> distinct (owned bs) \<and> (\<forall>b \<in> set bs. buf_ok M b)"

text \<open>The bytes of a list of buffers that are still to be written.\<close>

definition buf_bytes :: "(ptr \<rightharpoonup> string) \<Rightarrow> write_buffer \<Rightarrow> string" where
  "buf_bytes M b = take (unat (wb_sz b)) (drop (snd (wb_ptr b)) (the (M (wb_buffer b))))"

definition pending :: "(ptr \<rightharpoonup> string) \<Rightarrow> write_buffer list \<Rightarrow> string" where
  "pending M bs = concat (map (buf_bytes M) bs)"

lemma owned_simps [simp]:
  "owned [] = []" "owned (b # bs) = wb_buffer b # wb_addr b # owned bs" "owned (bs @ cs) = owned bs @ owned cs"
  by (simp_all add: owned_def)

lemma pending_simps [simp]:
  "pending M [] = []" "pending M (b # bs) = buf_bytes M b @ pending M bs"
  "pending M (bs @ cs) = pending M bs @ pending M cs"
  by (simp_all add: pending_def)

lemma bufs_ok_simps [simp]:
  "bufs_ok M []"
  "bufs_ok M (b # bs) \<longleftrightarrow> buf_ok M b \<and> bufs_ok M bs \<and> wb_buffer b \<noteq> wb_addr b \<and>
     wb_buffer b \<notin> set (owned bs) \<and> wb_addr b \<notin> set (owned bs)"
  by (auto simp: bufs_ok_def)

lemma owned_mem: "b \<in> set bs \<Longrightarrow> wb_buffer b \<in> set (owned bs) \<and> wb_addr b \<in> set (owned bs)"
  by (induction bs) auto

lemma bufs_ok_dom: "bufs_ok M bs \<Longrightarrow> p \<in> set (owned bs) \<Longrightarrow> p \<noteq> NULL \<and> M p \<noteq> None"
  by (induction bs) (auto simp: buf_ok_def)

lemma buf_bytes_cong:
  assumes "M' (wb_buffer b) = M (wb_buffer b)"
  shows "buf_bytes M' b = buf_bytes M b"
  using assms by (simp add: buf_bytes_def)

lemma bufs_cong:
  assumes "\<forall>p \<in> set (owned bs). M' p = M p"
  shows "bufs_ok M' bs = bufs_ok M bs" "pending M' bs = pending M bs"
  using assms by (induction bs) (auto simp: buf_ok_def buf_bytes_def)

lemma length_buf_bytes: "buf_ok M b \<Longrightarrow> length (buf_bytes M b) = unat (wb_sz b)"
  by (auto simp: buf_ok_def buf_bytes_def)

lemma mem_at_buf: "buf_ok (ss_mem ss) b \<Longrightarrow> mem_at ss (wb_ptr b) (unat (wb_sz b)) = Some (buf_bytes (ss_mem ss) b)"
  by (auto simp: buf_ok_def mem_at_def buf_bytes_def)

lemma write_buffer_free_ok:
  assumes "buf_ok (ss_mem ss) b" "wb_buffer b \<noteq> wb_addr b"
  shows "write_buffer_free b ss = Some (ss\<lparr>ss_mem := (ss_mem ss)(wb_buffer b := None, wb_addr b := None)\<rparr>)"
  using assms by (auto simp: write_buffer_free_def free_func_def FREE_def buf_ok_def)

lemma free_bufs_ok:
  assumes "bufs_ok (ss_mem ss) bs"
  shows "free_bufs bs ss = Some (ss\<lparr>ss_mem := ss_mem ss |` (- set (owned bs))\<rparr>)"
  using assms
proof (induction bs arbitrary: ss)
  case Nil
  then show ?case by (simp add: restrict_map_def)
next
  case (Cons b bs)
  let ?ss = "ss\<lparr>ss_mem := (ss_mem ss)(wb_buffer b := None, wb_addr b := None)\<rparr>"
  have "bufs_ok (ss_mem ?ss) bs" using Cons.prems by (subst bufs_cong(1)) auto
  from Cons.IH [OF this] Cons.prems write_buffer_free_ok [of ss b] show ?case
    by (auto simp: restrict_map_def fun_eq_iff intro!: arg_cong [of _ _ "\<lambda>M. ss\<lparr>ss_mem := M\<rparr>"])
qed

section \<open>Closing a socket\<close>

definition dw_blocks :: "socket \<Rightarrow> ptr set" where
  "dw_blocks s = (if so_dw_buffer s = NULL then {} else {so_dw_buffer s})"

definition sock_bufs :: "socket \<Rightarrow> write_buffer list" where
  "sock_bufs s = wl_bufs (so_high s) @ wl_bufs (so_low s)"

definition sock_mem :: "(ptr \<rightharpoonup> string) \<Rightarrow> socket \<Rightarrow> bool" where
  "sock_mem M s \<longleftrightarrow> bufs_ok M (sock_bufs s) \<and>
     (so_dw_buffer s \<noteq> NULL \<longrightarrow> M (so_dw_buffer s) \<noteq> None \<and> so_dw_buffer s \<notin> set (owned (sock_bufs s)) \<and>
        0 \<le> sint (ucast (so_dw_size s) :: i32))"

lemma bufs_ok_append:
  "bufs_ok M (bs @ cs) \<longleftrightarrow> bufs_ok M bs \<and> bufs_ok M cs \<and> set (owned bs) \<inter> set (owned cs) = {}"
  by (auto simp: bufs_ok_def)

definition polled :: "socket_type \<Rightarrow> bool" where
  "polled t \<longleftrightarrow> t \<noteq> SOCKET_TYPE_PACCEPT \<and> t \<noteq> SOCKET_TYPE_PLISTEN"

definition closed_slot :: "socket \<Rightarrow> socket" where
  "closed_slot s = s\<lparr>so_type := SOCKET_TYPE_INVALID, so_high := clear_wb_list, so_low := clear_wb_list,
     so_dw_buffer := NULL\<rparr>"

definition close_result :: "socket \<Rightarrow> socket_message \<Rightarrow> socket_message" where
  "close_result s result = result\<lparr>sm_id := so_id s, sm_ud := 0, sm_data := NoData, sm_opaque := so_opaque s\<rparr>"

lemma sp_del_frame: "\<exists>t e pl. sp_del K fd ss = ss\<lparr>ss_tick := t, ss_errno := e, ss_poll := pl\<rparr>"
proof -
  have "\<exists>e pl. sp_del K fd ss = ss\<lparr>ss_tick := Suc (ss_tick ss), ss_errno := e, ss_poll := pl\<rparr>"
    by (cases "k_epoll_ctl K (ss_tick ss) fd"; cases ss) (auto simp: sp_del_def sys_def)
  then show ?thesis by blast
qed

lemma sp_write_frame: "\<exists>t e pl. sp_write K fd ud en ss = ss\<lparr>ss_tick := t, ss_errno := e, ss_poll := pl\<rparr>"
proof -
  have "\<exists>e pl. sp_write K fd ud en ss = ss\<lparr>ss_tick := Suc (ss_tick ss), ss_errno := e, ss_poll := pl\<rparr>"
    by (cases "k_epoll_ctl K (ss_tick ss) fd"; cases ss) (auto simp: sp_write_def sys_def)
  then show ?thesis by blast
qed

lemma sys_close_frame: "\<exists>t e. sys_close K fd ss = ss\<lparr>ss_tick := t, ss_errno := e, ss_closed := ss_closed ss @ [fd]\<rparr>"
  by (auto simp: sys_close_def sys_def)

lemma free_wb_list_ok:
  assumes "bufs_ok (ss_mem ss) (wl_bufs (get_list prio (ss_slot ss i)))"
  shows "free_wb_list i prio ss =
    Some (upd_slot i (put_list prio clear_wb_list)
      (ss\<lparr>ss_mem := ss_mem ss |` (- set (owned (wl_bufs (get_list prio (ss_slot ss i)))))\<rparr>))"
  using free_bufs_ok [OF assms] by (simp add: free_wb_list_def clear_wb_list_def)

lemma free_lists_ok:
  assumes "bufs_ok (ss_mem ss) (sock_bufs (ss_slot ss i))"
  shows "do { ss1 \<leftarrow> free_wb_list i PRIORITY_HIGH ss; free_wb_list i PRIORITY_LOW ss1 } =
    Some (ss\<lparr>ss_mem := ss_mem ss |` (- set (owned (sock_bufs (ss_slot ss i)))),
             ss_slot := (ss_slot ss)(i := (ss_slot ss i)\<lparr>so_high := clear_wb_list, so_low := clear_wb_list\<rparr>)\<rparr>)"
proof -
  let ?s = "ss_slot ss i" and ?M = "ss_mem ss"
  let ?H = "wl_bufs (so_high ?s)" and ?L = "wl_bufs (so_low ?s)"
  have ok: "bufs_ok ?M ?H" "bufs_ok ?M ?L" "set (owned ?H) \<inter> set (owned ?L) = {}"
    using assms by (simp_all add: sock_bufs_def bufs_ok_append)
  let ?ss1 = "upd_slot i (put_list PRIORITY_HIGH clear_wb_list) (ss\<lparr>ss_mem := ?M |` (- set (owned ?H))\<rparr>)"
  have 1: "free_wb_list i PRIORITY_HIGH ss = Some ?ss1"
    using free_wb_list_ok [of ss PRIORITY_HIGH i] ok(1) by (simp add: get_list_def)
  have low: "wl_bufs (get_list PRIORITY_LOW (ss_slot ?ss1 i)) = ?L"
    by (simp add: upd_slot_def get_list_def put_list_def PRIORITY_HIGH_def PRIORITY_LOW_def)
  have "bufs_ok (ss_mem ?ss1) ?L"
    using ok(2,3) by (subst bufs_cong(1)) (auto simp: upd_slot_def restrict_map_def)
  then have 2: "free_wb_list i PRIORITY_LOW ?ss1 =
      Some (upd_slot i (put_list PRIORITY_LOW clear_wb_list)
        (?ss1\<lparr>ss_mem := ss_mem ?ss1 |` (- set (owned ?L))\<rparr>))"
    using free_wb_list_ok [of ?ss1 PRIORITY_LOW i] low by simp
  have "?M |` (- set (owned ?H)) |` (- set (owned ?L)) = ?M |` (- set (owned (sock_bufs ?s)))"
    by (auto simp: restrict_map_def sock_bufs_def fun_eq_iff)
  then show ?thesis
    unfolding 1 by (simp add: 2, cases ss)
      (simp add: upd_slot_def put_list_def PRIORITY_HIGH_def PRIORITY_LOW_def)
qed

definition dead_blocks :: "socket \<Rightarrow> ptr set" where
  "dead_blocks s = set (owned (sock_bufs s)) \<union> dw_blocks s"

lemma free_direct_ok:
  assumes "so_dw_buffer s \<noteq> NULL \<longrightarrow> ss_mem ss (so_dw_buffer s) \<noteq> None \<and> 0 \<le> sint (ucast (so_dw_size s) :: i32)"
    and "so_dw_buffer (ss_slot ss i) = so_dw_buffer s"
  shows "(if so_dw_buffer s \<noteq> NULL
          then do { x \<leftarrow> free_buffer (so_dw_buffer s) (ucast (so_dw_size s)) ss;
                    Some (upd_slot i (\<lambda>s. s\<lparr>so_dw_buffer := NULL\<rparr>) x) }
          else Some ss) =
    Some (upd_slot i (\<lambda>s. s\<lparr>so_dw_buffer := NULL\<rparr>) (ss\<lparr>ss_mem := ss_mem ss |` (- dw_blocks s)\<rparr>))"
proof (cases "so_dw_buffer s = NULL")
  case True
  then have "(ss_slot ss i)\<lparr>so_dw_buffer := NULL\<rparr> = ss_slot ss i" using assms(2) by (cases "ss_slot ss i") simp
  then show ?thesis using True by (cases ss) (simp add: dw_blocks_def upd_slot_def restrict_map_def)
next
  case False
  have "(ss_mem ss)(so_dw_buffer s := None) = ss_mem ss |` (- {so_dw_buffer s})"
    by (auto simp: restrict_map_def fun_eq_iff)
  with False show ?thesis using assms
    by (simp add: free_buffer_def send_object_init_def free_func_def FREE_def dw_blocks_def)
qed

lemma force_close_ok:
  assumes type: "so_type s \<noteq> SOCKET_TYPE_INVALID" "so_type s \<noteq> SOCKET_TYPE_RESERVE"
    and mem: "sock_mem (ss_mem ss) s" and lock: "l = 0 \<longrightarrow> \<not> so_dw_lock s" and s: "s = ss_slot ss i"
  shows "\<exists>t e pl. force_close K i l result ss = Some (l, close_result s result,
    ss\<lparr>ss_tick := t, ss_errno := e, ss_poll := pl,
       ss_closed := ss_closed ss @ (if so_type s \<noteq> SOCKET_TYPE_BIND then [so_fd s] else []),
       ss_mem := ss_mem ss |` (- dead_blocks s), ss_slot := (ss_slot ss)(i := closed_slot s)\<rparr>)"
proof -
  have ok: "bufs_ok (ss_mem ss) (sock_bufs (ss_slot ss i))" using mem s by (simp add: sock_mem_def)
  let ?ss2 = "ss\<lparr>ss_mem := ss_mem ss |` (- set (owned (sock_bufs s))),
             ss_slot := (ss_slot ss)(i := s\<lparr>so_high := clear_wb_list, so_low := clear_wb_list\<rparr>)\<rparr>"
  obtain ss1 where 1: "free_wb_list i PRIORITY_HIGH ss = Some ss1" "free_wb_list i PRIORITY_LOW ss1 = Some ?ss2"
    using free_lists_ok [OF ok] s by auto
  obtain t e pl where 3: "(if so_type s \<noteq> SOCKET_TYPE_PACCEPT \<and> so_type s \<noteq> SOCKET_TYPE_PLISTEN
      then sp_del K (so_fd s) ?ss2 else ?ss2) = ?ss2\<lparr>ss_tick := t, ss_errno := e, ss_poll := pl\<rparr>" (is "_ = ?ss3")
  proof (cases "so_type s \<noteq> SOCKET_TYPE_PACCEPT \<and> so_type s \<noteq> SOCKET_TYPE_PLISTEN")
    case True
    then show thesis using that sp_del_frame [of K "so_fd s" ?ss2] by auto
  next
    case False
    then have "(if so_type s \<noteq> SOCKET_TYPE_PACCEPT \<and> so_type s \<noteq> SOCKET_TYPE_PLISTEN
      then sp_del K (so_fd s) ?ss2 else ?ss2) = ?ss2\<lparr>ss_tick := ss_tick ss, ss_errno := ss_errno ss, ss_poll := ss_poll ss\<rparr>"
      by (cases ss) auto
    then show thesis by (rule that)
  qed
  let ?s4 = "s\<lparr>so_high := clear_wb_list, so_low := clear_wb_list, so_dw_lock := (if l = 0 then True else so_dw_lock s)\<rparr>"
  let ?ss4 = "?ss3\<lparr>ss_slot := (ss_slot ss)(i := ?s4)\<rparr>"
  have 4: "socket_lock i l ?ss3 = Some (Suc l, ?ss4)"
    using lock by (cases s; cases ss) (simp add: socket_lock_def upd_slot_def)
  obtain t' e' where 5: "(if so_type s \<noteq> SOCKET_TYPE_BIND then sys_close K (so_fd s) ?ss4 else ?ss4) =
      ?ss4\<lparr>ss_tick := t', ss_errno := e',
         ss_closed := ss_closed ss @ (if so_type s \<noteq> SOCKET_TYPE_BIND then [so_fd s] else [])\<rparr>" (is "_ = ?ss5")
  proof (cases "so_type s \<noteq> SOCKET_TYPE_BIND")
    case True
    then show thesis using that sys_close_frame [of K "so_fd s" ?ss4] by auto
  next
    case False
    then have "(if so_type s \<noteq> SOCKET_TYPE_BIND then sys_close K (so_fd s) ?ss4 else ?ss4) =
      ?ss4\<lparr>ss_tick := t, ss_errno := e,
         ss_closed := ss_closed ss @ (if so_type s \<noteq> SOCKET_TYPE_BIND then [so_fd s] else [])\<rparr>"
      by (cases ss) auto
    then show thesis by (rule that)
  qed
  let ?ss6 = "upd_slot i (\<lambda>s. s\<lparr>so_type := SOCKET_TYPE_INVALID\<rparr>) ?ss5"
  have "so_dw_buffer s \<noteq> NULL \<longrightarrow> ss_mem ?ss6 (so_dw_buffer s) \<noteq> None \<and> 0 \<le> sint (ucast (so_dw_size s) :: i32)"
    using mem by (auto simp: sock_mem_def upd_slot_def)
  moreover have "so_dw_buffer (ss_slot ?ss6 i) = so_dw_buffer s" by (simp add: upd_slot_def)
  ultimately have 7: "(if so_dw_buffer s \<noteq> NULL
          then do { x \<leftarrow> free_buffer (so_dw_buffer s) (ucast (so_dw_size s)) ?ss6;
                    Some (upd_slot i (\<lambda>s. s\<lparr>so_dw_buffer := NULL\<rparr>) x) }
          else Some ?ss6) =
    Some (upd_slot i (\<lambda>s. s\<lparr>so_dw_buffer := NULL\<rparr>) (?ss6\<lparr>ss_mem := ss_mem ?ss6 |` (- dw_blocks s)\<rparr>))" (is "_ = Some ?ss7")
    by (rule free_direct_ok)
  have "ss_mem ?ss7 = ss_mem ss |` (- dead_blocks s)"
    by (auto simp: upd_slot_def restrict_map_def dead_blocks_def fun_eq_iff)
  then have 8: "socket_unlock i (Suc l) ?ss7 = Some (l, ss\<lparr>ss_tick := t', ss_errno := e', ss_poll := pl,
       ss_closed := ss_closed ss @ (if so_type s \<noteq> SOCKET_TYPE_BIND then [so_fd s] else []),
       ss_mem := ss_mem ss |` (- dead_blocks s), ss_slot := (ss_slot ss)(i := closed_slot s)\<rparr>)"
    using lock by (cases ss; cases s) (simp add: socket_unlock_def upd_slot_def closed_slot_def)
  have g: "guard (so_type s \<noteq> SOCKET_TYPE_RESERVE) = Some ()" using type by simp
  have "force_close K i l result ss = Some (l, close_result s result, ss\<lparr>ss_tick := t', ss_errno := e', ss_poll := pl,
       ss_closed := ss_closed ss @ (if so_type s \<noteq> SOCKET_TYPE_BIND then [so_fd s] else []),
       ss_mem := ss_mem ss |` (- dead_blocks s), ss_slot := (ss_slot ss)(i := closed_slot s)\<rparr>)"
    unfolding force_close_def Let_def s [symmetric] close_result_def
    by (simp only: type(1) if_False g 1 3 4 5 7 8 Option.bind.simps prod.case)
  then show ?thesis by blast
qed

section \<open>The byte stream of a TCP socket\<close>

text \<open>What POSIX says of \<open>write\<close>: it takes at most the bytes it is given, and a call is not
  interrupted for ever.\<close>

definition kernel_writes :: "kernel \<Rightarrow> bool" where
  "kernel_writes K \<longleftrightarrow> (\<forall>t fd b n. k_write K t fd b = Got n \<longrightarrow> n \<le> length b) \<and>
     (\<forall>t fd b. \<exists>t'. t \<le> t' \<and> k_write K t' fd b \<noteq> Err EINTR)"

fun taken :: "nat io \<Rightarrow> string \<Rightarrow> string" where
  "taken (Got n) b = take n b"
| "taken (Err e) b = []"

definition add_sent :: "i32 \<Rightarrow> string \<Rightarrow> (i32 \<Rightarrow> string) \<Rightarrow> i32 \<Rightarrow> string" where
  "add_sent fd w S = S(fd := S fd @ w)"

lemma add_sent_simps [simp]: "add_sent fd [] S = S" "add_sent fd v (add_sent fd w S) = add_sent fd (w @ v) S"
  by (simp_all add: add_sent_def)

lemma sys_write_eq:
  "sys_write K fd b ss = (k_write K (ss_tick ss) fd b,
     ss\<lparr>ss_tick := Suc (ss_tick ss),
        ss_errno := (case k_write K (ss_tick ss) fd b of Err e \<Rightarrow> e | Got _ \<Rightarrow> ss_errno ss),
        ss_sent := add_sent fd (taken (k_write K (ss_tick ss) fd b) b) (ss_sent ss)\<rparr>)"
  by (cases "k_write K (ss_tick ss) fd b"; cases ss) (simp_all add: sys_write_def sys_def add_sent_def)

lemma write_retry_ok:
  assumes "kernel_writes K"
  shows "\<exists>r t e. write_retry K fd b ss =
      Some (r, ss\<lparr>ss_tick := t, ss_errno := e, ss_sent := add_sent fd (taken r b) (ss_sent ss)\<rparr>) \<and>
    r \<noteq> Err EINTR \<and> (\<forall>n. r = Got n \<longrightarrow> n \<le> length b)"
proof -
  obtain t' where t': "ss_tick ss \<le> t'" "k_write K t' fd b \<noteq> Err EINTR"
    using assms unfolding kernel_writes_def by blast
  then show ?thesis
  proof (induction "t' - ss_tick ss" arbitrary: ss rule: less_induct)
    case less
    let ?r = "k_write K (ss_tick ss) fd b"
    show ?case
    proof (cases "?r = Err EINTR")
      case True
      let ?ss = "ss\<lparr>ss_tick := Suc (ss_tick ss), ss_errno := EINTR, ss_sent := ss_sent ss\<rparr>"
      have "ss_tick ss < t'" using less.prems True by (cases "ss_tick ss = t'") auto
      then have "\<exists>r t e. write_retry K fd b ?ss =
          Some (r, ?ss\<lparr>ss_tick := t, ss_errno := e, ss_sent := add_sent fd (taken r b) (ss_sent ?ss)\<rparr>) \<and>
        r \<noteq> Err EINTR \<and> (\<forall>n. r = Got n \<longrightarrow> n \<le> length b)"
        using less.prems by (intro less.hyps) auto
      moreover have "write_retry K fd b ss = write_retry K fd b ?ss"
        by (subst write_retry.simps) (simp add: sys_write_eq True)
      ultimately show ?thesis by auto
    next
      case False
      then have "write_retry K fd b ss = Some (?r, snd (sys_write K fd b ss))"
        by (subst write_retry.simps) (auto simp: sys_write_eq split: io.splits)
      moreover have "\<forall>n. ?r = Got n \<longrightarrow> n \<le> length b" using assms by (simp add: kernel_writes_def)
      ultimately show ?thesis using False by (auto simp: sys_write_eq)
    qed
  qed
qed

text \<open>\<open>k\<close> buffers written completely, and \<open>n\<close> bytes of the next one.\<close>

definition advance :: "nat \<Rightarrow> write_buffer \<Rightarrow> write_buffer" where
  "advance n b = b\<lparr>wb_ptr := (fst (wb_ptr b), snd (wb_ptr b) + n), wb_sz := wb_sz b - word_of_nat n\<rparr>"

definition rest_bufs :: "nat \<Rightarrow> nat \<Rightarrow> write_buffer list \<Rightarrow> write_buffer list" where
  "rest_bufs k n bs = (case drop k bs of [] \<Rightarrow> [] | b # r \<Rightarrow> advance n b # r)"

definition written :: "(ptr \<rightharpoonup> string) \<Rightarrow> nat \<Rightarrow> nat \<Rightarrow> write_buffer list \<Rightarrow> string" where
  "written M k n bs = pending M (take k bs) @ (case drop k bs of [] \<Rightarrow> [] | b # r \<Rightarrow> take n (buf_bytes M b))"

definition progress :: "nat \<Rightarrow> nat \<Rightarrow> write_buffer list \<Rightarrow> bool" where
  "progress k n bs \<longleftrightarrow> (case drop k bs of [] \<Rightarrow> True | b # r \<Rightarrow> n \<le> unat (wb_sz b) \<and> (n = unat (wb_sz b) \<longrightarrow> n = 0))"

lemma advance_0 [simp]: "advance 0 b = b"
  by (cases b) (simp add: advance_def)

lemma advance_simps [simp]:
  "wb_addr (advance n b) = wb_addr b" "wb_buffer (advance n b) = wb_buffer b"
  "wb_userobject (advance n b) = wb_userobject b" "wb_udp_address (advance n b) = wb_udp_address b"
  by (simp_all add: advance_def)

lemma unat_minus_of_nat:
  assumes "n \<le> unat (a :: i32)"
  shows "unat (a - word_of_nat n) = unat a - n"
proof -
  have "word_of_nat n \<le> a" using assms by (simp add: word_le_nat_alt unat_of_nat take_bit_nat_eq_self_iff)
  then have "unat (a - word_of_nat n) = unat a - unat (word_of_nat n :: i32)" by (rule unat_sub)
  moreover have "unat (word_of_nat n :: i32) = n"
    using assms unat_less_u32 [of a] by (simp add: unat_of_nat take_bit_nat_eq_self_iff)
  ultimately show ?thesis by simp
qed

lemma advance_ok:
  assumes "buf_ok M b" "n \<le> unat (wb_sz b)"
  shows "buf_ok M (advance n b)" "take n (buf_bytes M b) @ buf_bytes M (advance n b) = buf_bytes M b"
proof -
  have u: "unat (wb_sz (advance n b)) = unat (wb_sz b) - n" using assms(2) by (simp add: advance_def unat_minus_of_nat)
  moreover have "unat (wb_sz b) < 2 ^ 31" using assms(1) by (simp add: buf_ok_def sint_nonneg_iff)
  ultimately have "0 \<le> sint (wb_sz (advance n b))" by (simp add: sint_nonneg_iff)
  with assms u show "buf_ok M (advance n b)" by (auto simp: buf_ok_def) (auto simp: advance_def)
  show "take n (buf_bytes M b) @ buf_bytes M (advance n b) = buf_bytes M b"
  proof -
    let ?d = "drop (snd (wb_ptr b)) (the (M (wb_buffer b)))" and ?z = "unat (wb_sz b)"
    have "buf_bytes M (advance n b) = take (?z - n) (drop n ?d)"
      using u by (simp add: buf_bytes_def) (simp add: advance_def add.commute)
    moreover have "take n (buf_bytes M b) = take n ?d" using assms(2) by (simp add: buf_bytes_def min_absorb1)
    moreover have "take n ?d @ take (?z - n) (drop n ?d) = take ?z ?d"
      using assms(2) by (metis le_add_diff_inverse take_add)
    ultimately show ?thesis by (simp add: buf_bytes_def)
  qed
qed

definition drained :: "nat \<Rightarrow> nat \<Rightarrow> nat \<Rightarrow> nat \<Rightarrow> socket \<Rightarrow> socket" where
  "drained prio k n len s =
     (let wl = get_list prio s; r = rest_bufs k n (wl_bufs wl)
      in put_list prio \<lparr>wl_bufs = r, wl_tail = (if r = [] then NULL else wl_tail wl)\<rparr>
           (s\<lparr>so_wb_size := so_wb_size s - word_of_nat len\<rparr>))"

definition closes :: "socket \<Rightarrow> i32 list" where
  "closes s = (if so_type s \<noteq> SOCKET_TYPE_BIND then [so_fd s] else [])"

definition tcp_kept :: "nat \<Rightarrow> nat \<Rightarrow> socket \<Rightarrow> nat \<Rightarrow> nat \<Rightarrow> socket_server \<Rightarrow> socket_server \<Rightarrow> bool" where
  "tcp_kept i prio s k n ss ss' \<longleftrightarrow> (\<exists>t er.
     let M = ss_mem ss; bs = wl_bufs (get_list prio s); w = written M k n bs
     in ss' = ss\<lparr>ss_tick := t, ss_errno := er, ss_sent := add_sent (so_fd s) w (ss_sent ss),
                ss_mem := M |` (- set (owned (take k bs))),
                ss_slot := (ss_slot ss)(i := drained prio k n (length w) s)\<rparr>)"

definition tcp_closed :: "nat \<Rightarrow> nat \<Rightarrow> socket \<Rightarrow> nat \<Rightarrow> socket_server \<Rightarrow> socket_server \<Rightarrow> bool" where
  "tcp_closed i prio s k ss ss' \<longleftrightarrow> (\<exists>t er pl.
     let w = written (ss_mem ss) k 0 (wl_bufs (get_list prio s))
     in ss' = ss\<lparr>ss_tick := t, ss_errno := er, ss_poll := pl, ss_closed := ss_closed ss @ closes s,
                ss_sent := add_sent (so_fd s) w (ss_sent ss), ss_mem := ss_mem ss |` (- dead_blocks s),
                ss_slot := (ss_slot ss)(i := closed_slot (s\<lparr>so_wb_size := so_wb_size s - word_of_nat (length w)\<rparr>))\<rparr>)"

definition tcp_done :: "nat \<Rightarrow> nat \<Rightarrow> socket \<Rightarrow> socket_message \<Rightarrow> socket_server \<Rightarrow> socket_event \<Rightarrow> socket_message \<Rightarrow>
    socket_server \<Rightarrow> bool" where
  "tcp_done i prio s result ss e res ss' \<longleftrightarrow>
     (\<exists>k n. e = SOCKET_NONE \<and> res = result \<and> progress k n (wl_bufs (get_list prio s)) \<and> tcp_kept i prio s k n ss ss') \<or>
     (\<exists>k. e = SOCKET_CLOSE \<and> res = close_result s result \<and> tcp_closed i prio s k ss ss')"

text \<open>The socket after its first buffer was written.\<close>

definition popped :: "nat \<Rightarrow> write_buffer list \<Rightarrow> nat \<Rightarrow> socket \<Rightarrow> socket" where
  "popped prio r n s = put_list prio ((get_list prio s)\<lparr>wl_bufs := r\<rparr>) (s\<lparr>so_wb_size := so_wb_size s - word_of_nat n\<rparr>)"

lemma get_put_list [simp]:
  "get_list prio (put_list prio wl s) = wl" "put_list prio wl (put_list prio wl' s) = put_list prio wl s"
  "so_fd (put_list prio wl s) = so_fd s" "so_type (put_list prio wl s) = so_type s"
  "so_dw_lock (put_list prio wl s) = so_dw_lock s" "so_wb_size (put_list prio wl s) = so_wb_size s"
  "so_dw_buffer (put_list prio wl s) = so_dw_buffer s" "so_dw_size (put_list prio wl s) = so_dw_size s"
  "so_id (put_list prio wl s) = so_id s" "so_opaque (put_list prio wl s) = so_opaque s"
  "so_protocol (put_list prio wl s) = so_protocol s" "so_warn_size (put_list prio wl s) = so_warn_size s"
  "get_list prio (s\<lparr>so_wb_size := z\<rparr>) = get_list prio s"
  by (simp_all add: get_list_def put_list_def)

lemma put_list_wb_size: "(put_list prio wl s)\<lparr>so_wb_size := z\<rparr> = put_list prio wl (s\<lparr>so_wb_size := z\<rparr>)"
  by (cases s) (simp add: put_list_def)

lemma put_get_list [simp]: "put_list prio (get_list prio s) s = s"
  by (cases s) (simp add: put_list_def get_list_def)

lemma popped_simps [simp]:
  "get_list prio (popped prio r n s) = (get_list prio s)\<lparr>wl_bufs := r\<rparr>" "so_fd (popped prio r n s) = so_fd s"
  "so_type (popped prio r n s) = so_type s" "so_dw_lock (popped prio r n s) = so_dw_lock s"
  "so_dw_buffer (popped prio r n s) = so_dw_buffer s" "so_dw_size (popped prio r n s) = so_dw_size s"
  "closes (popped prio r n s) = closes s" "close_result (popped prio r n s) = close_result s"
  by (auto simp: popped_def closes_def close_result_def fun_eq_iff)

lemma sock_bufs_perm: "set (owned (sock_bufs s)) = set (owned (wl_bufs (get_list prio s))) \<union>
    set (owned (wl_bufs (get_list (if prio = PRIORITY_HIGH then PRIORITY_LOW else PRIORITY_HIGH) s)))"
  by (auto simp: sock_bufs_def get_list_def PRIORITY_HIGH_def PRIORITY_LOW_def)

lemma sock_mem_list: "sock_mem M s \<Longrightarrow> bufs_ok M (wl_bufs (get_list prio s))"
  by (auto simp: sock_mem_def sock_bufs_def get_list_def bufs_ok_append)

lemma sock_mem_popped:
  assumes "sock_mem M s" "wl_bufs (get_list prio s) = b # r"
  shows "sock_mem (M(wb_buffer b := None, wb_addr b := None)) (popped prio r n s)"
    (is "sock_mem ?M _")
    and "dead_blocks s = insert (wb_buffer b) (insert (wb_addr b) (dead_blocks (popped prio r n s)))"
proof -
  have sub: "set (owned (sock_bufs s)) = insert (wb_buffer b) (insert (wb_addr b) (set (owned (sock_bufs (popped prio r n s)))))"
    using assms(2) by (auto simp: sock_bufs_def popped_def put_list_def get_list_def split: if_splits)
  have "bufs_ok M (sock_bufs (popped prio r n s)) \<and>
      wb_buffer b \<notin> set (owned (sock_bufs (popped prio r n s))) \<and> wb_addr b \<notin> set (owned (sock_bufs (popped prio r n s)))"
    using assms by (auto simp: sock_mem_def sock_bufs_def popped_def put_list_def get_list_def bufs_ok_append split: if_splits)
  moreover from this have "bufs_ok ?M (sock_bufs (popped prio r n s)) = bufs_ok M (sock_bufs (popped prio r n s))"
    by (intro bufs_cong(1)) auto
  ultimately show "sock_mem ?M (popped prio r n s)"
    using assms(1) sub by (auto simp: sock_mem_def)
  show "dead_blocks s = insert (wb_buffer b) (insert (wb_addr b) (dead_blocks (popped prio r n s)))"
    using sub by (auto simp: dead_blocks_def dw_blocks_def)
qed

lemma written_Cons:
  assumes "buf_ok M b" "bufs_ok M r" "wb_buffer b \<notin> set (owned r)" "wb_addr b \<notin> set (owned r)"
  shows "written M (Suc k) n (b # r) = buf_bytes M b @ written (M(wb_buffer b := None, wb_addr b := None)) k n r"
proof -
  let ?M = "M(wb_buffer b := None, wb_addr b := None)"
  have "buf_bytes ?M c = buf_bytes M c" if "c \<in> set r" for c
    using that assms(3,4) owned_mem [of c r] by (intro buf_bytes_cong) auto
  note * = this
  have "pending ?M (take k r) = pending M (take k r)"
    unfolding pending_def by (intro arg_cong [of _ _ concat] map_cong refl *) (auto dest: in_set_takeD)
  moreover have "(case drop k r of [] \<Rightarrow> [] | c # d \<Rightarrow> take n (buf_bytes ?M c)) = (case drop k r of [] \<Rightarrow> [] | c # d \<Rightarrow> take n (buf_bytes M c))"
  proof (cases "drop k r")
    case (Cons c d)
    then have "c \<in> set r" by (metis in_set_dropD list.set_intros(1))
    then show ?thesis using * Cons by simp
  qed simp
  ultimately show ?thesis by (simp add: written_def)
qed

lemma tcp_done_step:
  assumes b: "wl_bufs (get_list prio s) = b # r" and mem: "sock_mem (ss_mem ss) s"
    and ss1: "ss1 = ss\<lparr>ss_tick := t1, ss_errno := e1,
       ss_sent := add_sent (so_fd s) (buf_bytes (ss_mem ss) b) (ss_sent ss),
       ss_mem := (ss_mem ss)(wb_buffer b := None, wb_addr b := None),
       ss_slot := (ss_slot ss)(i := popped prio r (length (buf_bytes (ss_mem ss) b)) s)\<rparr>"
    and "tcp_done i prio (popped prio r (length (buf_bytes (ss_mem ss) b)) s) result ss1 e res ss'"
  shows "tcp_done i prio s result ss e res ss'"
proof -
  let ?M = "ss_mem ss" and ?n = "length (buf_bytes (ss_mem ss) b)"
  let ?M1 = "?M(wb_buffer b := None, wb_addr b := None)" and ?s = "popped prio r ?n s"
  have ok: "buf_ok ?M b" "bufs_ok ?M r" "wb_buffer b \<notin> set (owned r)" "wb_addr b \<notin> set (owned r)"
    using sock_mem_list [OF mem, of prio] b by simp_all
  note W = written_Cons [OF ok]
  have len: "word_of_nat (length (written ?M (Suc k) n (b # r))) =
      (word_of_nat ?n + word_of_nat (length (written ?M1 k n r)) :: u64)" for k n by (simp add: W)
  have kept: "tcp_kept i prio s (Suc k) n ss ss'" if "tcp_kept i prio ?s k n ss1 ss'" for k n
  proof -
    have "drained prio k n (length (written ?M1 k n r)) ?s = drained prio (Suc k) n (length (written ?M (Suc k) n (b # r))) s"
      by (simp add: drained_def Let_def b rest_bufs_def len popped_def put_list_wb_size diff_diff_eq)
    moreover have "?M1 |` (- set (owned (take k r))) = ?M |` (- set (owned (take (Suc k) (b # r))))"
      by (auto simp: restrict_map_def fun_eq_iff)
    moreover from that obtain t er where "ss' = ss1\<lparr>ss_tick := t, ss_errno := er,
        ss_sent := add_sent (so_fd s) (written ?M1 k n r) (ss_sent ss1), ss_mem := ?M1 |` (- set (owned (take k r))),
        ss_slot := (ss_slot ss1)(i := drained prio k n (length (written ?M1 k n r)) ?s)\<rparr>"
      unfolding tcp_kept_def Let_def ss1 by auto
    ultimately show ?thesis
      unfolding tcp_kept_def Let_def b W by (intro exI [of _ t] exI [of _ er]) (simp add: ss1 W)
  qed
  have closed: "tcp_closed i prio s (Suc k) ss ss'" if "tcp_closed i prio ?s k ss1 ss'" for k
  proof -
    have "?M1 |` (- dead_blocks ?s) = ?M |` (- dead_blocks s)"
      using sock_mem_popped(2) [OF mem b, of ?n] by (auto simp: restrict_map_def fun_eq_iff)
    moreover have "closed_slot (?s\<lparr>so_wb_size := so_wb_size ?s - word_of_nat (length (written ?M1 k 0 r))\<rparr>) =
        closed_slot (s\<lparr>so_wb_size := so_wb_size s - word_of_nat (length (written ?M (Suc k) 0 (b # r)))\<rparr>)"
      by (cases s) (simp add: closed_slot_def popped_def put_list_def len diff_diff_eq)
    moreover from that obtain t er pl where "ss' = ss1\<lparr>ss_tick := t, ss_errno := er, ss_poll := pl,
        ss_closed := ss_closed ss1 @ closes s,
        ss_sent := add_sent (so_fd s) (written ?M1 k 0 r) (ss_sent ss1), ss_mem := ?M1 |` (- dead_blocks ?s),
        ss_slot := (ss_slot ss1)(i := closed_slot (?s\<lparr>so_wb_size := so_wb_size ?s - word_of_nat (length (written ?M1 k 0 r))\<rparr>))\<rparr>"
      unfolding tcp_closed_def Let_def ss1 by auto
    ultimately show ?thesis
      unfolding tcp_closed_def Let_def b W by (intro exI [of _ t] exI [of _ er] exI [of _ pl]) (simp add: ss1 W)
  qed
  have p: "progress (Suc k) n (b # r) = progress k n r" for k n by (simp add: progress_def)
  from assms(4) consider (k) k n where "e = SOCKET_NONE" "res = result" "progress k n r" "tcp_kept i prio ?s k n ss1 ss'"
    | (c) k where "e = SOCKET_CLOSE" "res = close_result s result" "tcp_closed i prio ?s k ss1 ss'"
    unfolding tcp_done_def by auto
  then show ?thesis
  proof cases
    case k
    with kept p b have "progress (Suc k) n (wl_bufs (get_list prio s))" "tcp_kept i prio s (Suc k) n ss ss'" by simp_all
    with k show ?thesis unfolding tcp_done_def by blast
  next
    case c
    with closed show ?thesis unfolding tcp_done_def by blast
  qed
qed

lemma send_list_tcp_ok:
  assumes K: "kernel_writes K" and mem: "sock_mem (ss_mem ss) s"
    and type: "so_type s \<noteq> SOCKET_TYPE_INVALID" "so_type s \<noteq> SOCKET_TYPE_RESERVE"
    and lock: "l = 0 \<longrightarrow> \<not> so_dw_lock s" and s: "s = ss_slot ss i"
  shows "\<exists>e res ss'. send_list_tcp K i prio l result ss = Some (e, l, res, ss') \<and> tcp_done i prio s result ss e res ss'"
  using mem type lock s
proof (induction "wl_bufs (get_list prio s)" arbitrary: ss s)
  case Nil
  have t: "(get_list prio s)\<lparr>wl_tail := NULL\<rparr> = \<lparr>wl_bufs = [], wl_tail = NULL\<rparr>"
    by (cases "get_list prio s") (use Nil.hyps in simp)
  have "tcp_kept i prio s 0 0 ss (upd_slot i (put_list prio ((get_list prio s)\<lparr>wl_tail := NULL\<rparr>)) ss)"
    unfolding tcp_kept_def Let_def t
    by (intro exI [of _ "ss_tick ss"] exI [of _ "ss_errno ss"], cases ss)
       (use Nil in \<open>simp add: written_def drained_def rest_bufs_def upd_slot_def restrict_map_def Let_def\<close>)
  moreover have "send_list_tcp K i prio l result ss =
      Some (SOCKET_NONE, l, result, upd_slot i (put_list prio ((get_list prio s)\<lparr>wl_tail := NULL\<rparr>)) ss)"
    using Nil.hyps Nil.prems(5) by (subst send_list_tcp.simps) (simp add: Let_def flip: Nil.hyps)
  ultimately show ?case by (auto simp: tcp_done_def progress_def simp flip: Nil.hyps)
next
  case (Cons b r)
  note b = Cons.hyps(2) [symmetric]
  let ?M = "ss_mem ss"
  have ok: "buf_ok ?M b" "bufs_ok ?M r" "wb_buffer b \<noteq> wb_addr b"
    using sock_mem_list [OF Cons.prems(1), of prio] b by simp_all
  let ?bytes = "buf_bytes ?M b"
  have len: "length ?bytes = unat (wb_sz b)" by (rule length_buf_bytes [OF ok(1)])
  obtain q t er where wr: "write_retry K (so_fd s) ?bytes ss =
      Some (q, ss\<lparr>ss_tick := t, ss_errno := er, ss_sent := add_sent (so_fd s) (taken q ?bytes) (ss_sent ss)\<rparr>)"
      (is "_ = Some (q, ?ss1)") and q: "q \<noteq> Err EINTR" "\<forall>n. q = Got n \<longrightarrow> n \<le> length ?bytes"
    using write_retry_ok [OF K] by blast
  have g: "0 \<le> sint (wb_sz b)" using ok(1) by (simp add: buf_ok_def)
  note unf = send_list_tcp.simps [of K i prio l result ss]
  note S = Cons.prems(5) [symmetric]
  show ?case
  proof (cases q)
    case (Err e)
    show ?thesis
    proof (cases "e = EAGAIN")
      case True
      have w: "\<lparr>wl_bufs = b # r, wl_tail = wl_tail (get_list prio s)\<rparr> = get_list prio s"
        by (cases "get_list prio s") (use b in simp)
      have "tcp_kept i prio s 0 0 ss ?ss1"
        unfolding tcp_kept_def Let_def
        by (intro exI [of _ t] exI [of _ er], cases ss)
           (use Err S in \<open>simp add: written_def drained_def rest_bufs_def b restrict_map_def Let_def w fun_upd_idem\<close>)
      moreover have "send_list_tcp K i prio l result ss = Some (SOCKET_NONE, l, result, ?ss1)"
        using Err True by (subst unf) (simp add: Let_def S b g mem_at_buf [OF ok(1)] wr)
      moreover have "progress 0 0 (wl_bufs (get_list prio s))" using b by (simp add: progress_def)
      ultimately show ?thesis unfolding tcp_done_def by blast
    next
      case False
      have "ss_slot ?ss1 i = s" "ss_mem ?ss1 = ss_mem ss" using S by simp_all
      then obtain t' e' pl where fc: "force_close K i l result ?ss1 = Some (l, close_result s result,
          ?ss1\<lparr>ss_tick := t', ss_errno := e', ss_poll := pl,
             ss_closed := ss_closed ?ss1 @ (if so_type s \<noteq> SOCKET_TYPE_BIND then [so_fd s] else []),
             ss_mem := ss_mem ?ss1 |` (- dead_blocks s), ss_slot := (ss_slot ?ss1)(i := closed_slot s)\<rparr>)"
        (is "_ = Some (_, _, ?ss2)")
        using force_close_ok [of s ?ss1 l i K result] Cons.prems by auto
      have "tcp_closed i prio s 0 ss ?ss2"
        unfolding tcp_closed_def Let_def
        by (intro exI [of _ t'] exI [of _ e'] exI [of _ pl], cases ss; cases s)
           (use Err S b in \<open>simp add: written_def closes_def\<close>)
      moreover have "send_list_tcp K i prio l result ss = Some (SOCKET_CLOSE, l, close_result s result, ?ss2)"
      proof -
        have "send_list_tcp K i prio l result ss =
            do { (l1, res, ss2) \<leftarrow> force_close K i l result ?ss1; Some (SOCKET_CLOSE, l1, res, ss2) }"
          using Err False by (subst unf) (simp add: Let_def S b g mem_at_buf [OF ok(1)] wr)
        then show ?thesis by (simp only: fc Option.bind.simps prod.case)
      qed
      ultimately show ?thesis by (auto simp: tcp_done_def)
    qed
  next
    case (Got n)
    let ?ss2 = "upd_slot i (\<lambda>s. s\<lparr>so_wb_size := so_wb_size s - word_of_nat n\<rparr>) ?ss1"
    show ?thesis
    proof (cases "n = unat (wb_sz b)")
      case False
      let ?ss3 = "upd_slot i (put_list prio ((get_list prio s)\<lparr>wl_bufs := advance n b # r\<rparr>)) ?ss2"
      have n: "n \<le> unat (wb_sz b)" using q(2) Got len by simp
      have w: "(get_list prio s)\<lparr>wl_bufs := advance n b # r\<rparr> =
          \<lparr>wl_bufs = advance n b # r, wl_tail = wl_tail (get_list prio s)\<rparr>"
        by (cases "get_list prio s") simp
      have "tcp_kept i prio s 0 n ss ?ss3"
        unfolding tcp_kept_def Let_def w
        by (intro exI [of _ t] exI [of _ er], cases ss)
           (use Got S n len in \<open>simp add: written_def drained_def rest_bufs_def b restrict_map_def Let_def upd_slot_def min_absorb2\<close>)
      moreover have "send_list_tcp K i prio l result ss = Some (SOCKET_NONE, l, result, ?ss3)"
        using Got False by (subst unf) (simp add: Let_def S b g mem_at_buf [OF ok(1)] wr advance_def)
      moreover have "progress 0 n (wl_bufs (get_list prio s))" using n False b by (simp add: progress_def)
      ultimately show ?thesis by (auto simp: tcp_done_def)
    next
      case True
      let ?s = "popped prio r (length ?bytes) s"
      let ?ss4 = "ss\<lparr>ss_tick := t, ss_errno := er, ss_sent := add_sent (so_fd s) ?bytes (ss_sent ss),
         ss_mem := ?M(wb_buffer b := None, wb_addr b := None), ss_slot := (ss_slot ss)(i := ?s)\<rparr>"
      have "write_buffer_free b (upd_slot i (put_list prio ((get_list prio s)\<lparr>wl_bufs := r\<rparr>)) ?ss2) = Some ?ss4"
        using write_buffer_free_ok [of "upd_slot i (put_list prio ((get_list prio s)\<lparr>wl_bufs := r\<rparr>)) ?ss2" b] ok S True Got len
        by (cases ss) (simp add: upd_slot_def popped_def)
      then have "send_list_tcp K i prio l result ss = send_list_tcp K i prio l result ?ss4"
        using Got True by (subst unf) (simp add: Let_def S b g mem_at_buf [OF ok(1)] wr)
      moreover obtain e res ss' where "send_list_tcp K i prio l result ?ss4 = Some (e, l, res, ss')"
          "tcp_done i prio ?s result ?ss4 e res ss'"
        using Cons.hyps(1) [of ?s ?ss4] sock_mem_popped(1) [OF Cons.prems(1) b] Cons.prems by auto
      moreover from this(2) have "tcp_done i prio s result ss e res ss'"
        using tcp_done_step [OF b Cons.prems(1) refl] by blast
      ultimately show ?thesis by auto
    qed
  qed
qed

lemma owned_rest: "owned (rest_bufs k n bs) = owned (drop k bs)"
  by (simp add: rest_bufs_def split: list.splits)

lemma rest_ok:
  assumes "bufs_ok M bs" "progress k n bs"
  defines "M' \<equiv> M |` (- set (owned (take k bs)))"
  shows "bufs_ok M' (rest_bufs k n bs)" "written M k n bs @ pending M' (rest_bufs k n bs) = pending M bs"
proof -
  have split: "bs = take k bs @ drop k bs" by simp
  then have ok: "bufs_ok M (take k bs)" "bufs_ok M (drop k bs)" "set (owned (take k bs)) \<inter> set (owned (drop k bs)) = {}"
    using assms(1) bufs_ok_append by metis+
  have same: "\<forall>p \<in> set (owned (rest_bufs k n bs)). M' p = M p"
    using ok(3) by (auto simp: owned_rest M'_def restrict_map_def)
  have rest: "bufs_ok M (rest_bufs k n bs) \<and>
    (case drop k bs of [] \<Rightarrow> [] | b # r \<Rightarrow> take n (buf_bytes M b)) @ pending M (rest_bufs k n bs) = pending M (drop k bs)"
  proof (cases "drop k bs")
    case (Cons b r)
    then have "buf_ok M b" "n \<le> unat (wb_sz b)" using ok(2) assms(2) by (simp_all add: progress_def)
    note A = advance_ok [OF this]
    then have "take n (buf_bytes M b) @ buf_bytes M (advance n b) @ pending M r = buf_bytes M b @ pending M r"
      by (simp only: append_assoc [symmetric])
    with A(1) Cons ok(2) show ?thesis by (simp add: rest_bufs_def)
  qed (simp add: rest_bufs_def)
  show "bufs_ok M' (rest_bufs k n bs)" using rest bufs_cong(1) [OF same] by simp
  have "pending M bs = pending M (take k bs) @ pending M (drop k bs)" by (metis append_take_drop_id pending_simps(3))
  then show "written M k n bs @ pending M' (rest_bufs k n bs) = pending M bs"
    using rest bufs_cong(2) [OF same] by (simp add: written_def)
qed

lemma written_prefix:
  assumes "bufs_ok M bs"
  shows "\<exists>v. written M k 0 bs @ v = pending M bs"
proof -
  have "progress k 0 bs" by (simp add: progress_def split: list.split)
  from rest_ok(2) [OF assms this] show ?thesis by blast
qed

lemma sock_mem_drained:
  assumes "sock_mem M s" "progress k n (wl_bufs (get_list prio s))"
  shows "sock_mem (M |` (- set (owned (take k (wl_bufs (get_list prio s)))))) (drained prio k n len s)"
proof -
  let ?bs = "wl_bufs (get_list prio s)" and ?d = "drained prio k n len s"
  let ?M = "M |` (- set (owned (take k ?bs)))"
  have ok: "bufs_ok M (wl_bufs (so_high s))" "bufs_ok M (wl_bufs (so_low s))"
    "set (owned (wl_bufs (so_high s))) \<inter> set (owned (wl_bufs (so_low s))) = {}"
    using assms(1) by (simp_all add: sock_mem_def sock_bufs_def bufs_ok_append)
  have R: "bufs_ok ?M (rest_bufs k n ?bs)" by (rule rest_ok(1) [OF sock_mem_list [OF assms(1)] assms(2)])
  have sub: "set (owned (take k ?bs)) \<subseteq> set (owned ?bs)" "set (owned (drop k ?bs)) \<subseteq> set (owned ?bs)"
    by (auto simp: owned_def dest: in_set_takeD in_set_dropD)
  have O: "bufs_ok ?M cs" if "bufs_ok M cs" "set (owned cs) \<inter> set (owned ?bs) = {}" for cs
    using that sub(1) by (subst bufs_cong(1)) (auto simp: restrict_map_def)
  have "bufs_ok ?M (sock_bufs ?d)"
  proof (cases "prio = PRIORITY_HIGH")
    case True
    then have bs: "?bs = wl_bufs (so_high s)" by (simp add: get_list_def)
    have "bufs_ok ?M (wl_bufs (so_low s))" using ok(3) by (intro O ok(2)) (simp add: bs inf_commute)
    moreover have "set (owned (rest_bufs k n ?bs)) \<inter> set (owned (wl_bufs (so_low s))) = {}"
      using ok(3) sub(2) unfolding owned_rest bs by blast
    ultimately show ?thesis using R True
      by (simp add: sock_bufs_def drained_def put_list_def get_list_def Let_def bufs_ok_append)
  next
    case False
    then have bs: "?bs = wl_bufs (so_low s)" by (simp add: get_list_def)
    have "bufs_ok ?M (wl_bufs (so_high s))" using ok(3) by (intro O ok(1)) (simp add: bs)
    moreover have "set (owned (wl_bufs (so_high s))) \<inter> set (owned (rest_bufs k n ?bs)) = {}"
      using ok(3) sub(2) unfolding owned_rest bs by blast
    ultimately show ?thesis using R False
      by (simp add: sock_bufs_def drained_def put_list_def get_list_def Let_def bufs_ok_append)
  qed
  moreover have "set (owned (sock_bufs ?d)) \<subseteq> set (owned (sock_bufs s))"
    using sub(2) by (auto simp: sock_bufs_def drained_def put_list_def get_list_def Let_def owned_rest)
  moreover have "so_dw_buffer ?d = so_dw_buffer s" "so_dw_size ?d = so_dw_size s" by (simp_all add: drained_def Let_def)
  moreover have "set (owned (take k ?bs)) \<subseteq> set (owned (sock_bufs s))"
    using sub(1) by (auto simp: sock_bufs_def get_list_def)
  ultimately show ?thesis using assms(1) by (auto simp: sock_mem_def restrict_map_def)
qed


end
