(* ===== verification/SocketChecks.thy ===== *)
theory SocketChecks
  imports SocketProps
begin

text \<open>
  A concrete server and kernel on which the properties of the socket server are applied, and
  the properties of queueing, of closing, of the control pipe and of UDP addresses.
\<close>

section \<open>A concrete kernel and server\<close>

definition short_kernel :: kernel where
  \<comment> \<open>takes at most three bytes of every write and is interrupted at every even tick\<close>
  "short_kernel =
     \<lparr>k_write = (\<lambda>t fd b. if even t then Err EINTR else Got (min 3 (length b))), k_sendto = (\<lambda>t fd b sa. Got (length b)),
      k_read = (\<lambda>t fd n. Err EAGAIN), k_recvfrom = (\<lambda>t fd n. Err EAGAIN), k_accept = (\<lambda>t fd. Err EAGAIN),
      k_getaddrinfo = (\<lambda>t h p. Err 1), k_socket = (\<lambda>t f. Err 1), k_connect = (\<lambda>t fd a. Err 1),
      k_bind = (\<lambda>t fd a. Err 1), k_listen = (\<lambda>t fd b. Err 1), k_setsockopt = (\<lambda>t fd. Got ()),
      k_so_error = (\<lambda>t fd. Got 0), k_getpeername = (\<lambda>t fd. Err 1), k_epoll_ctl = (\<lambda>t fd. Got ()),
      k_epoll_wait = (\<lambda>t. Got []), k_close = (\<lambda>t fd. Got ()), k_create = (\<lambda>t. Got 3), k_pipe = (\<lambda>t. Got (4, 5)),
      k_pipe_write = (\<lambda>t n. Got n), k_busy = (\<lambda>t. False), k_ready = (\<lambda>t. True), k_strerror = (\<lambda>e. []),
      k_gai_strerror = (\<lambda>e. []), k_inet_ntop = (\<lambda>a. None)\<rparr>"

definition free_socket :: socket where
  "free_socket =
     \<lparr>so_opaque = 0, so_high = clear_wb_list, so_low = clear_wb_list, so_wb_size = 0, so_fd = - 1, so_id = 0,
      so_protocol = PROTOCOL_TCP, so_type = SOCKET_TYPE_INVALID, so_udpconnecting = 0, so_warn_size = 0,
      so_p = PSize MIN_READ_BUFFER, so_dw_lock = False, so_dw_offset = 0, so_dw_buffer = NULL, so_dw_size = 0\<rparr>"

definition hello_buffer :: write_buffer where
  "hello_buffer = \<lparr>wb_addr = 11, wb_buffer = 10, wb_ptr = (10, 0), wb_sz = 5, wb_userobject = False, wb_udp_address = None\<rparr>"

definition busy_socket :: socket where
  "busy_socket = free_socket\<lparr>so_fd := 7, so_id := 1, so_type := SOCKET_TYPE_CONNECTED, so_wb_size := 5,
     so_high := \<lparr>wl_bufs = [hello_buffer], wl_tail = 11\<rparr>\<rparr>"

definition sample_server :: socket_server where
  "sample_server =
     \<lparr>ss_recvctrl_fd = 4, ss_sendctrl_fd = 5, ss_checkctrl = True, ss_event_fd = 3, ss_alloc_id = 1, ss_event_n = 0,
      ss_event_index = 0, ss_soi = None, ss_ev = [], ss_slot = (\<lambda>i. if i = 1 then busy_socket else free_socket),
      ss_buffer = [], ss_pipe = [], ss_mem = [10 \<mapsto> ''hello'', 11 \<mapsto> [], 20 \<mapsto> ''more''], ss_brk = 30, ss_tick = 0, ss_errno = 0,
      ss_sent = (\<lambda>fd. []), ss_dgrams = (\<lambda>fd. []), ss_closed = [], ss_poll = Map.empty\<rparr>"

lemma short_kernel_writes: "kernel_writes short_kernel"
proof -
  have "\<exists>t'. t \<le> t' \<and> k_write short_kernel t' fd b \<noteq> Err EINTR" for t fd b
    by (rule exI [of _ "2 * t + 1"]) (simp add: short_kernel_def)
  then show ?thesis unfolding kernel_writes_def by (auto simp: short_kernel_def split: if_splits)
qed

lemma sample_slot: "ss_slot sample_server 1 = busy_socket"
  by (simp add: sample_server_def)

lemma sample_sound: "sock_mem (ss_mem sample_server) busy_socket"
  by (simp add: sock_mem_def sock_bufs_def busy_socket_def free_socket_def clear_wb_list_def buf_ok_def
      hello_buffer_def sample_server_def)

lemma busy_simps [simp]:
  "so_type busy_socket = SOCKET_TYPE_CONNECTED" "so_dw_lock busy_socket = False" "so_fd busy_socket = 7"
  "so_id busy_socket = 1" "so_protocol busy_socket = PROTOCOL_TCP"
  by (simp_all add: busy_socket_def free_socket_def)


theorem reserve_id_complete_witness:
  "so_type (ss_slot (snd (reserve_id sample_server)) (HASH_ID (fst (reserve_id sample_server)))) = SOCKET_TYPE_RESERVE"
proof -
  have "so_type (ss_slot sample_server 0) = SOCKET_TYPE_INVALID"
    by (simp add: sample_server_def free_socket_def)
  then have "\<exists>i<MAX_SOCKET. so_type (ss_slot sample_server i) = SOCKET_TYPE_INVALID"
    by (intro exI [of _ 0]) (simp add: MAX_SOCKET_def)
  moreover have "0 \<le> sint (ss_alloc_id sample_server)" by (simp add: sample_server_def)
  ultimately show ?thesis using reserve_id_complete [of sample_server, OF _ prod.collapse [symmetric]]
    by (simp add: reserved_def)
qed

section \<open>Closing\<close>

text \<open>C20. Closing a socket gives back everything it has: the slot becomes free with empty lists and
  no pending direct write, its descriptor is closed exactly once (a bound descriptor belongs to
  the caller and is left open), the data and the buffers of both lists and the direct-write data
  are freed, nothing else is, and no other slot changes. The message names the socket and its owner.\<close>

theorem force_close_releases:
  assumes "so_type (ss_slot ss i) \<noteq> SOCKET_TYPE_INVALID" "so_type (ss_slot ss i) \<noteq> SOCKET_TYPE_RESERVE"
    and "sock_mem (ss_mem ss) (ss_slot ss i)" "l = 0 \<longrightarrow> \<not> so_dw_lock (ss_slot ss i)"
  shows "\<exists>res ss'. force_close K i l result ss = Some (l, res, ss') \<and>
    ss_slot ss' = (ss_slot ss)(i := closed_slot (ss_slot ss i)) \<and>
    ss_mem ss' = ss_mem ss |` (- dead_blocks (ss_slot ss i)) \<and>
    ss_closed ss' = ss_closed ss @ closes (ss_slot ss i) \<and> ss_sent ss' = ss_sent ss \<and>
    sm_id res = so_id (ss_slot ss i) \<and> sm_opaque res = so_opaque (ss_slot ss i)"
proof -
  obtain t e pl where "force_close K i l result ss = Some (l, close_result (ss_slot ss i) result,
    ss\<lparr>ss_tick := t, ss_errno := e, ss_poll := pl,
       ss_closed := ss_closed ss @ (if so_type (ss_slot ss i) \<noteq> SOCKET_TYPE_BIND then [so_fd (ss_slot ss i)] else []),
       ss_mem := ss_mem ss |` (- dead_blocks (ss_slot ss i)), ss_slot := (ss_slot ss)(i := closed_slot (ss_slot ss i))\<rparr>)"
    using force_close_ok [OF assms refl] by blast
  then show ?thesis by (simp add: close_result_def closes_def)
qed

theorem force_close_releases_witness:
  "\<exists>res ss'. force_close short_kernel 1 0 dummy_message sample_server = Some (0, res, ss') \<and>
    ss_closed ss' = [7] \<and> ss_mem ss' 10 = None \<and> ss_mem ss' 11 = None \<and> ss_mem ss' 20 = Some ''more''"
proof -
  have "dead_blocks busy_socket = {10, 11}" "closes busy_socket = [7]"
    by (auto simp: dead_blocks_def dw_blocks_def sock_bufs_def closes_def busy_socket_def free_socket_def
        clear_wb_list_def hello_buffer_def)
  moreover have "ss_closed sample_server = []" "ss_mem sample_server 20 = Some ''more''" by (simp_all add: sample_server_def)
  ultimately show ?thesis
    using force_close_releases [of sample_server 1 0 short_kernel dummy_message] sample_sound
    unfolding sample_slot by auto
qed

section \<open>Queueing\<close>

text \<open>A write buffer list whose tail pointer is the address of its last buffer.\<close>

definition tail_ok :: "wb_list \<Rightarrow> bool" where
  "tail_ok wl \<longleftrightarrow> wl_tail wl = (if wl_bufs wl = [] then NULL else wb_addr (last (wl_bufs wl))) \<and>
     (\<forall>b \<in> set (wl_bufs wl). wb_addr b \<noteq> NULL)"

definition queued_in :: "nat \<Rightarrow> socket \<Rightarrow> nat" where
  \<comment> \<open>the list that a package of a priority goes to\<close>
  "queued_in prio s =
     (if send_buffer_empty s \<and> so_type s = SOCKET_TYPE_CONNECTED \<or> prio \<noteq> PRIORITY_LOW then PRIORITY_HIGH else PRIORITY_LOW)"

definition plain_buf :: "ptr \<Rightarrow> ptr \<Rightarrow> i32 \<Rightarrow> string option \<Rightarrow> write_buffer" where
  "plain_buf a buffer sz address = \<lparr>wb_addr = a, wb_buffer = buffer, wb_ptr = (buffer, 0), wb_sz = sz,
      wb_userobject = False, wb_udp_address = address\<rparr>"

lemma append_buffer_ok:
  assumes "tail_ok (get_list prio (ss_slot ss i))" "0 \<le> sint sz"
  shows "append_buffer i prio buffer sz address ss =
    Some (upd_slot i (\<lambda>s. put_list prio \<lparr>wl_bufs = wl_bufs (get_list prio s) @ [plain_buf (ss_brk ss) buffer sz address], wl_tail = ss_brk ss\<rparr>
        (s\<lparr>so_wb_size := so_wb_size s + scast sz\<rparr>))
      (ss\<lparr>ss_mem := (ss_mem ss)(ss_brk ss \<mapsto> []), ss_brk := Suc (ss_brk ss)\<rparr>))"
proof -
  let ?wl = "get_list prio (ss_slot ss i)"
  have "wl_bufs ?wl = [] \<or> wl_tail ?wl \<noteq> NULL" "wl_bufs ?wl = [] \<or> wb_addr (last (wl_bufs ?wl)) = wl_tail ?wl"
    using assms(1) by (auto simp: tail_ok_def)
  then show ?thesis
    using assms(2) by (simp add: append_buffer_def MALLOC_def send_object_init_def plain_buf_def upd_slot_def)
qed

lemma put_list_other:
  assumes "prio \<noteq> prio'" "prio = PRIORITY_HIGH \<or> prio = PRIORITY_LOW" "prio' = PRIORITY_HIGH \<or> prio' = PRIORITY_LOW"
  shows "get_list prio' (put_list prio wl s) = get_list prio' s"
  using assms by (auto simp: get_list_def put_list_def PRIORITY_HIGH_def PRIORITY_LOW_def)

lemma send_warning_frame:
  assumes "send_warning i result ss = (e, res, ss')"
  shows "e = SOCKET_NONE \<or> e = SOCKET_WARNING" "ss_mem ss' = ss_mem ss" "ss_sent ss' = ss_sent ss"
    "get_list p (ss_slot ss' i) = get_list p (ss_slot ss i)" "so_wb_size (ss_slot ss' i) = so_wb_size (ss_slot ss i)"
    "so_type (ss_slot ss' i) = so_type (ss_slot ss i)"
  using assms by (auto simp: send_warning_def Let_def upd_slot_def get_list_def split: if_splits)

lemma send_socket_tcp:
  assumes s: "s = ss_slot ss (HASH_ID sid)" "so_id s = sid"
    and type: "so_type s \<in> {SOCKET_TYPE_CONNECTING, SOCKET_TYPE_CONNECTED, SOCKET_TYPE_BIND}"
    and tcp: "so_protocol s = PROTOCOL_TCP" and sz: "0 \<le> sint sz" and tail: "tail_ok (get_list (queued_in prio s) s)"
  shows "\<exists>t er pl ss1. send_socket K sid sz buffer prio None result ss = Some (send_warning (HASH_ID sid) result
      (ss1\<lparr>ss_tick := t, ss_errno := er, ss_poll := pl\<rparr>)) \<and>
    append_buffer (HASH_ID sid) (queued_in prio s) buffer sz None ss = Some ss1"
proof -
  let ?i = "HASH_ID sid"
  obtain ss1 where ss1: "append_buffer ?i (queued_in prio s) buffer sz None ss = Some ss1"
    using append_buffer_ok [of "queued_in prio s" ss ?i sz] tail sz s by blast
  have t: "so_type s \<noteq> SOCKET_TYPE_INVALID" "so_type s \<noteq> SOCKET_TYPE_HALFCLOSE" "so_type s \<noteq> SOCKET_TYPE_PACCEPT"
    "so_type s \<noteq> SOCKET_TYPE_PLISTEN" "so_type s \<noteq> SOCKET_TYPE_LISTEN" using type by auto
  show ?thesis
  proof (cases "send_buffer_empty s \<and> so_type s = SOCKET_TYPE_CONNECTED")
    case True
    then have "queued_in prio s = PRIORITY_HIGH" by (simp add: queued_in_def)
    moreover obtain u er pl where "sp_write K (so_fd s) (Some ?i) True ss1 = ss1\<lparr>ss_tick := u, ss_errno := er, ss_poll := pl\<rparr>"
      using sp_write_frame by blast
    ultimately show ?thesis
      using True t tcp s sz ss1 by (auto simp: send_socket_def send_object_init_def append_sendbuffer_def Let_def)
  next
    case False
    then have "send_socket K sid sz buffer prio None result ss = Some (send_warning ?i result ss1)"
      using t tcp s sz ss1
      by (auto simp: send_socket_def send_object_init_def append_sendbuffer_def append_sendbuffer_low_def Let_def queued_in_def)
    moreover have "ss1 = ss1\<lparr>ss_tick := ss_tick ss1, ss_errno := ss_errno ss1, ss_poll := ss_poll ss1\<rparr>" by simp
    ultimately show ?thesis using ss1 by metis
  qed
qed

text \<open>A package sent to an open TCP socket is queued whole and in order: it is appended to the
  high list, or to the low list when its priority is low and something is queued already; the other
  list keeps its bytes, \<open>wb_size\<close> grows by the size of the package, nothing is written or freed, and
  the call reports nothing or a warning.\<close>

theorem send_socket_queues:
  assumes "so_id (ss_slot ss (HASH_ID sid)) = sid" "so_protocol (ss_slot ss (HASH_ID sid)) = PROTOCOL_TCP"
    and "so_type (ss_slot ss (HASH_ID sid)) \<in> {SOCKET_TYPE_CONNECTING, SOCKET_TYPE_CONNECTED, SOCKET_TYPE_BIND}"
    and "ss_mem ss buffer = Some bytes" "unat sz = length bytes" "0 \<le> sint sz" "\<forall>p. ss_mem ss p \<noteq> None \<longrightarrow> p < ss_brk ss"
    and "\<forall>p. tail_ok (get_list p (ss_slot ss (HASH_ID sid)))" "sock_mem (ss_mem ss) (ss_slot ss (HASH_ID sid))"
  defines "s \<equiv> ss_slot ss (HASH_ID sid)"
  shows "\<exists>e res ss'. send_socket K sid sz buffer prio None result ss = Some (e, res, ss') \<and>
    (e = SOCKET_NONE \<or> e = SOCKET_WARNING) \<and> ss_sent ss' = ss_sent ss \<and>
    so_wb_size (ss_slot ss' (HASH_ID sid)) = so_wb_size s + word_of_nat (length bytes) \<and>
    (\<forall>p \<in> {PRIORITY_HIGH, PRIORITY_LOW}.
       tail_ok (get_list p (ss_slot ss' (HASH_ID sid)))) \<and>
    (\<forall>p \<in> {PRIORITY_HIGH, PRIORITY_LOW}.
       pending (ss_mem ss') (wl_bufs (get_list p (ss_slot ss' (HASH_ID sid)))) =
       pending (ss_mem ss) (wl_bufs (get_list p s)) @ (if p = queued_in prio s then bytes else []))"
proof -
  let ?i = "HASH_ID sid" and ?q = "queued_in prio s"
  let ?buf = "plain_buf (ss_brk ss) buffer sz None"
  obtain t er pl ss1 where run: "send_socket K sid sz buffer prio None result ss =
      Some (send_warning ?i result (ss1\<lparr>ss_tick := t, ss_errno := er, ss_poll := pl\<rparr>))"
      and ss1: "append_buffer ?i ?q buffer sz None ss = Some ss1"
    using send_socket_tcp [of s ss sid sz prio K buffer result] assms by auto
  note A = append_buffer_ok [of ?q ss ?i sz buffer None]
  have st: "ss_slot ss1 ?i = put_list ?q \<lparr>wl_bufs = wl_bufs (get_list ?q s) @ [?buf], wl_tail = ss_brk ss\<rparr>
        (s\<lparr>so_wb_size := so_wb_size s + scast sz\<rparr>)" "ss_mem ss1 = (ss_mem ss)(ss_brk ss \<mapsto> [])" "ss_sent ss1 = ss_sent ss"
    using A ss1 assms(6,8) by (auto simp: upd_slot_def s_def)
  obtain e res ss' where w: "send_warning ?i result (ss1\<lparr>ss_tick := t, ss_errno := er, ss_poll := pl\<rparr>) = (e, res, ss')"
    using prod_cases3 by blast
  note F = send_warning_frame [OF w]
  have q: "?q = PRIORITY_HIGH \<or> ?q = PRIORITY_LOW" by (simp add: queued_in_def)
  have fresh: "ss_mem ss (ss_brk ss) = None" using assms(7) by blast
  have brk: "ss_brk ss \<noteq> NULL" using assms(4,7) by (metis less_nat_zero_code option.distinct(1))
  have keep: "pending (ss_mem ss1) (wl_bufs (get_list p s)) = pending (ss_mem ss) (wl_bufs (get_list p s))" for p
  proof (rule bufs_cong(2), rule ballI)
    fix a
    assume "a \<in> set (owned (wl_bufs (get_list p s)))"
    then have "ss_mem ss a \<noteq> None" using bufs_ok_dom [OF sock_mem_list [OF assms(9), of p]] by (simp add: s_def)
    then show "ss_mem ss1 a = ss_mem ss a" using fresh st(2) by auto
  qed
  have new: "buf_bytes (ss_mem ss1) ?buf = bytes"
    using assms(4,5) fresh st(2) by (auto simp: buf_bytes_def plain_buf_def)
  have sc: "(scast sz :: u64) = word_of_nat (length bytes)"
  proof -
    have "(scast sz :: u64) = word_of_int (sint sz)" by simp
    then show ?thesis using sint_eq_unat [OF assms(6)] assms(5) by simp
  qed
  have lists: "get_list p (ss_slot ss' ?i) = (if p = ?q then \<lparr>wl_bufs = wl_bufs (get_list ?q s) @ [?buf], wl_tail = ss_brk ss\<rparr>
      else get_list p s)" if "p \<in> {PRIORITY_HIGH, PRIORITY_LOW}" for p
  proof (cases "p = ?q")
    case True
    then show ?thesis using F(4) [of p] st(1) by simp
  next
    case False
    with that q have "get_list p (put_list ?q wl x) = get_list p x" for wl x by (intro put_list_other) auto
    then show ?thesis using False F(4) [of p] st(1) by simp
  qed
  have "tail_ok (get_list p (ss_slot ss' ?i))" if "p \<in> {PRIORITY_HIGH, PRIORITY_LOW}" for p
    using lists [OF that] assms(8) brk by (auto simp: tail_ok_def s_def plain_buf_def)
  moreover have "pending (ss_mem ss') (wl_bufs (get_list p (ss_slot ss' ?i))) =
       pending (ss_mem ss) (wl_bufs (get_list p s)) @ (if p = ?q then bytes else [])"
    if "p \<in> {PRIORITY_HIGH, PRIORITY_LOW}" for p
    using lists [OF that] F(2) keep [of p] keep [of ?q] new by simp
  ultimately show ?thesis
    using run w F st sc by (intro exI [of _ e] exI [of _ res] exI [of _ ss']) simp
qed

theorem send_socket_queues_witness:
  "\<exists>e res ss'. send_socket short_kernel 1 4 20 PRIORITY_LOW None dummy_message sample_server = Some (e, res, ss') \<and>
    pending (ss_mem ss') (wl_bufs (get_list PRIORITY_LOW (ss_slot ss' 1))) = ''more'' \<and>
    pending (ss_mem ss') (wl_bufs (get_list PRIORITY_HIGH (ss_slot ss' 1))) = ''hello''"
proof -
  have h: "HASH_ID 1 = 1" by (simp add: HASH_ID_def MAX_SOCKET_def MAX_SOCKET_P_def)
  have t: "\<forall>p. tail_ok (get_list p busy_socket)"
    by (auto simp: tail_ok_def get_list_def busy_socket_def free_socket_def clear_wb_list_def hello_buffer_def)
  have m: "\<forall>p. ss_mem sample_server p \<noteq> None \<longrightarrow> p < ss_brk sample_server" by (auto simp: sample_server_def split: if_splits)
  have b: "ss_mem sample_server 20 = Some ''more''" by (simp add: sample_server_def)
  have q: "queued_in PRIORITY_LOW busy_socket = PRIORITY_LOW" "PRIORITY_HIGH \<noteq> PRIORITY_LOW"
    by (simp_all add: queued_in_def send_buffer_empty_def busy_socket_def PRIORITY_HIGH_def PRIORITY_LOW_def)
  have p: "pending (ss_mem sample_server) (wl_bufs (get_list PRIORITY_HIGH busy_socket)) = ''hello''"
    "pending (ss_mem sample_server) (wl_bufs (get_list PRIORITY_LOW busy_socket)) = []"
    by (simp_all add: pending_def buf_bytes_def hello_buffer_def busy_socket_def get_list_def sample_server_def
        free_socket_def clear_wb_list_def PRIORITY_HIGH_def PRIORITY_LOW_def)
  show ?thesis
    using send_socket_queues [of sample_server 1 20 "''more''" 4 short_kernel PRIORITY_LOW dummy_message] sample_sound t m b p q
    unfolding h sample_slot by auto
qed

section \<open>The control pipe\<close>

text \<open>The calls of other threads that put requests into the control pipe.\<close>

inductive api_call :: "kernel \<Rightarrow> socket_server \<Rightarrow> socket_server \<Rightarrow> bool" for K :: kernel where
  "socket_server_connect K opaque addr port ss = Some (r, ss') \<Longrightarrow> api_call K ss ss'"
| "socket_server_send K sid buffer sz ss = Some (r, ss') \<Longrightarrow> api_call K ss ss'"
| "socket_server_send_lowpriority K sid buffer sz ss = Some (r, ss') \<Longrightarrow> api_call K ss ss'"
| "socket_server_exit K ss = Some ss' \<Longrightarrow> api_call K ss ss'"
| "socket_server_close K opaque sid ss = Some ss' \<Longrightarrow> api_call K ss ss'"
| "socket_server_shutdown K opaque sid ss = Some ss' \<Longrightarrow> api_call K ss ss'"
| "socket_server_listen K opaque host port backlog ss = Some (r, ss') \<Longrightarrow> api_call K ss ss'"
| "socket_server_bind K opaque fd ss = Some (r, ss') \<Longrightarrow> api_call K ss ss'"
| "socket_server_start K opaque sid ss = Some ss' \<Longrightarrow> api_call K ss ss'"
| "socket_server_nodelay K sid ss = Some ss' \<Longrightarrow> api_call K ss ss'"
| "socket_server_udp K opaque host port ss = Some (r, ss') \<Longrightarrow> api_call K ss ss'"
| "socket_server_udp_send K sid address buffer sz ss = Some (r, ss') \<Longrightarrow> api_call K ss ss'"

text \<open>The bodies that the handler of a request type reads.\<close>

fun body_fits :: "char \<Rightarrow> request \<Rightarrow> bool" where
  "body_fits c (ReqOpen sid port opaque host) = (c = CHR ''O'')"
| "body_fits c (ReqSend sid sz buffer) = (c = CHR ''D'' \<or> c = CHR ''P'')"
| "body_fits c (ReqSendUdp sid sz buffer address) = (c = CHR ''A'')"
| "body_fits c (ReqSetudp sid address) = (c = CHR ''C'')"
| "body_fits c (ReqClose sid shutdown opaque) = (c = CHR ''K'')"
| "body_fits c (ReqListen sid fd opaque) = (c = CHR ''L'')"
| "body_fits c (ReqBind sid fd opaque) = (c = CHR ''B'')"
| "body_fits c (ReqStart sid opaque) = (c = CHR ''S'')"
| "body_fits c (ReqSetopt sid what val) = (c = CHR ''T'')"
| "body_fits c (ReqUdp sid fd family opaque) = (c = CHR ''U'')"
| "body_fits c ReqNone = (c = CHR ''X'')"

definition framed :: "request_package \<Rightarrow> bool" where
  "framed p \<longleftrightarrow> unat (rq_len p) = rq_size p \<and> body_fits (rq_type p) (rq_body p)"

lemma send_request_adds:
  assumes "send_request K c len body ss = Some ss'"
  shows "ss_pipe ss' = ss_pipe ss @ [\<lparr>rq_type = c, rq_len = word_of_nat len, rq_size = len, rq_body = body\<rparr>]"
proof (rule send_request.raw_induct [where P = "\<lambda>K c len body ss ss'. ss_pipe ss' =
    ss_pipe ss @ [\<lparr>rq_type = c, rq_len = word_of_nat len, rq_size = len, rq_body = body\<rparr>]", OF _ assms])
  fix rec K c len body ss ss'
  assume 1: "\<And>K c len body ss ss'. rec K c len body ss = Some ss' \<Longrightarrow> ss_pipe ss' =
      ss_pipe ss @ [\<lparr>rq_type = c, rq_len = word_of_nat len, rq_size = len, rq_body = body\<rparr>]"
    and 2: "(case sys (\<lambda>t. k_pipe_write K t (len + 2)) ss of
        (Err _, ss1) \<Rightarrow> rec K c len body ss1
      | (Got n, ss1) \<Rightarrow> do {
          guard (n = len + 2);
          Some (ss1\<lparr>ss_pipe := ss_pipe ss1 @
            [\<lparr>rq_type = c, rq_len = word_of_nat len, rq_size = len, rq_body = body\<rparr>]\<rparr>) }) = Some ss'"
  show "ss_pipe ss' = ss_pipe ss @ [\<lparr>rq_type = c, rq_len = word_of_nat len, rq_size = len, rq_body = body\<rparr>]"
  proof (cases "k_pipe_write K (ss_tick ss) (len + 2)")
    case (Got n)
    then show ?thesis using 2 by (auto simp: sys_def)
  next
    case (Err e)
    then have "rec K c len body (snd (sys (\<lambda>t. k_pipe_write K t (len + 2)) ss)) = Some ss'"
      using 2 by (simp add: sys_def)
    from 1 [OF this] show ?thesis by (simp add: sys_def)
  qed
qed

lemma sys_pipe [simp]: "ss_pipe (snd (sys f ss)) = ss_pipe ss"
  by (simp add: sys_def)

lemma sys_pipeD: "sys f ss = (r, ss') \<Longrightarrow> ss_pipe ss' = ss_pipe ss"
  using sys_pipe [of f ss] by simp

lemma frame_pipe [simp]:
  "ss_pipe (upd_slot i f ss) = ss_pipe ss" "ss_pipe (sys_close K fd ss) = ss_pipe ss"
  "ss_pipe (sp_write K fd ud en ss) = ss_pipe ss" "ss_pipe (snd (reserve_id ss)) = ss_pipe ss"
proof -
  show "ss_pipe (upd_slot i f ss) = ss_pipe ss" by (simp add: upd_slot_def)
  show "ss_pipe (sys_close K fd ss) = ss_pipe ss" using sys_close_frame [of K fd ss] by auto
  show "ss_pipe (sp_write K fd ud en ss) = ss_pipe ss" using sp_write_frame [of K fd ud en ss] by auto
  have "ss_pipe (snd (reserve_scan n ss)) = ss_pipe ss" for n
    by (induction n arbitrary: ss) (auto simp: Let_def upd_slot_def)
  then show "ss_pipe (snd (reserve_id ss)) = ss_pipe ss" by (simp add: reserve_id_def)
qed

lemma reserve_pipeD: "reserve_id ss = (r, ss') \<Longrightarrow> ss_pipe ss' = ss_pipe ss"
  using frame_pipe(4) [of ss] by simp

lemma free_pipeD:
  assumes "free_func u p ss = Some ss'"
  shows "ss_pipe ss' = ss_pipe ss"
  using assms by (auto simp: free_func_def FREE_def guard_bind_eq_Some split: if_splits)

lemma free_buffer_pipeD: "free_buffer b sz ss = Some ss' \<Longrightarrow> ss_pipe ss' = ss_pipe ss"
  by (auto simp: free_buffer_def dest: free_pipeD)

lemma lock_pipeD:
  "socket_trylock K i l ss = (ok, l', ss') \<Longrightarrow> ss_pipe ss' = ss_pipe ss"
  "socket_unlock i l ss = Some (l', ss') \<Longrightarrow> ss_pipe ss' = ss_pipe ss"
  by (auto simp: socket_trylock_def socket_unlock_def upd_slot_def guard_bind_eq_Some split: if_splits)

lemma direct_write_pipeD: "direct_write K i b n ss = Some (k, ss') \<Longrightarrow> ss_pipe ss' = ss_pipe ss"
  by (auto simp: direct_write_def Let_def guard_bind_eq_Some sys_write_def sys_sendto_def sys_def
      split: if_splits io.splits)

lemma do_bind_pipeD: "do_bind K host port ss = (r, ss') \<Longrightarrow> ss_pipe ss' = ss_pipe ss"
  by (auto simp: do_bind_def Let_def split: prod.splits io.splits list.splits option.splits if_splits dest!: sys_pipeD)

lemma do_listen_pipeD: "do_listen K host port backlog ss = (r, ss') \<Longrightarrow> ss_pipe ss' = ss_pipe ss"
  by (auto simp: do_listen_def split: prod.splits io.splits option.splits dest!: sys_pipeD do_bind_pipeD)

definition adds_framed :: "socket_server \<Rightarrow> socket_server \<Rightarrow> bool" where
  "adds_framed ss ss' \<longleftrightarrow> (\<exists>ps. ss_pipe ss' = ss_pipe ss @ ps \<and> length ps \<le> 1 \<and> (\<forall>p \<in> set ps. framed p))"

lemma adds_framed_same: "ss_pipe ss' = ss_pipe ss \<Longrightarrow> adds_framed ss ss'"
  by (simp add: adds_framed_def)

lemma adds_framed_request:
  assumes "send_request K c len body ss1 = Some ss'" "ss_pipe ss1 = ss_pipe ss" "len < 256" "body_fits c body"
  shows "adds_framed ss ss'"
  using send_request_adds [OF assms(1)] assms(2-4)
  by (auto simp: adds_framed_def framed_def unat_of_nat take_bit_nat_eq_self_iff)

lemmas request_sizes = sizeof_open_def sizeof_send_def sizeof_close_def sizeof_listen_def sizeof_bind_def
  sizeof_start_def sizeof_setopt_def sizeof_udp_def sizeof_setudp_def

lemma connect_framed: "socket_server_connect K opaque addr port ss = Some (r, ss') \<Longrightarrow> adds_framed ss ss'"
  by (auto simp: socket_server_connect_def open_request_def sizeof_open_def split: if_splits prod.splits option.splits
      intro: adds_framed_same elim!: adds_framed_request dest: reserve_pipeD)

lemma send_framed:
  assumes "socket_server_send K sid buffer sz ss = Some (r, ss')"
  shows "adds_framed ss ss'"
proof -
  let ?i = "HASH_ID sid" and ?s = "ss_slot ss (HASH_ID sid)"
  show ?thesis
  proof (cases "so_id ?s \<noteq> sid \<or> so_type ?s = SOCKET_TYPE_INVALID")
    case True
    with assms show ?thesis by (auto simp: socket_server_send_def intro!: adds_framed_same dest!: free_buffer_pipeD)
  next
    case False
    obtain ok l ss1 where t: "(if can_direct_write ?s sid then socket_trylock K ?i 0 ss else (False, 0, ss)) = (ok, l, ss1)"
      using prod_cases3 by blast
    then have p1: "ss_pipe ss1 = ss_pipe ss" by (auto split: if_splits dest: lock_pipeD(1))
    have run: "socket_server_send K sid buffer sz ss = (case (ok, l, ss1) of
        (False, l, ss1) \<Rightarrow> do {
             ss2 \<leftarrow> send_request K (CHR ''D'') sizeof_send (ReqSend sid sz buffer) ss1; Some (0, ss2) }
         | (True, l, ss1) \<Rightarrow>
             if can_direct_write (ss_slot ss1 ?i) sid then do {
               (userobject, b, n) \<leftarrow> send_object_init buffer sz ss1;
               (k, ss2) \<leftarrow> direct_write K ?i b n ss1;
               if k = unat n then do {
                 (l1, ss3) \<leftarrow> socket_unlock ?i l ss2;
                 ss4 \<leftarrow> free_func userobject buffer ss3;
                 Some (0, ss4) }
               else do {
                 let ss3 = upd_slot ?i (\<lambda>s. s\<lparr>so_dw_buffer := buffer, so_dw_size := scast sz,
                                            so_dw_offset := word_of_nat k\<rparr>) ss2;
                 (l1, ss5) \<leftarrow> socket_unlock ?i l (sp_write K (so_fd (ss_slot ss3 ?i)) (Some ?i) True ss3);
                 Some (0, ss5) } }
             else do {
               (l1, ss2) \<leftarrow> socket_unlock ?i l ss1;
               ss3 \<leftarrow> send_request K (CHR ''D'') sizeof_send (ReqSend sid sz buffer) ss2; Some (0, ss3) })"
      using False t by (simp only: socket_server_send_def Let_def if_False)
    show ?thesis
      using assms p1 unfolding run
      by (cases ok; auto simp: sizeof_send_def Let_def split: if_splits elim!: adds_framed_request
            dest!: free_pipeD direct_write_pipeD lock_pipeD(2))
         (simp_all add: adds_framed_same)
  qed
qed

lemma listen_framed: "socket_server_listen K opaque host port backlog ss = Some (r, ss') \<Longrightarrow> adds_framed ss ss'"
  by (auto simp: socket_server_listen_def sizeof_listen_def split: if_splits prod.splits option.splits
      intro: adds_framed_same elim!: adds_framed_request dest!: reserve_pipeD do_listen_pipeD)

lemma bind_framed: "socket_server_bind K opaque fd ss = Some (r, ss') \<Longrightarrow> adds_framed ss ss'"
  by (auto simp: socket_server_bind_def sizeof_bind_def split: if_splits prod.splits
      intro: adds_framed_same elim!: adds_framed_request dest!: reserve_pipeD)

lemma udp_framed: "socket_server_udp K opaque host port ss = Some (r, ss') \<Longrightarrow> adds_framed ss ss'"
  by (auto simp: socket_server_udp_def sizeof_udp_def split: if_splits prod.splits option.splits io.splits
      intro: adds_framed_same elim!: adds_framed_request dest!: reserve_pipeD do_bind_pipeD sys_pipeD)

lemma sendto_pipeD: "sys_sendto K fd b sa ss = (r, ss') \<Longrightarrow> ss_pipe ss' = ss_pipe ss"
  by (auto simp: sys_sendto_def sys_def split: io.splits)

lemma address_size: "udp_address_size a = Some n \<Longrightarrow> n < 20"
  by (auto simp: udp_address_size_def split: if_splits)

lemma udp_send_framed:
  assumes "socket_server_udp_send K sid a buffer sz ss = Some (r, ss')"
  shows "adds_framed ss ss'"
proof -
  let ?i = "HASH_ID sid" and ?s = "ss_slot ss (HASH_ID sid)"
  show ?thesis
  proof (cases "so_id ?s \<noteq> sid \<or> so_type ?s = SOCKET_TYPE_INVALID \<or> a = [] \<or> udp_address_size a = None")
    case True
    with assms show ?thesis
      by (auto simp: socket_server_udp_send_def Let_def intro!: adds_framed_same dest!: free_buffer_pipeD split: if_splits)
  next
    case False
    then obtain n where n: "udp_address_size a = Some n" by auto
    obtain ok l ss1 where t: "(if can_direct_write ?s sid then socket_trylock K ?i 0 ss else (False, 0, ss)) = (ok, l, ss1)"
      using prod_cases3 by blast
    then have p1: "ss_pipe ss1 = ss_pipe ss" by (auto split: if_splits dest: lock_pipeD(1))
    let ?req = "\<lambda>ss. do { ss1 \<leftarrow> send_request K (CHR ''A'') (sizeof_send + n) (ReqSendUdp sid sz buffer (take n a)) ss;
        Some (0, ss1) }"
    have len: "sizeof_send + n < 256" using address_size [OF n] by (simp add: sizeof_send_def)
    from False have g: "\<not> (so_id ?s \<noteq> sid \<or> so_type ?s = SOCKET_TYPE_INVALID)" "a \<noteq> []" by auto
    have run: "socket_server_udp_send K sid a buffer sz ss = (case (ok, l, ss1) of
        (False, l, ss1) \<Rightarrow> ?req ss1
      | (True, l, ss1) \<Rightarrow>
          if can_direct_write (ss_slot ss1 ?i) sid then do {
            (userobject, b, n) \<leftarrow> send_object_init buffer sz ss1;
            guard (0 \<le> sint n);
            bytes \<leftarrow> mem_at ss1 (b, 0) (unat n);
            let (r, ss2) = sys_sendto K (so_fd ?s) bytes (udp_socket_address (so_protocol ?s) a) ss1;
            (l1, ss3) \<leftarrow> socket_unlock ?i l ss2;
            case r of
              Got _ \<Rightarrow> do { ss4 \<leftarrow> free_func userobject buffer ss3; Some (0, ss4) }
            | Err _ \<Rightarrow> ?req ss3 }
          else do { (l1, ss2) \<leftarrow> socket_unlock ?i l ss1; ?req ss2 })"
      using g n t by (simp only: socket_server_udp_send_def Let_def if_False option.case)
    show ?thesis
      using assms p1 unfolding run
      by (cases ok; auto simp: guard_bind_eq_Some split: if_splits prod.splits io.splits elim!: adds_framed_request [OF _ _ len]
            dest!: free_pipeD sendto_pipeD lock_pipeD(2))
         (simp_all add: adds_framed_same)
  qed
qed



section \<open>Addresses of UDP messages\<close>

fun addr_sized :: "sockaddr \<Rightarrow> bool" where
  "addr_sized (V4 port addr) = (length port = 2 \<and> length addr = 4)"
| "addr_sized (V6 port addr) = (length port = 2 \<and> length addr = 16)"

text \<open>The address that is put behind the data of a UDP message is found there again, whole, and
  sending to it reaches the peer that it was made from, for both address families.\<close>

theorem udp_address_roundtrip:
  assumes "gen_udp_address protocol sa = Some a" "addr_sized sa" "protocol \<in> {PROTOCOL_UDP, PROTOCOL_UDPv6}"
  shows "udp_socket_address protocol a = Some sa \<and> length a \<le> UDP_ADDRESS_SIZE \<and>
    socket_server_udp_address (d @ a) (length d) = Some (Some (a, length a))"
proof -
  have c: "of_char (char_of (unat PROTOCOL_UDP)) = (1 :: u8)" "of_char (char_of (unat PROTOCOL_UDPv6)) = (2 :: u8)"
    by code_simp+
  show ?thesis
    using assms c
    by (cases sa)
       (auto simp: gen_udp_address_def udp_socket_address_def socket_server_udp_address_def udp_address_size_def
          UDP_ADDRESS_SIZE_def PROTOCOL_UDP_def PROTOCOL_UDPv6_def Let_def split: if_splits)
qed

theorem udp_address_roundtrip_witness:
  "udp_socket_address PROTOCOL_UDP (char_of (1::nat) # ''ab'' @ ''cdef'') = Some (V4 ''ab'' ''cdef'')"
proof -
  have "gen_udp_address PROTOCOL_UDP (V4 ''ab'' ''cdef'') = Some (char_of (1::nat) # ''ab'' @ ''cdef'')"
    by (simp add: gen_udp_address_def PROTOCOL_UDP_def)
  from udp_address_roundtrip [OF this] show ?thesis by simp
qed

section \<open>Two flaws\<close>

definition again_kernel :: kernel where
  "again_kernel = short_kernel\<lparr>k_write := (\<lambda>t fd b. Err EAGAIN)\<rparr>"

definition low_server :: socket_server where
  \<comment> \<open>one complete low-priority package is queued\<close>
  "low_server = sample_server\<lparr>ss_slot := (\<lambda>i. busy_socket\<lparr>so_high := clear_wb_list,
     so_low := \<lparr>wl_bufs = [hello_buffer], wl_tail = 11\<rparr>\<rparr>)\<rparr>"

lemma send_buffers_low_blocked:
  assumes "\<not> list_uncomplete (so_low (ss_slot ss i))"
    and "send_list K i PRIORITY_HIGH l result ss = Some (SOCKET_NONE, l, result, ss1)"
    and "wl_bufs (so_high (ss_slot ss1 i)) = []" "wl_bufs (so_low (ss_slot ss1 i)) \<noteq> []"
    and "send_list K i PRIORITY_LOW l result ss1 = Some (SOCKET_NONE, l, result, ss2)"
    and "wl_bufs (so_low (ss_slot ss2 i)) \<noteq> []" "\<not> list_uncomplete (so_low (ss_slot ss2 i))"
  shows "send_buffers K i l result ss = None"
  using assms by (simp add: send_buffers_def send_low_def send_done_def send_buffer_empty_def)

text \<open>When the first write of the low list would block, the assertion that both lists are empty fails.\<close>

lemma low_list_blocked_aborts: "send_buffer again_kernel 1 0 dummy_message low_server = None"
proof -
  let ?s = "busy_socket\<lparr>so_high := clear_wb_list, so_low := \<lparr>wl_bufs = [hello_buffer], wl_tail = 11\<rparr>, so_dw_lock := True\<rparr>"
  let ?ss = "low_server\<lparr>ss_tick := 1, ss_slot := (ss_slot low_server)(1 := ?s)\<rparr>"
  have lock: "socket_trylock again_kernel 1 0 low_server = (True, 1, ?ss)"
    by (simp add: socket_trylock_def low_server_def upd_slot_def again_kernel_def short_kernel_def sample_server_def)
  have slot: "ss_slot ?ss 1 = ?s" by simp
  have direct: "take_direct 1 ?ss = Some ?ss" by (simp add: take_direct_def busy_socket_def free_socket_def)
  have proto: "so_protocol ?s = PROTOCOL_TCP" by simp
  let ?ss1 = "upd_slot 1 (put_list PRIORITY_HIGH (clear_wb_list\<lparr>wl_tail := NULL\<rparr>)) ?ss"
  have high: "send_list again_kernel 1 PRIORITY_HIGH 1 dummy_message ?ss = Some (SOCKET_NONE, 1, dummy_message, ?ss1)"
    using proto by (simp add: send_list_def, subst send_list_tcp.simps) (simp add: get_list_def clear_wb_list_def Let_def)
  have slot1: "ss_slot ?ss1 1 = ?s" by (simp add: upd_slot_def put_list_def clear_wb_list_def)
  have hello: "mem_at ?ss1 (wb_ptr hello_buffer) (unat (wb_sz hello_buffer)) = Some ''hello''"
    by (simp add: mem_at_def hello_buffer_def low_server_def sample_server_def upd_slot_def)
  let ?ss2 = "?ss1\<lparr>ss_tick := Suc (ss_tick ?ss1), ss_errno := EAGAIN\<rparr>"
  have "write_retry again_kernel 7 ''hello'' ?ss1 = Some (Err EAGAIN, ?ss2)"
    by (subst write_retry.simps) (simp add: sys_write_def sys_def again_kernel_def EAGAIN_def EINTR_def)
  then have low: "send_list again_kernel 1 PRIORITY_LOW 1 dummy_message ?ss1 = Some (SOCKET_NONE, 1, dummy_message, ?ss2)"
    using slot1 proto hello
    by (simp add: send_list_def, subst send_list_tcp.simps)
       (simp add: get_list_def PRIORITY_LOW_def PRIORITY_HIGH_def Let_def hello_buffer_def)
  have slot2: "ss_slot ?ss2 1 = ?s" using slot1 by simp
  have u: "\<not> list_uncomplete (so_low ?s)" by (simp add: list_uncomplete_def hello_buffer_def)
  have "send_buffers again_kernel 1 1 dummy_message ?ss = None"
    by (rule send_buffers_low_blocked [OF _ high _ _ low]) (simp_all only: slot slot1 slot2 u, simp_all add: clear_wb_list_def)
  then show ?thesis by (simp only: send_buffer_def lock direct prod.case bool.case Option.bind.simps)
qed

text \<open>The rest of a direct write is dropped, unsent, by a close that is not a shutdown.\<close>

lemma close_drops_direct_write:
  "\<exists>res ss'. close_socket again_kernel 1 False 0 dummy_message
     (sample_server\<lparr>ss_slot := (\<lambda>i. busy_socket\<lparr>so_high := clear_wb_list, so_dw_buffer := 20, so_dw_size := 4, so_dw_offset := 1\<rparr>)\<rparr>)
     = Some (SOCKET_CLOSE, res, ss') \<and> ss_mem ss' 20 = None \<and> ss_sent ss' 7 = []"
proof -
  let ?s = "busy_socket\<lparr>so_high := clear_wb_list, so_dw_buffer := 20, so_dw_size := 4, so_dw_offset := 1\<rparr>"
  let ?ss = "sample_server\<lparr>ss_slot := (\<lambda>i. ?s)\<rparr>"
  have mem: "sock_mem (ss_mem ?ss) (ss_slot ?ss 1)"
    by (simp add: sock_mem_def sock_bufs_def clear_wb_list_def busy_socket_def free_socket_def sample_server_def)
  then obtain res ss' where f: "force_close again_kernel 1 0 dummy_message ?ss = Some (0, res, ss')"
      "ss_mem ss' = ss_mem ?ss |` (- dead_blocks ?s)" "ss_sent ss' = ss_sent ?ss"
    using force_close_ok [of ?s ?ss 0 1 again_kernel dummy_message] by auto
  have "send_buffer_empty ?s" by (simp add: send_buffer_empty_def busy_socket_def free_socket_def clear_wb_list_def)
  then have "close_socket again_kernel 1 False 0 dummy_message ?ss = Some (SOCKET_CLOSE, res\<lparr>sm_id := 1, sm_opaque := 0\<rparr>, ss')"
    using f(1) by (simp add: close_socket_def close_now_def HASH_ID_def MAX_SOCKET_def MAX_SOCKET_P_def Let_def)
  moreover have "20 \<in> dead_blocks ?s" by (simp add: dead_blocks_def dw_blocks_def)
  ultimately show ?thesis using f(2,3) by (auto simp: sample_server_def)
qed

end
