(* ===== verification/NodeSocket.thy ===== *)
theory NodeSocket
  imports Server SocketControl
begin

text \<open>
  \<open>core/uboss_socket.c\<close>: the events of the socket server become messages of the node, and the
  calls of services become calls of the socket server.

  The node and the socket server keep their blocks in separate heaps here. A block that
  changes hands (received data that becomes the payload of a message, data that a service
  sends) moves from one heap to the other: \<open>adopt\<close> and \<open>lend\<close>.
\<close>

definition UBOSS_SOCKET_TYPE_DATA :: i32 where "UBOSS_SOCKET_TYPE_DATA = 1"
definition UBOSS_SOCKET_TYPE_CONNECT :: i32 where "UBOSS_SOCKET_TYPE_CONNECT = 2"
definition UBOSS_SOCKET_TYPE_CLOSE :: i32 where "UBOSS_SOCKET_TYPE_CLOSE = 3"
definition UBOSS_SOCKET_TYPE_ACCEPT :: i32 where "UBOSS_SOCKET_TYPE_ACCEPT = 4"
definition UBOSS_SOCKET_TYPE_ERROR :: i32 where "UBOSS_SOCKET_TYPE_ERROR = 5"
definition UBOSS_SOCKET_TYPE_UDP :: i32 where "UBOSS_SOCKET_TYPE_UDP = 6"
definition UBOSS_SOCKET_TYPE_WARNING :: i32 where "UBOSS_SOCKET_TYPE_WARNING = 7"

section \<open>Blocks that change hands\<close>

definition adopt :: "sdata \<Rightarrow> node \<Rightarrow> socket_server \<Rightarrow> (ptr \<times> node \<times> socket_server) option" where
  "adopt d n ss =
     (case d of
        NoData \<Rightarrow> Some (NULL, n, ss)
      | Text _ \<Rightarrow> None
      | Block p \<Rightarrow> do {
          bytes \<leftarrow> ss_mem ss p;
          let (q, n1) = node_malloc (Bytes bytes) n;
          Some (q, n1, ss\<lparr>ss_mem := (ss_mem ss)(p := None)\<rparr>) })"

definition lend :: "ptr \<Rightarrow> node \<Rightarrow> socket_server \<Rightarrow> (ptr \<times> node \<times> socket_server) option" where
  "lend p n ss =
     (case nd_mem n p of
        Some (Bytes bytes) \<Rightarrow>
          let (q, ss1) = MALLOC bytes ss in Some (q, n\<lparr>nd_mem := (nd_mem n)(p := None)\<rparr>, ss1)
      | _ \<Rightarrow> None)"

definition send_stack :: "world \<Rightarrow> ptr \<Rightarrow> u32 \<Rightarrow> u32 \<Rightarrow> string \<Rightarrow> node \<Rightarrow> node option" where
  \<comment> \<open>\<open>uboss_send\<close> of a text on the stack: the text is copied and the stack block goes away\<close>
  "send_stack w ctx destination type text n =
     do { let (tmp, n1) = node_malloc (Bytes text) n;
          (_, n2) \<leftarrow> uboss_send w ctx 0 destination type 0 tmp (word_of_nat (length text)) n1;
          node_free tmp n2 }"

section \<open>Events become messages\<close>

definition padding_text :: "sdata \<Rightarrow> string option" where
  \<comment> \<open>the text behind the structure, at most 128 bytes\<close>
  "padding_text d = (case d of NoData \<Rightarrow> Some [] | Text t \<Rightarrow> Some (take 128 t) | Block _ \<Rightarrow> None)"

definition forward_message :: "world \<Rightarrow> i32 \<Rightarrow> bool \<Rightarrow> socket_message \<Rightarrow> node \<Rightarrow> socket_server \<Rightarrow> (node \<times> socket_server) option"
  where
  "forward_message w type padding result n ss =
     do { (text, buffer, n1, ss1) \<leftarrow>
            (if padding then do { t \<leftarrow> padding_text (sm_data result); Some (t, NULL, n, ss) }
             else do { (b, n1, ss1) \<leftarrow> adopt (sm_data result) n ss; Some ([], b, n1, ss1) });
          let sz = sizeof_socket_message + length text;
          let (sm, n2) = node_malloc (Socket \<lparr>sk_type = type, sk_id = sm_id result, sk_ud = sm_ud result,
                                             sk_buffer = buffer\<rparr> text) n1;
          (r, n3) \<leftarrow> uboss_context_push w (ucast (sm_opaque result))
            \<lparr>msg_source = 0, msg_session = 0, msg_data = sm,
             msg_sz = word_of_nat sz OR push_bit MESSAGE_TYPE_SHIFT (ucast PTYPE_SOCKET)\<rparr> n2;
          if r \<noteq> 0 then do { n4 \<leftarrow> node_free buffer n3; n5 \<leftarrow> node_free sm n4; Some (n5, ss1) }
          else Some (n3, ss1) }"

definition socket_case :: "socket_event \<Rightarrow> (i32 \<times> bool) option" where
  \<comment> \<open>the switch of \<open>uboss_socket_poll\<close>: the type of the message and whether it has padding\<close>
  "socket_case e =
     (case e of
        SOCKET_DATA \<Rightarrow> Some (UBOSS_SOCKET_TYPE_DATA, False)
      | SOCKET_CLOSE \<Rightarrow> Some (UBOSS_SOCKET_TYPE_CLOSE, False)
      | SOCKET_OPEN \<Rightarrow> Some (UBOSS_SOCKET_TYPE_CONNECT, True)
      | SOCKET_ERR \<Rightarrow> Some (UBOSS_SOCKET_TYPE_ERROR, True)
      | SOCKET_ACCEPT \<Rightarrow> Some (UBOSS_SOCKET_TYPE_ACCEPT, True)
      | SOCKET_UDP \<Rightarrow> Some (UBOSS_SOCKET_TYPE_UDP, False)
      | SOCKET_WARNING \<Rightarrow> Some (UBOSS_SOCKET_TYPE_WARNING, False)
      | _ \<Rightarrow> None)"

definition uboss_socket_poll :: "world \<Rightarrow> kernel \<Rightarrow> socket_message \<Rightarrow> node \<Rightarrow> socket_server \<Rightarrow>
    (i32 \<times> node \<times> socket_server) option" where
  \<comment> \<open>\<open>raw\<close> is what the local \<open>result\<close> holds before the call\<close>
  "uboss_socket_poll w K raw n ss =
     do { (type, result, mr, ss1) \<leftarrow> socket_server_poll K raw True ss;
          if type = SOCKET_EXIT then Some (0, n, ss1)
          else case socket_case type of
                 None \<Rightarrow> do { n1 \<leftarrow> uboss_error w NULL ''Unknown socket message type -1.'' n; Some (- 1, n1, ss1) }
               | Some (t, padding) \<Rightarrow> do {
                   (n1, ss2) \<leftarrow> forward_message w t padding result n ss1;
                   Some (if mr then - 1 else 1, n1, ss2) } }"

section \<open>Calls of services\<close>

definition uboss_socket_init :: "kernel \<Rightarrow> (nat \<Rightarrow> socket) \<Rightarrow> socket_server \<Rightarrow> (bool \<times> socket_server) option" where
  "uboss_socket_init K raw ss = socket_server_create K raw ss"

definition uboss_socket_exit :: "kernel \<Rightarrow> socket_server \<Rightarrow> socket_server option" where
  "uboss_socket_exit K ss = socket_server_exit K ss"

definition uboss_socket_free :: "kernel \<Rightarrow> socket_server \<Rightarrow> socket_server option" where
  "uboss_socket_free K ss = socket_server_release K ss"

definition uboss_socket_send :: "kernel \<Rightarrow> i32 \<Rightarrow> ptr \<Rightarrow> i32 \<Rightarrow> node \<Rightarrow> socket_server \<Rightarrow> (i32 \<times> node \<times> socket_server) option"
  where
  "uboss_socket_send K sid buffer sz n ss =
     do { (b, n1, ss1) \<leftarrow> lend buffer n ss; (r, ss2) \<leftarrow> socket_server_send K sid b sz ss1; Some (r, n1, ss2) }"

definition uboss_socket_send_lowpriority ::
    "kernel \<Rightarrow> i32 \<Rightarrow> ptr \<Rightarrow> i32 \<Rightarrow> node \<Rightarrow> socket_server \<Rightarrow> (i32 \<times> node \<times> socket_server) option" where
  "uboss_socket_send_lowpriority K sid buffer sz n ss =
     do { (b, n1, ss1) \<leftarrow> lend buffer n ss;
          (r, ss2) \<leftarrow> socket_server_send_lowpriority K sid b sz ss1; Some (r, n1, ss2) }"

definition source_of :: "ptr \<Rightarrow> node \<Rightarrow> u64 option" where
  "source_of ctx n = map_option ucast (uboss_context_handle ctx n)"

definition uboss_socket_listen :: "kernel \<Rightarrow> ptr \<Rightarrow> string option \<Rightarrow> i32 \<Rightarrow> i32 \<Rightarrow> node \<Rightarrow> socket_server \<Rightarrow>
    (i32 \<times> socket_server) option" where
  "uboss_socket_listen K ctx host port backlog n ss =
     do { source \<leftarrow> source_of ctx n; socket_server_listen K source host port backlog ss }"

definition uboss_socket_connect :: "kernel \<Rightarrow> ptr \<Rightarrow> string \<Rightarrow> i32 \<Rightarrow> node \<Rightarrow> socket_server \<Rightarrow> (i32 \<times> socket_server) option"
  where
  "uboss_socket_connect K ctx host port n ss =
     do { source \<leftarrow> source_of ctx n; socket_server_connect K source host port ss }"

definition uboss_socket_bind :: "kernel \<Rightarrow> ptr \<Rightarrow> i32 \<Rightarrow> node \<Rightarrow> socket_server \<Rightarrow> (i32 \<times> socket_server) option" where
  "uboss_socket_bind K ctx fd n ss = do { source \<leftarrow> source_of ctx n; socket_server_bind K source fd ss }"

definition uboss_socket_close :: "kernel \<Rightarrow> ptr \<Rightarrow> i32 \<Rightarrow> node \<Rightarrow> socket_server \<Rightarrow> socket_server option" where
  "uboss_socket_close K ctx sid n ss = do { source \<leftarrow> source_of ctx n; socket_server_close K source sid ss }"

definition uboss_socket_shutdown :: "kernel \<Rightarrow> ptr \<Rightarrow> i32 \<Rightarrow> node \<Rightarrow> socket_server \<Rightarrow> socket_server option" where
  "uboss_socket_shutdown K ctx sid n ss = do { source \<leftarrow> source_of ctx n; socket_server_shutdown K source sid ss }"

definition uboss_socket_start :: "kernel \<Rightarrow> ptr \<Rightarrow> i32 \<Rightarrow> node \<Rightarrow> socket_server \<Rightarrow> socket_server option" where
  "uboss_socket_start K ctx sid n ss = do { source \<leftarrow> source_of ctx n; socket_server_start K source sid ss }"

definition uboss_socket_nodelay :: "kernel \<Rightarrow> i32 \<Rightarrow> socket_server \<Rightarrow> socket_server option" where
  "uboss_socket_nodelay K sid ss = socket_server_nodelay K sid ss"

definition uboss_socket_udp :: "kernel \<Rightarrow> ptr \<Rightarrow> string option \<Rightarrow> i32 \<Rightarrow> node \<Rightarrow> socket_server \<Rightarrow> (i32 \<times> socket_server) option"
  where
  "uboss_socket_udp K ctx addr port n ss = do { source \<leftarrow> source_of ctx n; socket_server_udp K source addr port ss }"

definition uboss_socket_udp_connect :: "kernel \<Rightarrow> i32 \<Rightarrow> string \<Rightarrow> i32 \<Rightarrow> socket_server \<Rightarrow> (i32 \<times> socket_server) option" where
  "uboss_socket_udp_connect K sid addr port ss = socket_server_udp_connect K sid addr port ss"

definition uboss_socket_udp_send :: "kernel \<Rightarrow> i32 \<Rightarrow> string \<Rightarrow> ptr \<Rightarrow> i32 \<Rightarrow> node \<Rightarrow> socket_server \<Rightarrow>
    (i32 \<times> node \<times> socket_server) option" where
  "uboss_socket_udp_send K sid address buffer sz n ss =
     do { (b, n1, ss1) \<leftarrow> lend buffer n ss; (r, ss2) \<leftarrow> socket_server_udp_send K sid address b sz ss1; Some (r, n1, ss2) }"

definition uboss_socket_udp_address :: "uboss_socket_message \<Rightarrow> node \<Rightarrow> (string \<times> nat) option option" where
  \<comment> \<open>the inner \<open>None\<close> is the result \<open>NULL\<close>\<close>
  "uboss_socket_udp_address msg n =
     (if sk_type msg \<noteq> UBOSS_SOCKET_TYPE_UDP then Some None
      else (case nd_mem n (sk_buffer msg) of
              Some (Bytes bytes) \<Rightarrow> socket_server_udp_address bytes (unat (sk_ud msg))
            | _ \<Rightarrow> None))"

end
