(* ===== verification/NodeSocketProps.thy ===== *)
theory NodeSocketProps
  imports NodeSocket ServerProps SocketChecks
begin

text \<open>
  Socket events reach the service that owns the socket, with their data, or are freed when
  that service is gone.
\<close>

lemma socket_size: "(24 :: u64) AND MESSAGE_TYPE_MASK = 24"
  by code_simp

text \<open>C35. Received data reaches the service that owns the socket: the queue of the service grows by
  one message of type \<open>PTYPE_SOCKET\<close> at its end, whose payload is the event structure with the
  identifier and the length of the event and a block with exactly the received bytes, and the
  block leaves the heap of the socket server.\<close>

theorem socket_data_delivered:
  assumes "node_inv n qs" "handle_lookup (hof n) (ucast (sm_opaque result)) (nd_handles n) = Some ctx"
    and "nd_ctx n ctx = Some c" "cx_ref c \<noteq> - 1" "sm_data result = Block p" "ss_mem ss p = Some bytes"
  shows "\<exists>n' qs' q q' m k. forward_message w type False result n ss = Some (n', ss\<lparr>ss_mem := (ss_mem ss)(p := None)\<rparr>) \<and>
    node_inv n' qs' \<and> mq_heap (nd_mq n) (cx_queue c) = Some q \<and> mq_heap (nd_mq n') (cx_queue c) = Some q' \<and>
    mq_content q' = mq_content q @ [m] \<and> mq_in_global q' \<and>
    message_type m = PTYPE_SOCKET \<and> message_size m = word_of_nat sizeof_socket_message \<and>
    nd_mem n' (msg_data m) = Some (Socket k []) \<and> sk_type k = type \<and> sk_id k = sm_id result \<and> sk_ud k = sm_ud result \<and>
    nd_mem n' (sk_buffer k) = Some (Bytes bytes)"
proof -
  obtain b n1 where b: "node_malloc (Bytes bytes) n = (b, n1)" by fastforce
  note M = node_inv_malloc [OF assms(1) b]
  let ?k = "\<lparr>sk_type = type, sk_id = sm_id result, sk_ud = sm_ud result, sk_buffer = b\<rparr>"
  obtain a n2 where a: "node_malloc (Socket ?k []) n1 = (a, n2)" by fastforce
  note M2 = node_inv_malloc [OF M(1) a]
  let ?m = "\<lparr>msg_source = 0, msg_session = 0, msg_data = a,
    msg_sz = word_of_nat sizeof_socket_message OR push_bit MESSAGE_TYPE_SHIFT (ucast PTYPE_SOCKET)\<rparr>"
  have c2: "handle_lookup (hof n2) (ucast (sm_opaque result)) (nd_handles n2) = Some ctx" "nd_ctx n2 ctx = Some c"
    using assms(2,3) M M2 by simp_all
  obtain S' q q' where S': "uboss_context_push w (ucast (sm_opaque result)) ?m n2 = Some (0, n2\<lparr>nd_mq := S'\<rparr>)"
    "mq_heap (nd_mq n2) (cx_queue c) = Some q"
    "mq_cores S' = (mq_cores (nd_mq n2))(cx_queue c \<mapsto> mq_core q')"
    "mq_content q' = mq_content q @ [?m]" "mq_in_global q'"
    "node_inv (n2\<lparr>nd_mq := S'\<rparr>) (if mq_in_global q then qs else qs @ [cx_queue c])"
    by (rule context_push_found [OF M2(1) c2 assms(4)]) blast
  obtain q2 where q2: "mq_heap S' (cx_queue c) = Some q2" "mq_content q2 = mq_content q'" "mq_in_global q2 = mq_in_global q'"
    using mq_heap_of_cores [of S' "cx_queue c" q'] S'(3) by auto
  have run: "forward_message w type False result n ss = Some (n2\<lparr>nd_mq := S'\<rparr>, ss\<lparr>ss_mem := (ss_mem ss)(p := None)\<rparr>)"
    using assms(5,6) S'(1) by (simp add: forward_message_def adopt_def b a)
  have "PTYPE_SOCKET AND 0xff = PTYPE_SOCKET" by (simp add: PTYPE_SOCKET_def)
  then have ty: "message_type ?m = PTYPE_SOCKET" "message_size ?m = word_of_nat sizeof_socket_message"
    using word_parts [OF socket_size, of PTYPE_SOCKET]
    by (simp_all add: message_type_def message_size_def sizeof_socket_message_def)
  have mem: "nd_mem n2 a = Some (Socket ?k [])" "nd_mem n2 b = Some (Bytes bytes)"
    using M(2,3) M2(2,3) by auto
  show ?thesis
    using run S' q2 ty mem M M2
    by (intro exI [of _ "n2\<lparr>nd_mq := S'\<rparr>"] exI [of _ "if mq_in_global q then qs else qs @ [cx_queue c]"] exI [of _ q]
        exI [of _ q2] exI [of _ ?m] exI [of _ ?k]) auto
qed

theorem socket_data_delivered_witness:
  "\<exists>n' q'. forward_message idle_world UBOSS_SOCKET_TYPE_DATA False
      (dummy_message\<lparr>sm_opaque := 0x1000001, sm_data := Block 20\<rparr>) sample_node sample_server =
      Some (n', sample_server\<lparr>ss_mem := (ss_mem sample_server)(20 := None)\<rparr>) \<and>
    mq_heap (nd_mq n') 1 = Some q' \<and> map message_type (mq_content q') = [PTYPE_SOCKET]"
proof -
  have *: "cx_ref sample_ctx \<noteq> - 1" "ss_mem sample_server 20 = Some ''more''"
    by (simp_all add: sample_ctx_def sample_server_def)
  let ?r = "dummy_message\<lparr>sm_opaque := 0x1000001, sm_data := Block 20\<rparr>"
  have "handle_lookup (hof sample_node) (ucast (sm_opaque ?r)) (nd_handles sample_node) = Some 1"
    using sample_lookup by simp
  from socket_data_delivered [OF sample_node_inv this sample_ctx_at(1) *(1) _ *(2), of idle_world UBOSS_SOCKET_TYPE_DATA]
  show ?thesis using sample_queue by (auto simp: sample_ctx_def)
qed

text \<open>An event of a socket whose owner is gone leaves nothing behind: the structure and the
  received data are freed, and no queue of the node changes.\<close>

theorem socket_event_dead_frees:
  assumes "node_inv n qs" "handle_lookup (hof n) (ucast (sm_opaque result)) (nd_handles n) = None"
    and "sm_data result = Block p" "ss_mem ss p = Some bytes"
  shows "\<exists>n'. forward_message w type False result n ss = Some (n', ss\<lparr>ss_mem := (ss_mem ss)(p := None)\<rparr>) \<and>
    nd_mem n' = nd_mem n \<and> nd_mq n' = nd_mq n \<and> nd_ctx n' = nd_ctx n"
proof -
  obtain b n1 where b: "node_malloc (Bytes bytes) n = (b, n1)" by fastforce
  note M = node_inv_malloc [OF assms(1) b]
  let ?k = "\<lparr>sk_type = type, sk_id = sm_id result, sk_ud = sm_ud result, sk_buffer = b\<rparr>"
  obtain a n2 where a: "node_malloc (Socket ?k []) n1 = (a, n2)" by fastforce
  note M2 = node_inv_malloc [OF M(1) a]
  have "handle_lookup (hof n2) (ucast (sm_opaque result)) (nd_handles n2) = None" using assms(2) M M2 by simp
  note push = context_push_missing [OF M2(1) this]
  have ab: "a \<noteq> b" using M(3) M2(2) by auto
  have f: "node_free b n2 = Some (n2\<lparr>nd_mem := (nd_mem n2)(b := None)\<rparr>)"
    using M(3,4) M2(3) by (simp add: node_free_def)
  moreover have "node_free a (n2\<lparr>nd_mem := (nd_mem n2)(b := None)\<rparr>) =
      Some (n2\<lparr>nd_mem := (nd_mem n2)(b := None, a := None)\<rparr>)"
    using M2(3,4) ab by (simp add: node_free_def)
  moreover have "(nd_mem n2)(b := None, a := None) = nd_mem n"
    using M(2,3) M2(2,3) ab by (auto simp: fun_eq_iff)
  ultimately have "forward_message w type False result n ss =
      Some (n2\<lparr>nd_mem := nd_mem n\<rparr>, ss\<lparr>ss_mem := (ss_mem ss)(p := None)\<rparr>)"
    using assms(3,4) by (simp add: forward_message_def adopt_def b a push)
  then show ?thesis using M M2 by auto
qed

theorem socket_event_dead_frees_witness:
  "\<exists>n'. forward_message idle_world UBOSS_SOCKET_TYPE_DATA False
      (dummy_message\<lparr>sm_opaque := 0x1000009, sm_data := Block 20\<rparr>) sample_node sample_server =
      Some (n', sample_server\<lparr>ss_mem := (ss_mem sample_server)(20 := None)\<rparr>) \<and> nd_mem n' = nd_mem sample_node"
proof -
  let ?r = "dummy_message\<lparr>sm_opaque := 0x1000009, sm_data := Block 20\<rparr>"
  have "handle_lookup (hof sample_node) (ucast (sm_opaque ?r)) (nd_handles sample_node) = None"
    using sample_lookup_none by simp
  moreover have "ss_mem sample_server 20 = Some ''more''" by (simp add: sample_server_def)
  ultimately show ?thesis
    using socket_event_dead_frees [OF sample_node_inv, of ?r 20 sample_server "''more''" idle_world UBOSS_SOCKET_TYPE_DATA]
    by auto
qed

end
