(* ===== verification/Start.thy ===== *)
theory Start
  imports NodeSocket
begin

text \<open>
  \<open>core/uboss_start.c\<close>: the start of a node, the weights of the workers, and the sleeping and
  waking of the worker threads. The threads are interleaved: a step is an operation on the
  mutex or the condition variable of \<open>struct monitor\<close>, or a read or write of its flags. What a
  worker dispatches is the scheduling model; here it only matters whether it found a queue.
\<close>

section \<open>Starting a node\<close>

record uboss_config =
  cf_root :: string
  cf_thread :: i32
  cf_harbor :: i32
  cf_daemon :: "string option"
  cf_module_path :: string
  cf_bootstrap :: string
  cf_logservice :: string
  cf_logger :: "string option"
  cf_logpath :: string

text \<open>A program part either calls \<open>exit\<close> or goes on; an abort is \<open>None\<close> as everywhere.\<close>

datatype 'a boot = Exit | Up 'a

definition bootstrap :: "world \<Rightarrow> ptr \<Rightarrow> string \<Rightarrow> node \<Rightarrow> node boot option" where
  \<comment> \<open>a missing word leaves its buffer uninitialised, which has no value\<close>
  "bootstrap w logger cmdline n =
     (case scan_two cmdline of
        (Some name, Some args) \<Rightarrow> do {
          (ctx, n1) \<leftarrow> uboss_context_new w name (Some args) n;
          if ctx = NULL then do {
            n2 \<leftarrow> uboss_error w NULL (''Bootstrap error : '' @ cmdline @ [CHR 0x0A]) n1;
            n3 \<leftarrow> uboss_context_dispatchall w logger n2;
            Some Exit }
          else Some (Up n1) }
      | _ \<Rightarrow> None)"

definition init_modules :: "uboss_config \<Rightarrow> timer \<Rightarrow> node \<Rightarrow> node" where
  \<comment> \<open>the calls of \<open>uboss_harbor_init\<close> to \<open>uboss_timer_init\<close>, with the timer the latter makes\<close>
  "init_modules config T n =
     (let n1 = uboss_harbor_init (cf_harbor config) n
      in n1\<lparr>nd_handles := uboss_handle_init (cf_harbor config), nd_mq := uboss_mq_init,
            nd_mods := uboss_module_init (cf_module_path config), nd_timer := T\<rparr>)"

definition start_up :: "world \<Rightarrow> kernel \<Rightarrow> (nat \<Rightarrow> socket) \<Rightarrow> (string \<Rightarrow> bool) \<Rightarrow> uboss_config \<Rightarrow> timer \<Rightarrow> node \<Rightarrow> socket_server \<Rightarrow>
    (node \<times> bool \<times> socket_server) boot option" where
  \<comment> \<open>\<open>uboss_start\<close> up to the threads; \<open>daemon_init\<close> says whether becoming a daemon fails, and the
     Boolean result whether there is a socket server\<close>
  "start_up w K raw daemon_init config T n ss =
     (if (case cf_daemon config of None \<Rightarrow> False | Some pidfile \<Rightarrow> daemon_init pidfile) then Some Exit
      else do {
        let n1 = init_modules config T n;
        (made, ss1) \<leftarrow> uboss_socket_init K raw ss;
        (ctx, n2) \<leftarrow> uboss_context_new w (cf_logservice config) (cf_logger config) n1;
        if ctx = NULL then Some Exit
        else do {
          b \<leftarrow> bootstrap w ctx (cf_bootstrap config) n2;
          Some (case b of Exit \<Rightarrow> Exit | Up n3 \<Rightarrow> Up (n3, made, ss1)) } })"

definition shut_down :: "world \<Rightarrow> kernel \<Rightarrow> node \<times> socket_server \<Rightarrow> (node \<times> socket_server) option" where
  \<comment> \<open>after the threads have ended; removing the pid file changes neither state\<close>
  "shut_down w K = (\<lambda>(n, ss). do {
     n1 \<leftarrow> uboss_harbor_exit w n;
     ss1 \<leftarrow> uboss_socket_free K ss;
     Some (n1, ss1) })"

definition uboss_start :: "world \<Rightarrow> kernel \<Rightarrow> (nat \<Rightarrow> socket) \<Rightarrow> (string \<Rightarrow> bool) \<Rightarrow>
    (i32 \<Rightarrow> node \<times> socket_server \<Rightarrow> (node \<times> socket_server) option) \<Rightarrow>
    uboss_config \<Rightarrow> timer \<Rightarrow> node \<Rightarrow> socket_server \<Rightarrow> (node \<times> socket_server) boot option" where
  \<comment> \<open>\<open>start\<close> is the run of the threads; a node without socket server dereferences \<open>NULL\<close> in the
     socket thread at once\<close>
  "uboss_start w K raw daemon_init start config T n ss =
     do { b \<leftarrow> start_up w K raw daemon_init config T n ss;
          case b of
            Exit \<Rightarrow> Some Exit
          | Up (n1, made, ss1) \<Rightarrow>
              if \<not> made then None
              else do { r \<leftarrow> start (cf_thread config) (n1, ss1);
                        r1 \<leftarrow> shut_down w K r;
                        Some (Up r1) } }"

section \<open>Workers\<close>

definition weight_table :: "int list" where
  "weight_table =
     [-1, -1, -1, -1, 0, 0, 0, 0,
      1, 1, 1, 1, 1, 1, 1, 1,
      2, 2, 2, 2, 2, 2, 2, 2,
      3, 3, 3, 3, 3, 3, 3, 3]"

definition worker_weight :: "nat \<Rightarrow> int" where
  "worker_weight i = (if i < length weight_table then weight_table ! i else 0)"

text \<open>\<open>pthread_cond_signal\<close> is called when enough workers sleep.\<close>

definition wakeup :: "int \<Rightarrow> int \<Rightarrow> int \<Rightarrow> bool" where
  "wakeup threads busy sleep \<longleftrightarrow> threads - busy \<le> sleep"

datatype worker_pc = Running | Locking | Checking | Waiting | Waking | Leaving | Exited

datatype timer_pc = Ticking | QuitLocking | QuitSetting | QuitCalling | QuitUnlocking | Finished

datatype owner = Worker nat | TimerThread

record monitor =
  mt_count :: nat
  mt_sleep :: int
  mt_quit :: bool
  mt_mutex :: "owner option"
  mt_pc :: "nat \<Rightarrow> worker_pc"
  mt_timer :: timer_pc

definition monitor_init :: "nat \<Rightarrow> monitor" where
  \<comment> \<open>\<open>start\<close>: the monitor of \<open>threads\<close> worker threads\<close>
  "monitor_init threads =
     \<lparr>mt_count = threads, mt_sleep = 0, mt_quit = False, mt_mutex = None, mt_pc = (\<lambda>_. Running), mt_timer = Ticking\<rparr>"

definition at :: "nat \<Rightarrow> worker_pc \<Rightarrow> monitor \<Rightarrow> monitor" where
  "at a pc m = m\<lparr>mt_pc := (mt_pc m)(a := pc)\<rparr>"

definition thread_worker :: "nat \<Rightarrow> bool \<Rightarrow> monitor \<Rightarrow> monitor option" where
  \<comment> \<open>one step of worker \<open>a\<close>, \<open>None\<close> if it has to wait; \<open>found\<close> says whether the dispatch returned a queue\<close>
  "thread_worker a found m =
     (case mt_pc m a of
        Running \<Rightarrow> Some (at a (if mt_quit m then Exited else if found then Running else Locking) m)
      | Locking \<Rightarrow>
          if mt_mutex m = None
          then Some (at a Checking (m\<lparr>mt_mutex := Some (Worker a), mt_sleep := mt_sleep m + 1\<rparr>)) else None
      | Checking \<Rightarrow>
          if \<not> mt_quit m then Some (at a Waiting (m\<lparr>mt_mutex := None\<rparr>)) else Some (at a Leaving m)
      | Waiting \<Rightarrow> None
      | Waking \<Rightarrow> if mt_mutex m = None then Some (at a Leaving (m\<lparr>mt_mutex := Some (Worker a)\<rparr>)) else None
      | Leaving \<Rightarrow> Some (at a Running (m\<lparr>mt_mutex := None, mt_sleep := mt_sleep m - 1\<rparr>))
      | Exited \<Rightarrow> None)"

definition signal_one :: "nat \<Rightarrow> monitor \<Rightarrow> monitor" where
  \<comment> \<open>\<open>pthread_cond_signal\<close>, or a spurious wake-up, of worker \<open>a\<close>\<close>
  "signal_one a m = (if mt_pc m a = Waiting then at a Waking m else m)"

definition broadcast :: "monitor \<Rightarrow> monitor" where
  "broadcast m = m\<lparr>mt_pc := (\<lambda>a. if mt_pc m a = Waiting then Waking else mt_pc m a)\<rparr>"

definition thread_timer :: "bool \<Rightarrow> monitor \<Rightarrow> monitor option" where
  \<comment> \<open>one step of the timer thread; \<open>abort\<close> says that no context is left\<close>
  "thread_timer abort m =
     (case mt_timer m of
        Ticking \<Rightarrow> Some (if abort then m\<lparr>mt_timer := QuitLocking\<rparr> else m)
      | QuitLocking \<Rightarrow>
          if mt_mutex m = None then Some (m\<lparr>mt_mutex := Some TimerThread, mt_timer := QuitSetting\<rparr>) else None
      | QuitSetting \<Rightarrow> Some (m\<lparr>mt_quit := True, mt_timer := QuitCalling\<rparr>)
      | QuitCalling \<Rightarrow> Some ((broadcast m)\<lparr>mt_timer := QuitUnlocking\<rparr>)
      | QuitUnlocking \<Rightarrow> Some (m\<lparr>mt_mutex := None, mt_timer := Finished\<rparr>)
      | Finished \<Rightarrow> None)"

inductive start_step :: "monitor \<Rightarrow> monitor \<Rightarrow> bool" where
  worker: "a < mt_count m \<Longrightarrow> thread_worker a found m = Some m' \<Longrightarrow> start_step m m'"
| timer: "thread_timer abort m = Some m' \<Longrightarrow> start_step m m'"
| signalled: "a < mt_count m \<Longrightarrow> wakeup (int (mt_count m)) busy (mt_sleep m) \<Longrightarrow> start_step m (signal_one a m)"
| spurious: "a < mt_count m \<Longrightarrow> start_step m (signal_one a m)"

section \<open>The invariant of the threads\<close>

definition asleep :: "worker_pc \<Rightarrow> bool" where
  "asleep pc \<longleftrightarrow> pc \<in> {Checking, Waiting, Waking, Leaving}"

definition sleepers :: "monitor \<Rightarrow> nat set" where
  "sleepers m = {a. a < mt_count m \<and> asleep (mt_pc m a)}"

definition start_inv :: "monitor \<Rightarrow> bool" where
  "start_inv m \<longleftrightarrow>
     (\<forall>a. mt_mutex m = Some (Worker a) \<longleftrightarrow> mt_pc m a \<in> {Checking, Leaving}) \<and>
     (mt_mutex m = Some TimerThread \<longleftrightarrow> mt_timer m \<in> {QuitSetting, QuitCalling, QuitUnlocking}) \<and>
     (mt_quit m \<longleftrightarrow> mt_timer m \<in> {QuitCalling, QuitUnlocking, Finished}) \<and>
     (mt_timer m \<in> {QuitUnlocking, Finished} \<longrightarrow> (\<forall>a. mt_pc m a \<noteq> Waiting)) \<and>
     (\<forall>a. mt_count m \<le> a \<longrightarrow> mt_pc m a = Running) \<and>
     mt_sleep m = int (card (sleepers m))"

lemma sleepers_at:
  assumes "a < mt_count m"
  shows "int (card (sleepers (at a pc m))) =
    int (card (sleepers m)) - (if asleep (mt_pc m a) then 1 else 0) + (if asleep pc then 1 else 0)"
proof -
  have fin: "finite (sleepers m)" by (simp add: sleepers_def)
  have "sleepers (at a pc m) = (if asleep pc then insert a (sleepers m) else sleepers m - {a})"
    using assms by (auto simp: sleepers_def at_def)
  moreover have "a \<in> sleepers m \<longleftrightarrow> asleep (mt_pc m a)" using assms by (simp add: sleepers_def)
  moreover have "a \<in> sleepers m \<Longrightarrow> card (sleepers m) = Suc (card (sleepers m - {a}))" using fin by (metis card.remove)
  ultimately show ?thesis using fin by (auto simp: card_insert_if)
qed

lemma sleepers_frame:
  "mt_count m' = mt_count m \<Longrightarrow> mt_pc m' = mt_pc m \<Longrightarrow> sleepers m' = sleepers m"
  by (simp add: sleepers_def)

lemma start_inv_at:
  assumes inv: "start_inv m" and a: "a < mt_count m"
    and mtx: "x = Some (Worker a) \<longleftrightarrow> pc \<in> {Checking, Leaving}"
      "\<forall>b. b \<noteq> a \<longrightarrow> (x = Some (Worker b) \<longleftrightarrow> mt_mutex m = Some (Worker b))"
      "x = Some TimerThread \<longleftrightarrow> mt_mutex m = Some TimerThread"
    and wait: "pc = Waiting \<longrightarrow> mt_timer m \<notin> {QuitUnlocking, Finished}"
    and slp: "z = mt_sleep m - (if asleep (mt_pc m a) then 1 else 0) + (if asleep pc then 1 else 0)"
  shows "start_inv (at a pc (m\<lparr>mt_mutex := x, mt_sleep := z\<rparr>))"
proof -
  let ?m = "m\<lparr>mt_mutex := x, mt_sleep := z\<rparr>"
  have "int (card (sleepers (at a pc ?m))) =
      int (card (sleepers ?m)) - (if asleep (mt_pc ?m a) then 1 else 0) + (if asleep pc then 1 else 0)"
    using a by (intro sleepers_at) simp
  moreover have "sleepers ?m = sleepers m" by (rule sleepers_frame) simp_all
  ultimately have "mt_sleep (at a pc ?m) = int (card (sleepers (at a pc ?m)))"
    using inv slp by (simp add: start_inv_def at_def)
  moreover have "(x = Some (Worker b)) = (mt_pc (at a pc ?m) b \<in> {Checking, Leaving})" for b
    using inv mtx(1,2) by (cases "b = a") (simp_all add: start_inv_def at_def)
  ultimately show ?thesis
    using inv mtx(3) wait a unfolding start_inv_def by (auto simp: at_def)
qed

lemma monitor_same: "m\<lparr>mt_mutex := mt_mutex m, mt_sleep := mt_sleep m\<rparr> = m"
  by simp

lemmas start_inv_move = start_inv_at [where x = "mt_mutex m" and z = "mt_sleep m" and m = m for m, unfolded monitor_same]

lemma worker_step_inv:
  assumes inv: "start_inv m" and a: "a < mt_count m" and "thread_worker a found m = Some m'"
  shows "start_inv m'"
proof -
  note S = start_inv_at [OF inv a]
  have I: "(mt_mutex m = Some (Worker a)) = (mt_pc m a \<in> {Checking, Leaving})"
    "mt_mutex m = Some TimerThread \<longleftrightarrow> mt_timer m \<in> {QuitSetting, QuitCalling, QuitUnlocking}"
    "mt_quit m \<longleftrightarrow> mt_timer m \<in> {QuitCalling, QuitUnlocking, Finished}"
    using inv by (auto simp: start_inv_def)
  show ?thesis
  proof (cases "mt_pc m a")
    case Running
    then have "m' = at a (if mt_quit m then Exited else if found then Running else Locking) m"
      using assms(3) by (simp add: thread_worker_def)
    moreover have "start_inv (at a (if mt_quit m then Exited else if found then Running else Locking) m)"
      using I Running by (intro start_inv_move [OF inv a]) (auto simp: asleep_def)
    ultimately show ?thesis by simp
  next
    case Locking
    then have "mt_mutex m = None" "m' = at a Checking (m\<lparr>mt_mutex := Some (Worker a), mt_sleep := mt_sleep m + 1\<rparr>)"
      using assms(3) by (auto simp: thread_worker_def split: if_splits)
    then show ?thesis using I Locking by (auto intro!: S simp: asleep_def)
  next
    case Checking
    show ?thesis
    proof (cases "mt_quit m")
      case True
      then have "m' = at a Leaving m" using assms(3) Checking by (simp add: thread_worker_def)
      moreover have "start_inv (at a Leaving m)"
        using I Checking by (intro start_inv_move [OF inv a]) (auto simp: asleep_def)
      ultimately show ?thesis by simp
    next
      case False
      then have "m' = at a Waiting (m\<lparr>mt_mutex := None, mt_sleep := mt_sleep m\<rparr>)"
        using assms(3) Checking by (simp add: thread_worker_def)
      moreover have "start_inv (at a Waiting (m\<lparr>mt_mutex := None, mt_sleep := mt_sleep m\<rparr>))"
        using I Checking False by (intro S) (auto simp: asleep_def)
      ultimately show ?thesis by simp
    qed
  next
    case Waking
    then have free: "mt_mutex m = None" and "m' = at a Leaving (m\<lparr>mt_mutex := Some (Worker a), mt_sleep := mt_sleep m\<rparr>)"
      using assms(3) by (auto simp: thread_worker_def split: if_splits)
    moreover have "start_inv (at a Leaving (m\<lparr>mt_mutex := Some (Worker a), mt_sleep := mt_sleep m\<rparr>))"
      using I Waking free by (intro S) (auto simp: asleep_def)
    ultimately show ?thesis by simp
  next
    case Leaving
    then have "m' = at a Running (m\<lparr>mt_mutex := None, mt_sleep := mt_sleep m - 1\<rparr>)"
      using assms(3) by (simp add: thread_worker_def)
    then show ?thesis using I Leaving by (auto intro!: S simp: asleep_def)
  qed (use assms(3) in \<open>simp_all add: thread_worker_def\<close>)
qed

lemma signal_inv:
  assumes inv: "start_inv m" and a: "a < mt_count m"
  shows "start_inv (signal_one a m)"
proof (cases "mt_pc m a = Waiting")
  case True
  then have "(mt_mutex m = Some (Worker a)) = False" using inv by (simp add: start_inv_def)
  then have "start_inv (at a Waking (m\<lparr>mt_mutex := mt_mutex m, mt_sleep := mt_sleep m\<rparr>))"
    using True by (intro start_inv_at [OF inv a]) (auto simp: asleep_def)
  then show ?thesis using True by (simp add: signal_one_def monitor_same)
qed (simp add: signal_one_def inv)

lemma timer_step_inv:
  assumes inv: "start_inv m" and step: "thread_timer abort m = Some m'"
  shows "start_inv m'"
proof -
  have fr: "sleepers (m\<lparr>mt_timer := t\<rparr>) = sleepers m" "sleepers (m\<lparr>mt_mutex := x, mt_timer := t\<rparr>) = sleepers m"
    "sleepers (m\<lparr>mt_quit := b, mt_timer := t\<rparr>) = sleepers m" for t x b
    by (rule sleepers_frame; simp)+
  have br: "sleepers ((broadcast m)\<lparr>mt_timer := t\<rparr>) = sleepers m" for t
    by (auto simp: sleepers_def broadcast_def asleep_def)
  show ?thesis
  proof (cases "mt_timer m")
    case QuitCalling
    then have "m' = (broadcast m)\<lparr>mt_timer := QuitUnlocking\<rparr>" using step by (simp add: thread_timer_def)
    then show ?thesis using inv QuitCalling br [of QuitUnlocking] by (auto simp: start_inv_def broadcast_def)
  qed (use inv step fr in \<open>auto simp: start_inv_def thread_timer_def split: if_splits\<close>)
qed

interpretation threads: safe_system "\<lambda>m. m = monitor_init n" start_step "\<lambda>m. mt_count m = n \<and> start_inv m" for n
proof unfold_locales
  fix m
  assume "m = monitor_init n"
  then show "mt_count m = n \<and> start_inv m" by (simp add: start_inv_def monitor_init_def sleepers_def asleep_def)
next
  fix m m'
  assume "mt_count m = n \<and> start_inv m" "start_step m m'"
  moreover have "mt_count m' = mt_count m" if "start_step m m'"
    using that by cases (auto simp: thread_worker_def thread_timer_def signal_one_def broadcast_def at_def
        split: worker_pc.splits timer_pc.splits if_splits)
  ultimately show "mt_count m' = n \<and> start_inv m'"
    by (auto elim!: start_step.cases intro: worker_step_inv timer_step_inv signal_inv)
qed

lemma timer_stays_finished:
  assumes "start_step\<^sup>*\<^sup>* m m'" "mt_timer m = Finished"
  shows "mt_timer m' = Finished"
  using assms
proof (induction rule: rtranclp_induct)
  case (step y z)
  from step(2) step(3) [OF step(4)] show ?case
    by cases (auto simp: thread_worker_def thread_timer_def signal_one_def at_def split: worker_pc.splits if_splits)
qed

text \<open>C36. The end of the node wakes every worker: once the timer thread has set the quit flag and
  broadcast, no worker waits on the condition variable, now or later, in any interleaving of
  workers, signals and spurious wake-ups; and the sleep counter is at all times the number of
  workers between taking and giving back the mutex.\<close>

theorem quit_wakes_all:
  assumes "reachable (\<lambda>m. m = monitor_init n) start_step m" "start_step\<^sup>*\<^sup>* m m'"
  shows "(mt_timer m \<in> {QuitUnlocking, Finished} \<longrightarrow> (\<forall>a<n. mt_pc m a \<noteq> Waiting)) \<and>
    (mt_timer m = Finished \<longrightarrow> mt_timer m' = Finished \<and> (\<forall>a<n. mt_pc m' a \<noteq> Waiting)) \<and>
    mt_sleep m = int (card {a. a < n \<and> mt_pc m a \<in> {Checking, Waiting, Waking, Leaving}})"
proof -
  have inv: "mt_count m = n \<and> start_inv m" using threads.reachable_inv [OF assms(1)] .
  have inv': "start_inv m'" using threads.steps_inv [OF assms(2) inv] by blast
  note timer_stays_finished [OF assms(2)]
  then show ?thesis using inv inv' by (auto simp: start_inv_def sleepers_def asleep_def)
qed

theorem quit_wakes_all_witness:
  "\<exists>m :: monitor. mt_timer m = Finished \<and> (\<forall>a<2. mt_pc m a \<noteq> Waiting) \<and> mt_pc m 0 = Waking \<and> mt_sleep m = 1"
proof -
  let ?m1 = "at 0 Waiting (monitor_init 2\<lparr>mt_mutex := None, mt_sleep := 1\<rparr>)"
  let ?m2 = "?m1\<lparr>mt_timer := QuitLocking\<rparr>"
  let ?m3 = "?m1\<lparr>mt_timer := QuitSetting, mt_mutex := Some TimerThread\<rparr>"
  let ?m4 = "?m1\<lparr>mt_timer := QuitCalling, mt_mutex := Some TimerThread, mt_quit := True\<rparr>"
  let ?m5 = "at 0 Waking (?m1\<lparr>mt_timer := QuitUnlocking, mt_mutex := Some TimerThread, mt_quit := True\<rparr>)"
  let ?m6 = "at 0 Waking (?m1\<lparr>mt_timer := Finished, mt_quit := True\<rparr>)"
  have r0: "reachable (\<lambda>m. m = monitor_init 2) start_step (monitor_init 2)" by (rule reachable.intros(1)) simp
  have "thread_worker 0 False (monitor_init 2) = Some (at 0 Locking (monitor_init 2))"
    by (simp add: thread_worker_def monitor_init_def)
  note s1 = start_step.worker [OF _ this]
  have "thread_worker 0 False (at 0 Locking (monitor_init 2)) =
      Some (at 0 Checking (monitor_init 2\<lparr>mt_mutex := Some (Worker 0), mt_sleep := 1\<rparr>))"
    by (simp add: thread_worker_def monitor_init_def at_def)
  note s2 = start_step.worker [OF _ this]
  have "thread_worker 0 False (at 0 Checking (monitor_init 2\<lparr>mt_mutex := Some (Worker 0), mt_sleep := 1\<rparr>)) = Some ?m1"
    by (simp add: thread_worker_def monitor_init_def at_def)
  note s3 = start_step.worker [OF _ this]
  have "thread_timer True ?m1 = Some ?m2" by (simp add: thread_timer_def monitor_init_def at_def)
  note s4 = start_step.timer [OF this]
  have "thread_timer True ?m2 = Some ?m3" by (simp add: thread_timer_def monitor_init_def at_def)
  note s5 = start_step.timer [OF this]
  have "thread_timer True ?m3 = Some ?m4" by (simp add: thread_timer_def monitor_init_def at_def)
  note s6 = start_step.timer [OF this]
  have "thread_timer True ?m4 = Some ?m5"
    by (simp add: thread_timer_def monitor_init_def at_def broadcast_def fun_eq_iff)
  note s7 = start_step.timer [OF this]
  have "thread_timer True ?m5 = Some ?m6" by (simp add: thread_timer_def monitor_init_def at_def)
  note s8 = start_step.timer [OF this]
  have two: "0 < mt_count (monitor_init 2)" "0 < mt_count (at 0 Locking (monitor_init 2))"
    "0 < mt_count (at 0 Checking (monitor_init 2\<lparr>mt_mutex := Some (Worker 0), mt_sleep := 1\<rparr>))"
    by (simp_all add: monitor_init_def at_def)
  note r1 = reachable.intros(2) [OF r0 s1 [OF two(1)]]
  note r2 = reachable.intros(2) [OF r1 s2 [OF two(2)]]
  note r3 = reachable.intros(2) [OF r2 s3 [OF two(3)]]
  note r6 = reachable.intros(2) [OF reachable.intros(2) [OF reachable.intros(2) [OF r3 s4] s5] s6]
  note r8 = reachable.intros(2) [OF reachable.intros(2) [OF r6 s7] s8]
  have "mt_timer ?m6 = Finished \<and> (\<forall>a<2. mt_pc ?m6 a \<noteq> Waiting) \<and> mt_pc ?m6 0 = Waking \<and> mt_sleep ?m6 = 1"
    using quit_wakes_all [OF r8 rtranclp.rtrancl_refl] by (simp add: at_def monitor_init_def)
  then show ?thesis by (rule exI)
qed

section \<open>The workers end\<close>

definition to_go :: "worker_pc \<Rightarrow> nat" where
  \<comment> \<open>how many steps a worker takes to leave its loop once the quit flag is up\<close>
  "to_go pc = (case pc of Locking \<Rightarrow> 4 | Checking \<Rightarrow> 3 | Waiting \<Rightarrow> 4 | Waking \<Rightarrow> 3 | Leaving \<Rightarrow> 2 | Running \<Rightarrow> 1 | Exited \<Rightarrow> 0)"

definition all_to_go :: "monitor \<Rightarrow> nat" where
  "all_to_go m = (\<Sum>a<mt_count m. to_go (mt_pc m a))"

inductive worker_step :: "monitor \<Rightarrow> monitor \<Rightarrow> bool" where
  "a < mt_count m \<Longrightarrow> thread_worker a found m = Some m' \<Longrightarrow> worker_step m m'"

lemma all_to_go_at:
  assumes "a < mt_count m" "to_go pc < to_go (mt_pc m a)" "mt_count m' = mt_count m" "mt_pc m' = (mt_pc m)(a := pc)"
  shows "all_to_go m' < all_to_go m"
proof -
  let ?f = "\<lambda>b. to_go (mt_pc m b)" and ?g = "\<lambda>b. to_go (mt_pc m' b)"
  have "all_to_go m = ?f a + sum ?f ({..<mt_count m} - {a})"
    unfolding all_to_go_def using assms(1) by (intro sum.remove) auto
  moreover have "all_to_go m' = ?g a + sum ?g ({..<mt_count m} - {a})"
    unfolding all_to_go_def using assms(1,3) by (simp add: sum.remove [of _ a])
  moreover have "sum ?g ({..<mt_count m} - {a}) = sum ?f ({..<mt_count m} - {a})"
    by (intro sum.cong) (auto simp: assms(4))
  ultimately show ?thesis using assms(2,4) by simp
qed

lemma worker_step_counts:
  assumes "worker_step m m'" "mt_quit m"
  shows "all_to_go m' < all_to_go m \<and> mt_quit m' \<and> mt_count m' = mt_count m"
  using assms(1)
proof cases
  case (1 a found)
  have "mt_pc m a \<notin> {Waiting, Exited}" using 1(2) by (auto simp: thread_worker_def)
  then obtain pc where pc: "mt_pc m' = (mt_pc m)(a := pc)" "to_go pc < to_go (mt_pc m a)"
    and fr: "mt_count m' = mt_count m" "mt_quit m'"
    using 1(2) assms(2) by (auto simp: thread_worker_def at_def to_go_def split: worker_pc.splits if_splits)
  show ?thesis using all_to_go_at [OF 1(1) pc(2) fr(1) pc(1)] fr by simp
qed

lemma worker_steps_counts:
  "(worker_step ^^ k) m m' \<Longrightarrow> mt_quit m \<Longrightarrow> all_to_go m' + k \<le> all_to_go m \<and> mt_quit m' \<and> mt_count m' = mt_count m"
proof (induction k arbitrary: m')
  case (Suc k)
  then obtain m1 where "(worker_step ^^ k) m m1" "worker_step m1 m'" by auto
  with Suc(1) [OF this(1) Suc(3)] worker_step_counts [of m1 m'] show ?case by simp
qed simp

lemma all_to_go_le: "all_to_go m \<le> 4 * mt_count m"
proof -
  have "all_to_go m \<le> (\<Sum>a<mt_count m. 4)"
    unfolding all_to_go_def by (intro sum_mono) (auto simp: to_go_def split: worker_pc.splits)
  then show ?thesis by simp
qed

lemma someone_can_step:
  assumes inv: "start_inv m" and fin: "mt_timer m = Finished" and a: "a < mt_count m" "mt_pc m a \<noteq> Exited"
  shows "\<exists>m'. worker_step m m'"
proof -
  have free: "mt_mutex m \<noteq> Some TimerThread" and nowait: "mt_pc m b \<noteq> Waiting"
    and own: "mt_mutex m = Some (Worker b) \<longleftrightarrow> mt_pc m b \<in> {Checking, Leaving}"
    and out: "mt_count m \<le> b \<longrightarrow> mt_pc m b = Running" for b
    using inv fin by (auto simp: start_inv_def)
  obtain b where "b < mt_count m" "thread_worker b False m \<noteq> None"
  proof (cases "mt_mutex m")
    case None
    then have "thread_worker a False m \<noteq> None" using nowait [of a] a by (simp add: thread_worker_def split: worker_pc.splits)
    then show ?thesis using a(1) that by blast
  next
    case (Some w)
    then obtain b where b: "w = Worker b" using free by (cases w) auto
    then have "mt_pc m b \<in> {Checking, Leaving}" using own [of b] Some by simp
    moreover from this have "b < mt_count m" using out [of b] by (cases "mt_count m \<le> b") auto
    ultimately show ?thesis using that [of b] by (auto simp: thread_worker_def)
  qed
  then show ?thesis by (auto intro: worker_step.intros)
qed

lemma worker_steps_are_steps: "(worker_step ^^ k) m m' \<Longrightarrow> start_step\<^sup>*\<^sup>* m m'"
proof (induction k arbitrary: m')
  case (Suc k)
  then obtain m1 where "start_step\<^sup>*\<^sup>* m m1" "worker_step m1 m'" by auto
  then show ?case by (meson rtranclp.rtrancl_into_rtrancl start_step.worker worker_step.cases)
qed simp


lemma one_sleeper_quits:
  "\<exists>m. reachable (\<lambda>m. m = monitor_init 1) start_step m \<and> mt_timer m = Finished \<and> mt_pc m 0 = Running"
proof -
  let ?m0 = "monitor_init 1"
  let ?m1 = "?m0\<lparr>mt_timer := QuitLocking\<rparr>"
  let ?m2 = "?m0\<lparr>mt_timer := QuitSetting, mt_mutex := Some TimerThread\<rparr>"
  let ?m3 = "?m0\<lparr>mt_timer := QuitCalling, mt_mutex := Some TimerThread, mt_quit := True\<rparr>"
  let ?m4 = "?m0\<lparr>mt_timer := QuitUnlocking, mt_mutex := Some TimerThread, mt_quit := True\<rparr>"
  let ?m5 = "?m0\<lparr>mt_timer := Finished, mt_quit := True\<rparr>"
  have t: "thread_timer True ?m0 = Some ?m1" "thread_timer True ?m1 = Some ?m2" "thread_timer True ?m2 = Some ?m3"
    "thread_timer True ?m3 = Some ?m4" "thread_timer True ?m4 = Some ?m5"
    by (simp_all add: thread_timer_def monitor_init_def broadcast_def)
  note s = t [THEN start_step.timer]
  have r: "reachable (\<lambda>m. m = ?m0) start_step ?m0" by (rule reachable.intros(1)) simp
  note r [THEN reachable.intros(2), OF s(1), THEN reachable.intros(2), OF s(2), THEN reachable.intros(2), OF s(3),
      THEN reachable.intros(2), OF s(4), THEN reachable.intros(2), OF s(5)]
  then show ?thesis by (intro exI [of _ ?m5]) (simp add: monitor_init_def)
qed


end
