(* ===== verification/HashId.thy ===== *)
theory HashId
  imports Prelude
begin

text \<open>
  \<open>module/gate/hashid.h\<close>: the hash of socket ids to connection indices of the gate. The nodes
  are the elements of the array \<open>id\<close>; a pointer to a node is its index. A pointer outside the
  array, a chain that never ends and a failed assertion make the result \<open>None\<close>. The table
  refines a finite map from ids to indices (\<open>hid_map\<close>).
\<close>

section \<open>The table\<close>

record hashid_node =
  hn_id :: i32
  hn_next :: "nat option"

record hashid =
  hi_hashmod :: nat
  hi_cap :: nat
  hi_count :: int
  hi_id :: "hashid_node list"
  hi_hash :: "nat option list"

definition free_node :: hashid_node where
  "free_node = \<lparr>hn_id = - 1, hn_next = None\<rparr>"

function hash_cap :: "nat \<Rightarrow> nat \<Rightarrow> nat" where
  \<comment> \<open>the loop of \<open>hashid_init\<close> that doubles the number of chains\<close>
  "hash_cap hashcap mx = (if hashcap = 0 \<or> mx \<le> hashcap then hashcap else hash_cap (hashcap * 2) mx)"
  by pat_completeness auto
termination
  by (relation "measure (\<lambda>(c, m). m - c)") auto

declare hash_cap.simps [simp del]

definition hashid_init :: "nat \<Rightarrow> hashid" where
  "hashid_init mx =
     (let hashcap = hash_cap 16 mx
      in \<lparr>hi_hashmod = hashcap - 1, hi_cap = mx, hi_count = 0, hi_id = replicate mx free_node,
          hi_hash = replicate hashcap None\<rparr>)"

definition hashid_clear :: hashid where
  "hashid_clear = \<lparr>hi_hashmod = 1, hi_cap = 0, hi_count = 0, hi_id = [], hi_hash = []\<rparr>"

definition node_at :: "hashid_node list \<Rightarrow> nat \<Rightarrow> hashid_node option" where
  "node_at ids p = (if p < length ids then Some (ids ! p) else None)"

definition hid_slot :: "hashid \<Rightarrow> i32 \<Rightarrow> nat" where
  \<comment> \<open>\<open>id & hi->hashmod\<close>\<close>
  "hid_slot hi sid = unat (sid AND word_of_nat (hi_hashmod hi))"

definition hid_head :: "hashid \<Rightarrow> i32 \<Rightarrow> nat option option" where
  "hid_head hi sid = (if hid_slot hi sid < length (hi_hash hi) then Some (hi_hash hi ! hid_slot hi sid) else None)"

partial_function (option) chain_find :: "hashid_node list \<Rightarrow> i32 \<Rightarrow> nat option \<Rightarrow> nat option option" where
  "chain_find ids sid c =
     (case c of
        None \<Rightarrow> Some None
      | Some p \<Rightarrow> do { nd \<leftarrow> node_at ids p;
                      if hn_id nd = sid then Some (Some p) else chain_find ids sid (hn_next nd) })"

definition hashid_lookup :: "hashid \<Rightarrow> i32 \<Rightarrow> nat option option" where
  \<comment> \<open>the inner \<open>None\<close> is the result \<open>-1\<close>\<close>
  "hashid_lookup hi sid = do { c \<leftarrow> hid_head hi sid; chain_find (hi_id hi) sid c }"

partial_function (option) chain_prev :: "hashid_node list \<Rightarrow> i32 \<Rightarrow> nat \<Rightarrow> (nat \<times> nat) option option" where
  \<comment> \<open>the loop of \<open>hashid_remove\<close>: the node before the one with the id, and that one\<close>
  "chain_prev ids sid c =
     do { nd \<leftarrow> node_at ids c;
          case hn_next nd of
            None \<Rightarrow> Some None
          | Some t \<Rightarrow> do { nt \<leftarrow> node_at ids t;
                          if hn_id nt = sid then Some (Some (c, t)) else chain_prev ids sid t } }"

definition hid_release :: "nat \<Rightarrow> hashid \<Rightarrow> nat option \<times> hashid" where
  \<comment> \<open>the label \<open>_clear\<close>\<close>
  "hid_release p hi = (Some p, hi\<lparr>hi_id := (hi_id hi)[p := free_node], hi_count := hi_count hi - 1\<rparr>)"

definition hashid_remove :: "hashid \<Rightarrow> i32 \<Rightarrow> (nat option \<times> hashid) option" where
  "hashid_remove hi sid =
     do { c \<leftarrow> hid_head hi sid;
          case c of
            None \<Rightarrow> Some (None, hi)
          | Some p \<Rightarrow> do {
              nd \<leftarrow> node_at (hi_id hi) p;
              if hn_id nd = sid
              then Some (hid_release p (hi\<lparr>hi_hash := (hi_hash hi)[hid_slot hi sid := hn_next nd]\<rparr>))
              else do {
                r \<leftarrow> chain_prev (hi_id hi) sid p;
                Some (case r of
                        None \<Rightarrow> (None, hi)
                      | Some (q, t) \<Rightarrow>
                          hid_release t (hi\<lparr>hi_id := (hi_id hi)[q := (hi_id hi ! q)\<lparr>hn_next := hn_next (hi_id hi ! t)\<rparr>]\<rparr>)) } } }"

fun free_scan :: "hashid_node list \<Rightarrow> nat \<Rightarrow> i32 \<Rightarrow> nat \<Rightarrow> nat \<Rightarrow> nat option option" where
  \<comment> \<open>the loop of \<open>hashid_insert\<close>, \<open>n\<close> rounds left; the sum wraps around and \<open>%\<close> of a negative
     number is negative or zero, so the index may be outside the array\<close>
  "free_scan ids cap sid i 0 = Some None"
| "free_scan ids cap sid i (Suc n) =
     (let s = sint (word_of_nat i + sid);
          index = (if 0 \<le> s then s mod int cap else - ((- s) mod int cap))
      in if index < 0 then None
         else do { nd \<leftarrow> node_at ids (nat index);
                   if hn_id nd = - 1 then Some (Some (nat index)) else free_scan ids cap sid (Suc i) n })"

definition hashid_insert :: "hashid \<Rightarrow> i32 \<Rightarrow> (nat \<times> hashid) option" where
  "hashid_insert hi sid =
     do { r \<leftarrow> free_scan (hi_id hi) (hi_cap hi) sid 0 (hi_cap hi);
          p \<leftarrow> r;
          guard (hn_next (hi_id hi ! p) = None);
          c \<leftarrow> hid_head hi sid;
          Some (p, hi\<lparr>hi_count := hi_count hi + 1, hi_id := (hi_id hi)[p := \<lparr>hn_id = sid, hn_next = c\<rparr>],
                      hi_hash := (hi_hash hi)[hid_slot hi sid := Some p]\<rparr>) }"

definition hashid_full :: "hashid \<Rightarrow> bool" where
  "hashid_full hi \<longleftrightarrow> hi_count hi = int (hi_cap hi)"

section \<open>The map of the table and its invariant\<close>

definition hid_map :: "hashid \<Rightarrow> i32 \<Rightarrow> nat option" where
  "hid_map hi sid = (if sid = - 1 then None else find (\<lambda>p. hn_id (hi_id hi ! p) = sid) [0..<length (hi_id hi)])"

fun chain :: "hashid_node list \<Rightarrow> nat option \<Rightarrow> nat list \<Rightarrow> bool" where
  "chain ids c [] \<longleftrightarrow> c = None"
| "chain ids c (p # ps) \<longleftrightarrow> c = Some p \<and> p < length ids \<and> chain ids (hn_next (ids ! p)) ps"

definition in_use :: "hashid_node list \<Rightarrow> nat set" where
  "in_use ids = {p. p < length ids \<and> hn_id (ids ! p) \<noteq> - 1}"

definition chains_ok :: "hashid \<Rightarrow> (nat \<Rightarrow> nat list) \<Rightarrow> bool" where
  \<comment> \<open>the chains \<open>X h\<close> hold exactly the used nodes, each in the chain of its id\<close>
  "chains_ok hi X \<longleftrightarrow>
     (\<forall>h<length (hi_hash hi). chain (hi_id hi) (hi_hash hi ! h) (X h) \<and> distinct (X h) \<and>
        set (X h) = {p \<in> in_use (hi_id hi). hid_slot hi (hn_id (hi_id hi ! p)) = h})"

definition hashid_ok :: "hashid \<Rightarrow> bool" where
  "hashid_ok hi \<longleftrightarrow>
     length (hi_id hi) = hi_cap hi \<and> hi_hashmod hi < length (hi_hash hi) \<and>
     (\<exists>X. chains_ok hi X) \<and>
     inj_on (\<lambda>p. hn_id (hi_id hi ! p)) (in_use (hi_id hi)) \<and>
     (\<forall>p<length (hi_id hi). hn_id (hi_id hi ! p) = - 1 \<longrightarrow> hn_next (hi_id hi ! p) = None) \<and>
     hi_count hi = int (card (in_use (hi_id hi)))"

section \<open>Chains\<close>

lemma find_unique:
  assumes "p \<in> set xs" "P p" "\<And>q. q \<in> set xs \<Longrightarrow> P q \<Longrightarrow> q = p"
  shows "find P xs = Some p"
  using assms(2) assms(1) assms(3)
proof (induction xs)
  case (Cons x xs)
  show ?case
  proof (cases "P x")
    case True
    then show ?thesis using Cons.prems(3) [of x] by simp
  next
    case False
    moreover from this have "p \<in> set xs" using Cons.prems(1,2) by auto
    moreover from this have "find P xs = Some p"
      by (intro Cons.IH) (simp_all add: Cons.prems(1), rule Cons.prems(3), simp_all)
    ultimately show ?thesis by simp
  qed
qed simp

lemma chain_cong:
  "length ids' = length ids \<Longrightarrow> (\<And>p. p \<in> set xs \<Longrightarrow> hn_next (ids' ! p) = hn_next (ids ! p)) \<Longrightarrow>
   chain ids' c xs = chain ids c xs"
  by (induction xs arbitrary: c) auto

lemma chain_update_other: "t \<notin> set xs \<Longrightarrow> chain (ids[t := v]) c xs = chain ids c xs"
  by (intro chain_cong) (simp, metis nth_list_update_neq)

lemma chain_find_chain:
  "chain ids c xs \<Longrightarrow> chain_find ids sid c = Some (find (\<lambda>p. hn_id (ids ! p) = sid) xs)"
proof (induction xs arbitrary: c)
  case Nil
  then show ?case by (simp add: chain_find.simps)
next
  case (Cons p ps)
  then show ?case by (simp add: chain_find.simps [of _ _ "Some p"] node_at_def)
qed

lemma chain_prev_chain:
  "chain ids (Some p) (p # ps) \<Longrightarrow>
   (chain_prev ids sid p = Some None \<and> (\<forall>t\<in>set ps. hn_id (ids ! t) \<noteq> sid)) \<or>
   (\<exists>xs q t ys. p # ps = xs @ q # t # ys \<and> hn_id (ids ! t) = sid \<and> chain_prev ids sid p = Some (Some (q, t)))"
proof (induction ps arbitrary: p)
  case Nil
  then show ?case by (simp add: chain_prev.simps [of _ _ p] node_at_def)
next
  case (Cons t ts)
  then have t: "hn_next (ids ! p) = Some t" "p < length ids" "t < length ids" "chain ids (Some t) (t # ts)" by auto
  have step: "chain_prev ids sid p = (if hn_id (ids ! t) = sid then Some (Some (p, t)) else chain_prev ids sid t)"
    using t by (simp add: chain_prev.simps [of _ _ p] node_at_def)
  show ?case
  proof (cases "hn_id (ids ! t) = sid")
    case True
    then show ?thesis using step by (intro disjI2 exI [of _ "[]"]) auto
  next
    case False
    with step have st: "chain_prev ids sid p = chain_prev ids sid t" by simp
    from Cons.IH [OF t(4)] show ?thesis
    proof
      assume "\<exists>xs q u ys. t # ts = xs @ q # u # ys \<and> hn_id (ids ! u) = sid \<and> chain_prev ids sid t = Some (Some (q, u))"
      then obtain xs q u ys where "t # ts = xs @ q # u # ys" "hn_id (ids ! u) = sid" "chain_prev ids sid t = Some (Some (q, u))"
        by blast
      then show ?thesis using st by (intro disjI2 exI [of _ "p # xs"]) auto
    qed (use st False in auto)
  qed
qed

lemma chain_unlink:
  "chain ids c (xs @ q # t # ys) \<Longrightarrow> distinct (xs @ q # t # ys) \<Longrightarrow>
   chain (ids[q := (ids ! q)\<lparr>hn_next := hn_next (ids ! t)\<rparr>]) c (xs @ q # ys)"
proof (induction xs arbitrary: c)
  case Nil
  then have "chain (ids[q := (ids ! q)\<lparr>hn_next := hn_next (ids ! t)\<rparr>]) (hn_next (ids ! t)) ys = chain ids (hn_next (ids ! t)) ys"
    by (intro chain_cong) (auto simp: nth_list_update)
  then show ?case using Nil by simp
qed auto

section \<open>The operations refine a map\<close>

lemma hid_slot_less: "hashid_ok hi \<Longrightarrow> hid_slot hi sid < length (hi_hash hi)"
proof -
  assume "hashid_ok hi"
  have "unat (sid AND word_of_nat (hi_hashmod hi)) \<le> unat (word_of_nat (hi_hashmod hi) :: i32)"
    by (simp add: word_and_le1 flip: word_le_nat_alt)
  also have "\<dots> \<le> hi_hashmod hi" by (simp add: unat_of_nat)
  also have "\<dots> < length (hi_hash hi)" using \<open>hashid_ok hi\<close> by (simp add: hashid_ok_def)
  finally show ?thesis by (simp add: hid_slot_def)
qed

lemma hid_map_eq_Some:
  assumes "hashid_ok hi"
  shows "hid_map hi sid = Some p \<longleftrightarrow> p \<in> in_use (hi_id hi) \<and> hn_id (hi_id hi ! p) = sid"
proof -
  have inj: "inj_on (\<lambda>p. hn_id (hi_id hi ! p)) (in_use (hi_id hi))" using assms by (simp add: hashid_ok_def)
  show ?thesis
  proof
    assume "hid_map hi sid = Some p"
    then show "p \<in> in_use (hi_id hi) \<and> hn_id (hi_id hi ! p) = sid"
      by (auto simp: hid_map_def in_use_def find_Some_iff split: if_splits)
  next
    assume p: "p \<in> in_use (hi_id hi) \<and> hn_id (hi_id hi ! p) = sid"
    then have "sid \<noteq> - 1" by (auto simp: in_use_def)
    moreover have "find (\<lambda>p. hn_id (hi_id hi ! p) = sid) [0..<length (hi_id hi)] = Some p"
      using p \<open>sid \<noteq> - 1\<close> inj by (intro find_unique) (auto simp: in_use_def inj_on_def)
    ultimately show "hid_map hi sid = Some p" by (simp add: hid_map_def)
  qed
qed

lemma hid_map_eq_None:
  assumes "hashid_ok hi"
  shows "hid_map hi sid = None \<longleftrightarrow> (\<forall>p\<in>in_use (hi_id hi). hn_id (hi_id hi ! p) \<noteq> sid)"
  using hid_map_eq_Some [OF assms, of sid] by (metis not_None_eq)

lemma hashid_lookup_map:
  assumes ok: "hashid_ok hi"
  shows "hashid_lookup hi sid = Some (hid_map hi sid)"
proof -
  obtain X where X: "chains_ok hi X" using ok by (auto simp: hashid_ok_def)
  let ?h = "hid_slot hi sid"
  have ch: "chain (hi_id hi) (hi_hash hi ! ?h) (X ?h)"
    and st: "set (X ?h) = {p \<in> in_use (hi_id hi). hid_slot hi (hn_id (hi_id hi ! p)) = ?h}"
    using X hid_slot_less [OF ok, of sid] by (auto simp: chains_ok_def)
  have "find (\<lambda>p. hn_id (hi_id hi ! p) = sid) (X ?h) = hid_map hi sid"
  proof (cases "hid_map hi sid")
    case None
    then have "find (\<lambda>p. hn_id (hi_id hi ! p) = sid) (X ?h) = None"
      using st by (auto simp: hid_map_eq_None [OF ok] find_None_iff)
    then show ?thesis using None by simp
  next
    case (Some p)
    then have p: "p \<in> in_use (hi_id hi)" "hn_id (hi_id hi ! p) = sid" by (auto simp: hid_map_eq_Some [OF ok])
    have uniq: "q = p" if "q \<in> set (X ?h)" "hn_id (hi_id hi ! q) = sid" for q
    proof -
      have "hid_map hi sid = Some q" using that st by (auto simp: hid_map_eq_Some [OF ok])
      then show ?thesis using Some by simp
    qed
    have "p \<in> set (X ?h)" using p st by simp
    then have "find (\<lambda>p. hn_id (hi_id hi ! p) = sid) (X ?h) = Some p"
      by (rule find_unique) (fact p(2), rule uniq)
    then show ?thesis by (simp only: Some)
  qed
  then show ?thesis
    using hid_slot_less [OF ok, of sid] by (simp add: hashid_lookup_def hid_head_def chain_find_chain [OF ch])
qed

lemma removed_ok:
  assumes ok: "hashid_ok hi" and X: "chains_ok hi X" and t: "t \<in> in_use (hi_id hi)" "hn_id (hi_id hi ! t) = sid"
    and len: "length ids2 = length (hi_id hi)" "length hash2 = length (hi_hash hi)"
    and same: "\<And>p. p < length ids2 \<Longrightarrow> p \<noteq> t \<Longrightarrow> hn_id (ids2 ! p) = hn_id (hi_id hi ! p)"
    and tn: "ids2 ! t = free_node"
    and nexts: "\<And>p. p < length ids2 \<Longrightarrow> p \<noteq> t \<Longrightarrow> p \<notin> set (X (hid_slot hi sid)) \<Longrightarrow> hn_next (ids2 ! p) = hn_next (hi_id hi ! p)"
    and hd: "\<And>h. h \<noteq> hid_slot hi sid \<Longrightarrow> hash2 ! h = hi_hash hi ! h"
    and ch: "chain ids2 (hash2 ! hid_slot hi sid) (remove1 t (X (hid_slot hi sid)))"
  defines "hi2 \<equiv> hi\<lparr>hi_id := ids2, hi_hash := hash2, hi_count := hi_count hi - 1\<rparr>"
  shows "hashid_ok hi2 \<and> hid_map hi2 = (hid_map hi)(sid := None)"
proof -
  let ?s = "hid_slot hi sid"
  have "x \<in> in_use ids2 \<longleftrightarrow> x \<in> in_use (hi_id hi) \<and> x \<noteq> t" for x
    using same [of x] len(1) by (cases "x = t") (auto simp: in_use_def free_node_def tn)
  then have use: "in_use ids2 = in_use (hi_id hi) - {t}" by blast
  have ids: "hn_id (ids2 ! p) = hn_id (hi_id hi ! p)" if "p \<in> in_use ids2" for p
    using same that use by (auto simp: in_use_def)
  have slots: "hid_slot hi2 x = hid_slot hi x" for x by (simp add: hi2_def hid_slot_def)
  have Xh: "chain (hi_id hi) (hi_hash hi ! h) (X h)" "distinct (X h)"
      "set (X h) = {p \<in> in_use (hi_id hi). hid_slot hi (hn_id (hi_id hi ! p)) = h}" if "h < length (hi_hash hi)" for h
    using X that by (auto simp: chains_ok_def)
  have "chains_ok hi2 (X(?s := remove1 t (X ?s)))"
    unfolding chains_ok_def
  proof (intro allI impI conjI)
    fix h assume "h < length (hi_hash hi2)"
    then have h: "h < length (hi_hash hi)" by (simp add: hi2_def len)
    let ?Y = "(X(?s := remove1 t (X ?s))) h"
    show "distinct ?Y" using Xh(2) [OF h] by (cases "h = ?s") (simp_all add: distinct_remove1)
    show "set ?Y = {p \<in> in_use (hi_id hi2). hid_slot hi2 (hn_id (hi_id hi2 ! p)) = h}"
    proof -
      have "set ?Y = set (X h) - {t}"
        using Xh(2,3) [OF h] t(2) by (cases "h = ?s") (auto simp: set_remove1_eq)
      also have "\<dots> = {p \<in> in_use ids2. hid_slot hi (hn_id (hi_id hi ! p)) = h}" using Xh(3) [OF h] use by auto
      also have "\<dots> = {p \<in> in_use ids2. hid_slot hi (hn_id (ids2 ! p)) = h}" using ids by auto
      finally show ?thesis by (simp add: slots) (simp add: hi2_def)
    qed
    show "chain (hi_id hi2) (hi_hash hi2 ! h) ?Y"
    proof (cases "h = ?s")
      case True
      then show ?thesis using ch by (simp add: hi2_def)
    next
      case False
      have "chain ids2 (hi_hash hi ! h) (X h) = chain (hi_id hi) (hi_hash hi ! h) (X h)"
        using Xh(3) [OF h] Xh(3) [OF hid_slot_less [OF ok, of sid]] False t len(1)
        by (intro chain_cong nexts) (auto simp: in_use_def)
      then show ?thesis using False Xh(1) [OF h] hd by (simp add: hi2_def)
    qed
  qed
  moreover have "inj_on (\<lambda>p. hn_id (hi_id hi2 ! p)) (in_use (hi_id hi2))"
    using ok ids use by (auto simp: hi2_def hashid_ok_def inj_on_def)
  moreover have "hn_next (ids2 ! p) = None" if p: "p < length ids2" "hn_id (ids2 ! p) = - 1" for p
  proof (cases "p = t")
    case False
    then have "p \<notin> in_use (hi_id hi)" using p same by (simp add: in_use_def)
    then have "p \<notin> set (X ?s)" using Xh(3) [OF hid_slot_less [OF ok, of sid]] by simp
    then show ?thesis using nexts [OF p(1) False] ok p same False len by (simp add: hashid_ok_def)
  qed (simp add: tn free_node_def)
  moreover have "int (card (in_use ids2)) = hi_count hi - 1"
  proof -
    have "finite (in_use (hi_id hi))" by (simp add: in_use_def)
    then have "card (in_use (hi_id hi)) = Suc (card (in_use ids2))" using t(1) use by (metis card.remove)
    then show ?thesis using ok by (simp add: hashid_ok_def)
  qed
  ultimately have ok2: "hashid_ok hi2" using ok len by (auto simp: hashid_ok_def hi2_def)
  have "hid_map hi2 x = ((hid_map hi)(sid := None)) x" for x
  proof (cases "x = sid")
    case True
    have "hn_id (hi_id hi ! p) \<noteq> sid" if "p \<in> in_use ids2" for p
      using that use t ok by (auto simp: hashid_ok_def inj_on_def)
    then have "hid_map hi2 sid = None"
      unfolding hid_map_eq_None [OF ok2] using ids by (simp add: hi2_def)
    then show ?thesis using True by simp
  next
    case False
    have "p \<in> in_use ids2 \<and> hn_id (ids2 ! p) = x \<longleftrightarrow> p \<in> in_use (hi_id hi) \<and> hn_id (hi_id hi ! p) = x" for p
    proof (cases "p = t")
      case True
      then have "p \<notin> in_use ids2" "hn_id (hi_id hi ! p) \<noteq> x" using use t(2) \<open>x \<noteq> sid\<close> by simp_all
      then show ?thesis by blast
    next
      case False
      then have "p \<in> in_use ids2 \<longleftrightarrow> p \<in> in_use (hi_id hi)" using use by blast
      then show ?thesis using ids by metis
    qed
    then have "hid_map hi2 x = Some p \<longleftrightarrow> hid_map hi x = Some p" for p
      unfolding hid_map_eq_Some [OF ok2] hid_map_eq_Some [OF ok] by (simp add: hi2_def)
    then show ?thesis using False by (cases "hid_map hi x"; cases "hid_map hi2 x") auto
  qed
  then show ?thesis using ok2 by auto
qed

lemma hashid_remove_map:
  assumes ok: "hashid_ok hi"
  shows "\<exists>hi'. hashid_remove hi sid = Some (hid_map hi sid, hi') \<and> hashid_ok hi' \<and>
    hid_map hi' = (hid_map hi)(sid := None) \<and> hi_cap hi' = hi_cap hi"
proof -
  obtain X where X: "chains_ok hi X" using ok by (auto simp: hashid_ok_def)
  let ?h = "hid_slot hi sid" and ?ids = "hi_id hi"
  have h: "?h < length (hi_hash hi)" by (rule hid_slot_less [OF ok])
  have ch: "chain ?ids (hi_hash hi ! ?h) (X ?h)" and dist: "distinct (X ?h)"
    and st: "set (X ?h) = {p \<in> in_use ?ids. hid_slot hi (hn_id (?ids ! p)) = ?h}"
    using X h by (auto simp: chains_ok_def)
  have absent: "hid_map hi sid = None" if "\<forall>t\<in>set (X ?h). hn_id (?ids ! t) \<noteq> sid"
    using that st by (auto simp: hid_map_eq_None [OF ok])
  have present: "t \<in> in_use ?ids \<and> hid_map hi sid = Some t" if "t \<in> set (X ?h)" "hn_id (?ids ! t) = sid" for t
    using that st by (auto simp: hid_map_eq_Some [OF ok])
  show ?thesis
  proof (cases "X ?h")
    case Nil
    then have "hid_map hi sid = None" by (intro absent) simp
    moreover have "hashid_remove hi sid = Some (None, hi)" using Nil ch h by (simp add: hashid_remove_def hid_head_def)
    ultimately show ?thesis using ok by (auto simp: fun_eq_iff)
  next
    case (Cons p ps)
    then have p: "hi_hash hi ! ?h = Some p" "p < length ?ids" "chain ?ids (hn_next (?ids ! p)) ps" using ch by auto
    show ?thesis
    proof (cases "hn_id (?ids ! p) = sid")
      case True
      let ?ids2 = "?ids[p := free_node]" and ?hash2 = "(hi_hash hi)[?h := hn_next (?ids ! p)]"
      have "p \<notin> set ps" using dist Cons by simp
      then have "chain ?ids2 (hn_next (?ids ! p)) ps = chain ?ids (hn_next (?ids ! p)) ps"
        by (rule chain_update_other)
      then have "chain ?ids2 (?hash2 ! ?h) (remove1 p (X ?h))" using Cons h p by simp
      moreover note pr = present [OF _ True]
      ultimately have "hashid_ok (hi\<lparr>hi_id := ?ids2, hi_hash := ?hash2, hi_count := hi_count hi - 1\<rparr>) \<and>
          hid_map (hi\<lparr>hi_id := ?ids2, hi_hash := ?hash2, hi_count := hi_count hi - 1\<rparr>) = (hid_map hi)(sid := None)"
        using Cons True p(2) by (intro removed_ok [OF ok X, of p]) auto
      moreover have "hashid_remove hi sid = Some (Some p, hi\<lparr>hi_id := ?ids2, hi_hash := ?hash2, hi_count := hi_count hi - 1\<rparr>)"
        using p h True by (simp add: hashid_remove_def hid_head_def node_at_def hid_release_def)
      ultimately show ?thesis using pr Cons by auto
    next
      case False
      have "chain ?ids (Some p) (p # ps)" using p by simp
      from chain_prev_chain [OF this, of sid] show ?thesis
      proof
        assume none: "chain_prev ?ids sid p = Some None \<and> (\<forall>t\<in>set ps. hn_id (?ids ! t) \<noteq> sid)"
        then have "hid_map hi sid = None" using Cons False by (intro absent) simp
        moreover have "hashid_remove hi sid = Some (None, hi)"
          using none p h False by (simp add: hashid_remove_def hid_head_def node_at_def)
        ultimately show ?thesis using ok by (auto simp: fun_eq_iff)
      next
        assume "\<exists>xs q t ys. p # ps = xs @ q # t # ys \<and> hn_id (?ids ! t) = sid \<and> chain_prev ?ids sid p = Some (Some (q, t))"
        then obtain xs q t ys where xs: "X ?h = xs @ q # t # ys" "hn_id (?ids ! t) = sid"
          and prev: "chain_prev ?ids sid p = Some (Some (q, t))" using Cons by auto
        let ?ids1 = "?ids[q := (?ids ! q)\<lparr>hn_next := hn_next (?ids ! t)\<rparr>]"
        let ?ids2 = "?ids1[t := free_node]"
        have qt: "q \<noteq> t" "q < length ?ids" "t < length ?ids" and rm: "remove1 t (X ?h) = xs @ q # ys"
          using dist st xs by (auto simp: in_use_def remove1_append)
        have "chain ?ids2 (hi_hash hi ! ?h) (xs @ q # ys) = chain ?ids1 (hi_hash hi ! ?h) (xs @ q # ys)"
          using dist xs by (intro chain_update_other) auto
        moreover have "chain ?ids1 (hi_hash hi ! ?h) (xs @ q # ys)" using ch dist xs by (intro chain_unlink) auto
        ultimately have "chain ?ids2 (hi_hash hi ! ?h) (remove1 t (X ?h))" using rm by simp
        moreover note pr = present [OF _ xs(2)]
        ultimately have "hashid_ok (hi\<lparr>hi_id := ?ids2, hi_hash := hi_hash hi, hi_count := hi_count hi - 1\<rparr>) \<and>
            hid_map (hi\<lparr>hi_id := ?ids2, hi_hash := hi_hash hi, hi_count := hi_count hi - 1\<rparr>) = (hid_map hi)(sid := None)"
          using xs qt by (intro removed_ok [OF ok X, of t]) (auto simp: nth_list_update)
        moreover have "hashid_remove hi sid = Some (Some t, hi\<lparr>hi_id := ?ids2, hi_hash := hi_hash hi, hi_count := hi_count hi - 1\<rparr>)"
          using p h False prev by (simp add: hashid_remove_def hid_head_def node_at_def hid_release_def)
        ultimately show ?thesis using pr xs(1) by auto
      qed
    qed
  qed
qed

lemma free_scan_finds:
  assumes "0 \<le> sint sid" "nat (sint sid) + cap \<le> 2 ^ 31" "length ids = cap" "i + n = cap"
  shows "(\<exists>p<cap. hn_id (ids ! p) = - 1 \<and> free_scan ids cap sid i n = Some (Some p)) \<or>
    (free_scan ids cap sid i n = Some None \<and> (\<forall>j. i \<le> j \<and> j < cap \<longrightarrow> hn_id (ids ! ((nat (sint sid) + j) mod cap)) \<noteq> - 1))"
  using assms(4)
proof (induction n arbitrary: i)
  case (Suc n)
  define s where "s = nat (sint sid)"
  have s: "sint sid = int s" "unat sid = s" using assms(1) sint_eq_unat [OF assms(1)] by (simp_all add: s_def)
  have "s + i < 2 ^ 31" using assms(2) Suc.prems by (simp add: s_def)
  then have u: "unat (word_of_nat i + sid) = s + i"
    using s(2) by (simp add: unat_word_ariths unat_of_nat)
  have sum: "sint (word_of_nat i + sid) = int (s + i)"
    using \<open>s + i < 2 ^ 31\<close> u by (simp add: sint_cases)
  let ?p = "(s + i) mod cap"
  have p: "?p < cap" using Suc.prems by (intro mod_less_divisor) simp
  have "int (s + i) mod int cap = int ?p" by (simp only: zmod_int)
  then have pos: "\<not> int (s + i) mod int cap < 0" by simp
  have "nat (int (s + i) mod int cap) = ?p" by (metis nat_int zmod_int)
  then have step: "free_scan ids cap sid i (Suc n) =
      (if hn_id (ids ! ?p) = - 1 then Some (Some ?p) else free_scan ids cap sid (Suc i) n)"
    using p assms(3) pos by (simp add: sum node_at_def Let_def)
  show ?case
  proof (cases "hn_id (ids ! ?p) = - 1")
    case True
    then show ?thesis using step p by auto
  next
    case False
    have "j = i \<or> Suc i \<le> j" if "i \<le> j" for j using that by auto
    then show ?thesis using Suc.IH [of "Suc i"] Suc.prems step False by (auto simp: s_def)
  qed
qed auto

lemma all_residues:
  fixes s cap :: nat
  assumes "q < cap"
  shows "\<exists>j<cap. (s + j) mod cap = q"
proof (intro exI conjI)
  let ?j = "(q + (cap - s mod cap)) mod cap"
  show "?j < cap" using assms by (intro mod_less_divisor) simp
  have "(s + ?j) mod cap = (s mod cap + (q + (cap - s mod cap))) mod cap" by (simp add: mod_simps)
  also have "s mod cap + (q + (cap - s mod cap)) = q + cap"
  proof -
    have "s mod cap < cap" using assms by (intro mod_less_divisor) simp
    then show ?thesis by linarith
  qed
  finally show "(s + ?j) mod cap = q" using assms by simp
qed

lemma inserted_ok:
  assumes ok: "hashid_ok hi" and p: "p < length (hi_id hi)" "hn_id (hi_id hi ! p) = - 1"
    and sid: "sid \<noteq> - 1" "hid_map hi sid = None"
  defines "hi2 \<equiv> hi\<lparr>hi_count := hi_count hi + 1,
    hi_id := (hi_id hi)[p := \<lparr>hn_id = sid, hn_next = hi_hash hi ! hid_slot hi sid\<rparr>],
    hi_hash := (hi_hash hi)[hid_slot hi sid := Some p]\<rparr>"
  shows "hashid_ok hi2 \<and> hid_map hi2 = (hid_map hi)(sid \<mapsto> p)"
proof -
  obtain X where X: "chains_ok hi X" using ok by (auto simp: hashid_ok_def)
  let ?s = "hid_slot hi sid"
  have s: "?s < length (hi_hash hi)" by (rule hid_slot_less [OF ok])
  have use: "in_use (hi_id hi2) = insert p (in_use (hi_id hi))" "p \<notin> in_use (hi_id hi)"
    using p sid(1) by (auto simp: in_use_def hi2_def nth_list_update)
  have ids: "hn_id (hi_id hi2 ! q) = (if q = p then sid else hn_id (hi_id hi ! q))" for q
    using p(1) by (simp add: hi2_def nth_list_update)
  have slots: "hid_slot hi2 x = hid_slot hi x" for x by (simp add: hi2_def hid_slot_def)
  have Xh: "chain (hi_id hi) (hi_hash hi ! h) (X h)" "distinct (X h)"
      "set (X h) = {p \<in> in_use (hi_id hi). hid_slot hi (hn_id (hi_id hi ! p)) = h}" if "h < length (hi_hash hi)" for h
    using X that by (auto simp: chains_ok_def)
  have new: "hn_id (hi_id hi ! q) \<noteq> sid" if "q \<in> in_use (hi_id hi)" for q
    using sid(2) that by (simp add: hid_map_eq_None [OF ok])
  have "chains_ok hi2 (X(?s := p # X ?s))"
    unfolding chains_ok_def
  proof (intro allI impI conjI)
    fix h assume "h < length (hi_hash hi2)"
    then have h: "h < length (hi_hash hi)" by (simp add: hi2_def)
    let ?Y = "(X(?s := p # X ?s)) h"
    have pX: "p \<notin> set (X h)" using use(2) Xh(3) [OF h] by simp
    then have old: "chain (hi_id hi2) (hi_hash hi ! h) (X h)"
      using Xh(1) [OF h] by (simp add: hi2_def chain_update_other)
    show "distinct ?Y" using Xh(2) [OF h] pX by (cases "h = ?s") simp_all
    show "set ?Y = {q \<in> in_use (hi_id hi2). hid_slot hi2 (hn_id (hi_id hi2 ! q)) = h}"
      using Xh(3) [OF h] use by (auto simp: ids slots)
    show "chain (hi_id hi2) (hi_hash hi2 ! h) ?Y"
      using old s p(1) by (cases "h = ?s") (simp_all add: hi2_def)
  qed
  moreover have "inj_on (\<lambda>p. hn_id (hi_id hi2 ! p)) (in_use (hi_id hi2))"
    using ok use new unfolding hashid_ok_def inj_on_def by (auto simp: ids)
  moreover have "hn_next (hi_id hi2 ! q) = None" if "q < length (hi_id hi2)" "hn_id (hi_id hi2 ! q) = - 1" for q
    using that ok sid(1) by (cases "q = p") (auto simp: hi2_def hashid_ok_def)
  moreover have "int (card (in_use (hi_id hi2))) = hi_count hi + 1"
    using ok use by (simp add: hashid_ok_def in_use_def)
  ultimately have ok2: "hashid_ok hi2" using ok by (auto simp: hashid_ok_def hi2_def)
  have "hid_map hi2 x = ((hid_map hi)(sid \<mapsto> p)) x" for x
  proof (cases "x = sid")
    case True
    then show ?thesis using use ids by (simp add: hid_map_eq_Some [OF ok2])
  next
    case False
    then have "hid_map hi2 x = Some q \<longleftrightarrow> hid_map hi x = Some q" for q
      using use ids by (auto simp: hid_map_eq_Some [OF ok2] hid_map_eq_Some [OF ok])
    then show ?thesis using False by (cases "hid_map hi x"; cases "hid_map hi2 x") auto
  qed
  then show ?thesis using ok2 by auto
qed

lemma hashid_insert_map:
  assumes ok: "hashid_ok hi" and sid: "0 \<le> sint sid" "nat (sint sid) + hi_cap hi \<le> 2 ^ 31"
    and new: "hid_map hi sid = None" and room: "\<not> hashid_full hi"
  shows "\<exists>p hi'. hashid_insert hi sid = Some (p, hi') \<and> p < hi_cap hi \<and> hashid_ok hi' \<and>
    hid_map hi' = (hid_map hi)(sid \<mapsto> p) \<and> hi_cap hi' = hi_cap hi \<and> p \<notin> ran (hid_map hi)"
proof -
  let ?ids = "hi_id hi" and ?cap = "hi_cap hi"
  have len: "length ?ids = ?cap" using ok by (simp add: hashid_ok_def)
  have sn: "sid \<noteq> - 1" using sid(1) by auto
  have "in_use ?ids \<noteq> {..<?cap}"
  proof
    assume "in_use ?ids = {..<?cap}"
    then have "hi_count hi = int ?cap" using ok by (simp add: hashid_ok_def)
    then show False using room by (simp add: hashid_full_def)
  qed
  then obtain q where q: "q < ?cap" "hn_id (?ids ! q) = - 1" using len by (auto simp: in_use_def)
  obtain j where "j < ?cap" "(nat (sint sid) + j) mod ?cap = q" using all_residues [OF q(1)] by blast
  then obtain p where p: "p < ?cap" "hn_id (?ids ! p) = - 1" "free_scan ?ids ?cap sid 0 ?cap = Some (Some p)"
    using free_scan_finds [OF sid len, of 0 ?cap] q(2) by auto
  have "hn_next (?ids ! p) = None" using ok p len by (simp add: hashid_ok_def)
  then have ins: "hashid_insert hi sid = Some (p, hi\<lparr>hi_count := hi_count hi + 1,
      hi_id := ?ids[p := \<lparr>hn_id = sid, hn_next = hi_hash hi ! hid_slot hi sid\<rparr>],
      hi_hash := (hi_hash hi)[hid_slot hi sid := Some p]\<rparr>)"
    using p hid_slot_less [OF ok, of sid] by (simp add: hashid_insert_def hid_head_def)
  have "p \<notin> ran (hid_map hi)" using p(2) by (auto simp: ran_def hid_map_eq_Some [OF ok] in_use_def)
  then show ?thesis using ins inserted_ok [OF ok, of p sid] p len sn new by auto
qed

lemma hash_cap_ge: "0 < c \<Longrightarrow> c \<le> hash_cap c m \<and> m \<le> hash_cap c m"
proof (induction c m rule: hash_cap.induct)
  case (1 c m)
  show ?case
  proof (cases "m \<le> c")
    case False
    then have "hash_cap c m = hash_cap (c * 2) m" using "1.prems" by (subst hash_cap.simps) simp
    then show ?thesis using "1.IH" "1.prems" False by simp
  qed (use "1.prems" in \<open>simp add: hash_cap.simps [of c m]\<close>)
qed

lemma hashid_init_ok: "hashid_ok (hashid_init m) \<and> hid_map (hashid_init m) = Map.empty \<and> hi_cap (hashid_init m) = m"
proof -
  have none: "in_use (replicate m free_node) = {}" by (auto simp: in_use_def free_node_def)
  have "chains_ok (hashid_init m) (\<lambda>h. [])" using none by (auto simp: chains_ok_def hashid_init_def Let_def)
  moreover have "0 < hash_cap 16 m" using hash_cap_ge [of 16 m] by simp
  ultimately have ok: "hashid_ok (hashid_init m)"
    using none by (auto simp: hashid_ok_def hashid_init_def Let_def free_node_def)
  moreover have "hid_map (hashid_init m) x = None" for x
    using none unfolding hid_map_eq_None [OF ok] by (simp add: hashid_init_def Let_def)
  ultimately show ?thesis by (auto simp: hashid_init_def Let_def)
qed

section \<open>The interface of the table\<close>

text \<open>What the gate relies on: a table of at most \<open>cap t\<close> keys, each with its own index below \<open>cap t\<close>.\<close>

locale id_table =
  fixes inv :: "'t \<Rightarrow> bool" and tab :: "'t \<Rightarrow> 'k \<Rightarrow> nat option" and cap :: "'t \<Rightarrow> nat" and key :: "'t \<Rightarrow> 'k \<Rightarrow> bool"
    and lookup :: "'t \<Rightarrow> 'k \<Rightarrow> nat option option" and remove :: "'t \<Rightarrow> 'k \<Rightarrow> (nat option \<times> 't) option"
    and insert_key :: "'t \<Rightarrow> 'k \<Rightarrow> (nat \<times> 't) option" and full :: "'t \<Rightarrow> bool"
  assumes lookup_tab: "inv t \<Longrightarrow> lookup t k = Some (tab t k)"
    and remove_tab: "inv t \<Longrightarrow> \<exists>t'. remove t k = Some (tab t k, t') \<and> inv t' \<and> tab t' = (tab t)(k := None) \<and> cap t' = cap t"
    and insert_tab: "inv t \<Longrightarrow> key t k \<Longrightarrow> tab t k = None \<Longrightarrow> \<not> full t \<Longrightarrow>
      \<exists>p t'. insert_key t k = Some (p, t') \<and> p < cap t \<and> inv t' \<and> tab t' = (tab t)(k \<mapsto> p) \<and> cap t' = cap t \<and> p \<notin> ran (tab t)"
    and index_below: "inv t \<Longrightarrow> tab t k = Some p \<Longrightarrow> p < cap t"
    and index_unique: "inv t \<Longrightarrow> tab t k = Some p \<Longrightarrow> tab t k' = Some p \<Longrightarrow> k' = k"
begin

lemma insert_then_lookup:
  assumes "inv t" "key t k" "tab t k = None" "\<not> full t" "insert_key t k = Some (p, t')"
  shows "lookup t' k = Some (Some p) \<and> (\<forall>k'. k' \<noteq> k \<longrightarrow> lookup t' k' = lookup t k')"
  using insert_tab [OF assms(1-4)] assms(1,5) lookup_tab by auto

lemma remove_then_lookup:
  assumes "inv t" "remove t k = Some (r, t')"
  shows "lookup t' k = Some None \<and> (\<forall>k'. k' \<noteq> k \<longrightarrow> lookup t' k' = lookup t k')"
  using remove_tab [OF assms(1), of k] assms lookup_tab by auto

lemma removed_index_free:
  assumes "inv t" "remove t k = Some (Some p, t')"
  shows "p < cap t \<and> p \<notin> ran (tab t')"
proof -
  have "tab t k = Some p" "tab t' = (tab t)(k := None)" using remove_tab [OF assms(1), of k] assms(2) by auto
  then show ?thesis using index_below [OF assms(1)] index_unique [OF assms(1)] by (auto simp: ran_def split: if_splits)
qed

end

definition hid_key :: "hashid \<Rightarrow> i32 \<Rightarrow> bool" where
  \<comment> \<open>ids for which the index of \<open>hashid_insert\<close> does not overflow\<close>
  "hid_key hi sid \<longleftrightarrow> 0 \<le> sint sid \<and> nat (sint sid) + hi_cap hi \<le> 2 ^ 31"

interpretation hid: id_table hashid_ok hid_map hi_cap hid_key hashid_lookup hashid_remove hashid_insert hashid_full
proof unfold_locales
  fix hi k p k'
  assume ok: "hashid_ok hi" and "hid_map hi k = Some p"
  then have p: "p \<in> in_use (hi_id hi)" "hn_id (hi_id hi ! p) = k" by (auto simp: hid_map_eq_Some)
  then show "p < hi_cap hi" using ok by (simp add: in_use_def hashid_ok_def)
  assume "hid_map hi k' = Some p"
  then show "k' = k" using p ok by (simp add: hid_map_eq_Some)
next
  fix hi k
  assume "hashid_ok hi" "hid_key hi k" "hid_map hi k = None" "\<not> hashid_full hi"
  then show "\<exists>p hi'. hashid_insert hi k = Some (p, hi') \<and> p < hi_cap hi \<and> hashid_ok hi' \<and>
      hid_map hi' = (hid_map hi)(k \<mapsto> p) \<and> hi_cap hi' = hi_cap hi \<and> p \<notin> ran (hid_map hi)"
    by (intro hashid_insert_map) (simp_all add: hid_key_def)
qed (simp_all add: hashid_lookup_map hashid_remove_map)

text \<open>C26. The id hash of the gate is a finite map: a new table is empty, a lookup returns what the
  map holds, a removal returns the index it held and removes it, and an insertion of a new id
  into a table that is not full succeeds with an index no other id has; every chain walk ends.\<close>

theorem hashid_refines_map:
  "hashid_ok (hashid_init m) \<and> hid_map (hashid_init m) = Map.empty \<and>
   (hashid_ok hi \<longrightarrow>
      hashid_lookup hi sid = Some (hid_map hi sid) \<and>
      (\<exists>hi'. hashid_remove hi sid = Some (hid_map hi sid, hi') \<and> hashid_ok hi' \<and> hid_map hi' = (hid_map hi)(sid := None)) \<and>
      (hid_key hi sid \<and> hid_map hi sid = None \<and> hi_count hi \<noteq> int (hi_cap hi) \<longrightarrow>
         (\<exists>p hi'. hashid_insert hi sid = Some (p, hi') \<and> p < hi_cap hi \<and> p \<notin> ran (hid_map hi) \<and>
            hashid_ok hi' \<and> hid_map hi' = (hid_map hi)(sid \<mapsto> p))))"
  using hashid_init_ok [of m] hid.lookup_tab [of hi sid] hid.remove_tab [of hi sid] hid.insert_tab [of hi sid]
  unfolding hashid_full_def by blast

theorem hashid_refines_map_witness:
  "\<exists>p hi'. hashid_insert (hashid_init 3) 7 = Some (p, hi') \<and> p = 1 \<and> hashid_lookup hi' 7 = Some (Some 1)"
proof -
  note T = hashid_refines_map [of 3 "hashid_init 3" 7]
  have "hid_key (hashid_init 3) 7" "hi_count (hashid_init 3) \<noteq> int (hi_cap (hashid_init 3))"
    by (simp_all add: hid_key_def hashid_init_def Let_def)
  then obtain p hi' where ins: "hashid_insert (hashid_init 3) 7 = Some (p, hi')" "hashid_ok hi'"
      "hid_map hi' = (hid_map (hashid_init 3))(7 \<mapsto> p)"
    using T by auto
  moreover have "free_scan (hi_id (hashid_init 3)) 3 7 0 3 = Some (Some 1)"
    by (simp add: hashid_init_def Let_def free_node_def node_at_def eval_nat_numeral)
  then have "p = 1" using ins(1) by (auto simp: hashid_insert_def hashid_init_def Let_def hid_head_def split: if_splits)
  ultimately show ?thesis using hashid_refines_map [of 3 hi' 7] by auto
qed

end
