(* ===== verification/DataBuffer.thy ===== *)
theory DataBuffer
  imports Prelude
begin

text \<open>
  \<open>module/gate/databuffer.h\<close>: the bytes of a connection that have not been handed on yet, as a
  list of received blocks, and the pool of list nodes all connections share. A received block
  belongs to the node that holds it, so the node keeps the bytes and freeing the block is
  dropping them; a node is known by its chunk in the pool and its index there. Linked lists
  are lists of nodes; \<open>int\<close> is a 32-bit integer that wraps around.

  The buffer refines a string (\<open>db_bytes\<close>): pushing appends to it, reading takes from its front,
  and no node is in two lists.
\<close>

section \<open>Data\<close>

definition MESSAGEPOOL :: nat where "MESSAGEPOOL = 1023"

definition wrap32 :: "int \<Rightarrow> int" where
  "wrap32 x = (x + 2 ^ 31) mod 2 ^ 32 - 2 ^ 31"

record message =
  ms_node :: "nat \<times> nat"
  ms_buffer :: string
  ms_size :: int

record databuffer =
  db_header :: int
  db_offset :: int
  db_size :: int
  db_bufs :: "message list"
  db_tail :: "(nat \<times> nat) option"

record messagepool =
  mp_pool :: "nat list"
  mp_freelist :: "(nat \<times> nat) list"

definition db_zero :: databuffer where
  "db_zero = \<lparr>db_header = 0, db_offset = 0, db_size = 0, db_bufs = [], db_tail = None\<rparr>"

definition messagepool_free :: "messagepool \<Rightarrow> messagepool" where
  "messagepool_free pool = pool\<lparr>mp_pool := [], mp_freelist := []\<rparr>"

section \<open>Operations\<close>

definition return_message :: "databuffer \<Rightarrow> messagepool \<Rightarrow> (databuffer \<times> messagepool) option" where
  "return_message db mp =
     (case db_bufs db of
        [] \<Rightarrow> None
      | m # rest \<Rightarrow> do {
          guard (rest = [] \<longrightarrow> db_tail db = Some (ms_node m));
          Some (db\<lparr>db_bufs := rest, db_tail := (if rest = [] then None else db_tail db)\<rparr>,
                mp\<lparr>mp_freelist := ms_node m # mp_freelist mp\<rparr>) })"

definition memcpy_from :: "string \<Rightarrow> int \<Rightarrow> int \<Rightarrow> string option" where
  \<comment> \<open>\<open>n\<close> bytes from offset \<open>off\<close>; copying from outside the block has no value\<close>
  "memcpy_from s off n =
     (if 0 \<le> off \<and> 0 \<le> n \<and> nat off + nat n \<le> length s then Some (take (nat n) (drop (nat off) s)) else None)"

fun read_loop :: "message list \<Rightarrow> databuffer \<Rightarrow> messagepool \<Rightarrow> int \<Rightarrow> (string \<times> databuffer \<times> messagepool) option" where
  \<comment> \<open>the loop of \<open>databuffer_read\<close>; the list is \<open>db_bufs db\<close>\<close>
  "read_loop [] db mp sz = None"
| "read_loop (current # rest) db mp sz =
     (let bsz = ms_size current - db_offset db
      in if bsz > sz then do {
           b \<leftarrow> memcpy_from (ms_buffer current) (db_offset db) sz;
           Some (b, db\<lparr>db_offset := db_offset db + sz\<rparr>, mp) }
         else if bsz = sz then do {
           b \<leftarrow> memcpy_from (ms_buffer current) (db_offset db) sz;
           (db1, mp1) \<leftarrow> return_message (db\<lparr>db_offset := 0\<rparr>) mp;
           Some (b, db1, mp1) }
         else do {
           b \<leftarrow> memcpy_from (ms_buffer current) (db_offset db) bsz;
           (db1, mp1) \<leftarrow> return_message db mp;
           (b', r) \<leftarrow> read_loop rest (db1\<lparr>db_offset := 0\<rparr>) mp1 (sz - bsz);
           Some (b @ b', r) })"

definition databuffer_read :: "databuffer \<Rightarrow> messagepool \<Rightarrow> int \<Rightarrow> (string \<times> databuffer \<times> messagepool) option" where
  "databuffer_read db mp sz =
     do { guard (db_size db \<ge> sz);
          read_loop (db_bufs db) (db\<lparr>db_size := db_size db - sz\<rparr>) mp sz }"

definition pool_take :: "messagepool \<Rightarrow> (nat \<times> nat) \<times> messagepool" where
  \<comment> \<open>a node from the free list, or the first of a new chunk\<close>
  "pool_take mp =
     (case mp_freelist mp of
        m # rest \<Rightarrow> (m, mp\<lparr>mp_freelist := rest\<rparr>)
      | [] \<Rightarrow> let c = length (mp_pool mp)
              in ((c, 0), mp\<lparr>mp_pool := c # mp_pool mp, mp_freelist := map (Pair c) [1..<MESSAGEPOOL]\<rparr>))"

definition databuffer_push :: "databuffer \<Rightarrow> messagepool \<Rightarrow> string \<Rightarrow> int \<Rightarrow> (databuffer \<times> messagepool) option" where
  \<comment> \<open>the tail is the last node of the list, or the write through it would go elsewhere\<close>
  "databuffer_push db mp data sz =
     (let (nd, mp1) = pool_take mp; m = \<lparr>ms_node = nd, ms_buffer = data, ms_size = sz\<rparr>
      in do {
        guard (db_tail db = (if db_bufs db = [] then None else Some (ms_node (last (db_bufs db)))));
        Some (db\<lparr>db_size := wrap32 (db_size db + sz), db_bufs := db_bufs db @ [m], db_tail := Some nd\<rparr>, mp1) })"

definition be_int :: "string \<Rightarrow> int" where
  \<comment> \<open>big-endian, in an \<open>int\<close>\<close>
  "be_int bs = wrap32 (foldl (\<lambda>a c. a * 256 + int (of_char c)) 0 bs)"

definition databuffer_readheader :: "databuffer \<Rightarrow> messagepool \<Rightarrow> int \<Rightarrow> (int \<times> databuffer \<times> messagepool) option" where
  "databuffer_readheader db mp header_size =
     (if db_header db = 0 \<and> db_size db < header_size then Some (- 1, db, mp)
      else do {
        (db1, mp1) \<leftarrow>
          (if db_header db = 0 then do {
             (plen, db1, mp1) \<leftarrow> databuffer_read db mp header_size;
             guard (length plen \<le> 4);
             Some (db1\<lparr>db_header := be_int plen\<rparr>, mp1) }
           else Some (db, mp));
        Some (if db_size db1 < db_header db1 then - 1 else db_header db1, db1, mp1) })"

definition databuffer_reset :: "databuffer \<Rightarrow> databuffer" where
  "databuffer_reset db = db\<lparr>db_header := 0\<rparr>"

fun clear_loop :: "message list \<Rightarrow> databuffer \<Rightarrow> messagepool \<Rightarrow> messagepool option" where
  "clear_loop [] db mp = Some mp"
| "clear_loop (m # rest) db mp = do { (db1, mp1) \<leftarrow> return_message db mp; clear_loop rest db1 mp1 }"

definition databuffer_clear :: "databuffer \<Rightarrow> messagepool \<Rightarrow> (databuffer \<times> messagepool) option" where
  "databuffer_clear db mp = do { mp1 \<leftarrow> clear_loop (db_bufs db) db mp; Some (db_zero, mp1) }"

section \<open>The invariants\<close>

definition ms_bytes :: "message \<Rightarrow> string" where
  "ms_bytes m = take (nat (ms_size m)) (ms_buffer m)"

definition ms_ok :: "message \<Rightarrow> bool" where
  "ms_ok m \<longleftrightarrow> 0 < ms_size m \<and> nat (ms_size m) \<le> length (ms_buffer m)"

definition list_bytes :: "int \<Rightarrow> message list \<Rightarrow> string" where
  "list_bytes off bufs = drop (nat off) (concat (map ms_bytes bufs))"

definition db_bytes :: "databuffer \<Rightarrow> string" where
  "db_bytes db = list_bytes (db_offset db) (db_bufs db)"

definition list_ok :: "int \<Rightarrow> message list \<Rightarrow> (nat \<times> nat) option \<Rightarrow> bool" where
  "list_ok off bufs tail \<longleftrightarrow>
     (\<forall>m\<in>set bufs. ms_ok m) \<and> 0 \<le> off \<and> (case bufs of [] \<Rightarrow> off = 0 | m # _ \<Rightarrow> off < ms_size m) \<and>
     tail = (if bufs = [] then None else Some (ms_node (last bufs)))"

definition db_ok :: "databuffer \<Rightarrow> bool" where
  "db_ok db \<longleftrightarrow> list_ok (db_offset db) (db_bufs db) (db_tail db) \<and> db_size db = int (length (db_bytes db))
     \<and> length (db_bytes db) < 2 ^ 31"

definition db_nodes :: "databuffer \<Rightarrow> (nat \<times> nat) list" where
  "db_nodes db = map ms_node (db_bufs db)"

definition pool_ok :: "messagepool \<Rightarrow> (nat \<times> nat) list \<Rightarrow> bool" where
  \<comment> \<open>\<open>used\<close> are the nodes in the lists of all connections\<close>
  "pool_ok mp used \<longleftrightarrow> distinct (used @ mp_freelist mp) \<and>
     (\<forall>(c, i) \<in> set (used @ mp_freelist mp). c < length (mp_pool mp) \<and> i < MESSAGEPOOL)"

lemma wrap32_small [simp]: "- (2 ^ 31) \<le> x \<Longrightarrow> x < 2 ^ 31 \<Longrightarrow> wrap32 x = x"
  by (simp add: wrap32_def)

lemma ms_bytes_length [simp]: "ms_ok m \<Longrightarrow> length (ms_bytes m) = nat (ms_size m)"
  by (simp add: ms_ok_def ms_bytes_def)

lemma list_bytes_Nil [simp]: "list_bytes off [] = []"
  by (simp add: list_bytes_def)

lemma list_bytes_Cons:
  "ms_ok m \<Longrightarrow> off \<le> ms_size m \<Longrightarrow> list_bytes off (m # ms) = drop (nat off) (ms_bytes m) @ list_bytes 0 ms"
  by (simp add: list_bytes_def)

lemma memcpy_from_ms:
  assumes "ms_ok m" "0 \<le> off" "0 \<le> n" "off + n \<le> ms_size m"
  shows "memcpy_from (ms_buffer m) off n = Some (take (nat n) (drop (nat off) (ms_bytes m)))"
proof -
  have "nat off + nat n \<le> nat (ms_size m)" using assms by linarith
  then show ?thesis using assms by (simp add: memcpy_from_def ms_ok_def ms_bytes_def drop_take min_def)
qed

lemma list_ok_tl: "list_ok off (m # ms) tail \<Longrightarrow> list_ok 0 ms (if ms = [] then None else tail)"
  by (cases ms) (auto simp: list_ok_def ms_ok_def)

lemma pool_ok_move:
  "pool_ok mp ((nd # used) @ others) \<Longrightarrow> pool_ok (mp\<lparr>mp_freelist := nd # mp_freelist mp\<rparr>) (used @ others)"
  by (auto simp: pool_ok_def)

lemma return_message_ok:
  assumes "db_bufs db = m # ms" "list_ok off (m # ms) (db_tail db)"
  shows "return_message db mp =
    Some (db\<lparr>db_bufs := ms, db_tail := (if ms = [] then None else db_tail db)\<rparr>, mp\<lparr>mp_freelist := ms_node m # mp_freelist mp\<rparr>)"
  using assms by (auto simp: return_message_def list_ok_def)

lemma read_loop_ok:
  assumes "db_bufs db = bufs" "list_ok (db_offset db) bufs (db_tail db)" "0 < sz"
    "nat sz \<le> length (list_bytes (db_offset db) bufs)" "pool_ok mp (map ms_node bufs @ others)"
  shows "\<exists>db' mp'. read_loop bufs db mp sz = Some (take (nat sz) (list_bytes (db_offset db) bufs), db', mp') \<and>
    list_ok (db_offset db') (db_bufs db') (db_tail db') \<and>
    db_bytes db' = drop (nat sz) (list_bytes (db_offset db) bufs) \<and>
    db_header db' = db_header db \<and> db_size db' = db_size db \<and> pool_ok mp' (db_nodes db' @ others)"
  using assms
proof (induction bufs arbitrary: db mp sz)
  case (Cons m ms)
  let ?off = "db_offset db" and ?bsz = "ms_size m - db_offset db"
  have m: "ms_ok m" "0 \<le> ?off" "?off < ms_size m" using Cons.prems(2) by (auto simp: list_ok_def)
  have bytes: "list_bytes ?off (m # ms) = drop (nat ?off) (ms_bytes m) @ list_bytes 0 ms"
    using m by (intro list_bytes_Cons) auto
  have len: "length (drop (nat ?off) (ms_bytes m)) = nat ?bsz" using m by (simp add: nat_diff_distrib)
  let ?db = "db\<lparr>db_bufs := ms, db_tail := (if ms = [] then None else db_tail db), db_offset := 0\<rparr>"
  let ?mp = "mp\<lparr>mp_freelist := ms_node m # mp_freelist mp\<rparr>"
  have pool: "pool_ok ?mp (map ms_node ms @ others)" using pool_ok_move Cons.prems(5) by simp
  have lok: "list_ok 0 ms (if ms = [] then None else db_tail db)" using list_ok_tl [OF Cons.prems(2)] .
  consider (inside) "sz < ?bsz" | (exact) "sz = ?bsz" | (beyond) "?bsz < sz" by linarith
  then show ?case
  proof cases
    case inside
    then have "memcpy_from (ms_buffer m) ?off sz = Some (take (nat sz) (drop (nat ?off) (ms_bytes m)))"
      using m Cons.prems(3) by (intro memcpy_from_ms) auto
    moreover have "list_ok (?off + sz) (m # ms) (db_tail db)" using Cons.prems(2,3) inside by (simp add: list_ok_def)
    moreover have "list_bytes (?off + sz) (m # ms) = drop (nat sz) (list_bytes ?off (m # ms))"
      using m Cons.prems(3) by (simp add: list_bytes_def nat_add_distrib add.commute)
    ultimately show ?thesis
      using inside len bytes Cons.prems(1,5) by (simp add: db_bytes_def db_nodes_def)
  next
    case exact
    then have "memcpy_from (ms_buffer m) ?off sz = Some (drop (nat ?off) (ms_bytes m))"
      using m len by (subst memcpy_from_ms) auto
    moreover have "return_message (db\<lparr>db_offset := 0\<rparr>) mp = Some (?db, ?mp)"
      using return_message_ok [of "db\<lparr>db_offset := 0\<rparr>" m ms ?off mp] Cons.prems(1,2) by simp
    ultimately show ?thesis
      using exact len bytes lok pool by (simp add: db_bytes_def db_nodes_def list_bytes_def)
  next
    case beyond
    have "memcpy_from (ms_buffer m) ?off ?bsz = Some (drop (nat ?off) (ms_bytes m))"
      using m len by (subst memcpy_from_ms) auto
    moreover have "return_message db mp = Some (?db\<lparr>db_offset := ?off\<rparr>, ?mp)"
      using return_message_ok [of db m ms ?off mp] Cons.prems(1,2) by simp
    moreover have nsz: "nat sz = nat ?bsz + nat (sz - ?bsz)" using beyond m by linarith
    moreover from this have "nat (sz - ?bsz) \<le> length (list_bytes 0 ms)" using Cons.prems(4) bytes len by simp
    then obtain db' mp' where "read_loop ms ?db ?mp (sz - ?bsz) = Some (take (nat (sz - ?bsz)) (list_bytes 0 ms), db', mp')"
        "list_ok (db_offset db') (db_bufs db') (db_tail db')" "db_bytes db' = drop (nat (sz - ?bsz)) (list_bytes 0 ms)"
        "db_header db' = db_header db" "db_size db' = db_size db" "pool_ok mp' (db_nodes db' @ others)"
      using Cons.IH [of ?db "sz - ?bsz" ?mp] lok pool beyond by auto
    ultimately show ?thesis using beyond len bytes by (simp add: Let_def)
  qed
qed simp

lemma databuffer_read_ok:
  assumes "db_ok db" "0 < sz" "sz \<le> db_size db" "pool_ok mp (db_nodes db @ others)"
  shows "\<exists>db' mp'. databuffer_read db mp sz = Some (take (nat sz) (db_bytes db), db', mp') \<and> db_ok db' \<and>
    db_bytes db' = drop (nat sz) (db_bytes db) \<and> db_header db' = db_header db \<and> pool_ok mp' (db_nodes db' @ others)"
proof -
  let ?db = "db\<lparr>db_size := db_size db - sz\<rparr>"
  have len: "nat sz \<le> length (db_bytes db)" using assms(1,3) by (simp add: db_ok_def)
  obtain db' mp' where r: "read_loop (db_bufs db) ?db mp sz = Some (take (nat sz) (db_bytes db), db', mp')"
      "list_ok (db_offset db') (db_bufs db') (db_tail db')" "db_bytes db' = drop (nat sz) (db_bytes db)"
      "db_header db' = db_header db" "db_size db' = db_size db - sz" "pool_ok mp' (db_nodes db' @ others)"
    using read_loop_ok [of ?db "db_bufs db" sz mp others] assms len
    by (auto simp: db_ok_def db_bytes_def db_nodes_def)
  moreover have "db_ok db'" using r assms len by (auto simp: db_ok_def)
  ultimately show ?thesis using assms(3) by (simp add: databuffer_read_def)
qed

lemma pool_take_ok:
  assumes "pool_ok mp used" "pool_take mp = (nd, mp')"
  shows "pool_ok mp' (nd # used)"
proof (cases "mp_freelist mp")
  case Nil
  then have nd: "nd = (length (mp_pool mp), 0)" and mp': "mp' = mp\<lparr>mp_pool := length (mp_pool mp) # mp_pool mp,
      mp_freelist := map (Pair (length (mp_pool mp))) [1..<MESSAGEPOOL]\<rparr>"
    using assms(2) by (auto simp: pool_take_def Let_def)
  have old: "c < length (mp_pool mp) \<and> i < MESSAGEPOOL" if "(c, i) \<in> set used" for c i
    using assms(1) that by (auto simp: pool_ok_def)
  have "distinct used" using assms(1) by (simp add: pool_ok_def)
  moreover have "distinct (map (Pair (length (mp_pool mp))) [1..<MESSAGEPOOL])" by (simp add: distinct_map inj_on_def)
  ultimately show ?thesis using old unfolding nd mp' pool_ok_def by (fastforce simp: MESSAGEPOOL_def)
next
  case (Cons m ms)
  then have nd: "nd = m" and mp': "mp' = mp\<lparr>mp_freelist := ms\<rparr>" using assms(2) by (auto simp: pool_take_def)
  have "distinct (used @ m # ms)" "\<forall>(c, i) \<in> set (used @ m # ms). c < length (mp_pool mp) \<and> i < MESSAGEPOOL"
    using assms(1) Cons by (simp_all add: pool_ok_def)
  then show ?thesis unfolding nd mp' pool_ok_def by (simp add: ball_Un)
qed

lemma databuffer_push_ok:
  assumes ok: "db_ok db" and pool: "pool_ok mp (db_nodes db @ others)"
    and sz: "0 < sz" "nat sz \<le> length data" "db_size db + sz < 2 ^ 31"
  shows "\<exists>db' mp'. databuffer_push db mp data sz = Some (db', mp') \<and> db_ok db' \<and>
    db_bytes db' = db_bytes db @ take (nat sz) data \<and> db_header db' = db_header db \<and> pool_ok mp' (db_nodes db' @ others)"
proof -
  obtain nd mp' where nd: "pool_take mp = (nd, mp')" by fastforce
  let ?m = "\<lparr>ms_node = nd, ms_buffer = data, ms_size = sz\<rparr>"
  let ?db = "db\<lparr>db_size := db_size db + sz, db_bufs := db_bufs db @ [?m], db_tail := Some nd\<rparr>"
  have size: "wrap32 (db_size db + sz) = db_size db + sz" using sz ok by (intro wrap32_small) (auto simp: db_ok_def)
  have off: "nat (db_offset db) \<le> length (concat (map ms_bytes (db_bufs db)))"
    using ok by (cases "db_bufs db") (auto simp: db_ok_def list_ok_def)
  have bytes: "db_bytes ?db = db_bytes db @ take (nat sz) data"
    using off by (simp add: db_bytes_def list_bytes_def ms_bytes_def)
  have "list_ok (db_offset db) (db_bufs db @ [?m]) (Some nd)"
    using ok sz by (auto simp: db_ok_def list_ok_def ms_ok_def split: list.splits)
  moreover have "length (db_bytes db) + nat sz < 2 ^ 31" using ok sz by (auto simp: db_ok_def)
  ultimately have ok': "db_ok ?db" using bytes ok sz by (simp add: db_ok_def)
  have "pool_ok mp' (nd # db_nodes db @ others)" using pool_take_ok [OF pool nd] by simp
  then have "pool_ok mp' (db_nodes ?db @ others)" by (auto simp: pool_ok_def db_nodes_def)
  moreover have "db_tail db = (if db_bufs db = [] then None else Some (ms_node (last (db_bufs db))))"
    using ok by (simp add: db_ok_def list_ok_def)
  ultimately show ?thesis using nd size ok' bytes by (simp add: databuffer_push_def)
qed

lemma clear_loop_ok:
  assumes "db_bufs db = bufs" "list_ok off bufs (db_tail db)" "pool_ok mp (map ms_node bufs @ others)"
  shows "\<exists>mp'. clear_loop bufs db mp = Some mp' \<and> pool_ok mp' others"
  using assms
proof (induction bufs arbitrary: db mp off)
  case (Cons m ms)
  let ?db = "db\<lparr>db_bufs := ms, db_tail := (if ms = [] then None else db_tail db)\<rparr>"
  have "list_ok 0 ms (db_tail ?db)" using list_ok_tl [OF Cons.prems(2)] by simp
  moreover have "pool_ok (mp\<lparr>mp_freelist := ms_node m # mp_freelist mp\<rparr>) (map ms_node ms @ others)"
    using pool_ok_move Cons.prems(3) by simp
  ultimately obtain mp' where "clear_loop ms ?db (mp\<lparr>mp_freelist := ms_node m # mp_freelist mp\<rparr>) = Some mp'" "pool_ok mp' others"
    using Cons.IH [of ?db 0] by auto
  then show ?case using return_message_ok [OF Cons.prems(1,2), of mp] by simp
qed simp

lemma databuffer_clear_ok:
  assumes "db_ok db" "pool_ok mp (db_nodes db @ others)"
  shows "\<exists>mp'. databuffer_clear db mp = Some (db_zero, mp') \<and> pool_ok mp' others"
  using clear_loop_ok [of db "db_bufs db" "db_offset db" mp others] assms
  by (auto simp: databuffer_clear_def db_ok_def db_nodes_def)

lemma db_zero_ok [simp]: "db_ok db_zero" "db_bytes db_zero = []" "db_nodes db_zero = []" "db_header db_zero = 0"
  by (simp_all add: db_ok_def db_zero_def list_ok_def db_bytes_def db_nodes_def)

section \<open>Packets of a stream\<close>

text \<open>The wire format: a big-endian length in \<open>hs\<close> bytes, then that many bytes.\<close>

definition cut :: "nat \<Rightarrow> string \<Rightarrow> (string \<times> string) option" where
  "cut hs s =
     (if length s < hs \<or> hs = 0 then None
      else let n = nat (be_int (take hs s))
           in if length s < hs + n then None else Some (take n (drop hs s), drop (hs + n) s))"

lemma cut_shorter: "cut hs s = Some (p, r) \<Longrightarrow> length r < length s"
  by (auto simp: cut_def Let_def split: if_splits)

function split_stream :: "nat \<Rightarrow> string \<Rightarrow> string list \<times> string" where
  "split_stream hs s =
     (case cut hs s of
        None \<Rightarrow> ([], s)
      | Some (p, r) \<Rightarrow> let (ps, r') = split_stream hs r in (p # ps, r'))"
  by pat_completeness auto
termination
  by (relation "measure (\<lambda>(hs, s). length s)") (auto dest: cut_shorter)

declare split_stream.simps [simp del]

definition db_repr :: "nat \<Rightarrow> databuffer \<Rightarrow> string \<Rightarrow> bool" where
  \<comment> \<open>the bytes received and not handed on yet, with the header that may have been read already\<close>
  "db_repr hs db S \<longleftrightarrow> db_ok db \<and>
     (if db_header db = 0 then S = db_bytes db
      else \<exists>hb. length hb = hs \<and> be_int hb = db_header db \<and> 0 < db_header db \<and> S = hb @ db_bytes db)"

lemma db_repr_push:
  assumes "db_repr hs db S" "pool_ok mp (db_nodes db @ others)" "0 < sz" "nat sz \<le> length data" "db_size db + sz < 2 ^ 31"
  shows "\<exists>db' mp'. databuffer_push db mp data sz = Some (db', mp') \<and> db_repr hs db' (S @ take (nat sz) data) \<and>
    pool_ok mp' (db_nodes db' @ others)"
proof -
  have "db_ok db" using assms(1) by (simp add: db_repr_def)
  from databuffer_push_ok [OF this assms(2-5)] obtain db' mp' where
    r: "databuffer_push db mp data sz = Some (db', mp')" "db_ok db'" "db_bytes db' = db_bytes db @ take (nat sz) data"
      "db_header db' = db_header db" "pool_ok mp' (db_nodes db' @ others)"
    by blast
  have "db_repr hs db' (S @ take (nat sz) data)"
    using assms(1) r(2-4) by (cases "db_header db = 0") (auto simp: db_repr_def)
  then show ?thesis using r by blast
qed

lemma readheader_cases:
  assumes rep: "db_repr hs db S" and hs: "hs = 2 \<or> hs = 4" and pool: "pool_ok mp (db_nodes db @ others)"
    and nonneg: "hs \<le> length S \<Longrightarrow> 0 \<le> be_int (take hs S)"
  shows "\<exists>r db' mp'. databuffer_readheader db mp (int hs) = Some (r, db', mp') \<and> pool_ok mp' (db_nodes db' @ others) \<and>
    (case cut hs S of
       None \<Rightarrow> r = - 1 \<and> db_repr hs db' S
     | Some (p, rest) \<Rightarrow> r = int (length p) \<and> db_header db' = r \<and> db_ok db' \<and> db_bytes db' = p @ rest)"
proof -
  have ok: "db_ok db" using rep by (simp add: db_repr_def)
  show ?thesis
  proof (cases "db_header db = 0")
    case True
    then have S: "S = db_bytes db" and size: "db_size db = int (length S)" using rep ok by (auto simp: db_repr_def db_ok_def)
    show ?thesis
    proof (cases "length S < hs")
      case True
      then show ?thesis using \<open>db_header db = 0\<close> size rep pool by (simp add: databuffer_readheader_def cut_def)
    next
      case False
      let ?h = "be_int (take hs S)"
      obtain db1 mp1 where r: "databuffer_read db mp (int hs) = Some (take hs S, db1, mp1)" "db_ok db1"
          "db_bytes db1 = drop hs S" "pool_ok mp1 (db_nodes db1 @ others)"
        using databuffer_read_ok [OF ok _ _ pool, of "int hs"] hs False S size by auto
      let ?db = "db1\<lparr>db_header := ?h\<rparr>"
      have ok': "db_ok ?db" "db_bytes ?db = drop hs S" "db_nodes ?db = db_nodes db1" "db_size ?db = int (length S) - int hs"
        using r False by (auto simp: db_ok_def db_bytes_def db_nodes_def)
      have hdr: "databuffer_readheader db mp (int hs) =
          Some (if length S < hs + nat ?h then - 1 else ?h, ?db, mp1)"
      proof -
        have "(int (length S) - int hs < ?h) = (length S < hs + nat ?h)" using nonneg False by (auto simp: not_less)
        moreover have "\<not> db_size db < int hs" "min (length S) hs \<le> 4" using size False hs by auto
        ultimately show ?thesis using True r(1) ok'(4) by (simp add: databuffer_readheader_def)
      qed
      have "cut hs S = (if length S < hs + nat ?h then None else Some (take (nat ?h) (drop hs S), drop (hs + nat ?h) S))"
        using False hs by (auto simp: cut_def Let_def)
      moreover have "take (nat ?h) (drop hs S) @ drop (hs + nat ?h) S = drop hs S"
        by (metis add.commute append_take_drop_id drop_drop)
      moreover have "db_repr hs ?db S" if "length S < hs + nat ?h"
        using that ok' False nonneg unfolding db_repr_def
        by (auto intro!: exI [of _ "take hs S"])
      ultimately show ?thesis using hdr r(4) ok' nonneg False by (auto simp: min_def)
    qed
  next
    case False
    then obtain hb where hb: "length hb = hs" "be_int hb = db_header db" "0 < db_header db" "S = hb @ db_bytes db"
      using rep by (auto simp: db_repr_def)
    have size: "db_size db = int (length (db_bytes db))" using ok by (simp add: db_ok_def)
    let ?n = "nat (db_header db)"
    have "cut hs S = (if length (db_bytes db) < ?n then None else Some (take ?n (db_bytes db), drop ?n (db_bytes db)))"
      using hb hs by (auto simp: cut_def Let_def)
    moreover have "databuffer_readheader db mp (int hs) =
        Some (if length (db_bytes db) < ?n then - 1 else db_header db, db, mp)"
      using False size hb(3) by (auto simp: databuffer_readheader_def)
    ultimately show ?thesis using rep pool ok hb(3) by (auto simp: min_def)
  qed
qed

end
