(* ===== verification/Gate.thy ===== *)
theory Gate
  imports NodeSocket HashId DataBuffer
begin

text \<open>
  \<open>module/gate/module_gate.c\<close>: the gate service. It accepts connections, cuts what they send
  into packets (\<open>DataBuffer\<close>), and hands each packet to a broker, to the agent of the connection
  or to a watchdog; text commands and client messages come from other services.

  The gate works on the node and on the socket server. A block of received data moves from
  the heap of the node into the buffer of the connection, where its bytes are kept.
\<close>

section \<open>State\<close>

definition BACKLOG :: i32 where "BACKLOG = 32"

record connection =
  co_id :: i32
  co_agent :: u32
  co_client :: u32
  co_remote_name :: string
  co_buffer :: databuffer

record gate =
  ga_ctx :: ptr
  ga_listen_id :: i32
  ga_watchdog :: u32
  ga_broker :: u32
  ga_client_tag :: i32
  ga_header_size :: int
  ga_max_connection :: nat
  ga_hash :: hashid
  ga_conn :: "connection list"
  ga_mp :: messagepool

text \<open>The state a call of the gate works on.\<close>

type_synonym machine = "gate \<times> node \<times> socket_server"

definition conn_zero :: connection where
  "conn_zero = \<lparr>co_id = 0, co_agent = 0, co_client = 0, co_remote_name = [], co_buffer = db_zero\<rparr>"

definition gate_create :: gate where
  "gate_create =
     \<lparr>ga_ctx = NULL, ga_listen_id = - 1, ga_watchdog = 0, ga_broker = 0, ga_client_tag = 0, ga_header_size = 0,
      ga_max_connection = 0, ga_hash = \<lparr>hi_hashmod = 0, hi_cap = 0, hi_count = 0, hi_id = [], hi_hash = []\<rparr>,
      ga_conn = [], ga_mp = \<lparr>mp_pool = [], mp_freelist = []\<rparr>\<rparr>"

definition conn_at :: "nat \<Rightarrow> gate \<Rightarrow> connection option" where
  "conn_at i g = (if i < length (ga_conn g) then Some (ga_conn g ! i) else None)"

definition put_conn :: "nat \<Rightarrow> connection \<Rightarrow> gate \<Rightarrow> gate" where
  "put_conn i c g = g\<lparr>ga_conn := (ga_conn g)[i := c]\<rparr>"

definition put_buffer :: "nat \<Rightarrow> databuffer \<Rightarrow> messagepool \<Rightarrow> gate \<Rightarrow> gate" where
  "put_buffer i db mp g = g\<lparr>ga_conn := (ga_conn g)[i := (ga_conn g ! i)\<lparr>co_buffer := db\<rparr>], ga_mp := mp\<rparr>"

fun close_all :: "kernel \<Rightarrow> ptr \<Rightarrow> connection list \<Rightarrow> node \<Rightarrow> socket_server \<Rightarrow> socket_server option" where
  "close_all K ctx [] n ss = Some ss"
| "close_all K ctx (c # cs) n ss =
     do { ss1 \<leftarrow> (if 0 \<le> sint (co_id c) then uboss_socket_close K ctx (co_id c) n ss else Some ss);
          close_all K ctx cs n ss1 }"

definition gate_release :: "kernel \<Rightarrow> machine \<Rightarrow> socket_server option" where
  \<comment> \<open>the gate, its tables and the pool are freed; the bytes still buffered are not\<close>
  "gate_release K = (\<lambda>(g, n, ss). do {
     guard (ga_max_connection g \<le> length (ga_conn g));
     ss1 \<leftarrow> close_all K (ga_ctx g) (take (ga_max_connection g) (ga_conn g)) n ss;
     if 0 \<le> sint (ga_listen_id g) then uboss_socket_close K (ga_ctx g) (ga_listen_id g) n ss1 else Some ss1 })"

section \<open>Text commands\<close>

definition memcmp_lit :: "string \<Rightarrow> string \<Rightarrow> nat \<Rightarrow> bool option" where
  \<comment> \<open>\<open>memcmp(command, literal, i) == 0\<close>; comparing beyond the end of the literal has no value\<close>
  "memcmp_lit command lit i =
     (let l = lit @ [NUL]
      in if i \<le> length l then Some (take i command = take i l)
         else if take (length l) command = l then None else Some False)"

definition parm_skip :: "string \<Rightarrow> nat \<Rightarrow> string" where
  \<comment> \<open>\<open>_parm\<close>: the bytes that move to the front, a zero follows them\<close>
  "parm_skip msg command_sz = dropWhile (\<lambda>c. c = CHR '' '') (drop command_sz msg)"

definition forward_agent :: "i32 \<Rightarrow> u32 \<Rightarrow> u32 \<Rightarrow> gate \<Rightarrow> gate option" where
  "forward_agent fd agentaddr clientaddr g =
     do { r \<leftarrow> hashid_lookup (ga_hash g) fd;
          case r of
            None \<Rightarrow> Some g
          | Some i \<Rightarrow> do { c \<leftarrow> conn_at i g; Some (put_conn i (c\<lparr>co_agent := agentaddr, co_client := clientaddr\<rparr>) g) } }"

definition handle_text :: "string \<Rightarrow> u32" where
  "handle_text s = ucast (strtoul16 s)"

definition ctrl_forward :: "string \<Rightarrow> string \<Rightarrow> gate \<Rightarrow> gate option" where
  \<comment> \<open>\<open>p\<close> is the text of \<open>_parm\<close>, \<open>after\<close> what stays in the buffer behind its final zero.
     A token is read from its second character on; for an empty token this is what follows
     the zero at its end.\<close>
  "ctrl_forward p after g =
     (let (idstr, client) = strsep '' '' (Some p)
      in case client of
           None \<Rightarrow> Some g
         | Some r \<Rightarrow>
             (let (agent, client2) = strsep '' '' (Some r)
              in case (agent, client2) of
                   (Some ag, Some cl) \<Rightarrow> do {
                     cltext \<leftarrow> (if cl = [] then if after = [] then None else Some (c_str after) else Some (tl cl));
                     forward_agent (word_of_int (strtol10 (the idstr))) (handle_text (if ag = [] then cl else tl ag))
                       (handle_text cltext) g }
                 | _ \<Rightarrow> Some g))"

definition on_socket :: "(kernel \<Rightarrow> ptr \<Rightarrow> i32 \<Rightarrow> node \<Rightarrow> socket_server \<Rightarrow> socket_server option) \<Rightarrow>
    kernel \<Rightarrow> string \<Rightarrow> machine \<Rightarrow> machine option" where
  \<comment> \<open>\<open>kick\<close> and \<open>start\<close>: an operation on the socket of a known connection\<close>
  "on_socket f K p = (\<lambda>(g, n, ss). do {
     let uid = word_of_int (strtol10 (c_str p));
     r \<leftarrow> hashid_lookup (ga_hash g) uid;
     case r of None \<Rightarrow> Some (g, n, ss) | Some _ \<Rightarrow> do { ss1 \<leftarrow> f K (ga_ctx g) uid n ss; Some (g, n, ss1) } })"

definition ctrl :: "world \<Rightarrow> kernel \<Rightarrow> string \<Rightarrow> machine \<Rightarrow> machine option" where
  "ctrl w K msg = (\<lambda>(g, n, ss).
     if msg = [] then Some (g, n, ss)
     else do {
       let i = length (takeWhile (\<lambda>c. c \<noteq> CHR '' '') msg);
       let tmp = msg @ [NUL];
       let p = parm_skip msg i;
       let after = drop (length (c_str p) + 1) (p @ [NUL] @ drop (length p + 1) tmp);
       kick \<leftarrow> memcmp_lit tmp ''kick'' i;
       if kick then on_socket uboss_socket_close K p (g, n, ss)
       else do {
       fwd \<leftarrow> memcmp_lit tmp ''forward'' i;
       if fwd then do { g1 \<leftarrow> ctrl_forward (c_str p) after g; Some (g1, n, ss) }
       else do {
       brk \<leftarrow> memcmp_lit tmp ''broker'' i;
       if brk then do { (h, n1) \<leftarrow> uboss_queryname w (ga_ctx g) (c_str p) n; Some (g\<lparr>ga_broker := h\<rparr>, n1, ss) }
       else do {
       start \<leftarrow> memcmp_lit tmp ''start'' i;
       if start then on_socket uboss_socket_start K p (g, n, ss)
       else do {
       close \<leftarrow> memcmp_lit tmp ''close'' i;
       if close then
         if 0 \<le> sint (ga_listen_id g)
         then do { ss1 \<leftarrow> uboss_socket_close K (ga_ctx g) (ga_listen_id g) n ss; Some (g\<lparr>ga_listen_id := - 1\<rparr>, n, ss1) }
         else Some (g, n, ss)
       else do {
         n1 \<leftarrow> uboss_error w (ga_ctx g) (''[gate] Unkown command : '' @ c_str msg) n;
         Some (g, n1, ss) } } } } } })"

section \<open>Packets\<close>

definition report :: "world \<Rightarrow> string \<Rightarrow> gate \<Rightarrow> node \<Rightarrow> node option" where
  "report w data g n =
     (if ga_watchdog g = 0 then Some n
      else do { guard (length data < 1024); send_stack w (ga_ctx g) (ga_watchdog g) PTYPE_TEXT data n })"

definition send_block :: "world \<Rightarrow> ptr \<Rightarrow> u32 \<Rightarrow> u32 \<Rightarrow> u32 \<Rightarrow> string \<Rightarrow> nat \<Rightarrow> node \<Rightarrow> node option" where
  \<comment> \<open>a new block with the bytes (and room for \<open>extra\<close> more) is handed over to the receiver\<close>
  "send_block w ctx source destination type bytes extra n =
     do { let (temp, n1) = node_malloc (Bytes (bytes @ replicate extra NUL)) n;
          (_, n2) \<leftarrow> uboss_send w ctx source destination (type OR PTYPE_TAG_DONTCOPY) 0 temp (word_of_nat (length bytes)) n1;
          Some n2 }"

definition data_head :: "connection \<Rightarrow> string" where
  "data_head c = print_d (sint (co_id c)) @ '' data ''"

definition deliver :: "world \<Rightarrow> gate \<Rightarrow> connection \<Rightarrow> string \<Rightarrow> node \<Rightarrow> node option" where
  \<comment> \<open>where \<open>_forward\<close> sends the bytes it has read\<close>
  "deliver w g c bytes n =
     (if ga_broker g \<noteq> 0 then send_block w (ga_ctx g) 0 (ga_broker g) (ga_client_tag g) bytes 0 n
      else if co_agent c \<noteq> 0 then send_block w (ga_ctx g) (co_client c) (co_agent c) (ga_client_tag g) bytes 0 n
      else send_block w (ga_ctx g) 0 (ga_watchdog g) PTYPE_TEXT (data_head c @ bytes) (32 - length (data_head c)) n)"

definition forward :: "world \<Rightarrow> nat \<Rightarrow> int \<Rightarrow> gate \<Rightarrow> node \<Rightarrow> (gate \<times> node) option" where
  \<comment> \<open>without broker, agent and watchdog nothing is read\<close>
  "forward w i sz g n =
     do { c \<leftarrow> conn_at i g;
          if ga_broker g \<noteq> 0 \<or> co_agent c \<noteq> 0 \<or> ga_watchdog g \<noteq> 0 then do {
            (bytes, db, mp) \<leftarrow> databuffer_read (co_buffer c) (ga_mp g) sz;
            n1 \<leftarrow> deliver w g c bytes n;
            Some (put_buffer i db mp g, n1) }
          else Some (g, n) }"

partial_function (option) gate_loop :: "world \<Rightarrow> kernel \<Rightarrow> nat \<Rightarrow> i32 \<Rightarrow> machine \<Rightarrow> machine option" where
  \<comment> \<open>the loop of \<open>dispatch_message\<close> on connection \<open>i\<close>\<close>
  "gate_loop w K i sid m =
     (case m of (g, n, ss) \<Rightarrow> do {
        c \<leftarrow> conn_at i g;
        (size, db, mp) \<leftarrow> databuffer_readheader (co_buffer c) (ga_mp g) (ga_header_size g);
        let g1 = put_buffer i db mp g;
        if size < 0 then Some (g1, n, ss)
        else if 0 < size then
          if 0x1000000 \<le> size then do {
            (db2, mp2) \<leftarrow> databuffer_clear db mp;
            ss1 \<leftarrow> uboss_socket_close K (ga_ctx g) sid n ss;
            n1 \<leftarrow> uboss_error w (ga_ctx g) ''Recv socket message > 16M'' n;
            Some (put_buffer i db2 mp2 g1, n1, ss1) }
          else do {
            (g2, n1) \<leftarrow> forward w i size g1 n;
            c2 \<leftarrow> conn_at i g2;
            gate_loop w K i sid (put_buffer i (databuffer_reset (co_buffer c2)) (ga_mp g2) g2, n1, ss) }
        else gate_loop w K i sid (g1, n, ss) })"

definition gate_dispatch :: "world \<Rightarrow> kernel \<Rightarrow> nat \<Rightarrow> i32 \<Rightarrow> string \<Rightarrow> int \<Rightarrow> machine \<Rightarrow> machine option" where
  \<comment> \<open>\<open>dispatch_message\<close>\<close>
  "gate_dispatch w K i sid data sz = (\<lambda>(g, n, ss). do {
     c \<leftarrow> conn_at i g;
     (db, mp) \<leftarrow> databuffer_push (co_buffer c) (ga_mp g) data sz;
     gate_loop w K i sid (put_buffer i db mp g, n, ss) })"

section \<open>Events of the socket server\<close>

definition take_block :: "ptr \<Rightarrow> node \<Rightarrow> (string \<times> node) option" where
  "take_block p n =
     (case nd_mem n p of Some (Bytes bs) \<Rightarrow> Some (bs, n\<lparr>nd_mem := (nd_mem n)(p := None)\<rparr>) | _ \<Rightarrow> None)"

definition socket_data :: "world \<Rightarrow> kernel \<Rightarrow> uboss_socket_message \<Rightarrow> machine \<Rightarrow> machine option" where
  "socket_data w K message = (\<lambda>(g, n, ss). do {
     r \<leftarrow> hashid_lookup (ga_hash g) (sk_id message);
     case r of
       Some i \<Rightarrow> do {
         (bytes, n1) \<leftarrow> take_block (sk_buffer message) n;
         gate_dispatch w K i (sk_id message) bytes (sint (sk_ud message)) (g, n1, ss) }
     | None \<Rightarrow> do {
         n1 \<leftarrow> uboss_error w (ga_ctx g) (''Drop unknown connection '' @ print_d (sint (sk_id message)) @ '' message'') n;
         ss1 \<leftarrow> uboss_socket_close K (ga_ctx g) (sk_id message) n1 ss;
         n2 \<leftarrow> node_free (sk_buffer message) n1;
         Some (g, n2, ss1) } })"

definition socket_closed :: "world \<Rightarrow> uboss_socket_message \<Rightarrow> machine \<Rightarrow> machine option" where
  "socket_closed w message = (\<lambda>(g, n, ss). do {
     (r, hi) \<leftarrow> hashid_remove (ga_hash g) (sk_id message);
     let g1 = g\<lparr>ga_hash := hi\<rparr>;
     case r of
       None \<Rightarrow> Some (g1, n, ss)
     | Some i \<Rightarrow> do {
         c \<leftarrow> conn_at i g1;
         (db, mp) \<leftarrow> databuffer_clear (co_buffer c) (ga_mp g1);
         let g2 = put_conn i (conn_zero\<lparr>co_id := - 1\<rparr>) (g1\<lparr>ga_mp := mp\<rparr>);
         n1 \<leftarrow> report w (print_d (sint (sk_id message)) @ '' close'') g2 n;
         Some (g2, n1, ss) } })"

definition socket_accept :: "world \<Rightarrow> kernel \<Rightarrow> uboss_socket_message \<Rightarrow> string \<Rightarrow> nat \<Rightarrow> machine \<Rightarrow> machine option" where
  \<comment> \<open>\<open>padding\<close> follows the message, \<open>sz\<close> is its length\<close>
  "socket_accept w K message padding sz = (\<lambda>(g, n, ss). do {
     guard (ga_listen_id g = sk_id message);
     if hashid_full (ga_hash g)
     then do { ss1 \<leftarrow> uboss_socket_close K (ga_ctx g) (sk_ud message) n ss; Some (g, n, ss1) }
     else do {
       (i, hi) \<leftarrow> hashid_insert (ga_hash g) (sk_ud message);
       let g1 = g\<lparr>ga_hash := hi\<rparr>;
       c \<leftarrow> conn_at i g1;
       let len = min sz 31;
       guard (len \<le> length padding);
       let name = c_str (take len padding);
       let c1 = c\<lparr>co_id := sk_ud message, co_remote_name := name\<rparr>;
       let g2 = put_conn i c1 g1;
       let t = print_d (sint (co_id c1));
       n1 \<leftarrow> report w (t @ '' open '' @ t @ '' '' @ name @ '':0'') g2 n;
       n2 \<leftarrow> uboss_error w (ga_ctx g2) (''socket open: '' @ print_x (unat (co_id c1))) n1;
       Some (g2, n2, ss) } })"

definition dispatch_socket_message :: "world \<Rightarrow> kernel \<Rightarrow> uboss_socket_message \<Rightarrow> string \<Rightarrow> nat \<Rightarrow> machine \<Rightarrow> machine option" where
  "dispatch_socket_message w K message padding sz = (\<lambda>(g, n, ss).
     if sk_type message = UBOSS_SOCKET_TYPE_DATA then socket_data w K message (g, n, ss)
     else if sk_type message = UBOSS_SOCKET_TYPE_CONNECT then
       if sk_id message = ga_listen_id g then Some (g, n, ss)
       else do {
         r \<leftarrow> hashid_lookup (ga_hash g) (sk_id message);
         case r of
           Some _ \<Rightarrow> Some (g, n, ss)
         | None \<Rightarrow> do {
             n1 \<leftarrow> uboss_error w (ga_ctx g) (''Close unknown connection '' @ print_d (sint (sk_id message))) n;
             ss1 \<leftarrow> uboss_socket_close K (ga_ctx g) (sk_id message) n1 ss;
             Some (g, n1, ss1) } }
     else if sk_type message = UBOSS_SOCKET_TYPE_CLOSE \<or> sk_type message = UBOSS_SOCKET_TYPE_ERROR
     then socket_closed w message (g, n, ss)
     else if sk_type message = UBOSS_SOCKET_TYPE_ACCEPT then socket_accept w K message padding sz (g, n, ss)
     else if sk_type message = UBOSS_SOCKET_TYPE_WARNING then do {
       n1 \<leftarrow> uboss_error w (ga_ctx g) (''fd ('' @ print_d (sint (sk_id message)) @ '') send buffer ('' @
              print_d (sint (sk_ud message)) @ '')K'') n;
       Some (g, n1, ss) }
     else Some (g, n, ss))"

section \<open>The callback\<close>

definition client_id :: "string \<Rightarrow> u32" where
  \<comment> \<open>the last four bytes, the lowest first\<close>
  "client_id bs = (let k = length bs - 4
     in word_of_nat (of_char (bs ! k)) OR push_bit 8 (word_of_nat (of_char (bs ! (k + 1))))
        OR push_bit 16 (word_of_nat (of_char (bs ! (k + 2)))) OR push_bit 24 (word_of_nat (of_char (bs ! (k + 3)))))"

definition client_message :: "world \<Rightarrow> kernel \<Rightarrow> u32 \<Rightarrow> ptr \<Rightarrow> u64 \<Rightarrow> machine \<Rightarrow> (i32 \<times> machine) option" where
  "client_message w K source msg sz = (\<lambda>(g, n, ss).
     if sz \<le> 4 then do {
       n1 \<leftarrow> uboss_error w (ga_ctx g) (''Invalid client message from '' @ print_x (unat source)) n;
       Some (0, g, n1, ss) }
     else (case nd_mem n msg of
       Some (Bytes bs) \<Rightarrow> do {
         guard (unat sz \<le> length bs);
         let uid = client_id (take (unat sz) bs);
         r \<leftarrow> hashid_lookup (ga_hash g) uid;
         case r of
           Some _ \<Rightarrow> do {
             (_, n1, ss1) \<leftarrow> uboss_socket_send K uid msg (ucast (sz - 4)) n ss;
             Some (1, g, n1, ss1) }
         | None \<Rightarrow> do {
             n1 \<leftarrow> uboss_error w (ga_ctx g) (''Invalid client id '' @ print_d (sint uid) @ '' from '' @ print_x (unat source)) n;
             Some (0, g, n1, ss) } }
     | _ \<Rightarrow> None))"

definition gate_cb :: "world \<Rightarrow> kernel \<Rightarrow> u32 \<Rightarrow> u32 \<Rightarrow> ptr \<Rightarrow> u64 \<Rightarrow> machine \<Rightarrow> (i32 \<times> machine) option" where
  \<comment> \<open>\<open>_cb\<close>; the result 1 keeps the message from being freed\<close>
  "gate_cb w K type source msg sz = (\<lambda>(g, n, ss).
     if type = PTYPE_TEXT then
       do { text \<leftarrow> (if sz = 0 then Some []
                     else case nd_mem n msg of
                            Some (Bytes bs) \<Rightarrow> do { guard (unat sz \<le> length bs); Some (take (unat sz) bs) }
                          | _ \<Rightarrow> None);
            m \<leftarrow> ctrl w K text (g, n, ss);
            Some (0, m) }
     else if type = PTYPE_CLIENT then client_message w K source msg sz (g, n, ss)
     else if type = PTYPE_SOCKET then
       (case nd_mem n msg of
          Some (Socket message padding) \<Rightarrow> do {
            guard (sizeof_socket_message \<le> unat sz);
            m \<leftarrow> dispatch_socket_message w K message padding (unat sz - sizeof_socket_message) (g, n, ss);
            Some (0, m) }
        | _ \<Rightarrow> None)
     else Some (0, g, n, ss))"

section \<open>Starting the gate\<close>

definition start_listen :: "world \<Rightarrow> kernel \<Rightarrow> string \<Rightarrow> machine \<Rightarrow> (i32 \<times> machine) option" where
  "start_listen w K listen_addr = (\<lambda>(g, n, ss). do {
     let host = takeWhile (\<lambda>c. c \<noteq> CHR '':'') listen_addr;
     let portstr = dropWhile (\<lambda>c. c \<noteq> CHR '':'') listen_addr;
     let port = (word_of_int (strtol10 (if portstr = [] then listen_addr else tl portstr)) :: i32);
     if sint port \<le> 0 then do {
       n1 \<leftarrow> uboss_error w (ga_ctx g) (''Invalid gate address '' @ listen_addr) n;
       Some (1, g, n1, ss) }
     else do {
       (lid, ss1) \<leftarrow> uboss_socket_listen K (ga_ctx g) (Some (if portstr = [] then [] else host)) port BACKLOG n ss;
       let g1 = g\<lparr>ga_listen_id := lid\<rparr>;
       if sint lid < 0 then Some (1, g1, n, ss1)
       else do { ss2 \<leftarrow> uboss_socket_start K (ga_ctx g1) lid n ss1; Some (0, g1, n, ss2) } } })"

definition scan_gate :: "string \<Rightarrow> (nat \<times> char \<times> string \<times> string \<times> i32 \<times> i32)" where
  \<comment> \<open>\<open>sscanf(parm, "%c %s %s %d %d", ...)\<close>: how many items, and the items; \<open>client_tag\<close> and \<open>max\<close> are 0 before\<close>
  "scan_gate parm =
     (case parm of
        [] \<Rightarrow> (0, NUL, [], [], 0, 0)
      | header # r0 \<Rightarrow>
          (let (watchdog, r1) = scan_word r0; (binding, r2) = scan_word r1
           in if watchdog = [] then (1, header, [], [], 0, 0)
              else if binding = [] then (2, header, watchdog, [], 0, 0)
              else case scan_int r2 of
                     None \<Rightarrow> (3, header, watchdog, binding, 0, 0)
                   | Some (tag, r3) \<Rightarrow>
                       (case scan_int r3 of
                          None \<Rightarrow> (4, header, watchdog, binding, tag, 0)
                        | Some (mx, _) \<Rightarrow> (5, header, watchdog, binding, tag, mx))))"

definition gate_setup :: "ptr \<Rightarrow> u32 \<Rightarrow> i32 \<Rightarrow> char \<Rightarrow> nat \<Rightarrow> gate \<Rightarrow> gate" where
  \<comment> \<open>the assignments of \<open>gate_init\<close> before \<open>uboss_callback\<close>\<close>
  "gate_setup ctx watchdog tag header mx g =
     g\<lparr>ga_watchdog := watchdog, ga_ctx := ctx, ga_hash := hashid_init mx,
       ga_conn := replicate mx (conn_zero\<lparr>co_id := - 1\<rparr>), ga_max_connection := mx, ga_client_tag := tag,
       ga_header_size := (if header = CHR ''S'' then 2 else 4)\<rparr>"

definition gate_init :: "world \<Rightarrow> kernel \<Rightarrow> ptr \<Rightarrow> ptr \<Rightarrow> ptr \<Rightarrow> string option \<Rightarrow> machine \<Rightarrow> (i32 \<times> machine) option" where
  \<comment> \<open>\<open>self\<close> and \<open>cb\<close> are the addresses of the gate and of \<open>_cb\<close>\<close>
  "gate_init w K self cb ctx parm = (\<lambda>(g, n, ss).
     case parm of
       None \<Rightarrow> Some (1, g, n, ss)
     | Some p \<Rightarrow>
         (let (k, header, watchdog, binding, tag, mx) = scan_gate p;
              fail = (\<lambda>text. do { n1 \<leftarrow> uboss_error w ctx text n; Some (1, g, n1, ss) })
          in if k < 4 then fail (''Invalid gate parm '' @ p)
             else if sint mx \<le> 0 then fail ''Need max connection''
             else if header \<noteq> CHR ''S'' \<and> header \<noteq> CHR ''L'' then fail ''Invalid data header style''
             else do {
               (h, n1) \<leftarrow> (if hd watchdog = CHR ''!'' then Some (0, n) else uboss_queryname w ctx watchdog n);
               if hd watchdog \<noteq> CHR ''!'' \<and> h = 0 then do {
                 n2 \<leftarrow> uboss_error w ctx (''Invalid watchdog '' @ watchdog) n1;
                 Some (1, g\<lparr>ga_watchdog := h\<rparr>, n2, ss) }
               else do {
                 let g1 = gate_setup ctx h (if tag = 0 then PTYPE_CLIENT else tag) header (nat (sint mx)) g;
                 n2 \<leftarrow> uboss_callback ctx self cb n1;
                 start_listen w K binding (g1, n2, ss) } }))"

end
