(* ===== verification/GateProps.thy ===== *)
theory GateProps
  imports Gate "HOL-Library.Multiset"
begin

text \<open>
  The gate cuts the stream of a connection into packets: whatever the blocks are in which the
  bytes arrive, the packets handed on are those of the wire format, in order, each once.
\<close>

section \<open>Streams and prefixes\<close>

function headers_ok :: "nat \<Rightarrow> string \<Rightarrow> bool" where
  \<comment> \<open>no length in the stream is negative (as an \<open>int\<close>) or 16M or more\<close>
  "headers_ok hs s \<longleftrightarrow>
     length s < hs \<or> hs = 0 \<or>
     (0 \<le> be_int (take hs s) \<and> be_int (take hs s) < 0x1000000 \<and>
      (case cut hs s of None \<Rightarrow> True | Some (p, r) \<Rightarrow> headers_ok hs r))"
  by pat_completeness auto
termination
  by (relation "measure (\<lambda>(hs, s). length s)") (auto dest: cut_shorter)

declare headers_ok.simps [simp del]

lemma cut_append: "cut hs s = Some (p, r) \<Longrightarrow> cut hs (s @ t) = Some (p, r @ t)"
  by (auto simp: cut_def Let_def split: if_splits)

lemma cut_hs: "cut hs s = Some x \<Longrightarrow> hs \<le> length s \<and> 0 < hs"
  by (auto simp: cut_def split: if_splits)

lemma split_stream_append:
  "split_stream hs (s @ t) =
     (fst (split_stream hs s) @ fst (split_stream hs (snd (split_stream hs s) @ t)), snd (split_stream hs (snd (split_stream hs s) @ t)))"
proof (induction hs s rule: split_stream.induct)
  case (1 hs s)
  show ?case
  proof (cases "cut hs s")
    case None
    then have "split_stream hs s = ([], s)" by (simp add: split_stream.simps)
    then show ?thesis by simp
  next
    case (Some x)
    obtain p r where x: "x = (p, r)" by fastforce
    have "split_stream hs s = (p # fst (split_stream hs r), snd (split_stream hs r))"
      using Some x by (simp add: split_stream.simps [of hs s] split: prod.splits)
    moreover have "split_stream hs (s @ t) = (p # fst (split_stream hs (r @ t)), snd (split_stream hs (r @ t)))"
      using cut_append Some x by (simp add: split_stream.simps [of hs "s @ t"] split: prod.splits)
    ultimately show ?thesis using "1.IH" [OF Some x [symmetric]] by simp
  qed
qed

lemma headers_ok_append:
  "headers_ok hs (s @ t) \<Longrightarrow> headers_ok hs s \<and> headers_ok hs (snd (split_stream hs s) @ t)"
proof (induction hs s rule: split_stream.induct)
  case (1 hs s)
  show ?case
  proof (cases "cut hs s")
    case None
    then have "split_stream hs s = ([], s)" by (simp add: split_stream.simps)
    moreover have "headers_ok hs s"
      using "1.prems" None by (auto simp: headers_ok.simps [of hs s] headers_ok.simps [of hs "s @ t"])
    ultimately show ?thesis using "1.prems" by simp
  next
    case (Some x)
    obtain p r where x: "x = (p, r)" by fastforce
    have hs: "hs \<le> length s" "0 < hs" using cut_hs [OF Some] by simp_all
    have st: "split_stream hs s = (p # fst (split_stream hs r), snd (split_stream hs r))"
      using Some x by (simp add: split_stream.simps [of hs s] split: prod.splits)
    have cutst: "cut hs (s @ t) = Some (p, r @ t)" using cut_append Some x by simp
    have "headers_ok hs (r @ t)" "0 \<le> be_int (take hs s)" "be_int (take hs s) < 0x1000000"
      using "1.prems" cutst hs by (simp_all add: headers_ok.simps [of hs "s @ t"])
    moreover from "1.IH" [OF Some x [symmetric] this(1)]
    have "headers_ok hs r" "headers_ok hs (snd (split_stream hs r) @ t)" by simp_all
    ultimately show ?thesis using st Some x by (simp add: headers_ok.simps [of hs s])
  qed
qed

text \<open>With two-byte headers there is nothing to check.\<close>

lemma be_int_two: "length bs = 2 \<Longrightarrow> 0 \<le> be_int bs \<and> be_int bs < 0x10000"
proof -
  assume "length bs = 2"
  then obtain a b where bs: "bs = [a, b]" by (auto simp: length_Suc_conv numeral_2_eq_2)
  have "(of_char a :: nat) * 256 + of_char b < 0x10000"
    using nat_of_char_less_256 [of a] nat_of_char_less_256 [of b] by linarith
  then have "int (of_char a) * 256 + int (of_char b) < 0x10000" by linarith
  then show ?thesis by (simp add: bs be_int_def)
qed

lemma headers_ok_two: "headers_ok 2 s"
proof (induction "length s" arbitrary: s rule: less_induct)
  case less
  show ?case
  proof (cases "length s < 2")
    case False
    then have "0 \<le> be_int (take 2 s) \<and> be_int (take 2 s) < 0x10000" by (intro be_int_two) simp
    then show ?thesis using less by (auto simp: headers_ok.simps [of 2 s] dest: cut_shorter split: option.splits)
  qed (simp add: headers_ok.simps)
qed

section \<open>The loop\<close>

fun deliver_all :: "world \<Rightarrow> gate \<Rightarrow> connection \<Rightarrow> string list \<Rightarrow> node \<Rightarrow> node option" where
  "deliver_all w g c [] n = Some n"
| "deliver_all w g c (p # ps) n = do { n1 \<leftarrow> deliver w g c p n; deliver_all w g c ps n1 }"

lemma deliver_all_append:
  "deliver_all w g c (ps @ qs) n = do { n1 \<leftarrow> deliver_all w g c ps n; deliver_all w g c qs n1 }"
  by (induction ps arbitrary: n) (auto split: bind_splits)

definition has_target :: "gate \<Rightarrow> connection \<Rightarrow> bool" where
  "has_target g c \<longleftrightarrow> ga_broker g \<noteq> 0 \<or> co_agent c \<noteq> 0 \<or> ga_watchdog g \<noteq> 0"

definition with_buffer :: "gate \<Rightarrow> nat \<Rightarrow> databuffer \<Rightarrow> messagepool \<Rightarrow> gate" where
  "with_buffer g i db mp = put_buffer i db mp g"

lemma put_buffer_twice [simp]: "put_buffer i db mp (put_buffer i db' mp' g) = put_buffer i db mp g"
  by (cases "i < length (ga_conn g)") (simp_all add: put_buffer_def list_update_beyond)

lemma put_buffer_simps [simp]:
  "ga_mp (put_buffer i db mp g) = mp" "ga_header_size (put_buffer i db mp g) = ga_header_size g"
  "ga_ctx (put_buffer i db mp g) = ga_ctx g" "length (ga_conn (put_buffer i db mp g)) = length (ga_conn g)"
  "ga_hash (put_buffer i db mp g) = ga_hash g"
  by (simp_all add: put_buffer_def)

lemma conn_at_put_buffer:
  "conn_at i g = Some c \<Longrightarrow> conn_at i (put_buffer i db mp g) = Some (c\<lparr>co_buffer := db\<rparr>)"
  by (auto simp: conn_at_def put_buffer_def split: if_splits)

lemma deliver_put_buffer [simp]: "deliver w (put_buffer i db mp g) (c\<lparr>co_buffer := db'\<rparr>) = deliver w g c"
  by (simp add: fun_eq_iff deliver_def put_buffer_def data_head_def)

lemma deliver_all_put_buffer [simp]: "deliver_all w (put_buffer i db mp g) (c\<lparr>co_buffer := db'\<rparr>) ps n = deliver_all w g c ps n"
  by (induction ps arbitrary: n) (simp_all add: fun_eq_iff cong: Option.bind_cong)

lemma has_target_put_buffer [simp]: "has_target (put_buffer i db mp g) (c\<lparr>co_buffer := db'\<rparr>) = has_target g c"
  by (simp add: has_target_def put_buffer_def)

lemma forward_reads:
  assumes "conn_at i g = Some c" "has_target g c"
  shows "forward w i sz g n =
    do { (bytes, db, mp) \<leftarrow> databuffer_read (co_buffer c) (ga_mp g) sz; n1 \<leftarrow> deliver w g c bytes n; Some (put_buffer i db mp g, n1) }"
  using assms by (auto simp: forward_def has_target_def)

lemma gate_loop_cuts:
  assumes "conn_at i g = Some c" "has_target g c" "ga_header_size g = int hs" "hs = 2 \<or> hs = 4"
    "db_repr hs (co_buffer c) S" "pool_ok (ga_mp g) (db_nodes (co_buffer c) @ others)" "headers_ok hs S"
  shows "\<exists>db mp. db_repr hs db (snd (split_stream hs S)) \<and> pool_ok mp (db_nodes db @ others) \<and>
    (\<forall>n. gate_loop w K i sid (g, n, ss) =
       map_option (\<lambda>n'. (put_buffer i db mp g, n', ss)) (deliver_all w g c (filter (\<lambda>p. p \<noteq> []) (fst (split_stream hs S))) n))"
  using assms
proof (induction "length S" arbitrary: S g c rule: less_induct)
  case less
  have nonneg: "0 \<le> be_int (take hs S)" if "hs \<le> length S"
    using less.prems(4,7) that by (auto simp: headers_ok.simps [of hs S])
  obtain r db mp where hdr: "databuffer_readheader (co_buffer c) (ga_mp g) (int hs) = Some (r, db, mp)"
      and pool: "pool_ok mp (db_nodes db @ others)"
      and cases: "case cut hs S of None \<Rightarrow> r = - 1 \<and> db_repr hs db S
        | Some (p, rest) \<Rightarrow> r = int (length p) \<and> db_header db = r \<and> db_ok db \<and> db_bytes db = p @ rest"
    using readheader_cases [OF less.prems(5,4,6) nonneg] by blast
  let ?g = "put_buffer i db mp g" and ?c = "c\<lparr>co_buffer := db\<rparr>"
  note loop = gate_loop.simps [of w K i sid "(g, n, ss)" for n]
  have c1: "conn_at i ?g = Some ?c" by (rule conn_at_put_buffer [OF less.prems(1)])
  show ?case
  proof (cases "cut hs S")
    case None
    then have "r = - 1" "db_repr hs db S" "split_stream hs S = ([], S)" using cases by (simp_all add: split_stream.simps)
    then show ?thesis using loop less.prems(1,3) hdr pool by auto
  next
    case (Some x)
    obtain p rest where x: "x = (p, rest)" by fastforce
    have shorter: "length rest < length S" using cut_shorter Some x by blast
    have r: "r = int (length p)" "db_header db = r" "db_ok db" "db_bytes db = p @ rest" using cases Some x by auto
    have split: "split_stream hs S = (p # fst (split_stream hs rest), snd (split_stream hs rest))"
      using Some x by (simp add: split_stream.simps [of hs S] split: prod.splits)
    have ok': "headers_ok hs rest" and small: "r < 0x1000000"
    proof -
      have len: "hs \<le> length S" "0 < hs" using cut_hs [OF Some] by simp_all
      have H: "be_int (take hs S) < 0x1000000" "headers_ok hs rest"
        using less.prems(7) len Some x by (simp_all add: headers_ok.simps [of hs S])
      then show "headers_ok hs rest" by simp
      have "length p = nat (be_int (take hs S))" using Some x by (auto simp: cut_def Let_def split: if_splits)
      then show "r < 0x1000000" using H(1) r(1) nonneg [OF len(1)] by simp
    qed
    show ?thesis
    proof (cases "p = []")
      case True
      then have "db_repr hs db rest" using r by (simp add: db_repr_def)
      then obtain db2 mp2 where "db_repr hs db2 (snd (split_stream hs rest))" "pool_ok mp2 (db_nodes db2 @ others)"
          "\<forall>n. gate_loop w K i sid (?g, n, ss) = map_option (\<lambda>n'. (put_buffer i db2 mp2 ?g, n', ss))
             (deliver_all w ?g ?c (filter (\<lambda>p. p \<noteq> []) (fst (split_stream hs rest))) n)"
        using less.hyps [OF shorter c1] less.prems(2-4) pool ok' by auto
      moreover have "gate_loop w K i sid (g, n, ss) = gate_loop w K i sid (?g, n, ss)" for n
        using loop less.prems(1,3) hdr r(1) True by simp
      ultimately show ?thesis using split True by auto
    next
      case False
      then have pos: "0 < r" using r(1) by simp
      have "r \<le> db_size db" using r by (simp add: db_ok_def)
      then obtain db2 mp2 where rd: "databuffer_read db mp r = Some (p, db2, mp2)" "db_ok db2" "db_bytes db2 = rest"
          "pool_ok mp2 (db_nodes db2 @ others)"
        using databuffer_read_ok [OF r(3) pos _ pool] r(1,4) by auto
      let ?db = "databuffer_reset db2" and ?c2 = "c\<lparr>co_buffer := databuffer_reset db2\<rparr>"
      let ?g2 = "put_buffer i ?db mp2 g"
      have rep2: "db_repr hs ?db rest" "db_nodes ?db = db_nodes db2"
        using rd(2,3) by (auto simp: db_repr_def databuffer_reset_def db_ok_def db_bytes_def db_nodes_def)
      have c2: "conn_at i ?g2 = Some ?c2" by (rule conn_at_put_buffer [OF less.prems(1)])
      obtain db3 mp3 where ih: "db_repr hs db3 (snd (split_stream hs rest))" "pool_ok mp3 (db_nodes db3 @ others)"
          "\<forall>m. gate_loop w K i sid (?g2, m, ss) = map_option (\<lambda>n'. (put_buffer i db3 mp3 ?g2, n', ss))
            (deliver_all w ?g2 ?c2 (filter (\<lambda>p. p \<noteq> []) (fst (split_stream hs rest))) m)"
        using less.hyps [OF shorter c2] less.prems(2-4) rd(4) rep2 ok' by auto
      have fw: "forward w i r ?g n = map_option (\<lambda>n1. (put_buffer i db2 mp2 g, n1)) (deliver w g c p n)" for n
        using forward_reads [OF c1, of w r n] less.prems(2) rd(1) by (cases "deliver w g c p n") simp_all
      have "gate_loop w K i sid (g, n, ss) = do { n1 \<leftarrow> deliver w g c p n; gate_loop w K i sid (?g2, n1, ss) }" for n
        using loop [of n] less.prems(1,3) hdr pos small fw conn_at_put_buffer [OF less.prems(1), of db2 mp2]
        by (cases "deliver w g c p n") (simp_all add: not_le)
      then have "gate_loop w K i sid (g, n, ss) = map_option (\<lambda>n'. (put_buffer i db3 mp3 g, n', ss))
          (deliver_all w g c (filter (\<lambda>p. p \<noteq> []) (fst (split_stream hs S))) n)" for n
        using ih(3) split False by (cases "deliver w g c p n") simp_all
      then show ?thesis using ih(1,2) split by auto
    qed
  qed
qed

section \<open>Arbitrary blocks\<close>

fun feed :: "world \<Rightarrow> kernel \<Rightarrow> nat \<Rightarrow> i32 \<Rightarrow> string list \<Rightarrow> machine \<Rightarrow> machine option" where
  \<comment> \<open>the blocks of a connection, as they arrive\<close>
  "feed w K i sid [] m = Some m"
| "feed w K i sid (d # ds) m = do { m1 \<leftarrow> gate_dispatch w K i sid d (int (length d)) m; feed w K i sid ds m1 }"

lemma split_stream_rest: "cut hs (snd (split_stream hs s)) = None"
proof (induction hs s rule: split_stream.induct)
  case (1 hs s)
  then show ?case by (cases "cut hs s") (auto simp: split_stream.simps [of hs s] split: prod.splits)
qed

lemma split_stream_done: "cut hs s = None \<Longrightarrow> split_stream hs s = ([], s)"
  by (simp add: split_stream.simps)

lemma split_stream_rest_length: "length (snd (split_stream hs s)) \<le> length s"
proof (induction hs s rule: split_stream.induct)
  case (1 hs s)
  show ?case
  proof (cases "cut hs s")
    case (Some x)
    obtain p r where x: "x = (p, r)" by fastforce
    then have "length (snd (split_stream hs r)) \<le> length r" using "1.IH" [OF Some] by simp
    then show ?thesis using cut_shorter [of hs s p r] Some x
      by (auto simp: split_stream.simps [of hs s] split: prod.splits)
  qed (simp add: split_stream_done)
qed

lemma db_repr_size: "db_repr hs db S \<Longrightarrow> db_size db \<le> int (length S)"
  by (auto simp: db_repr_def db_ok_def split: if_splits)

lemma gate_dispatch_cuts:
  assumes "conn_at i g = Some c" "has_target g c" "ga_header_size g = int hs" "hs = 2 \<or> hs = 4"
    "db_repr hs (co_buffer c) S" "pool_ok (ga_mp g) (db_nodes (co_buffer c) @ others)" "headers_ok hs (S @ d)"
    "d \<noteq> []" "length (S @ d) < 2 ^ 31"
  shows "\<exists>db mp. db_repr hs db (snd (split_stream hs (S @ d))) \<and> pool_ok mp (db_nodes db @ others) \<and>
    (\<forall>n. gate_dispatch w K i sid d (int (length d)) (g, n, ss) =
       map_option (\<lambda>n'. (put_buffer i db mp g, n', ss)) (deliver_all w g c (filter (\<lambda>p. p \<noteq> []) (fst (split_stream hs (S @ d)))) n))"
proof -
  have "db_size (co_buffer c) + int (length d) < 2 ^ 31" using db_repr_size [OF assms(5)] assms(9) by simp
  then obtain db mp where push: "databuffer_push (co_buffer c) (ga_mp g) d (int (length d)) = Some (db, mp)"
      and rep: "db_repr hs db (S @ d)" and pool: "pool_ok mp (db_nodes db @ others)"
    using db_repr_push [OF assms(5,6), of "int (length d)" d] assms(8) by auto
  let ?g = "put_buffer i db mp g" and ?c = "c\<lparr>co_buffer := db\<rparr>"
  have "\<exists>db' mp'. db_repr hs db' (snd (split_stream hs (S @ d))) \<and> pool_ok mp' (db_nodes db' @ others) \<and>
      (\<forall>n. gate_loop w K i sid (?g, n, ss) = map_option (\<lambda>n'. (put_buffer i db' mp' ?g, n', ss))
         (deliver_all w ?g ?c (filter (\<lambda>p. p \<noteq> []) (fst (split_stream hs (S @ d)))) n))"
    using assms(2-4,7) rep pool by (intro gate_loop_cuts conn_at_put_buffer [OF assms(1)]) simp_all
  then show ?thesis using assms(1) push by (simp add: gate_dispatch_def)
qed

text \<open>C11. The gate reads the wire format whatever the blocks: the bytes of a connection, in any
  blocks and with any bytes left from before, lead to the same deliveries as cutting the
  concatenated stream by the reference \<open>split_stream\<close>, empty packets left out, in order; what
  remains buffered represents the rest of the stream, and the nodes of the pool stay in one
  list each. (For lengths below 16M, and a connection with a receiver.)\<close>

theorem gate_cuts_stream:
  assumes "conn_at i g = Some c" "has_target g c" "ga_header_size g = int hs" "hs = 2 \<or> hs = 4"
    "db_repr hs (co_buffer c) S" "pool_ok (ga_mp g) (db_nodes (co_buffer c) @ others)" "cut hs S = None"
    "headers_ok hs (S @ concat ds)" "\<forall>d\<in>set ds. d \<noteq> []" "length (S @ concat ds) < 2 ^ 31"
  shows "\<exists>db mp. db_repr hs db (snd (split_stream hs (S @ concat ds))) \<and> pool_ok mp (db_nodes db @ others) \<and>
    (\<forall>n. feed w K i sid ds (g, n, ss) =
       map_option (\<lambda>n'. (put_buffer i db mp g, n', ss))
         (deliver_all w g c (filter (\<lambda>p. p \<noteq> []) (fst (split_stream hs (S @ concat ds)))) n))"
  using assms
proof (induction ds arbitrary: S g c)
  case Nil
  have "put_buffer i (co_buffer c) (ga_mp g) g = g"
    using Nil(1) by (auto simp: put_buffer_def conn_at_def list_update_same_conv split: if_splits)
  then show ?case using Nil by (intro exI [of _ "co_buffer c"] exI [of _ "ga_mp g"]) (simp add: split_stream_done)
next
  case (Cons d ds)
  let ?S = "snd (split_stream hs (S @ d))" and ?ps = "\<lambda>s. filter (\<lambda>p. p \<noteq> []) (fst (split_stream hs s))"
  have H: "headers_ok hs (S @ d)" "headers_ok hs (?S @ concat ds)"
    using headers_ok_append [of hs "S @ d" "concat ds"] Cons.prems(8) by simp_all
  have sp: "split_stream hs (S @ concat (d # ds)) =
      (fst (split_stream hs (S @ d)) @ fst (split_stream hs (?S @ concat ds)), snd (split_stream hs (?S @ concat ds)))"
    using split_stream_append [of hs "S @ d" "concat ds"] by simp
  obtain db mp where d: "db_repr hs db ?S" "pool_ok mp (db_nodes db @ others)"
      "\<forall>n. gate_dispatch w K i sid d (int (length d)) (g, n, ss) =
         map_option (\<lambda>n'. (put_buffer i db mp g, n', ss)) (deliver_all w g c (?ps (S @ d)) n)"
    using gate_dispatch_cuts [OF Cons.prems(1-6) H(1), of w K sid ss] Cons.prems(9,10) by auto
  let ?g = "put_buffer i db mp g" and ?c = "c\<lparr>co_buffer := db\<rparr>"
  have len: "length (?S @ concat ds) < 2 ^ 31"
    using split_stream_rest_length [of hs "S @ d"] Cons.prems(10) by simp
  obtain db' mp' where ds: "db_repr hs db' (snd (split_stream hs (?S @ concat ds)))" "pool_ok mp' (db_nodes db' @ others)"
      "\<forall>n. feed w K i sid ds (?g, n, ss) = map_option (\<lambda>n'. (put_buffer i db' mp' ?g, n', ss))
         (deliver_all w ?g ?c (?ps (?S @ concat ds)) n)"
    using Cons.IH [OF conn_at_put_buffer [OF Cons.prems(1)], of db mp ?S] Cons.prems(2-4,9) d(1,2) H(2) len
    by (auto simp: split_stream_rest)
  have "feed w K i sid (d # ds) (g, n, ss) = map_option (\<lambda>n'. (put_buffer i db' mp' g, n', ss))
      (deliver_all w g c (?ps (S @ concat (d # ds))) n)" for n
    using d(3) ds(3) unfolding sp by (cases "deliver_all w g c (?ps (S @ d)) n") (simp_all add: deliver_all_append)
  then show ?case using ds(1,2) sp by auto
qed

definition sample_gate :: gate where
  "sample_gate = (gate_setup 7 0 3 (CHR ''S'') 2 gate_create)\<lparr>ga_broker := 9\<rparr>"

definition sample_blocks :: "string list" where
  "sample_blocks = [[char_of (0 :: nat)], [char_of (2 :: nat), CHR ''a''], [CHR ''b'', char_of (0 :: nat), char_of (1 :: nat), CHR ''c'']]"

lemma sample_split: "split_stream 2 (concat sample_blocks) = ([''ab'', ''c''], [])"
  by (simp add: sample_blocks_def split_stream.simps cut_def be_int_def)

theorem gate_cuts_stream_witness:
  "\<forall>w K ss. \<exists>db mp. db_repr 2 db [] \<and> (\<forall>n. feed w K 0 5 sample_blocks (sample_gate, n, ss) =
     map_option (\<lambda>n'. (put_buffer 0 db mp sample_gate, n', ss)) (deliver_all w sample_gate (conn_zero\<lparr>co_id := - 1\<rparr>) [''ab'', ''c''] n))"
proof (intro allI)
  fix w K ss
  have "conn_at 0 sample_gate = Some (conn_zero\<lparr>co_id := - 1\<rparr>)" "has_target sample_gate (conn_zero\<lparr>co_id := - 1\<rparr>)"
      "ga_header_size sample_gate = int 2" "pool_ok (ga_mp sample_gate) (db_nodes (co_buffer (conn_zero\<lparr>co_id := - 1\<rparr>)) @ [])"
    by (simp_all add: sample_gate_def gate_setup_def gate_create_def conn_at_def has_target_def conn_zero_def pool_ok_def)
  moreover have "db_repr 2 (co_buffer (conn_zero\<lparr>co_id := - 1\<rparr>)) []" by (simp add: conn_zero_def db_repr_def)
  moreover have "length ([] @ concat sample_blocks) < 2 ^ 31" "\<forall>d\<in>set sample_blocks. d \<noteq> []" by (simp_all add: sample_blocks_def)
  ultimately show "\<exists>db mp. db_repr 2 db [] \<and> (\<forall>n. feed w K 0 5 sample_blocks (sample_gate, n, ss) =
      map_option (\<lambda>n'. (put_buffer 0 db mp sample_gate, n', ss)) (deliver_all w sample_gate (conn_zero\<lparr>co_id := - 1\<rparr>) [''ab'', ''c''] n))"
    using gate_cuts_stream [of 0 sample_gate "conn_zero\<lparr>co_id := - 1\<rparr>" 2 "[]" "[]" sample_blocks w K 5 ss]
    by (auto simp: headers_ok_two sample_split cut_def)
qed

section \<open>What the gate does not handle\<close>

text \<open>A length of 2G or more is negative as an \<open>int\<close>: it passes the check for 16M and stays the
  header for ever, so the connection buffers without end.\<close>

lemma negative_header_stays:
  assumes "db_header db < 0" "0 \<le> db_size db"
  shows "databuffer_readheader db mp hs = Some (db_header db, db, mp)"
  using assms by (simp add: databuffer_readheader_def)

text \<open>Without broker, agent and watchdog a packet is not read but its header is forgotten, so its
  bytes are taken for headers next.\<close>

lemma no_target_keeps_bytes:
  assumes "conn_at i g = Some c" "\<not> has_target g c"
  shows "forward w i sz g n = Some (g, n)"
  using assms by (simp add: forward_def has_target_def)

section \<open>The connections of the gate\<close>

definition conn_nodes :: "connection list \<Rightarrow> (nat \<times> nat) list" where
  "conn_nodes cs = concat (map (\<lambda>c. db_nodes (co_buffer c)) cs)"

definition unused :: connection where
  "unused = conn_zero\<lparr>co_id := - 1\<rparr>"

definition gate_inv :: "gate \<Rightarrow> bool" where
  \<comment> \<open>the hash and the array of connections agree, and a node of the pool is in one list only\<close>
  "gate_inv g \<longleftrightarrow>
     hashid_ok (ga_hash g) \<and> length (ga_conn g) = hi_cap (ga_hash g) \<and> ga_max_connection g = hi_cap (ga_hash g) \<and>
     (\<forall>i<length (ga_conn g). db_ok (co_buffer (ga_conn g ! i)) \<and>
        (if i \<in> ran (hid_map (ga_hash g)) then hid_map (ga_hash g) (co_id (ga_conn g ! i)) = Some i else ga_conn g ! i = unused)) \<and>
     pool_ok (ga_mp g) (conn_nodes (ga_conn g))"

lemma pool_ok_mset: "mset used = mset used' \<Longrightarrow> pool_ok mp used = pool_ok mp used'"
  unfolding pool_ok_def by (metis distinct_append mset_eq_imp_distinct_iff mset_eq_setD set_append)

lemma conn_nodes_put:
  assumes "i < length cs"
  shows "mset (conn_nodes (cs[i := c])) = mset (db_nodes (co_buffer c) @ conn_nodes (take i cs @ drop (Suc i) cs))"
  using assms by (simp add: conn_nodes_def upd_conv_take_nth_drop)

lemma conn_nodes_at:
  assumes "i < length cs"
  shows "mset (conn_nodes cs) = mset (db_nodes (co_buffer (cs ! i)) @ conn_nodes (take i cs @ drop (Suc i) cs))"
  using conn_nodes_put [OF assms, of "cs ! i"] by simp

lemma unused_simps [simp]: "co_id unused = - 1" "co_buffer unused = db_zero"
  by (simp_all add: unused_def conn_zero_def)

lemma gate_setup_inv: "gate_inv (gate_setup ctx h tag header m gate_create)"
proof -
  have "conn_nodes (replicate m unused) = []" by (simp add: conn_nodes_def)
  moreover have "pool_ok \<lparr>mp_pool = [], mp_freelist = []\<rparr> []" by (simp add: pool_ok_def)
  ultimately show ?thesis
    using hashid_init_ok [of m] by (simp add: gate_inv_def gate_setup_def gate_create_def flip: unused_def)
qed

lemma buffer_keeps_inv:
  assumes inv: "gate_inv g" and i: "i < length (ga_conn g)" "i \<in> ran (hid_map (ga_hash g))" and db: "db_ok db"
    and pool: "pool_ok mp (db_nodes db @ conn_nodes (take i (ga_conn g) @ drop (Suc i) (ga_conn g)))"
  shows "gate_inv (put_buffer i db mp g)"
proof -
  have "pool_ok mp (conn_nodes ((ga_conn g)[i := (ga_conn g ! i)\<lparr>co_buffer := db\<rparr>]))"
    using pool pool_ok_mset [OF conn_nodes_put [OF i(1)]] by simp
  then show ?thesis using inv i db by (auto simp: gate_inv_def put_buffer_def nth_list_update)
qed

lemma hid_map_minus_one: "hashid_ok hi \<Longrightarrow> hid_map hi (- 1) = None"
  by (simp add: hid_map_def)

lemma gate_inv_lookup:
  assumes "gate_inv g" "hid_map (ga_hash g) sid = Some i"
  shows "i < length (ga_conn g) \<and> co_id (ga_conn g ! i) = sid \<and> conn_at i g = Some (ga_conn g ! i)"
proof -
  have ok: "hashid_ok (ga_hash g)" using assms(1) by (simp add: gate_inv_def)
  have "i < length (ga_conn g)" using hid.index_below [OF ok assms(2)] assms(1) by (simp add: gate_inv_def)
  moreover from this have "hid_map (ga_hash g) (co_id (ga_conn g ! i)) = Some i"
    using assms by (auto simp: gate_inv_def ran_def split: if_splits)
  ultimately show ?thesis using hid.index_unique [OF ok assms(2)] by (simp add: conn_at_def)
qed

lemma closed_inv:
  assumes inv: "gate_inv g" and i: "hid_map (ga_hash g) sid = Some i"
    and hi: "hashid_ok hi" "hid_map hi = (hid_map (ga_hash g))(sid := None)" "hi_cap hi = hi_cap (ga_hash g)"
    and pool: "pool_ok mp (conn_nodes (take i (ga_conn g) @ drop (Suc i) (ga_conn g)))"
  shows "gate_inv (put_conn i unused (g\<lparr>ga_hash := hi, ga_mp := mp\<rparr>))"
proof -
  have ok: "hashid_ok (ga_hash g)" using inv by (simp add: gate_inv_def)
  have il: "i < length (ga_conn g)" "co_id (ga_conn g ! i) = sid" using gate_inv_lookup [OF inv i] by simp_all
  have pool': "pool_ok mp (conn_nodes ((ga_conn g)[i := unused]))"
    using pool pool_ok_mset [OF conn_nodes_put [OF il(1), of unused]] by simp
  have ran: "j \<in> ran (hid_map hi) \<longleftrightarrow> j \<in> ran (hid_map (ga_hash g)) \<and> j \<noteq> i" for j
  proof -
    have "k = sid" if "hid_map (ga_hash g) k = Some i" for k using hid.index_unique [OF ok i that] .
    moreover have "j \<in> ran (hid_map hi) \<longleftrightarrow> (\<exists>k. k \<noteq> sid \<and> hid_map (ga_hash g) k = Some j)"
      unfolding hi(2) ran_def by auto
    moreover have "k \<noteq> sid" if "hid_map (ga_hash g) k = Some j" "j \<noteq> i" for k using that i by auto
    ultimately show ?thesis unfolding ran_def by blast
  qed
  have "hid_map hi (co_id (ga_conn g ! j)) = Some j" if "j < length (ga_conn g)" "j \<in> ran (hid_map hi)" for j
  proof -
    have "hid_map (ga_hash g) (co_id (ga_conn g ! j)) = Some j" "j \<noteq> i"
      using inv that ran by (auto simp: gate_inv_def)
    then show ?thesis using hi(2) i by auto
  qed
  moreover have "ga_conn g ! j = unused" if "j < length (ga_conn g)" "j \<notin> ran (hid_map hi)" "j \<noteq> i" for j
    using inv that ran [of j] by (auto simp: gate_inv_def)
  moreover have "i \<notin> ran (hid_map hi)" using ran [of i] by blast
  ultimately show ?thesis
    using inv hi(1,3) pool' il(1) by (auto simp: gate_inv_def put_conn_def nth_list_update)
qed

lemma accepted_inv:
  assumes inv: "gate_inv g" and i: "i < hi_cap (ga_hash g)" "i \<notin> ran (hid_map (ga_hash g))"
    and hi: "hashid_ok hi" "hid_map hi = (hid_map (ga_hash g))(sid \<mapsto> i)" "hi_cap hi = hi_cap (ga_hash g)" "hid_map (ga_hash g) sid = None"
  shows "gate_inv (put_conn i (unused\<lparr>co_id := sid, co_remote_name := name\<rparr>) (g\<lparr>ga_hash := hi\<rparr>))"
proof -
  let ?c = "unused\<lparr>co_id := sid, co_remote_name := name\<rparr>"
  have il: "i < length (ga_conn g)" "ga_conn g ! i = unused" using inv i by (auto simp: gate_inv_def)
  have "mset (conn_nodes ((ga_conn g)[i := ?c])) = mset (conn_nodes (ga_conn g))"
    using conn_nodes_put [OF il(1), of ?c] conn_nodes_at [OF il(1)] il(2) by simp
  then have pool: "pool_ok (ga_mp g) (conn_nodes ((ga_conn g)[i := ?c]))"
    using pool_ok_mset inv by (metis gate_inv_def)
  have ran: "ran (hid_map hi) = insert i (ran (hid_map (ga_hash g)))" using hi(2,4) by (simp add: ran_map_upd)
  have "hid_map hi (co_id (ga_conn g ! j)) = Some j" if "j < length (ga_conn g)" "j \<in> ran (hid_map hi)" "j \<noteq> i" for j
  proof -
    have "hid_map (ga_hash g) (co_id (ga_conn g ! j)) = Some j" using inv that ran by (auto simp: gate_inv_def)
    then show ?thesis using hi(2,4) by auto
  qed
  moreover have "ga_conn g ! j = unused" if "j < length (ga_conn g)" "j \<notin> ran (hid_map hi)" for j
    using inv that ran by (auto simp: gate_inv_def)
  moreover have "hid_map hi sid = Some i" "i \<in> ran (hid_map hi)" using hi(2) ran by simp_all
  ultimately show ?thesis
    using inv hi(1,3) pool il(1) by (auto simp: gate_inv_def put_conn_def nth_list_update)
qed

lemma closed_connection:
  assumes inv: "gate_inv g"
  shows "\<exists>g1. gate_inv g1 \<and> hid_map (ga_hash g1) = (hid_map (ga_hash g))(sk_id message := None) \<and>
    socket_closed w message (g, n, ss) = map_option (\<lambda>n1. (g1, n1, ss))
      (if hid_map (ga_hash g) (sk_id message) = None then Some n
       else report w (print_d (sint (sk_id message)) @ '' close'') g1 n)"
proof -
  have ok: "hashid_ok (ga_hash g)" using inv by (simp add: gate_inv_def)
  obtain hi where rm: "hashid_remove (ga_hash g) (sk_id message) = Some (hid_map (ga_hash g) (sk_id message), hi)"
      and hi: "hashid_ok hi" "hid_map hi = (hid_map (ga_hash g))(sk_id message := None)" "hi_cap hi = hi_cap (ga_hash g)"
    using hid.remove_tab [OF ok] by blast
  show ?thesis
  proof (cases "hid_map (ga_hash g) (sk_id message)")
    case None
    then have "hid_map hi = hid_map (ga_hash g)" using hi(2) by (auto simp: fun_eq_iff)
    then have "gate_inv (g\<lparr>ga_hash := hi\<rparr>)" using inv hi by (simp add: gate_inv_def)
    then show ?thesis using None rm hi by (intro exI [of _ "g\<lparr>ga_hash := hi\<rparr>"]) (simp add: socket_closed_def)
  next
    case (Some i)
    have il: "i < length (ga_conn g)" "conn_at i g = Some (ga_conn g ! i)" using gate_inv_lookup [OF inv Some] by simp_all
    have "pool_ok (ga_mp g) (db_nodes (co_buffer (ga_conn g ! i)) @ conn_nodes (take i (ga_conn g) @ drop (Suc i) (ga_conn g)))"
      using pool_ok_mset [OF conn_nodes_at [OF il(1)]] inv by (simp add: gate_inv_def)
    moreover have "db_ok (co_buffer (ga_conn g ! i))" using inv il by (simp add: gate_inv_def)
    ultimately obtain mp where cl: "databuffer_clear (co_buffer (ga_conn g ! i)) (ga_mp g) = Some (db_zero, mp)"
        and pool: "pool_ok mp (conn_nodes (take i (ga_conn g) @ drop (Suc i) (ga_conn g)))"
      using databuffer_clear_ok by blast
    let ?g = "put_conn i unused (g\<lparr>ga_hash := hi, ga_mp := mp\<rparr>)"
    have "gate_inv ?g" by (rule closed_inv [OF inv Some hi pool])
    moreover have "socket_closed w message (g, n, ss) =
        map_option (\<lambda>n1. (?g, n1, ss)) (report w (print_d (sint (sk_id message)) @ '' close'') ?g n)"
      using rm Some cl il by (simp add: socket_closed_def conn_at_def unused_def [symmetric] map_conv_bind_option Let_def comp_def)
    ultimately show ?thesis using Some hi(2) by (intro exI [of _ ?g]) (simp add: put_conn_def)
  qed
qed

lemma accepted_connection:
  assumes inv: "gate_inv g" and a: "ga_listen_id g = sk_id message" "\<not> hashid_full (ga_hash g)" "hid_key (ga_hash g) (sk_ud message)"
      "hid_map (ga_hash g) (sk_ud message) = None" "sz \<le> length padding"
  shows "\<exists>i g1. gate_inv g1 \<and> hid_map (ga_hash g1) = (hid_map (ga_hash g))(sk_ud message \<mapsto> i) \<and>
    i \<notin> ran (hid_map (ga_hash g)) \<and> co_id (ga_conn g1 ! i) = sk_ud message \<and>
    socket_accept w K message padding sz (g, n, ss) = do {
      n1 \<leftarrow> report w (print_d (sint (sk_ud message)) @ '' open '' @ print_d (sint (sk_ud message)) @ '' '' @
              c_str (take (min sz 31) padding) @ '':0'') g1 n;
      n2 \<leftarrow> uboss_error w (ga_ctx g) (''socket open: '' @ print_x (unat (sk_ud message))) n1;
      Some (g1, n2, ss) }"
proof -
  have ok: "hashid_ok (ga_hash g)" using inv by (simp add: gate_inv_def)
  obtain i hi where ins: "hashid_insert (ga_hash g) (sk_ud message) = Some (i, hi)" "i < hi_cap (ga_hash g)"
      "i \<notin> ran (hid_map (ga_hash g))"
      and hi: "hashid_ok hi" "hid_map hi = (hid_map (ga_hash g))(sk_ud message \<mapsto> i)" "hi_cap hi = hi_cap (ga_hash g)"
    using hid.insert_tab [OF ok] a by blast
  let ?name = "c_str (take (min sz 31) padding)"
  let ?g = "put_conn i (unused\<lparr>co_id := sk_ud message, co_remote_name := ?name\<rparr>) (g\<lparr>ga_hash := hi\<rparr>)"
  have il: "i < length (ga_conn g)" "ga_conn g ! i = unused" using inv ins by (auto simp: gate_inv_def)
  have "gate_inv ?g" using accepted_inv [OF inv ins(2,3) hi] a by simp
  moreover have "socket_accept w K message padding sz (g, n, ss) = do {
      n1 \<leftarrow> report w (print_d (sint (sk_ud message)) @ '' open '' @ print_d (sint (sk_ud message)) @ '' '' @ ?name @ '':0'') ?g n;
      n2 \<leftarrow> uboss_error w (ga_ctx g) (''socket open: '' @ print_x (unat (sk_ud message))) n1;
      Some (?g, n2, ss) }"
  proof -
    have "min sz 31 \<le> length padding" using a by linarith
    then show ?thesis using a ins il by (simp add: socket_accept_def conn_at_def Let_def put_conn_def)
  qed
  moreover have "co_id (ga_conn ?g ! i) = sk_ud message" "hid_map (ga_hash ?g) = (hid_map (ga_hash g))(sk_ud message \<mapsto> i)"
    using il hi(2) by (simp_all add: put_conn_def)
  ultimately show ?thesis using ins(3) by blast
qed


definition listening_gate :: gate where
  "listening_gate = (gate_setup 7 0 3 (CHR ''S'') 2 gate_create)\<lparr>ga_listen_id := 4\<rparr>"

definition accept_message :: uboss_socket_message where
  "accept_message = \<lparr>sk_type = UBOSS_SOCKET_TYPE_ACCEPT, sk_id = 4, sk_ud = 5, sk_buffer = NULL\<rparr>"


end
