(* ===== verification/Harbor.thy ===== *)
theory Harbor
  imports NodeSocket
begin

text \<open>
  \<open>module/harbor/module_harbor.c\<close>: the service that carries messages to other nodes (harbors).
  Each other harbor is a \<open>slave\<close> with a socket, a state and a queue of messages that wait for
  the connection; global names have a hash table, with a queue per name that is not known yet.

  A received message is collected in a block of the node's heap and handed over to its receiver.
  Linked lists are lists; the hash table is a function from its buckets.
\<close>

section \<open>Data\<close>

definition HASH_SIZE :: nat where "HASH_SIZE = 4096"
definition DEFAULT_QUEUE_SIZE :: nat where "DEFAULT_QUEUE_SIZE = 1024"
definition HEADER_COOKIE_LENGTH :: nat where "HEADER_COOKIE_LENGTH = 12"
definition REMOTE_MAX :: nat where "REMOTE_MAX = 256"

record remote_message_header =
  rh_source :: u32
  rh_destination :: u32
  rh_session :: u32

record harbor_msg =
  hm_header :: remote_message_header
  hm_buffer :: ptr
  hm_size :: u64

record harbor_msg_queue =
  hq_size :: nat
  hq_head :: nat
  hq_tail :: nat
  hq_data :: "harbor_msg option list"

record keyvalue =
  kv_key :: string
  kv_hash :: u32
  kv_value :: u32
  kv_queue :: "harbor_msg_queue option"

type_synonym hashmap = "nat \<Rightarrow> keyvalue list"

datatype status = STATUS_WAIT | STATUS_HANDSHAKE | STATUS_HEADER | STATUS_CONTENT | STATUS_DOWN

record slave =
  sl_fd :: i32
  sl_queue :: "harbor_msg_queue option"
  sl_status :: status
  sl_length :: nat
  sl_read :: nat
  sl_size :: string
  sl_recv_buffer :: ptr

record harbor =
  hb_ctx :: ptr
  hb_id :: i32
  hb_slave :: u32
  hb_map :: hashmap
  hb_s :: "nat \<Rightarrow> slave"

type_synonym hmachine = "harbor \<times> node \<times> socket_server"

section \<open>Queues\<close>

definition queue_room :: "harbor_msg_queue \<Rightarrow> harbor_msg_queue" where
  \<comment> \<open>the expansion in \<open>push_queue_msg\<close>: one slot stays free to tell full from empty\<close>
  "queue_room q =
     (if (hq_tail q + 1) mod hq_size q = hq_head q then
        q\<lparr>hq_data := map (\<lambda>i. hq_data q ! ((i + hq_head q) mod hq_size q)) [0..<hq_size q - 1] @ replicate (hq_size q + 1) None,
          hq_head := 0, hq_tail := hq_size q - 1, hq_size := hq_size q * 2\<rparr>
      else q)"

definition push_queue_msg :: "harbor_msg \<Rightarrow> harbor_msg_queue \<Rightarrow> harbor_msg_queue option" where
  "push_queue_msg m q =
     (let q1 = queue_room q
      in do { guard (hq_tail q1 < length (hq_data q1));
              Some (q1\<lparr>hq_data := (hq_data q1)[hq_tail q1 := Some m], hq_tail := (hq_tail q1 + 1) mod hq_size q1\<rparr>) })"

definition push_queue :: "ptr \<Rightarrow> u64 \<Rightarrow> remote_message_header \<Rightarrow> harbor_msg_queue \<Rightarrow> harbor_msg_queue option" where
  "push_queue buffer sz header q = push_queue_msg \<lparr>hm_header = header, hm_buffer = buffer, hm_size = sz\<rparr> q"

definition pop_queue :: "harbor_msg_queue \<Rightarrow> (harbor_msg option \<times> harbor_msg_queue) option" where
  "pop_queue q =
     (if hq_head q = hq_tail q then Some (None, q)
      else do { guard (hq_head q < length (hq_data q));
                m \<leftarrow> hq_data q ! hq_head q;
                Some (Some m, q\<lparr>hq_head := (hq_head q + 1) mod hq_size q\<rparr>) })"

definition new_queue :: harbor_msg_queue where
  "new_queue = \<lparr>hq_size = DEFAULT_QUEUE_SIZE, hq_head = 0, hq_tail = 0, hq_data = replicate DEFAULT_QUEUE_SIZE None\<rparr>"

partial_function (option) release_loop :: "harbor_msg_queue \<Rightarrow> node \<Rightarrow> node option" where
  "release_loop q n =
     do { (r, q1) \<leftarrow> pop_queue q;
          case r of None \<Rightarrow> Some n | Some m \<Rightarrow> do { n1 \<leftarrow> node_free (hm_buffer m) n; release_loop q1 n1 } }"

definition release_queue :: "harbor_msg_queue option \<Rightarrow> node \<Rightarrow> node option" where
  "release_queue q n = (case q of None \<Rightarrow> Some n | Some q \<Rightarrow> release_loop q n)"

section \<open>The hash table of names\<close>

definition le32 :: "string \<Rightarrow> nat \<Rightarrow> u32" where
  \<comment> \<open>the 32-bit word at offset \<open>i\<close> of a 16-byte name\<close>
  "le32 s i = word_of_nat (of_char (s ! i)) OR push_bit 8 (word_of_nat (of_char (s ! (i + 1))))
     OR push_bit 16 (word_of_nat (of_char (s ! (i + 2)))) OR push_bit 24 (word_of_nat (of_char (s ! (i + 3))))"

definition name_hash :: "string \<Rightarrow> u32" where
  "name_hash name = (le32 name 0 XOR le32 name 4) XOR le32 name 8 XOR le32 name 12"

definition bucket_of :: "string \<Rightarrow> nat" where
  "bucket_of name = unat (name_hash name) mod HASH_SIZE"

definition same_name :: "string \<Rightarrow> keyvalue \<Rightarrow> bool" where
  "same_name name kv \<longleftrightarrow> kv_hash kv = name_hash name \<and>
     c_str (take GLOBALNAME_LENGTH (kv_key kv)) = c_str (take GLOBALNAME_LENGTH name)"

definition hash_search :: "hashmap \<Rightarrow> string \<Rightarrow> nat option" where
  \<comment> \<open>the position in the bucket of the name\<close>
  "hash_search hash name =
     (let kvs = hash (bucket_of name) in find (\<lambda>i. same_name name (kvs ! i)) [0..<length kvs])"

definition hash_insert :: "hashmap \<Rightarrow> string \<Rightarrow> hashmap" where
  \<comment> \<open>the new node is the first of its bucket\<close>
  "hash_insert hash name =
     hash(bucket_of name := \<lparr>kv_key = name, kv_hash = name_hash name, kv_value = 0, kv_queue = None\<rparr> # hash (bucket_of name))"

definition hash_new :: hashmap where
  "hash_new = (\<lambda>_. [])"

fun release_kvs :: "keyvalue list \<Rightarrow> node \<Rightarrow> node option" where
  "release_kvs [] n = Some n"
| "release_kvs (kv # kvs) n = do { n1 \<leftarrow> release_queue (kv_queue kv) n; release_kvs kvs n1 }"

definition hash_delete :: "hashmap \<Rightarrow> node \<Rightarrow> node option" where
  "hash_delete hash n = release_kvs (concat (map hash [0..<HASH_SIZE])) n"

definition search_or_insert :: "string \<Rightarrow> harbor \<Rightarrow> nat \<times> harbor" where
  "search_or_insert name h =
     (case hash_search (hb_map h) name of
        Some i \<Rightarrow> (i, h)
      | None \<Rightarrow> (0, h\<lparr>hb_map := hash_insert (hb_map h) name\<rparr>))"

definition get_kv :: "nat \<Rightarrow> nat \<Rightarrow> harbor \<Rightarrow> keyvalue" where
  "get_kv b i h = hb_map h b ! i"

definition put_kv :: "nat \<Rightarrow> nat \<Rightarrow> keyvalue \<Rightarrow> harbor \<Rightarrow> harbor" where
  "put_kv b i kv h = h\<lparr>hb_map := (hb_map h)(b := (hb_map h b)[i := kv])\<rparr>"

definition put_slave :: "nat \<Rightarrow> slave \<Rightarrow> harbor \<Rightarrow> harbor" where
  "put_slave i s h = h\<lparr>hb_s := (hb_s h)(i := s)\<rparr>"

section \<open>Closing and creating\<close>

definition close_harbor :: "kernel \<Rightarrow> nat \<Rightarrow> hmachine \<Rightarrow> hmachine option" where
  "close_harbor K hid = (\<lambda>(h, n, ss). do {
     let s = hb_s h hid;
     ss1 \<leftarrow> (if sl_fd s \<noteq> 0 then uboss_socket_close K (hb_ctx h) (sl_fd s) n ss else Some ss);
     n1 \<leftarrow> release_queue (sl_queue s) n;
     Some (put_slave hid (s\<lparr>sl_status := STATUS_DOWN, sl_queue := None\<rparr>) h, n1, ss1) })"

definition report_harbor_down :: "world \<Rightarrow> nat \<Rightarrow> harbor \<Rightarrow> node \<Rightarrow> node option" where
  "report_harbor_down w hid h n = send_stack w (hb_ctx h) (hb_slave h) PTYPE_TEXT (''D '' @ print_d (int hid)) n"

definition slave_zero :: slave where
  "slave_zero = \<lparr>sl_fd = 0, sl_queue = None, sl_status = STATUS_WAIT, sl_length = 0, sl_read = 0,
     sl_size = replicate 4 NUL, sl_recv_buffer = NULL\<rparr>"

definition harbor_create :: harbor where
  "harbor_create = \<lparr>hb_ctx = NULL, hb_id = 0, hb_slave = 0, hb_map = hash_new, hb_s = (\<lambda>_. slave_zero)\<rparr>"

fun close_slaves :: "kernel \<Rightarrow> nat list \<Rightarrow> hmachine \<Rightarrow> hmachine option" where
  "close_slaves K [] m = Some m"
| "close_slaves K (i # is) m =
     do { m1 \<leftarrow> (case m of (h, n, ss) \<Rightarrow>
            if sl_fd (hb_s h i) \<noteq> 0 \<and> sl_status (hb_s h i) \<noteq> STATUS_DOWN then close_harbor K i m else Some m);
          close_slaves K is m1 }"

definition harbor_release :: "kernel \<Rightarrow> hmachine \<Rightarrow> (node \<times> socket_server) option" where
  "harbor_release K m =
     do { (h, n, ss) \<leftarrow> close_slaves K [1..<REMOTE_MAX] m;
          n1 \<leftarrow> hash_delete (hb_map h) n;
          Some (n1, ss) }"

section \<open>The wire format\<close>

definition to_bigendian :: "u32 \<Rightarrow> string" where
  "to_bigendian n = map (\<lambda>k. char_of (unat (drop_bit k n AND 0xff))) [24, 16, 8, 0]"

definition header_to_message :: "remote_message_header \<Rightarrow> string" where
  "header_to_message header =
     to_bigendian (rh_source header) @ to_bigendian (rh_destination header) @ to_bigendian (rh_session header)"

definition from_bigendian :: "string \<Rightarrow> u32" where
  "from_bigendian bs = push_bit 24 (word_of_nat (of_char (bs ! 0))) OR push_bit 16 (word_of_nat (of_char (bs ! 1)))
     OR push_bit 8 (word_of_nat (of_char (bs ! 2))) OR word_of_nat (of_char (bs ! 3))"

definition message_to_header :: "string \<Rightarrow> remote_message_header" where
  "message_to_header bs =
     \<lparr>rh_source = from_bigendian (take 4 bs), rh_destination = from_bigendian (take 4 (drop 4 bs)),
      rh_session = from_bigendian (take 4 (drop 8 bs))\<rparr>"

definition forward_local_message :: "world \<Rightarrow> ptr \<Rightarrow> nat \<Rightarrow> harbor \<Rightarrow> node \<Rightarrow> node option" where
  \<comment> \<open>the cookie is the last twelve bytes of the block; a shorter block is read before its start\<close>
  "forward_local_message w msg sz h n =
     (case nd_mem n msg of
        Some (Bytes bs) \<Rightarrow> do {
          guard (HEADER_COOKIE_LENGTH \<le> sz \<and> sz \<le> length bs);
          let header = message_to_header (drop (sz - HEADER_COOKIE_LENGTH) (take sz bs));
          let type = drop_bit HANDLE_REMOTE_SHIFT (rh_destination header);
          let destination = (rh_destination header AND HANDLE_MASK) OR push_bit HANDLE_REMOTE_SHIFT (hb_id h);
          (r, n1) \<leftarrow> uboss_send w (hb_ctx h) (rh_source header) destination (type OR PTYPE_TAG_DONTCOPY) (rh_session header) msg
                      (word_of_nat (sz - HEADER_COOKIE_LENGTH)) n;
          if sint r < 0 then do {
            (_, n2) \<leftarrow> (if type \<noteq> PTYPE_ERROR
                        then uboss_send w (hb_ctx h) destination (rh_source header) PTYPE_ERROR (rh_session header) NULL 0 n1
                        else Some (0, n1));
            uboss_error w (hb_ctx h) (''Unknown destination :'' @ print_x (unat destination) @ '' from :'' @
              print_x (unat (rh_source header)) @ '' type('' @ print_d (sint type) @ '')'') n2 }
          else Some n1 }
      | _ \<Rightarrow> None)"

definition read_block :: "ptr \<Rightarrow> u64 \<Rightarrow> node \<Rightarrow> string option" where
  "read_block p sz n =
     (if sz = 0 then Some []
      else case nd_mem n p of
             Some (Bytes bs) \<Rightarrow> if unat sz \<le> length bs then Some (take (unat sz) bs) else None
           | _ \<Rightarrow> None)"

definition wire :: "string \<Rightarrow> remote_message_header \<Rightarrow> string" where
  \<comment> \<open>what \<open>send_remote\<close> writes: the length of the rest, the message, the cookie\<close>
  "wire bytes cookie =
     to_bigendian (word_of_nat (length bytes + HEADER_COOKIE_LENGTH)) @ bytes @ header_to_message cookie"

definition send_remote :: "world \<Rightarrow> kernel \<Rightarrow> ptr \<Rightarrow> i32 \<Rightarrow> ptr \<Rightarrow> u64 \<Rightarrow> remote_message_header \<Rightarrow> node \<times> socket_server \<Rightarrow>
    (node \<times> socket_server) option" where
  "send_remote w K ctx fd buffer sz cookie = (\<lambda>(n, ss). do {
     let sz_header = sz + word_of_nat HEADER_COOKIE_LENGTH;
     if 0xffffffff < sz_header then do {
       n1 \<leftarrow> uboss_error w ctx (''remote message from :'' @ print_08x (rh_source cookie) @ '' to :'' @
              print_08x (rh_destination cookie) @ '' is too large.'') n;
       Some (n1, ss) }
     else do {
       bytes \<leftarrow> read_block buffer sz n;
       let (sendbuf, n1) = node_malloc (Bytes (wire bytes cookie)) n;
       (_, n2, ss1) \<leftarrow> uboss_socket_send K fd sendbuf (ucast (sz_header + 4)) n1 ss;
       Some (n2, ss1) } })"

section \<open>Messages that wait\<close>

partial_function (option) move_queue :: "harbor_msg_queue \<Rightarrow> harbor_msg_queue \<Rightarrow> (harbor_msg_queue \<times> harbor_msg_queue) option" where
  "move_queue q to_q =
     do { (r, q1) \<leftarrow> pop_queue q;
          case r of
            None \<Rightarrow> Some (q1, to_q)
          | Some m \<Rightarrow> do { to1 \<leftarrow> push_queue_msg m to_q; move_queue q1 to1 } }"

partial_function (option) send_local_loop :: "world \<Rightarrow> ptr \<Rightarrow> u32 \<Rightarrow> harbor_msg_queue \<Rightarrow> node \<Rightarrow> node option" where
  "send_local_loop w ctx handle q n =
     do { (r, q1) \<leftarrow> pop_queue q;
          case r of
            None \<Rightarrow> Some n
          | Some m \<Rightarrow> do {
              (_, n1) \<leftarrow> uboss_send w ctx (rh_source (hm_header m)) handle
                 (drop_bit HANDLE_REMOTE_SHIFT (rh_destination (hm_header m)) OR PTYPE_TAG_DONTCOPY)
                 (rh_session (hm_header m)) (hm_buffer m) (hm_size m) n;
              send_local_loop w ctx handle q1 n1 } }"

partial_function (option) send_remote_loop :: "world \<Rightarrow> kernel \<Rightarrow> ptr \<Rightarrow> i32 \<Rightarrow> u32 \<Rightarrow> harbor_msg_queue \<Rightarrow> node \<times> socket_server \<Rightarrow>
    (harbor_msg_queue \<times> node \<times> socket_server) option" where
  \<comment> \<open>the messages of a queue go out, \<open>bits\<close> added to their destinations\<close>
  "send_remote_loop w K ctx fd bits q ns =
     do { (r, q1) \<leftarrow> pop_queue q;
          case r of
            None \<Rightarrow> Some (q1, ns)
          | Some m \<Rightarrow> do {
              let header = (hm_header m)\<lparr>rh_destination := rh_destination (hm_header m) OR bits\<rparr>;
              (n1, ss1) \<leftarrow> send_remote w K ctx fd (hm_buffer m) (hm_size m) header ns;
              n2 \<leftarrow> node_free (hm_buffer m) n1;
              send_remote_loop w K ctx fd bits q1 (n2, ss1) } }"

definition dispatch_name_queue :: "world \<Rightarrow> kernel \<Rightarrow> nat \<Rightarrow> nat \<Rightarrow> hmachine \<Rightarrow> hmachine option" where
  \<comment> \<open>on the node at position \<open>i\<close> of bucket \<open>b\<close>, which has a queue\<close>
  "dispatch_name_queue w K b i = (\<lambda>(h, n, ss). do {
     let node = get_kv b i h;
     queue \<leftarrow> kv_queue node;
     let handle = kv_value node;
     let hid = unat (drop_bit HANDLE_REMOTE_SHIFT handle);
     let s = hb_s h hid;
     if sl_fd s = 0 then
       if sl_status s = STATUS_DOWN then do {
         n1 \<leftarrow> uboss_error w (hb_ctx h) (''Drop message to '' @ c_str (take GLOBALNAME_LENGTH (kv_key node)) @
                '' (in harbor '' @ print_d (int hid) @ '')'') n;
         Some (h, n1, ss) }
       else do {
         (q1, sq) \<leftarrow> (case sl_queue s of None \<Rightarrow> Some (None, queue)
                       | Some sq \<Rightarrow> do { (q1, sq1) \<leftarrow> move_queue queue sq; Some (Some q1, sq1) });
         let h1 = put_kv b i (node\<lparr>kv_queue := q1\<rparr>) h;
         if drop_bit HANDLE_REMOTE_SHIFT handle = drop_bit HANDLE_REMOTE_SHIFT (hb_slave h) then do {
           n1 \<leftarrow> send_local_loop w (hb_ctx h) handle sq n;
           Some (put_slave hid (s\<lparr>sl_queue := None\<rparr>) h1, n1, ss) }
         else Some (put_slave hid (s\<lparr>sl_queue := Some sq\<rparr>) h1, n, ss) }
     else do {
       (q1, n1, ss1) \<leftarrow> send_remote_loop w K (hb_ctx h) (sl_fd s) (handle AND HANDLE_MASK) queue (n, ss);
       Some (put_kv b i (node\<lparr>kv_queue := Some q1\<rparr>) h, n1, ss1) } })"

definition dispatch_queue :: "world \<Rightarrow> kernel \<Rightarrow> nat \<Rightarrow> hmachine \<Rightarrow> hmachine option" where
  "dispatch_queue w K hid = (\<lambda>(h, n, ss). do {
     let s = hb_s h hid;
     guard (sl_fd s \<noteq> 0);
     case sl_queue s of
       None \<Rightarrow> Some (h, n, ss)
     | Some queue \<Rightarrow> do {
         (q1, n1, ss1) \<leftarrow> send_remote_loop w K (hb_ctx h) (sl_fd s) 0 queue (n, ss);
         n2 \<leftarrow> release_loop q1 n1;
         Some (put_slave hid (s\<lparr>sl_queue := None\<rparr>) h, n2, ss1) } })"

section \<open>Data from other harbors\<close>

definition store_at :: "ptr \<Rightarrow> nat \<Rightarrow> string \<Rightarrow> node \<Rightarrow> node option" where
  \<comment> \<open>\<open>memcpy(p + off, bytes, ...)\<close> inside a block\<close>
  "store_at p off bytes n =
     (if bytes = [] then Some n
      else case nd_mem n p of
             Some (Bytes bs) \<Rightarrow>
               if off + length bytes \<le> length bs
               then Some (n\<lparr>nd_mem := (nd_mem n)(p \<mapsto> Bytes (take off bs @ bytes @ drop (off + length bytes) bs))\<rparr>)
               else None
           | _ \<Rightarrow> None)"

definition handshake_part :: "world \<Rightarrow> kernel \<Rightarrow> nat \<Rightarrow> i32 \<Rightarrow> string \<Rightarrow> hmachine \<Rightarrow> (hmachine + (string \<times> hmachine)) option" where
  \<comment> \<open>left: \<open>push_socket_data\<close> returns; right: it goes on with the bytes\<close>
  "handshake_part w K hid fd buffer = (\<lambda>(h, n, ss).
     case buffer of
       [] \<Rightarrow> None
     | c # rest \<Rightarrow>
         if of_char c \<noteq> hid then do {
           n1 \<leftarrow> uboss_error w (hb_ctx h) (''Invalid shakehand id ('' @ print_d (int hid) @ '') from fd = '' @ print_d (sint fd) @
                  '' , harbor = '' @ print_d (int (of_char c))) n;
           m \<leftarrow> close_harbor K hid (h, n1, ss);
           Some (Inl m) }
         else do {
           m \<leftarrow> dispatch_queue w K hid (put_slave hid ((hb_s h hid)\<lparr>sl_status := STATUS_HEADER\<rparr>) h, n, ss);
           Some (Inr (rest, m)) })"

definition header_part :: "world \<Rightarrow> kernel \<Rightarrow> nat \<Rightarrow> string \<Rightarrow> hmachine \<Rightarrow> (hmachine + (string \<times> hmachine)) option" where
  "header_part w K hid buffer = (\<lambda>(h, n, ss). do {
     let s = hb_s h hid;
     guard (sl_read s \<le> 4);
     let need = 4 - sl_read s;
     if length buffer < need then
       Some (Inl (put_slave hid (s\<lparr>sl_size := take (sl_read s) (sl_size s) @ buffer @ drop (sl_read s + length buffer) (sl_size s),
                                   sl_read := sl_read s + length buffer\<rparr>) h, n, ss))
     else do {
       let sz = take (sl_read s) (sl_size s) @ take need buffer;
       let rest = drop need buffer;
       if sz ! 0 \<noteq> NUL then do {
         n1 \<leftarrow> uboss_error w (hb_ctx h) (''Message is too long from harbor '' @ print_d (int hid)) n;
         m \<leftarrow> close_harbor K hid (put_slave hid (s\<lparr>sl_size := sz\<rparr>) h, n1, ss);
         Some (Inl m) }
       else do {
         let len = unat (from_bigendian sz);
         let (p, n1) = node_malloc (Bytes (replicate len NUL)) n;
         let m = (put_slave hid (s\<lparr>sl_size := sz, sl_length := len, sl_read := 0, sl_recv_buffer := p,
                                    sl_status := STATUS_CONTENT\<rparr>) h, n1, ss);
         Some (if rest = [] then Inl m else Inr (rest, m)) } } })"

definition content_part :: "world \<Rightarrow> nat \<Rightarrow> string \<Rightarrow> hmachine \<Rightarrow> (hmachine + (string \<times> hmachine)) option" where
  "content_part w hid buffer = (\<lambda>(h, n, ss). do {
     let s = hb_s h hid;
     guard (sl_read s \<le> sl_length s);
     let need = sl_length s - sl_read s;
     if length buffer < need then do {
       n1 \<leftarrow> store_at (sl_recv_buffer s) (sl_read s) buffer n;
       Some (Inl (put_slave hid (s\<lparr>sl_read := sl_read s + length buffer\<rparr>) h, n1, ss)) }
     else do {
       n1 \<leftarrow> store_at (sl_recv_buffer s) (sl_read s) (take need buffer) n;
       n2 \<leftarrow> forward_local_message w (sl_recv_buffer s) (sl_length s) h n1;
       let rest = drop need buffer;
       let m = (put_slave hid (s\<lparr>sl_length := 0, sl_read := 0, sl_recv_buffer := NULL, sl_status := STATUS_HEADER\<rparr>) h, n2, ss);
       Some (if rest = [] then Inl m else Inr (rest, m)) } })"

definition header_then_content :: "world \<Rightarrow> kernel \<Rightarrow> nat \<Rightarrow> string \<Rightarrow> hmachine \<Rightarrow> (hmachine + (string \<times> hmachine)) option" where
  "header_then_content w K hid buffer m =
     do { r \<leftarrow> header_part w K hid buffer m;
          case r of Inl m1 \<Rightarrow> Some (Inl m1) | Inr (rest, m1) \<Rightarrow> content_part w hid rest m1 }"

definition socket_round :: "world \<Rightarrow> kernel \<Rightarrow> nat \<Rightarrow> i32 \<Rightarrow> string \<Rightarrow> hmachine \<Rightarrow> (hmachine + (string \<times> hmachine)) option" where
  \<comment> \<open>one round of the loop of \<open>push_socket_data\<close>; the cases of the switch fall through\<close>
  "socket_round w K hid fd buffer m =
     (case m of (h, n, ss) \<Rightarrow>
        (case sl_status (hb_s h hid) of
           STATUS_HANDSHAKE \<Rightarrow> do {
             r \<leftarrow> handshake_part w K hid fd buffer m;
             case r of
               Inl m1 \<Rightarrow> Some (Inl m1)
             | Inr (rest, m1) \<Rightarrow> if rest = [] then Some (Inr (rest, m1)) else header_then_content w K hid rest m1 }
         | STATUS_HEADER \<Rightarrow> header_then_content w K hid buffer m
         | STATUS_CONTENT \<Rightarrow> content_part w hid buffer m
         | _ \<Rightarrow> Some (Inl m)))"

partial_function (option) socket_loop :: "world \<Rightarrow> kernel \<Rightarrow> nat \<Rightarrow> i32 \<Rightarrow> string \<Rightarrow> hmachine \<Rightarrow> hmachine option" where
  "socket_loop w K hid fd buffer m =
     do { r \<leftarrow> socket_round w K hid fd buffer m;
          case r of Inl m1 \<Rightarrow> Some m1 | Inr (rest, m1) \<Rightarrow> socket_loop w K hid fd rest m1 }"

definition harbor_id :: "harbor \<Rightarrow> i32 \<Rightarrow> nat option" where
  "harbor_id h fd = find (\<lambda>i. sl_fd (hb_s h i) = fd) [1..<REMOTE_MAX]"

definition push_socket_data :: "world \<Rightarrow> kernel \<Rightarrow> uboss_socket_message \<Rightarrow> hmachine \<Rightarrow> hmachine option" where
  "push_socket_data w K message = (\<lambda>(h, n, ss).
     case harbor_id h (sk_id message) of
       None \<Rightarrow> do {
         n1 \<leftarrow> node_free (sk_buffer message) n;
         n2 \<leftarrow> uboss_error w (hb_ctx h) (''Invalid socket fd ('' @ print_d (sint (sk_id message)) @ '') data'') n1;
         Some (h, n2, ss) }
     | Some hid \<Rightarrow> do {
         guard (0 \<le> sint (sk_ud message));
         bytes \<leftarrow> read_block (sk_buffer message) (scast (sk_ud message)) n;
         socket_loop w K hid (sk_id message) bytes (h, n, ss) })"

section \<open>Names and remote messages\<close>

definition update_name :: "world \<Rightarrow> kernel \<Rightarrow> string \<Rightarrow> u32 \<Rightarrow> hmachine \<Rightarrow> hmachine option" where
  "update_name w K name handle = (\<lambda>(h, n, ss).
     let (i, h1) = search_or_insert name h; b = bucket_of name; node = get_kv b i h1;
         h2 = put_kv b i (node\<lparr>kv_value := handle\<rparr>) h1
     in case kv_queue node of
          None \<Rightarrow> Some (h2, n, ss)
        | Some _ \<Rightarrow> do {
            (h3, n1, ss1) \<leftarrow> dispatch_name_queue w K b i (h2, n, ss);
            n2 \<leftarrow> release_queue (kv_queue (get_kv b i h3)) n1;
            Some (put_kv b i ((get_kv b i h3)\<lparr>kv_queue := None\<rparr>) h3, n2, ss1) })"

definition remote_send_handle :: "world \<Rightarrow> kernel \<Rightarrow> u32 \<Rightarrow> u32 \<Rightarrow> u32 \<Rightarrow> i32 \<Rightarrow> ptr \<Rightarrow> u64 \<Rightarrow> hmachine \<Rightarrow> (i32 \<times> hmachine) option" where
  \<comment> \<open>the result says whether the message was taken over\<close>
  "remote_send_handle w K source destination type session msg sz = (\<lambda>(h, n, ss).
     let hid = drop_bit HANDLE_REMOTE_SHIFT destination;
         header = \<lparr>rh_source = source, rh_destination = push_bit HANDLE_REMOTE_SHIFT type OR (destination AND HANDLE_MASK),
                   rh_session = session\<rparr>
     in if hid = hb_id h then do {
          (_, n1) \<leftarrow> uboss_send w (hb_ctx h) source destination (type OR PTYPE_TAG_DONTCOPY) session msg sz n;
          Some (1, h, n1, ss) }
        else
          (let s = hb_s h (unat hid)
           in if sl_fd s = 0 \<or> sl_status s = STATUS_HANDSHAKE then
                if sl_status s = STATUS_DOWN then do {
                  (_, n1) \<leftarrow> uboss_send w (hb_ctx h) destination source PTYPE_ERROR 0 NULL 0 n;
                  n2 \<leftarrow> uboss_error w (hb_ctx h) (''Drop message to harbor '' @ print_d (int (unat hid)) @ '' from '' @
                         print_x (unat source) @ '' to '' @ print_x (unat destination) @ '' (session = '' @ print_d (sint session) @
                         '', msgsz = '' @ print_d (sint (ucast sz :: i32)) @ '')'') n1;
                  Some (0, h, n2, ss) }
                else do {
                  q \<leftarrow> push_queue msg sz header (case sl_queue s of None \<Rightarrow> new_queue | Some q \<Rightarrow> q);
                  Some (1, put_slave (unat hid) (s\<lparr>sl_queue := Some q\<rparr>) h, n, ss) }
              else do {
                (n1, ss1) \<leftarrow> send_remote w K (hb_ctx h) (sl_fd s) msg sz header (n, ss);
                Some (0, h, n1, ss1) }))"

definition remote_send_name :: "world \<Rightarrow> kernel \<Rightarrow> u32 \<Rightarrow> string \<Rightarrow> u32 \<Rightarrow> i32 \<Rightarrow> ptr \<Rightarrow> u64 \<Rightarrow> hmachine \<Rightarrow> (i32 \<times> hmachine) option" where
  "remote_send_name w K source name type session msg sz = (\<lambda>(h, n, ss).
     let (i, h1) = search_or_insert name h; b = bucket_of name; node = get_kv b i h1
     in if kv_value node = 0 then do {
          q \<leftarrow> push_queue msg sz
                \<lparr>rh_source = source, rh_destination = push_bit HANDLE_REMOTE_SHIFT type, rh_session = session\<rparr>
                (case kv_queue node of None \<Rightarrow> new_queue | Some q \<Rightarrow> q);
          n1 \<leftarrow> send_stack w (hb_ctx h1) (hb_slave h1) PTYPE_TEXT (''Q '' @ c_str (take GLOBALNAME_LENGTH name)) n;
          Some (1, put_kv b i (node\<lparr>kv_queue := Some q\<rparr>) h1, n1, ss) }
        else remote_send_handle w K source (kv_value node) type session msg sz (h1, n, ss))"

definition handshake :: "kernel \<Rightarrow> nat \<Rightarrow> hmachine \<Rightarrow> hmachine option" where
  "handshake K hid = (\<lambda>(h, n, ss). do {
     let (p, n1) = node_malloc (Bytes [char_of (unat (hb_id h))]) n;
     (_, n2, ss1) \<leftarrow> uboss_socket_send K (sl_fd (hb_s h hid)) p 1 n1 ss;
     Some (h, n2, ss1) })"

definition c_text :: "string \<Rightarrow> string option" where
  \<comment> \<open>\<open>%s\<close> of a block: the zero has to be in it\<close>
  "c_text bs = (if NUL \<in> set bs then Some (c_str bs) else None)"

definition scan_two_ints :: "string \<Rightarrow> i32 \<times> i32" where
  \<comment> \<open>\<open>sscanf(s, "%d %d", ...)\<close> into variables that are 0 before\<close>
  "scan_two_ints s =
     (case scan_int s of
        None \<Rightarrow> (0, 0)
      | Some (a, r) \<Rightarrow> (case scan_int r of None \<Rightarrow> (a, 0) | Some (b, _) \<Rightarrow> (a, b)))"

definition connect_harbor :: "world \<Rightarrow> kernel \<Rightarrow> char \<Rightarrow> string \<Rightarrow> hmachine \<Rightarrow> hmachine option" where
  \<comment> \<open>the commands \<open>S\<close> and \<open>A\<close>\<close>
  "connect_harbor w K cmd buffer = (\<lambda>(h, n, ss). do {
     let (fd, hid) = scan_two_ints (c_str buffer);
     if fd = 0 \<or> sint hid \<le> 0 \<or> int REMOTE_MAX \<le> sint hid then do {
       n1 \<leftarrow> uboss_error w (hb_ctx h) (''Invalid command '' @ [cmd] @ '' '' @ c_str buffer) n;
       Some (h, n1, ss) }
     else do {
       let i = unat hid;
       let s = hb_s h i;
       if sl_fd s \<noteq> 0 then do {
         n1 \<leftarrow> uboss_error w (hb_ctx h) (''Harbor '' @ print_d (int i) @ '' alreay exist'') n;
         Some (h, n1, ss) }
       else do {
         let h1 = put_slave i (s\<lparr>sl_fd := fd\<rparr>) h;
         ss1 \<leftarrow> uboss_socket_start K (hb_ctx h1) fd n ss;
         (h2, n2, ss2) \<leftarrow> handshake K i (h1, n, ss1);
         if cmd = CHR ''S'' then Some (put_slave i ((hb_s h2 i)\<lparr>sl_status := STATUS_HANDSHAKE\<rparr>) h2, n2, ss2)
         else dispatch_queue w K i (put_slave i ((hb_s h2 i)\<lparr>sl_status := STATUS_HEADER\<rparr>) h2, n2, ss2) } } })"

definition harbor_command :: "world \<Rightarrow> kernel \<Rightarrow> ptr \<Rightarrow> u64 \<Rightarrow> u32 \<Rightarrow> hmachine \<Rightarrow> hmachine option" where
  "harbor_command w K msg sz source = (\<lambda>(h, n, ss).
     case nd_mem n msg of
       Some (Bytes bs) \<Rightarrow> do {
         guard (bs \<noteq> []);
         let s = int (unat sz) - 2;
         if hd bs = CHR ''N'' then
           if s \<le> 0 \<or> int GLOBALNAME_LENGTH \<le> s then do {
             text \<leftarrow> c_text (drop 2 bs);
             n1 \<leftarrow> uboss_error w (hb_ctx h) (''Invalid global name '' @ text) n;
             Some (h, n1, ss) }
           else do {
             guard (unat sz \<le> length bs);
             let name = take (nat s) (drop 2 bs);
             update_name w K (name @ replicate (GLOBALNAME_LENGTH - nat s) NUL) source (h, n, ss) }
         else if hd bs = CHR ''S'' \<or> hd bs = CHR ''A'' then do {
           guard (0 \<le> s \<and> unat sz \<le> length bs);
           connect_harbor w K (hd bs) (take (nat s) (drop 2 bs)) (h, n, ss) }
         else do {
           text \<leftarrow> c_text bs;
           n1 \<leftarrow> uboss_error w (hb_ctx h) (''Unknown command '' @ text) n;
           Some (h, n1, ss) } }
     | _ \<Rightarrow> None)"

section \<open>The callback\<close>

definition harbor_socket :: "world \<Rightarrow> kernel \<Rightarrow> uboss_socket_message \<Rightarrow> hmachine \<Rightarrow> hmachine option" where
  "harbor_socket w K message = (\<lambda>(h, n, ss).
     if sk_type message = UBOSS_SOCKET_TYPE_DATA then do {
       (h1, n1, ss1) \<leftarrow> push_socket_data w K message (h, n, ss);
       n2 \<leftarrow> node_free (sk_buffer message) n1;
       Some (h1, n2, ss1) }
     else if sk_type message = UBOSS_SOCKET_TYPE_ERROR \<or> sk_type message = UBOSS_SOCKET_TYPE_CLOSE then do {
       n1 \<leftarrow> (case harbor_id h (sk_id message) of
                Some hid \<Rightarrow> report_harbor_down w hid h n
              | None \<Rightarrow> uboss_error w (hb_ctx h) (''Unkown fd ('' @ print_d (sint (sk_id message)) @ '') closed'') n);
       Some (h, n1, ss) }
     else if sk_type message = UBOSS_SOCKET_TYPE_CONNECT then Some (h, n, ss)
     else if sk_type message = UBOSS_SOCKET_TYPE_WARNING then do {
       n1 \<leftarrow> (case harbor_id h (sk_id message) of
                Some hid \<Rightarrow> uboss_error w (hb_ctx h) (''message havn't send to Harbor ('' @ print_d (int hid) @ '') reach '' @
                              print_d (sint (sk_ud message)) @ '' K'') n
              | None \<Rightarrow> Some n);
       Some (h, n1, ss) }
     else do {
       n1 \<leftarrow> uboss_error w (hb_ctx h) (''recv invalid socket message type '' @ print_d (sint PTYPE_SOCKET)) n;
       Some (h, n1, ss) })"

definition mainloop :: "world \<Rightarrow> kernel \<Rightarrow> u32 \<Rightarrow> i32 \<Rightarrow> u32 \<Rightarrow> ptr \<Rightarrow> u64 \<Rightarrow> hmachine \<Rightarrow> hmachine option" where
  \<comment> \<open>it always returns 0\<close>
  "mainloop w K type session source msg sz = (\<lambda>(h, n, ss).
     if type = PTYPE_SOCKET then
       (case nd_mem n msg of Some (Socket message _) \<Rightarrow> harbor_socket w K message (h, n, ss) | _ \<Rightarrow> None)
     else if type = PTYPE_HARBOR then harbor_command w K msg sz source (h, n, ss)
     else (case nd_mem n msg of
       Some (Remote rmsg) \<Rightarrow> do {
         (taken, h1, n1, ss1) \<leftarrow>
           (if rn_handle (rm_destination rmsg) = 0
            then do { name \<leftarrow> rn_name (rm_destination rmsg);
                      remote_send_name w K source name type session (rm_message rmsg) (rm_sz rmsg) (h, n, ss) }
            else remote_send_handle w K source (rn_handle (rm_destination rmsg)) type session (rm_message rmsg) (rm_sz rmsg)
                   (h, n, ss));
         n2 \<leftarrow> (if taken \<noteq> 0 then Some n1 else node_free (rm_message rmsg) n1);
         Some (h1, n2, ss1) }
     | _ \<Rightarrow> None))"

definition scan_uint :: "string \<Rightarrow> u32 option" where
  \<comment> \<open>\<open>%u\<close>\<close>
  "scan_uint s =
     (let (neg, t) = strip_sign s; (k, r) = read_digits 10 0 t
      in if r = t then None else Some (if neg then - word_of_nat k else word_of_nat (min k (2 ^ 64 - 1))))"

definition harbor_init :: "ptr \<Rightarrow> ptr \<Rightarrow> ptr \<Rightarrow> string \<Rightarrow> harbor \<times> node \<Rightarrow> (i32 \<times> harbor \<times> node) option" where
  \<comment> \<open>\<open>self\<close> and \<open>cb\<close> are the addresses of the harbor and of \<open>mainloop\<close>\<close>
  "harbor_init self cb ctx args = (\<lambda>(h, n). do {
     let h1 = h\<lparr>hb_ctx := ctx\<rparr>;
     let (hid, slave) = (case scan_int args of
                           None \<Rightarrow> (0, 0)
                         | Some (a, r) \<Rightarrow> (a, case scan_uint r of None \<Rightarrow> 0 | Some b \<Rightarrow> b));
     if slave = 0 then Some (1, h1, n)
     else do {
       n1 \<leftarrow> uboss_callback ctx self cb n;
       n2 \<leftarrow> uboss_harbor_start ctx n1;
       Some (0, h1\<lparr>hb_id := hid, hb_slave := slave\<rparr>, n2) } })"

section \<open>A block that is freed twice\<close>

text \<open>Data on a socket that is no harbor's: \<open>push_socket_data\<close> frees the block, and \<open>mainloop\<close> frees it
  again.\<close>

lemma unknown_fd_frees_twice:
  assumes "harbor_id h (sk_id message) = None" "sk_type message = UBOSS_SOCKET_TYPE_DATA" "sk_buffer message \<noteq> NULL"
    and "node_free (sk_buffer message) n = Some n1"
    and "uboss_error w (hb_ctx h) (''Invalid socket fd ('' @ print_d (sint (sk_id message)) @ '') data'') n1 = Some n2"
    and "nd_mem n2 (sk_buffer message) = None"
  shows "harbor_socket w K message (h, n, ss) = None"
proof -
  have "node_free (sk_buffer message) n2 = None" using assms(3,6) by (simp add: node_free_def)
  then show ?thesis using assms(1,2,4,5) by (simp add: harbor_socket_def push_socket_data_def)
qed

end
