(* ===== verification/Ring.thy ===== *)
theory Ring
  imports Prelude
begin

text \<open>
  Ring buffers that are full when the next place of the tail is the head, as the harbor and the
  packet library keep them: the list they hold, and what storing at the tail and fetching at
  the head do to it.
\<close>

definition ring_count :: "'a option list \<Rightarrow> nat \<Rightarrow> nat \<Rightarrow> nat" where
  "ring_count data h t = (t + length data - h) mod length data"

definition ring_ok :: "'a option list \<Rightarrow> nat \<Rightarrow> nat \<Rightarrow> bool" where
  "ring_ok data h t \<longleftrightarrow> h < length data \<and> t < length data \<and>
     (\<forall>i<ring_count data h t. data ! ((h + i) mod length data) \<noteq> None)"

definition ring_list :: "'a option list \<Rightarrow> nat \<Rightarrow> nat \<Rightarrow> 'a list" where
  "ring_list data h t = map (\<lambda>i. the (data ! ((h + i) mod length data))) [0..<ring_count data h t]"

lemma ring_distinct:
  fixes h i c s :: nat
  assumes "h < s" "i < c" "c < s"
  shows "(h + i) mod s \<noteq> (h + c) mod s"
  using assms mod_add_less_self [of h s i] mod_add_less_self [of h s c] by (auto split: if_splits)

lemma ring_tail: "h < length data \<Longrightarrow> t < length data \<Longrightarrow> t = (h + ring_count data h t) mod length data"
  by (simp add: ring_count_def mod_simps)

lemma ring_count_less: "h < length data \<Longrightarrow> ring_count data h t < length data"
  by (cases data) (simp_all add: ring_count_def)

lemma ring_count_eq:
  assumes "h < length data" "c < length data" "t = (h + c) mod length data"
  shows "ring_count data h t = c"
proof (cases "h + c < length data")
  case True
  then show ?thesis using assms by (simp add: ring_count_def mod_if)
next
  case False
  then have "t = h + c - length data" using assms by (simp add: mod_add_less_self)
  then show ?thesis using assms False by (simp add: ring_count_def)
qed

lemma ring_empty: "h < length data \<Longrightarrow> ring_list data h h = []"
  by (simp add: ring_list_def ring_count_def)

lemma ring_full_iff:
  assumes "h < length data" "t < length data"
  shows "(t + 1) mod length data = h \<longleftrightarrow> ring_count data h t + 1 = length data"
proof -
  let ?s = "length data" and ?c = "ring_count data h t"
  have "(t + 1) mod ?s = (h + (?c + 1)) mod ?s" using ring_tail [OF assms] by (metis add.assoc mod_add_left_eq)
  moreover have "(h + (?c + 1)) mod ?s = h \<longleftrightarrow> ?c + 1 = ?s"
  proof (cases "?c + 1 = ?s")
    case False
    then have "?c + 1 < ?s" using ring_count_less [OF assms(1), of t] by simp
    moreover from this have "(h + (?c + 1)) mod ?s = (if h + (?c + 1) < ?s then h + (?c + 1) else h + (?c + 1) - ?s)"
      using assms by (simp add: mod_if)
    ultimately show ?thesis using assms False by auto
  qed (use assms in simp)
  ultimately show ?thesis by simp
qed

lemma ring_stored:
  assumes "ring_ok data h t" "i < ring_count data h t"
  shows "data[t := x] ! ((h + i) mod length data) = data ! ((h + i) mod length data)"
proof -
  have b: "h < length data" "t < length data" using assms(1) by (simp_all add: ring_ok_def)
  have "(h + i) mod length data \<noteq> (h + ring_count data h t) mod length data"
    using b assms(2) by (intro ring_distinct ring_count_less)
  then show ?thesis using ring_tail [OF b] by simp
qed

lemma ring_store:
  assumes ok: "ring_ok data h t" and room: "(t + 1) mod length data \<noteq> h"
  shows "ring_ok (data[t := Some x]) h ((t + 1) mod length data)"
    "ring_list (data[t := Some x]) h ((t + 1) mod length data) = ring_list data h t @ [x]"
proof -
  let ?s = "length data" and ?c = "ring_count data h t" and ?d = "data[t := Some x]"
  have b: "h < ?s" "t < ?s" using ok by (simp_all add: ring_ok_def)
  have c: "?c + 1 < ?s" using room ring_full_iff [OF b] ring_count_less [OF b(1), of t] by linarith
  have tail: "t = (h + ?c) mod ?s" by (rule ring_tail [OF b])
  have "(t + 1) mod ?s = (h + (?c + 1)) mod ?s" using tail by (metis add.assoc mod_add_left_eq)
  then have count: "ring_count ?d h ((t + 1) mod ?s) = ?c + 1" using b c by (intro ring_count_eq) simp_all
  have new: "?d ! ((h + ?c) mod ?s) = Some x" using b tail by simp
  show "ring_list ?d h ((t + 1) mod ?s) = ring_list data h t @ [x]"
    using new count ring_stored [OF ok] by (simp add: ring_list_def)
  have "?d ! ((h + i) mod ?s) \<noteq> None" if "i < ?c + 1" for i
    using that new ring_stored [OF ok, of i] ok by (cases "i = ?c") (auto simp: ring_ok_def)
  moreover have "(t + 1) mod ?s < ?s" using c by (intro mod_less_divisor) linarith
  ultimately show "ring_ok ?d h ((t + 1) mod ?s)" using b count by (simp add: ring_ok_def)
qed

lemma ring_in_order:
  "ring_ok data h t \<Longrightarrow> map (\<lambda>i. data ! ((h + i) mod length data)) [0..<ring_count data h t] = map Some (ring_list data h t)"
  by (auto simp: ring_ok_def ring_list_def)

text \<open>A full ring in the order of its content.\<close>

lemma ring_full:
  assumes ok: "ring_ok data h t" and full: "(t + 1) mod length data = h"
  shows "map (\<lambda>i. data[t := Some x] ! ((h + i) mod length data)) [0..<length data] = map Some (ring_list data h t @ [x])"
proof -
  let ?s = "length data" and ?c = "ring_count data h t"
  have b: "h < ?s" "t < ?s" using ok by (simp_all add: ring_ok_def)
  have c: "?s = Suc ?c" using full ring_full_iff [OF b] by simp
  have "data[t := Some x] ! ((h + ?c) mod ?s) = Some x" using b ring_tail [OF b] by simp
  moreover have "data[t := Some x] ! ((h + i) mod ?s) = Some (the (data ! ((h + i) mod ?s)))" if "i < ?c" for i
    using ring_stored [OF ok that] ok that by (simp add: ring_ok_def)
  ultimately show ?thesis by (subst (2) c) (simp add: ring_list_def)
qed

lemma ring_fetch:
  assumes ok: "ring_ok data h t" and ne: "h \<noteq> t"
  shows "\<exists>x. data ! h = Some x \<and> ring_ok data ((h + 1) mod length data) t \<and>
    ring_list data h t = x # ring_list data ((h + 1) mod length data) t"
proof -
  let ?s = "length data" and ?h = "(h + 1) mod length data"
  have b: "h < ?s" "t < ?s" using ok by (simp_all add: ring_ok_def)
  have "ring_count data h t \<noteq> 0" using ne ring_tail [OF b] b by (metis add_0_right mod_less)
  then obtain c where c: "ring_count data h t = Suc c" by (cases "ring_count data h t") auto
  have shift: "(?h + i) mod ?s = (h + Suc i) mod ?s" for i by (simp add: mod_simps)
  have hs: "?h < ?s" using b by (intro mod_less_divisor) linarith
  have "Suc c < ?s" using ring_count_less [OF b(1), of t] c by simp
  then have count: "ring_count data ?h t = c"
    using hs ring_tail [OF b] b c shift [of c] by (intro ring_count_eq) simp_all
  have some: "data ! ((h + i) mod ?s) \<noteq> None" if "i < Suc c" for i using ok that c by (simp add: ring_ok_def)
  then obtain x where x: "data ! h = Some x" using b by (metis add_0_right mod_less not_None_eq zero_less_Suc)
  have "\<forall>i<c. data ! ((h + Suc i) mod ?s) \<noteq> None" using some by blast
  then have "ring_ok data ?h t" unfolding ring_ok_def count shift using b(2) hs by blast
  moreover have "ring_list data h t = x # ring_list data ?h t"
    unfolding ring_list_def count c map_upt_Suc_shift shift using b x by simp
  ultimately show ?thesis using x by blast
qed

lemma ring_of_list:
  assumes "0 < n"
  shows "ring_ok (map Some xs @ replicate n None) 0 (length xs)" "ring_list (map Some xs @ replicate n None) 0 (length xs) = xs"
proof -
  let ?d = "map Some xs @ replicate n None"
  have c: "ring_count ?d 0 (length xs) = length xs" using assms by (intro ring_count_eq) simp_all
  have nth: "?d ! (i mod length ?d) = Some (xs ! i)" if "i < length xs" for i using that by (simp add: nth_append)
  then show "ring_ok ?d 0 (length xs)" using assms c by (simp add: ring_ok_def)
  have "map (\<lambda>i. the (?d ! (i mod length ?d))) [0..<length xs] = map ((!) xs) [0..<length xs]"
    using nth by (intro map_cong refl) (simp del: length_append)
  then show "ring_list ?d 0 (length xs) = xs" by (simp add: ring_list_def c map_nth del: length_append)
qed

end
