(* ===== verification/HarborProps.thy ===== *)
theory HarborProps
  imports Harbor NodeSocketProps Ring
begin

text \<open>
  Properties of the harbor service: its queues are first-in first-out, a message that
  \<open>send_remote\<close> writes is read back by the other side as it was, and the way the bytes are cut
  into blocks by the network does not matter.
\<close>

section \<open>The queues\<close>

definition hq_wf :: "harbor_msg_queue \<Rightarrow> bool" where
  "hq_wf q \<longleftrightarrow> 1 < hq_size q \<and> length (hq_data q) = hq_size q \<and> ring_ok (hq_data q) (hq_head q) (hq_tail q)"

definition hq_content :: "harbor_msg_queue \<Rightarrow> harbor_msg list" where
  "hq_content q = ring_list (hq_data q) (hq_head q) (hq_tail q)"

lemma queue_room_ok:
  assumes wf: "hq_wf q"
  shows "hq_wf (queue_room q) \<and> hq_content (queue_room q) = hq_content q \<and>
    (hq_tail (queue_room q) + 1) mod hq_size (queue_room q) \<noteq> hq_head (queue_room q)"
proof (cases "(hq_tail q + 1) mod hq_size q = hq_head q")
  case True
  let ?s = "hq_size q" and ?r = "queue_room q"
  have ok: "1 < ?s" "length (hq_data q) = ?s" "ring_ok (hq_data q) (hq_head q) (hq_tail q)" using wf by (simp_all add: hq_wf_def)
  then have c: "ring_count (hq_data q) (hq_head q) (hq_tail q) = ?s - 1"
    using ring_full_iff [of "hq_head q" "hq_data q" "hq_tail q"] True by (simp add: ring_ok_def)
  have "map (\<lambda>i. hq_data q ! ((i + hq_head q) mod ?s)) [0..<?s - 1] = map Some (hq_content q)"
    using ring_in_order [OF ok(3)] c ok(2) by (simp add: hq_content_def add.commute)
  then have r: "?r = q\<lparr>hq_data := map Some (hq_content q) @ replicate (?s + 1) None, hq_head := 0, hq_tail := ?s - 1, hq_size := ?s * 2\<rparr>"
    using True by (simp add: queue_room_def)
  have len: "length (hq_content q) = ?s - 1" using c by (simp add: hq_content_def ring_list_def)
  show ?thesis
    using ring_of_list [of "?s + 1" "hq_content q"] ok(1) len by (simp add: r hq_wf_def) (simp add: hq_content_def)
qed (use wf in \<open>simp add: queue_room_def\<close>)

lemma push_queue_msg_ok:
  assumes wf: "hq_wf q"
  shows "\<exists>q'. push_queue_msg m q = Some q' \<and> hq_wf q' \<and> hq_content q' = hq_content q @ [m]"
proof -
  define r where "r = queue_room q"
  have r: "hq_wf r" "hq_content r = hq_content q" "(hq_tail r + 1) mod hq_size r \<noteq> hq_head r"
    using queue_room_ok [OF wf] by (simp_all add: r_def)
  then have "ring_ok (hq_data r) (hq_head r) (hq_tail r)" "length (hq_data r) = hq_size r" by (simp_all add: hq_wf_def)
  moreover from this have "hq_tail r < length (hq_data r)" by (simp add: ring_ok_def)
  ultimately show ?thesis
    using ring_store [of "hq_data r" "hq_head r" "hq_tail r" m] r
    by (simp add: push_queue_msg_def hq_wf_def hq_content_def flip: r_def)
qed

lemma pop_queue_ok:
  assumes wf: "hq_wf q"
  shows "(hq_content q = [] \<longrightarrow> pop_queue q = Some (None, q)) \<and>
    (hq_content q = m # ms \<longrightarrow> (\<exists>q'. pop_queue q = Some (Some m, q') \<and> hq_wf q' \<and> hq_content q' = ms))"
proof (cases "hq_head q = hq_tail q")
  case True
  then show ?thesis using wf by (simp add: pop_queue_def hq_content_def hq_wf_def ring_ok_def ring_empty)
next
  case False
  have ok: "ring_ok (hq_data q) (hq_head q) (hq_tail q)" "length (hq_data q) = hq_size q"
    using wf by (simp_all add: hq_wf_def)
  moreover from this have "hq_head q < hq_size q" by (simp add: ring_ok_def)
  ultimately show ?thesis
    using ring_fetch [OF ok(1) False] wf False by (auto simp: pop_queue_def hq_wf_def hq_content_def)
qed

interpretation harbor_queue: fifo hq_wf hq_content "\<lambda>m q. True" push_queue_msg pop_queue
  by unfold_locales (use push_queue_msg_ok pop_queue_ok in blast)+

lemma new_queue_ok: "hq_wf new_queue \<and> hq_content new_queue = []"
  by (simp add: hq_wf_def hq_content_def ring_ok_def ring_list_def ring_count_def new_queue_def DEFAULT_QUEUE_SIZE_def)

text \<open>A queue of the harbor hands back what was put into it, in order, however pushes and pops
  are mixed, across expansions and wrap-around, and keeps the rest.\<close>

theorem harbor_queue_fifo:
  "\<exists>out q. fifo_run push_queue_msg pop_queue ops new_queue = Some (out, q) \<and> hq_wf q \<and>
     out @ hq_content q = enqueued ops"
  using harbor_queue.run_fifo [of new_queue ops] new_queue_ok by auto

section \<open>The wire format\<close>

lemma bigendian_roundtrip: "from_bigendian (to_bigendian n) = n"
proof -
  have b: "(word_of_nat (unat (x AND 0xff) mod 256) :: u32) = x AND 0xff" for x :: u32
  proof -
    have "unat (x AND 0xff) < 256" using unat_and_mask [of x 8] by (simp add: mask_eq_exp_minus_1)
    then show ?thesis by simp
  qed
  have ff: "(0xff :: u32) = mask 8" by (simp add: mask_eq_exp_minus_1)
  have "push_bit 24 (drop_bit 24 n AND mask 8) OR push_bit 16 (drop_bit 16 n AND mask 8) OR
      push_bit 8 (drop_bit 8 n AND mask 8) OR (n AND mask 8) = n" (is "?l = n")
  proof (rule bit_word_eqI)
    fix i
    assume "i < LENGTH(32)"
    then show "bit ?l i = bit n i"
      by (cases "i < 8"; cases "i < 16"; cases "i < 24") (auto simp: bit_simps)
  qed
  then have "push_bit 24 (drop_bit 24 n AND 0xff) OR push_bit 16 (drop_bit 16 n AND 0xff) OR
      push_bit 8 (drop_bit 8 n AND 0xff) OR (n AND 0xff) = n"
    by (simp only: ff)
  then show ?thesis unfolding from_bigendian_def to_bigendian_def by (simp add: b)
qed

lemma to_bigendian_length [simp]: "length (to_bigendian n) = 4"
  by (simp add: to_bigendian_def)

lemma header_roundtrip: "message_to_header (header_to_message c) = c"
  by (simp add: message_to_header_def header_to_message_def bigendian_roundtrip)

lemma header_to_message_length [simp]: "length (header_to_message c) = 12"
  by (simp add: header_to_message_def)

section \<open>Reading does not depend on the blocks\<close>

definition slave_ok :: "slave \<Rightarrow> bool" where
  "slave_ok s \<longleftrightarrow> length (sl_size s) = 4 \<and> (sl_status s \<in> {STATUS_HANDSHAKE, STATUS_HEADER} \<longrightarrow> sl_read s < 4) \<and>
     (sl_status s = STATUS_CONTENT \<longrightarrow> sl_read s \<le> sl_length s)"

lemma put_slave_simps [simp]:
  "hb_s (put_slave i s h) i = s" "put_slave i s (put_slave i t h) = put_slave i s h" "hb_ctx (put_slave i s h) = hb_ctx h"
  "hb_id (put_slave i s h) = hb_id h" "put_slave i (hb_s h i) h = h"
  by (simp_all add: put_slave_def)

lemma store_at_Nil [simp]: "store_at p off [] = Some"
  by (simp add: store_at_def fun_eq_iff)

lemma store_at_append:
  "store_at p off (b1 @ b2) n = do { n1 \<leftarrow> store_at p off b1 n; store_at p (off + length b1) b2 n1 }"
proof (cases "b1 = [] \<or> b2 = []")
  case False
  show ?thesis
  proof (cases "nd_mem n p")
    case (Some v)
    show ?thesis
    proof (cases v)
      case (Bytes bs)
      show ?thesis
      proof (cases "off + length b1 \<le> length bs")
        case True
        let ?c = "take off bs @ b1 @ drop (off + length b1) bs"
        have "length ?c = length bs" "take (off + length b1) ?c = take off bs @ b1"
          "drop (off + length b1 + length b2) ?c = drop (off + length b1 + length b2) bs"
          using True by (simp_all add: add.commute add.left_commute)
        then show ?thesis using True Some Bytes False by (simp add: store_at_def add.assoc)
      qed (use Some Bytes False in \<open>simp add: store_at_def\<close>)
    qed (use Some False in \<open>simp_all add: store_at_def\<close>)
  qed (use False in \<open>simp add: store_at_def\<close>)
qed auto

lemma close_harbor_down:
  "close_harbor K hid m = Some m1 \<Longrightarrow> sl_status (hb_s (fst m1) hid) = STATUS_DOWN"
  by (cases m) (auto simp: close_harbor_def Let_def)

lemma dispatch_queue_slave:
  "dispatch_queue w K hid (h, n, ss) = Some m1 \<Longrightarrow> \<exists>q. hb_s (fst m1) hid = (hb_s h hid)\<lparr>sl_queue := q\<rparr>"
  by (auto simp: dispatch_queue_def Let_def split: option.splits
      intro: exI [of _ None] exI [of _ "sl_queue (hb_s h hid)"])

lemma loop_down:
  "sl_status (hb_s (fst m) hid) \<in> {STATUS_DOWN, STATUS_WAIT} \<Longrightarrow> socket_loop w K hid fd b m = Some m"
  by (subst socket_loop.simps) (auto simp: socket_round_def split: prod.splits)

definition go_on :: "world \<Rightarrow> kernel \<Rightarrow> nat \<Rightarrow> i32 \<Rightarrow> hmachine + (string \<times> hmachine) \<Rightarrow> hmachine option" where
  "go_on w K hid fd r = (case r of Inl m1 \<Rightarrow> Some m1 | Inr (rest, m1) \<Rightarrow> socket_loop w K hid fd rest m1)"

lemma loop_round: "socket_loop w K hid fd b m = do { r \<leftarrow> socket_round w K hid fd b m; go_on w K hid fd r }"
  unfolding go_on_def by (subst socket_loop.simps) simp

lemma loop_content:
  "sl_status (hb_s h hid) = STATUS_CONTENT \<Longrightarrow>
   socket_loop w K hid fd b (h, n, ss) = do { r \<leftarrow> content_part w hid b (h, n, ss); go_on w K hid fd r }"
  by (simp add: loop_round socket_round_def)

lemma header_part_content:
  "header_part w K hid b (h, n, ss) = Some (Inr (rest, m1)) \<Longrightarrow> sl_status (hb_s (fst m1) hid) = STATUS_CONTENT"
  by (auto simp: header_part_def Let_def node_malloc_def split: if_splits)

lemma loop_header:
  assumes "sl_status (hb_s h hid) = STATUS_HEADER"
  shows "socket_loop w K hid fd b (h, n, ss) = do { r \<leftarrow> header_part w K hid b (h, n, ss); go_on w K hid fd r }"
proof -
  have "do { r \<leftarrow> header_then_content w K hid b (h, n, ss); go_on w K hid fd r } =
      do { r \<leftarrow> header_part w K hid b (h, n, ss); go_on w K hid fd r }"
  proof (cases "header_part w K hid b (h, n, ss)")
    case (Some r)
    show ?thesis
    proof (cases r)
      case (Inr x)
      obtain rest h1 n1 ss1 where x: "x = (rest, h1, n1, ss1)" by (metis prod.exhaust)
      have "sl_status (hb_s h1 hid) = STATUS_CONTENT" using header_part_content Some Inr x by fastforce
      then show ?thesis using Some Inr x by (simp add: header_then_content_def loop_content go_on_def)
    qed (use Some in \<open>simp add: header_then_content_def\<close>)
  qed (simp add: header_then_content_def)
  then show ?thesis using assms by (simp add: loop_round socket_round_def)
qed

lemma loop_handshake:
  assumes "sl_status (hb_s h hid) = STATUS_HANDSHAKE"
  shows "socket_loop w K hid fd b (h, n, ss) = do { r \<leftarrow> handshake_part w K hid fd b (h, n, ss); go_on w K hid fd r }"
proof (cases "handshake_part w K hid fd b (h, n, ss)")
  case None
  then show ?thesis using assms by (simp add: loop_round socket_round_def)
next
  case (Some r)
  show ?thesis
  proof (cases r)
    case (Inl m)
    then show ?thesis using Some assms by (simp add: loop_round [of w K hid fd b] socket_round_def)
  next
    case (Inr x)
    obtain rest h1 n1 ss1 where x: "x = (rest, h1, n1, ss1)" by (metis prod.exhaust)
    have "sl_status (hb_s h1 hid) = STATUS_HEADER"
      using Some Inr x by (auto simp: handshake_part_def dest!: dispatch_queue_slave split: list.splits if_splits)
    then have "socket_round w K hid fd rest (h1, n1, ss1) = header_then_content w K hid rest (h1, n1, ss1)"
      by (simp add: socket_round_def)
    then show ?thesis using Some Inr x assms
      by (cases "rest = []")
        (simp_all add: loop_round [of w K hid fd b] loop_round [of w K hid fd rest] socket_round_def [of w K hid fd b] go_on_def)
  qed
qed

text \<open>After a length that is too long the slave is down, and how much of its header had been read
  before the last block does not matter any more: states are compared without it.\<close>

definition forget :: "nat \<Rightarrow> hmachine \<Rightarrow> hmachine" where
  "forget hid = (\<lambda>(h, n, ss).
     (if sl_status (hb_s h hid) = STATUS_DOWN then put_slave hid ((hb_s h hid)\<lparr>sl_read := 0\<rparr>) h else h, n, ss))"

lemma close_forget:
  "map_option (forget hid) (close_harbor K hid (put_slave hid (s\<lparr>sl_read := k\<rparr>) h, n, ss)) =
   map_option (forget hid) (close_harbor K hid (put_slave hid s h, n, ss))"
  by (auto simp: close_harbor_def forget_def Let_def split: bind_splits)

lemma header_part_short:
  assumes "length b < 4 - sl_read (hb_s h hid)" "slave_ok (hb_s h hid)" "sl_status (hb_s h hid) = STATUS_HEADER"
  shows "header_part w K hid b (h, n, ss) =
    Some (Inl (put_slave hid ((hb_s h hid)\<lparr>
        sl_size := take (sl_read (hb_s h hid)) (sl_size (hb_s h hid)) @ b @ drop (sl_read (hb_s h hid) + length b) (sl_size (hb_s h hid)),
        sl_read := sl_read (hb_s h hid) + length b\<rparr>) h, n, ss))"
  using assms by (simp add: header_part_def Let_def slave_ok_def)

definition header_full :: "world \<Rightarrow> kernel \<Rightarrow> nat \<Rightarrow> string \<Rightarrow> string \<Rightarrow> hmachine \<Rightarrow> (hmachine + (string \<times> hmachine)) option" where
  \<comment> \<open>what \<open>header_part\<close> does once the four bytes are there\<close>
  "header_full w K hid sz rest = (\<lambda>(h, n, ss).
     let s = hb_s h hid
     in if sz ! 0 \<noteq> NUL then do {
          n1 \<leftarrow> uboss_error w (hb_ctx h) (''Message is too long from harbor '' @ print_d (int hid)) n;
          m \<leftarrow> close_harbor K hid (put_slave hid (s\<lparr>sl_size := sz\<rparr>) h, n1, ss);
          Some (Inl m) }
        else do {
          let len = unat (from_bigendian sz);
          let (p, n1) = node_malloc (Bytes (replicate len NUL)) n;
          let m = (put_slave hid (s\<lparr>sl_size := sz, sl_length := len, sl_read := 0, sl_recv_buffer := p,
                                     sl_status := STATUS_CONTENT\<rparr>) h, n1, ss);
          Some (if rest = [] then Inl m else Inr (rest, m)) })"

lemma header_part_full:
  assumes "4 - sl_read (hb_s h hid) \<le> length b" "slave_ok (hb_s h hid)" "sl_status (hb_s h hid) = STATUS_HEADER"
  shows "header_part w K hid b (h, n, ss) =
    header_full w K hid (take (sl_read (hb_s h hid)) (sl_size (hb_s h hid)) @ take (4 - sl_read (hb_s h hid)) b)
      (drop (4 - sl_read (hb_s h hid)) b) (h, n, ss)"
  using assms by (simp add: header_part_def header_full_def Let_def slave_ok_def)

lemma header_full_forget:
  assumes "s = (hb_s h hid)\<lparr>sl_size := x, sl_read := y\<rparr>"
  shows "map_option (forget hid) (header_full w K hid sz rest (put_slave hid s h, n, ss) \<bind> go_on w K hid fd) =
    map_option (forget hid) (header_full w K hid sz rest (h, n, ss) \<bind> go_on w K hid fd)"
proof (cases "sz ! 0 = NUL")
  case True
  then show ?thesis using assms by (simp add: header_full_def Let_def node_malloc_def)
next
  case False
  have full: "header_full w K hid sz rest (k, n, ss) \<bind> go_on w K hid fd =
      do { n1 \<leftarrow> uboss_error w (hb_ctx k) (''Message is too long from harbor '' @ print_d (int hid)) n;
           close_harbor K hid (put_slave hid ((hb_s k hid)\<lparr>sl_size := sz\<rparr>) k, n1, ss) }" for k
    using False by (simp add: header_full_def Let_def go_on_def)
  let ?t = "(hb_s h hid)\<lparr>sl_size := sz\<rparr>"
  have s: "s\<lparr>sl_size := sz\<rparr> = ?t\<lparr>sl_read := y\<rparr>" using assms by simp
  have "map_option (forget hid) (close_harbor K hid (put_slave hid (?t\<lparr>sl_read := y\<rparr>) h, n1, ss)) =
      map_option (forget hid) (close_harbor K hid (put_slave hid ?t h, n1, ss))" for n1
    by (rule close_forget)
  then show ?thesis unfolding full put_slave_simps s
    by (cases "uboss_error w (hb_ctx h) (''Message is too long from harbor '' @ print_d (int hid)) n")
      (simp_all del: slave.simps)
qed

lemma header_resume:
  assumes ok: "slave_ok (hb_s h hid)" "sl_status (hb_s h hid) = STATUS_HEADER"
    and short: "length b1 < 4 - sl_read (hb_s h hid)"
  shows "\<exists>s. slave_ok s \<and> sl_status s = STATUS_HEADER \<and>
    socket_loop w K hid fd b1 (h, n, ss) = Some (put_slave hid s h, n, ss) \<and>
    map_option (forget hid) (socket_loop w K hid fd (b1 @ b2) (h, n, ss)) =
    map_option (forget hid) (socket_loop w K hid fd b2 (put_slave hid s h, n, ss))"
proof -
  let ?s = "hb_s h hid" and ?k = "sl_read (hb_s h hid) + length b1"
  define s where "s = ?s\<lparr>sl_size := take (sl_read ?s) (sl_size ?s) @ b1 @ drop ?k (sl_size ?s), sl_read := ?k\<rparr>"
  have len: "length (sl_size ?s) = 4" "sl_read ?s < 4" using ok by (simp_all add: slave_ok_def)
  have k: "?k < 4" using short by simp
  have size: "length (sl_size s) = 4" "take ?k (sl_size s) = take (sl_read ?s) (sl_size ?s) @ b1"
      "drop (?k + j) (sl_size s) = drop (?k + j) (sl_size ?s)" for j
    using len k by (simp_all add: s_def add.commute add.left_commute)
  have s: "slave_ok s" "sl_status s = STATUS_HEADER" "sl_read s = ?k"
    using size(1) k ok(2) by (simp_all add: slave_ok_def s_def)
  let ?h = "put_slave hid s h"
  have one: "socket_loop w K hid fd b1 (h, n, ss) = Some (?h, n, ss)"
    using header_part_short [OF short ok] by (simp add: loop_header [OF ok(2)] go_on_def s_def)
  have "map_option (forget hid) (header_part w K hid (b1 @ b2) (h, n, ss) \<bind> go_on w K hid fd) =
      map_option (forget hid) (header_part w K hid b2 (?h, n, ss) \<bind> go_on w K hid fd)"
  proof (cases "length (b1 @ b2) < 4 - sl_read ?s")
    case True
    have "length b2 < 4 - sl_read (hb_s ?h hid)" using True s(3) by simp
    then have "header_part w K hid b2 (?h, n, ss) = header_part w K hid (b1 @ b2) (h, n, ss)"
      using header_part_short [OF True ok] header_part_short [of b2 ?h hid] s size by (simp add: s_def add.assoc)
    then show ?thesis by simp
  next
    case False
    then have "4 - sl_read ?s \<le> length (b1 @ b2)" "4 - sl_read (hb_s ?h hid) \<le> length b2" using s(3) by simp_all
    moreover have "take (sl_read ?s) (sl_size ?s) @ take (4 - sl_read ?s) (b1 @ b2) = take ?k (sl_size s) @ take (4 - ?k) b2"
      using size(2) short by simp
    moreover have "drop (4 - sl_read ?s) (b1 @ b2) = drop (4 - ?k) b2" using short by simp
    ultimately show ?thesis
      using header_part_full [of h hid "b1 @ b2"] header_part_full [of ?h hid b2] ok s
        header_full_forget [where s = s and h = h and hid = hid and x = "sl_size s" and y = "sl_read s"]
      by (simp add: s_def)
  qed
  then show ?thesis using one s ok(2) by (intro exI [of _ s]) (simp add: loop_header)
qed

text \<open>A complete part (a handshake byte, a header, a content) behaves in the same way whatever
  follows it in the block: it ends with the slave down, or it goes on in the next status.\<close>

definition part :: "world \<Rightarrow> kernel \<Rightarrow> nat \<Rightarrow> i32 \<Rightarrow> status \<Rightarrow> (string \<Rightarrow> hmachine option) \<Rightarrow> bool" where
  "part w K hid fd st F \<longleftrightarrow>
     (\<exists>x. (\<forall>rest. F rest = x) \<and>
          (\<forall>m. x = Some m \<longrightarrow> slave_ok (hb_s (fst m) hid) \<and> sl_status (hb_s (fst m) hid) = STATUS_DOWN)) \<or>
     (\<exists>m. (\<forall>rest. F rest = (if rest = [] then Some m else socket_loop w K hid fd rest m)) \<and>
          slave_ok (hb_s (fst m) hid) \<and> sl_status (hb_s (fst m) hid) = st)"

lemma part_split:
  assumes "part w K hid fd st F" "b2 \<noteq> []"
    and IH: "\<And>m. rest \<noteq> [] \<Longrightarrow> slave_ok (hb_s (fst m) hid) \<Longrightarrow> sl_status (hb_s (fst m) hid) = st \<Longrightarrow>
      map_option (forget hid) (socket_loop w K hid fd (rest @ b2) m) =
      map_option (forget hid) (socket_loop w K hid fd rest m \<bind> socket_loop w K hid fd b2)"
  shows "map_option (forget hid) (F (rest @ b2)) = map_option (forget hid) (F rest \<bind> socket_loop w K hid fd b2)"
  using assms(1) unfolding part_def
proof (elim disjE exE conjE)
  fix x assume "\<forall>rest. F rest = x" "\<forall>m. x = Some m \<longrightarrow> slave_ok (hb_s (fst m) hid) \<and> sl_status (hb_s (fst m) hid) = STATUS_DOWN"
  then show ?thesis by (cases x) (simp_all add: loop_down)
next
  fix m assume "\<forall>rest. F rest = (if rest = [] then Some m else socket_loop w K hid fd rest m)"
    "slave_ok (hb_s (fst m) hid)" "sl_status (hb_s (fst m) hid) = st"
  then show ?thesis using IH [of m] assms(2) by (cases "rest = []") simp_all
qed

lemma part_ok:
  assumes "part w K hid fd st F" "F rest = Some m1"
    and IH: "\<And>m. rest \<noteq> [] \<Longrightarrow> slave_ok (hb_s (fst m) hid) \<Longrightarrow> sl_status (hb_s (fst m) hid) = st \<Longrightarrow>
      socket_loop w K hid fd rest m = Some m1 \<Longrightarrow> slave_ok (hb_s (fst m1) hid)"
  shows "slave_ok (hb_s (fst m1) hid)"
  using assms(1) unfolding part_def
proof (elim disjE exE conjE)
  fix m assume "\<forall>rest. F rest = (if rest = [] then Some m else socket_loop w K hid fd rest m)"
    "slave_ok (hb_s (fst m) hid)" "sl_status (hb_s (fst m) hid) = st"
  then show ?thesis using IH [of m] assms(2) by (cases "rest = []") simp_all
qed (metis assms(2))

lemma part_go:
  assumes "\<And>rest. F rest = (if rest = [] then Some m else socket_loop w K hid fd rest m)"
    "slave_ok (hb_s (fst m) hid)" "sl_status (hb_s (fst m) hid) = st"
  shows "part w K hid fd st F"
  unfolding part_def using assms by blast

lemma close_harbor_ok:
  "close_harbor K hid (h, n, ss) = Some m \<Longrightarrow> length (sl_size (hb_s h hid)) = 4 \<Longrightarrow>
   slave_ok (hb_s (fst m) hid) \<and> sl_status (hb_s (fst m) hid) = STATUS_DOWN"
  by (auto simp: close_harbor_def Let_def slave_ok_def)

lemma header_is_part:
  assumes "length sz = 4"
  shows "part w K hid fd STATUS_CONTENT (\<lambda>rest. header_full w K hid sz rest (h, n, ss) \<bind> go_on w K hid fd)"
proof (cases "sz ! 0 = NUL")
  case True
  let ?m = "(put_slave hid ((hb_s h hid)\<lparr>sl_size := sz, sl_length := unat (from_bigendian sz), sl_read := 0,
      sl_recv_buffer := fst (node_malloc (Bytes (replicate (unat (from_bigendian sz)) NUL)) n), sl_status := STATUS_CONTENT\<rparr>) h,
    snd (node_malloc (Bytes (replicate (unat (from_bigendian sz)) NUL)) n), ss)"
  show ?thesis using True assms
    by (intro part_go [where m = ?m]) (simp_all add: header_full_def Let_def node_malloc_def go_on_def slave_ok_def)
next
  case False
  then show ?thesis using assms unfolding part_def
    by (intro disjI1) (auto simp: header_full_def Let_def go_on_def bind_eq_Some_conv dest!: close_harbor_ok)
qed

definition content_full :: "world \<Rightarrow> nat \<Rightarrow> string \<Rightarrow> string \<Rightarrow> hmachine \<Rightarrow> (hmachine + (string \<times> hmachine)) option" where
  \<comment> \<open>what \<open>content_part\<close> does once the content is there\<close>
  "content_full w hid bytes rest = (\<lambda>(h, n, ss).
     let s = hb_s h hid
     in do { n1 \<leftarrow> store_at (sl_recv_buffer s) (sl_read s) bytes n;
             n2 \<leftarrow> forward_local_message w (sl_recv_buffer s) (sl_length s) h n1;
             let m = (put_slave hid (s\<lparr>sl_length := 0, sl_read := 0, sl_recv_buffer := NULL, sl_status := STATUS_HEADER\<rparr>) h, n2, ss);
             Some (if rest = [] then Inl m else Inr (rest, m)) })"

lemma content_part_full:
  assumes "sl_length (hb_s h hid) - sl_read (hb_s h hid) \<le> length b" "sl_read (hb_s h hid) \<le> sl_length (hb_s h hid)"
  shows "content_part w hid b (h, n, ss) =
    content_full w hid (take (sl_length (hb_s h hid) - sl_read (hb_s h hid)) b)
      (drop (sl_length (hb_s h hid) - sl_read (hb_s h hid)) b) (h, n, ss)"
  using assms by (simp add: content_part_def content_full_def Let_def)

lemma content_is_part:
  assumes "length (sl_size (hb_s h hid)) = 4"
  shows "part w K hid fd STATUS_HEADER (\<lambda>rest. content_full w hid bytes rest (h, n, ss) \<bind> go_on w K hid fd)"
proof (cases "store_at (sl_recv_buffer (hb_s h hid)) (sl_read (hb_s h hid)) bytes n \<bind>
    forward_local_message w (sl_recv_buffer (hb_s h hid)) (sl_length (hb_s h hid)) h")
  case None
  then show ?thesis unfolding part_def
    by (intro disjI1 exI [of _ None]) (auto simp: content_full_def Let_def bind_eq_None_conv)
next
  case (Some n2)
  let ?m = "(put_slave hid ((hb_s h hid)\<lparr>sl_length := 0, sl_read := 0, sl_recv_buffer := NULL, sl_status := STATUS_HEADER\<rparr>) h, n2, ss)"
  show ?thesis using Some assms
    by (intro part_go [where m = ?m]) (auto simp: content_full_def Let_def go_on_def slave_ok_def bind_eq_Some_conv)
qed

lemma handshake_is_part:
  assumes "slave_ok (hb_s h hid)" "sl_status (hb_s h hid) = STATUS_HANDSHAKE"
  shows "part w K hid fd STATUS_HEADER (\<lambda>rest. handshake_part w K hid fd (c # rest) (h, n, ss) \<bind> go_on w K hid fd)"
proof (cases "of_char c = hid")
  case True
  let ?d = "dispatch_queue w K hid (put_slave hid ((hb_s h hid)\<lparr>sl_status := STATUS_HEADER\<rparr>) h, n, ss)"
  show ?thesis
  proof (cases ?d)
    case None
    then show ?thesis using True unfolding part_def by (intro disjI1 exI [of _ None]) (simp add: handshake_part_def)
  next
    case (Some m)
    obtain h1 n1 ss1 where m: "m = (h1, n1, ss1)" by (metis prod.exhaust)
    obtain q where q: "hb_s h1 hid = ((hb_s h hid)\<lparr>sl_status := STATUS_HEADER\<rparr>)\<lparr>sl_queue := q\<rparr>"
      using dispatch_queue_slave [OF Some] m by auto
    then have s: "slave_ok (hb_s h1 hid)" "sl_status (hb_s h1 hid) = STATUS_HEADER"
      using assms by (simp_all add: slave_ok_def)
    have "socket_loop w K hid fd [] m = Some m"
    proof -
      have "header_part w K hid [] (h1, n1, ss1) = Some (Inl (h1, n1, ss1))"
        using s header_part_short [of "[]" h1 hid w K n1 ss1] by (simp add: slave_ok_def)
      then show ?thesis unfolding m loop_header [OF s(2)] by (simp add: go_on_def)
    qed
    then show ?thesis using True Some s m unfolding part_def
      by (intro disjI2 exI [of _ m]) (auto simp: handshake_part_def go_on_def)
  qed
next
  case False
  then show ?thesis using assms unfolding part_def
    by (intro disjI1) (auto simp: handshake_part_def Let_def go_on_def bind_eq_Some_conv slave_ok_def dest!: close_harbor_ok)
qed

lemma forward_local_put [simp]: "forward_local_message w p l (put_slave i s h) = forward_local_message w p l h"
  unfolding forward_local_message_def fun_eq_iff put_slave_simps by (rule allI) (rule refl)

lemma content_part_short:
  assumes "length b < sl_length (hb_s h hid) - sl_read (hb_s h hid)"
  shows "content_part w hid b (h, n, ss) =
    do { n1 \<leftarrow> store_at (sl_recv_buffer (hb_s h hid)) (sl_read (hb_s h hid)) b n;
         Some (Inl (put_slave hid ((hb_s h hid)\<lparr>sl_read := sl_read (hb_s h hid) + length b\<rparr>) h, n1, ss)) }"
proof -
  have "sl_read (hb_s h hid) \<le> sl_length (hb_s h hid)" using assms by simp
  then show ?thesis using assms by (simp add: content_part_def Let_def)
qed

lemma content_resume:
  assumes ok: "slave_ok (hb_s h hid)" "sl_status (hb_s h hid) = STATUS_CONTENT"
    and short: "length b1 < sl_length (hb_s h hid) - sl_read (hb_s h hid)"
  shows "socket_loop w K hid fd (b1 @ b2) (h, n, ss) = socket_loop w K hid fd b1 (h, n, ss) \<bind> socket_loop w K hid fd b2"
    and "socket_loop w K hid fd b1 (h, n, ss) = Some m1 \<Longrightarrow> slave_ok (hb_s (fst m1) hid)"
proof -
  let ?s = "hb_s h hid"
  let ?h = "put_slave hid (?s\<lparr>sl_read := sl_read ?s + length b1\<rparr>) h"
  have one: "socket_loop w K hid fd b1 (h, n, ss) =
      do { n1 \<leftarrow> store_at (sl_recv_buffer ?s) (sl_read ?s) b1 n; Some (?h, n1, ss) }"
    using short ok(1) by (simp add: loop_content [OF ok(2)] content_part_def Let_def go_on_def slave_ok_def ok(2))
  have two: "socket_loop w K hid fd (b1 @ b2) (h, n, ss) =
      do { n1 \<leftarrow> store_at (sl_recv_buffer ?s) (sl_read ?s) b1 n; socket_loop w K hid fd b2 (?h, n1, ss) }"
  proof -
    have at: "sl_status (hb_s ?h hid) = STATUS_CONTENT" using ok(2) by simp
    have le: "sl_read ?s + length b1 \<le> sl_length ?s" using short by simp
    have "content_part w hid (b1 @ b2) (h, n, ss) =
        do { n1 \<leftarrow> store_at (sl_recv_buffer ?s) (sl_read ?s) b1 n; content_part w hid b2 (?h, n1, ss) }"
    proof (cases "length (b1 @ b2) < sl_length ?s - sl_read ?s")
      case True
      then have "length b2 < sl_length (hb_s ?h hid) - sl_read (hb_s ?h hid)" by simp
      then show ?thesis using True le
        by (cases "store_at (sl_recv_buffer ?s) (sl_read ?s) b1 n")
          (simp_all add: content_part_short [where h = h] content_part_short [where h = ?h] store_at_append add.assoc)
    next
      case False
      then have "\<not> length b2 < sl_length (hb_s ?h hid) - sl_read (hb_s ?h hid)" by simp
      then show ?thesis using False le
        by (cases "store_at (sl_recv_buffer ?s) (sl_read ?s) b1 n")
          (simp_all add: content_part_full [where h = h] content_part_full [where h = ?h] content_full_def Let_def store_at_append cong: if_cong)
    qed
    then show ?thesis unfolding loop_content [OF ok(2)] loop_content [OF at] by (simp only: bind_assoc)
  qed
  show "socket_loop w K hid fd (b1 @ b2) (h, n, ss) = socket_loop w K hid fd b1 (h, n, ss) \<bind> socket_loop w K hid fd b2"
    unfolding one two by (simp add: bind_assoc)
  show "slave_ok (hb_s (fst m1) hid)" if "socket_loop w K hid fd b1 (h, n, ss) = Some m1"
    using that short ok unfolding one by (auto simp: slave_ok_def bind_eq_Some_conv)
qed

definition reading_measure :: "nat \<Rightarrow> string \<times> hmachine \<Rightarrow> nat" where
  "reading_measure hid = (\<lambda>(b, m). 2 * length b + (if sl_status (hb_s (fst m) hid) = STATUS_CONTENT then 1 else 0))"

lemma one_cut:
  assumes "slave_ok (hb_s (fst m) hid)" "b1 \<noteq> []" "b2 \<noteq> []"
  shows "map_option (forget hid) (socket_loop w K hid fd (b1 @ b2) m) =
    map_option (forget hid) (socket_loop w K hid fd b1 m \<bind> socket_loop w K hid fd b2)"
  using assms(1,2)
proof (induction "reading_measure hid (b1, m)" arbitrary: b1 m rule: less_induct)
  case less
  obtain h n ss where m: "m = (h, n, ss)" by (metis prod.exhaust)
  have ok: "slave_ok (hb_s h hid)" using less.prems m by simp
  have IH: "map_option (forget hid) (socket_loop w K hid fd (rest @ b2) m') =
      map_option (forget hid) (socket_loop w K hid fd rest m' \<bind> socket_loop w K hid fd b2)"
    if "reading_measure hid (rest, m') < reading_measure hid (b1, m)" "rest \<noteq> []" "slave_ok (hb_s (fst m') hid)" for rest m'
    using less.hyps that by blast
  show ?case
  proof (cases "sl_status (hb_s h hid)")
    case STATUS_HANDSHAKE
    obtain c rest where b1: "b1 = c # rest" using less.prems(2) by (cases b1) auto
    show ?thesis using part_split [OF handshake_is_part [OF ok STATUS_HANDSHAKE] assms(3), where rest = rest] IH [of rest]
      by (simp add: m b1 loop_handshake [OF STATUS_HANDSHAKE] reading_measure_def STATUS_HANDSHAKE)
  next
    case STATUS_HEADER
    show ?thesis
    proof (cases "length b1 < 4 - sl_read (hb_s h hid)")
      case True
      show ?thesis using header_resume [OF ok STATUS_HEADER True, of w K fd n ss b2] by (auto simp: m)
    next
      case False
      let ?k = "4 - sl_read (hb_s h hid)"
      have k: "0 < ?k" "?k \<le> length b1" using False ok STATUS_HEADER by (simp_all add: slave_ok_def)
      let ?sz = "take (sl_read (hb_s h hid)) (sl_size (hb_s h hid)) @ take ?k b1"
      have sz: "length ?sz = 4" using ok k STATUS_HEADER by (simp add: slave_ok_def)
      show ?thesis
        using part_split [OF header_is_part [OF sz] assms(3), where rest = "drop ?k b1"] IH [of "drop ?k b1"] k
        by (simp add: m loop_header [OF STATUS_HEADER] header_part_full [OF _ ok STATUS_HEADER] reading_measure_def STATUS_HEADER)
    qed
  next
    case STATUS_CONTENT
    show ?thesis
    proof (cases "length b1 < sl_length (hb_s h hid) - sl_read (hb_s h hid)")
      case True
      show ?thesis unfolding m content_resume(1) [OF ok STATUS_CONTENT True] by (rule refl)
    next
      case False
      let ?k = "sl_length (hb_s h hid) - sl_read (hb_s h hid)"
      have r: "sl_read (hb_s h hid) \<le> sl_length (hb_s h hid)" "length (sl_size (hb_s h hid)) = 4"
        using ok STATUS_CONTENT by (simp_all add: slave_ok_def)
      show ?thesis
        using part_split [OF content_is_part [OF r(2)] assms(3), where rest = "drop ?k b1"] IH [of "drop ?k b1"] False
        by (simp add: m loop_content [OF STATUS_CONTENT] content_part_full [OF _ r(1)] reading_measure_def STATUS_CONTENT)
    qed
  qed (simp_all add: m loop_down)
qed

lemma reading_keeps_ok:
  assumes "slave_ok (hb_s (fst m) hid)" "b \<noteq> []" "socket_loop w K hid fd b m = Some m1"
  shows "slave_ok (hb_s (fst m1) hid)"
  using assms
proof (induction "reading_measure hid (b, m)" arbitrary: b m rule: less_induct)
  case less
  obtain h n ss where m: "m = (h, n, ss)" by (metis prod.exhaust)
  have ok: "slave_ok (hb_s h hid)" using less.prems m by simp
  have IH: "slave_ok (hb_s (fst m1) hid)"
    if "reading_measure hid (rest, m') < reading_measure hid (b, m)" "rest \<noteq> []" "slave_ok (hb_s (fst m') hid)"
      "socket_loop w K hid fd rest m' = Some m1" for rest m'
    using less.hyps that by blast
  show ?case
  proof (cases "sl_status (hb_s h hid)")
    case STATUS_HANDSHAKE
    obtain c rest where b: "b = c # rest" using less.prems(2) by (cases b) auto
    have "handshake_part w K hid fd (c # rest) (h, n, ss) \<bind> go_on w K hid fd = Some m1"
      using less.prems(3) by (simp add: m b loop_handshake [OF STATUS_HANDSHAKE])
    then show ?thesis
      by (rule part_ok [OF handshake_is_part [OF ok STATUS_HANDSHAKE]]) (rule IH; simp add: m b reading_measure_def STATUS_HANDSHAKE)
  next
    case STATUS_HEADER
    show ?thesis
    proof (cases "length b < 4 - sl_read (hb_s h hid)")
      case True
      show ?thesis using header_resume [OF ok STATUS_HEADER True, of w K fd n ss "[]"] less.prems(3) by (auto simp: m)
    next
      case False
      let ?k = "4 - sl_read (hb_s h hid)"
      have k: "0 < ?k" "?k \<le> length b" using False ok STATUS_HEADER by (simp_all add: slave_ok_def)
      let ?sz = "take (sl_read (hb_s h hid)) (sl_size (hb_s h hid)) @ take ?k b"
      have sz: "length ?sz = 4" using ok k STATUS_HEADER by (simp add: slave_ok_def)
      have "header_full w K hid ?sz (drop ?k b) (h, n, ss) \<bind> go_on w K hid fd = Some m1"
        using less.prems(3) k by (simp add: m loop_header [OF STATUS_HEADER] header_part_full [OF _ ok STATUS_HEADER])
      then show ?thesis
        by (rule part_ok [OF header_is_part [OF sz]]) (rule IH; use k in \<open>simp add: m reading_measure_def STATUS_HEADER\<close>)
    qed
  next
    case STATUS_CONTENT
    show ?thesis
    proof (cases "length b < sl_length (hb_s h hid) - sl_read (hb_s h hid)")
      case True
      show ?thesis using content_resume(2) [OF ok STATUS_CONTENT True] less.prems(3) m by blast
    next
      case False
      let ?k = "sl_length (hb_s h hid) - sl_read (hb_s h hid)"
      have r: "sl_read (hb_s h hid) \<le> sl_length (hb_s h hid)" "length (sl_size (hb_s h hid)) = 4"
        using ok STATUS_CONTENT by (simp_all add: slave_ok_def)
      have "content_full w hid (take ?k b) (drop ?k b) (h, n, ss) \<bind> go_on w K hid fd = Some m1"
        using less.prems(3) False by (simp add: m loop_content [OF STATUS_CONTENT] content_part_full [OF _ r(1)])
      then show ?thesis
        by (rule part_ok [OF content_is_part [OF r(2)]]) (rule IH; simp add: m reading_measure_def STATUS_CONTENT)
    qed
  qed (use less.prems in \<open>auto simp: m loop_down\<close>)
qed

text \<open>C28. What the other side meant arrives whatever blocks the network cuts its stream into: the loop
  of \<open>push_socket_data\<close> run once over a stream and run block by block leave the same harbor (but for
  the read counter of a slave that has been closed), the same node and the same sockets.\<close>

theorem harbor_blocks_irrelevant:
  assumes "slave_ok (hb_s h hid)" and "blocks \<noteq> []" and "[] \<notin> set blocks"
  shows "map_option (forget hid) (socket_loop w K hid fd (concat blocks) (h, n, ss)) =
    map_option (forget hid) (foldl (\<lambda>r b. r \<bind> socket_loop w K hid fd b) (Some (h, n, ss)) blocks)"
proof -
  have none: "foldl (\<lambda>r b. r \<bind> socket_loop w K hid fd b) None bs = None" for bs by (induction bs) simp_all
  have "map_option (forget hid) (socket_loop w K hid fd (concat blocks) m) =
      map_option (forget hid) (foldl (\<lambda>r b. r \<bind> socket_loop w K hid fd b) (Some m) blocks)"
    if "slave_ok (hb_s (fst m) hid)" for m
    using assms(2,3) that
  proof (induction blocks arbitrary: m)
    case (Cons b bs)
    show ?case
    proof (cases "bs = []")
      case False
      then have ne: "b \<noteq> []" "concat bs \<noteq> []" using Cons.prems(2) by (cases bs; auto)+
      show ?thesis
      proof (cases "socket_loop w K hid fd b m")
        case (Some m1)
        have "slave_ok (hb_s (fst m1) hid)" using reading_keeps_ok [OF Cons.prems(3) ne(1) Some] .
        then show ?thesis using Cons False Some one_cut [OF Cons.prems(3) ne, of w K fd] by simp
      qed (use one_cut [OF Cons.prems(3) ne, of w K fd] none in simp)
    qed simp
  qed simp
  from this [of "(h, n, ss)"] show ?thesis using assms(1) by simp
qed

section \<open>From the wire into a queue\<close>

lemma length_bytes:
  assumes "k < 2 ^ 24"
  shows "to_bigendian (word_of_nat k) ! 0 = NUL" "unat (from_bigendian (to_bigendian (word_of_nat k))) = k"
proof -
  have k: "unat (word_of_nat k :: u32) = k" using assms by (simp add: unat_of_nat take_bit_nat_eq_self)
  then have "unat (drop_bit 24 (word_of_nat k :: u32)) = 0"
    using assms by (simp only: unat_drop_bit_eq) (simp add: drop_bit_eq_div)
  then have "drop_bit 24 (word_of_nat k :: u32) = 0" by (simp only: word_unat_eq_iff unat_0)
  then show "to_bigendian (word_of_nat k) ! 0 = NUL" by (simp add: to_bigendian_def char_of_def)
  show "unat (from_bigendian (to_bigendian (word_of_nat k))) = k"
    using k by (simp add: bigendian_roundtrip)
qed

lemma wire_read:
  assumes "sl_status (hb_s h hid) = STATUS_HEADER" "sl_read (hb_s h hid) = 0" "length (sl_size (hb_s h hid)) = 4"
    and "length bytes + HEADER_COOKIE_LENGTH < 2 ^ 24"
    and "node_malloc (Bytes (bytes @ header_to_message cookie)) n = (p, n1)"
  shows "socket_loop w K hid fd (wire bytes cookie) (h, n, ss) =
    do { n2 \<leftarrow> forward_local_message w p (length bytes + HEADER_COOKIE_LENGTH) h n1;
         Some (put_slave hid ((hb_s h hid)\<lparr>sl_size := to_bigendian (word_of_nat (length bytes + HEADER_COOKIE_LENGTH)),
           sl_length := 0, sl_read := 0, sl_recv_buffer := NULL, sl_status := STATUS_HEADER\<rparr>) h, n2, ss) }"
proof -
  let ?k = "length bytes + HEADER_COOKIE_LENGTH" and ?c = "bytes @ header_to_message cookie"
  let ?z = "to_bigendian (word_of_nat (length bytes + HEADER_COOKIE_LENGTH))"
  have ok: "slave_ok (hb_s h hid)" using assms(1-3) by (simp add: slave_ok_def)
  have len: "length ?c = ?k" by (simp add: HEADER_COOKIE_LENGTH_def)
  have ne: "?c \<noteq> []" using len by (metis list.size(3) HEADER_COOKIE_LENGTH_def add_is_0 zero_neq_numeral)
  have p: "p = nd_brk n" "n1 = n\<lparr>nd_mem := (nd_mem n)(p \<mapsto> Bytes ?c), nd_brk := Suc (nd_brk n)\<rparr>"
    using assms(5) by (auto simp: node_malloc_def)
  let ?s = "(hb_s h hid)\<lparr>sl_size := ?z, sl_length := ?k, sl_read := 0, sl_recv_buffer := p, sl_status := STATUS_CONTENT\<rparr>"
  let ?h = "put_slave hid ?s h"
  let ?n = "n\<lparr>nd_mem := (nd_mem n)(p \<mapsto> Bytes (replicate ?k NUL)), nd_brk := Suc (nd_brk n)\<rparr>"
  have "header_part w K hid (wire bytes cookie) (h, n, ss) = Some (Inr (?c, ?h, ?n, ss))"
    using header_part_full [OF _ ok assms(1), where b = "wire bytes cookie"] length_bytes [OF assms(4)] assms(2) ne
    by (simp add: wire_def header_full_def Let_def node_malloc_def p(1))
  then have "socket_loop w K hid fd (wire bytes cookie) (h, n, ss) = socket_loop w K hid fd ?c (?h, ?n, ss)"
    by (simp add: loop_header [OF assms(1)] go_on_def)
  also have "\<dots> = do { r \<leftarrow> content_part w hid ?c (?h, ?n, ss); go_on w K hid fd r }"
    by (rule loop_content) simp
  also have "content_part w hid ?c (?h, ?n, ss) = content_full w hid ?c [] (?h, ?n, ss)"
    using content_part_full [where h = ?h and b = ?c] len by simp
  also have "store_at p 0 ?c ?n = Some n1" using len ne unfolding store_at_def by (auto simp: p(2))
  then have "content_full w hid ?c [] (?h, ?n, ss) =
      do { n2 \<leftarrow> forward_local_message w p ?k h n1;
           Some (Inl (put_slave hid ((hb_s h hid)\<lparr>sl_size := ?z, sl_length := 0, sl_read := 0, sl_recv_buffer := NULL,
             sl_status := STATUS_HEADER\<rparr>) h, n2, ss)) }"
    by (simp add: content_full_def Let_def)
  finally show ?thesis by (simp add: bind_assoc go_on_def)
qed

lemma type_of_destination:
  fixes d :: u32
  shows "(drop_bit HANDLE_REMOTE_SHIFT d OR PTYPE_TAG_DONTCOPY) AND PTYPE_TAG_ALLOCSESSION = 0"
    and "(drop_bit HANDLE_REMOTE_SHIFT d OR PTYPE_TAG_DONTCOPY) AND PTYPE_TAG_DONTCOPY \<noteq> 0"
    and "(drop_bit HANDLE_REMOTE_SHIFT d OR PTYPE_TAG_DONTCOPY) AND 0xff = drop_bit HANDLE_REMOTE_SHIFT d"
proof -
  have bits: "bit PTYPE_TAG_ALLOCSESSION i \<longleftrightarrow> i = 17" "bit PTYPE_TAG_DONTCOPY i \<longleftrightarrow> i = 16" for i
    using bit_exp_iff [where 'a = "32 word", of 17 i] bit_exp_iff [where 'a = "32 word", of 16 i]
    by (auto simp: PTYPE_TAG_ALLOCSESSION_def PTYPE_TAG_DONTCOPY_def)
  have ff: "(0xff :: u32) = mask 8" by (simp add: mask_eq_exp_minus_1)
  show "(drop_bit HANDLE_REMOTE_SHIFT d OR PTYPE_TAG_DONTCOPY) AND PTYPE_TAG_ALLOCSESSION = 0"
    by (rule bit_word_eqI) (auto simp: bits HANDLE_REMOTE_SHIFT_def bit_simps dest: bit_imp_le_length)
  have "bit ((drop_bit HANDLE_REMOTE_SHIFT d OR PTYPE_TAG_DONTCOPY) AND PTYPE_TAG_DONTCOPY) 16"
    by (simp add: bits bit_simps)
  then show "(drop_bit HANDLE_REMOTE_SHIFT d OR PTYPE_TAG_DONTCOPY) AND PTYPE_TAG_DONTCOPY \<noteq> 0" by auto
  show "(drop_bit HANDLE_REMOTE_SHIFT d OR PTYPE_TAG_DONTCOPY) AND 0xff = drop_bit HANDLE_REMOTE_SHIFT d"
    unfolding ff by (rule bit_word_eqI) (auto simp: bits HANDLE_REMOTE_SHIFT_def bit_simps dest: bit_imp_le_length)
qed

text \<open>The address a message has here: the other side put the type where the harbor number was.\<close>

definition local_address :: "harbor \<Rightarrow> remote_message_header \<Rightarrow> u32" where
  "local_address h cookie = (rh_destination cookie AND HANDLE_MASK) OR push_bit HANDLE_REMOTE_SHIFT (hb_id h)"

lemma size_fits:
  assumes "k < 2 ^ 24"
  shows "(word_of_nat k :: u64) AND MESSAGE_TYPE_MASK = word_of_nat k"
proof -
  have k: "unat (word_of_nat k :: u64) = k" using assms by (simp add: unat_of_nat take_bit_nat_eq_self)
  have "(word_of_nat k :: u64) AND mask 56 = word_of_nat k"
    using assms k unfolding word_unat_eq_iff unat_and_mask by (simp add: take_bit_nat_eq_self)
  then show ?thesis by (simp add: type_mask)
qed

lemma forward_local_delivers:
  fixes cookie :: remote_message_header
  defines "msg p k \<equiv> \<lparr>msg_source = rh_source cookie, msg_session = rh_session cookie, msg_data = p,
    msg_sz = word_of_nat k OR push_bit MESSAGE_TYPE_SHIFT (ucast (drop_bit HANDLE_REMOTE_SHIFT (rh_destination cookie)))\<rparr>"
  assumes "nd_mem n p = Some (Bytes (bytes @ header_to_message cookie))" "length bytes + HEADER_COOKIE_LENGTH < 2 ^ 24"
    and "uboss_harbor_message_isremote (local_address h cookie) n = Some False"
    and "rh_source cookie \<noteq> 0" "local_address h cookie \<noteq> 0" "0 \<le> sint (rh_session cookie)"
    and "uboss_context_push w (local_address h cookie) (msg p (length bytes)) n = Some (0, n')"
  shows "forward_local_message w p (length bytes + HEADER_COOKIE_LENGTH) h n = Some n'"
proof -
  let ?t = "drop_bit HANDLE_REMOTE_SHIFT (rh_destination cookie)" and ?sz = "word_of_nat (length bytes) :: u64"
  have sz: "?sz AND MESSAGE_TYPE_MASK = ?sz" by (rule size_fits) (use assms(3) in simp)
  have "filter_args (hb_ctx h) (?t OR PTYPE_TAG_DONTCOPY) (rh_session cookie) p ?sz n =
      Some (rh_session cookie, p, ?sz OR push_bit MESSAGE_TYPE_SHIFT (ucast ?t), n)"
    using filter_args_keep [OF type_of_destination(1) [of "rh_destination cookie"] disjI1 [OF type_of_destination(2)]]
    by (simp add: type_of_destination(3))
  from uboss_send_local [OF sz this assms(5,6,4)] assms(8)
  have "uboss_send w (hb_ctx h) (rh_source cookie) (local_address h cookie) (?t OR PTYPE_TAG_DONTCOPY) (rh_session cookie) p ?sz n =
      Some (rh_session cookie, n')"
    by (simp add: msg_def)
  moreover have "message_to_header (drop (length bytes) (bytes @ header_to_message cookie)) = cookie"
    by (simp add: header_roundtrip)
  ultimately show ?thesis
    using assms(2,7) by (simp add: forward_local_message_def local_address_def Let_def HEADER_COOKIE_LENGTH_def)
qed

text \<open>C10. From the wire into the queue of a service: when a slave that waits for a header reads what
  \<open>send_remote\<close> writes for a message of less than 16 megabytes, the service the message is for
  finds at the end of its queue one message with the sender, the session, the type, the size and the
  bytes that were sent; the node's invariant holds, no other queue changes, the one new block is
  the one the message carries, and the slave waits for the next header.\<close>

theorem remote_message_delivered:
  assumes "node_inv n qs" and "sl_status (hb_s h hid) = STATUS_HEADER" and "sl_read (hb_s h hid) = 0"
    and "length (sl_size (hb_s h hid)) = 4" and "length bytes + HEADER_COOKIE_LENGTH < 2 ^ 24"
    and "handle_lookup (hof n) (local_address h cookie) (nd_handles n) = Some ctx"
    and "nd_ctx n ctx = Some c" and "cx_ref c \<noteq> - 1"
    and "uboss_harbor_message_isremote (local_address h cookie) n = Some False"
    and "rh_source cookie \<noteq> 0" and "local_address h cookie \<noteq> 0" and "0 \<le> sint (rh_session cookie)"
  shows "\<exists>h' n' qs' q q' m. socket_loop w K hid fd (wire bytes cookie) (h, n, ss) = Some (h', n', ss) \<and>
    node_inv n' qs' \<and> mq_heap (nd_mq n) (cx_queue c) = Some q \<and> mq_heap (nd_mq n') (cx_queue c) = Some q' \<and>
    mq_content q' = mq_content q @ [m] \<and> mq_in_global q' \<and>
    msg_source m = rh_source cookie \<and> msg_session m = rh_session cookie \<and>
    message_type m = drop_bit HANDLE_REMOTE_SHIFT (rh_destination cookie) \<and> message_size m = word_of_nat (length bytes) \<and>
    nd_mem n (msg_data m) = None \<and>
    nd_mem n' = (nd_mem n)(msg_data m \<mapsto> Bytes (bytes @ header_to_message cookie)) \<and>
    (\<forall>p. p \<noteq> cx_queue c \<longrightarrow> mq_cores (nd_mq n') p = mq_cores (nd_mq n) p) \<and>
    sl_status (hb_s h' hid) = STATUS_HEADER \<and> sl_read (hb_s h' hid) = 0"
proof -
  obtain p n1 where p: "node_malloc (Bytes (bytes @ header_to_message cookie)) n = (p, n1)" by fastforce
  note mal = node_inv_malloc [OF assms(1) p]
  let ?t = "drop_bit HANDLE_REMOTE_SHIFT (rh_destination cookie)" and ?sz = "word_of_nat (length bytes) :: u64"
  let ?m = "\<lparr>msg_source = rh_source cookie, msg_session = rh_session cookie, msg_data = p,
    msg_sz = ?sz OR push_bit MESSAGE_TYPE_SHIFT (ucast ?t)\<rparr>"
  have c1: "handle_lookup (hof n1) (local_address h cookie) (nd_handles n1) = Some ctx" "nd_ctx n1 ctx = Some c"
    using assms(6,7) mal by simp_all
  obtain S' q q' where S': "uboss_context_push w (local_address h cookie) ?m n1 = Some (0, n1\<lparr>nd_mq := S'\<rparr>)"
    "mq_heap (nd_mq n1) (cx_queue c) = Some q" "mq_cores S' = (mq_cores (nd_mq n1))(cx_queue c \<mapsto> mq_core q')"
    "mq_content q' = mq_content q @ [?m]" "mq_in_global q'"
    "node_inv (n1\<lparr>nd_mq := S'\<rparr>) (if mq_in_global q then qs else qs @ [cx_queue c])"
    by (rule context_push_found [OF mal(1) c1 assms(8)]) blast
  obtain q2 where q2: "mq_heap S' (cx_queue c) = Some q2" "mq_content q2 = mq_content q'" "mq_in_global q2 = mq_in_global q'"
    using mq_heap_of_cores [of S' "cx_queue c" q'] S'(3) by auto
  have "forward_local_message w p (length bytes + HEADER_COOKIE_LENGTH) h n1 = Some (n1\<lparr>nd_mq := S'\<rparr>)"
    using mal(3) assms(9) isremote_frame [OF mal(9)] S'(1)
    by (intro forward_local_delivers [OF _ assms(5) _ assms(10-12)]) simp_all
  note run = wire_read [OF assms(2-5) p, of w K fd ss, unfolded this]
  have "?sz AND MESSAGE_TYPE_MASK = ?sz" by (rule size_fits) (use assms(5) in simp)
  from word_parts [OF this, of "?t OR PTYPE_TAG_DONTCOPY"] have "message_type ?m = ?t" "message_size ?m = ?sz"
    by (simp_all add: message_type_def message_size_def type_of_destination(3))
  with run S' q2 mal show ?thesis
    by (intro exI [of _ "n1\<lparr>nd_mq := S'\<rparr>"] exI [of _ q] exI [of _ q2] exI [of _ ?m]
        exI [of _ "if mq_in_global q then qs else qs @ [cx_queue c]"] exI) auto
qed

definition sample_harbor :: harbor where
  "sample_harbor = put_slave 2 (slave_zero\<lparr>sl_status := STATUS_HEADER, sl_size := replicate 4 NUL\<rparr>) (harbor_create\<lparr>hb_id := 1\<rparr>)"

lemma sample_slave:
  "slave_ok (hb_s sample_harbor 2)" "sl_status (hb_s sample_harbor 2) = STATUS_HEADER"
  "sl_read (hb_s sample_harbor 2) = 0" "length (sl_size (hb_s sample_harbor 2)) = 4"
  by (simp_all add: sample_harbor_def slave_ok_def slave_zero_def)

theorem harbor_blocks_irrelevant_witness:
  "map_option (forget 2) (socket_loop idle_world short_kernel 2 7 [NUL, NUL, NUL] (sample_harbor, sample_node, sample_server)) =
   map_option (forget 2) (socket_loop idle_world short_kernel 2 7 [NUL] (sample_harbor, sample_node, sample_server) \<bind>
     socket_loop idle_world short_kernel 2 7 [NUL, NUL])"
  using harbor_blocks_irrelevant [OF sample_slave(1), of "[[NUL], [NUL, NUL]]" idle_world short_kernel 7] by simp

theorem remote_message_delivered_witness:
  "\<exists>h' n' q'. socket_loop idle_world short_kernel 2 7
      (wire ''hi'' \<lparr>rh_source = 9, rh_destination = 0x3000001, rh_session = 4\<rparr>) (sample_harbor, sample_node, sample_server) =
      Some (h', n', sample_server) \<and>
    mq_heap (nd_mq n') 1 = Some q' \<and> map msg_source (mq_content q') = [9]"
proof -
  let ?c = "\<lparr>rh_source = 9, rh_destination = 0x3000001, rh_session = 4\<rparr> :: remote_message_header"
  have addr: "local_address sample_harbor ?c = 0x1000001"
    by (simp add: local_address_def sample_harbor_def put_slave_def HANDLE_MASK_def HANDLE_REMOTE_SHIFT_def)
  have *: "length ''hi'' + HEADER_COOKIE_LENGTH < 2 ^ 24" "rh_source ?c \<noteq> 0" "0 \<le> sint (rh_session ?c)" "cx_ref sample_ctx \<noteq> - 1"
    by (simp_all add: HEADER_COOKIE_LENGTH_def sample_ctx_def)
  have **: "handle_lookup (hof sample_node) (local_address sample_harbor ?c) (nd_handles sample_node) = Some 1"
    "uboss_harbor_message_isremote (local_address sample_harbor ?c) sample_node = Some False" "local_address sample_harbor ?c \<noteq> 0"
    using sample_lookup sample_local(1) addr by simp_all
  from remote_message_delivered [OF sample_node_inv sample_slave(2-4) *(1) **(1) sample_ctx_at(1) *(4) **(2) *(2) **(3) *(3)]
  show ?thesis using sample_queue by (fastforce simp: sample_ctx_def)
qed

end
