(* ===== verification/Bytes.thy ===== *)
theory Bytes
  imports Prelude
begin

text \<open>
  Bytes of strings as 32-bit words and back, in both byte orders, and the two ways a function
  called from Lua ends. Used by the models of the libraries under \<open>lib\<close>.
\<close>

section \<open>Calls from Lua\<close>

text \<open>A C function called from Lua returns a value or raises an error (\<open>luaL_error\<close>).\<close>

datatype 'a lua = Raise string | Return 'a

fun lua_bind :: "'a lua \<Rightarrow> ('a \<Rightarrow> 'b lua) \<Rightarrow> 'b lua" where
  "lua_bind (Raise e) f = Raise e"
| "lua_bind (Return x) f = f x"

section \<open>Bytes\<close>

definition byte :: "char \<Rightarrow> u32" where
  "byte c = word_of_nat (of_char c)"

definition chr :: "u32 \<Rightarrow> char" where
  \<comment> \<open>the conversion to \<open>uint8_t\<close>\<close>
  "chr w = char_of (unat (w AND 0xff))"

lemma unat_byte: "unat (byte c) = of_char c"
proof -
  have "of_char c < (256 :: nat)" by simp
  then have "of_char c < (2 ^ LENGTH(32) :: nat)" by (rule less_trans) simp
  then show ?thesis unfolding byte_def by (simp only: unat_of_nat mod_less)
qed

lemma byte_less: "unat (byte c) < 256"
  by (simp add: unat_byte)

lemma low_byte: "n AND 0xff = take_bit 8 n" for n :: u32
proof -
  have "(0xff :: u32) = mask 8" by (simp add: mask_eq_exp_minus_1)
  then show ?thesis by (simp only: take_bit_eq_mask)
qed

lemma unat_low_byte: "unat (take_bit 8 w) = unat w mod 256" for w :: u32
  using unat_and_mask [of w 8] by (simp add: take_bit_eq_mask take_bit_eq_mod)

lemma chr_byte [simp]: "chr (byte c) = c"
  using byte_less [of c] by (simp add: chr_def low_byte unat_low_byte) (simp add: unat_byte)

lemma byte_chr: "byte (chr w) = take_bit 8 w"
  by (simp add: word_unat_eq_iff unat_byte chr_def low_byte unat_low_byte)

lemma chr_take_bit [simp]: "chr (take_bit 8 w) = chr w"
  by (metis byte_chr chr_byte)

lemma byte_inject [simp]: "byte a = byte b \<longleftrightarrow> a = b"
  by (metis chr_byte)

lemma bit_byte: "bit (byte c) i \<Longrightarrow> i < 8"
  using byte_chr [of "byte c"] by (metis bit_take_bit_iff chr_byte)

lemma no_high_bit: "8 \<le> i \<Longrightarrow> \<not> bit (byte c) i"
  using bit_byte not_less by blast

lemma take_bit_byte [simp]: "take_bit 8 (byte c) = byte c"
  using byte_chr [of "byte c"] by simp

section \<open>Words of four bytes\<close>

definition get_be :: "string \<Rightarrow> u32" where
  "get_be b = push_bit 24 (byte (b ! 0)) OR push_bit 16 (byte (b ! 1)) OR push_bit 8 (byte (b ! 2)) OR byte (b ! 3)"

definition put_be :: "u32 \<Rightarrow> string" where
  "put_be n = [chr (drop_bit 24 n), chr (drop_bit 16 n), chr (drop_bit 8 n), chr n]"

definition get_le :: "string \<Rightarrow> u32" where
  "get_le b = byte (b ! 0) OR push_bit 8 (byte (b ! 1)) OR push_bit 16 (byte (b ! 2)) OR push_bit 24 (byte (b ! 3))"

definition put_le :: "u32 \<Rightarrow> string" where
  "put_le n = [chr (n AND 0xff), chr (drop_bit 8 n AND 0xff), chr (drop_bit 16 n AND 0xff), chr (drop_bit 24 n AND 0xff)]"

lemma put_length [simp]: "length (put_be n) = 4" "length (put_le n) = 4"
  by (simp_all add: put_be_def put_le_def)

lemma get_put_be [simp]: "get_be (put_be n) = n"
proof (rule bit_word_eqI)
  fix i assume "i < LENGTH(32)"
  then show "bit (get_be (put_be n)) i = bit n i"
    by (cases "i < 8"; cases "i < 16"; cases "i < 24") (auto simp: get_be_def put_be_def byte_chr bit_simps)
qed

lemma put_le_rev: "put_le n = rev (put_be n)"
  by (simp add: put_le_def put_be_def low_byte)

lemma get_le_rev: "length b = 4 \<Longrightarrow> get_le b = get_be (rev b)"
  by (auto simp: get_le_def get_be_def rev_nth ac_simps)

lemma get_put_le [simp]: "get_le (put_le n) = n"
  by (simp add: get_le_rev put_le_rev)

lemma four_bytes: "length b = 4 \<Longrightarrow> b = [b ! 0, b ! 1, b ! 2, b ! 3]"
  by (auto simp: list_eq_iff_nth_eq less_Suc_eq numeral_eq_Suc)

lemma chr_of_parts:
  defines "w a b c d \<equiv> push_bit 24 (byte a) OR push_bit 16 (byte b) OR push_bit 8 (byte c) OR byte d"
  shows "chr (drop_bit 24 (w a b c d)) = a" "chr (drop_bit 16 (w a b c d)) = b" "chr (drop_bit 8 (w a b c d)) = c" "chr (w a b c d) = d"
proof -
  have "take_bit 8 (drop_bit 24 (w a b c d)) = byte a" "take_bit 8 (drop_bit 16 (w a b c d)) = byte b"
    "take_bit 8 (drop_bit 8 (w a b c d)) = byte c" "take_bit 8 (w a b c d) = byte d"
    unfolding w_def by (rule bit_word_eqI; auto simp: bit_simps dest: bit_byte)+
  then show "chr (drop_bit 24 (w a b c d)) = a" "chr (drop_bit 16 (w a b c d)) = b" "chr (drop_bit 8 (w a b c d)) = c"
    "chr (w a b c d) = d"
    by (metis chr_take_bit chr_byte)+
qed

lemma put_get_be [simp]: "length b = 4 \<Longrightarrow> put_be (get_be b) = b"
  unfolding put_be_def get_be_def chr_of_parts using four_bytes by metis

lemma put_get_le [simp]: "length b = 4 \<Longrightarrow> put_le (get_le b) = b"
  by (simp add: get_le_rev put_le_rev)

section \<open>Integers in memory\<close>

fun le_bytes :: "nat \<Rightarrow> u64 \<Rightarrow> string" where
  "le_bytes 0 v = []"
| "le_bytes (Suc n) v = chr (ucast (v AND 0xff)) # le_bytes n (drop_bit 8 v)"

fun of_le :: "string \<Rightarrow> u64" where
  "of_le [] = 0"
| "of_le (c # cs) = ucast (byte c) OR push_bit 8 (of_le cs)"

lemma le_bytes_length [simp]: "length (le_bytes n v) = n"
  by (induction n arbitrary: v) simp_all

lemma of_le_bytes: "of_le (le_bytes n v) = take_bit (8 * n) v"
proof (induction n arbitrary: v)
  case (Suc n)
  have m: "(0xff :: u64) = mask 8" by (simp add: mask_eq_exp_minus_1)
  show ?case unfolding le_bytes.simps of_le.simps Suc byte_chr m
  proof (rule bit_word_eqI)
    fix i assume "i < LENGTH(64)"
    then show "bit (ucast (take_bit 8 (ucast (v AND mask 8) :: u32)) OR push_bit 8 (take_bit (8 * n) (drop_bit 8 v))) i =
        bit (take_bit (8 * Suc n) v) i"
      by (cases "i < 8") (auto simp: bit_simps)
  qed
qed simp

end
