(* ===== verification/Des.thy ===== *)
theory Des
  imports Bytes Format
begin

text \<open>
  DES of \<open>lib/crypt/lua-crypt.c\<close>: the tables and macros, the key schedule, one block, and the
  functions for Lua \<open>ldesencode\<close> and \<open>ldesdecode\<close> with their padding. What is encoded is decoded to
  the same text. Texts are shorter than \<open>2 ^ 31\<close> bytes (a longer one overflows the loop
  counters, \<open>None\<close>).
\<close>

section \<open>Tables\<close>

definition SB1 :: "u32 list" where
  "SB1 =
    [0x01010400, 0x00000000, 0x00010000, 0x01010404, 0x01010004, 0x00010404, 0x00000004, 0x00010000,
     0x00000400, 0x01010400, 0x01010404, 0x00000400, 0x01000404, 0x01010004, 0x01000000, 0x00000004,
     0x00000404, 0x01000400, 0x01000400, 0x00010400, 0x00010400, 0x01010000, 0x01010000, 0x01000404,
     0x00010004, 0x01000004, 0x01000004, 0x00010004, 0x00000000, 0x00000404, 0x00010404, 0x01000000,
     0x00010000, 0x01010404, 0x00000004, 0x01010000, 0x01010400, 0x01000000, 0x01000000, 0x00000400,
     0x01010004, 0x00010000, 0x00010400, 0x01000004, 0x00000400, 0x00000004, 0x01000404, 0x00010404,
     0x01010404, 0x00010004, 0x01010000, 0x01000404, 0x01000004, 0x00000404, 0x00010404, 0x01010400,
     0x00000404, 0x01000400, 0x01000400, 0x00000000, 0x00010004, 0x00010400, 0x00000000, 0x01010004]"

definition SB2 :: "u32 list" where
  "SB2 =
    [0x80108020, 0x80008000, 0x00008000, 0x00108020, 0x00100000, 0x00000020, 0x80100020, 0x80008020,
     0x80000020, 0x80108020, 0x80108000, 0x80000000, 0x80008000, 0x00100000, 0x00000020, 0x80100020,
     0x00108000, 0x00100020, 0x80008020, 0x00000000, 0x80000000, 0x00008000, 0x00108020, 0x80100000,
     0x00100020, 0x80000020, 0x00000000, 0x00108000, 0x00008020, 0x80108000, 0x80100000, 0x00008020,
     0x00000000, 0x00108020, 0x80100020, 0x00100000, 0x80008020, 0x80100000, 0x80108000, 0x00008000,
     0x80100000, 0x80008000, 0x00000020, 0x80108020, 0x00108020, 0x00000020, 0x00008000, 0x80000000,
     0x00008020, 0x80108000, 0x00100000, 0x80000020, 0x00100020, 0x80008020, 0x80000020, 0x00100020,
     0x00108000, 0x00000000, 0x80008000, 0x00008020, 0x80000000, 0x80100020, 0x80108020, 0x00108000]"

definition SB3 :: "u32 list" where
  "SB3 =
    [0x00000208, 0x08020200, 0x00000000, 0x08020008, 0x08000200, 0x00000000, 0x00020208, 0x08000200,
     0x00020008, 0x08000008, 0x08000008, 0x00020000, 0x08020208, 0x00020008, 0x08020000, 0x00000208,
     0x08000000, 0x00000008, 0x08020200, 0x00000200, 0x00020200, 0x08020000, 0x08020008, 0x00020208,
     0x08000208, 0x00020200, 0x00020000, 0x08000208, 0x00000008, 0x08020208, 0x00000200, 0x08000000,
     0x08020200, 0x08000000, 0x00020008, 0x00000208, 0x00020000, 0x08020200, 0x08000200, 0x00000000,
     0x00000200, 0x00020008, 0x08020208, 0x08000200, 0x08000008, 0x00000200, 0x00000000, 0x08020008,
     0x08000208, 0x00020000, 0x08000000, 0x08020208, 0x00000008, 0x00020208, 0x00020200, 0x08000008,
     0x08020000, 0x08000208, 0x00000208, 0x08020000, 0x00020208, 0x00000008, 0x08020008, 0x00020200]"

definition SB4 :: "u32 list" where
  "SB4 =
    [0x00802001, 0x00002081, 0x00002081, 0x00000080, 0x00802080, 0x00800081, 0x00800001, 0x00002001,
     0x00000000, 0x00802000, 0x00802000, 0x00802081, 0x00000081, 0x00000000, 0x00800080, 0x00800001,
     0x00000001, 0x00002000, 0x00800000, 0x00802001, 0x00000080, 0x00800000, 0x00002001, 0x00002080,
     0x00800081, 0x00000001, 0x00002080, 0x00800080, 0x00002000, 0x00802080, 0x00802081, 0x00000081,
     0x00800080, 0x00800001, 0x00802000, 0x00802081, 0x00000081, 0x00000000, 0x00000000, 0x00802000,
     0x00002080, 0x00800080, 0x00800081, 0x00000001, 0x00802001, 0x00002081, 0x00002081, 0x00000080,
     0x00802081, 0x00000081, 0x00000001, 0x00002000, 0x00800001, 0x00002001, 0x00802080, 0x00800081,
     0x00002001, 0x00002080, 0x00800000, 0x00802001, 0x00000080, 0x00800000, 0x00002000, 0x00802080]"

definition SB5 :: "u32 list" where
  "SB5 =
    [0x00000100, 0x02080100, 0x02080000, 0x42000100, 0x00080000, 0x00000100, 0x40000000, 0x02080000,
     0x40080100, 0x00080000, 0x02000100, 0x40080100, 0x42000100, 0x42080000, 0x00080100, 0x40000000,
     0x02000000, 0x40080000, 0x40080000, 0x00000000, 0x40000100, 0x42080100, 0x42080100, 0x02000100,
     0x42080000, 0x40000100, 0x00000000, 0x42000000, 0x02080100, 0x02000000, 0x42000000, 0x00080100,
     0x00080000, 0x42000100, 0x00000100, 0x02000000, 0x40000000, 0x02080000, 0x42000100, 0x40080100,
     0x02000100, 0x40000000, 0x42080000, 0x02080100, 0x40080100, 0x00000100, 0x02000000, 0x42080000,
     0x42080100, 0x00080100, 0x42000000, 0x42080100, 0x02080000, 0x00000000, 0x40080000, 0x42000000,
     0x00080100, 0x02000100, 0x40000100, 0x00080000, 0x00000000, 0x40080000, 0x02080100, 0x40000100]"

definition SB6 :: "u32 list" where
  "SB6 =
    [0x20000010, 0x20400000, 0x00004000, 0x20404010, 0x20400000, 0x00000010, 0x20404010, 0x00400000,
     0x20004000, 0x00404010, 0x00400000, 0x20000010, 0x00400010, 0x20004000, 0x20000000, 0x00004010,
     0x00000000, 0x00400010, 0x20004010, 0x00004000, 0x00404000, 0x20004010, 0x00000010, 0x20400010,
     0x20400010, 0x00000000, 0x00404010, 0x20404000, 0x00004010, 0x00404000, 0x20404000, 0x20000000,
     0x20004000, 0x00000010, 0x20400010, 0x00404000, 0x20404010, 0x00400000, 0x00004010, 0x20000010,
     0x00400000, 0x20004000, 0x20000000, 0x00004010, 0x20000010, 0x20404010, 0x00404000, 0x20400000,
     0x00404010, 0x20404000, 0x00000000, 0x20400010, 0x00000010, 0x00004000, 0x20400000, 0x00404010,
     0x00004000, 0x00400010, 0x20004010, 0x00000000, 0x20404000, 0x20000000, 0x00400010, 0x20004010]"

definition SB7 :: "u32 list" where
  "SB7 =
    [0x00200000, 0x04200002, 0x04000802, 0x00000000, 0x00000800, 0x04000802, 0x00200802, 0x04200800,
     0x04200802, 0x00200000, 0x00000000, 0x04000002, 0x00000002, 0x04000000, 0x04200002, 0x00000802,
     0x04000800, 0x00200802, 0x00200002, 0x04000800, 0x04000002, 0x04200000, 0x04200800, 0x00200002,
     0x04200000, 0x00000800, 0x00000802, 0x04200802, 0x00200800, 0x00000002, 0x04000000, 0x00200800,
     0x04000000, 0x00200800, 0x00200000, 0x04000802, 0x04000802, 0x04200002, 0x04200002, 0x00000002,
     0x00200002, 0x04000000, 0x04000800, 0x00200000, 0x04200800, 0x00000802, 0x00200802, 0x04200800,
     0x00000802, 0x04000002, 0x04200802, 0x04200000, 0x00200800, 0x00000000, 0x00000002, 0x04200802,
     0x00000000, 0x00200802, 0x04200000, 0x00000800, 0x04000002, 0x04000800, 0x00000800, 0x00200002]"

definition SB8 :: "u32 list" where
  "SB8 =
    [0x10001040, 0x00001000, 0x00040000, 0x10041040, 0x10000000, 0x10001040, 0x00000040, 0x10000000,
     0x00040040, 0x10040000, 0x10041040, 0x00041000, 0x10041000, 0x00041040, 0x00001000, 0x00000040,
     0x10040000, 0x10000040, 0x10001000, 0x00001040, 0x00041000, 0x00040040, 0x10040040, 0x10041000,
     0x00001040, 0x00000000, 0x00000000, 0x10040040, 0x10000040, 0x10001000, 0x00041040, 0x00040000,
     0x00041040, 0x00040000, 0x10041000, 0x00001000, 0x00000040, 0x10040040, 0x00001000, 0x00041040,
     0x10001000, 0x00000040, 0x10000040, 0x10040000, 0x10040040, 0x10000000, 0x00040000, 0x10001040,
     0x00000000, 0x10041040, 0x00040040, 0x10000040, 0x10040000, 0x10001000, 0x10001040, 0x00000000,
     0x10041040, 0x00041000, 0x00041000, 0x00001040, 0x00001040, 0x00040040, 0x10000000, 0x10041000]"

definition LHs :: "u32 list" where
  "LHs =
    [0x00000000, 0x00000001, 0x00000100, 0x00000101, 0x00010000, 0x00010001, 0x00010100, 0x00010101,
     0x01000000, 0x01000001, 0x01000100, 0x01000101, 0x01010000, 0x01010001, 0x01010100, 0x01010101]"

definition RHs :: "u32 list" where
  "RHs =
    [0x00000000, 0x01000000, 0x00010000, 0x01010000, 0x00000100, 0x01000100, 0x00010100, 0x01010100,
     0x00000001, 0x01000001, 0x00010001, 0x01010001, 0x00000101, 0x01000101, 0x00010101, 0x01010101]"

section \<open>Macros\<close>

definition GET_UINT32 :: "string \<Rightarrow> nat \<Rightarrow> u32" where
  "GET_UINT32 b i = get_be (take 4 (drop i b))"

definition PUT_UINT32 :: "u32 \<Rightarrow> string" where
  "PUT_UINT32 n = put_be n"

definition swap_move :: "nat \<Rightarrow> u32 \<Rightarrow> u32 \<times> u32 \<Rightarrow> u32 \<times> u32" where
  \<comment> \<open>\<open>T = ((X >> k) ^ Y) & m; Y ^= T; X ^= (T << k)\<close>\<close>
  "swap_move k m = (\<lambda>(X, Y). let T = (drop_bit k X XOR Y) AND m in (X XOR push_bit k T, Y XOR T))"

definition swap_back :: "nat \<Rightarrow> u32 \<Rightarrow> u32 \<times> u32 \<Rightarrow> u32 \<times> u32" where
  \<comment> \<open>the same with \<open>X\<close> and \<open>Y\<close> exchanged\<close>
  "swap_back k m = (\<lambda>(X, Y). let T = (drop_bit k Y XOR X) AND m in (X XOR T, Y XOR push_bit k T))"

definition DES_IP :: "u32 \<times> u32 \<Rightarrow> u32 \<times> u32" where
  "DES_IP p =
     (let p = swap_move 4 0x0F0F0F0F p; p = swap_move 16 0x0000FFFF p; p = swap_back 2 0x33333333 p;
          (X, Y) = swap_back 8 0x00FF00FF p;
          Y = (push_bit 1 Y OR drop_bit 31 Y) AND 0xFFFFFFFF;
          (X, Y) = swap_move 0 0xAAAAAAAA (X, Y);
          X = (push_bit 1 X OR drop_bit 31 X) AND 0xFFFFFFFF
      in (X, Y))"

definition DES_FP :: "u32 \<times> u32 \<Rightarrow> u32 \<times> u32" where
  "DES_FP = (\<lambda>(X, Y).
     let X = (push_bit 31 X OR drop_bit 1 X) AND 0xFFFFFFFF;
         (X, Y) = swap_move 0 0xAAAAAAAA (X, Y);
         Y = (push_bit 31 Y OR drop_bit 1 Y) AND 0xFFFFFFFF;
         p = swap_back 8 0x00FF00FF (X, Y); p = swap_back 2 0x33333333 p; p = swap_move 16 0x0000FFFF p
     in swap_move 4 0x0F0F0F0F p)"

definition sbox :: "u32 list \<Rightarrow> u32 \<Rightarrow> u32" where
  "sbox SB t = SB ! unat (t AND 0x3F)"

definition DES_ROUND :: "u32 \<Rightarrow> u32 \<Rightarrow> u32 \<Rightarrow> u32 \<Rightarrow> u32" where
  \<comment> \<open>the new \<open>Y\<close>, with the two subkeys that \<open>SK\<close> points to\<close>
  "DES_ROUND k1 k2 X Y =
     (let T = k1 XOR X;
          Y = Y XOR (sbox SB8 T XOR sbox SB6 (drop_bit 8 T) XOR sbox SB4 (drop_bit 16 T) XOR sbox SB2 (drop_bit 24 T));
          T = k2 XOR (push_bit 28 X OR drop_bit 4 X)
      in Y XOR (sbox SB7 T XOR sbox SB5 (drop_bit 8 T) XOR sbox SB3 (drop_bit 16 T) XOR sbox SB1 (drop_bit 24 T)))"

section \<open>Key schedule\<close>

definition lhs_bits :: "u32 \<Rightarrow> u32" where
  "lhs_bits X =
     push_bit 3 (LHs ! unat (X AND 0xF)) OR push_bit 2 (LHs ! unat (drop_bit 8 X AND 0xF)) OR
     push_bit 1 (LHs ! unat (drop_bit 16 X AND 0xF)) OR LHs ! unat (drop_bit 24 X AND 0xF) OR
     push_bit 7 (LHs ! unat (drop_bit 5 X AND 0xF)) OR push_bit 6 (LHs ! unat (drop_bit 13 X AND 0xF)) OR
     push_bit 5 (LHs ! unat (drop_bit 21 X AND 0xF)) OR push_bit 4 (LHs ! unat (drop_bit 29 X AND 0xF))"

definition rhs_bits :: "u32 \<Rightarrow> u32" where
  "rhs_bits Y =
     push_bit 3 (RHs ! unat (drop_bit 1 Y AND 0xF)) OR push_bit 2 (RHs ! unat (drop_bit 9 Y AND 0xF)) OR
     push_bit 1 (RHs ! unat (drop_bit 17 Y AND 0xF)) OR RHs ! unat (drop_bit 25 Y AND 0xF) OR
     push_bit 7 (RHs ! unat (drop_bit 4 Y AND 0xF)) OR push_bit 6 (RHs ! unat (drop_bit 12 Y AND 0xF)) OR
     push_bit 5 (RHs ! unat (drop_bit 20 Y AND 0xF)) OR push_bit 4 (RHs ! unat (drop_bit 28 Y AND 0xF))"

definition subkey1 :: "u32 \<Rightarrow> u32 \<Rightarrow> u32" where
  "subkey1 X Y =
     ((push_bit 4 X) AND 0x24000000) OR ((push_bit 28 X) AND 0x10000000) OR
     ((push_bit 14 X) AND 0x08000000) OR ((push_bit 18 X) AND 0x02080000) OR
     ((push_bit 6 X) AND 0x01000000) OR ((push_bit 9 X) AND 0x00200000) OR
     ((drop_bit 1 X) AND 0x00100000) OR ((push_bit 10 X) AND 0x00040000) OR
     ((push_bit 2 X) AND 0x00020000) OR ((drop_bit 10 X) AND 0x00010000) OR
     ((drop_bit 13 Y) AND 0x00002000) OR ((drop_bit 4 Y) AND 0x00001000) OR
     ((push_bit 6 Y) AND 0x00000800) OR ((drop_bit 1 Y) AND 0x00000400) OR
     ((drop_bit 14 Y) AND 0x00000200) OR (Y AND 0x00000100) OR
     ((drop_bit 5 Y) AND 0x00000020) OR ((drop_bit 10 Y) AND 0x00000010) OR
     ((drop_bit 3 Y) AND 0x00000008) OR ((drop_bit 18 Y) AND 0x00000004) OR
     ((drop_bit 26 Y) AND 0x00000002) OR ((drop_bit 24 Y) AND 0x00000001)"

definition subkey2 :: "u32 \<Rightarrow> u32 \<Rightarrow> u32" where
  "subkey2 X Y =
     ((push_bit 15 X) AND 0x20000000) OR ((push_bit 17 X) AND 0x10000000) OR
     ((push_bit 10 X) AND 0x08000000) OR ((push_bit 22 X) AND 0x04000000) OR
     ((drop_bit 2 X) AND 0x02000000) OR ((push_bit 1 X) AND 0x01000000) OR
     ((push_bit 16 X) AND 0x00200000) OR ((push_bit 11 X) AND 0x00100000) OR
     ((push_bit 3 X) AND 0x00080000) OR ((drop_bit 6 X) AND 0x00040000) OR
     ((push_bit 15 X) AND 0x00020000) OR ((drop_bit 4 X) AND 0x00010000) OR
     ((drop_bit 2 Y) AND 0x00002000) OR ((push_bit 8 Y) AND 0x00001000) OR
     ((drop_bit 14 Y) AND 0x00000808) OR ((drop_bit 9 Y) AND 0x00000400) OR
     (Y AND 0x00000200) OR ((push_bit 7 Y) AND 0x00000100) OR
     ((drop_bit 7 Y) AND 0x00000020) OR ((drop_bit 3 Y) AND 0x00000011) OR
     ((push_bit 2 Y) AND 0x00000004) OR ((drop_bit 21 Y) AND 0x00000002)"

definition rotate_half :: "nat \<Rightarrow> u32 \<Rightarrow> u32" where
  "rotate_half i X =
     (if i < 2 \<or> i = 8 \<or> i = 15 then (push_bit 1 X OR drop_bit 27 X) AND 0x0FFFFFFF
      else (push_bit 2 X OR drop_bit 26 X) AND 0x0FFFFFFF)"

fun subkeys :: "nat list \<Rightarrow> u32 \<Rightarrow> u32 \<Rightarrow> u32 list" where
  "subkeys [] X Y = []"
| "subkeys (i # is) X Y =
     (let X = rotate_half i X; Y = rotate_half i Y in subkey1 X Y # subkey2 X Y # subkeys is X Y)"

definition des_main_ks :: "string \<Rightarrow> u32 list" where
  "des_main_ks key =
     (let X = GET_UINT32 key 0; Y = GET_UINT32 key 4;
          (X, Y) = swap_back 4 0x0F0F0F0F (X, Y);
          (X, Y) = swap_back 0 0x10101010 (X, Y);
          X = lhs_bits X AND 0x0FFFFFFF; Y = rhs_bits Y AND 0x0FFFFFFF
      in subkeys [0..<16] X Y)"

section \<open>Blocks\<close>

definition two_rounds :: "u32 list \<Rightarrow> nat \<Rightarrow> u32 \<times> u32 \<Rightarrow> u32 \<times> u32" where
  \<comment> \<open>\<open>DES_ROUND( Y, X ); DES_ROUND( X, Y );\<close>\<close>
  "two_rounds SK i = (\<lambda>(X, Y).
     let X = DES_ROUND (SK ! (4 * i)) (SK ! (4 * i + 1)) Y X;
         Y = DES_ROUND (SK ! (4 * i + 2)) (SK ! (4 * i + 3)) X Y
     in (X, Y))"

definition des_crypt :: "u32 list \<Rightarrow> string \<Rightarrow> string" where
  "des_crypt SK input =
     (let (X, Y) = fold (two_rounds SK) [0..<8] (DES_IP (GET_UINT32 input 0, GET_UINT32 input 4));
          (Y, X) = DES_FP (Y, X)
      in PUT_UINT32 Y @ PUT_UINT32 X)"

fun crypt_blocks :: "u32 list \<Rightarrow> string \<Rightarrow> string \<times> string" where
  \<comment> \<open>the whole blocks of a text, and what is left of it\<close>
  "crypt_blocks SK text =
     (if length text < 8 then ([], text)
      else let (out, rest) = crypt_blocks SK (drop 8 text) in (des_crypt SK (take 8 text) @ out, rest))"

declare crypt_blocks.simps [simp del]

section \<open>Functions for Lua\<close>

definition des_key :: "string \<Rightarrow> u32 list lua" where
  "des_key key =
     (if length key \<noteq> 8 then Raise (''Invalid key size '' @ print_d (int (length key)) @ '', need 8 bytes'')
      else Return (des_main_ks key))"

definition pad_tail :: "string \<Rightarrow> string" where
  "pad_tail bytes = map (\<lambda>j. if j < length bytes then bytes ! j else if j = length bytes then CHR 0x80 else NUL) [0..<8]"

definition ldesencode :: "string \<Rightarrow> string \<Rightarrow> string lua option" where
  "ldesencode key text =
     (case des_key key of
        Raise e \<Rightarrow> Some (Raise e)
      | Return SK \<Rightarrow> do {
          guard (length text < 2 ^ 31);
          let (out, rest) = crypt_blocks SK text;
          Some (Return (out @ des_crypt SK (pad_tail rest))) })"

definition reverse_keys :: "u32 list \<Rightarrow> u32 list" where
  "reverse_keys ESK = map (\<lambda>i. if even i then ESK ! (30 - i) else ESK ! (32 - i)) [0..<32]"

fun scan_padding :: "nat \<Rightarrow> string \<Rightarrow> nat \<Rightarrow> nat lua option" where
  \<comment> \<open>the last eight bytes from the end; \<open>textsz - 8\<close> is unsigned, so for a single block the loop does not
    stop at the start of the buffer\<close>
  "scan_padding textsz [] padding = (if textsz = 8 then None else Some (Return padding))"
| "scan_padding textsz (c # cs) padding =
     (if c = NUL then scan_padding textsz cs (padding + 1)
      else if c = CHR 0x80 then Some (Return padding)
      else Some (Raise ''Invalid des crypt text''))"

definition ldesdecode :: "string \<Rightarrow> string \<Rightarrow> string lua option" where
  "ldesdecode key text =
     (case des_key key of
        Raise e \<Rightarrow> Some (Raise e)
      | Return ESK \<Rightarrow>
          if length text mod 8 \<noteq> 0 \<or> text = []
          then Some (Raise (''Invalid des crypt text length '' @ print_d (int (length text))))
          else do {
            guard (length text < 2 ^ 31);
            let buffer = fst (crypt_blocks (reverse_keys ESK) text);
            r \<leftarrow> scan_padding (length text) (take 8 (rev buffer)) 1;
            Some (case r of
                    Raise e \<Rightarrow> Raise e
                  | Return padding \<Rightarrow>
                      if 8 < padding then Raise ''Invalid des crypt text''
                      else Return (take (length text - padding) buffer)) })"

section \<open>Decryption undoes encryption\<close>

lemma xor_twice [simp]: "(x XOR y) XOR y = (x :: u32)"
  by (simp add: xor.assoc)

lemma shifted_mask:
  fixes t m :: u32
  assumes "drop_bit k (push_bit k m) = m"
  shows "drop_bit k (push_bit k (t AND m)) = t AND m"
proof (rule bit_word_eqI)
  fix i assume i: "i < LENGTH(32)"
  have "bit (drop_bit k (push_bit k m)) i = bit m i" using assms by simp
  then show "bit (drop_bit k (push_bit k (t AND m))) i = bit (t AND m) i"
    using i by (auto simp: bit_simps)
qed

lemma swap_move_eq: "(drop_bit k X XOR Y) AND m = T \<Longrightarrow> swap_move k m (X, Y) = (X XOR push_bit k T, Y XOR T)"
  by (simp only: swap_move_def Let_def prod.case)

lemma move_involution:
  assumes "drop_bit k (push_bit k m) = m"
  shows "swap_move k m (swap_move k m p) = p"
proof (cases p)
  case (Pair X Y)
  define T where "T = (drop_bit k X XOR Y) AND m"
  have "drop_bit k (push_bit k T) = T" unfolding T_def by (rule shifted_mask [OF assms])
  then have "drop_bit k (X XOR push_bit k T) XOR (Y XOR T) = drop_bit k X XOR Y"
    by (simp add: drop_bit_xor ac_simps)
  then have "(drop_bit k (X XOR push_bit k T) XOR (Y XOR T)) AND m = T" by (simp add: T_def)
  from swap_move_eq [OF this] swap_move_eq [OF T_def [symmetric]]
  show ?thesis unfolding Pair by (simp only: xor_twice)
qed

lemma back_swap: "swap_back k m p = prod.swap (swap_move k m (prod.swap p))"
  by (cases p) (simp add: swap_back_def swap_move_def Let_def)

lemma back_involution:
  assumes "drop_bit k (push_bit k m) = m"
  shows "swap_back k m (swap_back k m p) = p"
  by (simp add: back_swap move_involution [OF assms])

lemma masks:
  "drop_bit 4 (push_bit 4 0x0F0F0F0F) = (0x0F0F0F0F :: u32)" "drop_bit 16 (push_bit 16 0x0000FFFF) = (0x0000FFFF :: u32)"
  "drop_bit 2 (push_bit 2 0x33333333) = (0x33333333 :: u32)" "drop_bit 8 (push_bit 8 0x00FF00FF) = (0x00FF00FF :: u32)"
  "drop_bit 0 (push_bit 0 0xAAAAAAAA) = (0xAAAAAAAA :: u32)"
  by simp_all

lemma all_ones: "x AND 0xFFFFFFFF = (x :: u32)"
proof -
  have "(0xFFFFFFFF :: u32) = - 1" by simp
  then show ?thesis by (simp only: and.right_neutral)
qed

lemma rotate_inverse:
  fixes x :: u32
  assumes "j + k = 32"
  shows "push_bit j (push_bit k x OR drop_bit j x) OR drop_bit k (push_bit k x OR drop_bit j x) = x"
proof (rule bit_word_eqI)
  fix i assume "i < LENGTH(32)"
  then show "bit (push_bit j (push_bit k x OR drop_bit j x) OR drop_bit k (push_bit k x OR drop_bit j x)) i = bit x i"
    using assms by (cases "j \<le> i") (auto simp: bit_simps dest: bit_imp_le_length)
qed

lemma FP_IP: "DES_FP (DES_IP p) = p"
proof -
  define q where "q = swap_back 8 0x00FF00FF (swap_back 2 0x33333333 (swap_move 16 0x0000FFFF (swap_move 4 0x0F0F0F0F p)))"
  obtain X Y where XY: "q = (X, Y)" by fastforce
  define r where "r = swap_move 0 0xAAAAAAAA (X, push_bit 1 Y OR drop_bit 31 Y)"
  obtain A B where AB: "r = (A, B)" by fastforce
  have ip: "DES_IP p = (push_bit 1 A OR drop_bit 31 A, B)"
    unfolding DES_IP_def Let_def q_def [symmetric] XY prod.case all_ones r_def [symmetric] AB by (rule refl)
  have "swap_move 0 0xAAAAAAAA (A, B) = (X, push_bit 1 Y OR drop_bit 31 Y)"
    using move_involution [OF masks(5)] AB r_def by metis
  then have "DES_FP (DES_IP p) = swap_move 4 0x0F0F0F0F (swap_move 16 0x0000FFFF (swap_back 2 0x33333333 (swap_back 8 0x00FF00FF (X, Y))))"
    using rotate_inverse [of 31 1]
    unfolding ip DES_FP_def Let_def prod.case all_ones by (simp del: push_bit_of_1 push_bit_eq_mult One_nat_def)
  also have "\<dots> = p"
    unfolding XY [symmetric] q_def
    by (simp only: back_involution [OF masks(4)] back_involution [OF masks(3)] move_involution [OF masks(2)] move_involution [OF masks(1)])
  finally show ?thesis .
qed

lemma IP_FP: "DES_IP (DES_FP p) = p"
proof -
  have "inj DES_IP" by (rule inj_on_inverseI [of _ DES_FP]) (rule FP_IP)
  then have "surj DES_IP" by (rule finite_UNIV_inj_surj [OF finite])
  then obtain q where "DES_IP q = p" by (metis surjD)
  then show ?thesis using FP_IP [of q] by simp
qed

lemma round_undoes: "DES_ROUND k1 k2 X (DES_ROUND k1 k2 X Y) = Y"
  by (simp add: DES_ROUND_def Let_def ac_simps)

lemma two_rounds_undo:
  assumes "i < 8" "length SK = 32"
  shows "two_rounds (reverse_keys SK) (7 - i) (prod.swap (two_rounds SK i p)) = prod.swap p"
proof (cases p)
  case (Pair X Y)
  have "reverse_keys SK ! (4 * (7 - i)) = SK ! (4 * i + 2)" "reverse_keys SK ! (4 * (7 - i) + 1) = SK ! (4 * i + 3)"
    "reverse_keys SK ! (4 * (7 - i) + 2) = SK ! (4 * i)" "reverse_keys SK ! (4 * (7 - i) + 3) = SK ! (4 * i + 1)"
    using assms(1) by (simp_all add: reverse_keys_def) (simp_all add: diff_mult_distrib2 add.commute)
  then show ?thesis by (simp add: Pair two_rounds_def Let_def round_undoes)
qed

lemma rounds_undo:
  assumes "length SK = 32"
  shows "fold (two_rounds (reverse_keys SK)) [0..<8] (prod.swap (fold (two_rounds SK) [0..<8] p)) = prod.swap p"
proof -
  have "fold (two_rounds (reverse_keys SK)) [8 - n..<8] (prod.swap (fold (two_rounds SK) [0..<n] p)) = prod.swap p"
    if "n \<le> 8" for n
    using that
  proof (induction n)
    case (Suc n)
    have "8 - Suc n = 7 - n" "8 - n = Suc (7 - n)" "7 - n < 8" using Suc.prems by linarith+
    then have "[8 - Suc n..<8] = (7 - n) # [8 - n..<8]" by (simp only: upt_conv_Cons)
    then show ?case using Suc two_rounds_undo [OF _ assms, of n] by simp
  qed simp
  from this [of 8] show ?thesis by simp
qed

lemma GET_length: "length b = 8 \<Longrightarrow> put_be (GET_UINT32 b 0) @ put_be (GET_UINT32 b 4) = b"
  by (simp add: GET_UINT32_def)

lemma GET_PUT: "GET_UINT32 (PUT_UINT32 x @ PUT_UINT32 y) 0 = x" "GET_UINT32 (PUT_UINT32 x @ PUT_UINT32 y) 4 = y"
  by (simp_all add: GET_UINT32_def PUT_UINT32_def)

lemma des_crypt_length [simp]: "length (des_crypt SK b) = 8"
  by (simp add: des_crypt_def PUT_UINT32_def split: prod.splits)

lemma des_crypt_undo:
  assumes "length SK = 32" "length b = 8"
  shows "des_crypt (reverse_keys SK) (des_crypt SK b) = b"
proof -
  let ?p = "DES_IP (GET_UINT32 b 0, GET_UINT32 b 4)"
  obtain X Y where r: "fold (two_rounds SK) [0..<8] ?p = (X, Y)" by fastforce
  obtain Y' X' where f: "DES_FP (Y, X) = (Y', X')" by fastforce
  have "des_crypt SK b = PUT_UINT32 Y' @ PUT_UINT32 X'" using r f by (simp add: des_crypt_def)
  moreover have "DES_IP (Y', X') = (Y, X)" using IP_FP [of "(Y, X)"] f by simp
  moreover have "fold (two_rounds (reverse_keys SK)) [0..<8] (Y, X) = prod.swap ?p"
    using rounds_undo [OF assms(1), of ?p] r by simp
  moreover obtain A B where "?p = (A, B)" by fastforce
  moreover have "DES_FP ?p = (GET_UINT32 b 0, GET_UINT32 b 4)" by (rule FP_IP)
  ultimately show ?thesis using GET_length [OF assms(2)] by (simp add: des_crypt_def [of "reverse_keys SK"] GET_PUT) (simp add: PUT_UINT32_def)
qed

lemma subkeys_length [simp]: "length (subkeys is X Y) = 2 * length is"
  by (induction "is" X Y rule: subkeys.induct) (simp_all add: Let_def)

lemma des_main_ks_length [simp]: "length (des_main_ks key) = 32"
  by (simp add: des_main_ks_def Let_def split: prod.splits)

lemma crypt_blocks_Nil [simp]: "crypt_blocks SK [] = ([], [])"
  by (simp add: crypt_blocks.simps)

lemma crypt_blocks_step: "length b = 8 \<Longrightarrow> crypt_blocks SK (b @ t) = (let (out, rest) = crypt_blocks SK t in (des_crypt SK b @ out, rest))"
  by (subst crypt_blocks.simps) simp

lemma blocks_undo:
  assumes "length SK = 32" "crypt_blocks SK text = (out, rest)"
  shows "\<exists>front. text = front @ rest \<and> length rest < 8 \<and> length out = length front \<and> 8 dvd length out \<and>
    (\<forall>t. crypt_blocks (reverse_keys SK) (out @ t) = (let (o2, r2) = crypt_blocks (reverse_keys SK) t in (front @ o2, r2)))"
  using assms
proof (induction SK "text" arbitrary: out rule: crypt_blocks.induct)
  case (1 SK "text")
  show ?case
  proof (cases "length text < 8")
    case True
    then show ?thesis using "1.prems" by (auto simp: crypt_blocks.simps)
  next
    case False
    obtain out1 r1 where o1: "crypt_blocks SK (drop 8 text) = (out1, r1)" by fastforce
    have "crypt_blocks SK text = (des_crypt SK (take 8 text) @ out1, r1)"
      using False o1 by (subst crypt_blocks.simps) simp
    then have o: "out = des_crypt SK (take 8 text) @ out1" "r1 = rest" using "1.prems"(2) by simp_all
    from "1.IH" [OF False "1.prems"(1) o1 [unfolded o(2)]] obtain front where f: "drop 8 text = front @ rest" "length rest < 8"
      "length out1 = length front" "8 dvd length out1"
      "\<And>t. crypt_blocks (reverse_keys SK) (out1 @ t) = (let (o2, r2) = crypt_blocks (reverse_keys SK) t in (front @ o2, r2))"
      by blast
    have "length (take 8 text) = 8" using False by simp
    then have "des_crypt (reverse_keys SK) (des_crypt SK (take 8 text)) = take 8 text"
      using des_crypt_undo "1.prems"(1) by blast
    then have "crypt_blocks (reverse_keys SK) (out @ t) =
        (let (o2, r2) = crypt_blocks (reverse_keys SK) t in ((take 8 text @ front) @ o2, r2))" for t
      using f(5) [of t] unfolding o(1) append_assoc by (subst crypt_blocks_step) (auto split: prod.splits)
    moreover have "text = (take 8 text @ front) @ rest" using f(1) by (metis append_assoc append_take_drop_id)
    ultimately show ?thesis using f(2-4) False o(1) by (intro exI [of _ "take 8 text @ front"]) simp
  qed
qed

lemma pad_tail_shape: "length r < 8 \<Longrightarrow> pad_tail r = r @ CHR 0x80 # replicate (7 - length r) NUL"
  by (rule nth_equalityI) (auto simp: pad_tail_def nth_append nth_Cons split: nat.splits)

lemma scan_padding_zeros:
  "scan_padding k (replicate n NUL @ CHR 0x80 # bs) p = Some (Return (p + n))"
  by (induction n arbitrary: p) simp_all

text \<open>C16. A text of any length encrypted with a key of eight bytes is decrypted with that key to itself;
  neither call raises an error.\<close>

theorem des_roundtrip:
  assumes "length key = 8" and "length text + 8 < 2 ^ 31"
  shows "\<exists>c. ldesencode key text = Some (Return c) \<and> ldesdecode key c = Some (Return text)"
proof -
  let ?K = "des_main_ks key" and ?R = "reverse_keys (des_main_ks key)"
  obtain out rest where o: "crypt_blocks ?K text = (out, rest)" by fastforce
  obtain front where f: "text = front @ rest" "length rest < 8" "length out = length front" "8 dvd length out"
    "\<And>t. crypt_blocks ?R (out @ t) = (let (o2, r2) = crypt_blocks ?R t in (front @ o2, r2))"
    using blocks_undo [OF des_main_ks_length o] by blast
  let ?c = "out @ des_crypt ?K (pad_tail rest)"
  have pad: "length (pad_tail rest) = 8" by (simp add: pad_tail_def)
  have enc: "ldesencode key text = Some (Return ?c)"
    using assms o by (simp add: ldesencode_def des_key_def)
  have "crypt_blocks ?R (des_crypt ?K (pad_tail rest)) = (pad_tail rest, [])"
    using crypt_blocks_step [OF des_crypt_length, of ?R _ _ "[]"] des_crypt_undo [OF des_main_ks_length pad] by simp
  then have buf: "fst (crypt_blocks ?R ?c) = front @ pad_tail rest" using f(5) by simp
  have "take 8 (rev (front @ pad_tail rest)) = replicate (7 - length rest) NUL @ CHR 0x80 # rev rest"
    using f(2) pad by (simp add: pad_tail_shape)
  then have "scan_padding (length ?c) (take 8 (rev (front @ pad_tail rest))) 1 = Some (Return (8 - length rest))"
    using f(2) by (simp add: scan_padding_zeros)
  moreover have "length ?c mod 8 = 0" "?c \<noteq> []" "length ?c < 2 ^ 31" "length ?c - (8 - length rest) = length text"
    using f assms(2) des_crypt_length [of ?K "pad_tail rest"] by (auto simp del: des_crypt_length)
  moreover have "take (length text) (front @ pad_tail rest) = text" using f(1,2) by (simp add: pad_tail_shape)
  ultimately have "ldesdecode key ?c = Some (Return text)"
    using assms(1) buf by (simp add: ldesdecode_def des_key_def)
  then show ?thesis using enc by blast
qed

theorem des_roundtrip_witness:
  "\<exists>c. ldesencode ''abcdefgh'' ''hello world'' = Some (Return c) \<and> ldesdecode ''abcdefgh'' c = Some (Return ''hello world'')"
  using des_roundtrip [of "''abcdefgh''" "''hello world''"] by simp

end
