(* ===== verification/Crypt.thy ===== *)
theory Crypt
  imports Bytes Format
begin

text \<open>
  The rest of \<open>lib/crypt/lua-crypt.c\<close>: random keys, the hash of a key, hexadecimal text, the 64-bit
  authentication code, the key exchange of Diffie and Hellman over 64-bit numbers, and base64.
  The code counts with \<open>int\<close>; a text that would overflow a counter is \<open>None\<close>.
\<close>

section \<open>Random keys and hashed keys\<close>

definition lrandomkey :: "(nat \<Rightarrow> u32) \<Rightarrow> string" where
  \<comment> \<open>\<open>random i\<close> is what the i-th call of \<open>random\<close> returns\<close>
  "lrandomkey random =
     (let tmp = map (\<lambda>i. chr (random i AND 0xff)) [0..<8];
          x = fold (\<lambda>c acc. acc XOR byte c) tmp 0
      in if x = 0 then tmp[0 := chr (byte (tmp ! 0) OR 1)] else tmp)"

definition hash_step :: "char \<Rightarrow> u32 \<times> u32 \<Rightarrow> u32 \<times> u32" where
  "hash_step c = (\<lambda>(djb_hash, js_hash).
     (djb_hash + (push_bit 5 djb_hash + byte c), js_hash XOR (push_bit 5 js_hash + byte c + drop_bit 2 js_hash)))"

definition Hash :: "string \<Rightarrow> string" where
  "Hash str = (let (djb_hash, js_hash) = fold hash_step str (5381, 1315423911) in put_le djb_hash @ put_le js_hash)"

definition lhashkey :: "string \<Rightarrow> string option" where
  "lhashkey key = do { guard (length key < 2 ^ 31); Some (Hash key) }"

section \<open>Hexadecimal text\<close>

definition SMALL_CHUNK :: nat where "SMALL_CHUNK = 256"

definition ltohex :: "string \<Rightarrow> string lua option" where
  "ltohex text =
     do { guard (length text < 2 ^ 30);
          Some (Return (concat (map (\<lambda>c. [hex_lower (unat (drop_bit 4 (byte c))), hex_lower (unat (byte c AND 0xf))]) text))) }"

definition HEX :: "char \<Rightarrow> u32" where
  \<comment> \<open>\<open>tmp\<close> is a signed \<open>char\<close>, the value is stored in a \<open>uint8_t\<close>\<close>
  "HEX c =
     (let tmp = (let n = int (of_char c) in if 128 \<le> n then n - 256 else n)
      in take_bit 8 (word_of_int (if 48 \<le> tmp \<and> tmp \<le> 57 then tmp - 48 else tmp - 97 + 10)))"

definition hex_byte :: "char \<Rightarrow> char \<Rightarrow> char lua" where
  "hex_byte c d =
     (let hi = HEX c; low = HEX d
      in if 16 < hi \<or> 16 < low then Raise ''Invalid hex text'' else Return (chr (push_bit 4 hi OR low)))"

fun hex_pairs :: "string \<Rightarrow> nat \<Rightarrow> string lua option" where
  \<comment> \<open>the second argument is the room left in the buffer; a Lua string ends with a zero byte\<close>
  "hex_pairs [] room = Some (Return [])"
| "hex_pairs [c] room =
     (case hex_byte c NUL of Raise e \<Rightarrow> Some (Raise e) | Return x \<Rightarrow> do { guard (0 < room); Some (Return [x]) })"
| "hex_pairs (c # d # cs) room =
     (case hex_byte c d of
        Raise e \<Rightarrow> Some (Raise e)
      | Return x \<Rightarrow> do {
          guard (0 < room);
          r \<leftarrow> hex_pairs cs (room - 1);
          Some (case r of Raise e \<Rightarrow> Raise e | Return out \<Rightarrow> Return (x # out)) })"

definition lfromhex :: "string \<Rightarrow> string lua option" where
  "lfromhex text =
     (let sz = length text
      in if odd (sz div 2) then Some (Raise (''Invalid hex text size '' @ print_d (int sz)))
         else do {
           guard (sz < 2 ^ 31);
           hex_pairs text (if SMALL_CHUNK * 2 < sz then sz div 2 else SMALL_CHUNK) })"

section \<open>The 64-bit authentication code\<close>

definition k_table :: "u32 list" where
  "k_table =
    [0xd76aa478, 0xe8c7b756, 0x242070db, 0xc1bdceee, 0xf57c0faf, 0x4787c62a, 0xa8304613, 0xfd469501,
     0x698098d8, 0x8b44f7af, 0xffff5bb1, 0x895cd7be, 0x6b901122, 0xfd987193, 0xa679438e, 0x49b40821,
     0xf61e2562, 0xc040b340, 0x265e5a51, 0xe9b6c7aa, 0xd62f105d, 0x02441453, 0xd8a1e681, 0xe7d3fbc8,
     0x21e1cde6, 0xc33707d6, 0xf4d50d87, 0x455a14ed, 0xa9e3e905, 0xfcefa3f8, 0x676f02d9, 0x8d2a4c8a,
     0xfffa3942, 0x8771f681, 0x6d9d6122, 0xfde5380c, 0xa4beea44, 0x4bdecfa9, 0xf6bb4b60, 0xbebfbc70,
     0x289b7ec6, 0xeaa127fa, 0xd4ef3085, 0x04881d05, 0xd9d4d039, 0xe6db99e5, 0x1fa27cf8, 0xc4ac5665,
     0xf4292244, 0x432aff97, 0xab9423a7, 0xfc93a039, 0x655b59c3, 0x8f0ccc92, 0xffeff47d, 0x85845dd1,
     0x6fa87e4f, 0xfe2ce6e0, 0xa3014314, 0x4e0811a1, 0xf7537e82, 0xbd3af235, 0x2ad7d2bb, 0xeb86d391]"

definition r_table :: "nat list" where
  "r_table =
    [7, 12, 17, 22, 7, 12, 17, 22, 7, 12, 17, 22, 7, 12, 17, 22,
     5, 9, 14, 20, 5, 9, 14, 20, 5, 9, 14, 20, 5, 9, 14, 20,
     4, 11, 16, 23, 4, 11, 16, 23, 4, 11, 16, 23, 4, 11, 16, 23,
     6, 10, 15, 21, 6, 10, 15, 21, 6, 10, 15, 21, 6, 10, 15, 21]"

definition LEFTROTATE :: "u32 \<Rightarrow> nat \<Rightarrow> u32" where
  "LEFTROTATE x c = push_bit c x OR drop_bit (32 - c) x"

definition hmac_step :: "u32 list \<Rightarrow> nat \<Rightarrow> u32 \<times> u32 \<times> u32 \<times> u32 \<Rightarrow> u32 \<times> u32 \<times> u32 \<times> u32" where
  "hmac_step w i = (\<lambda>(a, b, c, d).
     let (f, g) =
           (if i < 16 then ((b AND c) OR (NOT b AND d), i)
            else if i < 32 then ((d AND b) OR (NOT d AND c), (5 * i + 1) mod 16)
            else if i < 48 then (b XOR c XOR d, (3 * i + 5) mod 16)
            else (c XOR (b OR NOT d), (7 * i) mod 16))
     in (d, b + LEFTROTATE (a + f + k_table ! i + w ! g) (r_table ! i), b, c))"

definition hmac :: "u32 \<times> u32 \<Rightarrow> u32 \<times> u32 \<Rightarrow> u32 \<times> u32" where
  "hmac x y =
     (let w = concat (replicate 4 [snd x, fst x, snd y, fst y]);
          (a, b, c, d) = fold (hmac_step w) [0..<64] (0x67452301, 0xefcdab89, 0x98badcfe, 0x10325476)
      in (c XOR d, a XOR b))"

definition qword :: "string \<Rightarrow> u32 \<times> u32" where
  "qword x = (get_le (take 4 x), get_le (drop 4 x))"

definition read64 :: "string \<Rightarrow> string \<Rightarrow> ((u32 \<times> u32) \<times> (u32 \<times> u32)) lua" where
  "read64 x y =
     (if length x \<noteq> 8 then Raise ''Invalid uint64 x''
      else if length y \<noteq> 8 then Raise ''Invalid uint64 y''
      else Return (qword x, qword y))"

definition pushqword :: "u32 \<times> u32 \<Rightarrow> string" where
  "pushqword result = put_le (fst result) @ put_le (snd result)"

definition lhmac64 :: "string \<Rightarrow> string \<Rightarrow> string lua" where
  "lhmac64 x y = (case read64 x y of Raise e \<Rightarrow> Raise e | Return (xx, yy) \<Rightarrow> Return (pushqword (hmac xx yy)))"

definition lhmac_hash :: "string \<Rightarrow> string \<Rightarrow> string lua option" where
  "lhmac_hash key text =
     (if length key \<noteq> 8 then Some (Raise ''Invalid uint64 key'')
      else do { guard (length text < 2 ^ 31); Some (Return (pushqword (hmac (qword (Hash text)) (qword key)))) })"

section \<open>Key exchange\<close>

definition P :: u64 where "P = 0xffffffffffffffc5"

function mul_loop :: "u64 \<Rightarrow> u64 \<Rightarrow> u64 \<Rightarrow> u64" where
  "mul_loop m a b =
     (if b = 0 then m
      else mul_loop
             (if b AND 1 \<noteq> 0 then (let t = P - a in if t \<le> m then m - t else m + a) else m)
             (if P - a \<le> a then a * 2 - P else a * 2)
             (drop_bit 1 b))"
  by pat_completeness auto
termination
proof (relation "measure (\<lambda>(m, a, b). unat b)")
  fix m a b :: u64
  assume "b \<noteq> 0"
  then have "0 < unat b" by (simp add: unat_gt_0)
  then show "((if b AND 1 \<noteq> 0 then (let t = P - a in if t \<le> m then m - t else m + a) else m,
      if P - a \<le> a then a * 2 - P else a * 2, drop_bit 1 b), m, a, b) \<in> measure (\<lambda>(m, a, b). unat b)"
    by (simp add: drop_bit_eq_div unat_div_distrib)
qed simp

declare mul_loop.simps [simp del]

definition mul_mod_p :: "u64 \<Rightarrow> u64 \<Rightarrow> u64" where
  "mul_mod_p a b = mul_loop 0 a b"

partial_function (option) pow_mod_p :: "u64 \<Rightarrow> u64 \<Rightarrow> u64 option" where
  \<comment> \<open>does not return for \<open>b = 0\<close>\<close>
  "pow_mod_p a b =
     (if b = 1 then Some a
      else do {
        t \<leftarrow> pow_mod_p a (drop_bit 1 b);
        let t = mul_mod_p t t;
        Some (if b mod 2 \<noteq> 0 then mul_mod_p t a else t) })"

definition powmodp :: "u64 \<Rightarrow> u64 \<Rightarrow> u64 option" where
  "powmodp a b = pow_mod_p (if P < a then a mod P else a) b"

definition push64 :: "u64 \<Rightarrow> string" where
  "push64 r = map (\<lambda>i. chr (ucast (drop_bit (8 * i) r AND 0xff))) [0..<8]"

definition dword :: "u32 \<times> u32 \<Rightarrow> u64" where
  "dword x = ucast (fst x) OR push_bit 32 (ucast (snd x))"

definition ldhsecret :: "string \<Rightarrow> string \<Rightarrow> string lua option" where
  "ldhsecret x y =
     (case read64 x y of
        Raise e \<Rightarrow> Some (Raise e)
      | Return (x1, y1) \<Rightarrow>
          let xx = dword x1; yy = dword y1
          in if xx = 0 \<or> yy = 0 then Some (Raise ''Can't be 0'')
             else do { r \<leftarrow> powmodp xx yy; Some (Return (push64 r)) })"

definition ldhexchange :: "string \<Rightarrow> string lua option" where
  "ldhexchange x =
     (if length x \<noteq> 8 then Some (Raise ''Invalid dh uint64 key'')
      else let x64 = dword (qword x)
           in if x64 = 0 then Some (Raise ''Can't be 0'')
              else do { r \<leftarrow> powmodp 5 x64; Some (Return (push64 r)) })"

section \<open>Base64\<close>

definition encoding :: "nat \<Rightarrow> char" where
  "encoding i = ''ABCDEFGHIJKLMNOPQRSTUVWXYZabcdefghijklmnopqrstuvwxyz0123456789+/'' ! i"

fun b64_groups :: "string \<Rightarrow> string" where
  "b64_groups (x # y # z # rest) =
     (let v = push_bit 16 (byte x) OR push_bit 8 (byte y) OR byte z
      in [encoding (unat (drop_bit 18 v)), encoding (unat (drop_bit 12 v AND 0x3f)),
          encoding (unat (drop_bit 6 v AND 0x3f)), encoding (unat (v AND 0x3f))] @ b64_groups rest)"
| "b64_groups [x] =
     (let v = byte x in [encoding (unat (drop_bit 2 v)), encoding (unat (push_bit 4 (v AND 3))), CHR ''='', CHR ''=''])"
| "b64_groups [x, y] =
     (let v = push_bit 8 (byte x) OR byte y
      in [encoding (unat (drop_bit 10 v)), encoding (unat (drop_bit 4 v AND 0x3f)),
          encoding (unat (push_bit 2 (v AND 0xf))), CHR ''=''])"
| "b64_groups [] = []"

definition lb64encode :: "string \<Rightarrow> string lua option" where
  "lb64encode text =
     do { guard ((length text + 2) div 3 * 4 < 2 ^ 31); Some (Return (b64_groups text)) }"

definition decoding :: "int list" where
  "decoding =
    [62, - 1, - 1, - 1, 63, 52, 53, 54, 55, 56, 57, 58, 59, 60, 61, - 1, - 1, - 1, - 2, - 1,
     - 1, - 1, 0, 1, 2, 3, 4, 5, 6, 7, 8, 9, 10, 11, 12, 13, 14, 15, 16, 17,
     18, 19, 20, 21, 22, 23, 24, 25, - 1, - 1, - 1, - 1, - 1, - 1, 26, 27, 28, 29, 30, 31,
     32, 33, 34, 35, 36, 37, 38, 39, 40, 41, 42, 43, 44, 45, 46, 47, 48, 49, 50, 51]"

definition b64index :: "char \<Rightarrow> int" where
  "b64index c =
     (let n = of_char c :: nat
      in if n < 43 then - 1 else if length decoding \<le> n - 43 then - 1 else decoding ! (n - 43))"

fun b64_quad :: "nat \<Rightarrow> string \<Rightarrow> (int list \<times> string) option" where
  \<comment> \<open>the next four characters of the code, others are skipped; \<open>None\<close> at the end of the text\<close>
  "b64_quad 0 text = Some ([], text)"
| "b64_quad (Suc n) [] = None"
| "b64_quad (Suc n) (c # cs) =
     (if b64index c = - 1 then b64_quad (Suc n) cs
      else do { (q, rest) \<leftarrow> b64_quad n cs; Some (b64index c # q, rest) })"

definition b64_bytes :: "int list \<Rightarrow> string lua" where
  "b64_bytes c =
     (let w = (\<lambda>i. word_of_int (c ! i) :: u32); padding = length (filter (\<lambda>x. x = - 2) c)
      in if padding = 0 then
           (let v = push_bit 18 (w 0) OR push_bit 12 (w 1) OR push_bit 6 (w 2) OR w 3
            in Return [chr (drop_bit 16 v), chr (drop_bit 8 v AND 0xff), chr (v AND 0xff)])
         else if padding = 1 then
           (if c ! 3 \<noteq> - 2 \<or> w 2 AND 3 \<noteq> 0 then Raise ''Invalid base64 text''
            else let v = push_bit 10 (w 0) OR push_bit 4 (w 1) OR drop_bit 2 (w 2)
                 in Return [chr (drop_bit 8 v), chr (v AND 0xff)])
         else if padding = 2 then
           (if c ! 3 \<noteq> - 2 \<or> c ! 2 \<noteq> - 2 \<or> w 1 AND 0xf \<noteq> 0 then Raise ''Invalid base64 text''
            else let v = push_bit 2 (w 0) OR drop_bit 4 (w 1) in Return [chr v])
         else Raise ''Invalid base64 text'')"

lemma b64_quad_shorter: "b64_quad (Suc n) cs = Some (q, rest) \<Longrightarrow> length rest < length cs"
proof (induction "Suc n" cs arbitrary: n q rule: b64_quad.induct)
  case (3 n c cs)
  show ?case
  proof (cases "b64index c = - 1")
    case False
    then obtain q' where "b64_quad n cs = Some (q', rest)" using "3.prems" by (auto split: prod.splits)
    then show ?thesis using "3.hyps"(2) [OF False] by (cases n) (auto simp: less_SucI)
  qed (use 3 in \<open>auto simp: less_SucI\<close>)
qed simp

function b64_decode :: "string \<Rightarrow> string lua" where
  "b64_decode text =
     (if text = [] then Return []
      else case b64_quad 4 text of
             None \<Rightarrow> Raise ''Invalid base64 text''
           | Some (q, rest) \<Rightarrow>
               (case b64_bytes q of
                  Raise e \<Rightarrow> Raise e
                | Return out \<Rightarrow> (case b64_decode rest of Raise e \<Rightarrow> Raise e | Return out' \<Rightarrow> Return (out @ out'))))"
  by pat_completeness auto
termination
  by (relation "measure length") (auto dest: b64_quad_shorter simp: numeral_eq_Suc)

declare b64_decode.simps [simp del]

definition lb64decode :: "string \<Rightarrow> string lua option" where
  "lb64decode text = do { guard (length text < 2 ^ 31); Some (b64_decode text) }"

end
