(* ===== verification/CryptProps.thy ===== *)
theory CryptProps
  imports Crypt
begin

text \<open>
  Properties of \<open>lib/crypt/lua-crypt.c\<close>: hexadecimal and base64 text read back what was written, the
  multiplication and the power of the key exchange are those of the integers modulo \<open>P\<close>, and two
  partners with random keys compute the same secret.
\<close>

section \<open>Hexadecimal text\<close>

lemma HEX_digit:
  assumes "d < 16"
  shows "HEX (hex_lower d) = word_of_nat d"
proof -
  have "map HEX ''0123456789abcdef'' = map word_of_nat [0..<16]" by (simp add: HEX_def Let_def upt_conv_Cons)
  then have "map HEX ''0123456789abcdef'' ! d = map word_of_nat [0..<16] ! d" by simp
  then show ?thesis using assms by (simp add: hex_lower_def del: list.map)
qed

lemma nibbles_less: "unat (drop_bit 4 (byte c)) < 16" "unat (byte c AND 0xf) < 16"
proof -
  have "(0xf :: u32) = mask 4" by (simp add: mask_eq_exp_minus_1)
  then show "unat (byte c AND 0xf) < 16" by (simp only: unat_and_mask) simp
  show "unat (drop_bit 4 (byte c)) < 16" using byte_less [of c] by (simp add: drop_bit_eq_div unat_div_distrib)
qed

lemma hex_byte_digits: "hex_byte (hex_lower (unat (drop_bit 4 (byte c)))) (hex_lower (unat (byte c AND 0xf))) = Return c"
proof -
  let ?h = "drop_bit 4 (byte c)" and ?l = "byte c AND 0xf"
  have "HEX (hex_lower (unat ?h)) = ?h" "HEX (hex_lower (unat ?l)) = ?l"
    using HEX_digit [OF nibbles_less(1)] HEX_digit [OF nibbles_less(2)] by simp_all
  moreover have "\<not> 16 < ?h" "\<not> 16 < ?l" using nibbles_less [of c] by (simp_all add: word_less_nat_alt)
  moreover have "push_bit 4 ?h OR ?l = byte c"
  proof -
    have f: "(0xf :: u32) = mask 4" by (simp add: mask_eq_exp_minus_1)
    show ?thesis unfolding f by (rule bit_word_eqI) (auto simp: bit_simps)
  qed
  ultimately show ?thesis by (simp add: hex_byte_def Let_def)
qed

lemma hex_pairs_digits:
  "length text \<le> room \<Longrightarrow>
   hex_pairs (concat (map (\<lambda>c. [hex_lower (unat (drop_bit 4 (byte c))), hex_lower (unat (byte c AND 0xf))]) text)) room =
   Some (Return text)"
  by (induction "text" arbitrary: room) (simp_all add: hex_byte_digits)

text \<open>Hexadecimal text reads back as what was written if that has an even number of bytes;
  otherwise \<open>lfromhex\<close> refuses the text, since it tests the second bit of the size and not the first.\<close>

theorem hex_roundtrip:
  assumes "length text < 2 ^ 30"
  shows "\<exists>t. ltohex text = Some (Return t) \<and>
    lfromhex t = Some (if even (length text) then Return text
                       else Raise (''Invalid hex text size '' @ print_d (int (2 * length text))))"
proof -
  let ?t = "concat (map (\<lambda>c. [hex_lower (unat (drop_bit 4 (byte c))), hex_lower (unat (byte c AND 0xf))]) text)"
  have len: "length ?t = 2 * length text" by (induction "text") simp_all
  have "lfromhex ?t = Some (if even (length text) then Return text
      else Raise (''Invalid hex text size '' @ print_d (int (2 * length text))))"
    using assms unfolding lfromhex_def Let_def len by (auto simp: hex_pairs_digits)
  then show ?thesis using assms by (auto simp: ltohex_def)
qed

theorem hex_roundtrip_witness:
  "\<exists>t. ltohex ''hi'' = Some (Return t) \<and> lfromhex t = Some (Return ''hi'')"
  using hex_roundtrip [of "''hi''"] by simp

section \<open>Arithmetic modulo P\<close>

definition p :: nat where "p = 2 ^ 64 - 59"

lemma unat_P: "unat P = p"
  by (simp add: P_def p_def)

lemma p_pos [simp]: "0 < p" "p < 2 ^ 64"
  by (simp_all add: p_def)

lemma unat_minus_P: "unat a \<le> p \<Longrightarrow> unat (P - a) = p - unat a"
  by (simp add: unat_sub word_le_nat_alt unat_P)

lemma add_step:
  assumes "unat a < p" "unat m < p"
  shows "unat (if P - a \<le> m then m - (P - a) else m + a) = (unat m + unat a) mod p"
proof (cases "P - a \<le> m")
  case True
  then have le: "p \<le> unat m + unat a" using assms by (simp add: word_le_nat_alt unat_minus_P)
  have "unat (m - (P - a)) = unat m + unat a - p"
    using True assms le by (simp add: unat_sub unat_minus_P)
  then show ?thesis using True assms le by (simp add: mod_if)
next
  case False
  then have "unat m + unat a < p" using assms by (simp add: word_le_nat_alt unat_minus_P)
  moreover from this have "unat (m + a) = unat m + unat a"
    using p_pos(2) by (intro unat_add_lem [THEN iffD1]) simp
  ultimately show ?thesis using False by simp
qed

lemma double_step:
  assumes "unat a < p"
  shows "unat (if P - a \<le> a then a * 2 - P else a * 2) = (2 * unat a) mod p"
proof (cases "P - a \<le> a")
  case True
  then have le: "p \<le> 2 * unat a" using assms by (simp add: word_le_nat_alt unat_minus_P)
  have "a * 2 - P = word_of_nat (2 * unat a - p)"
    using le by (simp add: of_nat_diff unat_P [symmetric] mult.commute)
  moreover have "2 * unat a - p < 2 ^ 64" using assms p_pos(2) by linarith
  ultimately have "unat (a * 2 - P) = 2 * unat a - p" by (simp add: unat_of_nat)
  then show ?thesis using True assms le by (simp add: mod_if)
next
  case False
  then have "2 * unat a < p" using assms by (simp add: word_le_nat_alt unat_minus_P)
  moreover from this have "unat (a * 2) = unat a * 2"
    using p_pos(2) by (subst unat_mult_lem [THEN iffD1]) simp_all
  ultimately show ?thesis using False by simp
qed

lemma mul_loop_correct:
  "unat a < p \<Longrightarrow> unat m < p \<Longrightarrow> unat (mul_loop m a b) = (unat m + unat a * unat b) mod p"
proof (induction m a b rule: mul_loop.induct)
  case (1 m a b)
  show ?case
  proof (cases "b = 0")
    case False
    define m1 where "m1 = (if b AND 1 \<noteq> 0 then (let t = P - a in if t \<le> m then m - t else m + a) else m)"
    define a1 where "a1 = (if P - a \<le> a then a * 2 - P else a * 2)"
    have odd: "b AND 1 \<noteq> 0 \<longleftrightarrow> odd (unat b)" by (simp add: and_one_eq odd_iff_mod_2_eq_one unat_arith_simps)
    have m1: "unat m1 = (unat m + unat a * (unat b mod 2)) mod p"
      using add_step [OF "1.prems"] "1.prems" unfolding m1_def Let_def odd
      by (cases "odd (unat b)") (auto simp: odd_iff_mod_2_eq_one)
    have a1: "unat a1 = (2 * unat a) mod p" unfolding a1_def by (rule double_step [OF "1.prems"(1)])
    have "unat (mul_loop m a b) = unat (mul_loop m1 a1 (drop_bit 1 b))"
      using False by (subst mul_loop.simps) (simp add: m1_def a1_def)
    also have "\<dots> = (unat m1 + unat a1 * unat (drop_bit 1 b)) mod p"
      using "1.IH" [OF False, folded m1_def a1_def] m1 a1 by simp
    also have "unat (drop_bit 1 b) = unat b div 2" by (simp add: drop_bit_eq_div unat_div_distrib)
    also have "(unat m1 + unat a1 * (unat b div 2)) mod p =
        (unat m + unat a * (unat b mod 2) + 2 * unat a * (unat b div 2)) mod p"
      unfolding m1 a1 by (intro mod_add_cong) (simp_all only: mod_mult_left_eq mod_mod_trivial)
    also have "unat m + unat a * (unat b mod 2) + 2 * unat a * (unat b div 2) = unat m + unat a * (unat b mod 2 + 2 * (unat b div 2))"
      by (simp only: distrib_left mult.assoc [symmetric] mult.commute [of 2] add.assoc)
    finally show ?thesis by simp
  qed (use 1 in \<open>simp add: mul_loop.simps\<close>)
qed

lemma mul_mod_p_correct: "unat a < p \<Longrightarrow> unat (mul_mod_p a b) = unat a * unat b mod p"
  by (simp add: mul_mod_p_def mul_loop_correct)

lemma pow_mod_p_correct:
  "unat a < p \<Longrightarrow> b \<noteq> 0 \<Longrightarrow> \<exists>r. pow_mod_p a b = Some r \<and> unat r = unat a ^ unat b mod p"
proof (induction "unat b" arbitrary: b rule: less_induct)
  case less
  show ?case
  proof (cases "b = 1")
    case True
    then show ?thesis using less.prems by (subst pow_mod_p.simps) simp
  next
    case False
    let ?h = "drop_bit 1 b"
    have h: "unat ?h = unat b div 2" by (simp add: drop_bit_eq_div unat_div_distrib)
    have pos: "unat b \<noteq> 0" "unat b \<noteq> 1" using less.prems(2) False by (simp_all add: word_unat_eq_iff)
    then have ne: "?h \<noteq> 0" unfolding word_unat_eq_iff h by simp
    have "unat ?h < unat b" using pos h by simp
    from less.hyps [OF this less.prems(1) ne]
    obtain t where t: "pow_mod_p a ?h = Some t" "unat t = unat a ^ (unat b div 2) mod p" using h by auto
    let ?s = "mul_mod_p t t"
    have "unat t < p" using t(2) by simp
    then have s: "unat ?s = unat a ^ (unat b div 2 + unat b div 2) mod p"
      by (simp add: mul_mod_p_correct t(2) mod_mult_eq power_add)
    have odd: "b mod 2 \<noteq> 0 \<longleftrightarrow> odd (unat b)"
      unfolding word_unat_eq_iff unat_mod_distrib by (simp add: odd_iff_mod_2_eq_one)
    have "unat (if b mod 2 \<noteq> 0 then mul_mod_p ?s a else ?s) = unat a ^ unat b mod p"
    proof (cases "odd (unat b)")
      case True
      then have "unat b = Suc (unat b div 2 + unat b div 2)" by presburger
      then have "unat a ^ unat b = unat a ^ (unat b div 2 + unat b div 2) * unat a" by (metis power_Suc2)
      moreover have "unat ?s < p" using s by simp
      ultimately show ?thesis using True odd by (simp add: mul_mod_p_correct s mod_mult_left_eq)
    next
      case False
      then have "unat b = unat b div 2 + unat b div 2" by presburger
      then show ?thesis using False odd s by simp
    qed
    then show ?thesis using t(1) False by (subst pow_mod_p.simps) (simp add: Let_def)
  qed
qed

text \<open>C18. The power of the key exchange is the power of the integers modulo the prime \<open>P\<close>, for every
  positive exponent and every base but \<open>P\<close> itself (which is not reduced); in particular the
  recursion ends, and the doubling and adding on 64 bits never lose a carry.\<close>

theorem powmodp_is_power:
  assumes "b \<noteq> 0" and "a \<noteq> P"
  shows "\<exists>r. powmodp a b = Some r \<and> unat r = unat a ^ unat b mod (2 ^ 64 - 59)"
proof -
  let ?a = "if P < a then a mod P else a"
  have "unat ?a = unat a mod p"
  proof (cases "P < a")
    case True
    then show ?thesis by (simp add: unat_mod_distrib unat_P)
  next
    case False
    then have "unat a < p" using assms(2) by (simp add: unat_P [symmetric] word_less_nat_alt word_unat_eq_iff)
    then show ?thesis using False by simp
  qed
  then obtain r where "pow_mod_p ?a b = Some r" "unat r = (unat a mod p) ^ unat b mod p"
    using pow_mod_p_correct [of ?a b] assms(1) by auto
  then show ?thesis by (simp add: powmodp_def power_mod p_def)
qed

theorem powmodp_is_power_witness: "\<exists>r. powmodp 5 3 = Some r \<and> unat r = 125"
  using powmodp_is_power [of 3 5] by (simp add: P_def)

section \<open>Key exchange\<close>

lemma chr_cong: "take_bit 8 x = take_bit 8 y \<Longrightarrow> chr x = chr y"
  by (metis chr_take_bit)

lemma put_le_map: "put_le n = map (\<lambda>i. chr (drop_bit (8 * i) n AND 0xff)) [0..<4]"
  by (simp add: put_le_def numeral_eq_Suc)

lemma push64_halves: "push64 r = put_le (ucast r) @ put_le (ucast (drop_bit 32 r))"
proof -
  have ff: "(0xff :: u64) = mask 8" "(0xff :: u32) = mask 8" by (simp_all add: mask_eq_exp_minus_1)
  have lo: "chr (ucast (drop_bit (8 * i) r AND 0xff)) = chr (drop_bit (8 * i) (ucast r) AND 0xff)" if "i < 4" for i
    unfolding ff using that by (intro chr_cong bit_word_eqI) (auto simp: bit_simps)
  have hi: "chr (ucast (drop_bit (8 * (i + 4)) r AND 0xff)) = chr (drop_bit (8 * i) (ucast (drop_bit 32 r)) AND 0xff)" if "i < 4" for i
    unfolding ff using that by (intro chr_cong bit_word_eqI) (auto simp: bit_simps algebra_simps)
  have "[0..<8] = [0..<4] @ map (\<lambda>i. i + 4) [0..<4]" by (simp add: map_add_upt upt_add_eq_append [of 0 4 4, simplified])
  then have "push64 r = map (\<lambda>i. chr (ucast (drop_bit (8 * i) r AND 0xff))) [0..<4] @
      map (\<lambda>i. chr (ucast (drop_bit (8 * (i + 4)) r AND 0xff))) [0..<4]"
    unfolding push64_def by (simp only: map_append map_map comp_def)
  also have "\<dots> = put_le (ucast r) @ put_le (ucast (drop_bit 32 r))"
    unfolding put_le_map by (intro arg_cong2 [where f = append] map_cong refl) (simp_all only: lo hi set_upt atLeastLessThan_iff)
  finally show ?thesis .
qed

lemma dword_halves: "dword (ucast r, ucast (drop_bit 32 r)) = r"
  by (rule bit_word_eqI) (auto simp: dword_def bit_simps)

lemma halves_dword: "ucast (dword (a, b)) = a" "ucast (drop_bit 32 (dword (a, b))) = b"
  by (rule bit_word_eqI; auto simp: dword_def bit_simps dest: bit_imp_le_length)+

lemma read_push64: "length (push64 r) = 8" "dword (qword (push64 r)) = r"
  by (simp_all add: push64_halves qword_def dword_halves)

lemma push64_read:
  assumes "length x = 8"
  shows "push64 (dword (qword x)) = x"
proof -
  have "push64 (dword (qword x)) = put_le (get_le (take 4 x)) @ put_le (get_le (drop 4 x))"
    unfolding push64_halves qword_def by (simp add: halves_dword)
  then show ?thesis using assms by simp
qed

lemma dword_zero: "length x = 8 \<Longrightarrow> x \<noteq> replicate 8 NUL \<Longrightarrow> dword (qword x) \<noteq> 0"
proof
  assume "length x = 8" "x \<noteq> replicate 8 NUL" "dword (qword x) = 0"
  then have "x = push64 0" using push64_read by metis
  also have "push64 0 = replicate 8 NUL" by code_simp
  finally show False using \<open>x \<noteq> replicate 8 NUL\<close> by simp
qed

lemma lrandomkey_usable: "length (lrandomkey random) = 8" "lrandomkey random \<noteq> replicate 8 NUL"
proof -
  let ?tmp = "map (\<lambda>i. chr (random i AND 0xff)) [0..<8]"
  show "length (lrandomkey random) = 8" by (simp add: lrandomkey_def Let_def)
  have zero: "fold (\<lambda>c acc. acc XOR byte c) (replicate 8 NUL) 0 = 0" by code_simp
  have one: "chr (w OR 1) \<noteq> NUL" for w
  proof
    assume "chr (w OR 1) = NUL"
    then have "take_bit 8 (w OR 1) = byte NUL" using byte_chr [of "w OR 1"] by simp
    moreover have "byte NUL = 0" by (simp add: byte_def)
    ultimately have "\<not> bit (take_bit 8 (w OR 1)) 0" by simp
    then show False by (simp add: bit_simps)
  qed
  show "lrandomkey random \<noteq> replicate 8 NUL"
  proof (cases "fold (\<lambda>c acc. acc XOR byte c) ?tmp 0 = (0 :: u32)")
    case True
    then have "lrandomkey random ! 0 = chr (byte (?tmp ! 0) OR 1)" by (simp add: lrandomkey_def Let_def)
    then show ?thesis using one by (metis nth_replicate zero_less_numeral)
  qed (use zero in \<open>auto simp: lrandomkey_def Let_def\<close>)
qed

lemma coprime_power_mod: "5 ^ n mod p \<noteq> 0"
proof -
  have "p mod 5 = 2" by (simp add: p_def)
  then have "coprime 5 p" using coprime_mod_right_iff [of "5 :: nat" p] by (simp add: coprime_right_2_iff_odd)
  then have "coprime (5 ^ n) p" by simp
  moreover have "p \<noteq> 1" by (simp add: p_def)
  ultimately show ?thesis by (metis coprime_absorb_right dvd_eq_mod_eq_0 is_unit_gcd nat_dvd_1_iff_1)
qed

lemma exchange:
  assumes "length x = 8" "x \<noteq> replicate 8 NUL"
  shows "\<exists>r. ldhexchange x = Some (Return (push64 r)) \<and> unat r = 5 ^ unat (dword (qword x)) mod p"
proof -
  have nz: "dword (qword x) \<noteq> 0" using dword_zero [OF assms] .
  have "unat (5 :: u64) < p" by (simp add: p_def)
  then obtain r where "pow_mod_p 5 (dword (qword x)) = Some r" "unat r = 5 ^ unat (dword (qword x)) mod p"
    using pow_mod_p_correct [of 5 "dword (qword x)"] nz by auto
  then show ?thesis using assms(1) nz by (auto simp: ldhexchange_def powmodp_def P_def)
qed

lemma secret:
  assumes "length y = 8" "y \<noteq> replicate 8 NUL" "unat r = 5 ^ k mod p"
  shows "\<exists>s. ldhsecret (push64 r) y = Some (Return (push64 s)) \<and> unat s = 5 ^ (k * unat (dword (qword y))) mod p"
proof -
  have nz: "dword (qword y) \<noteq> 0" using dword_zero [OF assms(1,2)] .
  have r: "unat r < p" "r \<noteq> 0" using assms(3) coprime_power_mod [of k] by (auto simp: word_unat_eq_iff)
  obtain s where s: "pow_mod_p r (dword (qword y)) = Some s" "unat s = unat r ^ unat (dword (qword y)) mod p"
    using pow_mod_p_correct [OF r(1) nz] by auto
  have "\<not> P < r" using r(1) by (simp add: word_less_nat_alt unat_P)
  then have "ldhsecret (push64 r) y = Some (Return (push64 s))"
    using s(1) r(2) nz assms(1) read_push64 [of r] by (simp add: ldhsecret_def read64_def Let_def powmodp_def)
  moreover have "unat s = 5 ^ (k * unat (dword (qword y))) mod p"
    using s(2) assms(3) by (simp add: power_mod power_mult)
  ultimately show ?thesis by blast
qed

text \<open>Two partners agree on a secret: from any two results of \<open>lrandomkey\<close> each computes what it sends
  with \<open>ldhexchange\<close>, and \<open>ldhsecret\<close> of what the other sent and the own key gives both the same
  string; no call raises an error or fails to return.\<close>

theorem partners_agree:
  "\<exists>X Y s. ldhexchange (lrandomkey r1) = Some (Return X) \<and> ldhexchange (lrandomkey r2) = Some (Return Y) \<and>
     ldhsecret X (lrandomkey r2) = Some (Return s) \<and> ldhsecret Y (lrandomkey r1) = Some (Return s)"
proof -
  let ?x = "lrandomkey r1" and ?y = "lrandomkey r2"
  obtain a where a: "ldhexchange ?x = Some (Return (push64 a))" "unat a = 5 ^ unat (dword (qword ?x)) mod p"
    using exchange [OF lrandomkey_usable] by blast
  obtain b where b: "ldhexchange ?y = Some (Return (push64 b))" "unat b = 5 ^ unat (dword (qword ?y)) mod p"
    using exchange [OF lrandomkey_usable] by blast
  obtain s where s: "ldhsecret (push64 a) ?y = Some (Return (push64 s))"
    "unat s = 5 ^ (unat (dword (qword ?x)) * unat (dword (qword ?y))) mod p"
    using secret [OF lrandomkey_usable a(2)] by blast
  obtain t where t: "ldhsecret (push64 b) ?x = Some (Return (push64 t))"
    "unat t = 5 ^ (unat (dword (qword ?y)) * unat (dword (qword ?x))) mod p"
    using secret [OF lrandomkey_usable b(2)] by blast
  have "s = t" using s(2) t(2) by (simp add: word_unat_eq_iff mult.commute)
  then show ?thesis using a(1) b(1) s(1) t(1) by blast
qed

section \<open>Base64\<close>

lemma b64index_encoding:
  assumes "k < 64"
  shows "b64index (encoding k) = int k"
proof -
  let ?a = "''ABCDEFGHIJKLMNOPQRSTUVWXYZabcdefghijklmnopqrstuvwxyz0123456789+/''"
  have "map b64index ?a = map int [0..<64]" by (simp add: b64index_def decoding_def Let_def upt_conv_Cons)
  then have "map b64index ?a ! k = map int [0..<64] ! k" by simp
  then show ?thesis using assms by (simp add: encoding_def del: list.map)
qed

lemma b64index_pad: "b64index (CHR ''='') = - 2"
  by code_simp

lemma six_bits:
  fixes w :: u32
  shows "unat (w AND 0x3f) < 64" "(\<And>i. bit w i \<Longrightarrow> i < 6) \<Longrightarrow> unat w < 64"
proof -
  have m: "(0x3f :: u32) = mask 6" by (simp add: mask_eq_exp_minus_1)
  show *: "unat (w AND 0x3f) < 64" for w :: u32 unfolding m unat_and_mask by simp
  assume "\<And>i. bit w i \<Longrightarrow> i < 6"
  then have "w AND 0x3f = w" unfolding m by (intro bit_word_eqI) (auto simp: bit_simps)
  then show "unat w < 64" using * [of w] by simp
qed

lemma uint_not_pad: "uint w \<noteq> - 2" for w :: u32
  using unsigned_greater_eq [of w, where 'a = int] by linarith

lemma b64_bytes_codes:
  fixes a b c d :: u32
  shows "v = push_bit 18 a OR push_bit 12 b OR push_bit 6 c OR d \<Longrightarrow>
      b64_bytes [int (unat a), int (unat b), int (unat c), int (unat d)] =
      Return [chr (drop_bit 16 v), chr (drop_bit 8 v AND 0xff), chr (v AND 0xff)]"
    and "v = push_bit 10 a OR push_bit 4 b OR drop_bit 2 c \<Longrightarrow> c AND 3 = 0 \<Longrightarrow>
      b64_bytes [int (unat a), int (unat b), int (unat c), - 2] = Return [chr (drop_bit 8 v), chr (v AND 0xff)]"
    and "v = push_bit 2 a OR drop_bit 4 b \<Longrightarrow> b AND 0xf = 0 \<Longrightarrow>
      b64_bytes [int (unat a), int (unat b), - 2, - 2] = Return [chr v]"
  by (simp_all add: b64_bytes_def Let_def uint_not_pad)

lemma quad_codes:
  assumes "a < 64" "b < 64"
  shows "c < 64 \<Longrightarrow> d < 64 \<Longrightarrow>
      b64_quad 4 (encoding a # encoding b # encoding c # encoding d # rest) = Some ([int a, int b, int c, int d], rest)"
    and "c < 64 \<Longrightarrow> b64_quad 4 (encoding a # encoding b # encoding c # CHR ''='' # rest) = Some ([int a, int b, int c, - 2], rest)"
    and "b64_quad 4 (encoding a # encoding b # CHR ''='' # CHR ''='' # rest) = Some ([int a, int b, - 2, - 2], rest)"
  using assms by (simp_all add: numeral_eq_Suc b64index_encoding b64index_pad)

lemma group3:
  fixes x y z :: char
  defines "v \<equiv> push_bit 16 (byte x) OR push_bit 8 (byte y) OR byte z"
  shows "unat (drop_bit 18 v) < 64"
    and "b64_bytes [int (unat (drop_bit 18 v)), int (unat (drop_bit 12 v AND 0x3f)), int (unat (drop_bit 6 v AND 0x3f)),
      int (unat (v AND 0x3f))] = Return [x, y, z]"
proof -
  show "unat (drop_bit 18 v) < 64"
    unfolding v_def by (rule six_bits(2)) (auto simp: bit_simps dest!: bit_byte)
  have m: "(0x3f :: u32) = mask 6" by (simp add: mask_eq_exp_minus_1)
  have "push_bit 18 (drop_bit 18 v) OR push_bit 12 (drop_bit 12 v AND 0x3f) OR push_bit 6 (drop_bit 6 v AND 0x3f) OR (v AND 0x3f) = v"
  proof (rule bit_word_eqI)
    fix i assume "i < LENGTH(32)"
    then show "bit (push_bit 18 (drop_bit 18 v) OR push_bit 12 (drop_bit 12 v AND 0x3f) OR push_bit 6 (drop_bit 6 v AND 0x3f) OR (v AND 0x3f)) i = bit v i"
      unfolding m by (cases "i < 6"; cases "i < 12"; cases "i < 18") (auto simp: bit_simps)
  qed
  moreover have "chr (drop_bit 16 v) = x" "chr (drop_bit 8 v AND 0xff) = y" "chr (v AND 0xff) = z"
    using chr_of_parts(2-4) [of NUL x y z] unfolding low_byte chr_take_bit v_def by (simp_all add: byte_def [of NUL])
  ultimately show "b64_bytes [int (unat (drop_bit 18 v)), int (unat (drop_bit 12 v AND 0x3f)), int (unat (drop_bit 6 v AND 0x3f)),
      int (unat (v AND 0x3f))] = Return [x, y, z]"
    using b64_bytes_codes(1) [OF sym] by metis
qed

lemma group2:
  fixes x y :: char
  defines "v \<equiv> push_bit 8 (byte x) OR byte y"
  shows "unat (drop_bit 10 v) < 64" and "unat (push_bit 2 (v AND 0xf)) < 64"
    and "b64_bytes [int (unat (drop_bit 10 v)), int (unat (drop_bit 4 v AND 0x3f)), int (unat (push_bit 2 (v AND 0xf))), - 2] =
      Return [x, y]"
proof -
  have m: "(0x3f :: u32) = mask 6" "(0xf :: u32) = mask 4" "(3 :: u32) = mask 2" by (simp_all add: mask_eq_exp_minus_1)
  show "unat (drop_bit 10 v) < 64"
    unfolding v_def by (rule six_bits(2)) (auto simp: bit_simps dest!: bit_byte)
  show "unat (push_bit 2 (v AND 0xf)) < 64"
    unfolding m by (rule six_bits(2)) (auto simp: bit_simps)
  have "push_bit 10 (drop_bit 10 v) OR push_bit 4 (drop_bit 4 v AND 0x3f) OR drop_bit 2 (push_bit 2 (v AND 0xf)) = v"
  proof (rule bit_word_eqI)
    fix i assume "i < LENGTH(32)"
    then show "bit (push_bit 10 (drop_bit 10 v) OR push_bit 4 (drop_bit 4 v AND 0x3f) OR drop_bit 2 (push_bit 2 (v AND 0xf))) i = bit v i"
      unfolding m by (cases "i < 4"; cases "i < 10") (auto simp: bit_simps)
  qed
  moreover have "push_bit 2 (v AND 0xf) AND 3 = 0" unfolding m by (rule bit_word_eqI) (auto simp: bit_simps)
  moreover have "chr (drop_bit 8 v) = x" "chr (v AND 0xff) = y"
    using chr_of_parts(3,4) [of NUL NUL x y] unfolding low_byte chr_take_bit v_def by (simp_all add: byte_def [of NUL])
  ultimately show "b64_bytes [int (unat (drop_bit 10 v)), int (unat (drop_bit 4 v AND 0x3f)), int (unat (push_bit 2 (v AND 0xf))), - 2] =
      Return [x, y]"
    using b64_bytes_codes(2) [OF sym] by metis
qed

lemma group1:
  fixes x :: char
  defines "v \<equiv> byte x"
  shows "unat (drop_bit 2 v) < 64" and "unat (push_bit 4 (v AND 3)) < 64"
    and "b64_bytes [int (unat (drop_bit 2 v)), int (unat (push_bit 4 (v AND 3))), - 2, - 2] = Return [x]"
proof -
  have m: "(0xf :: u32) = mask 4" "(3 :: u32) = mask 2" by (simp_all add: mask_eq_exp_minus_1)
  show "unat (drop_bit 2 v) < 64"
    unfolding v_def by (rule six_bits(2)) (auto simp: bit_simps dest!: bit_byte)
  show "unat (push_bit 4 (v AND 3)) < 64"
    unfolding m by (rule six_bits(2)) (auto simp: bit_simps)
  have "push_bit 2 (drop_bit 2 v) OR drop_bit 4 (push_bit 4 (v AND 3)) = v"
  proof (rule bit_word_eqI)
    fix i assume "i < LENGTH(32)"
    show "bit (push_bit 2 (drop_bit 2 v) OR drop_bit 4 (push_bit 4 (v AND 3))) i = bit v i"
    proof (cases "i < 2")
      case False
      then obtain j where "i = j + 2" by (metis not_less le_add_diff_inverse2)
      then show ?thesis using \<open>i < LENGTH(32)\<close> unfolding m by (auto simp: bit_simps)
    qed (simp add: m bit_simps)
  qed
  moreover have "push_bit 4 (v AND 3) AND 0xf = 0" unfolding m by (rule bit_word_eqI) (auto simp: bit_simps)
  moreover have "chr v = x" by (simp add: v_def)
  ultimately show "b64_bytes [int (unat (drop_bit 2 v)), int (unat (push_bit 4 (v AND 3))), - 2, - 2] = Return [x]"
    using b64_bytes_codes(3) [OF sym] by metis
qed

lemma b64_decode_quad:
  "b64_quad 4 t = Some (q, rest) \<Longrightarrow> b64_bytes q = Return out \<Longrightarrow> b64_decode rest = Return out' \<Longrightarrow> b64_decode t = Return (out @ out')"
proof -
  have "b64_quad 4 [] = None" by (simp add: numeral_eq_Suc)
  then show "b64_quad 4 t = Some (q, rest) \<Longrightarrow> b64_bytes q = Return out \<Longrightarrow> b64_decode rest = Return out' \<Longrightarrow> ?thesis"
    by (cases "t = []") (simp_all add: b64_decode.simps [of t])
qed

lemma b64_decode_groups: "b64_decode (b64_groups s) = Return s"
proof (induction s rule: b64_groups.induct)
  case (1 x y z rest)
  let ?v = "push_bit 16 (byte x) OR push_bit 8 (byte y) OR byte z"
  have "b64_quad 4 (b64_groups (x # y # z # rest)) = Some ([int (unat (drop_bit 18 ?v)), int (unat (drop_bit 12 ?v AND 0x3f)),
      int (unat (drop_bit 6 ?v AND 0x3f)), int (unat (?v AND 0x3f))], b64_groups rest)"
    unfolding b64_groups.simps Let_def append_Cons append_Nil
    by (rule quad_codes(1)) (rule group3(1) six_bits(1))+
  from b64_decode_quad [OF this group3(2) 1 [OF refl]] show ?case by simp
next
  case (2 x)
  have "b64_quad 4 (b64_groups [x]) = Some ([int (unat (drop_bit 2 (byte x))), int (unat (push_bit 4 (byte x AND 3))), - 2, - 2], [])"
    unfolding b64_groups.simps Let_def by (rule quad_codes(3)) (rule group1)+
  from b64_decode_quad [OF this group1(3)] show ?case by (simp add: b64_decode.simps)
next
  case (3 x y)
  let ?v = "push_bit 8 (byte x) OR byte y"
  have "b64_quad 4 (b64_groups [x, y]) = Some ([int (unat (drop_bit 10 ?v)), int (unat (drop_bit 4 ?v AND 0x3f)),
      int (unat (push_bit 2 (?v AND 0xf))), - 2], [])"
    unfolding b64_groups.simps Let_def by (rule quad_codes(2)) (rule group2 six_bits(1))+
  from b64_decode_quad [OF this group2(3)] show ?case by (simp add: b64_decode.simps)
qed (simp add: b64_decode.simps)

lemma b64_groups_length: "length (b64_groups s) = (length s + 2) div 3 * 4"
proof (induction s rule: b64_groups.induct)
  case (1 x y z rest)
  have "(length rest + 5) div 3 = Suc ((length rest + 2) div 3)" by presburger
  then show ?case using 1 by (simp add: Let_def add.commute)
qed (simp_all add: Let_def)

text \<open>C32. Base64 reads back what it wrote, whatever the number of bytes modulo three, and the output
  has the length the buffer was made for.\<close>

theorem base64_roundtrip:
  assumes "(length text + 2) div 3 * 4 < 2 ^ 31"
  shows "\<exists>t. lb64encode text = Some (Return t) \<and> length t = (length text + 2) div 3 * 4 \<and> lb64decode t = Some (Return text)"
  using assms by (simp add: lb64encode_def lb64decode_def b64_decode_groups b64_groups_length)

theorem base64_roundtrip_witness:
  "\<exists>t. lb64encode ''hello'' = Some (Return t) \<and> length t = 8 \<and> lb64decode t = Some (Return ''hello'')"
  using base64_roundtrip [of "''hello''"] by simp

end
