(* ===== verification/Sha1.thy ===== *)
theory Sha1
  imports Bytes
begin

text \<open>
  \<open>lib/crypt/lsha1.c\<close>: SHA-1 with its streaming interface, on a little-endian machine with a 64-bit
  \<open>size_t\<close>, and the message authentication code built from it.
\<close>

record SHA1_CTX =
  ctx_state :: "u32 list"
  ctx_count :: "u32 \<times> u32"
  ctx_buffer :: string

definition SHA1_DIGEST_SIZE :: nat where "SHA1_DIGEST_SIZE = 20"

definition rol :: "u32 \<Rightarrow> nat \<Rightarrow> u32" where
  "rol v k = push_bit k v OR drop_bit (32 - k) v"

section \<open>One block\<close>

definition blk0 :: "nat \<Rightarrow> u32 list \<Rightarrow> u32 \<times> u32 list" where
  "blk0 i block =
     (let v = (rol (block ! i) 24 AND 0xFF00FF00) OR (rol (block ! i) 8 AND 0x00FF00FF) in (v, block[i := v]))"

definition blk :: "nat \<Rightarrow> u32 list \<Rightarrow> u32 \<times> u32 list" where
  "blk i block =
     (let v = rol (block ! ((i + 13) mod 16) XOR block ! ((i + 8) mod 16) XOR block ! ((i + 2) mod 16) XOR block ! (i mod 16)) 1
      in (v, block[i mod 16 := v]))"

type_synonym vars = "u32 \<times> u32 \<times> u32 \<times> u32 \<times> u32"

definition round_mix :: "nat \<Rightarrow> u32 \<Rightarrow> u32 \<Rightarrow> u32 \<Rightarrow> u32" where
  \<comment> \<open>the part of \<open>R0\<close>, \<open>R1\<close>, \<open>R2\<close>, \<open>R3\<close>, \<open>R4\<close> that mixes three variables\<close>
  "round_mix i w x y =
     (if i < 20 then (w AND (x XOR y)) XOR y
      else if i < 40 then w XOR x XOR y
      else if i < 60 then ((w OR x) AND y) OR (w AND x)
      else w XOR x XOR y)"

definition round_const :: "nat \<Rightarrow> u32" where
  "round_const i = (if i < 20 then 0x5A827999 else if i < 40 then 0x6ED9EBA1 else if i < 60 then 0x8F1BBCDC else 0xCA62C1D6)"

definition R :: "nat \<Rightarrow> vars \<times> u32 list \<Rightarrow> vars \<times> u32 list" where
  \<comment> \<open>the i-th call of the unrolled loop; the result lists the variables in the order of the next call\<close>
  "R i = (\<lambda>((v, w, x, y, z), block).
     let (W, block) = (if i < 16 then blk0 i block else blk i block);
         z = z + (round_mix i w x y + W + round_const i + rol v 5);
         w = rol w 30
     in ((z, v, w, x, y), block))"

definition words_of :: "string \<Rightarrow> u32 list" where
  "words_of buffer = map (\<lambda>i. get_le (take 4 (drop (4 * i) buffer))) [0..<16]"

definition SHA1_Transform :: "u32 list \<Rightarrow> string \<Rightarrow> u32 list" where
  "SHA1_Transform st buffer =
     (let ((a, b, c, d, e), block) = fold R [0..<80] ((st ! 0, st ! 1, st ! 2, st ! 3, st ! 4), words_of buffer)
      in [st ! 0 + a, st ! 1 + b, st ! 2 + c, st ! 3 + d, st ! 4 + e])"

section \<open>Streams\<close>

definition sat_SHA1_Init :: "SHA1_CTX \<Rightarrow> SHA1_CTX" where
  \<comment> \<open>the buffer is left as it is\<close>
  "sat_SHA1_Init ctx =
     ctx\<lparr>ctx_state := [0x67452301, 0xEFCDAB89, 0x98BADCFE, 0x10325476, 0xC3D2E1F0], ctx_count := (0, 0)\<rparr>"

fun transform_blocks :: "u32 list \<Rightarrow> string \<Rightarrow> u32 list \<times> string" where
  \<comment> \<open>the loop of \<open>sat_SHA1_Update\<close>; the bytes that are left\<close>
  "transform_blocks st data =
     (if length data < 64 then (st, data) else transform_blocks (SHA1_Transform st (take 64 data)) (drop 64 data))"

declare transform_blocks.simps [simp del]

definition store :: "string \<Rightarrow> nat \<Rightarrow> string \<Rightarrow> string" where
  "store buffer j data = take j buffer @ data @ drop (j + length data) buffer"

definition add_count :: "nat \<Rightarrow> u32 \<times> u32 \<Rightarrow> u32 \<times> u32" where
  \<comment> \<open>the comparison is made on 64 bits\<close>
  "add_count n = (\<lambda>(c0, c1).
     let len = word_of_nat n :: u64;
         c0 = c0 + ucast (push_bit 3 len);
         c1 = (if ucast c0 < push_bit 3 len then c1 + 1 else c1)
     in (c0, c1 + ucast (drop_bit 29 len)))"

definition sat_SHA1_Update :: "SHA1_CTX \<Rightarrow> string \<Rightarrow> SHA1_CTX" where
  "sat_SHA1_Update ctx data =
     (let j = unat (drop_bit 3 (fst (ctx_count ctx)) AND 63);
          ctx = ctx\<lparr>ctx_count := add_count (length data) (ctx_count ctx)\<rparr>
      in if 63 < j + length data then
           (let buffer = store (ctx_buffer ctx) j (take (64 - j) data);
                (st, rest) = transform_blocks (SHA1_Transform (ctx_state ctx) buffer) (drop (64 - j) data)
            in ctx\<lparr>ctx_state := st, ctx_buffer := store buffer 0 rest\<rparr>)
         else ctx\<lparr>ctx_buffer := store (ctx_buffer ctx) j data\<rparr>)"

partial_function (option) pad_loop :: "SHA1_CTX \<Rightarrow> SHA1_CTX option" where
  "pad_loop ctx = (if fst (ctx_count ctx) AND 504 \<noteq> 448 then pad_loop (sat_SHA1_Update ctx [NUL]) else Some ctx)"

declare pad_loop.simps [code]

definition sat_SHA1_Final :: "SHA1_CTX \<Rightarrow> string option" where
  \<comment> \<open>the context is wiped and not used again\<close>
  "sat_SHA1_Final ctx =
     (let finalcount = put_be (snd (ctx_count ctx)) @ put_be (fst (ctx_count ctx));
          ctx = sat_SHA1_Update ctx [CHR 0x80]
      in do {
        ctx \<leftarrow> pad_loop ctx;
        let ctx = sat_SHA1_Update ctx finalcount;
        Some (map (\<lambda>i. chr (drop_bit ((3 - i mod 4) * 8) (ctx_state ctx ! (i div 4)) AND 0xff)) [0..<SHA1_DIGEST_SIZE]) })"

section \<open>Functions for Lua\<close>

definition lsha1 :: "SHA1_CTX \<Rightarrow> string \<Rightarrow> string option" where
  \<comment> \<open>the first argument is the uninitialised context on the stack\<close>
  "lsha1 ctx data = sat_SHA1_Final (sat_SHA1_Update (sat_SHA1_Init ctx) data)"

definition BLOCKSIZE :: nat where "BLOCKSIZE = 64"

definition xor_key :: "string \<Rightarrow> u32 \<Rightarrow> string" where
  "xor_key key x = concat (map (\<lambda>i. put_le (get_le (take 4 (drop (4 * i) key)) XOR x)) [0..<BLOCKSIZE div 4])"

definition lhmac_sha1 :: "SHA1_CTX \<Rightarrow> SHA1_CTX \<Rightarrow> SHA1_CTX \<Rightarrow> string \<Rightarrow> string \<Rightarrow> string option" where
  "lhmac_sha1 ctx ctx1 ctx2 key data =
     do { rkey \<leftarrow> (if BLOCKSIZE < length key
                    then do { digest \<leftarrow> sat_SHA1_Final (sat_SHA1_Update (sat_SHA1_Init ctx) key);
                              Some (store (replicate BLOCKSIZE NUL) 0 digest) }
                    else Some (store (replicate BLOCKSIZE NUL) 0 key));
          let rkey = xor_key rkey 0x5c5c5c5c;
          let ctx1 = sat_SHA1_Update (sat_SHA1_Init ctx1) rkey;
          let rkey = xor_key rkey (0x5c5c5c5c XOR 0x36363636);
          let ctx2 = sat_SHA1_Update (sat_SHA1_Update (sat_SHA1_Init ctx2) rkey) data;
          digest2 \<leftarrow> sat_SHA1_Final ctx2;
          sat_SHA1_Final (sat_SHA1_Update ctx1 digest2) }"

end
