(* ===== verification/Sha1Props.thy ===== *)
theory Sha1Props
  imports Sha1
begin

text \<open>
  \<open>lsha1\<close> computes the SHA-1 of FIPS 180 and \<open>lhmac_sha1\<close> the HMAC of FIPS 198 over it: the circular
  schedule of sixteen words is the schedule of eighty, the streaming interface hashes the
  concatenation of what it was fed, and the padding is the one of the standard.
\<close>

section \<open>The standard\<close>

definition Ch :: "u32 \<Rightarrow> u32 \<Rightarrow> u32 \<Rightarrow> u32" where "Ch x y z = (x AND y) XOR (NOT x AND z)"
definition Parity :: "u32 \<Rightarrow> u32 \<Rightarrow> u32 \<Rightarrow> u32" where "Parity x y z = x XOR y XOR z"
definition Maj :: "u32 \<Rightarrow> u32 \<Rightarrow> u32 \<Rightarrow> u32" where "Maj x y z = (x AND y) XOR (x AND z) XOR (y AND z)"

definition f_t :: "nat \<Rightarrow> u32 \<Rightarrow> u32 \<Rightarrow> u32 \<Rightarrow> u32" where
  "f_t t = (if t < 20 then Ch else if t < 40 then Parity else if t < 60 then Maj else Parity)"

fun W :: "(nat \<Rightarrow> u32) \<Rightarrow> nat \<Rightarrow> u32" where
  "W M t = (if t < 16 then M t else rol (W M (t - 3) XOR W M (t - 8) XOR W M (t - 14) XOR W M (t - 16)) 1)"

declare W.simps [simp del]

definition sha_step :: "(nat \<Rightarrow> u32) \<Rightarrow> nat \<Rightarrow> vars \<Rightarrow> vars" where
  "sha_step w t = (\<lambda>(a, b, c, d, e). (rol a 5 + f_t t b c d + e + round_const t + w t, a, rol b 30, c, d))"

definition message_word :: "string \<Rightarrow> nat \<Rightarrow> u32" where
  "message_word block t = get_be (take 4 (drop (4 * t) block))"

definition sha_compress :: "u32 list \<Rightarrow> string \<Rightarrow> u32 list" where
  "sha_compress H block =
     (let (a, b, c, d, e) = fold (sha_step (W (message_word block))) [0..<80] (H ! 0, H ! 1, H ! 2, H ! 3, H ! 4)
      in [H ! 0 + a, H ! 1 + b, H ! 2 + c, H ! 3 + d, H ! 4 + e])"

fun sha_blocks :: "u32 list \<Rightarrow> string \<Rightarrow> u32 list \<times> string" where
  "sha_blocks H m = (if length m < 64 then (H, m) else sha_blocks (sha_compress H (take 64 m)) (drop 64 m))"

declare sha_blocks.simps [simp del]

definition H0 :: "u32 list" where
  "H0 = [0x67452301, 0xEFCDAB89, 0x98BADCFE, 0x10325476, 0xC3D2E1F0]"

definition be64 :: "nat \<Rightarrow> string" where
  "be64 n = put_be (word_of_nat (n div 2 ^ 32)) @ put_be (word_of_nat n)"

definition sha_padding :: "nat \<Rightarrow> string" where
  \<comment> \<open>for a message of so many bytes: a one bit, zeros, and the length in bits\<close>
  "sha_padding n = CHR 0x80 # replicate ((119 - n mod 64) mod 64) NUL @ be64 (8 * n)"

definition sha1 :: "string \<Rightarrow> string" where
  "sha1 m = concat (map put_be (fst (sha_blocks H0 (m @ sha_padding (length m)))))"

definition xor_bytes :: "string \<Rightarrow> char \<Rightarrow> string" where
  "xor_bytes key x = map (\<lambda>c. chr (byte c XOR byte x)) key"

definition hmac_standard :: "(string \<Rightarrow> string) \<Rightarrow> string \<Rightarrow> string \<Rightarrow> string" where
  "hmac_standard H key m =
     (let k = (if 64 < length key then H key else key); k0 = k @ replicate (64 - length k) NUL
      in H (xor_bytes k0 (CHR 0x5c) @ H (xor_bytes k0 (CHR 0x36) @ m)))"

section \<open>One block\<close>

lemma mix_standard: "round_mix t w x y = f_t t w x y"
proof -
  have "(w AND (x XOR y)) XOR y = Ch w x y" "((w OR x) AND y) OR (w AND x) = Maj w x y"
    by (rule bit_word_eqI; auto simp: Ch_def Maj_def bit_simps)+
  then show ?thesis by (simp add: round_mix_def f_t_def Parity_def)
qed

lemma byte_swap:
  assumes "length b = 4"
  shows "(rol (get_le b) 24 AND 0xFF00FF00) OR (rol (get_le b) 8 AND 0x00FF00FF) = get_be b"
proof -
  have m: "(0x00FF00FF :: u32) = mask 8 OR push_bit 16 (mask 8)" "(0xFF00FF00 :: u32) = push_bit 8 (mask 8) OR push_bit 24 (mask 8)"
    by (simp_all add: mask_eq_exp_minus_1)
  show ?thesis
  proof (rule bit_word_eqI)
    fix i assume "i < LENGTH(32)"
    then show "bit ((rol (get_le b) 24 AND 0xFF00FF00) OR (rol (get_le b) 8 AND 0x00FF00FF)) i = bit (get_be b) i"
      unfolding m rol_def get_le_def get_be_def
      by (cases "i < 8"; cases "i < 16"; cases "i < 24") (simp_all add: bit_simps no_high_bit less_diff_conv2 not_less)
  qed
qed

definition window :: "string \<Rightarrow> nat \<Rightarrow> u32 list \<Rightarrow> bool" where
  \<comment> \<open>what the sixteen words hold before step \<open>i\<close>\<close>
  "window buffer i block \<longleftrightarrow> length block = 16 \<and>
     (\<forall>t. t < i \<and> i \<le> t + 16 \<longrightarrow> block ! (t mod 16) = W (message_word buffer) t) \<and>
     (\<forall>t. i \<le> t \<and> t < 16 \<longrightarrow> block ! t = get_le (take 4 (drop (4 * t) buffer)))"

lemma window_start: "window buffer 0 (words_of buffer)"
  by (simp add: window_def words_of_def)

lemma window_update:
  assumes "window buffer i block" "v = W (message_word buffer) i"
  shows "window buffer (Suc i) (block[i mod 16 := v])"
proof -
  have "block[i mod 16 := v] ! (t mod 16) = W (message_word buffer) t" if "t < Suc i" "Suc i \<le> t + 16" for t
  proof (cases "t = i")
    case False
    then have "\<not> 16 dvd i - t" using that by (intro nat_dvd_not_less) simp_all
    then have "t mod 16 \<noteq> i mod 16" using that(1) mod_eq_dvd_iff_nat [of t i 16] by auto
    then show ?thesis using assms that False by (simp add: window_def)
  qed (use assms in \<open>simp add: window_def\<close>)
  moreover have "block[i mod 16 := v] ! t = get_le (take 4 (drop (4 * t) buffer))" if "Suc i \<le> t" "t < 16" for t
    using assms that by (simp add: window_def)
  ultimately show ?thesis using assms by (simp add: window_def)
qed

lemma schedule_step:
  assumes "window buffer i block" "length buffer = 64"
  shows "(if i < 16 then blk0 i block else blk i block) = (W (message_word buffer) i, block[i mod 16 := W (message_word buffer) i])"
proof (cases "i < 16")
  case True
  then have "block ! i = get_le (take 4 (drop (4 * i) buffer))" using assms(1) by (simp add: window_def)
  then have "(rol (block ! i) 24 AND 0xFF00FF00) OR (rol (block ! i) 8 AND 0x00FF00FF) = message_word buffer i"
    using byte_swap [of "take 4 (drop (4 * i) buffer)"] True assms(2) by (simp add: message_word_def)
  then show ?thesis using True by (simp add: blk0_def Let_def W.simps)
next
  case False
  have "block ! ((i + 13) mod 16) = W (message_word buffer) (i - 3)" "block ! ((i + 8) mod 16) = W (message_word buffer) (i - 8)"
    "block ! ((i + 2) mod 16) = W (message_word buffer) (i - 14)" "block ! (i mod 16) = W (message_word buffer) (i - 16)"
  proof -
    have at: "block ! (t mod 16) = W (message_word buffer) t" if "t < i" "i \<le> t + 16" for t
      using assms(1) that by (simp add: window_def)
    have "i + 13 = (i - 3) + 16" "i + 8 = (i - 8) + 16" "i + 2 = (i - 14) + 16" "i = (i - 16) + 16" using False by simp_all
    then have e: "(i + 13) mod 16 = (i - 3) mod 16" "(i + 8) mod 16 = (i - 8) mod 16" "(i + 2) mod 16 = (i - 14) mod 16"
      "i mod 16 = (i - 16) mod 16"
      by (metis mod_add_self2)+
    show "block ! ((i + 13) mod 16) = W (message_word buffer) (i - 3)" unfolding e(1) by (rule at) (use False in simp_all)
    show "block ! ((i + 8) mod 16) = W (message_word buffer) (i - 8)" unfolding e(2) by (rule at) (use False in simp_all)
    show "block ! ((i + 2) mod 16) = W (message_word buffer) (i - 14)" unfolding e(3) by (rule at) (use False in simp_all)
    show "block ! (i mod 16) = W (message_word buffer) (i - 16)" unfolding e(4) by (rule at) (use False in simp_all)
  qed
  then show ?thesis using False by (simp add: blk_def Let_def W.simps [of _ i])
qed

lemma rounds_standard:
  assumes "length buffer = 64"
  shows "fst (fold R [0..<n] (vs, words_of buffer)) = fold (sha_step (W (message_word buffer))) [0..<n] vs \<and>
    window buffer n (snd (fold R [0..<n] (vs, words_of buffer)))"
proof (induction n)
  case (Suc n)
  obtain v w x y z block where f: "fold R [0..<n] (vs, words_of buffer) = ((v, w, x, y, z), block)" by (metis prod.exhaust)
  then have IH: "fold (sha_step (W (message_word buffer))) [0..<n] vs = (v, w, x, y, z)" "window buffer n block" using Suc by simp_all
  have "R n ((v, w, x, y, z), block) =
      (sha_step (W (message_word buffer)) n (v, w, x, y, z), block[n mod 16 := W (message_word buffer) n])"
    using schedule_step [OF IH(2) assms] by (simp add: R_def Let_def mix_standard sha_step_def ac_simps)
  then show ?case using window_update [OF IH(2) refl] f IH(1) by simp
qed (simp add: window_start)

lemma transform_standard: "length buffer = 64 \<Longrightarrow> SHA1_Transform H buffer = sha_compress H buffer"
  using rounds_standard [of buffer 80 "(H ! 0, H ! 1, H ! 2, H ! 3, H ! 4)"]
  by (auto simp: SHA1_Transform_def sha_compress_def split: prod.splits)

section \<open>Streams\<close>

lemma blocks_standard: "transform_blocks H m = sha_blocks H m"
proof (induction H m rule: sha_blocks.induct)
  case (1 H m)
  then show ?case
    by (cases "length m < 64") (simp_all add: transform_blocks.simps [of H m] sha_blocks.simps [of H m] transform_standard)
qed

lemma sha_blocks_append: "sha_blocks H (m @ d) = (let (H', r) = sha_blocks H m in sha_blocks H' (r @ d))"
proof (induction H m rule: sha_blocks.induct)
  case (1 H m)
  then show ?case
    by (cases "length m < 64") (simp_all add: sha_blocks.simps [of H m] sha_blocks.simps [of H "m @ d"])
qed

lemma sha_blocks_full: "64 \<le> length m \<Longrightarrow> sha_blocks H m = sha_blocks (sha_compress H (take 64 m)) (drop 64 m)"
  by (subst sha_blocks.simps) simp

lemma sha_blocks_rest: "length (snd (sha_blocks H m)) = length m mod 64"
proof (induction H m rule: sha_blocks.induct)
  case (1 H m)
  then show ?case
    by (cases "length m < 64") (simp_all add: sha_blocks.simps [of H m] le_mod_geq)
qed

definition count_ok :: "nat \<Rightarrow> u32 \<times> u32 \<Rightarrow> bool" where
  "count_ok n c \<longleftrightarrow> fst c = word_of_nat (8 * n) \<and> snd c = word_of_nat (8 * n div 2 ^ 32)"

lemma carry_nat:
  fixes k m n :: nat
  assumes "k < m"
  shows "((n + k) mod m < k) = (m \<le> n mod m + k)" "(n + k) div m = n div m + (if m \<le> n mod m + k then 1 else 0)"
proof -
  have n: "n + k = n div m * m + (n mod m + k)" by simp
  have lt: "n mod m < m" using assms by simp
  then have sum: "n mod m + k - m < m" "m \<le> n mod m + k \<Longrightarrow> n mod m + k - m < k" using assms by linarith+
  have "(n + k) mod m = (n mod m + k) mod m" "(n + k) div m = n div m + (n mod m + k) div m"
    using assms by (simp add: mod_add_left_eq) (metis n assms add.commute div_mult_self1 not_less_zero)
  moreover have "(n mod m + k) mod m = (if m \<le> n mod m + k then n mod m + k - m else n mod m + k)"
    using sum(1) by (simp add: le_mod_geq)
  moreover have "(n mod m + k) div m = (if m \<le> n mod m + k then 1 else 0)"
    using sum(1) assms by (simp add: le_div_geq)
  ultimately show "((n + k) mod m < k) = (m \<le> n mod m + k)" "(n + k) div m = n div m + (if m \<le> n mod m + k then 1 else 0)"
    using sum(2) by (auto split: if_splits)
qed

lemma add_count_ok:
  assumes "count_ok n c" "k < 2 ^ 29"
  shows "count_ok (n + k) (add_count k c)"
proof -
  obtain c0 c1 where c: "c = (c0, c1)" by fastforce
  have len: "unat (push_bit 3 (word_of_nat k :: u64)) = 8 * k"
    using assms(2) by (simp add: push_bit_eq_mult unat_mult_lem [THEN iffD1] unat_of_nat)
  have top: "drop_bit 29 (word_of_nat k :: u64) = 0"
  proof -
    have "unat (drop_bit 29 (word_of_nat k :: u64)) = 0"
      using assms(2) by (simp only: unat_drop_bit_eq) (simp add: drop_bit_eq_div unat_of_nat)
    then show ?thesis by (simp only: word_unat_eq_iff unat_0)
  qed
  let ?c0 = "word_of_nat (8 * (n + k)) :: u32"
  have c0: "c0 + ucast (push_bit 3 (word_of_nat k :: u64)) = ?c0"
  proof -
    have "ucast (push_bit 3 (word_of_nat k :: u64)) = (word_of_nat (8 * k) :: u32)"
      using of_nat_unat [where 'a = "32 word", of "push_bit 3 (word_of_nat k :: u64)"] by (simp only: len)
    then show ?thesis using assms(1) c by (simp add: count_ok_def distrib_left)
  qed
  have u: "unat ?c0 = 8 * (n + k) mod 2 ^ 32" by (simp only: unat_of_nat) simp
  have "unat (ucast ?c0 :: u64) = unat ?c0"
  proof -
    have "unat ?c0 < 2 ^ LENGTH(64)" by (rule less_trans [OF unat_less_u32]) simp
    then show ?thesis using of_nat_unat [where 'a = "64 word", of ?c0] by (metis mod_less unat_of_nat)
  qed
  then have carry: "(ucast ?c0 :: u64) < push_bit 3 (word_of_nat k) \<longleftrightarrow> 8 * (n + k) mod 2 ^ 32 < 8 * k"
    by (simp only: word_less_nat_alt len u)
  have "(8 * (n + k) mod 2 ^ 32 < 8 * k) = (2 ^ 32 \<le> 8 * n mod 2 ^ 32 + 8 * k)"
    "8 * (n + k) div 2 ^ 32 = 8 * n div 2 ^ 32 + (if 2 ^ 32 \<le> 8 * n mod 2 ^ 32 + 8 * k then 1 else 0)"
    using carry_nat [of "8 * k" "2 ^ 32" "8 * n"] assms(2) by (simp_all add: distrib_left)
  then have "(if (ucast ?c0 :: u64) < push_bit 3 (word_of_nat k) then c1 + 1 else c1) = word_of_nat (8 * (n + k) div 2 ^ 32)"
    using assms(1) c carry by (simp add: count_ok_def)
  then show ?thesis unfolding c add_count_def count_ok_def prod.case Let_def c0 top by simp
qed

text \<open>A context stands for the bytes it has been fed.\<close>

definition fed :: "SHA1_CTX \<Rightarrow> string \<Rightarrow> bool" where
  "fed ctx m \<longleftrightarrow> length (ctx_buffer ctx) = 64 \<and> count_ok (length m) (ctx_count ctx) \<and>
     fst (sha_blocks H0 m) = ctx_state ctx \<and> take (length m mod 64) (ctx_buffer ctx) = snd (sha_blocks H0 m)"

lemma position:
  assumes "count_ok n c"
  shows "unat (drop_bit 3 (fst c) AND 63) = n mod 64" "fst c AND 504 = 448 \<longleftrightarrow> n mod 64 = 56"
proof -
  have m: "(63 :: u32) = mask 6" "(504 :: u32) = push_bit 3 (mask 6)" by (simp_all add: mask_eq_exp_minus_1)
  have "unat (fst c) = 8 * n mod 2 ^ 32" using assms unfolding count_ok_def by (simp only: unat_of_nat) simp
  moreover have "8 * n mod 2 ^ 32 div 8 mod 64 = n mod 64"
  proof -
    have "8 * n mod 2 ^ 32 = 8 * (n mod 2 ^ 29)" using mult_mod_right [of 8 n "2 ^ 29"] by simp
    then have "8 * n mod 2 ^ 32 div 8 = n mod 2 ^ 29" by simp
    then show ?thesis by (simp add: mod_mod_cancel)
  qed
  ultimately show low: "unat (drop_bit 3 (fst c) AND 63) = n mod 64"
    unfolding m unat_and_mask unat_drop_bit_eq by (simp add: drop_bit_eq_div)
  have "fst c AND 504 = push_bit 3 (drop_bit 3 (fst c) AND 63)"
    unfolding m by (rule bit_word_eqI) (auto simp: bit_simps)
  moreover have "push_bit 3 x = 448 \<longleftrightarrow> x = 56" if "unat x < 64" for x :: u32
  proof -
    have "unat (push_bit 3 x) = 8 * unat x" using that by (simp add: push_bit_eq_mult unat_mult_lem [THEN iffD1])
    then show ?thesis unfolding word_unat_eq_iff by simp
  qed
  moreover have "unat (drop_bit 3 (fst c) AND 63) < 64" unfolding low by simp
  ultimately have "fst c AND 504 = 448 \<longleftrightarrow> drop_bit 3 (fst c) AND 63 = 56" by metis
  then show "fst c AND 504 = 448 \<longleftrightarrow> n mod 64 = 56" unfolding word_unat_eq_iff low by simp
qed

lemma fed_init: "length (ctx_buffer ctx) = 64 \<Longrightarrow> fed (sat_SHA1_Init ctx) []"
  by (simp add: fed_def sat_SHA1_Init_def count_ok_def sha_blocks.simps H0_def)

lemma store_shape:
  assumes "j + length d \<le> length b"
  shows "length (store b j d) = length b" "take (j + length d) (store b j d) = take j b @ d"
  using assms by (simp_all add: store_def)

lemma fed_update:
  assumes "fed ctx m" "length d < 2 ^ 29"
  shows "fed (sat_SHA1_Update ctx d) (m @ d)"
proof -
  obtain H r where hr: "sha_blocks H0 m = (H, r)" by fastforce
  have r: "length r = length m mod 64" using sha_blocks_rest [of H0 m] hr by simp
  have f: "length (ctx_buffer ctx) = 64" "count_ok (length m) (ctx_count ctx)" "ctx_state ctx = H" "take (length r) (ctx_buffer ctx) = r"
    using assms(1) hr r by (simp_all add: fed_def)
  note j = position(1) [OF f(2), folded r]
  have lr: "length r < 64" using r by simp
  have c: "count_ok (length (m @ d)) (add_count (length d) (ctx_count ctx))"
    using add_count_ok [OF f(2) assms(2)] by simp
  have all: "sha_blocks H0 (m @ d) = sha_blocks H (r @ d)" unfolding sha_blocks_append [of H0 m d] hr by simp
  show ?thesis
  proof (cases "63 < length r + length d")
    case True
    let ?k = "64 - length r"
    let ?b = "store (ctx_buffer ctx) (length r) (take ?k d)"
    have b: "?b = r @ take ?k d" "length ?b = 64" using True lr f by (simp_all add: store_def)
    obtain st rest where s: "transform_blocks (SHA1_Transform H ?b) (drop ?k d) = (st, rest)" by fastforce
    have "sha_blocks H (r @ d) = sha_blocks (sha_compress H (take 64 (r @ d))) (drop 64 (r @ d))"
      using True by (intro sha_blocks_full) simp
    also have "take 64 (r @ d) = ?b" using b lr by simp
    also have "drop 64 (r @ d) = drop ?k d" using lr by simp
    finally have e: "sha_blocks H0 (m @ d) = (st, rest)"
      using s all by (simp add: blocks_standard transform_standard [OF b(2)])
    have rest: "length rest = length (m @ d) mod 64" using sha_blocks_rest [of H0 "m @ d"] e by simp
    have "sat_SHA1_Update ctx d = ctx\<lparr>ctx_count := add_count (length d) (ctx_count ctx), ctx_state := st, ctx_buffer := store ?b 0 rest\<rparr>"
      using True s f(3) j by (simp add: sat_SHA1_Update_def Let_def)
    moreover have "length (store ?b 0 rest) = 64" "take (length rest) (store ?b 0 rest) = rest"
      using store_shape [of 0 rest ?b] b(2) rest by (simp_all add: less_imp_le)
    ultimately show ?thesis using c e rest by (simp add: fed_def)
  next
    case False
    then have e: "sha_blocks H0 (m @ d) = (H, r @ d)" using all by (simp add: sha_blocks.simps [of H "r @ d"])
    have rest: "length (r @ d) = length (m @ d) mod 64" using sha_blocks_rest [of H0 "m @ d"] e by simp
    have "sat_SHA1_Update ctx d = ctx\<lparr>ctx_count := add_count (length d) (ctx_count ctx), ctx_buffer := store (ctx_buffer ctx) (length r) d\<rparr>"
      using False j by (simp add: sat_SHA1_Update_def Let_def)
    moreover have "length (store (ctx_buffer ctx) (length r) d) = 64" "take (length (r @ d)) (store (ctx_buffer ctx) (length r) d) = r @ d"
      using store_shape [of "length r" d "ctx_buffer ctx"] False f(1,4) by simp_all
    ultimately show ?thesis using c e rest f(3) by (simp add: fed_def)
  qed
qed

section \<open>Padding\<close>

lemma zeros:
  fixes r :: nat
  assumes "r < 64"
  shows "(120 - r) mod 64 = (if r \<le> 56 then 56 - r else 120 - r)"
proof (cases "r \<le> 56")
  case True
  then have "120 - r = (56 - r) + 64" by simp
  then have "(120 - r) mod 64 = (56 - r) mod 64" by (metis mod_add_self2)
  then show ?thesis using True by simp
qed (use assms in simp)

lemma zeros_Suc:
  fixes r :: nat
  assumes "r < 64" "r \<noteq> 56" "Suc k = (120 - r) mod 64"
  shows "k = (120 - (if Suc r = 64 then 0 else Suc r)) mod 64"
proof (cases "Suc r = 64")
  case True
  then have "r = 63" by simp
  then show ?thesis using assms(3) by simp
next
  case False
  then show ?thesis using assms zeros [of r] zeros [of "Suc r"] by (auto split: if_splits)
qed

lemma pad_loop_fed:
  assumes "fed ctx m"
  shows "\<exists>ctx'. pad_loop ctx = Some ctx' \<and> fed ctx' (m @ replicate ((120 - length m mod 64) mod 64) NUL)"
  using assms
proof (induction "(120 - length m mod 64) mod 64" arbitrary: ctx m)
  case 0
  have "length m mod 64 = 56" using 0(1) zeros [of "length m mod 64"] by (simp split: if_splits)
  then have "fst (ctx_count ctx) AND 504 = 448" using position(2) [of "length m" "ctx_count ctx"] 0(2) by (simp add: fed_def)
  then show ?case using 0 by (subst pad_loop.simps) simp
next
  case (Suc k)
  have lt: "length m mod 64 < 64" by simp
  have ne: "length m mod 64 \<noteq> 56" using Suc(2) by auto
  have k: "k = (120 - length (m @ [NUL]) mod 64) mod 64"
    using zeros_Suc [OF lt ne Suc(2)] by (simp only: length_append length_Cons list.size(3) add_Suc_right add_0_right mod_Suc)
  have "fst (ctx_count ctx) AND 504 \<noteq> 448" using Suc(3) ne position(2) [of "length m" "ctx_count ctx"] by (simp add: fed_def)
  moreover have "fed (sat_SHA1_Update ctx [NUL]) (m @ [NUL])" by (rule fed_update [OF Suc(3)]) simp
  from Suc(1) [OF k this] obtain ctx' where "pad_loop (sat_SHA1_Update ctx [NUL]) = Some ctx'"
    "fed ctx' ((m @ [NUL]) @ replicate k NUL)" unfolding k [symmetric] by blast
  ultimately show ?case unfolding Suc(2) [symmetric] by (subst pad_loop.simps) simp
qed

lemma digest_bytes:
  assumes "length st = 5"
  shows "map (\<lambda>i. chr (drop_bit ((3 - i mod 4) * 8) (st ! (i div 4)) AND 0xff)) [0..<SHA1_DIGEST_SIZE] = concat (map put_be st)"
proof -
  obtain a b c d e where "st = [a, b, c, d, e]"
    using assms by (auto simp: numeral_eq_Suc length_Suc_conv)
  then show ?thesis by (simp add: SHA1_DIGEST_SIZE_def put_be_def upt_conv_Cons low_byte)
qed

lemma sha_blocks_state: "length H = 5 \<Longrightarrow> length (fst (sha_blocks H m)) = 5"
proof (induction H m rule: sha_blocks.induct)
  case (1 H m)
  have "length (sha_compress H b) = 5" for b by (simp add: sha_compress_def split: prod.splits)
  then show ?case using 1 by (cases "length m < 64") (simp_all add: sha_blocks.simps [of H m])
qed

lemma fed_final:
  assumes "fed ctx m"
  shows "sat_SHA1_Final ctx = Some (sha1 m)"
proof -
  let ?c = "put_be (snd (ctx_count ctx)) @ put_be (fst (ctx_count ctx))"
  have c: "?c = be64 (8 * length m)" using assms by (simp add: fed_def count_ok_def be64_def)
  have "fed (sat_SHA1_Update ctx [CHR 0x80]) (m @ [CHR 0x80])" by (rule fed_update [OF assms]) simp
  from pad_loop_fed [OF this] obtain ctx' where p: "pad_loop (sat_SHA1_Update ctx [CHR 0x80]) = Some ctx'"
    "fed ctx' ((m @ [CHR 0x80]) @ replicate ((120 - length (m @ [CHR 0x80]) mod 64) mod 64) NUL)" by blast
  have "(120 - length (m @ [CHR 0x80]) mod 64) mod 64 = (119 - length m mod 64) mod 64"
  proof -
    have "Suc (length m) mod 64 = (if Suc (length m mod 64) = 64 then 0 else Suc (length m mod 64))" by (rule mod_Suc)
    moreover have "120 - 63 = (56 :: nat) + 1" by simp
    ultimately show ?thesis by (cases "length m mod 64 = 63") simp_all
  qed
  moreover have "length ?c = 8" by simp
  ultimately have "fed (sat_SHA1_Update ctx' ?c) (m @ sha_padding (length m))"
    using fed_update [OF p(2), of ?c] by (simp add: sha_padding_def c)
  then have "ctx_state (sat_SHA1_Update ctx' ?c) = fst (sha_blocks H0 (m @ sha_padding (length m)))" by (simp add: fed_def)
  moreover have "length (fst (sha_blocks H0 (m @ sha_padding (length m)))) = 5" by (rule sha_blocks_state) (simp add: H0_def)
  ultimately show ?thesis using p(1) digest_bytes by (simp add: sat_SHA1_Final_def Let_def sha1_def)
qed



section \<open>Authentication codes\<close>

lemma xor_four:
  assumes "length b = 4" "w = get_le [x, x, x, x]"
  shows "put_le (get_le b XOR w) = xor_bytes b x"
proof -
  obtain p q r s where b: "b = [p, q, r, s]" using assms(1) by (auto simp: numeral_eq_Suc length_Suc_conv)
  have "get_le b XOR w = get_le (xor_bytes b x)"
  proof (rule bit_word_eqI)
    fix i assume "i < LENGTH(32)"
    then show "bit (get_le b XOR w) i = bit (get_le (xor_bytes b x)) i"
      unfolding b assms(2) get_le_def xor_bytes_def
      by (cases "i < 8"; cases "i < 16"; cases "i < 24") (simp_all add: byte_chr bit_simps no_high_bit less_diff_conv2 not_less)
  qed
  then show ?thesis using assms(1) by (simp add: xor_bytes_def)
qed

lemma map_chunks:
  assumes "length key = 64" "\<And>b. length b = 4 \<Longrightarrow> g b = map f b"
  shows "concat (map (\<lambda>i. g (take 4 (drop (4 * i) key))) [0..<16]) = map f key"
proof -
  have "concat (map (\<lambda>i. g (take 4 (drop (4 * i) key))) [0..<n]) = map f (take (4 * n) key)" if "n \<le> 16" for n
    using that
  proof (induction n)
    case (Suc n)
    have "take (4 * Suc n) key = take (4 * n) key @ take 4 (drop (4 * n) key)" by (simp add: take_add [symmetric] add.commute)
    then show ?case using Suc assms by simp
  qed simp
  from this [of 16] show ?thesis using assms(1) by simp
qed

lemma xor_key_bytes:
  assumes "length key = 64" "w = get_le [x, x, x, x]"
  shows "xor_key key w = xor_bytes key x"
  unfolding xor_key_def BLOCKSIZE_def xor_bytes_def
  using map_chunks [OF assms(1), of "\<lambda>b. put_le (get_le b XOR w)"] xor_four [OF _ assms(2)] by (simp add: xor_bytes_def)

lemma xor_bytes_twice:
  assumes "byte z = byte x XOR byte y"
  shows "xor_bytes (xor_bytes key x) z = xor_bytes key y"
proof -
  have "byte (chr (byte c XOR byte x)) = byte c XOR byte x" for c
    unfolding byte_chr by (rule bit_word_eqI) (auto simp: bit_simps dest: bit_byte)
  then show ?thesis using assms by (simp add: xor_bytes_def xor.assoc xor.left_commute)
qed

lemma sha1_length: "length (sha1 m) = 20"
proof -
  have "length (concat (map put_be st)) = 4 * length st" for st by (induction st) simp_all
  then show ?thesis using sha_blocks_state [of H0] by (simp add: sha1_def H0_def)
qed

text \<open>C31. \<open>lhmac_sha1\<close> returns the HMAC of the standard over SHA-1: keys longer than a block are hashed,
  shorter ones padded with zeros; for keys and texts below 512 megabytes.\<close>

theorem lhmac_sha1_is_hmac:
  assumes "length (ctx_buffer ctx) = 64" and "length (ctx_buffer ctx1) = 64" and "length (ctx_buffer ctx2) = 64"
    and "length key < 2 ^ 29" and "length data < 2 ^ 29"
  shows "lhmac_sha1 ctx ctx1 ctx2 key data = Some (hmac_standard sha1 key data)"
proof -
  define k where "k = (if 64 < length key then sha1 key else key)"
  define k0 where "k0 = k @ replicate (64 - length k) NUL"
  have len: "length k \<le> 64" "length k0 = 64" by (simp_all add: k_def k0_def sha1_length)
  have pads: "0x5c5c5c5c = get_le [CHR 0x5c, CHR 0x5c, CHR 0x5c, CHR 0x5c]"
    "0x5c5c5c5c XOR 0x36363636 = get_le [CHR 0x6a, CHR 0x6a, CHR 0x6a, CHR 0x6a]"
    "byte (CHR 0x6a) = byte (CHR 0x5c) XOR byte (CHR 0x36)"
    by (simp_all add: get_le_def byte_def)
  have "store (replicate BLOCKSIZE NUL) 0 k = k0" by (simp add: store_def k0_def BLOCKSIZE_def)
  then have key: "(if BLOCKSIZE < length key
       then do { digest \<leftarrow> sat_SHA1_Final (sat_SHA1_Update (sat_SHA1_Init ctx) key); Some (store (replicate BLOCKSIZE NUL) 0 digest) }
       else Some (store (replicate BLOCKSIZE NUL) 0 key)) = Some k0"
    using fed_final [OF fed_update [OF fed_init [OF assms(1)] assms(4)]] by (auto simp: k_def BLOCKSIZE_def split: if_splits)
  have out: "xor_key k0 0x5c5c5c5c = xor_bytes k0 (CHR 0x5c)" by (rule xor_key_bytes [OF len(2) pads(1)])
  have inn: "xor_key (xor_bytes k0 (CHR 0x5c)) (0x5c5c5c5c XOR 0x36363636) = xor_bytes k0 (CHR 0x36)"
    using xor_key_bytes [OF _ pads(2), of "xor_bytes k0 (CHR 0x5c)"] xor_bytes_twice [OF pads(3)] len(2)
    by (simp add: xor_bytes_def)
  have small: "length (xor_bytes k0 x) < 2 ^ 29" for x using len(2) by (simp add: xor_bytes_def)
  let ?c1 = "sat_SHA1_Update (sat_SHA1_Init ctx1) (xor_bytes k0 (CHR 0x5c))"
  have f1: "fed ?c1 (xor_bytes k0 (CHR 0x5c))"
    using fed_update [OF fed_init [OF assms(2)] small] by simp
  have "fed (sat_SHA1_Update (sat_SHA1_Init ctx2) (xor_bytes k0 (CHR 0x36))) (xor_bytes k0 (CHR 0x36))"
    using fed_update [OF fed_init [OF assms(3)] small] by simp
  note inner = fed_final [OF fed_update [OF this assms(5)]]
  have "length (sha1 (xor_bytes k0 (CHR 0x36) @ data)) < 2 ^ 29" by (simp add: sha1_length)
  note outer = fed_final [OF fed_update [OF f1 this]]
  show ?thesis unfolding lhmac_sha1_def key Let_def bind.simps out inn inner outer hmac_standard_def k_def [symmetric] k0_def [symmetric]
    by (rule refl)
qed

theorem lhmac_sha1_is_hmac_witness:
  "let ctx = \<lparr>ctx_state = [], ctx_count = (0, 0), ctx_buffer = replicate 64 NUL\<rparr>
   in lhmac_sha1 ctx ctx ctx ''key'' ''text'' = Some (hmac_standard sha1 ''key'' ''text'')"
  unfolding Let_def by (rule lhmac_sha1_is_hmac) simp_all

end
