(* ===== verification/Seri.thy ===== *)
theory Seri
  imports Bytes Format
begin

text \<open>
  \<open>lib/uboss/lua-seri.c\<close>: the serialisation of Lua values into messages. A Lua value is a term of
  \<open>lua_value\<close>; a table is the list of its pairs in the order of \<open>lua_next\<close>, a proxy is a table with a
  \<open>__pairs\<close> metamethod and the pairs it yields. What the Lua interpreter decides is a
  parameter: the border \<open>lua_rawlen\<close> of a table, which doubles are integers and which are not
  numbers. A size past the range of an \<open>int\<close> when packing is \<open>None\<close>, as is a reader that does not
  end. Memory and the stack of the interpreter suffice.
\<close>

section \<open>Lua values\<close>

datatype lua_value =
    Nil
  | Boolean bool
  | Integer u64
  | Real u64
  | Pointer u64
  | Str string
  | Table "(lua_value \<times> lua_value) list"
  | Proxy "(lua_value \<times> lua_value) list"
  | Other string

type_synonym pairs = "(lua_value \<times> lua_value) list"

record lua_state =
  lua_rawlen :: "pairs \<Rightarrow> nat"
  lua_float_integer :: "u64 \<Rightarrow> u64 option"
  lua_float_nan :: "u64 \<Rightarrow> bool"

definition raw_equal :: "lua_value \<Rightarrow> lua_value \<Rightarrow> bool" where
  \<comment> \<open>tables are equal only to themselves, and every table read from a stream is a new one\<close>
  "raw_equal a b \<longleftrightarrow> a = b \<and> (case a of Table _ \<Rightarrow> False | Proxy _ \<Rightarrow> False | _ \<Rightarrow> True)"

definition lua_rawgeti :: "pairs \<Rightarrow> nat \<Rightarrow> lua_value" where
  "lua_rawgeti es i = (case map_of es (Integer (word_of_nat i)) of Some v \<Rightarrow> v | None \<Rightarrow> Nil)"

fun set_pair :: "lua_value \<Rightarrow> lua_value \<Rightarrow> pairs \<Rightarrow> pairs" where
  "set_pair k v [] = (if v = Nil then [] else [(k, v)])"
| "set_pair k v ((k', v') # es) =
     (if raw_equal k' k then (if v = Nil then es else (k, v) # es) else (k', v') # set_pair k v es)"

definition table_key :: "lua_state \<Rightarrow> lua_value \<Rightarrow> lua_value" where
  \<comment> \<open>a double with an integer value is that integer as a key\<close>
  "table_key L k = (case k of Real d \<Rightarrow> (case lua_float_integer L d of Some n \<Rightarrow> Integer n | None \<Rightarrow> k) | _ \<Rightarrow> k)"

definition lua_rawset :: "lua_state \<Rightarrow> lua_value \<Rightarrow> lua_value \<Rightarrow> pairs \<Rightarrow> pairs lua" where
  "lua_rawset L k v es =
     (case k of
        Real d \<Rightarrow> if lua_float_nan L d then Raise ''table index is NaN'' else Return (set_pair (table_key L k) v es)
      | _ \<Rightarrow> Return (set_pair k v es))"

section \<open>The write block\<close>

definition BLOCK_SIZE :: nat where "BLOCK_SIZE = 128"

record write_block =
  wb_blocks :: "string list"
  wb_len :: nat
  wb_ptr :: nat

definition blk_alloc :: string where
  "blk_alloc = replicate BLOCK_SIZE NUL"

definition wb_init :: write_block where
  "wb_init = \<lparr>wb_blocks = [blk_alloc], wb_len = 0, wb_ptr = 0\<rparr>"

definition blit :: "nat \<Rightarrow> string \<Rightarrow> string \<Rightarrow> string" where
  "blit ptr buf block = take ptr block @ buf @ drop (ptr + length buf) block"

definition wb_room :: "write_block \<Rightarrow> write_block" where
  "wb_room b = (if wb_ptr b = BLOCK_SIZE then b\<lparr>wb_blocks := wb_blocks b @ [blk_alloc], wb_ptr := 0\<rparr> else b)"

definition wb_copy :: "string \<Rightarrow> write_block \<Rightarrow> write_block" where
  \<comment> \<open>\<open>memcpy\<close> into the current block, which is the last one\<close>
  "wb_copy buf b =
     b\<lparr>wb_blocks := butlast (wb_blocks b) @ [blit (wb_ptr b) buf (last (wb_blocks b))],
       wb_ptr := wb_ptr b + length buf, wb_len := wb_len b + length buf\<rparr>"

function wb_push :: "string \<Rightarrow> write_block \<Rightarrow> write_block" where
  \<comment> \<open>the pointer is never past the end of the block\<close>
  "wb_push buf b =
     (let b1 = wb_room b; copy = BLOCK_SIZE - wb_ptr b1
      in if wb_ptr b1 + length buf \<le> BLOCK_SIZE \<or> BLOCK_SIZE \<le> wb_ptr b1 then wb_copy buf b1
         else wb_push (drop copy buf) (wb_copy (take copy buf) b1))"
  by pat_completeness auto
termination
  by (relation "measure (length \<circ> fst)") auto

declare wb_push.simps [simp del]

section \<open>Packing\<close>

definition TYPE_NIL :: nat where "TYPE_NIL = 0"
definition TYPE_BOOLEAN :: nat where "TYPE_BOOLEAN = 1"
definition TYPE_NUMBER :: nat where "TYPE_NUMBER = 2"
definition TYPE_NUMBER_ZERO :: nat where "TYPE_NUMBER_ZERO = 0"
definition TYPE_NUMBER_BYTE :: nat where "TYPE_NUMBER_BYTE = 1"
definition TYPE_NUMBER_WORD :: nat where "TYPE_NUMBER_WORD = 2"
definition TYPE_NUMBER_DWORD :: nat where "TYPE_NUMBER_DWORD = 4"
definition TYPE_NUMBER_QWORD :: nat where "TYPE_NUMBER_QWORD = 6"
definition TYPE_NUMBER_REAL :: nat where "TYPE_NUMBER_REAL = 8"
definition TYPE_USERDATA :: nat where "TYPE_USERDATA = 3"
definition TYPE_SHORT_STRING :: nat where "TYPE_SHORT_STRING = 4"
definition TYPE_LONG_STRING :: nat where "TYPE_LONG_STRING = 5"
definition TYPE_TABLE :: nat where "TYPE_TABLE = 6"
definition MAX_COOKIE :: nat where "MAX_COOKIE = 32"
definition MAX_DEPTH :: nat where "MAX_DEPTH = 32"

lemmas type_defs = TYPE_NIL_def TYPE_BOOLEAN_def TYPE_NUMBER_def TYPE_NUMBER_ZERO_def TYPE_NUMBER_BYTE_def
  TYPE_NUMBER_WORD_def TYPE_NUMBER_DWORD_def TYPE_NUMBER_QWORD_def TYPE_NUMBER_REAL_def TYPE_USERDATA_def
  TYPE_SHORT_STRING_def TYPE_LONG_STRING_def TYPE_TABLE_def MAX_COOKIE_def

definition COMBINE_TYPE :: "nat \<Rightarrow> nat \<Rightarrow> string" where
  \<comment> \<open>the byte \<open>t | v << 3\<close>\<close>
  "COMBINE_TYPE t v = [char_of (t OR push_bit 3 v)]"

definition wb_nil :: "write_block \<Rightarrow> write_block" where
  "wb_nil wb = wb_push (COMBINE_TYPE TYPE_NIL 0) wb"

definition wb_boolean :: "bool \<Rightarrow> write_block \<Rightarrow> write_block" where
  "wb_boolean b wb = wb_push (COMBINE_TYPE TYPE_BOOLEAN (if b then 1 else 0)) wb"

definition wb_integer :: "u64 \<Rightarrow> write_block \<Rightarrow> write_block" where
  "wb_integer v wb =
     (let put = (\<lambda>t n. wb_push (le_bytes n v) (wb_push (COMBINE_TYPE TYPE_NUMBER t) wb))
      in if v = 0 then wb_push (COMBINE_TYPE TYPE_NUMBER TYPE_NUMBER_ZERO) wb
         else if v \<noteq> scast (ucast v :: i32) then put TYPE_NUMBER_QWORD 8
         else if sint v < 0 then put TYPE_NUMBER_DWORD 4
         else if sint v < 0x100 then put TYPE_NUMBER_BYTE 1
         else if sint v < 0x10000 then put TYPE_NUMBER_WORD 2
         else put TYPE_NUMBER_DWORD 4)"

definition wb_real :: "u64 \<Rightarrow> write_block \<Rightarrow> write_block" where
  "wb_real v wb = wb_push (le_bytes 8 v) (wb_push (COMBINE_TYPE TYPE_NUMBER TYPE_NUMBER_REAL) wb)"

definition wb_pointer :: "u64 \<Rightarrow> write_block \<Rightarrow> write_block" where
  "wb_pointer v wb = wb_push (le_bytes 8 v) (wb_push (COMBINE_TYPE TYPE_USERDATA 0) wb)"

definition wb_string :: "string \<Rightarrow> write_block \<Rightarrow> write_block" where
  "wb_string str wb =
     (let len = length str
      in if len < MAX_COOKIE then
           (let wb1 = wb_push (COMBINE_TYPE TYPE_SHORT_STRING len) wb in if 0 < len then wb_push str wb1 else wb1)
         else if len < 0x10000 then
           wb_push str (wb_push (le_bytes 2 (word_of_nat len)) (wb_push (COMBINE_TYPE TYPE_LONG_STRING 2) wb))
         else
           wb_push str (wb_push (le_bytes 4 (word_of_nat len)) (wb_push (COMBINE_TYPE TYPE_LONG_STRING 4) wb)))"

definition wb_table_size :: "nat \<Rightarrow> write_block \<Rightarrow> write_block" where
  \<comment> \<open>the head that \<open>wb_table_array\<close> writes\<close>
  "wb_table_size array_size wb =
     (if MAX_COOKIE - 1 \<le> array_size
      then wb_integer (word_of_nat array_size) (wb_push (COMBINE_TYPE TYPE_TABLE (MAX_COOKIE - 1)) wb)
      else wb_push (COMBINE_TYPE TYPE_TABLE array_size) wb)"

definition array_values :: "nat \<Rightarrow> pairs \<Rightarrow> lua_value list" where
  "array_values array_size es = map (lua_rawgeti es) [1..<Suc array_size]"

definition in_array :: "nat \<Rightarrow> lua_value \<Rightarrow> bool" where
  "in_array array_size k = (case k of Integer x \<Rightarrow> 0 < sint x \<and> sint x \<le> int array_size | _ \<Rightarrow> False)"

definition hash_values :: "nat \<Rightarrow> pairs \<Rightarrow> lua_value list" where
  \<comment> \<open>what \<open>wb_table_hash\<close> packs: keys and values of the pairs that are not in the array part\<close>
  "hash_values array_size es = concat (map (\<lambda>(k, v). [k, v]) (filter (\<lambda>(k, v). \<not> in_array array_size k) es))"

definition meta_values :: "pairs \<Rightarrow> lua_value list" where
  \<comment> \<open>what \<open>wb_table_metapairs\<close> packs: the iteration ends with a nil key\<close>
  "meta_values es = concat (map (\<lambda>(k, v). [k, v]) (takeWhile (\<lambda>(k, v). k \<noteq> Nil) es))"

text \<open>\<open>pack_one\<close> with \<open>wb_table\<close>, and the loops over the values of a table or of the stack. A
  \<open>Raise\<close> comes after \<open>wb_free\<close>.\<close>

function pack_one :: "lua_state \<Rightarrow> lua_value \<Rightarrow> nat \<Rightarrow> write_block \<Rightarrow> write_block lua option"
  and pack_list :: "lua_state \<Rightarrow> lua_value list \<Rightarrow> nat \<Rightarrow> write_block \<Rightarrow> write_block lua option" where
  "pack_one L v depth b =
     (if MAX_DEPTH < depth then Some (Raise ''serialize can't pack too depth table'')
      else case v of
             Nil \<Rightarrow> Some (Return (wb_nil b))
           | Integer x \<Rightarrow> Some (Return (wb_integer x b))
           | Real n \<Rightarrow> Some (Return (wb_real n b))
           | Boolean x \<Rightarrow> Some (Return (wb_boolean x b))
           | Str s \<Rightarrow> do { guard (length s < 2 ^ 31); Some (Return (wb_string s b)) }
           | Pointer p \<Rightarrow> Some (Return (wb_pointer p b))
           | Table es \<Rightarrow>
               let n = lua_rawlen L es
               in do {
                 guard (n < 2 ^ 31);
                 r \<leftarrow> pack_list L (array_values n es) (depth + 1) (wb_table_size n b);
                 case r of
                   Raise e \<Rightarrow> Some (Raise e)
                 | Return b1 \<Rightarrow> do {
                     r \<leftarrow> pack_list L (hash_values n es) (depth + 1) b1;
                     Some (case r of Raise e \<Rightarrow> Raise e | Return b2 \<Rightarrow> Return (wb_nil b2)) } }
           | Proxy es \<Rightarrow> do {
               r \<leftarrow> pack_list L (meta_values es) (depth + 1) (wb_push (COMBINE_TYPE TYPE_TABLE 0) b);
               Some (case r of Raise e \<Rightarrow> Raise e | Return b1 \<Rightarrow> Return (wb_nil b1)) }
           | Other t \<Rightarrow> Some (Raise (''Unsupport type '' @ t @ '' to serialize'')))"
| "pack_list L [] depth b = Some (Return b)"
| "pack_list L (v # vs) depth b =
     do { r \<leftarrow> pack_one L v depth b;
          case r of Raise e \<Rightarrow> Some (Raise e) | Return b1 \<Rightarrow> pack_list L vs depth b1 }"
  by pat_completeness auto
termination
  by (relation "measures [\<lambda>x. case x of Inl (L, v, depth, b) \<Rightarrow> 2 * (34 - depth) | Inr (L, vs, depth, b) \<Rightarrow> Suc (2 * (34 - depth)),
      \<lambda>x. case x of Inl _ \<Rightarrow> 0 | Inr (L, vs, depth, b) \<Rightarrow> length vs]") (auto simp: MAX_DEPTH_def)

declare pack_one.simps [simp del]

fun seri :: "string list \<Rightarrow> nat \<Rightarrow> string option" where
  "seri bs len =
     (if len = 0 then Some []
      else case bs of
             [] \<Rightarrow> None
           | b # bs \<Rightarrow>
               if BLOCK_SIZE \<le> len then do { rest \<leftarrow> seri bs (len - BLOCK_SIZE); Some (take BLOCK_SIZE b @ rest) }
               else Some (take len b))"

declare seri.simps [simp del]

definition pack_from :: "lua_state \<Rightarrow> lua_value list \<Rightarrow> write_block \<Rightarrow> write_block lua option" where
  \<comment> \<open>the values of the stack from index 1\<close>
  "pack_from L vs b = pack_list L vs 0 b"

definition luaseri_pack :: "lua_state \<Rightarrow> lua_value list \<Rightarrow> string lua option" where
  \<comment> \<open>lengths are counted in an \<open>int\<close>\<close>
  "luaseri_pack L vs =
     do { r \<leftarrow> pack_from L vs wb_init;
          case r of
            Raise e \<Rightarrow> Some (Raise e)
          | Return wb \<Rightarrow> do { guard (wb_len wb < 2 ^ 31); s \<leftarrow> seri (wb_blocks wb) (wb_len wb); Some (Return s) } }"

section \<open>Unpacking\<close>

definition invalid_stream :: "string \<Rightarrow> nat \<Rightarrow> 'a lua" where
  "invalid_stream rb line =
     Raise (''Invalid serialize stream '' @ print_d (int (length rb)) @ '' (line:'' @ print_d (int line) @ '')'')"

definition rb_read :: "nat \<Rightarrow> nat \<Rightarrow> string \<Rightarrow> (string \<times> string) lua" where
  \<comment> \<open>the bytes and the rest of the stream, or \<open>invalid_stream\<close> at that line\<close>
  "rb_read sz line rb = (if length rb < sz then invalid_stream rb line else Return (take sz rb, drop sz rb))"

definition get_integer :: "nat \<Rightarrow> string \<Rightarrow> (u64 \<times> string) lua" where
  "get_integer cookie rb =
     (if cookie = TYPE_NUMBER_ZERO then Return (0, rb)
      else if cookie = TYPE_NUMBER_BYTE then lua_bind (rb_read 1 377 rb) (\<lambda>(n, rb). Return (of_le n, rb))
      else if cookie = TYPE_NUMBER_WORD then lua_bind (rb_read 2 385 rb) (\<lambda>(n, rb). Return (of_le n, rb))
      else if cookie = TYPE_NUMBER_DWORD then
        lua_bind (rb_read 4 393 rb) (\<lambda>(n, rb). Return (scast (ucast (of_le n) :: i32), rb))
      else if cookie = TYPE_NUMBER_QWORD then lua_bind (rb_read 8 401 rb) (\<lambda>(n, rb). Return (of_le n, rb))
      else invalid_stream rb 406)"

definition get_real :: "string \<Rightarrow> (u64 \<times> string) lua" where
  "get_real rb = lua_bind (rb_read 8 416 rb) (\<lambda>(n, rb). Return (of_le n, rb))"

definition get_pointer :: "string \<Rightarrow> (u64 \<times> string) lua" where
  "get_pointer rb = lua_bind (rb_read 8 426 rb) (\<lambda>(n, rb). Return (of_le n, rb))"

definition get_buffer :: "nat \<Rightarrow> string \<Rightarrow> (lua_value \<times> string) lua" where
  \<comment> \<open>\<open>len\<close> is an \<open>int\<close>: a larger size is negative, passes the check of \<open>rb_read\<close>, and is
     refused by \<open>lua_pushlstring\<close>, where it is a \<open>size_t\<close>\<close>
  "get_buffer len rb =
     (if 2 ^ 31 \<le> len then Raise ''memory allocation error: block too big''
      else lua_bind (rb_read len 436 rb) (\<lambda>(s, rb). Return (Str s, rb)))"

definition get_long :: "nat \<Rightarrow> nat \<Rightarrow> string \<Rightarrow> (lua_value \<times> string) lua" where
  "get_long sz line rb = lua_bind (rb_read sz line rb) (\<lambda>(n, rb). get_buffer (unat (of_le n)) rb)"

definition push_value :: "nat \<Rightarrow> nat \<Rightarrow> string \<Rightarrow> (lua_value \<times> string) lua" where
  \<comment> \<open>all types but tables\<close>
  "push_value type cookie rb =
     (if type = TYPE_NIL then Return (Nil, rb)
      else if type = TYPE_BOOLEAN then Return (Boolean (cookie \<noteq> 0), rb)
      else if type = TYPE_NUMBER then
        (if cookie = TYPE_NUMBER_REAL then lua_bind (get_real rb) (\<lambda>(n, rb). Return (Real n, rb))
         else lua_bind (get_integer cookie rb) (\<lambda>(n, rb). Return (Integer n, rb)))
      else if type = TYPE_USERDATA then lua_bind (get_pointer rb) (\<lambda>(p, rb). Return (Pointer p, rb))
      else if type = TYPE_SHORT_STRING then get_buffer cookie rb
      else if type = TYPE_LONG_STRING then
        (if cookie = 2 then get_long 2 502 rb
         else if cookie \<noteq> 4 then invalid_stream rb 509
         else get_long 4 513 rb)
      else invalid_stream rb 526)"

definition table_size :: "nat \<Rightarrow> string \<Rightarrow> (int \<times> string) lua" where
  \<comment> \<open>the size of the array part, an \<open>int\<close>\<close>
  "table_size cookie rb =
     (if cookie = MAX_COOKIE - 1 then
        lua_bind (rb_read 1 449 rb) (\<lambda>(t, rb).
          let type = of_char (hd t) mod 8; cookie = of_char (hd t) div 8
          in if type \<noteq> TYPE_NUMBER \<or> cookie = TYPE_NUMBER_REAL then invalid_stream rb 454
             else lua_bind (get_integer cookie rb) (\<lambda>(n, rb). Return (sint (ucast n :: i32), rb)))
      else Return (int cookie, rb))"

text \<open>\<open>unpack_one\<close> and the two loops of \<open>unpack_table\<close>, over the table built so far.\<close>

datatype job =
    One string
  | ArrayPart int int pairs string
  | HashPart pairs string

partial_function (option) unpack :: "lua_state \<Rightarrow> job \<Rightarrow> (lua_value \<times> string) lua option" where
  "unpack L job =
     (case job of
        One rb \<Rightarrow>
          (case rb of
             [] \<Rightarrow> Some (invalid_stream rb 537)
           | t # rb \<Rightarrow>
               if of_char t mod 8 = TYPE_TABLE then
                 (case table_size (of_char t div 8) rb of
                    Raise e \<Rightarrow> Some (Raise e)
                  | Return (array_size, rb) \<Rightarrow> unpack L (ArrayPart 1 array_size [] rb))
               else Some (push_value (of_char t mod 8) (of_char t div 8) rb))
      | ArrayPart i array_size es rb \<Rightarrow>
          if i \<le> array_size then do {
            r \<leftarrow> unpack L (One rb);
            case r of
              Raise e \<Rightarrow> Some (Raise e)
            | Return (v, rb) \<Rightarrow> unpack L (ArrayPart (i + 1) array_size (set_pair (Integer (word_of_int i)) v es) rb) }
          else unpack L (HashPart es rb)
      | HashPart es rb \<Rightarrow> do {
          r \<leftarrow> unpack L (One rb);
          case r of
            Raise e \<Rightarrow> Some (Raise e)
          | Return (k, rb) \<Rightarrow>
              if k = Nil then Some (Return (Table es, rb))
              else do {
                r \<leftarrow> unpack L (One rb);
                case r of
                  Raise e \<Rightarrow> Some (Raise e)
                | Return (v, rb) \<Rightarrow>
                    (case lua_rawset L k v es of
                       Raise e \<Rightarrow> Some (Raise e)
                     | Return es \<Rightarrow> unpack L (HashPart es rb)) } })"

declare unpack.simps [code]

partial_function (option) unpack_all :: "lua_state \<Rightarrow> string \<Rightarrow> lua_value list lua option" where
  "unpack_all L rb =
     (if rb = [] then Some (Return [])
      else do {
        r \<leftarrow> unpack L (One rb);
        case r of
          Raise e \<Rightarrow> Some (Raise e)
        | Return (v, rb) \<Rightarrow> do {
            r \<leftarrow> unpack_all L rb;
            Some (case r of Raise e \<Rightarrow> Raise e | Return vs \<Rightarrow> Return (v # vs)) } })"

declare unpack_all.simps [code]

definition luaseri_unpack :: "lua_state \<Rightarrow> string \<Rightarrow> lua_value list lua option" where
  \<comment> \<open>the size is converted to an \<open>int\<close>; nothing is read when it is not positive\<close>
  "luaseri_unpack L buffer = unpack_all L (take (nat (sint (word_of_nat (length buffer) :: i32))) buffer)"

end
