(* ===== verification/SeriProps.thy ===== *)
theory SeriProps
  imports Seri "HOL-Library.Multiset"
begin

text \<open>
  Properties of the serialisation: the chain of write blocks holds the concatenation of what was
  pushed, and a list of values that was packed is unpacked to the same values, where tables are
  the same when they have the same pairs in any order.
\<close>

section \<open>The write block\<close>

definition wb_ok :: "write_block \<Rightarrow> bool" where
  "wb_ok b \<longleftrightarrow> wb_blocks b \<noteq> [] \<and> (\<forall>x \<in> set (wb_blocks b). length x = BLOCK_SIZE) \<and> wb_ptr b \<le> BLOCK_SIZE \<and>
     wb_len b = BLOCK_SIZE * (length (wb_blocks b) - 1) + wb_ptr b"

definition content :: "write_block \<Rightarrow> string" where
  "content b = concat (butlast (wb_blocks b)) @ take (wb_ptr b) (last (wb_blocks b))"

lemma wb_init_ok: "wb_ok wb_init" "content wb_init = []"
  by (simp_all add: wb_ok_def content_def wb_init_def blk_alloc_def)

lemma wb_room_ok:
  assumes "wb_ok b"
  shows "wb_ok (wb_room b)" "content (wb_room b) = content b" "wb_ptr (wb_room b) < BLOCK_SIZE"
proof -
  have "concat (wb_blocks b) = concat (butlast (wb_blocks b)) @ last (wb_blocks b)" if "wb_blocks b \<noteq> []"
    by (metis append_butlast_last_id concat.simps concat_append append_Nil2 that)
  moreover have "length (last (wb_blocks b)) = BLOCK_SIZE" using assms by (simp add: wb_ok_def)
  moreover have "BLOCK_SIZE * (length (wb_blocks b) - 1) + BLOCK_SIZE = BLOCK_SIZE * length (wb_blocks b)"
    using assms by (cases "wb_blocks b") (simp_all add: wb_ok_def)
  ultimately show "wb_ok (wb_room b)" "content (wb_room b) = content b" "wb_ptr (wb_room b) < BLOCK_SIZE"
    using assms by (auto simp: wb_ok_def content_def wb_room_def blk_alloc_def BLOCK_SIZE_def)
qed

lemma wb_copy_ok:
  assumes "wb_ok b" "wb_ptr b + length buf \<le> BLOCK_SIZE"
  shows "wb_ok (wb_copy buf b)" "content (wb_copy buf b) = content b @ buf"
proof -
  have l: "length (last (wb_blocks b)) = BLOCK_SIZE" using assms by (simp add: wb_ok_def)
  have "take (wb_ptr b + length buf) (blit (wb_ptr b) buf (last (wb_blocks b))) = take (wb_ptr b) (last (wb_blocks b)) @ buf"
    "length (blit (wb_ptr b) buf (last (wb_blocks b))) = BLOCK_SIZE"
    using assms(2) l by (simp_all add: blit_def)
  then show "wb_ok (wb_copy buf b)" "content (wb_copy buf b) = content b @ buf"
    using assms by (auto simp: wb_ok_def content_def wb_copy_def dest: in_set_butlastD)
qed

lemma wb_push_ok:
  assumes "wb_ok b"
  shows "wb_ok (wb_push buf b) \<and> content (wb_push buf b) = content b @ buf"
  using assms
proof (induction buf b rule: wb_push.induct)
  case (1 buf b)
  define b1 where "b1 = wb_room b"
  have b1: "wb_ok b1" "content b1 = content b" "wb_ptr b1 < BLOCK_SIZE"
    using wb_room_ok [OF "1.prems"] by (simp_all add: b1_def)
  show ?case
  proof (cases "wb_ptr b1 + length buf \<le> BLOCK_SIZE")
    case True
    then have "wb_push buf b = wb_copy buf b1" by (subst wb_push.simps) (simp add: b1_def [symmetric] Let_def)
    then show ?thesis using wb_copy_ok [OF b1(1) True] b1(2) by simp
  next
    case False
    let ?k = "BLOCK_SIZE - wb_ptr b1"
    let ?b2 = "wb_copy (take ?k buf) b1"
    have push: "wb_push buf b = wb_push (drop ?k buf) ?b2"
      using False b1(3) by (subst wb_push.simps) (simp add: b1_def [symmetric] Let_def)
    have le: "wb_ptr b1 + length (take ?k buf) \<le> BLOCK_SIZE" using b1(3) by simp
    have ok: "wb_ok ?b2" "content ?b2 = content b @ take ?k buf" using wb_copy_ok [OF b1(1) le] b1(2) by simp_all
    have "wb_ok (wb_push (drop ?k buf) ?b2) \<and> content (wb_push (drop ?k buf) ?b2) = content ?b2 @ drop ?k buf"
      using "1.IH" [OF b1_def refl] False b1(3) ok(1) by simp
    then show ?thesis using push ok(2) by simp
  qed
qed

lemma seri_blocks:
  assumes "\<forall>x \<in> set bs. length x = BLOCK_SIZE" "len \<le> BLOCK_SIZE * length bs"
  shows "seri bs len = Some (take len (concat bs))"
  using assms
proof (induction bs len rule: seri.induct)
  case (1 bs len)
  show ?case
  proof (cases "len = 0 \<or> bs = []")
    case False
    then obtain c cs where bs: "bs = c # cs" by (cases bs) auto
    have "seri cs (len - BLOCK_SIZE) = Some (take (len - BLOCK_SIZE) (concat cs))" if "BLOCK_SIZE \<le> len"
      using "1.IH" [OF _ bs that] False "1.prems" that by (simp add: bs)
    then show ?thesis using "1.prems" False by (subst seri.simps) (auto simp: bs)
  qed (use "1.prems" in \<open>auto simp: seri.simps\<close>)
qed

lemma concat_blocks: "\<forall>x \<in> set bs. length x = BLOCK_SIZE \<Longrightarrow> length (concat bs) = BLOCK_SIZE * length bs"
  by (induction bs) simp_all

lemma seri_content:
  assumes "wb_ok b"
  shows "seri (wb_blocks b) (wb_len b) = Some (content b)" "length (content b) = wb_len b"
proof -
  obtain xs x where b: "wb_blocks b = xs @ [x]" using assms by (metis append_butlast_last_id wb_ok_def)
  have len: "length (concat xs) = BLOCK_SIZE * length xs" using assms b by (intro concat_blocks) (simp add: wb_ok_def)
  show "length (content b) = wb_len b" using assms b len by (simp add: content_def wb_ok_def)
  have "seri (wb_blocks b) (wb_len b) = Some (take (wb_len b) (concat (wb_blocks b)))"
    using assms b by (intro seri_blocks) (auto simp: wb_ok_def)
  then show "seri (wb_blocks b) (wb_len b) = Some (content b)" using assms b len by (simp add: content_def wb_ok_def)
qed

section \<open>What the reader makes of a value\<close>

text \<open>The reader gets the array part first, in order, then the other pairs.\<close>

definition arrange :: "nat \<Rightarrow> pairs \<Rightarrow> pairs" where
  "arrange n es =
     concat (map (\<lambda>i. case lua_rawgeti es i of Nil \<Rightarrow> [] | v \<Rightarrow> [(Integer (word_of_nat i), v)]) [1..<Suc n]) @
     filter (\<lambda>(k, v). \<not> in_array n k) es"

primrec norm :: "lua_state \<Rightarrow> lua_value \<Rightarrow> lua_value" where
  "norm L Nil = Nil"
| "norm L (Boolean b) = Boolean b"
| "norm L (Integer n) = Integer n"
| "norm L (Real d) = Real d"
| "norm L (Pointer p) = Pointer p"
| "norm L (Str s) = Str s"
| "norm L (Table es) = Table (arrange (lua_rawlen L es) (map (map_prod (norm L) (norm L)) es))"
| "norm L (Proxy es) = Proxy es"
| "norm L (Other t) = Other t"

text \<open>Values that have an identity of their own are not compared; the other keys of a table
  differ. A key is not nil, and no double that is not a number or that has an integer value; a value is
  not nil.\<close>

definition scalar :: "lua_value \<Rightarrow> bool" where
  "scalar v \<longleftrightarrow> (case v of Table _ \<Rightarrow> False | Proxy _ \<Rightarrow> False | _ \<Rightarrow> True)"

definition key_ok :: "lua_state \<Rightarrow> lua_value \<Rightarrow> bool" where
  "key_ok L k \<longleftrightarrow> (case k of Nil \<Rightarrow> False | Real d \<Rightarrow> \<not> lua_float_nan L d \<and> lua_float_integer L d = None | _ \<Rightarrow> True)"

fun plain :: "lua_state \<Rightarrow> lua_value \<Rightarrow> bool" where
  "plain L (Table es) \<longleftrightarrow> distinct (filter scalar (map fst es)) \<and>
     (\<forall>e \<in> set es. key_ok L (fst e) \<and> snd e \<noteq> Nil \<and> plain L (fst e) \<and> plain L (snd e))"
| "plain L (Proxy es) \<longleftrightarrow> False"
| "plain L v \<longleftrightarrow> True"

text \<open>Two tables are the same when their pairs are, in any order.\<close>

inductive same :: "lua_value \<Rightarrow> lua_value \<Rightarrow> bool" where
  same_scalar: "scalar v \<Longrightarrow> same v v"
| same_table: "mset ps = mset es \<Longrightarrow> list_all2 (rel_prod same same) ps es' \<Longrightarrow> same (Table es) (Table es')"

lemma norm_simps: "norm L v = Nil \<longleftrightarrow> v = Nil" "scalar (norm L v) \<longleftrightarrow> scalar v" "scalar v \<Longrightarrow> norm L v = v"
  "norm L v = Integer n \<longleftrightarrow> v = Integer n" "Integer n = norm L v \<longleftrightarrow> Integer n = v"
  by (cases v; simp add: scalar_def)+

lemma raw_equal_scalar: "raw_equal a b \<longleftrightarrow> a = b \<and> scalar a"
  by (auto simp: raw_equal_def scalar_def split: lua_value.splits)

lemma raw_equal_norm: "raw_equal (norm L a) (norm L b) \<longleftrightarrow> raw_equal a b"
  by (metis raw_equal_scalar norm_simps(2,3))

section \<open>The reader reads what was written\<close>

definition reads :: "lua_state \<Rightarrow> lua_value \<Rightarrow> string \<Rightarrow> bool" where
  "reads L v bytes \<longleftrightarrow> (\<forall>rest. unpack L (One (bytes @ rest)) = Some (Return (norm L v, rest)))"

lemma combine_parts:
  assumes "t < 8" "v < 32"
  shows "(t OR push_bit 3 v) mod 8 = t" "(t OR push_bit 3 v) div 8 = (v :: nat)" "t OR push_bit 3 v < 256"
proof -
  have t: "take_bit 3 t = t" "drop_bit 3 t = 0" using assms(1) by (simp_all add: take_bit_eq_mod drop_bit_eq_div)
  have "take_bit 3 (t OR push_bit 3 v) = t" by (simp add: take_bit_or take_bit_push_bit t)
  then show m: "(t OR push_bit 3 v) mod 8 = t" by (simp add: take_bit_eq_mod)
  have "drop_bit 3 (t OR push_bit 3 v) = v" by (simp add: t drop_bit_or drop_bit_push_bit)
  then show d: "(t OR push_bit 3 v) div 8 = v" by (simp add: drop_bit_eq_div)
  have "t OR push_bit 3 v = v * 8 + t" using div_mult_mod_eq [of "t OR push_bit 3 v" 8] m d by simp
  then show "t OR push_bit 3 v < 256" using assms by simp
qed

lemma unpack_combine:
  assumes "t < 8" "v < 32" "t \<noteq> TYPE_TABLE"
  shows "unpack L (One (COMBINE_TYPE t v @ rb)) = Some (push_value t v rb)"
  using assms combine_parts [OF assms(1,2)] by (subst unpack.simps) (simp add: COMBINE_TYPE_def)

lemma rb_read_append [simp]: "length xs = n \<Longrightarrow> rb_read n line (xs @ rb) = Return (xs, rb)"
  by (auto simp: rb_read_def)

lemmas push_simps = push_value_def get_integer_def get_real_def get_pointer_def get_buffer_def get_long_def of_le_bytes

definition writes :: "lua_state \<Rightarrow> lua_value \<Rightarrow> write_block \<Rightarrow> write_block \<Rightarrow> bool" where
  "writes L v b b' \<longleftrightarrow> same v (norm L v) \<and> wb_ok b' \<and> (\<exists>bytes. content b' = content b @ bytes \<and> reads L v bytes)"

lemma same_simps [simp]: "same Nil Nil" "same (Boolean x) (Boolean x)" "same (Integer n) (Integer n)" "same (Real n) (Real n)"
  "same (Pointer n) (Pointer n)" "same (Str s) (Str s)"
  by (rule same_scalar; simp add: scalar_def)+

lemma writes_nil: "wb_ok b \<Longrightarrow> writes L Nil b (wb_nil b)"
  using wb_push_ok by (auto simp: writes_def wb_nil_def reads_def unpack_combine type_defs push_simps)

lemma writes_boolean: "wb_ok b \<Longrightarrow> writes L (Boolean x) b (wb_boolean x b)"
  using wb_push_ok by (auto simp: writes_def wb_boolean_def reads_def unpack_combine type_defs push_simps)

lemma writes_two:
  assumes "wb_ok b" "t < 8" "c < 32" "t \<noteq> TYPE_TABLE"
    "\<And>rest. push_value t c (bytes @ rest) = Return (norm L v, rest)" "same v (norm L v)"
  shows "writes L v b (wb_push bytes (wb_push (COMBINE_TYPE t c) b))"
  using assms wb_push_ok [of b] wb_push_ok [of "wb_push (COMBINE_TYPE t c) b"]
  by (auto simp: writes_def reads_def unpack_combine)

lemma take_bit_64 [simp]: "take_bit 64 v = (v :: u64)"
  by (rule bit_word_eqI) (simp add: bit_simps)

lemma writes_real: "wb_ok b \<Longrightarrow> writes L (Real n) b (wb_real n b)"
  unfolding wb_real_def by (rule writes_two) (simp_all add: type_defs push_simps)

lemma writes_pointer: "wb_ok b \<Longrightarrow> writes L (Pointer n) b (wb_pointer n b)"
  unfolding wb_pointer_def by (rule writes_two) (simp_all add: type_defs push_simps)

lemma take_bit_small:
  assumes "unat v < 2 ^ n"
  shows "take_bit n v = (v :: u64)"
  using assms by (simp only: word_unat_eq_iff unsigned_take_bit_eq take_bit_nat_def mod_less)

lemma sint_pos:
  fixes v :: u64
  assumes "0 \<le> sint v" "sint v < 2 ^ n"
  shows "unat v < 2 ^ n"
proof -
  have "int (unat v) = sint v mod 2 ^ 64" using uint_sint [of v] by (simp add: take_bit_eq_mod)
  moreover have "sint v mod 2 ^ 64 = sint v" using assms(1) sint_lt [of v] by (intro mod_pos_pos_trivial) simp_all
  ultimately have "int (unat v) = sint v" by simp
  then have "int (unat v) < int (2 ^ n)" using assms(2) by simp
  then show ?thesis by (simp only: of_nat_less_iff)
qed

lemma low_32: "scast (ucast (take_bit 32 v) :: i32) = (scast (ucast v :: i32) :: u64)" for v :: u64
proof -
  have "(ucast (take_bit 32 v) :: i32) = ucast v" by (rule bit_word_eqI) (simp add: bit_simps)
  then show ?thesis by simp
qed

text \<open>An integer is a type byte with the size and the bytes that \<open>get_integer\<close> reads.\<close>

definition writes_int :: "u64 \<Rightarrow> write_block \<Rightarrow> write_block \<Rightarrow> bool" where
  "writes_int v b b' \<longleftrightarrow> wb_ok b' \<and>
     (\<exists>c body. c < 32 \<and> c \<noteq> TYPE_NUMBER_REAL \<and> content b' = content b @ COMBINE_TYPE TYPE_NUMBER c @ body \<and>
        (\<forall>rest. get_integer c (body @ rest) = Return (v, rest)))"

lemma writes_int_two:
  assumes "wb_ok b" "c < 32" "c \<noteq> TYPE_NUMBER_REAL" "\<And>rest. get_integer c (bytes @ rest) = Return (v, rest)"
  shows "writes_int v b (wb_push bytes (wb_push (COMBINE_TYPE TYPE_NUMBER c) b))"
  using assms wb_push_ok [of b] wb_push_ok [of "wb_push (COMBINE_TYPE TYPE_NUMBER c) b"]
  by (auto simp: writes_int_def)

lemma wb_integer_writes:
  assumes "wb_ok b"
  shows "writes_int v b (wb_integer v b)"
proof -
  let ?put = "\<lambda>t n. wb_push (le_bytes n v) (wb_push (COMBINE_TYPE TYPE_NUMBER t) b)"
  note two = writes_int_two [OF assms]
  have zero: "v = 0 \<Longrightarrow> writes_int v b (wb_push (COMBINE_TYPE TYPE_NUMBER TYPE_NUMBER_ZERO) b)"
    using assms wb_push_ok [of b] unfolding writes_int_def
    by (intro conjI exI [of _ TYPE_NUMBER_ZERO] exI [of _ "[]"]) (simp_all add: type_defs push_simps)
  have qword: "writes_int v b (?put TYPE_NUMBER_QWORD 8)"
    by (rule two) (simp_all add: type_defs push_simps)
  have dword: "v = scast (ucast v :: i32) \<Longrightarrow> writes_int v b (?put TYPE_NUMBER_DWORD 4)"
    by (rule two) (simp_all add: type_defs push_simps low_32)
  have byte: "0 \<le> sint v \<Longrightarrow> sint v < 0x100 \<Longrightarrow> writes_int v b (?put TYPE_NUMBER_BYTE 1)"
    using take_bit_small [OF sint_pos [of v 8]] by (intro two) (simp_all add: type_defs push_simps del: le_bytes.simps)
  have word: "0 \<le> sint v \<Longrightarrow> sint v < 0x10000 \<Longrightarrow> writes_int v b (?put TYPE_NUMBER_WORD 2)"
    using take_bit_small [OF sint_pos [of v 16]] by (intro two) (simp_all add: type_defs push_simps)
  show ?thesis unfolding wb_integer_def Let_def
    using zero qword dword byte word by (simp del: One_nat_def split: if_split)
qed

lemma writes_integer:
  assumes "wb_ok b"
  shows "writes L (Integer v) b (wb_integer v b)"
proof -
  obtain c body where c: "c < 32" "c \<noteq> TYPE_NUMBER_REAL" "wb_ok (wb_integer v b)"
    "content (wb_integer v b) = content b @ COMBINE_TYPE TYPE_NUMBER c @ body"
    "\<And>rest. get_integer c (body @ rest) = Return (v, rest)"
    using wb_integer_writes [OF assms, of v] by (auto simp: writes_int_def)
  have "reads L (Integer v) (COMBINE_TYPE TYPE_NUMBER c @ body)"
    using c(1,2,5) by (simp add: reads_def unpack_combine type_defs push_value_def)
  then show ?thesis using c(3,4) by (auto simp: writes_def)
qed

lemma writes_string:
  assumes "wb_ok b" "length s < 2 ^ 31"
  shows "writes L (Str s) b (wb_string s b)"
proof -
  have s: "unat (word_of_nat (length s) :: u64) = length s" using assms(2) by (simp add: unat_of_nat)
  then have len: "length s < 2 ^ n \<Longrightarrow> unat (take_bit n (word_of_nat (length s) :: u64)) = length s" for n
    by (subst take_bit_small) simp_all
  have long: "writes L (Str s) b (wb_push s (wb_push (le_bytes n (word_of_nat (length s))) (wb_push (COMBINE_TYPE TYPE_LONG_STRING n) b)))"
    if "length s < 2 ^ (8 * n)" "n = 2 \<or> n = 4" for n
    using assms that len [of "8 * n"] wb_push_ok [of b] wb_push_ok [of "wb_push (COMBINE_TYPE TYPE_LONG_STRING n) b"]
      wb_push_ok [of "wb_push (le_bytes n (word_of_nat (length s))) (wb_push (COMBINE_TYPE TYPE_LONG_STRING n) b)"]
    by (auto simp: writes_def reads_def unpack_combine type_defs push_simps)
  have short: "length s < 32 \<Longrightarrow> writes L (Str s) b (wb_push s (wb_push (COMBINE_TYPE TYPE_SHORT_STRING (length s)) b))"
    by (rule writes_two [OF assms(1)]) (simp_all add: type_defs push_simps)
  have empty: "s = [] \<Longrightarrow> writes L (Str s) b (wb_push (COMBINE_TYPE TYPE_SHORT_STRING 0) b)"
    using assms wb_push_ok by (auto simp: writes_def reads_def unpack_combine type_defs push_simps rb_read_def)
  show ?thesis unfolding wb_string_def Let_def
    using long [of 2] long [of 4] short empty assms(2) by (auto simp: MAX_COOKIE_def)
qed

section \<open>Tables\<close>

lemma set_pair_new:
  "\<forall>e \<in> set es. \<not> raw_equal (fst e) k \<Longrightarrow> set_pair k v es = es @ (if v = Nil then [] else [(k, v)])"
  by (induction es) auto

lemma sint_index:
  assumes "i < 2 ^ 31"
  shows "sint (word_of_nat i :: u64) = int i"
  using assms int_word_sint [of "int i", where 'a = 64] by simp

lemma rawgeti_norm: "lua_rawgeti (map (map_prod (norm L) (norm L)) es) i = norm L (lua_rawgeti es i)"
proof -
  have "map_of (map (map_prod (norm L) (norm L)) es) (Integer w) = map_option (norm L) (map_of es (Integer w))" for w
    by (induction es) (auto simp: norm_simps)
  then show ?thesis by (simp add: lua_rawgeti_def split: option.split)
qed

text \<open>The head of a table.\<close>

lemma table_head:
  assumes "wb_ok b" "n < 2 ^ 31"
  shows "wb_ok (wb_table_size n b) \<and>
    (\<exists>head. content (wb_table_size n b) = content b @ head \<and>
       (\<forall>rest. unpack L (One (head @ rest)) = unpack L (ArrayPart 1 (int n) [] rest)))"
proof (cases "31 \<le> n")
  case True
  let ?b = "wb_push (COMBINE_TYPE TYPE_TABLE 31) b"
  have b: "wb_ok ?b" "content ?b = content b @ COMBINE_TYPE TYPE_TABLE 31" using wb_push_ok [OF assms(1)] by simp_all
  obtain c body where c: "c < 32" "c \<noteq> TYPE_NUMBER_REAL" "wb_ok (wb_integer (word_of_nat n) ?b)"
    "content (wb_integer (word_of_nat n) ?b) = content ?b @ COMBINE_TYPE TYPE_NUMBER c @ body"
    "\<And>rest. get_integer c (body @ rest) = Return (word_of_nat n, rest)"
    using wb_integer_writes [OF b(1), of "word_of_nat n"] by (auto simp: writes_int_def)
  have "sint (ucast (word_of_nat n :: u64) :: i32) = int n"
    using assms(2) int_word_sint [of "int n", where 'a = 32] by (simp add: unsigned_of_nat take_bit_eq_mod)
  then have "unpack L (One ((COMBINE_TYPE TYPE_TABLE 31 @ COMBINE_TYPE TYPE_NUMBER c @ body) @ rest)) = unpack L (ArrayPart 1 (int n) [] rest)" for rest
    using c(1,2,5) combine_parts [of 6 31] combine_parts [of 2 c]
    by (subst unpack.simps) (simp add: COMBINE_TYPE_def table_size_def rb_read_def type_defs)
  then show ?thesis using True b c(3,4) by (auto simp: wb_table_size_def MAX_COOKIE_def)
next
  case False
  then have "unpack L (One (COMBINE_TYPE TYPE_TABLE n @ rest)) = unpack L (ArrayPart 1 (int n) [] rest)" for rest
    using combine_parts [of 6 n] by (subst unpack.simps) (simp add: COMBINE_TYPE_def table_size_def type_defs)
  then show ?thesis using False wb_push_ok [OF assms(1)] by (auto simp: wb_table_size_def MAX_COOKIE_def)
qed

text \<open>The array part.\<close>

fun fill :: "lua_state \<Rightarrow> int \<Rightarrow> lua_value list \<Rightarrow> pairs \<Rightarrow> pairs" where
  "fill L i [] es = es"
| "fill L i (v # vs) es = fill L (i + 1) vs (set_pair (Integer (word_of_int i)) (norm L v) es)"

lemma unpack_array:
  assumes "list_all2 (reads L) vs bss" "i + int (length vs) = n + 1"
  shows "unpack L (ArrayPart i n es (concat bss @ rest)) = unpack L (HashPart (fill L i vs es) rest)"
  using assms
proof (induction vs bss arbitrary: i es rule: list_all2_induct)
  case Nil
  then show ?case by (subst unpack.simps) simp
next
  case (Cons v vs bs bss)
  have "i \<le> n" using Cons.prems by simp
  then show ?case using Cons by (subst unpack.simps) (simp add: reads_def)
qed

definition slots :: "(nat \<Rightarrow> lua_value) \<Rightarrow> nat list \<Rightarrow> pairs" where
  "slots f is = concat (map (\<lambda>i. case f i of Nil \<Rightarrow> [] | v \<Rightarrow> [(Integer (word_of_nat i), v)]) is)"

lemma slots_simps [simp]: "slots f [] = []"
  "slots f (i # is) = (if f i = Nil then [] else [(Integer (word_of_nat i), f i)]) @ slots f is"
  by (simp_all add: slots_def split: lua_value.split)

lemma slots_keys: "k \<in> fst ` set (slots f is) \<Longrightarrow> \<exists>i \<in> set is. k = Integer (word_of_nat i)"
  by (induction "is") (auto split: if_splits)

lemma index_inject: "i < 2 ^ 31 \<Longrightarrow> j < 2 ^ 31 \<Longrightarrow> (word_of_nat i :: u64) = word_of_nat j \<longleftrightarrow> i = j"
  by (metis of_nat_eq_iff sint_index)

lemma fill_slots:
  assumes "sorted_wrt (<) is" "\<forall>j \<in> set is. j < 2 ^ 31" "is = [i..<i + length is]"
    "\<forall>e \<in> set es. \<forall>j \<in> set is. fst e \<noteq> Integer (word_of_nat j)"
  shows "fill L (int i) (map f is) es = es @ slots (norm L \<circ> f) is"
  using assms
proof (induction "is" arbitrary: i es)
  case (Cons j js)
  have "[i..<i + length (j # js)] = i # [Suc i..<Suc i + length js]" by (subst upt_conv_Cons) simp_all
  then have j: "j = i" "js = [Suc i..<Suc i + length js]" using Cons.prems(3) by simp_all
  let ?es = "es @ (if norm L (f j) = Nil then [] else [(Integer (word_of_nat i), norm L (f j))])"
  have "set_pair (Integer (word_of_int (int i))) (norm L (f j)) es = ?es"
    using Cons.prems(4) j(1) by (subst set_pair_new) (auto simp: raw_equal_scalar)
  moreover have "\<forall>e \<in> set ?es. \<forall>k \<in> set js. fst e \<noteq> Integer (word_of_nat k)"
    using Cons.prems(1,2,4) j(1) by (auto simp: index_inject split: if_splits)
  then have "fill L (int (Suc i)) (map f js) ?es = ?es @ slots (norm L \<circ> f) js"
    using Cons.prems(1,2) by (intro Cons.IH [OF _ _ j(2)]) simp_all
  ultimately show ?case by (simp add: j(1) add.commute comp_def)
qed simp

text \<open>The pairs behind it.\<close>

lemma rawset_new:
  assumes "key_ok L k" "v \<noteq> Nil" "distinct (filter scalar (map fst es @ [k]))"
  shows "lua_rawset L (norm L k) (norm L v) es = Return (es @ [(norm L k, norm L v)])"
proof -
  have "\<forall>e \<in> set es. \<not> raw_equal (fst e) (norm L k)"
    using assms(3) by (auto simp: raw_equal_scalar norm_simps)
  then show ?thesis using assms(1,2)
    by (auto simp: lua_rawset_def table_key_def key_ok_def set_pair_new norm_simps split: lua_value.splits)
qed

lemma unpack_hash:
  assumes "list_all2 (reads L) (concat (map (\<lambda>(k, v). [k, v]) ps)) bss" "reads L Nil nil"
    "\<forall>e \<in> set ps. key_ok L (fst e) \<and> snd e \<noteq> Nil" "distinct (filter scalar (map fst es @ map fst ps))"
  shows "unpack L (HashPart es (concat bss @ nil @ rest)) = Some (Return (Table (es @ map (map_prod (norm L) (norm L)) ps), rest))"
  using assms
proof (induction ps arbitrary: es bss)
  case Nil
  then show ?case by (subst unpack.simps) (simp add: reads_def)
next
  case (Cons e ps)
  obtain k v where e: "e = (k, v)" by fastforce
  obtain bk bv bss' where bss: "bss = bk # bv # bss'" and r: "reads L k bk" "reads L v bv"
    "list_all2 (reads L) (concat (map (\<lambda>(k, v). [k, v]) ps)) bss'"
    using Cons.prems(1) by (auto simp: e list_all2_Cons1)
  have k: "key_ok L k" "v \<noteq> Nil" "norm L k \<noteq> Nil"
    using Cons.prems(3) by (auto simp: e norm_simps key_ok_def)
  have "distinct (filter scalar (map fst es @ [k]))" using Cons.prems(4) by (auto simp: e split: if_splits)
  note set = rawset_new [OF k(1,2) this]
  have "filter scalar (map fst (es @ [(norm L k, norm L v)]) @ map fst ps) = filter scalar (map fst es @ map fst (e # ps))"
    by (simp add: norm_simps e)
  then have "distinct (filter scalar (map fst (es @ [(norm L k, norm L v)]) @ map fst ps))"
    using Cons.prems(4) by (simp only:)
  note IH = Cons.IH [OF r(3) Cons.prems(2) _ this]
  have "unpack L (HashPart es (concat bss @ nil @ rest)) = unpack L (HashPart (es @ [(norm L k, norm L v)]) (concat bss' @ nil @ rest))"
    using r k(3) set by (subst unpack.simps) (simp add: bss reads_def)
  then show ?case using IH Cons.prems(3) by (simp add: e)
qed

lemma in_array_norm: "in_array n (norm L k) \<longleftrightarrow> in_array n k"
  by (cases k) (simp_all add: in_array_def)

lemma in_array_index: "1 \<le> i \<Longrightarrow> i \<le> n \<Longrightarrow> n < 2 ^ 31 \<Longrightarrow> in_array n (Integer (word_of_nat i))"
  by (simp add: in_array_def sint_index)

lemma slots_distinct:
  assumes "distinct is" "\<forall>i \<in> set is. i < 2 ^ 31"
  shows "distinct (map fst (slots f is))"
  using assms
proof (induction "is")
  case (Cons i "is")
  have "Integer (word_of_nat i) \<notin> fst ` set (slots f is)"
    using Cons.prems slots_keys [of _ f "is"] by (auto simp: index_inject dest!: slots_keys)
  then show ?case using Cons by simp
qed simp

lemma arrange_slots: "arrange n es = slots (lua_rawgeti es) [1..<Suc n] @ filter (\<lambda>(k, v). \<not> in_array n k) es"
  by (simp add: arrange_def slots_def)

lemma norm_table:
  "norm L (Table es) =
     Table (slots (norm L \<circ> lua_rawgeti es) [1..<Suc (lua_rawlen L es)] @
       map (map_prod (norm L) (norm L)) (filter (\<lambda>(k, v). \<not> in_array (lua_rawlen L es) k) es))"
proof -
  have "lua_rawgeti (map (map_prod (norm L) (norm L)) es) = norm L \<circ> lua_rawgeti es" by (rule ext) (simp add: rawgeti_norm)
  moreover have "filter (\<lambda>(k, v). \<not> in_array n k) (map (map_prod (norm L) (norm L)) es) =
      map (map_prod (norm L) (norm L)) (filter (\<lambda>(k, v). \<not> in_array n k) es)" for n
    by (induction es) (auto simp: in_array_norm)
  ultimately show ?thesis by (simp only: norm.simps arrange_slots)
qed

lemma distinct_keys:
  "distinct (map fst a) \<Longrightarrow> distinct (filter scalar ks) \<Longrightarrow> (\<And>k. k \<in> fst ` set a \<Longrightarrow> P k) \<Longrightarrow> (\<And>k. k \<in> set ks \<Longrightarrow> \<not> P k) \<Longrightarrow>
   distinct (filter scalar (map fst a @ ks))"
  by auto

lemma table_reads:
  assumes "plain L (Table es)" "n = lua_rawlen L es" "n < 2 ^ 31" "reads L Nil nil"
    "\<forall>rest. unpack L (One (head @ rest)) = unpack L (ArrayPart 1 (int n) [] rest)"
    "list_all2 (reads L) (array_values n es) as" "list_all2 (reads L) (hash_values n es) hs"
  shows "reads L (Table es) (head @ concat as @ concat hs @ nil)"
proof -
  let ?a = "slots (norm L \<circ> lua_rawgeti es) [1..<Suc n]"
  let ?ps = "filter (\<lambda>(k, v). \<not> in_array n k) es"
  have "fill L (int 1) (map (lua_rawgeti es) [1..<Suc n]) [] = [] @ ?a"
    by (rule fill_slots) (use assms(3) in \<open>simp_all del: upt_Suc\<close>)
  then have fill: "fill L 1 (array_values n es) [] = ?a" by (simp add: array_values_def del: upt_Suc)
  have "distinct (map fst ?a)" using assms(3) by (intro slots_distinct) auto
  moreover have "filter scalar (map fst ?ps) = map fst (filter (\<lambda>(k, v). \<not> in_array n k) (filter (scalar \<circ> fst) es))"
    by (induction es) auto
  then have "distinct (filter scalar (map fst ?ps))"
    using assms(1) by (simp only: plain.simps filter_map distinct_map_filter)
  moreover have "in_array n k" if "k \<in> fst ` set ?a" for k
    using slots_keys [OF that] assms(3) in_array_index [of _ n] by auto
  ultimately have "distinct (filter scalar (map fst ?a @ map fst ?ps))" by (intro distinct_keys [where P = "in_array n"]) auto
  then have hash: "unpack L (HashPart ?a (concat hs @ nil @ rest)) = Some (Return (Table (?a @ map (map_prod (norm L) (norm L)) ?ps), rest))" for rest
    using assms(1,4,7) by (intro unpack_hash) (auto simp: hash_values_def)
  have "1 + int (length (array_values n es)) = int n + 1" by (simp add: array_values_def del: upt_Suc)
  then have "unpack L (ArrayPart 1 (int n) [] (concat as @ concat hs @ nil @ rest)) = unpack L (HashPart ?a (concat hs @ nil @ rest))" for rest
    using unpack_array [OF assms(6)] by (simp only: fill)
  then show ?thesis using assms(2,5) hash norm_table [of L es] by (simp add: reads_def)
qed

text \<open>The table the reader gets has the pairs of the table that was written.\<close>

lemma map_of_scalar:
  assumes "distinct (filter scalar (map fst es))" "scalar k"
  shows "map_of es k = Some v \<longleftrightarrow> (k, v) \<in> set es"
  using assms by (induction es) (auto simp: rev_image_eqI split: if_splits)

lemma in_array_Integer:
  assumes "in_array n k"
  shows "\<exists>i. k = Integer (word_of_nat i) \<and> 1 \<le> i \<and> i \<le> n"
proof -
  obtain x where x: "k = Integer x" "0 < sint x" "sint x \<le> int n"
    using assms by (auto simp: in_array_def split: lua_value.splits)
  then have "x = word_of_nat (nat (sint x))" by simp
  then show ?thesis using x by (intro exI [of _ "nat (sint x)"]) auto
qed

lemma in_array_scalar: "in_array n k \<Longrightarrow> scalar k"
  by (auto simp: in_array_def scalar_def split: lua_value.splits)

lemma slots_set: "set (slots f is) = {(Integer (word_of_nat i), f i) | i. i \<in> set is \<and> f i \<noteq> Nil}"
  by (induction "is") auto

lemma slots_mset:
  assumes "plain L (Table es)" "n < 2 ^ 31"
  shows "mset (slots (lua_rawgeti es) [1..<Suc n]) = mset (filter (\<lambda>(k, v). in_array n k) es)"
proof -
  let ?a = "filter (\<lambda>(k, v). in_array n k) es"
  have get: "lua_rawgeti es i = v \<and> v \<noteq> Nil \<longleftrightarrow> (Integer (word_of_nat i), v) \<in> set es" for i v
  proof -
    have "map_of es (Integer (word_of_nat i)) = Some v \<longleftrightarrow> (Integer (word_of_nat i), v) \<in> set es"
      using assms(1) by (intro map_of_scalar) (simp_all add: scalar_def)
    moreover have "map_of es (Integer (word_of_nat i)) \<noteq> Some Nil"
      using assms(1) by (auto dest!: map_of_SomeD)
    ultimately show ?thesis by (auto simp: lua_rawgeti_def split: option.splits)
  qed
  have sets: "set (slots (lua_rawgeti es) [1..<Suc n]) = set ?a"
  proof (intro set_eqI iffI)
    fix e assume "e \<in> set (slots (lua_rawgeti es) [1..<Suc n])"
    then obtain i where "e = (Integer (word_of_nat i), lua_rawgeti es i)" "1 \<le> i" "i \<le> n" "lua_rawgeti es i \<noteq> Nil"
      by (auto simp: slots_set simp del: upt_Suc)
    then show "e \<in> set ?a" using get [of i] in_array_index [of i n] assms(2) by auto
  next
    fix e assume e: "e \<in> set ?a"
    then obtain i where "fst e = Integer (word_of_nat i)" "1 \<le> i" "i \<le> n" using in_array_Integer [of n "fst e"] by auto
    then show "e \<in> set (slots (lua_rawgeti es) [1..<Suc n])"
      using e get [of i "snd e"] by (cases e) (auto simp: slots_set simp del: upt_Suc)
  qed
  have slots: "distinct (slots (lua_rawgeti es) [1..<Suc n])"
    using slots_distinct [of "[1..<Suc n]" "lua_rawgeti es"] assms(2) by (auto simp: distinct_map simp del: upt_Suc)
  have "distinct (map fst (filter (\<lambda>(k, v). in_array n k) (filter (scalar \<circ> fst) es)))"
    using assms(1) by (simp only: plain.simps filter_map distinct_map_filter)
  moreover have "filter (\<lambda>(k, v). in_array n k) (filter (scalar \<circ> fst) es) = ?a"
    using in_array_scalar by (induction es) auto
  ultimately have "distinct ?a" by (simp add: distinct_map)
  then show ?thesis using sets slots by (simp only: set_eq_iff_mset_eq_distinct)
qed

lemma table_same:
  assumes "plain L (Table es)" "n = lua_rawlen L es" "n < 2 ^ 31"
    "\<forall>v \<in> set (array_values n es). same v (norm L v)" "\<forall>v \<in> set (hash_values n es). same v (norm L v)"
  shows "same (Table es) (norm L (Table es))"
proof -
  let ?h = "filter (\<lambda>(k, v). \<not> in_array n k) es"
  have "list_all2 (rel_prod same same) (slots f is) (slots (norm L \<circ> f) is)" if "\<forall>i \<in> set is. same (f i) (norm L (f i))" for f "is"
    using that by (induction "is") (auto simp: norm_simps)
  then have a: "list_all2 (rel_prod same same) (slots (lua_rawgeti es) [1..<Suc n]) (slots (norm L \<circ> lua_rawgeti es) [1..<Suc n])"
    using assms(4) by (simp add: array_values_def del: upt_Suc)
  have h: "list_all2 (rel_prod same same) ?h (map (map_prod (norm L) (norm L)) ?h)"
    using assms(5) by (auto simp: list.rel_map hash_values_def intro!: list.rel_refl_strong)
  have m: "mset (slots (lua_rawgeti es) [1..<Suc n] @ ?h) = mset es"
    using slots_mset [OF assms(1,3)] multiset_partition [of "mset es" "\<lambda>(k, v). in_array n k"]
    by (simp add: case_prod_unfold del: upt_Suc)
  show ?thesis unfolding norm_table assms(2) [symmetric] by (rule same_table [OF m list_all2_appendI [OF a h]])
qed

text \<open>A list of values is written as the values one after another.\<close>

definition writes_list :: "lua_state \<Rightarrow> lua_value list \<Rightarrow> write_block \<Rightarrow> write_block \<Rightarrow> bool" where
  "writes_list L vs b b' \<longleftrightarrow> (\<forall>v \<in> set vs. same v (norm L v)) \<and> wb_ok b' \<and> (\<exists>bss. content b' = content b @ concat bss \<and> list_all2 (reads L) vs bss)"

lemma writes_list_Nil: "wb_ok b \<Longrightarrow> writes_list L [] b b"
  by (auto simp: writes_list_def)

lemma writes_list_Cons: "writes L v b b1 \<Longrightarrow> writes_list L vs b1 b2 \<Longrightarrow> writes_list L (v # vs) b b2"
  by (auto simp: writes_list_def writes_def) (metis concat.simps(2) list_all2_Cons)

lemma array_plain: "plain L (Table es) \<Longrightarrow> \<forall>v \<in> set (array_values n es). plain L v"
  by (auto simp: array_values_def lua_rawgeti_def split: option.split dest!: map_of_SomeD)

lemma hash_plain: "plain L (Table es) \<Longrightarrow> \<forall>v \<in> set (hash_values n es). plain L v"
  by (auto simp: hash_values_def)

lemma writes_table:
  assumes "plain L (Table es)" "n = lua_rawlen L es" "n < 2 ^ 31" "wb_ok b"
    "writes_list L (array_values n es) (wb_table_size n b) b1" "writes_list L (hash_values n es) b1 b2"
  shows "writes L (Table es) b (wb_nil b2)"
proof -
  obtain head where head: "content (wb_table_size n b) = content b @ head"
    "\<forall>rest. unpack L (One (head @ rest)) = unpack L (ArrayPart 1 (int n) [] rest)"
    using table_head [OF assms(4,3), of L] by blast
  obtain as hs where lists: "content b1 = content (wb_table_size n b) @ concat as" "list_all2 (reads L) (array_values n es) as"
    "content b2 = content b1 @ concat hs" "list_all2 (reads L) (hash_values n es) hs"
    using assms(5,6) by (auto simp: writes_list_def)
  obtain nil where nil: "wb_ok (wb_nil b2)" "content (wb_nil b2) = content b2 @ nil" "reads L Nil nil"
    using writes_nil [of b2 L] assms(6) by (auto simp: writes_list_def writes_def)
  have "same (Table es) (norm L (Table es))"
    using assms(5,6) by (intro table_same [OF assms(1-3)]) (simp_all add: writes_list_def)
  then show ?thesis
    using table_reads [OF assms(1-3) nil(3) head(2) lists(2,4)] nil(1,2) head(1) lists(1,3)
    by (auto simp: writes_def simp del: norm.simps)
qed

section \<open>Round trip\<close>

lemma int_size: "n < 2 ^ 31 \<Longrightarrow> sint (word_of_nat n :: i32) = int n"
  using int_word_sint [of "int n", where 'a = 32] by simp

lemma return_conv:
  "(case r of Raise e \<Rightarrow> Some (Raise e) | Return x \<Rightarrow> f x) = Some (Return y) \<longleftrightarrow> (\<exists>x. r = Return x \<and> f x = Some (Return y))"
  "(case r of Raise e \<Rightarrow> Raise e | Return x \<Rightarrow> Return (g x)) = Return y \<longleftrightarrow> (\<exists>x. r = Return x \<and> g x = y)"
  by (auto split: lua.splits)

lemma pack_writes:
  "pack_one L v d b = Some (Return b') \<Longrightarrow> plain L v \<Longrightarrow> wb_ok b \<Longrightarrow> writes L v b b'"
  "pack_list L vs d b = Some (Return b') \<Longrightarrow> \<forall>v \<in> set vs. plain L v \<Longrightarrow> wb_ok b \<Longrightarrow> writes_list L vs b b'"
proof (induction L v d b and L vs d b arbitrary: b' and b' rule: pack_one_pack_list.induct)
  case (1 L v d b)
  have d: "\<not> MAX_DEPTH < d" using "1.prems"(1) by (auto simp: pack_one.simps)
  show ?case
  proof (cases v)
    case (Table es)
    let ?n = "lua_rawlen L es"
    obtain b1 b2 where p: "?n < 2 ^ 31" "pack_list L (array_values ?n es) (d + 1) (wb_table_size ?n b) = Some (Return b1)"
      "pack_list L (hash_values ?n es) (d + 1) b1 = Some (Return b2)" "b' = wb_nil b2"
      using "1.prems"(1) d Table
      by (auto simp: pack_one.simps Let_def bind_eq_Some_conv guard_def return_conv split: if_splits)
    have ok: "wb_ok (wb_table_size ?n b)" using table_head [OF "1.prems"(3) p(1)] by blast
    have g: "guard (?n < 2 ^ 31) = Some ()" using p(1) by (simp add: guard_def)
    have es: "plain L (Table es)" using "1.prems"(2) Table by (simp only:)
    have w1: "writes_list L (array_values ?n es) (wb_table_size ?n b) b1"
      by (rule "1.IH"(1) [OF d Table refl g p(2) array_plain [OF es] ok])
    then have "wb_ok b1" by (simp add: writes_list_def)
    then have "writes_list L (hash_values ?n es) b1 b2"
      by (rule "1.IH"(2) [OF d Table refl g p(2) refl p(3) hash_plain [OF es]])
    then show ?thesis using writes_table [OF es refl p(1) "1.prems"(3) w1] p(4) Table by simp
  qed (use "1.prems" d in \<open>auto simp: pack_one.simps guard_def bind_eq_Some_conv split: if_splits
         intro: writes_nil writes_boolean writes_integer writes_real writes_pointer writes_string\<close>)
next
  case (2 L d b)
  then show ?case by (simp add: writes_list_Nil)
next
  case (3 L v vs d b)
  obtain b1 where p: "pack_one L v d b = Some (Return b1)" "pack_list L vs d b1 = Some (Return b')"
    using "3.prems"(1) by (auto simp: bind_eq_Some_conv return_conv)
  have w: "writes L v b b1" using "3.IH"(1) [OF p(1)] "3.prems"(2,3) by simp
  moreover have "writes_list L vs b1 b'" using "3.IH"(2) [OF p(1) refl p(2)] "3.prems"(2) w by (simp add: writes_def)
  ultimately show ?case by (rule writes_list_Cons)
qed

lemma unpack_all_reads:
  assumes "list_all2 (reads L) vs bss"
  shows "unpack_all L (concat bss) = Some (Return (map (norm L) vs))"
  using assms
proof (induction rule: list_all2_induct)
  case (Cons v vs bs bss)
  have "bs \<noteq> []"
  proof
    assume "bs = []"
    then have "unpack L (One []) = Some (Return (norm L v, []))" using Cons.hyps(1) by (auto simp: reads_def)
    then show False by (subst (asm) unpack.simps) (simp add: invalid_stream_def)
  qed
  then show ?case using Cons by (subst unpack_all.simps) (simp add: reads_def)
qed (simp add: unpack_all.simps)

text \<open>C13. What is packed is unpacked to the same values: whenever \<open>luaseri_pack\<close> turns a list of
  values into bytes, \<open>luaseri_unpack\<close> returns on these bytes, and gives as many values, each the same
  as the one that was packed. Tables are the same when they have the same pairs in some order. The values are
  those of Lua tables without metamethods, and the border that \<open>lua_rawlen\<close> picks for a table does not matter,
  holes in the array part included.\<close>

theorem seri_roundtrip:
  assumes "list_all (plain L) vs" "luaseri_pack L vs = Some (Return bytes)"
  shows "\<exists>vs'. luaseri_unpack L bytes = Some (Return vs') \<and> list_all2 same vs vs'"
proof -
  obtain wb where wb: "pack_list L vs 0 wb_init = Some (Return wb)" "wb_len wb < 2 ^ 31"
    "seri (wb_blocks wb) (wb_len wb) = Some bytes"
    using assms(2) by (auto simp: luaseri_pack_def pack_from_def bind_eq_Some_conv guard_def return_conv split: if_splits)
  have w: "writes_list L vs wb_init wb"
    using pack_writes(2) [OF wb(1)] assms(1) wb_init_ok(1) by (simp add: list_all_iff)
  then obtain bss where bss: "wb_ok wb" "content wb = concat bss" "list_all2 (reads L) vs bss"
    by (auto simp: writes_list_def wb_init_ok)
  have "bytes = concat bss" "length bytes < 2 ^ 31" using seri_content [OF bss(1)] wb(2,3) bss(2) by simp_all
  then have "luaseri_unpack L bytes = Some (Return (map (norm L) vs))"
    using unpack_all_reads [OF bss(3)] by (simp only: luaseri_unpack_def int_size nat_int take_all order_refl)
  moreover have "list_all2 same vs (map (norm L) vs)"
    using w by (auto simp: writes_list_def list.rel_map intro!: list.rel_refl_strong)
  ultimately show ?thesis by blast
qed

definition example_state :: lua_state where
  "example_state = \<lparr>lua_rawlen = (\<lambda>es. if map_of es (Integer 1) = None then 0 else 1),
     lua_float_integer = (\<lambda>_. None), lua_float_nan = (\<lambda>_. False)\<rparr>"

definition example_values :: "lua_value list" where
  "example_values = [Integer 300, Table [(Str ''k'', Boolean True), (Integer 1, Str ''v''), (Table [], Boolean False)], Nil]"

definition example_bytes :: string where
  "example_bytes = map char_of ([18, 44, 1, 14, 12, 118, 12, 107, 9, 6, 0, 1, 0, 0] :: nat list)"

lemmas pushed = wb_push_ok [THEN conjunct1] wb_push_ok [THEN conjunct2] wb_init_ok

theorem seri_roundtrip_witness:
  "luaseri_pack example_state example_values = Some (Return example_bytes) \<and>
   (\<exists>vs'. luaseri_unpack example_state example_bytes = Some (Return vs') \<and> list_all2 same example_values vs')"
proof -
  have plain: "list_all (plain example_state) example_values" by code_simp
  obtain wb where wb: "pack_list example_state example_values 0 wb_init = Some (Return wb)" "wb_ok wb"
    "content wb = char_of (18 :: nat) # le_bytes 2 300 @ map char_of ([14, 12, 118, 12, 107, 9, 6, 0, 1, 0, 0] :: nat list)"
    by (simp add: example_values_def example_state_def pack_one.simps wb_integer_def wb_table_size_def MAX_DEPTH_def guard_def
      array_values_def hash_values_def lua_rawgeti_def in_array_def wb_string_def type_defs wb_boolean_def wb_nil_def Let_def
      pushed COMBINE_TYPE_def)
      (simp add: char_of_def bit_0)
  have "le_bytes 2 300 = map char_of ([44, 1] :: nat list)" by code_simp
  then have "content wb = example_bytes" using wb(3) by (simp add: example_bytes_def)
  then have pack: "luaseri_pack example_state example_values = Some (Return example_bytes)"
    using wb(1) seri_content [OF wb(2)] by (simp add: luaseri_pack_def pack_from_def guard_def example_bytes_def)
  then show ?thesis using seri_roundtrip [OF plain pack] by simp
qed

section \<open>The reader ends on every stream\<close>

definition ends :: "nat \<Rightarrow> (lua_value \<times> string) lua option \<Rightarrow> bool" where
  "ends n r \<longleftrightarrow> (case r of None \<Rightarrow> False | Some (Raise e) \<Rightarrow> True | Some (Return (v, rb)) \<Rightarrow> length rb < n)"

lemma ends_simps [simp]: "ends n (Some (Raise e))" "ends n (Some (Return (v, rb))) \<longleftrightarrow> length rb < n" "ends n (Some (invalid_stream rb line))"
  by (simp_all add: ends_def invalid_stream_def)

lemma ends_mono: "ends m r \<Longrightarrow> m \<le> n \<Longrightarrow> ends n r"
  by (auto simp: ends_def split: option.splits lua.splits)

lemma ends_cases:
  assumes "ends n r"
  obtains e where "r = Some (Raise e)" | v rb where "r = Some (Return (v, rb))" "length rb < n"
  using assms by (auto simp: ends_def split: option.splits lua.splits)

lemma read_ends:
  assumes "\<And>bytes rb'. length rb' \<le> length rb \<Longrightarrow> ends (Suc (length rb)) (Some (f (bytes, rb')))"
  shows "ends (Suc (length rb)) (Some (lua_bind (rb_read n line rb) f))"
  using assms by (simp add: rb_read_def invalid_stream_def)

lemma buffer_ends: "length rb \<le> m \<Longrightarrow> ends (Suc m) (Some (get_buffer n rb))"
  by (auto simp: get_buffer_def rb_read_def invalid_stream_def)

lemma integer_shrinks: "get_integer cookie rb = Return (n, rb') \<Longrightarrow> length rb' \<le> length rb"
  by (auto simp: get_integer_def rb_read_def invalid_stream_def split: if_splits)

lemma push_value_ends: "ends (Suc (length rb)) (Some (push_value type cookie rb))"
proof -
  have "ends (Suc (length rb)) (Some (lua_bind (get_real rb) (\<lambda>(n, rb). Return (Real n, rb))))"
    "ends (Suc (length rb)) (Some (lua_bind (get_pointer rb) (\<lambda>(n, rb). Return (Pointer n, rb))))"
    by (simp_all add: get_real_def get_pointer_def rb_read_def invalid_stream_def less_Suc_eq_le)
  moreover have "ends (Suc (length rb)) (Some (lua_bind (get_integer cookie rb) (\<lambda>(n, rb). Return (Integer n, rb))))"
    using integer_shrinks [of cookie rb] by (cases "get_integer cookie rb") (auto simp: less_Suc_eq_le)
  moreover have "ends (Suc (length rb)) (Some (get_long n line rb))" for n line
    unfolding get_long_def by (rule read_ends) (simp add: buffer_ends)
  ultimately show ?thesis by (simp add: push_value_def buffer_ends)
qed

lemma table_size_shrinks:
  assumes "table_size cookie rb = Return (n, rb')"
  shows "length rb' \<le> length rb"
proof (cases "cookie = MAX_COOKIE - 1")
  case True
  then obtain c m where "get_integer c (drop 1 rb) = Return (m, rb')"
    using assms by (auto simp: table_size_def rb_read_def invalid_stream_def Let_def split: if_splits elim: lua_bind.elims)
  then show ?thesis using integer_shrinks [of c "drop 1 rb" m rb'] by simp
qed (use assms in \<open>simp add: table_size_def\<close>)

lemma hash_ends:
  assumes "\<And>rb. length rb < m \<Longrightarrow> ends (length rb) (unpack L (One rb))" "length rb < m"
  shows "ends (length rb) (unpack L (HashPart es rb))"
  using assms(2)
proof (induction "length rb" arbitrary: rb es rule: less_induct)
  case less
  show ?case
  proof (cases rule: ends_cases [OF assms(1) [OF less.prems]])
    case (1 e)
    then show ?thesis by (subst unpack.simps) simp
  next
    case (2 k rb1)
    have one: "ends (length rb1) (unpack L (One rb1))" using 2(2) less.prems by (intro assms(1)) simp
    show ?thesis
    proof (cases rule: ends_cases [OF one])
      case (1 e)
      then show ?thesis using 2 by (subst unpack.simps) simp
    next
      case (2 v rb2)
      then have "length rb2 < length rb" "length rb2 < m" using \<open>length rb1 < length rb\<close> less.prems by simp_all
      then have "ends (length rb) (unpack L (HashPart es' rb2))" for es' by (meson ends_mono less.hyps less_imp_le)
      then show ?thesis using 2 \<open>unpack L (One rb) = Some (Return (k, rb1))\<close> \<open>length rb1 < length rb\<close>
        by (subst unpack.simps) (auto split: lua.splits)
    qed
  qed
qed

lemma array_ends:
  assumes "\<And>rb. length rb < m \<Longrightarrow> ends (length rb) (unpack L (One rb))" "length rb < m"
  shows "ends (length rb) (unpack L (ArrayPart i n es rb))"
  using assms(2)
proof (induction "length rb" arbitrary: rb i es rule: less_induct)
  case less
  show ?case
  proof (cases "i \<le> n")
    case False
    then show ?thesis using hash_ends [OF assms(1) less.prems] by (subst unpack.simps) simp
  next
    case True
    show ?thesis
    proof (cases rule: ends_cases [OF assms(1) [OF less.prems]])
      case (1 e)
      then show ?thesis using True by (subst unpack.simps) simp
    next
      case (2 v rb1)
      then have "ends (length rb) (unpack L (ArrayPart i' n es' rb1))" for i' es'
        using less.prems by (meson ends_mono less.hyps less_imp_le less_trans)
      then show ?thesis using True 2 by (subst unpack.simps) simp
    qed
  qed
qed

lemma unpack_ends: "ends (length rb) (unpack L (One rb))"
proof (induction "length rb" arbitrary: rb rule: less_induct)
  case less
  show ?case
  proof (cases rb)
    case Nil
    then show ?thesis by (subst unpack.simps) simp
  next
    case (Cons t rb1)
    have array: "ends (length rb) (unpack L (ArrayPart 1 n [] rb2))" if "length rb2 \<le> length rb1" for n rb2
      using array_ends [of "length rb" L rb2 1 n "[]"] less that Cons by (auto intro: ends_mono)
    show ?thesis
    proof (cases "of_char t mod 8 = TYPE_TABLE")
      case True
      then show ?thesis using array table_size_shrinks [of "of_char t div 8" rb1]
        by (subst unpack.simps) (auto simp: Cons split: lua.splits)
    next
      case False
      then show ?thesis using push_value_ends [of rb1] by (subst unpack.simps) (simp add: Cons)
    qed
  qed
qed

lemma unpack_all_ends: "\<exists>r. unpack_all L rb = Some r"
proof (induction "length rb" arbitrary: rb rule: less_induct)
  case less
  show ?case
  proof (cases rule: ends_cases [OF unpack_ends [of rb L]])
    case (1 e)
    then show ?thesis by (subst unpack_all.simps) simp
  next
    case (2 v rb1)
    then show ?thesis using less.hyps [of rb1] by (subst unpack_all.simps) auto
  qed
qed

text \<open>C17. Deserialisation ends on every buffer, whatever its bytes: \<open>luaseri_unpack\<close> returns a list of
  values or raises a Lua error.\<close>

theorem unpack_terminates: "\<exists>r. luaseri_unpack L buffer = Some r"
  unfolding luaseri_unpack_def by (rule unpack_all_ends)

end
