(* ===== verification/Netpack.thy ===== *)
theory Netpack
  imports Bytes NodeSocket
begin

text \<open>
  \<open>lib/netpack/lua-netpack.c\<close>: packets of the form length (two bytes, the higher first) and data are
  cut from the blocks that arrive on sockets. Packets that are ready wait in a queue, the
  beginning of one that is not complete is kept in a hash table by socket. The userdata that holds
  both is \<open>None\<close> as long as it is \<open>nil\<close> in Lua. A read or a write out of bounds is \<open>None\<close>.
\<close>

section \<open>The queue\<close>

definition QUEUESIZE :: nat where "QUEUESIZE = 1024"
definition HASHSIZE :: nat where "HASHSIZE = 4096"

record netpack =
  np_id :: i32
  np_size :: nat
  np_buffer :: string

record uncomplete =
  uc_pack :: netpack
  uc_read :: int
  uc_header :: nat

record queue =
  qu_cap :: nat
  qu_head :: nat
  qu_tail :: nat
  qu_hash :: "nat \<Rightarrow> uncomplete list"
  qu_queue :: "netpack option list"

definition hash_fd :: "i32 \<Rightarrow> nat" where
  "hash_fd fd = unat (signed_drop_bit 24 fd + signed_drop_bit 12 fd + fd) mod HASHSIZE"

fun unlink :: "i32 \<Rightarrow> uncomplete list \<Rightarrow> (uncomplete \<times> uncomplete list) option" where
  \<comment> \<open>the first of the chain that is for this socket, and the chain without it\<close>
  "unlink fd [] = None"
| "unlink fd (uc # ucs) =
     (if np_id (uc_pack uc) = fd then Some (uc, ucs)
      else do { (x, rest) \<leftarrow> unlink fd ucs; Some (x, uc # rest) })"

definition find_uncomplete :: "queue option \<Rightarrow> i32 \<Rightarrow> (uncomplete \<times> queue) option" where
  "find_uncomplete q fd = do {
     q \<leftarrow> q;
     (uc, rest) \<leftarrow> unlink fd (qu_hash q (hash_fd fd));
     Some (uc, q\<lparr>qu_hash := (qu_hash q)(hash_fd fd := rest)\<rparr>) }"

definition link :: "uncomplete \<Rightarrow> queue \<Rightarrow> queue" where
  "link uc q = (let h = hash_fd (np_id (uc_pack uc)) in q\<lparr>qu_hash := (qu_hash q)(h := uc # qu_hash q h)\<rparr>)"

definition get_queue :: "queue option \<Rightarrow> queue" where
  "get_queue q =
     (case q of
        Some q \<Rightarrow> q
      | None \<Rightarrow> \<lparr>qu_cap = QUEUESIZE, qu_head = 0, qu_tail = 0, qu_hash = (\<lambda>i. []), qu_queue = replicate QUEUESIZE None\<rparr>)"

definition expand_queue :: "queue \<Rightarrow> queue" where
  "expand_queue q =
     q\<lparr>qu_cap := qu_cap q + QUEUESIZE, qu_head := 0, qu_tail := qu_cap q,
       qu_queue := map (\<lambda>i. qu_queue q ! ((qu_head q + i) mod qu_cap q)) [0..<qu_cap q] @ replicate QUEUESIZE None\<rparr>"

definition push_data :: "i32 \<Rightarrow> string \<Rightarrow> nat \<Rightarrow> queue option \<Rightarrow> queue option" where
  \<comment> \<open>the block is copied or handed over\<close>
  "push_data fd buffer sz q =
     (let q = get_queue q;
          np = \<lparr>np_id = fd, np_size = sz, np_buffer = buffer\<rparr>;
          tail = (if qu_cap q \<le> qu_tail q + 1 then qu_tail q + 1 - qu_cap q else qu_tail q + 1)
      in do {
        guard (qu_tail q < length (qu_queue q));
        let q = q\<lparr>qu_queue := (qu_queue q)[qu_tail q := Some np], qu_tail := tail\<rparr>;
        Some (if qu_head q = qu_tail q then expand_queue q else q) })"

definition lpop :: "queue option \<Rightarrow> (netpack option \<times> queue option) option" where
  "lpop q =
     (case q of
        None \<Rightarrow> Some (None, None)
      | Some q \<Rightarrow>
          if qu_head q = qu_tail q then Some (None, Some q)
          else do {
            guard (qu_head q < length (qu_queue q));
            np \<leftarrow> qu_queue q ! qu_head q;
            let head = (if qu_cap q \<le> qu_head q + 1 then 0 else qu_head q + 1);
            Some (Some np, Some (q\<lparr>qu_head := head\<rparr>)) })"

definition lclear :: "queue option \<Rightarrow> queue option" where
  \<comment> \<open>the blocks of the waiting packets are freed\<close>
  "lclear q = map_option (\<lambda>q. q\<lparr>qu_hash := (\<lambda>i. []), qu_head := 0, qu_tail := 0\<rparr>) q"

section \<open>Cutting packets\<close>

definition fresh :: "nat \<Rightarrow> string" where
  \<comment> \<open>a new block; what it holds is overwritten before it is read\<close>
  "fresh n = replicate n NUL"

definition fill_at :: "nat \<Rightarrow> string \<Rightarrow> string \<Rightarrow> string option" where
  \<comment> \<open>\<open>memcpy\<close> into a block from an offset\<close>
  "fill_at off bytes block = do {
     guard (off + length bytes \<le> length block);
     Some (take off block @ bytes @ drop (off + length bytes) block) }"

definition save_header :: "i32 \<Rightarrow> char \<Rightarrow> queue option \<Rightarrow> queue" where
  \<comment> \<open>\<open>save_uncomplete\<close> with one byte of the length\<close>
  "save_header fd c q =
     link \<lparr>uc_pack = \<lparr>np_id = fd, np_size = 0, np_buffer = []\<rparr>, uc_read = - 1, uc_header = of_char c\<rparr> (get_queue q)"

definition save_uncomplete :: "i32 \<Rightarrow> nat \<Rightarrow> string \<Rightarrow> queue option \<Rightarrow> queue option" where
  \<comment> \<open>with the length and a part of the data\<close>
  "save_uncomplete fd pack_size buffer q = do {
     block \<leftarrow> fill_at 0 buffer (fresh pack_size);
     Some (link \<lparr>uc_pack = \<lparr>np_id = fd, np_size = pack_size, np_buffer = block\<rparr>, uc_read = int (length buffer), uc_header = 0\<rparr>
             (get_queue q)) }"

definition read_size :: "string \<Rightarrow> nat option" where
  "read_size buffer = do { guard (2 \<le> length buffer); Some (of_char (buffer ! 0) * 256 + of_char (buffer ! 1)) }"

fun push_more :: "i32 \<Rightarrow> string \<Rightarrow> queue option \<Rightarrow> queue option" where
  "push_more fd buffer q =
     (if length buffer = 1 then Some (save_header fd (hd buffer) q)
      else do {
        pack_size \<leftarrow> read_size buffer;
        if length buffer < pack_size + 2 then save_uncomplete fd pack_size (drop 2 buffer) q
        else do {
          q \<leftarrow> push_data fd (take pack_size (drop 2 buffer)) pack_size q;
          let rest = drop (pack_size + 2) buffer;
          if 0 < length rest then push_more fd rest (Some q) else Some q } })"

declare push_more.simps [simp del]

datatype event =
    Quiet
  | Data i32 string
  | More
  | Open i32 string
  | Error i32 string
  | Close i32
  | Warning i32 i32

definition close_uncomplete :: "i32 \<Rightarrow> queue option \<Rightarrow> queue option" where
  "close_uncomplete fd q = (case find_uncomplete q fd of Some (uc, q) \<Rightarrow> Some q | None \<Rightarrow> q)"

definition read_header :: "uncomplete \<Rightarrow> string \<Rightarrow> (uncomplete \<times> string) option" where
  \<comment> \<open>the second byte of the length\<close>
  "read_header uc buffer =
     (if uc_read uc < 0 then do {
        guard (uc_read uc = - 1);
        guard (buffer \<noteq> []);
        let pack_size = uc_header uc * 256 + of_char (hd buffer);
        Some (uc\<lparr>uc_pack := (uc_pack uc)\<lparr>np_size := pack_size, np_buffer := fresh pack_size\<rparr>, uc_read := 0\<rparr>, tl buffer) }
      else Some (uc, buffer))"

definition fill_uncomplete :: "i32 \<Rightarrow> uncomplete \<Rightarrow> string \<Rightarrow> queue \<Rightarrow> (queue \<times> event) option" where
  "fill_uncomplete fd uc buffer q = do {
     (uc, buffer) \<leftarrow> read_header uc buffer;
     let need = np_size (uc_pack uc) - nat (uc_read uc);
     block \<leftarrow> fill_at (nat (uc_read uc)) (take need buffer) (np_buffer (uc_pack uc));
     let pack = (uc_pack uc)\<lparr>np_buffer := block\<rparr>;
     if length buffer < need then
       Some (link (uc\<lparr>uc_pack := pack, uc_read := uc_read uc + int (length buffer)\<rparr>) q, Quiet)
     else if length buffer = need then Some (q, Data fd block)
     else do {
       q \<leftarrow> push_data fd block (np_size pack) (Some q);
       q \<leftarrow> push_more fd (drop need buffer) (Some q);
       Some (q, More) } }"

definition start_packet :: "i32 \<Rightarrow> string \<Rightarrow> queue option \<Rightarrow> (queue option \<times> event) option" where
  "start_packet fd buffer q =
     (if length buffer = 1 then Some (Some (save_header fd (hd buffer) q), Quiet)
      else do {
        pack_size \<leftarrow> read_size buffer;
        let sz = length buffer - 2;
        if sz < pack_size then do { q \<leftarrow> save_uncomplete fd pack_size (drop 2 buffer) q; Some (Some q, Quiet) }
        else if sz = pack_size then Some (q, Data fd (drop 2 buffer))
        else do {
          q \<leftarrow> push_data fd (take pack_size (drop 2 buffer)) pack_size q;
          q \<leftarrow> push_more fd (drop (pack_size + 2) buffer) (Some q);
          Some (Some q, More) } })"

definition filter_data :: "i32 \<Rightarrow> string \<Rightarrow> queue option \<Rightarrow> (queue option \<times> event) option" where
  \<comment> \<open>the block of the socket message is freed\<close>
  "filter_data fd buffer q =
     (case find_uncomplete q fd of
        Some (uc, q) \<Rightarrow> do { (q, ev) \<leftarrow> fill_uncomplete fd uc buffer q; Some (Some q, ev) }
      | None \<Rightarrow> start_packet fd buffer q)"

definition pushstring :: "string \<Rightarrow> int \<Rightarrow> string lua option" where
  \<comment> \<open>a negative size is refused by \<open>lua_pushlstring\<close>\<close>
  "pushstring msg sz =
     (if sz < 0 then Some (Raise ''memory allocation error: block too big'')
      else do { guard (nat sz \<le> length msg); Some (Return (take (nat sz) msg)) })"

definition lfilter :: "uboss_socket_message \<Rightarrow> string \<Rightarrow> string \<Rightarrow> int \<Rightarrow> queue option \<Rightarrow> (queue option \<times> event lua) option" where
  \<comment> \<open>\<open>block\<close> is what the message points to, \<open>padding\<close> follows the message, \<open>sz\<close> is the size of message and padding\<close>
  "lfilter message block padding sz q =
     (let (buffer, sz) =
            (if sk_buffer message = NULL then (padding, sz - int sizeof_socket_message) else (block, - 1));
          string_event = (\<lambda>f q. do { r \<leftarrow> pushstring buffer sz; Some (q, lua_bind r (\<lambda>s. Return (f s))) })
      in if sk_type message = UBOSS_SOCKET_TYPE_DATA then do {
           guard (sz = - 1);
           guard (sint (sk_ud message) = int (length buffer));
           (q, ev) \<leftarrow> filter_data (sk_id message) buffer q;
           Some (q, Return ev) }
         else if sk_type message = UBOSS_SOCKET_TYPE_CLOSE then
           Some (close_uncomplete (sk_id message) q, Return (Close (sk_id message)))
         else if sk_type message = UBOSS_SOCKET_TYPE_ACCEPT then string_event (Open (sk_ud message)) q
         else if sk_type message = UBOSS_SOCKET_TYPE_ERROR then
           string_event (Error (sk_id message)) (close_uncomplete (sk_id message) q)
         else if sk_type message = UBOSS_SOCKET_TYPE_WARNING then
           Some (q, Return (Warning (sk_id message) (sk_ud message)))
         else Some (q, Return Quiet))"

section \<open>Packing\<close>

definition write_size :: "nat \<Rightarrow> string" where
  "write_size len = [char_of (len div 256 mod 256), char_of (len mod 256)]"

definition lpack :: "string \<Rightarrow> string lua" where
  "lpack msg =
     (if 0x10000 \<le> length msg
      then Raise (''Invalid size (too long) of data : '' @ print_d (sint (word_of_nat (length msg) :: i32)))
      else Return (write_size (length msg) @ msg))"

definition ltostring :: "string option \<Rightarrow> int \<Rightarrow> string lua option" where
  \<comment> \<open>\<open>NULL\<close> is an empty text; a block is freed\<close>
  "ltostring p sz = (case p of None \<Rightarrow> Some (Return []) | Some block \<Rightarrow> pushstring block sz)"

end
