(* ===== verification/NetpackProps.thy ===== *)
theory NetpackProps
  imports Netpack Ring GateProps
begin

text \<open>
  The packet library cuts the stream of every socket into the packets of the wire format, with
  the reference splitter that the gate is compared with: what is ready and what is kept after a
  block depends only on the bytes of that socket so far.
\<close>

section \<open>The queue\<close>

definition nq_ok :: "queue \<Rightarrow> bool" where
  "nq_ok q \<longleftrightarrow> length (qu_queue q) = qu_cap q \<and> ring_ok (qu_queue q) (qu_head q) (qu_tail q)"

definition nq_list :: "queue \<Rightarrow> netpack list" where
  "nq_list q = ring_list (qu_queue q) (qu_head q) (qu_tail q)"

definition ready :: "queue option \<Rightarrow> netpack list" where
  "ready q = (case q of None \<Rightarrow> [] | Some q \<Rightarrow> nq_list q)"

lemma wrap_mod:
  fixes t c :: nat
  assumes "t < c"
  shows "(if c \<le> t + 1 then t + 1 - c else t + 1) = (t + 1) mod c" "(if c \<le> t + 1 then 0 else t + 1) = (t + 1) mod c"
  using assms by (auto simp: not_le mod_if)

lemma get_queue_ok:
  "pred_option nq_ok q \<Longrightarrow> nq_ok (get_queue q)" "nq_list (get_queue q) = ready q"
  "qu_hash (get_queue q) = (case q of None \<Rightarrow> (\<lambda>i. []) | Some q \<Rightarrow> qu_hash q)"
  using ring_of_list [of QUEUESIZE "[] :: netpack list"]
  by (auto simp: get_queue_def nq_ok_def nq_list_def ready_def QUEUESIZE_def split: option.splits)

lemma push_data_ok:
  assumes "pred_option nq_ok q"
  shows "\<exists>q'. push_data fd buffer n q = Some q' \<and> nq_ok q' \<and>
    nq_list q' = ready q @ [\<lparr>np_id = fd, np_size = n, np_buffer = buffer\<rparr>] \<and> qu_hash q' = qu_hash (get_queue q)"
proof -
  define g where "g = get_queue q"
  let ?np = "\<lparr>np_id = fd, np_size = n, np_buffer = buffer\<rparr>"
  let ?t = "(qu_tail g + 1) mod qu_cap g"
  let ?g = "g\<lparr>qu_queue := (qu_queue g)[qu_tail g := Some ?np], qu_tail := ?t\<rparr>"
  have g: "length (qu_queue g) = qu_cap g" "ring_ok (qu_queue g) (qu_head g) (qu_tail g)" "nq_list g = ready q"
    using get_queue_ok [of q] assms by (simp_all add: g_def nq_ok_def)
  then have t: "qu_tail g < qu_cap g" "qu_head g < qu_cap g" by (simp_all add: ring_ok_def)
  have push: "push_data fd buffer n q = Some (if qu_head g = ?t then expand_queue ?g else ?g)"
    unfolding push_data_def Let_def g_def [symmetric] wrap_mod(1) [OF t(1)] using t g(1) by simp
  show ?thesis
  proof (cases "qu_head g = ?t")
    case False
    then show ?thesis
      using push ring_store [OF g(2), of ?np] g by (simp add: nq_ok_def nq_list_def flip: g_def)
  next
    case True
    have "map (\<lambda>i. qu_queue ?g ! ((qu_head ?g + i) mod qu_cap ?g)) [0..<qu_cap ?g] = map Some (ready q @ [?np])"
      using ring_full [OF g(2), of ?np] True g(1,3) by (simp add: nq_list_def)
    moreover from this have "length (ready q @ [?np]) = qu_cap g"
      using map_eq_imp_length_eq by fastforce
    ultimately show ?thesis
      using push True ring_of_list [of QUEUESIZE "ready q @ [?np]"]
      by (simp add: expand_queue_def nq_ok_def nq_list_def QUEUESIZE_def flip: g_def)
  qed
qed

lemma lpop_ok:
  assumes "pred_option nq_ok q"
  shows "(ready q = [] \<longrightarrow> lpop q = Some (None, q)) \<and>
    (ready q = np # nps \<longrightarrow> (\<exists>q'. lpop q = Some (Some np, Some q') \<and> nq_ok q' \<and> nq_list q' = nps \<and> qu_hash q' = qu_hash (the q)))"
proof (cases q)
  case (Some g)
  have g: "length (qu_queue g) = qu_cap g" "ring_ok (qu_queue g) (qu_head g) (qu_tail g)"
    using assms Some by (simp_all add: nq_ok_def)
  then have h: "qu_head g < qu_cap g" by (simp add: ring_ok_def)
  show ?thesis
  proof (cases "qu_head g = qu_tail g")
    case True
    then show ?thesis using g h ring_empty [of "qu_tail g" "qu_queue g"] by (simp add: Some lpop_def ready_def nq_list_def)
  next
    case False
    let ?h = "(qu_head g + 1) mod qu_cap g"
    obtain x where x: "qu_queue g ! qu_head g = Some x" "ring_ok (qu_queue g) ?h (qu_tail g)"
      "nq_list g = x # ring_list (qu_queue g) ?h (qu_tail g)"
      using ring_fetch [OF g(2) False] g(1) by (auto simp: nq_list_def)
    have "lpop q = Some (Some x, Some (g\<lparr>qu_head := ?h\<rparr>))"
      using wrap_mod(2) [OF h] False g h x(1) by (auto simp: lpop_def Some)
    then show ?thesis using x g(1) by (auto simp: Some ready_def nq_ok_def nq_list_def)
  qed
qed (simp add: lpop_def ready_def)

interpretation packet_queue: fifo "pred_option nq_ok" ready "\<lambda>np q. True"
  "\<lambda>np q. map_option Some (push_data (np_id np) (np_buffer np) (np_size np) q)" lpop
proof unfold_locales
  fix q and np :: netpack
  assume ok: "pred_option nq_ok q"
  show "\<exists>q'. map_option Some (push_data (np_id np) (np_buffer np) (np_size np) q) = Some q' \<and> pred_option nq_ok q' \<and>
      ready q' = ready q @ [np]"
    using push_data_ok [OF ok, of "np_id np" "np_buffer np" "np_size np"] by (auto simp: ready_def)
  show "ready q = [] \<Longrightarrow> \<exists>q'. lpop q = Some (None, q') \<and> pred_option nq_ok q' \<and> ready q' = []"
    using lpop_ok [OF ok] ok by auto
  show "ready q = np # nps \<Longrightarrow> \<exists>q'. lpop q = Some (Some np, q') \<and> pred_option nq_ok q' \<and> ready q' = nps" for nps
    using lpop_ok [OF ok, of np nps] by (auto simp: ready_def)
qed

section \<open>What is kept of a packet\<close>

definition uc_ok :: "uncomplete \<Rightarrow> bool" where
  "uc_ok uc \<longleftrightarrow>
     (if uc_read uc < 0 then uc_read uc = - 1 \<and> uc_header uc < 256
      else nat (uc_read uc) < np_size (uc_pack uc) \<and> np_size (uc_pack uc) < 0x10000 \<and>
           length (np_buffer (uc_pack uc)) = np_size (uc_pack uc))"

definition uc_bytes :: "uncomplete \<Rightarrow> string" where
  "uc_bytes uc =
     (if uc_read uc < 0 then [char_of (uc_header uc)]
      else write_size (np_size (uc_pack uc)) @ take (nat (uc_read uc)) (np_buffer (uc_pack uc)))"

abbreviation uc_id :: "uncomplete \<Rightarrow> i32" where
  "uc_id uc \<equiv> np_id (uc_pack uc)"

definition hash_ok :: "(nat \<Rightarrow> uncomplete list) \<Rightarrow> bool" where
  "hash_ok H \<longleftrightarrow> (\<forall>h. distinct (map uc_id (H h)) \<and> (\<forall>uc \<in> set (H h). hash_fd (uc_id uc) = h \<and> uc_ok uc))"

definition kept :: "(nat \<Rightarrow> uncomplete list) \<Rightarrow> i32 \<Rightarrow> string" where
  "kept H fd = (case List.find (\<lambda>uc. uc_id uc = fd) (H (hash_fd fd)) of None \<Rightarrow> [] | Some uc \<Rightarrow> uc_bytes uc)"

definition pending :: "queue option \<Rightarrow> i32 \<Rightarrow> string" where
  "pending q = (case q of None \<Rightarrow> (\<lambda>fd. []) | Some q \<Rightarrow> kept (qu_hash q))"

definition net_ok :: "queue option \<Rightarrow> bool" where
  "net_ok = pred_option (\<lambda>q. nq_ok q \<and> hash_ok (qu_hash q))"

lemma unlink_None: "unlink fd ucs = None \<longleftrightarrow> fd \<notin> uc_id ` set ucs"
  by (induction ucs) (auto split: bind_splits)

lemma find_None: "List.find (\<lambda>uc. uc_id uc = fd) ucs = None \<longleftrightarrow> fd \<notin> uc_id ` set ucs"
  by (auto simp: find_None_iff)

lemma unlink_splits: "unlink fd ucs = Some (uc, rest) \<Longrightarrow> \<exists>xs ys. ucs = xs @ uc # ys \<and> rest = xs @ ys \<and> uc_id uc = fd \<and> fd \<notin> uc_id ` set xs"
proof (induction ucs arbitrary: rest)
  case (Cons u ucs)
  show ?case
  proof (cases "uc_id u = fd")
    case True
    then show ?thesis using Cons.prems by (intro exI [of _ "[]"] exI [of _ ucs]) simp
  next
    case False
    then obtain r where r: "unlink fd ucs = Some (uc, r)" "rest = u # r" using Cons.prems by auto
    then obtain xs ys where "ucs = xs @ uc # ys" "r = xs @ ys" "uc_id uc = fd" "fd \<notin> uc_id ` set xs" using Cons.IH by blast
    then show ?thesis using r(2) False by (intro exI [of _ "u # xs"] exI [of _ ys]) auto
  qed
qed simp

lemma find_append: "List.find P (xs @ ys) = (case List.find P xs of None \<Rightarrow> List.find P ys | Some x \<Rightarrow> Some x)"
  by (induction xs) auto

lemma unlink_Some:
  assumes "unlink fd ucs = Some (uc, rest)" "distinct (map uc_id ucs)"
  shows "List.find (\<lambda>uc. uc_id uc = fd) ucs = Some uc" "uc \<in> set ucs" "uc_id uc = fd" "set rest \<subseteq> set ucs"
    "distinct (map uc_id rest)" "fd \<notin> uc_id ` set rest"
    "fd' \<noteq> fd \<Longrightarrow> List.find (\<lambda>uc. uc_id uc = fd') rest = List.find (\<lambda>uc. uc_id uc = fd') ucs"
proof -
  obtain xs ys where s: "ucs = xs @ uc # ys" "rest = xs @ ys" "uc_id uc = fd" "fd \<notin> uc_id ` set xs"
    using unlink_splits [OF assms(1)] by blast
  have "List.find (\<lambda>uc. uc_id uc = fd) xs = None" using s(4) find_None by metis
  then show "List.find (\<lambda>uc. uc_id uc = fd) ucs = Some uc" using s(1,3) by (simp add: find_append)
  show "uc \<in> set ucs" "uc_id uc = fd" "set rest \<subseteq> set ucs" using s by auto
  show "distinct (map uc_id rest)" "fd \<notin> uc_id ` set rest" using s assms(2) by auto
  show "List.find (\<lambda>uc. uc_id uc = fd') rest = List.find (\<lambda>uc. uc_id uc = fd') ucs" if "fd' \<noteq> fd"
    using s(1-3) that by (auto simp: find_append split: option.split)
qed

text \<open>Taking the entry of a socket out and putting one in.\<close>

lemma hash_taken:
  assumes "hash_ok H" "unlink fd (H (hash_fd fd)) = Some (uc, rest)"
  shows "uc_ok uc" "uc_id uc = fd" "kept H fd = uc_bytes uc" "hash_ok (H(hash_fd fd := rest))" "kept (H(hash_fd fd := rest)) fd = []"
    "\<And>fd'. fd' \<noteq> fd \<Longrightarrow> kept (H(hash_fd fd := rest)) fd' = kept H fd'" "fd \<notin> uc_id ` set rest"
proof -
  have d: "distinct (map uc_id (H (hash_fd fd)))" using assms(1) by (simp add: hash_ok_def)
  note u = unlink_Some [OF assms(2) d]
  show "uc_ok uc" using assms(1) u(2) by (auto simp: hash_ok_def)
  show "uc_id uc = fd" "fd \<notin> uc_id ` set rest" by (fact u)+
  show "kept H fd = uc_bytes uc" using u(1) by (simp add: kept_def)
  show "hash_ok (H(hash_fd fd := rest))" using assms(1) u(4,5) by (auto simp: hash_ok_def)
  have "List.find (\<lambda>uc. uc_id uc = fd) rest = None" using u(6) by (simp only: find_None not_False_eq_True)
  then show "kept (H(hash_fd fd := rest)) fd = []" by (simp add: kept_def)
  show "kept (H(hash_fd fd := rest)) fd' = kept H fd'" if "fd' \<noteq> fd" for fd' using u(7) [OF that] by (simp add: kept_def)
qed

lemma hash_linked:
  assumes "hash_ok H" "fd \<notin> uc_id ` set (H (hash_fd fd))" "uc_ok uc" "uc_id uc = fd"
  shows "hash_ok (H(hash_fd fd := uc # H (hash_fd fd)))" "kept (H(hash_fd fd := uc # H (hash_fd fd))) fd = uc_bytes uc"
    "\<And>fd'. fd' \<noteq> fd \<Longrightarrow> kept (H(hash_fd fd := uc # H (hash_fd fd))) fd' = kept H fd'"
  using assms by (auto simp: hash_ok_def kept_def)

lemma kept_None: "hash_ok H \<Longrightarrow> unlink fd (H (hash_fd fd)) = None \<Longrightarrow> kept H fd = []"
  unfolding unlink_None using find_None [of fd "H (hash_fd fd)"] by (simp add: kept_def)

section \<open>The wire format\<close>

lemma be_int_pair: "be_int [c, d] = int (of_char c) * 256 + int (of_char d)"
proof -
  have "of_char c < (256 :: nat)" "of_char d < (256 :: nat)" by simp_all
  then have "int (of_char c) * 256 + int (of_char d) < 2147483648" by linarith
  then show ?thesis by (simp add: be_int_def wrap32_def)
qed

lemma read_size_cut:
  assumes "read_size s = Some n"
  shows "cut 2 s = (if length s < n + 2 then None else Some (take n (drop 2 s), drop (n + 2) s))" "n < 0x10000"
proof -
  obtain c d r where s: "s = c # d # r" using assms by (cases s; cases "tl s") (auto simp: read_size_def)
  have n: "n = of_char c * 256 + of_char d" using assms by (simp add: read_size_def s)
  moreover have "of_char c < (256 :: nat)" "of_char d < (256 :: nat)" by simp_all
  ultimately show "n < 0x10000" by linarith
  have "nat (be_int (take 2 s)) = n" by (simp add: s be_int_pair n)
  then show "cut 2 s = (if length s < n + 2 then None else Some (take n (drop 2 s), drop (n + 2) s))"
    by (simp add: cut_def s add.commute)
qed

lemma read_size_write: "n < 0x10000 \<Longrightarrow> read_size (write_size n @ s) = Some n"
  by (simp add: read_size_def write_size_def)

lemma write_read_size: "read_size s = Some n \<Longrightarrow> write_size n @ drop 2 s = s"
proof -
  assume "read_size s = Some n"
  then obtain c d r where s: "s = c # d # r" "n = of_char c * 256 + of_char d"
    by (cases s; cases "tl s") (auto simp: read_size_def)
  have "of_char c < (256 :: nat)" "of_char d < (256 :: nat)" by simp_all
  then have "(of_char c * 256 + of_char d) div 256 mod 256 = (of_char c :: nat)" "(of_char c * 256 + of_char d) mod 256 = (of_char d :: nat)"
    by simp_all
  then show ?thesis by (simp add: s write_size_def)
qed

lemma split_none: "cut 2 s = None \<Longrightarrow> split_stream 2 s = ([], s)"
  by (simp add: split_stream.simps)

lemma split_some: "cut 2 s = Some (p, r) \<Longrightarrow> split_stream 2 s = (p # fst (split_stream 2 r), snd (split_stream 2 r))"
  by (simp add: split_stream.simps [of 2 s] split: prod.splits)

lemma split_short: "length s < 2 \<Longrightarrow> split_stream 2 s = ([], s)"
  by (intro split_none) (simp add: cut_def)

section \<open>One block\<close>

abbreviation packet :: "i32 \<Rightarrow> string \<Rightarrow> netpack" where
  "packet fd p \<equiv> \<lparr>np_id = fd, np_size = length p, np_buffer = p\<rparr>"

text \<open>The state after bytes of a socket: the packets that are ready, what is kept of that socket; the
  other sockets are not concerned.\<close>

definition after :: "i32 \<Rightarrow> string list \<Rightarrow> string \<Rightarrow> queue option \<Rightarrow> queue option \<Rightarrow> bool" where
  "after fd ps rest q q' \<longleftrightarrow> net_ok q' \<and> ready q' = ready q @ map (packet fd) ps \<and> pending q' fd = rest \<and>
     (\<forall>fd'. fd' \<noteq> fd \<longrightarrow> pending q' fd' = pending q fd')"

definition idle :: "i32 \<Rightarrow> queue option \<Rightarrow> bool" where
  \<comment> \<open>nothing is kept for the socket\<close>
  "idle fd q \<longleftrightarrow> net_ok q \<and> fd \<notin> uc_id ` set (qu_hash (get_queue q) (hash_fd fd))"

lemma pending_get: "pending q = kept (qu_hash (get_queue q))"
  by (auto simp: pending_def get_queue_def kept_def split: option.split)

lemma net_ok_get: "net_ok q \<Longrightarrow> nq_ok (get_queue q) \<and> hash_ok (qu_hash (get_queue q))"
  using get_queue_ok(1) [of q] by (cases q) (auto simp: net_ok_def get_queue_def hash_ok_def)

lemma link_after:
  assumes "idle fd q" "uc_ok uc" "uc_id uc = fd"
  shows "after fd [] (uc_bytes uc) q (Some (link uc (get_queue q)))"
proof -
  have g: "nq_ok (get_queue q)" "hash_ok (qu_hash (get_queue q))" using assms(1) net_ok_get by (simp_all add: idle_def)
  have "fd \<notin> uc_id ` set (qu_hash (get_queue q) (hash_fd fd))" using assms(1) by (simp add: idle_def)
  note h = hash_linked [OF g(2) this assms(2,3)]
  have "nq_list (link uc (get_queue q)) = ready q" "nq_ok (link uc (get_queue q))"
    using get_queue_ok(2) [of q] g(1) by (simp_all add: link_def Let_def nq_ok_def nq_list_def)
  then show ?thesis using h assms(3) pending_get [of q]
    by (simp add: after_def net_ok_def ready_def pending_def link_def Let_def)
qed

lemma save_header_after: "idle fd q \<Longrightarrow> after fd [] [c] q (Some (save_header fd c q))"
  unfolding save_header_def
  using link_after [of fd q "\<lparr>uc_pack = \<lparr>np_id = fd, np_size = 0, np_buffer = []\<rparr>, uc_read = - 1, uc_header = of_char c\<rparr>"]
  by (simp add: uc_ok_def uc_bytes_def)

lemma save_uncomplete_after:
  assumes "idle fd q" "read_size s = Some n" "length s < n + 2"
  shows "\<exists>q'. save_uncomplete fd n (drop 2 s) q = Some q' \<and> after fd [] s q (Some q')"
proof -
  have len: "2 \<le> length s" using assms(2) by (auto simp: read_size_def)
  let ?uc = "\<lparr>uc_pack = \<lparr>np_id = fd, np_size = n, np_buffer = drop 2 s @ drop (length s - 2) (fresh n)\<rparr>, uc_read = int (length s - 2), uc_header = 0\<rparr>"
  have "uc_ok ?uc" "uc_bytes ?uc = s"
    using assms len read_size_cut(2) [OF assms(2)] write_read_size [OF assms(2)] by (auto simp: uc_ok_def uc_bytes_def fresh_def)
  then have "after fd [] s q (Some (link ?uc (get_queue q)))" using link_after [OF assms(1), of ?uc] by simp
  moreover have "save_uncomplete fd n (drop 2 s) q = Some (link ?uc (get_queue q))"
  proof -
    have "length s - 2 \<le> n" using assms(3) len by linarith
    then show ?thesis by (simp add: save_uncomplete_def fill_at_def fresh_def)
  qed
  ultimately show ?thesis by blast
qed

lemma after_trans: "after fd ps r q q1 \<Longrightarrow> after fd ps' r' q1 q2 \<Longrightarrow> after fd (ps @ ps') r' q q2"
  by (simp add: after_def)

lemma push_data_after:
  assumes "idle fd q"
  shows "\<exists>q'. push_data fd p (length p) q = Some q' \<and> after fd [p] [] q (Some q') \<and> idle fd (Some q')"
proof -
  have ok: "pred_option nq_ok q" using assms by (cases q) (simp_all add: idle_def net_ok_def)
  obtain q' where q': "push_data fd p (length p) q = Some q'" "nq_ok q'" "nq_list q' = ready q @ [packet fd p]"
    "qu_hash q' = qu_hash (get_queue q)"
    using push_data_ok [OF ok, of fd p "length p"] by blast
  have h: "hash_ok (qu_hash q')" "fd \<notin> uc_id ` set (qu_hash q' (hash_fd fd))"
    using assms net_ok_get [of q] q'(4) by (simp_all add: idle_def)
  then have "kept (qu_hash q') fd = []" using kept_None unlink_None by metis
  then show ?thesis using q' h pending_get [of q]
    by (auto simp: after_def idle_def net_ok_def ready_def pending_def get_queue_def)
qed

lemma push_more_after:
  assumes "idle fd q" "s \<noteq> []"
  shows "\<exists>q'. push_more fd s q = Some q' \<and> after fd (fst (split_stream 2 s)) (snd (split_stream 2 s)) q (Some q')"
  using assms
proof (induction fd s q rule: push_more.induct)
  case (1 fd s q)
  show ?case
  proof (cases "length s = 1")
    case True
    then obtain c where "s = [c]" by (cases s) auto
    then show ?thesis using save_header_after [OF "1.prems"(1)] by (simp add: push_more.simps split_short)
  next
    case False
    then have "2 \<le> length s" using "1.prems"(2) by (cases s; cases "tl s") auto
    then obtain n where n: "read_size s = Some n" by (simp add: read_size_def)
    note cut = read_size_cut(1) [OF n]
    show ?thesis
    proof (cases "length s < n + 2")
      case True
      then show ?thesis
        using save_uncomplete_after [OF "1.prems"(1) n] False n split_none [of s] cut by (simp add: push_more.simps)
    next
      case less: False
      let ?p = "take n (drop 2 s)" and ?r = "drop (n + 2) s"
      have len: "length ?p = n" using less by simp
      obtain q1 where q1: "push_data fd ?p n q = Some q1" "after fd [?p] [] q (Some q1)" "idle fd (Some q1)"
        using push_data_after [OF "1.prems"(1), of ?p] unfolding len by blast
      have sp: "split_stream 2 s = (?p # fst (split_stream 2 ?r), snd (split_stream 2 ?r))"
        using less cut by (intro split_some) simp
      have eq: "push_more fd s q = (if 0 < length ?r then push_more fd ?r (Some q1) else Some q1)"
        using False n less q1(1) by (subst push_more.simps) simp
      show ?thesis
      proof (cases "?r = []")
        case True
        then show ?thesis using eq sp q1(2) split_short [of "[]"] by simp
      next
        case ne: False
        then obtain q2 where "push_more fd ?r (Some q1) = Some q2"
          "after fd (fst (split_stream 2 ?r)) (snd (split_stream 2 ?r)) (Some q1) (Some q2)"
          using "1.IH" [OF False n less q1(1) refl _ q1(3)] by auto
        then show ?thesis using eq ne sp after_trans [OF q1(2)] by simp
      qed
    qed
  qed
qed

text \<open>What a block does: nothing visible, exactly one packet, or packets in the queue.\<close>

definition outcome :: "i32 \<Rightarrow> string \<Rightarrow> queue option \<Rightarrow> queue option \<Rightarrow> event \<Rightarrow> bool" where
  "outcome fd s q q' ev \<longleftrightarrow>
     (let (ps, rest) = split_stream 2 s
      in if ps = [] then ev = Quiet \<and> after fd [] rest q q'
         else if length ps = 1 \<and> rest = [] then ev = Data fd (hd ps) \<and> after fd [] [] q q'
         else ev = More \<and> after fd ps rest q q')"

lemma outcome_more:
  assumes "cut 2 s = Some (p, r)" "r \<noteq> []" "after fd (fst (split_stream 2 s)) (snd (split_stream 2 s)) q q'"
  shows "outcome fd s q q' More"
proof -
  have "fst (split_stream 2 r) \<noteq> [] \<or> snd (split_stream 2 r) \<noteq> []"
    using assms(2) split_none [of r] by (cases "cut 2 r") (auto simp: split_some)
  then show ?thesis using assms(1,3) split_some [OF assms(1)] by (auto simp: outcome_def)
qed

lemma start_packet_outcome:
  assumes "idle fd q" "s \<noteq> []"
  shows "\<exists>q' ev. start_packet fd s q = Some (q', ev) \<and> outcome fd s q q' ev"
proof (cases "length s = 1")
  case True
  then obtain c where "s = [c]" by (cases s) auto
  then show ?thesis using save_header_after [OF assms(1)] by (simp add: start_packet_def outcome_def split_short)
next
  case False
  then have "2 \<le> length s" using assms(2) by (cases s; cases "tl s") auto
  then obtain n where n: "read_size s = Some n" by (simp add: read_size_def)
  note cut = read_size_cut(1) [OF n]
  consider "length s < n + 2" | "length s = n + 2" | "n + 2 < length s" by linarith
  then show ?thesis
  proof cases
    case 1
    then have "length s - 2 < n" using \<open>2 \<le> length s\<close> by linarith
    then show ?thesis using save_uncomplete_after [OF assms(1) n 1] False n 1 cut split_none [of s]
      by (auto simp: start_packet_def outcome_def)
  next
    case 2
    have "after fd [] [] q q" using assms(1) kept_None [of "qu_hash (get_queue q)" fd] net_ok_get [of q] unlink_None [of fd]
      by (auto simp: after_def idle_def pending_get)
    moreover have "split_stream 2 s = ([drop 2 s], [])" using cut 2 split_some [of s "drop 2 s" "[]"] split_short [of "[]"] by simp
    ultimately show ?thesis using False n 2 by (simp add: start_packet_def outcome_def)
  next
    case 3
    let ?p = "take n (drop 2 s)" and ?r = "drop (n + 2) s"
    have len: "length ?p = n" using 3 by simp
    obtain q1 where q1: "push_data fd ?p n q = Some q1" "after fd [?p] [] q (Some q1)" "idle fd (Some q1)"
      using push_data_after [OF assms(1), of ?p] unfolding len by blast
    have ne: "?r \<noteq> []" using 3 by simp
    obtain q2 where q2: "push_more fd ?r (Some q1) = Some q2"
      "after fd (fst (split_stream 2 ?r)) (snd (split_stream 2 ?r)) (Some q1) (Some q2)"
      using push_more_after [OF q1(3) ne] by blast
    have c: "cut 2 s = Some (?p, ?r)" using cut 3 by simp
    have "after fd (fst (split_stream 2 s)) (snd (split_stream 2 s)) q (Some q2)"
      using after_trans [OF q1(2) q2(2)] split_some [OF c] by simp
    then have "outcome fd s q (Some q2) More" by (rule outcome_more [OF c ne])
    moreover have "\<not> length s - 2 < n" "length s - 2 \<noteq> n" using 3 by linarith+
    then have "start_packet fd s q = Some (Some q2, More)"
      using False n q1(1) q2(1) by (simp add: start_packet_def)
    ultimately show ?thesis by blast
  qed
qed

lemma read_header_ok:
  assumes "uc_ok uc" "b \<noteq> []"
  obtains uc' b' where "read_header uc b = Some (uc', b')" "0 \<le> uc_read uc'" "nat (uc_read uc') \<le> np_size (uc_pack uc')"
    "np_size (uc_pack uc') < 0x10000" "length (np_buffer (uc_pack uc')) = np_size (uc_pack uc')" "uc_id uc' = uc_id uc"
    "uc_bytes uc @ b = write_size (np_size (uc_pack uc')) @ take (nat (uc_read uc')) (np_buffer (uc_pack uc')) @ b'"
proof (cases "uc_read uc < 0")
  case True
  let ?n = "uc_header uc * 256 + of_char (hd b)"
  have h: "uc_header uc < 256" "uc_read uc = - 1" using assms(1) True by (simp_all add: uc_ok_def)
  have "of_char (hd b) < (256 :: nat)" by simp
  then have n: "?n < 0x10000" "?n div 256 mod 256 = uc_header uc" "?n mod 256 = of_char (hd b)"
    using h(1) by (linarith, simp_all)
  have "uc_bytes uc @ b = write_size ?n @ tl b"
    using True n(2,3) assms(2) by (cases b) (simp_all add: uc_bytes_def write_size_def)
  then show ?thesis using True h assms(2) n(1)
    by (intro that [of "uc\<lparr>uc_pack := (uc_pack uc)\<lparr>np_size := ?n, np_buffer := fresh ?n\<rparr>, uc_read := 0\<rparr>" "tl b"])
      (simp_all add: read_header_def fresh_def Let_def)
next
  case False
  then show ?thesis using assms by (intro that [of uc b]) (simp_all add: read_header_def uc_ok_def uc_bytes_def)
qed

lemma fill_uncomplete_outcome:
  assumes "idle fd (Some q)" "uc_ok uc" "uc_id uc = fd" "b \<noteq> []"
  shows "\<exists>q' ev. fill_uncomplete fd uc b q = Some (q', ev) \<and> outcome fd (uc_bytes uc @ b) (Some q) (Some q') ev"
proof -
  obtain u c where u: "read_header uc b = Some (u, c)" "0 \<le> uc_read u" "nat (uc_read u) \<le> np_size (uc_pack u)"
    "np_size (uc_pack u) < 0x10000" "length (np_buffer (uc_pack u)) = np_size (uc_pack u)" "uc_id u = fd"
    "uc_bytes uc @ b = write_size (np_size (uc_pack u)) @ take (nat (uc_read u)) (np_buffer (uc_pack u)) @ c"
    using read_header_ok [OF assms(2,4)] assms(3) by metis
  define n r buf s where d: "n = np_size (uc_pack u)" "r = nat (uc_read u)" "buf = np_buffer (uc_pack u)" "s = uc_bytes uc @ b"
  define block where "block = take r buf @ take (n - r) c @ drop (r + length (take (n - r) c)) buf"
  note u = u [folded d]
  have "r + length (take (n - r) c) \<le> length buf" using u(3,5) by simp
  then have fill: "fill_at r (take (n - r) c) buf = Some block" unfolding fill_at_def block_def by (simp only: guard_simps bind.bind_lunit)
  have step: "fill_uncomplete fd uc b q =
      (let pack = (uc_pack u)\<lparr>np_buffer := block\<rparr>
       in if length c < n - r then Some (link (u\<lparr>uc_pack := pack, uc_read := uc_read u + int (length c)\<rparr>) q, Quiet)
          else if length c = n - r then Some (q, Data fd block)
          else do { q \<leftarrow> push_data fd block n (Some q); q \<leftarrow> push_more fd (drop (n - r) c) (Some q); Some (q, More) })"
    using u(1) fill by (simp add: fill_uncomplete_def d(1-3) Let_def)
  have read: "read_size s = Some n" using u(4,7) by (simp add: read_size_write)
  have s: "drop 2 s = take r buf @ c" "length s = r + length c + 2" using u(3,5,7) by (simp_all add: write_size_def)
  have cut: "cut 2 s = (if length c < n - r then None else Some (take r buf @ take (n - r) c, drop (n - r) c))"
  proof -
    have "drop (n + 2) s = drop n (drop 2 s)" by simp
    then show ?thesis unfolding read_size_cut(1) [OF read] using u(3,5) s by (auto simp del: drop_drop)
  qed
  have keep: "after fd [] [] (Some q) (Some q)"
    using assms(1) kept_None [of "qu_hash q" fd] unlink_None [of fd "qu_hash q (hash_fd fd)"]
    by (auto simp: after_def idle_def pending_def net_ok_def get_queue_def)
  show ?thesis unfolding d(4) [symmetric]
  proof (cases "length c < n - r")
    case True
    let ?uc = "u\<lparr>uc_pack := (uc_pack u)\<lparr>np_buffer := block\<rparr>, uc_read := uc_read u + int (length c)\<rparr>"
    have "nat (uc_read u + int (length c)) = r + length c" using u(2) by (simp add: d(2) nat_add_distrib)
    then have "uc_ok ?uc" "uc_bytes ?uc = s"
      using True u(2-5,7) by (simp_all add: uc_ok_def uc_bytes_def block_def d(1))
    then have "after fd [] s (Some q) (Some (link ?uc q))"
      using link_after [OF assms(1), of ?uc] u(6) by (simp add: get_queue_def)
    then show "\<exists>q' ev. fill_uncomplete fd uc b q = Some (q', ev) \<and> outcome fd s (Some q) (Some q') ev"
      using step True cut split_none [of s] by (simp add: outcome_def)
  next
    case False
    then have block: "block = take r buf @ take (n - r) c" "length block = n" using u(3,5) by (simp_all add: block_def)
    show "\<exists>q' ev. fill_uncomplete fd uc b q = Some (q', ev) \<and> outcome fd s (Some q) (Some q') ev"
    proof (cases "length c = n - r")
      case True
      then have "split_stream 2 s = ([block], [])" using cut block split_some [of s block "[]"] split_short [of "[]"] by simp
      then show ?thesis using step True keep by (simp add: outcome_def)
    next
      case more: False
      have ne: "drop (n - r) c \<noteq> []" using more False by simp
      obtain q1 where q1: "push_data fd block n (Some q) = Some q1" "after fd [block] [] (Some q) (Some q1)" "idle fd (Some q1)"
        using push_data_after [OF assms(1), of block] unfolding block(2) by blast
      obtain q2 where q2: "push_more fd (drop (n - r) c) (Some q1) = Some q2"
        "after fd (fst (split_stream 2 (drop (n - r) c))) (snd (split_stream 2 (drop (n - r) c))) (Some q1) (Some q2)"
        using push_more_after [OF q1(3) ne] by blast
      have c: "cut 2 s = Some (block, drop (n - r) c)" using cut False block(1) by simp
      have "outcome fd s (Some q) (Some q2) More"
        using after_trans [OF q1(2) q2(2)] split_some [OF c] by (intro outcome_more [OF c ne]) simp
      then show ?thesis using step False more q1(1) q2(1) by simp
    qed
  qed
qed

lemma find_uncomplete_None: "find_uncomplete q fd = None \<longleftrightarrow> fd \<notin> uc_id ` set (qu_hash (get_queue q) (hash_fd fd))"
  by (cases q) (auto simp: find_uncomplete_def get_queue_def unlink_None [symmetric] split: bind_splits)

lemma find_uncomplete_Some:
  assumes "net_ok q" "find_uncomplete q fd = Some (uc, q1)"
  shows "idle fd (Some q1)" "uc_ok uc" "uc_id uc = fd" "pending q fd = uc_bytes uc" "ready (Some q1) = ready q"
    "\<And>fd'. fd' \<noteq> fd \<Longrightarrow> pending (Some q1) fd' = pending q fd'" "pending (Some q1) fd = []"
proof -
  obtain g rest where g: "q = Some g" "unlink fd (qu_hash g (hash_fd fd)) = Some (uc, rest)"
    "q1 = g\<lparr>qu_hash := (qu_hash g)(hash_fd fd := rest)\<rparr>"
    using assms(2) by (auto simp: find_uncomplete_def)
  have ok: "nq_ok g" "hash_ok (qu_hash g)" using assms(1) g(1) by (simp_all add: net_ok_def)
  note h = hash_taken [OF ok(2) g(2)]
  show "uc_ok uc" "uc_id uc = fd" by (fact h)+
  show "idle fd (Some q1)" using ok(1) h(4,7) g(3) by (simp add: idle_def net_ok_def nq_ok_def get_queue_def)
  show "pending q fd = uc_bytes uc" "ready (Some q1) = ready q" "pending (Some q1) fd = []"
    using h(3,5) g(1,3) by (simp_all add: pending_def ready_def nq_list_def)
  show "pending (Some q1) fd' = pending q fd'" if "fd' \<noteq> fd" for fd' using h(6) [OF that] g(1,3) by (simp add: pending_def)
qed

lemma filter_data_outcome:
  assumes "net_ok q" "b \<noteq> []"
  shows "\<exists>q' ev. filter_data fd b q = Some (q', ev) \<and> outcome fd (pending q fd @ b) q q' ev"
proof (cases "find_uncomplete q fd")
  case None
  then have "idle fd q" using assms(1) by (simp add: idle_def find_uncomplete_None)
  moreover have "pending q fd = []"
    using None kept_None [of "qu_hash (get_queue q)" fd] net_ok_get [OF assms(1)]
    by (simp add: pending_get find_uncomplete_None unlink_None)
  ultimately show ?thesis using start_packet_outcome [of fd q b] assms(2) None by (simp add: filter_data_def)
next
  case (Some x)
  obtain uc q1 where x: "x = (uc, q1)" by fastforce
  note f = find_uncomplete_Some [OF assms(1) Some [unfolded x]]
  obtain q' ev where q': "fill_uncomplete fd uc b q1 = Some (q', ev)" "outcome fd (uc_bytes uc @ b) (Some q1) (Some q') ev"
    using fill_uncomplete_outcome [OF f(1-3) assms(2)] by blast
  have "after fd ps rest q (Some q')" if "after fd ps rest (Some q1) (Some q')" for ps rest
    using that f(5,6) by (simp add: after_def)
  then have "outcome fd (uc_bytes uc @ b) q (Some q') ev"
    using q'(2) by (auto simp: outcome_def split: prod.splits if_splits)
  then show ?thesis using Some x q'(1) f(4) by (simp add: filter_data_def)
qed

lemma close_uncomplete_ok:
  assumes "net_ok q"
  shows "net_ok (close_uncomplete fd q) \<and> ready (close_uncomplete fd q) = ready q \<and>
    pending (close_uncomplete fd q) = (pending q)(fd := [])"
proof (cases "find_uncomplete q fd")
  case None
  then have "pending q fd = []"
    using kept_None [of "qu_hash (get_queue q)" fd] net_ok_get [OF assms]
    by (simp add: pending_get find_uncomplete_None unlink_None)
  then show ?thesis using None assms by (simp add: close_uncomplete_def fun_upd_idem)
next
  case (Some x)
  obtain uc q1 where x: "x = (uc, q1)" by fastforce
  note f = find_uncomplete_Some [OF assms Some [unfolded x]]
  then show ?thesis using Some x by (auto simp: close_uncomplete_def idle_def)
qed

section \<open>A client\<close>

text \<open>A service that takes a packet when there is one and empties the queue when there are more.\<close>

partial_function (option) drain :: "queue option \<Rightarrow> (netpack list \<times> queue option) option" where
  "drain q = do {
     (r, q) \<leftarrow> lpop q;
     case r of None \<Rightarrow> Some ([], q) | Some np \<Rightarrow> do { (nps, q) \<leftarrow> drain q; Some (np # nps, q) } }"

declare drain.simps [code]

definition take_event :: "event \<Rightarrow> queue option \<Rightarrow> ((i32 \<times> string) list \<times> queue option) option" where
  "take_event ev q =
     (case ev of
        Data fd p \<Rightarrow> Some ([(fd, p)], q)
      | More \<Rightarrow> do { (nps, q) \<leftarrow> drain q; Some (map (\<lambda>np. (np_id np, np_buffer np)) nps, q) }
      | _ \<Rightarrow> Some ([], q))"

fun serve :: "(i32 \<times> string) list \<Rightarrow> queue option \<Rightarrow> ((i32 \<times> string) list \<times> queue option) option" where
  "serve [] q = Some ([], q)"
| "serve ((fd, block) # blocks) q = do {
     (q, ev) \<leftarrow> filter_data fd block q;
     (out, q) \<leftarrow> take_event ev q;
     (outs, q) \<leftarrow> serve blocks q;
     Some (out @ outs, q) }"

definition of_fd :: "i32 \<Rightarrow> (i32 \<times> 'a) list \<Rightarrow> 'a list" where
  "of_fd fd xs = map snd (filter (\<lambda>x. fst x = fd) xs)"

lemma of_fd_simps [simp]: "of_fd fd [] = []" "of_fd fd ((f, x) # xs) = (if f = fd then x # of_fd fd xs else of_fd fd xs)"
  "of_fd fd (xs @ ys) = of_fd fd xs @ of_fd fd ys"
  by (simp_all add: of_fd_def)

lemma of_fd_packets: "of_fd fd (map (\<lambda>p. (f, p)) ps) = (if f = fd then ps else [])"
  by (induction ps) auto

lemma drain_ok:
  assumes "net_ok q"
  shows "\<exists>q'. drain q = Some (ready q, q') \<and> net_ok q' \<and> ready q' = [] \<and> pending q' = pending q"
  using assms
proof (induction "ready q" arbitrary: q)
  case Nil
  have "pred_option nq_ok q" using Nil.prems by (cases q) (simp_all add: net_ok_def)
  then show ?case using lpop_ok [of q] Nil by (subst drain.simps) simp
next
  case (Cons np nps)
  have "pred_option nq_ok q" using Cons.prems by (cases q) (simp_all add: net_ok_def)
  then obtain q1 where q1: "lpop q = Some (Some np, Some q1)" "nq_ok q1" "nq_list q1 = nps" "qu_hash q1 = qu_hash (the q)"
    using lpop_ok [of q np nps] Cons.hyps(2) by metis
  obtain g where g: "q = Some g" using Cons.hyps(2) by (cases q) (auto simp: ready_def)
  have "net_ok (Some q1)" "nps = ready (Some q1)" "pending (Some q1) = pending q"
    using q1 Cons.prems by (simp_all add: g net_ok_def ready_def pending_def)
  then obtain q' where "drain (Some q1) = Some (nps, q')" "net_ok q'" "ready q' = []" "pending q' = pending q"
    using Cons.hyps(1) [of "Some q1"] by auto
  then show ?case using q1(1) Cons.hyps(2) by (subst drain.simps) simp
qed

lemma serve_one:
  assumes "net_ok q" "ready q = []" "b \<noteq> []"
  shows "\<exists>q1 ev q2. filter_data fd b q = Some (q1, ev) \<and>
    take_event ev q1 = Some (map (\<lambda>p. (fd, p)) (fst (split_stream 2 (pending q fd @ b))), q2) \<and> net_ok q2 \<and> ready q2 = [] \<and>
    pending q2 = (pending q)(fd := snd (split_stream 2 (pending q fd @ b)))"
proof -
  let ?s = "pending q fd @ b"
  obtain ps rest where s: "split_stream 2 ?s = (ps, rest)" by fastforce
  obtain q1 ev where f: "filter_data fd b q = Some (q1, ev)" "outcome fd ?s q q1 ev"
    using filter_data_outcome [OF assms(1,3)] by blast
  show ?thesis
  proof (cases "ev = More")
    case True
    then have a: "after fd ps rest q q1" using f(2) s by (auto simp: outcome_def split: if_splits)
    then obtain q2 where "drain q1 = Some (map (packet fd) ps, q2)" "net_ok q2" "ready q2 = []" "pending q2 = pending q1"
      using drain_ok [of q1] assms(2) by (auto simp: after_def)
    moreover have "pending q1 = (pending q)(fd := rest)" using a by (auto simp: after_def)
    ultimately show ?thesis using f(1) s True by (simp add: take_event_def comp_def)
  next
    case False
    then have "take_event ev q1 = Some (map (\<lambda>p. (fd, p)) ps, q1)" "after fd [] rest q q1"
      using f(2) s by (auto simp: outcome_def take_event_def length_Suc_conv split: if_splits)
    moreover from this have "pending q1 = (pending q)(fd := rest)" by (auto simp: after_def)
    ultimately show ?thesis using f(1) s assms(2) by (simp add: after_def)
  qed
qed

lemma serve_all:
  assumes "net_ok q" "ready q = []" "\<forall>x \<in> set blocks. snd x \<noteq> []" "\<And>fd. split_stream 2 (pending q fd) = ([], pending q fd)"
  shows "\<exists>outs q'. serve blocks q = Some (outs, q') \<and> net_ok q' \<and>
    (\<forall>fd. (of_fd fd outs, pending q' fd) = split_stream 2 (pending q fd @ concat (of_fd fd blocks)))"
  using assms
proof (induction blocks arbitrary: q)
  case Nil
  then show ?case by simp
next
  case (Cons x blocks)
  obtain fd b where x: "x = (fd, b)" by fastforce
  let ?s = "pending q fd @ b"
  obtain q1 ev q2 where q2: "filter_data fd b q = Some (q1, ev)" "take_event ev q1 = Some (map (\<lambda>p. (fd, p)) (fst (split_stream 2 ?s)), q2)"
    "net_ok q2" "ready q2 = []" "pending q2 = (pending q)(fd := snd (split_stream 2 ?s))"
    using serve_one [OF Cons.prems(1,2), of b fd] Cons.prems(3) x by auto
  have idem: "split_stream 2 (snd (split_stream 2 s)) = ([], snd (split_stream 2 s))" for s
    using split_stream_append [of 2 s "[]"] by (metis append_Nil2 append_self_conv fst_conv prod.collapse snd_conv)
  have "split_stream 2 (pending q2 f) = ([], pending q2 f)" for f using idem Cons.prems(4) by (simp add: q2(5))
  then obtain outs q' where q': "serve blocks q2 = Some (outs, q')" "net_ok q'"
    "\<forall>f. (of_fd f outs, pending q' f) = split_stream 2 (pending q2 f @ concat (of_fd f blocks))"
    using Cons.IH [OF q2(3,4)] Cons.prems(3) by auto
  have "(of_fd f (map (\<lambda>p. (fd, p)) (fst (split_stream 2 ?s)) @ outs), pending q' f) =
      split_stream 2 (pending q f @ concat (of_fd f (x # blocks)))" for f
  proof (cases "f = fd")
    case True
    have "split_stream 2 (?s @ concat (of_fd fd blocks)) =
        (fst (split_stream 2 ?s) @ of_fd fd outs, pending q' fd)"
      using split_stream_append [of 2 ?s "concat (of_fd fd blocks)"] q'(3) [rule_format, of fd] by (simp add: q2(5)) (metis fst_conv snd_conv)
    then show ?thesis using True by (simp add: x of_fd_packets)
  next
    case False
    then show ?thesis using q'(3) [rule_format, of f] by (simp add: x q2(5) of_fd_packets)
  qed
  then show ?case using q2(1,2) q'(1,2) by (simp add: x)
qed

text \<open>C12. The packet library cuts every stream as the wire format says: a client that feeds the blocks of
  any number of sockets, in any interleaving, through \<open>filter\<close>, takes the packet of a
  \<open>data\<close> event and pops the queue to its end on a \<open>more\<close> event gets, for each socket, the packets that a
  reference splitter cuts from the concatenation of its blocks, in order and each once; what is
  left of that stream is what is kept for the socket. No call fails, however long the queue gets.\<close>

theorem netpack_cuts_streams:
  assumes "\<forall>x \<in> set blocks. snd x \<noteq> []"
  shows "\<exists>outs q. serve blocks None = Some (outs, q) \<and>
    (\<forall>fd. (of_fd fd outs, pending q fd) = split_stream 2 (concat (of_fd fd blocks)))"
proof -
  have "net_ok None" "ready None = []" "pending None fd = []" for fd by (simp_all add: net_ok_def ready_def pending_def)
  then show ?thesis using serve_all [of None blocks] assms by (auto simp: split_short)
qed

definition example_blocks :: "(i32 \<times> string) list" where
  "example_blocks = [(3, [CHR 0x00, CHR 0x02, CHR ''a'']), (4, [CHR 0x00]), (3, [CHR ''b'', CHR 0x00, CHR 0x00])]"

theorem netpack_cuts_streams_witness:
  "\<exists>outs q. serve example_blocks None = Some (outs, q) \<and> of_fd 3 outs = [''ab'', []] \<and> pending q 4 = [CHR 0x00]"
proof -
  have ne: "\<forall>x \<in> set example_blocks. snd x \<noteq> []" by (simp add: example_blocks_def)
  have s: "split_stream 2 (concat (of_fd 3 example_blocks)) = ([''ab'', []], [])"
    "split_stream 2 (concat (of_fd 4 example_blocks)) = ([], [CHR 0x00])"
    by (simp_all add: example_blocks_def split_stream.simps cut_def be_int_def wrap32_def)
  obtain outs q where o: "serve example_blocks None = Some (outs, q)"
    "\<forall>fd. (of_fd fd outs, pending q fd) = split_stream 2 (concat (of_fd fd example_blocks))"
    using netpack_cuts_streams [OF ne] by blast
  have "of_fd 3 outs = [''ab'', []]" using o(2) [rule_format, of 3] unfolding s(1) by simp
  moreover have "pending q 4 = [CHR 0x00]" using o(2) [rule_format, of 4] unfolding s(2) by simp
  ultimately show ?thesis using o(1) by blast
qed

section \<open>Packing\<close>

lemma lpack_cut:
  assumes "length m < 0x10000"
  shows "lpack m = Return (write_size (length m) @ m)" "cut 2 (write_size (length m) @ m @ s) = Some (m, s)"
  using assms read_size_cut(1) [OF read_size_write [OF assms], of "m @ s"] by (simp_all add: lpack_def write_size_def)

lemma packed_stream:
  "\<forall>m \<in> set ms. length m < 0x10000 \<Longrightarrow> split_stream 2 (concat (map (\<lambda>m. write_size (length m) @ m) ms)) = (ms, [])"
  by (induction ms) (simp_all add: split_short split_some [OF lpack_cut(2)])

end
