(* ===== verification/Cluster.thy ===== *)
theory Cluster
  imports Bytes Format
begin

text \<open>
  \<open>lib/cluster/lua-cluster.c\<close>: requests to services of other nodes and their responses as packets. A message
  of 32 KB or more is announced by a packet with its size and follows in parts. Sizes are
  counted in 32 bits; a message is below 2 GB, as the reader converts its size to an \<open>int\<close>.
\<close>

definition TEMP_LENGTH :: nat where "TEMP_LENGTH = 0x8200"
definition MULTI_PART :: nat where "MULTI_PART = 0x8000"

definition fill_uint32 :: "u32 \<Rightarrow> string" where
  "fill_uint32 n = put_le n"

definition fill_header :: "nat \<Rightarrow> string option" where
  "fill_header sz = do { guard (sz < 0x10000); Some [char_of (sz div 256 mod 256), char_of (sz mod 256)] }"

section \<open>Requests\<close>

datatype address = Number u32 | Name string | Neither

definition packreq_number :: "u32 \<Rightarrow> i32 \<Rightarrow> string \<Rightarrow> (string \<times> nat) option" where
  \<comment> \<open>the packet and the number of parts that follow\<close>
  "packreq_number addr session msg =
     (let sz = length msg
      in if sz < MULTI_PART then do {
           header \<leftarrow> fill_header (sz + 9);
           guard (sz + 11 \<le> TEMP_LENGTH);
           Some (header @ [CHR 0x00] @ fill_uint32 addr @ fill_uint32 session @ msg, 0) }
         else do {
           header \<leftarrow> fill_header 13;
           Some (header @ [CHR 0x01] @ fill_uint32 addr @ fill_uint32 session @ fill_uint32 (word_of_nat sz),
                 (sz - 1) div MULTI_PART + 1) })"

definition packreq_string :: "string \<Rightarrow> i32 \<Rightarrow> string \<Rightarrow> (string \<times> nat) option" where
  \<comment> \<open>for a name of 1 to 255 bytes\<close>
  "packreq_string name session msg =
     (let sz = length msg; namelen = length name
      in if sz < MULTI_PART then do {
           header \<leftarrow> fill_header (sz + 6 + namelen);
           guard (sz + 8 + namelen \<le> TEMP_LENGTH);
           Some (header @ [CHR 0x80, char_of namelen] @ name @ fill_uint32 session @ msg, 0) }
         else do {
           header \<leftarrow> fill_header (10 + namelen);
           Some (header @ [CHR 0x81, char_of namelen] @ name @ fill_uint32 session @ fill_uint32 (word_of_nat sz),
                 (sz - 1) div MULTI_PART + 1) })"

fun packreq_multi :: "nat \<Rightarrow> i32 \<Rightarrow> string \<Rightarrow> string list option" where
  \<comment> \<open>the first argument counts the parts\<close>
  "packreq_multi 0 session msg = Some []"
| "packreq_multi (Suc part) session msg =
     (let (s, t) = (if MULTI_PART < length msg then (MULTI_PART, CHR 0x02) else (length msg, CHR 0x03))
      in do {
        header \<leftarrow> fill_header (s + 5);
        guard (s + 7 \<le> TEMP_LENGTH);
        rest \<leftarrow> packreq_multi part session (drop s msg);
        Some ((header @ [t] @ fill_uint32 session @ take s msg) # rest) })"

definition lpackrequest :: "address \<Rightarrow> i32 \<Rightarrow> string \<Rightarrow> (string \<times> i32 \<times> string list) lua option" where
  \<comment> \<open>the packet, the next session and the parts; the message is freed\<close>
  "lpackrequest addr session msg =
     (if sint session \<le> 0 then Some (Raise (''Invalid request session '' @ print_d (sint session)))
      else case addr of
        Neither \<Rightarrow> Some (Raise ''name is too long (null)'')
      | Name name \<Rightarrow>
          if length name < 1 \<or> 255 < length name then Some (Raise (''name is too long '' @ c_str name))
          else do {
            (req, multipak) \<leftarrow> packreq_string name session msg;
            parts \<leftarrow> packreq_multi multipak session msg;
            Some (Return (req, if sint (session + 1) < 0 then 1 else session + 1, parts)) }
      | Number a \<Rightarrow> do {
            (req, multipak) \<leftarrow> packreq_number a session msg;
            parts \<leftarrow> packreq_multi multipak session msg;
            Some (Return (req, if sint (session + 1) < 0 then 1 else session + 1, parts)) })"

definition unpack_uint32 :: "string \<Rightarrow> u32" where
  "unpack_uint32 buf = get_le (take 4 buf)"

datatype request =
    Request address u32 string
  | MultiRequest address u32 u32
  | RequestPart u32 string bool

definition bad_message :: "int \<Rightarrow> 'a lua" where
  "bad_message sz = Raise (''Invalid cluster message (size='' @ print_d sz @ '')'')"

definition unpackreq_number :: "string \<Rightarrow> request lua" where
  "unpackreq_number buf =
     (if length buf < 9 then bad_message (int (length buf))
      else Return (Request (Number (unpack_uint32 (drop 1 buf))) (unpack_uint32 (drop 5 buf)) (drop 9 buf)))"

definition unpackmreq_number :: "string \<Rightarrow> request lua" where
  "unpackmreq_number buf =
     (if length buf \<noteq> 13
      then Raise (''Invalid cluster message size '' @ print_d (int (length buf)) @ '' (multi req must be 13)'')
      else Return (MultiRequest (Number (unpack_uint32 (drop 1 buf))) (unpack_uint32 (drop 5 buf)) (unpack_uint32 (drop 9 buf))))"

definition unpackmreq_part :: "string \<Rightarrow> request lua" where
  "unpackmreq_part buf =
     (if length buf < 5 then Raise ''Invalid cluster multi part message''
      else Return (RequestPart (unpack_uint32 (drop 1 buf)) (drop 5 buf) (hd buf = CHR 0x02)))"

definition unpackreq_string :: "string \<Rightarrow> request lua" where
  "unpackreq_string buf =
     (if length buf < 2 then bad_message (int (length buf))
      else let namesz = of_char (buf ! 1)
           in if length buf < namesz + 6 then bad_message (int (length buf))
              else Return (Request (Name (take namesz (drop 2 buf))) (unpack_uint32 (drop (namesz + 2) buf)) (drop (namesz + 6) buf)))"

definition unpackmreq_string :: "string \<Rightarrow> request lua" where
  "unpackmreq_string buf =
     (if length buf < 2 then bad_message (int (length buf))
      else let namesz = of_char (buf ! 1)
           in if length buf < namesz + 10 then bad_message (int (length buf))
              else Return (MultiRequest (Name (take namesz (drop 2 buf))) (unpack_uint32 (drop (namesz + 2) buf))
                             (unpack_uint32 (drop (namesz + 6) buf))))"

definition lunpackrequest :: "string \<Rightarrow> request lua" where
  \<comment> \<open>an empty text is followed by a zero byte; \<open>char\<close> is signed\<close>
  "lunpackrequest msg =
     (let t = (case msg of [] \<Rightarrow> NUL | c # cs \<Rightarrow> c); n = (of_char t :: nat)
      in if n = 0 then unpackreq_number msg
         else if n = 1 then unpackmreq_number msg
         else if n = 2 \<or> n = 3 then unpackmreq_part msg
         else if n = 0x80 then unpackreq_string msg
         else if n = 0x81 then unpackmreq_string msg
         else Raise (''Invalid req package type '' @ print_d (if n < 128 then int n else int n - 256)))"

section \<open>Responses\<close>

fun response_parts :: "nat \<Rightarrow> u32 \<Rightarrow> string \<Rightarrow> string list option" where
  "response_parts 0 session msg = Some []"
| "response_parts (Suc part) session msg =
     (let (s, t) = (if MULTI_PART < length msg then (MULTI_PART, CHR 0x03) else (length msg, CHR 0x04))
      in do {
        header \<leftarrow> fill_header (s + 5);
        guard (s + 7 \<le> TEMP_LENGTH);
        rest \<leftarrow> response_parts part session (drop s msg);
        Some ((header @ fill_uint32 session @ [t] @ take s msg) # rest) })"

definition lpackresponse :: "u32 \<Rightarrow> bool \<Rightarrow> string \<Rightarrow> (string + string list) option" where
  \<comment> \<open>one packet or a table of packets; a long error text is cut off\<close>
  "lpackresponse session ok msg =
     (if ok \<and> MULTI_PART < length msg then do {
        header \<leftarrow> fill_header 9;
        parts \<leftarrow> response_parts ((length msg - 1) div MULTI_PART + 1) session msg;
        Some (Inr ((header @ fill_uint32 session @ [CHR 0x02] @ fill_uint32 (word_of_nat (length msg))) # parts)) }
      else let msg = take MULTI_PART msg
           in do {
             header \<leftarrow> fill_header (length msg + 5);
             guard (length msg + 7 \<le> TEMP_LENGTH);
             Some (Inl (header @ fill_uint32 session @ [if ok then CHR 0x01 else CHR 0x00] @ msg)) })"

datatype response =
    Response u32 bool string
  | MultiResponse u32 u32
  | ResponsePart u32 string

definition lunpackresponse :: "string \<Rightarrow> response option" where
  \<comment> \<open>\<open>None\<close> is the empty result\<close>
  "lunpackresponse buf =
     (if length buf < 5 then None
      else let session = unpack_uint32 buf; t = (of_char (buf ! 4) :: nat); msg = drop 5 buf
           in if t = 0 then Some (Response session False msg)
              else if t = 1 \<or> t = 4 then Some (Response session True msg)
              else if t = 2 then (if length buf \<noteq> 9 then None else Some (MultiResponse session (unpack_uint32 msg)))
              else if t = 3 then Some (ResponsePart session msg)
              else None)"

fun concat_loop :: "nat \<Rightarrow> string list \<Rightarrow> string \<Rightarrow> string option" where
  "concat_loop sz [] buff = (if length buff = sz then Some buff else None)"
| "concat_loop sz (s # parts) buff = (if sz < length s + length buff then None else concat_loop sz parts (buff @ s))"

definition lconcat :: "nat \<Rightarrow> string list \<Rightarrow> string option" where
  \<comment> \<open>a table of a size and parts; the buffer is what was copied so far\<close>
  "lconcat sz parts = concat_loop sz parts []"

end
