(* ===== verification/ClusterProps.thy ===== *)
theory ClusterProps
  imports Cluster NetpackProps
begin

text \<open>
  A request or a response that one node packs, sent over a stream and cut into packets by the
  other side, is put together to the message it was, for names and numbers, short and long messages.
\<close>

section \<open>Packets\<close>

definition frame :: "string \<Rightarrow> string" where
  "frame body = write_size (length body) @ body"

lemma fill_header_eq: "n < 0x10000 \<Longrightarrow> fill_header n = Some (write_size n)"
  by (simp add: fill_header_def write_size_def)

lemma get_put_append [simp]: "unpack_uint32 (put_le n @ s) = n" "unpack_uint32 (put_le n) = n"
  by (simp_all add: unpack_uint32_def)

lemma frame_eq: "frame = (\<lambda>body. write_size (length body) @ body)"
  by (rule ext) (simp add: frame_def)

lemma split_frames: "\<forall>b \<in> set bs. length b < 0x10000 \<Longrightarrow> split_stream 2 (concat (map frame bs)) = (bs, [])"
  using packed_stream [of bs] by (simp add: frame_eq)

lemma drop_put_le [simp]: "drop (n + 4) (put_le w @ s) = drop n s" "drop (Suc (Suc (Suc (Suc n)))) (put_le w @ s) = drop n s"
  by simp_all

section \<open>The receiver\<close>

text \<open>What the receiving node does with the packets of a request: the parts of a long message are
  collected until the last and put together.\<close>

fun take_parts :: "u32 \<Rightarrow> string list \<Rightarrow> (string list \<times> string list) option" where
  "take_parts session [] = None"
| "take_parts session (b # bs) =
     (case lunpackrequest b of
        Return (RequestPart s m padding) \<Rightarrow>
          if s \<noteq> session then None
          else if padding then do { (ms, rest) \<leftarrow> take_parts session bs; Some (m # ms, rest) } else Some ([m], bs)
      | _ \<Rightarrow> None)"

definition receive :: "string list \<Rightarrow> ((address \<times> u32 \<times> string) \<times> string list) option" where
  "receive bs =
     (case bs of
        [] \<Rightarrow> None
      | b # bs \<Rightarrow>
          (case lunpackrequest b of
             Return (Request a s m) \<Rightarrow> Some ((a, s, m), bs)
           | Return (MultiRequest a s n) \<Rightarrow> do { (ms, rest) \<leftarrow> take_parts s bs; m \<leftarrow> lconcat (unat n) ms; Some ((a, s, m), rest) }
           | _ \<Rightarrow> None))"

lemma concat_loop_ok: "length buff + length (concat parts) = sz \<Longrightarrow> concat_loop sz parts buff = Some (buff @ concat parts)"
  by (induction parts arbitrary: buff) auto

lemma lconcat_ok: "lconcat (length (concat parts)) parts = Some (concat parts)"
  by (simp add: lconcat_def concat_loop_ok)

section \<open>Requests\<close>

definition part_body :: "i32 \<Rightarrow> string \<Rightarrow> bool \<Rightarrow> string" where
  "part_body session m padding = (if padding then CHR 0x02 else CHR 0x03) # put_le session @ m"

lemma part_body_unpack: "lunpackrequest (part_body session m padding) = Return (RequestPart session m padding)"
  by (simp add: part_body_def lunpackrequest_def unpackmreq_part_def)

lemma packreq_multi_ok:
  assumes "k * MULTI_PART < length msg" "length msg \<le> Suc k * MULTI_PART"
  shows "\<exists>bs ms. packreq_multi (Suc k) session msg = Some (map frame bs) \<and> (\<forall>b \<in> set bs. length b < 0x10000) \<and>
    (\<forall>rest. take_parts session (bs @ rest) = Some (ms, rest)) \<and> concat ms = msg"
  using assms
proof (induction k arbitrary: msg)
  case 0
  let ?b = "part_body session msg False"
  have "length ?b < 0x10000" "packreq_multi (Suc 0) session msg = Some [frame ?b]"
    using 0 by (simp_all add: part_body_def frame_def fill_header_eq fill_uint32_def MULTI_PART_def TEMP_LENGTH_def add.commute)
  moreover have "take_parts session (?b # rest) = Some ([msg], rest)" for rest by (simp add: part_body_unpack)
  ultimately show ?case by (intro exI [of _ "[?b]"] exI [of _ "[msg]"]) simp
next
  case (Suc k)
  let ?m = "take MULTI_PART msg" and ?r = "drop MULTI_PART msg"
  have len: "MULTI_PART < length msg" "k * MULTI_PART < length ?r" "length ?r \<le> Suc k * MULTI_PART"
    using Suc.prems by (simp_all add: MULTI_PART_def)
  obtain bs ms where r: "packreq_multi (Suc k) session ?r = Some (map frame bs)" "\<forall>b \<in> set bs. length b < 0x10000"
    "\<forall>rest. take_parts session (bs @ rest) = Some (ms, rest)" "concat ms = ?r"
    using Suc.IH [OF len(2,3)] by blast
  let ?b = "part_body session ?m True"
  have b: "length ?b = MULTI_PART + 5" using len(1) by (simp add: part_body_def)
  have "packreq_multi (Suc (Suc k)) session msg = Some (frame ?b # map frame bs)"
    using len(1) r(1) b by (subst packreq_multi.simps)
      (simp add: frame_def part_body_def fill_header_eq fill_uint32_def MULTI_PART_def TEMP_LENGTH_def del: packreq_multi.simps)
  moreover have "length ?b < 0x10000" using b by (simp add: MULTI_PART_def)
  moreover have "take_parts session (?b # bs @ rest) = Some (?m # ms, rest)" for rest
    using r(3) by (simp add: part_body_unpack)
  moreover have "concat (?m # ms) = msg" using r(4) by simp
  ultimately show ?case using r(2) by (intro exI [of _ "?b # bs"] exI [of _ "?m # ms"]) simp
qed

lemma part_count:
  assumes "0 < n"
  shows "(n - 1) div MULTI_PART * MULTI_PART < n" "n \<le> Suc ((n - 1) div MULTI_PART) * MULTI_PART"
  using assms by (simp_all add: MULTI_PART_def)

definition head_body :: "address \<Rightarrow> i32 \<Rightarrow> string \<Rightarrow> string" where
  "head_body addr session msg =
     (let short = length msg < MULTI_PART; tail = (if short then msg else put_le (word_of_nat (length msg)))
      in case addr of
           Number a \<Rightarrow> (if short then CHR 0x00 else CHR 0x01) # put_le a @ put_le session @ tail
         | Name name \<Rightarrow> (if short then CHR 0x80 else CHR 0x81) # char_of (length name) # name @ put_le session @ tail
         | Neither \<Rightarrow> [])"

definition address_ok :: "address \<Rightarrow> bool" where
  "address_ok addr \<longleftrightarrow> (case addr of Number a \<Rightarrow> True | Name name \<Rightarrow> 1 \<le> length name \<and> length name \<le> 255 | Neither \<Rightarrow> False)"

lemma head_body_less: "address_ok addr \<Longrightarrow> length (head_body addr session msg) < 0x10000"
  by (auto simp: head_body_def address_ok_def MULTI_PART_def Let_def split: address.splits)

lemma head_unpack:
  assumes "address_ok addr"
  shows "lunpackrequest (head_body addr session msg) =
    Return (if length msg < MULTI_PART then Request addr session msg else MultiRequest addr session (word_of_nat (length msg)))"
proof (cases addr)
  case (Number a)
  then show ?thesis
    by (simp add: head_body_def lunpackrequest_def unpackreq_number_def unpackmreq_number_def Let_def)
next
  case (Name name)
  have n: "length name mod 256 = length name" using assms Name by (simp add: address_ok_def)
  have d: "drop (length name + 2) (c # e # name @ t) = t" "drop (length name + 6) (c # e # name @ put_le session @ t) = t"
    "take (length name) (drop 2 (c # e # name @ t)) = name" for c e t
    by (simp_all add: numeral_eq_Suc)
  show ?thesis
    using n d unfolding lunpackrequest_def head_body_def Let_def Name
    by (simp add: unpackreq_string_def unpackmreq_string_def del: drop_Suc_Cons drop_append take_append)
qed (use assms in \<open>simp add: address_ok_def\<close>)

lemma lpackrequest_eq:
  assumes "address_ok addr" "0 < sint session"
  shows "lpackrequest addr session msg = do {
    parts \<leftarrow> packreq_multi (if length msg < MULTI_PART then 0 else (length msg - 1) div MULTI_PART + 1) session msg;
    Some (Return (frame (head_body addr session msg), if sint (session + 1) < 0 then 1 else session + 1, parts)) }"
proof (cases addr)
  case (Number a)
  have "packreq_number a session msg =
      Some (frame (head_body addr session msg), if length msg < MULTI_PART then 0 else (length msg - 1) div MULTI_PART + 1)"
    by (simp add: packreq_number_def head_body_def Number frame_def fill_header_eq fill_uint32_def MULTI_PART_def TEMP_LENGTH_def add.commute Let_def)
  then show ?thesis using assms(2) by (simp add: lpackrequest_def Number)
next
  case (Name name)
  have n: "1 \<le> length name" "length name \<le> 255" using assms(1) by (simp_all add: address_ok_def Name)
  then have "packreq_string name session msg =
      Some (frame (head_body addr session msg), if length msg < MULTI_PART then 0 else (length msg - 1) div MULTI_PART + 1)"
    by (simp add: packreq_string_def head_body_def Name frame_def fill_header_eq fill_uint32_def MULTI_PART_def TEMP_LENGTH_def
        add.commute add.left_commute Let_def)
  moreover have "name \<noteq> []" using n(1) by auto
  ultimately show ?thesis using assms(2) n(2) by (simp add: lpackrequest_def Name del: packreq_multi.simps)
qed (use assms in \<open>simp add: address_ok_def\<close>)

text \<open>C30. A request reaches the other node as it was sent: for every address, session and message below 2 GB the
  packets of \<open>lpackrequest\<close>, one after another on a stream, are cut into their bodies by the wire
  format, and from the bodies the receiver gets address, session and message back, whether it
  went in one packet or in parts. The session for the next request is positive.\<close>

theorem cluster_request_roundtrip:
  assumes "address_ok addr" "0 < sint session" "length msg < 2 ^ 31"
  shows "\<exists>req n parts bodies. lpackrequest addr session msg = Some (Return (req, n, parts)) \<and> 0 < sint n \<and>
    split_stream 2 (req @ concat parts) = (bodies, []) \<and> receive bodies = Some ((addr, session, msg), [])"
proof -
  let ?n = "if sint (session + 1) < 0 then 1 else session + 1" and ?h = "head_body addr session msg"
  have "sint (session + 1) \<noteq> 0"
  proof
    assume "sint (session + 1) = 0"
    then have "session = - 1" by (metis add_eq_0_iff2 signed_eq_0_iff)
    then show False using assms(2) by simp
  qed
  then have n: "0 < sint ?n" by auto
  show ?thesis
  proof (cases "length msg < MULTI_PART")
    case True
    have "lpackrequest addr session msg = Some (Return (frame ?h, ?n, []))" using lpackrequest_eq [OF assms(1,2)] True by simp
    moreover have "split_stream 2 (frame ?h @ concat []) = ([?h], [])"
      using split_frames [of "[?h]"] head_body_less [OF assms(1)] by simp
    moreover have "receive [?h] = Some ((addr, session, msg), [])" using head_unpack [OF assms(1)] True by (simp add: receive_def)
    ultimately show ?thesis using n by blast
  next
    case False
    then have "0 < length msg" by (auto simp: MULTI_PART_def)
    note count = part_count [OF this]
    obtain bs ms where p: "packreq_multi (Suc ((length msg - 1) div MULTI_PART)) session msg = Some (map frame bs)"
      "\<forall>b \<in> set bs. length b < 0x10000" "\<forall>rest. take_parts session (bs @ rest) = Some (ms, rest)" "concat ms = msg"
      using packreq_multi_ok [OF count] by blast
    have "lpackrequest addr session msg = Some (Return (frame ?h, ?n, map frame bs))"
      using lpackrequest_eq [OF assms(1,2)] False p(1) by (simp del: packreq_multi.simps)
    moreover have "split_stream 2 (frame ?h @ concat (map frame bs)) = (?h # bs, [])"
      using split_frames [of "?h # bs"] head_body_less [OF assms(1)] p(2) by simp
    moreover have "unat (word_of_nat (length msg) :: u32) = length msg" using assms(3) by (simp add: unat_of_nat)
    then have "receive (?h # bs) = Some ((addr, session, msg), [])"
      using head_unpack [OF assms(1)] False p(3) [rule_format, of "[]"] lconcat_ok [of ms] p(4) by (simp add: receive_def)
    ultimately show ?thesis using n by blast
  qed
qed

theorem cluster_request_roundtrip_witness:
  "\<exists>req n parts bodies. lpackrequest (Name ''db'') 7 ''get'' = Some (Return (req, n, parts)) \<and> 0 < sint n \<and>
    split_stream 2 (req @ concat parts) = (bodies, []) \<and> receive bodies = Some ((Name ''db'', 7, ''get''), [])"
  using cluster_request_roundtrip [of "Name ''db''" 7 "''get''"] by (simp add: address_ok_def)

section \<open>Responses\<close>

fun take_responses :: "u32 \<Rightarrow> string list \<Rightarrow> (string list \<times> string list) option" where
  "take_responses session [] = None"
| "take_responses session (b # bs) =
     (case lunpackresponse b of
        Some (ResponsePart s m) \<Rightarrow>
          if s \<noteq> session then None else do { (ms, rest) \<leftarrow> take_responses session bs; Some (m # ms, rest) }
      | Some (Response s ok m) \<Rightarrow> if s \<noteq> session then None else Some ([m], bs)
      | _ \<Rightarrow> None)"

definition receive_response :: "string list \<Rightarrow> ((u32 \<times> bool \<times> string) \<times> string list) option" where
  "receive_response bs =
     (case bs of
        [] \<Rightarrow> None
      | b # bs \<Rightarrow>
          (case lunpackresponse b of
             Some (Response s ok m) \<Rightarrow> Some ((s, ok, m), bs)
           | Some (MultiResponse s n) \<Rightarrow> do { (ms, rest) \<leftarrow> take_responses s bs; m \<leftarrow> lconcat (unat n) ms; Some ((s, True, m), rest) }
           | _ \<Rightarrow> None))"

definition response_body :: "u32 \<Rightarrow> char \<Rightarrow> string \<Rightarrow> string" where
  "response_body session t m = put_le session @ t # m"

lemma response_unpack:
  "lunpackresponse (response_body session (CHR 0x00) m) = Some (Response session False m)"
  "lunpackresponse (response_body session (CHR 0x01) m) = Some (Response session True m)"
  "lunpackresponse (response_body session (CHR 0x02) (put_le n)) = Some (MultiResponse session n)"
  "lunpackresponse (response_body session (CHR 0x03) m) = Some (ResponsePart session m)"
  "lunpackresponse (response_body session (CHR 0x04) m) = Some (Response session True m)"
  by (simp_all add: response_body_def lunpackresponse_def nth_append)

lemma response_parts_ok:
  assumes "k * MULTI_PART < length msg" "length msg \<le> Suc k * MULTI_PART"
  shows "\<exists>bs ms. response_parts (Suc k) session msg = Some (map frame bs) \<and> (\<forall>b \<in> set bs. length b < 0x10000) \<and>
    (\<forall>rest. take_responses session (bs @ rest) = Some (ms, rest)) \<and> concat ms = msg"
  using assms
proof (induction k arbitrary: msg)
  case 0
  let ?b = "response_body session (CHR 0x04) msg"
  have "length ?b < 0x10000" "response_parts (Suc 0) session msg = Some [frame ?b]"
    using 0 by (simp_all add: response_body_def frame_def fill_header_eq fill_uint32_def MULTI_PART_def TEMP_LENGTH_def add.commute)
  moreover have "take_responses session (?b # rest) = Some ([msg], rest)" for rest by (simp add: response_unpack)
  ultimately show ?case by (intro exI [of _ "[?b]"] exI [of _ "[msg]"]) simp
next
  case (Suc k)
  let ?m = "take MULTI_PART msg" and ?r = "drop MULTI_PART msg"
  have len: "MULTI_PART < length msg" "k * MULTI_PART < length ?r" "length ?r \<le> Suc k * MULTI_PART"
    using Suc.prems by (simp_all add: MULTI_PART_def)
  obtain bs ms where r: "response_parts (Suc k) session ?r = Some (map frame bs)" "\<forall>b \<in> set bs. length b < 0x10000"
    "\<forall>rest. take_responses session (bs @ rest) = Some (ms, rest)" "concat ms = ?r"
    using Suc.IH [OF len(2,3)] by blast
  let ?b = "response_body session (CHR 0x03) ?m"
  have b: "length ?b = MULTI_PART + 5" using len(1) by (simp add: response_body_def)
  have "response_parts (Suc (Suc k)) session msg = Some (frame ?b # map frame bs)"
    using len(1) r(1) b by (subst response_parts.simps)
      (simp add: frame_def response_body_def fill_header_eq fill_uint32_def MULTI_PART_def TEMP_LENGTH_def del: response_parts.simps)
  moreover have "length ?b < 0x10000" using b by (simp add: MULTI_PART_def)
  moreover have "take_responses session (?b # bs @ rest) = Some (?m # ms, rest)" for rest
    using r(3) by (simp add: response_unpack)
  moreover have "concat (?m # ms) = msg" using r(4) by simp
  ultimately show ?case using r(2) by (intro exI [of _ "?b # bs"] exI [of _ "?m # ms"]) simp
qed

text \<open>A response comes back as it was sent; of an error text the first 32 KB.\<close>

lemma cluster_response_roundtrip:
  assumes "length msg < 2 ^ 31"
  shows "\<exists>r bodies. lpackresponse session ok msg = Some r \<and>
    split_stream 2 (case r of Inl p \<Rightarrow> p | Inr ps \<Rightarrow> concat ps) = (bodies, []) \<and>
    receive_response bodies = Some ((session, ok, if ok then msg else take MULTI_PART msg), [])"
proof (cases "ok \<and> MULTI_PART < length msg")
  case False
  let ?m = "take MULTI_PART msg" and ?b = "response_body session (if ok then CHR 0x01 else CHR 0x00) (take MULTI_PART msg)"
  have "lpackresponse session ok msg = Some (Inl (frame ?b))"
    using False by (auto simp: lpackresponse_def response_body_def frame_def fill_header_eq fill_uint32_def MULTI_PART_def TEMP_LENGTH_def
        min_def add.commute)
  moreover have "split_stream 2 (frame ?b) = ([?b], [])"
    using split_frames [of "[?b]"] by (simp add: response_body_def MULTI_PART_def)
  moreover have "receive_response [?b] = Some ((session, ok, if ok then msg else ?m), [])"
    using False by (auto simp: receive_response_def response_unpack not_less)
  ultimately show ?thesis by (intro exI [of _ "Inl (frame ?b)"] exI [of _ "[?b]"]) simp
next
  case True
  then have "0 < length msg" by (auto simp: MULTI_PART_def)
  note count = part_count [OF this]
  obtain bs ms where p: "response_parts (Suc ((length msg - 1) div MULTI_PART)) session msg = Some (map frame bs)"
    "\<forall>b \<in> set bs. length b < 0x10000" "\<forall>rest. take_responses session (bs @ rest) = Some (ms, rest)" "concat ms = msg"
    using response_parts_ok [OF count] by blast
  let ?b = "response_body session (CHR 0x02) (put_le (word_of_nat (length msg)))"
  have b: "length ?b = 9" by (simp add: response_body_def)
  have "lpackresponse session ok msg = Some (Inr (map frame (?b # bs)))"
    using True p(1) b by (simp add: lpackresponse_def frame_def response_body_def fill_header_eq fill_uint32_def del: response_parts.simps)
  moreover have "split_stream 2 (concat (map frame (?b # bs))) = (?b # bs, [])"
    using p(2) b by (intro split_frames) simp
  moreover have "unat (word_of_nat (length msg) :: u32) = length msg" using assms by (simp add: unat_of_nat)
  then have "receive_response (?b # bs) = Some ((session, ok, msg), [])"
    using True p(3) [rule_format, of "[]"] lconcat_ok [of ms] p(4) by (simp add: receive_response_def response_unpack)
  ultimately show ?thesis using True by (intro exI [of _ "Inr (map frame (?b # bs))"] exI [of _ "?b # bs"]) simp
qed

end
