(* ===== verification/Malloc.thy ===== *)
theory Malloc
  imports Bytes Format
begin

text \<open>
  \<open>core/uboss_malloc.c\<close>: the allocator of the node. Every block carries, in the last four bytes of
  what jemalloc gave, the handle of the service that allocated it; two counters hold the bytes and
  blocks in use, and a table of \<open>SLOT_SIZE\<close> entries the bytes of each service. jemalloc is a
  parameter: which requests it refuses and the block it gives for a request, as long as its usable size. A block is fresh
  memory at an address that was not used before. A call that aborts is \<open>None\<close>.
\<close>

section \<open>State\<close>

definition SLOT_SIZE :: nat where "SLOT_SIZE = 0x10000"
definition PREFIX_SIZE :: u64 where "PREFIX_SIZE = 4"

record mem_data =
  md_handle :: u32
  md_allocated :: u64

record jemalloc =
  je_refuses :: "u64 \<Rightarrow> bool"
  je_block :: "u64 \<Rightarrow> string"

record memory =
  used_memory :: u64
  memory_block :: u64
  mem_stats :: "nat \<Rightarrow> mem_data"
  me_heap :: "ptr \<rightharpoonup> string"
  me_brk :: ptr

definition memory_init :: memory where
  "memory_init = \<lparr>used_memory = 0, memory_block = 0, mem_stats = (\<lambda>i. \<lparr>md_handle = 0, md_allocated = 0\<rparr>),
     me_heap = Map.empty, me_brk = 1\<rparr>"

section \<open>Accounting\<close>

definition slot_of :: "u32 \<Rightarrow> nat" where
  "slot_of handle = unat (handle AND 0xffff)"

definition get_allocated_field :: "u32 \<Rightarrow> memory \<Rightarrow> nat option \<times> memory" where
  \<comment> \<open>the slot of the service, taken over when it is not in use; \<open>None\<close> is the null pointer\<close>
  "get_allocated_field handle m =
     (let h = slot_of handle; data = mem_stats m h;
          data1 = (if md_handle data = 0 \<or> sint (md_allocated data) \<le> 0
                   then data\<lparr>md_handle := handle, md_allocated := (if sint (md_allocated data) < 0 then 0 else md_allocated data)\<rparr>
                   else data)
      in (if md_handle data1 = handle then Some h else None, m\<lparr>mem_stats := (mem_stats m)(h := data1)\<rparr>))"

definition add_allocated :: "nat option \<Rightarrow> u64 \<Rightarrow> memory \<Rightarrow> memory" where
  "add_allocated field n m =
     (case field of
        None \<Rightarrow> m
      | Some h \<Rightarrow> m\<lparr>mem_stats := (mem_stats m)(h := (mem_stats m h)\<lparr>md_allocated := md_allocated (mem_stats m h) + n\<rparr>)\<rparr>)"

definition update_xmalloc_stat_alloc :: "u32 \<Rightarrow> u64 \<Rightarrow> memory \<Rightarrow> memory" where
  "update_xmalloc_stat_alloc handle n m =
     (let m = m\<lparr>used_memory := used_memory m + n, memory_block := memory_block m + 1\<rparr>;
          (allocated, m) = get_allocated_field handle m
      in add_allocated allocated n m)"

definition update_xmalloc_stat_free :: "u32 \<Rightarrow> u64 \<Rightarrow> memory \<Rightarrow> memory" where
  "update_xmalloc_stat_free handle n m =
     (let m = m\<lparr>used_memory := used_memory m - n, memory_block := memory_block m - 1\<rparr>;
          (allocated, m) = get_allocated_field handle m
      in add_allocated allocated (- n) m)"

definition set_tag :: "u32 \<Rightarrow> string \<Rightarrow> string" where
  "set_tag handle block = take (length block - 4) block @ put_le handle"

definition tag_of :: "string \<Rightarrow> u32" where
  "tag_of block = get_le (drop (length block - 4) block)"

definition fill_prefix :: "u32 \<Rightarrow> ptr \<Rightarrow> memory \<Rightarrow> memory option" where
  \<comment> \<open>the first argument is what \<open>uboss_current_handle\<close> returns\<close>
  "fill_prefix current p m = do {
     block \<leftarrow> me_heap m p;
     guard (4 \<le> length block);
     Some (update_xmalloc_stat_alloc current (word_of_nat (length block))
       (m\<lparr>me_heap := (me_heap m)(p \<mapsto> set_tag current block)\<rparr>)) }"

definition clean_prefix :: "ptr \<Rightarrow> memory \<Rightarrow> memory option" where
  "clean_prefix p m = do {
     block \<leftarrow> me_heap m p;
     guard (4 \<le> length block);
     Some (update_xmalloc_stat_free (tag_of block) (word_of_nat (length block)) m) }"

section \<open>Blocks\<close>

definition je_malloc :: "jemalloc \<Rightarrow> u64 \<Rightarrow> memory \<Rightarrow> ptr \<times> memory" where
  "je_malloc J sz m =
     (if je_refuses J sz then (NULL, m)
      else (me_brk m, m\<lparr>me_heap := (me_heap m)(me_brk m \<mapsto> je_block J sz), me_brk := me_brk m + 1\<rparr>))"

definition je_calloc :: "jemalloc \<Rightarrow> u64 \<Rightarrow> u64 \<Rightarrow> memory \<Rightarrow> ptr \<times> memory" where
  \<comment> \<open>zeroed memory; a product that overflows is refused\<close>
  "je_calloc J items sz m =
     (if 2 ^ 64 \<le> unat items * unat sz \<or> je_refuses J (items * sz) then (NULL, m)
      else (me_brk m, m\<lparr>me_heap := (me_heap m)(me_brk m \<mapsto> replicate (length (je_block J (items * sz))) NUL), me_brk := me_brk m + 1\<rparr>))"

definition je_free :: "ptr \<Rightarrow> memory \<Rightarrow> memory option" where
  "je_free p m = do { block \<leftarrow> me_heap m p; Some (m\<lparr>me_heap := (me_heap m)(p := None)\<rparr>) }"

definition je_realloc :: "jemalloc \<Rightarrow> ptr \<Rightarrow> u64 \<Rightarrow> memory \<Rightarrow> (ptr \<times> memory) option" where
  \<comment> \<open>the bytes of the old block are kept as far as the new one reaches\<close>
  "je_realloc J p sz m =
     (if p = NULL then Some (je_malloc J sz m)
      else if je_refuses J sz then Some (NULL, m)
      else do {
        block \<leftarrow> me_heap m p;
        let new = take (length (je_block J sz)) block @ drop (length block) (je_block J sz);
        Some (me_brk m, m\<lparr>me_heap := (me_heap m)(p := None, me_brk m \<mapsto> new), me_brk := me_brk m + 1\<rparr>) })"

definition uboss_malloc :: "jemalloc \<Rightarrow> u32 \<Rightarrow> u64 \<Rightarrow> memory \<Rightarrow> (ptr \<times> memory) option" where
  \<comment> \<open>\<open>malloc_oom\<close> aborts\<close>
  "uboss_malloc J current sz m =
     (let (p, m) = je_malloc J (sz + PREFIX_SIZE) m
      in do { guard (p \<noteq> NULL); m \<leftarrow> fill_prefix current p m; Some (p, m) })"

definition uboss_realloc :: "jemalloc \<Rightarrow> u32 \<Rightarrow> ptr \<Rightarrow> u64 \<Rightarrow> memory \<Rightarrow> (ptr \<times> memory) option" where
  "uboss_realloc J current p sz m =
     (if p = NULL then uboss_malloc J current sz m
      else do {
        m \<leftarrow> clean_prefix p m;
        (q, m) \<leftarrow> je_realloc J p (sz + PREFIX_SIZE) m;
        guard (q \<noteq> NULL);
        m \<leftarrow> fill_prefix current q m;
        Some (q, m) })"

definition uboss_free :: "ptr \<Rightarrow> memory \<Rightarrow> memory option" where
  "uboss_free p m = (if p = NULL then Some m else do { m \<leftarrow> clean_prefix p m; je_free p m })"

definition uboss_calloc :: "jemalloc \<Rightarrow> u32 \<Rightarrow> u64 \<Rightarrow> u64 \<Rightarrow> memory \<Rightarrow> (ptr \<times> memory) option" where
  \<comment> \<open>a division by zero traps\<close>
  "uboss_calloc J current nmemb sz m = do {
     guard (sz \<noteq> 0);
     let (p, m) = je_calloc J (nmemb + (PREFIX_SIZE + sz - 1) div sz) sz m;
     guard (p \<noteq> NULL);
     m \<leftarrow> fill_prefix current p m;
     Some (p, m) }"

definition client_write :: "ptr \<Rightarrow> nat \<Rightarrow> string \<Rightarrow> memory \<Rightarrow> memory option" where
  \<comment> \<open>a write of a client\<close>
  "client_write p off bytes m = do {
     block \<leftarrow> me_heap m p;
     guard (off + length bytes \<le> length block);
     Some (m\<lparr>me_heap := (me_heap m)(p \<mapsto> take off block @ bytes @ drop (off + length bytes) block)\<rparr>) }"

definition uboss_strdup :: "jemalloc \<Rightarrow> u32 \<Rightarrow> string \<Rightarrow> memory \<Rightarrow> (ptr \<times> memory) option" where
  "uboss_strdup J current str m =
     (let s = c_str str
      in do {
        (p, m) \<leftarrow> uboss_malloc J current (word_of_nat (length s) + 1) m;
        m \<leftarrow> client_write p 0 (s @ [NUL]) m;
        Some (p, m) })"

definition uboss_lalloc :: "jemalloc \<Rightarrow> ptr \<Rightarrow> u64 \<Rightarrow> memory \<Rightarrow> (ptr \<times> memory) option" where
  \<comment> \<open>not counted\<close>
  "uboss_lalloc J p nsize m =
     (if nsize = 0 then (if p = NULL then Some (NULL, m) else do { m \<leftarrow> je_free p m; Some (NULL, m) })
      else je_realloc J p nsize m)"

section \<open>Reports\<close>

definition malloc_used_memory :: "memory \<Rightarrow> u64" where
  "malloc_used_memory m = used_memory m"

definition malloc_memory_block :: "memory \<Rightarrow> u64" where
  "malloc_memory_block m = memory_block m"

definition live_slots :: "memory \<Rightarrow> mem_data list" where
  "live_slots m = filter (\<lambda>d. md_handle d \<noteq> 0 \<and> md_allocated d \<noteq> 0) (map (mem_stats m) [0..<SLOT_SIZE])"

definition dump_c_mem :: "memory \<Rightarrow> string list" where
  \<comment> \<open>the texts for \<open>uboss_error\<close>\<close>
  "dump_c_mem m =
     ''dump all service mem:'' #
     map (\<lambda>d. ''0x'' @ print_x (unat (md_handle d)) @ '' -> '' @ print_d (sint (signed_drop_bit 10 (md_allocated d))) @ ''kb'') (live_slots m) @
     [''+total: '' @ print_d (sint (drop_bit 10 (sum_list (map md_allocated (live_slots m))))) @ ''kb'']"

definition dump_mem_lua :: "memory \<Rightarrow> (u32 \<times> u64) list" where
  \<comment> \<open>the pairs of the table, in the order they are set\<close>
  "dump_mem_lua m = map (\<lambda>d. (md_handle d, md_allocated d)) (live_slots m)"

definition malloc_current_memory :: "u32 \<Rightarrow> memory \<Rightarrow> u64" where
  "malloc_current_memory current m =
     (case List.find (\<lambda>d. md_handle d = current \<and> md_allocated d \<noteq> 0) (map (mem_stats m) [0..<SLOT_SIZE]) of
        Some d \<Rightarrow> md_allocated d
      | None \<Rightarrow> 0)"

end
