(* ===== verification/MallocProps.thy ===== *)
theory MallocProps
  imports Malloc
begin

text \<open>
  The counters of the allocator are exact as long as clients stay inside what they asked for: the
  bytes and blocks in use, and the bytes of every service.
\<close>

section \<open>The slot of a service\<close>

definition slots_ok :: "u32 set \<Rightarrow> (u32 \<Rightarrow> nat) \<Rightarrow> (nat \<Rightarrow> mem_data) \<Rightarrow> bool" where
  "slots_ok H a st \<longleftrightarrow>
     (\<forall>h \<in> H. a h < 2 ^ 63 \<and>
        (md_handle (st (slot_of h)) = h \<and> md_allocated (st (slot_of h)) = word_of_nat (a h) \<or>
         st (slot_of h) = \<lparr>md_handle = 0, md_allocated = 0\<rparr> \<and> a h = 0))"

lemma sint_count: "n < 2 ^ 63 \<Longrightarrow> sint (word_of_nat n :: u64) = int n"
  using int_word_sint [of "int n", where 'a = 64] by simp

lemma slots_update:
  assumes ok: "slots_ok H a st" and inj: "inj_on slot_of H" and h: "h \<in> H" "n < 2 ^ 63"
    and st': "\<And>i. i \<noteq> slot_of h \<Longrightarrow> st' i = st i" "st' (slot_of h) = \<lparr>md_handle = h, md_allocated = word_of_nat n\<rparr>"
  shows "slots_ok H (a(h := n)) st'"
  unfolding slots_ok_def
proof
  fix k assume k: "k \<in> H"
  show "(a(h := n)) k < 2 ^ 63 \<and> (md_handle (st' (slot_of k)) = k \<and> md_allocated (st' (slot_of k)) = word_of_nat ((a(h := n)) k) \<or>
      st' (slot_of k) = \<lparr>md_handle = 0, md_allocated = 0\<rparr> \<and> (a(h := n)) k = 0)"
  proof (cases "k = h")
    case False
    then have "slot_of k \<noteq> slot_of h" using inj k h(1) by (auto dest: inj_onD)
    then show ?thesis using ok k False st'(1) by (simp add: slots_ok_def)
  qed (use h(2) st'(2) in simp)
qed

lemma field_taken:
  assumes ok: "slots_ok H a (mem_stats m)" and h: "h \<in> H"
  shows "get_allocated_field h m =
    (Some (slot_of h), m\<lparr>mem_stats := (mem_stats m)(slot_of h := \<lparr>md_handle = h, md_allocated = word_of_nat (a h)\<rparr>)\<rparr>)"
proof -
  let ?d = "mem_stats m (slot_of h)"
  have a: "a h < 2 ^ 63" using ok h by (simp add: slots_ok_def)
  consider "md_handle ?d = h" "md_allocated ?d = word_of_nat (a h)" | "?d = \<lparr>md_handle = 0, md_allocated = 0\<rparr>" "a h = 0"
    using ok h by (auto simp: slots_ok_def)
  then show ?thesis
  proof cases
    case 1
    then have "?d = \<lparr>md_handle = h, md_allocated = word_of_nat (a h)\<rparr>" by simp
    then show ?thesis using sint_count [OF a] by (simp add: get_allocated_field_def Let_def)
  qed (simp add: get_allocated_field_def Let_def)
qed

lemma stat_alloc_ok:
  assumes "slots_ok H a (mem_stats m)" "inj_on slot_of H" "h \<in> H" "a h + n < 2 ^ 63"
  shows "slots_ok H (a(h := a h + n)) (mem_stats (update_xmalloc_stat_alloc h (word_of_nat n) m))"
proof -
  have ok: "slots_ok H a (mem_stats (m\<lparr>used_memory := u, memory_block := b\<rparr>))" for u b using assms(1) by simp
  show ?thesis
    using assms(2-4) unfolding update_xmalloc_stat_alloc_def Let_def field_taken [OF ok assms(3)]
    by (intro slots_update [OF assms(1)]) (simp_all add: add_allocated_def)
qed

lemma stat_free_ok:
  assumes "slots_ok H a (mem_stats m)" "inj_on slot_of H" "h \<in> H" "n \<le> a h"
  shows "slots_ok H (a(h := a h - n)) (mem_stats (update_xmalloc_stat_free h (word_of_nat n) m))"
proof -
  have ok: "slots_ok H a (mem_stats (m\<lparr>used_memory := u, memory_block := b\<rparr>))" for u b using assms(1) by simp
  have a: "a h < 2 ^ 63" using assms(1,3) by (simp add: slots_ok_def)
  have "(word_of_nat (a h - n) :: u64) = word_of_nat (a h) - word_of_nat n" using assms(4) by (simp add: of_nat_diff)
  then show ?thesis
    using assms(2-4) a unfolding update_xmalloc_stat_free_def Let_def field_taken [OF ok assms(3)]
    by (intro slots_update [OF assms(1)]) (simp_all add: add_allocated_def)
qed

lemma stat_frame:
  "used_memory (update_xmalloc_stat_alloc h n m) = used_memory m + n" "memory_block (update_xmalloc_stat_alloc h n m) = memory_block m + 1"
  "me_heap (update_xmalloc_stat_alloc h n m) = me_heap m" "me_brk (update_xmalloc_stat_alloc h n m) = me_brk m"
  "used_memory (update_xmalloc_stat_free h n m) = used_memory m - n" "memory_block (update_xmalloc_stat_free h n m) = memory_block m - 1"
  "me_heap (update_xmalloc_stat_free h n m) = me_heap m" "me_brk (update_xmalloc_stat_free h n m) = me_brk m"
  by (simp_all add: update_xmalloc_stat_alloc_def update_xmalloc_stat_free_def get_allocated_field_def add_allocated_def Let_def split: option.split)

lemma tag_set_tag: "4 \<le> length block \<Longrightarrow> tag_of (set_tag h block) = h" "4 \<le> length block \<Longrightarrow> length (set_tag h block) = length block"
  by (simp_all add: tag_of_def set_tag_def)

definition placed :: "(nat \<Rightarrow> mem_data) \<Rightarrow> bool" where
  "placed st \<longleftrightarrow> (\<forall>i. md_handle (st i) = 0 \<or> slot_of (md_handle (st i)) = i)"

lemma placed_keeps:
  assumes "placed (mem_stats m)"
  shows "placed (mem_stats (update_xmalloc_stat_alloc h n m))" "placed (mem_stats (update_xmalloc_stat_free h n m))"
  using assms
  by (auto simp: placed_def update_xmalloc_stat_alloc_def update_xmalloc_stat_free_def get_allocated_field_def add_allocated_def Let_def)

lemma slot_less: "slot_of h < SLOT_SIZE"
proof -
  have "(0xffff :: u32) = mask 16" by (simp add: mask_eq_exp_minus_1)
  then show ?thesis using unat_and_mask [of h 16] by (simp add: slot_of_def SLOT_SIZE_def)
qed

lemma find_found: "List.find P xs = Some e \<Longrightarrow> e \<in> set xs \<and> P e"
  by (induction xs) (auto split: if_splits)

lemma current_memory_slot:
  assumes "slots_ok H a (mem_stats m)" "placed (mem_stats m)" "h \<in> H" "h \<noteq> 0"
  shows "malloc_current_memory h m = word_of_nat (a h)"
proof -
  let ?P = "\<lambda>d. md_handle d = h \<and> md_allocated d \<noteq> 0" and ?xs = "map (mem_stats m) [0..<SLOT_SIZE]"
  let ?d = "mem_stats m (slot_of h)"
  have mem: "?d \<in> set ?xs" using slot_less [of h] by simp
  have only: "d = ?d" if "d \<in> set ?xs" "?P d" for d
    using that assms(2,4) by (auto simp: placed_def)
  have d: "md_handle ?d = h \<and> md_allocated ?d = word_of_nat (a h) \<or> ?d = \<lparr>md_handle = 0, md_allocated = 0\<rparr> \<and> a h = 0"
    using assms(1,3) by (simp add: slots_ok_def)
  show ?thesis
  proof (cases "List.find ?P ?xs")
    case None
    then have "\<not> ?P ?d" using mem by (auto simp: find_None_iff)
    then show ?thesis using d None by (auto simp: malloc_current_memory_def)
  next
    case (Some e)
    note e = find_found [OF this]
    have "e = ?d" using e by (intro only) (rule conjunct1, rule e, rule conjunct2, rule e)
    then have "?P ?d" using e by (simp only: simp_thms)
    then show ?thesis using d Some \<open>e = ?d\<close> by (auto simp: malloc_current_memory_def)
  qed
qed

section \<open>The heap\<close>

text \<open>For every block in use: the bytes the client asked for and the service that did.\<close>

type_synonym clients = "ptr \<rightharpoonup> nat \<times> u32"

definition bytes_in :: "memory \<Rightarrow> ptr set \<Rightarrow> nat" where
  "bytes_in m S = (\<Sum>p \<in> S. length (the (me_heap m p)))"

definition owned_by :: "clients \<Rightarrow> u32 \<Rightarrow> ptr set" where
  "owned_by g h = {p. \<exists>n. g p = Some (n, h)}"

definition heap_ok :: "u32 set \<Rightarrow> memory \<Rightarrow> clients \<Rightarrow> bool" where
  "heap_ok H m g \<longleftrightarrow> finite (dom g) \<and> dom (me_heap m) = dom g \<and> 0 < me_brk m \<and>
     (\<forall>p n h. g p = Some (n, h) \<longrightarrow> 0 < p \<and> p < me_brk m \<and> h \<in> H \<and>
        (\<exists>b. me_heap m p = Some b \<and> n + 4 \<le> length b \<and> tag_of b = h))"

definition memory_ok :: "u32 set \<Rightarrow> memory \<times> clients \<Rightarrow> bool" where
  "memory_ok H = (\<lambda>(m, g). heap_ok H m g \<and> bytes_in m (dom g) < 2 ^ 63 \<and>
     used_memory m = word_of_nat (bytes_in m (dom g)) \<and> memory_block m = word_of_nat (card (dom g)) \<and>
     slots_ok H (\<lambda>h. bytes_in m (owned_by g h)) (mem_stats m) \<and> placed (mem_stats m))"

lemma owned_finite: "finite (dom g) \<Longrightarrow> finite (owned_by g h)"
  by (rule finite_subset [of _ "dom g"]) (auto simp: owned_by_def)

lemma owned_upd: "p \<notin> dom g \<Longrightarrow> owned_by (g(p \<mapsto> (n, h))) k = (if k = h then insert p (owned_by g k) else owned_by g k)"
  by (auto simp: owned_by_def dom_def)

lemma owned_del: "g p = Some (n, h) \<Longrightarrow> owned_by (g(p := None)) k = (if k = h then owned_by g k - {p} else owned_by g k)"
  by (auto simp: owned_by_def)

lemma bytes_cong:
  assumes "\<And>p. p \<in> S \<Longrightarrow> map_option length (me_heap m p) = map_option length (me_heap m' p)" "S \<subseteq> dom (me_heap m)"
  shows "bytes_in m S = bytes_in m' S"
  unfolding bytes_in_def
proof (intro sum.cong refl)
  fix p assume p: "p \<in> S"
  then obtain b where "me_heap m p = Some b" using assms(2) by blast
  then show "length (the (me_heap m p)) = length (the (me_heap m' p))" using assms(1) [OF p] by (cases "me_heap m' p") simp_all
qed

lemma bytes_insert:
  assumes "finite S" "p \<notin> S" "S \<subseteq> dom (me_heap m)" "me_heap m' = (me_heap m)(p \<mapsto> b)"
  shows "bytes_in m' (insert p S) = bytes_in m S + length b"
proof -
  have "bytes_in m S = bytes_in m' S" using assms by (intro bytes_cong) auto
  then show ?thesis using assms by (simp add: bytes_in_def)
qed

lemma bytes_remove:
  assumes "finite S" "p \<in> S" "me_heap m p = Some b" "me_heap m' = (me_heap m)(p := None)"
  shows "bytes_in m' (S - {p}) + length b = bytes_in m S"
proof -
  have "bytes_in m S = length b + (\<Sum>q \<in> S - {p}. length (the (me_heap m q)))"
    using assms by (simp add: bytes_in_def sum.remove)
  moreover have "(\<Sum>q \<in> S - {p}. length (the (me_heap m q))) = bytes_in m' (S - {p})"
    unfolding bytes_in_def using assms(4) by (intro sum.cong refl) auto
  ultimately show ?thesis by simp
qed

text \<open>A block that is entered, and one that is taken out.\<close>

lemma enter_block:
  assumes ok: "memory_ok H (m, g)" and H: "inj_on slot_of H" "h \<in> H" and n: "n + 4 \<le> length b"
    and m0: "me_heap m0 = (me_heap m)(me_brk m \<mapsto> b)" "me_brk m0 = me_brk m + 1" "used_memory m0 = used_memory m"
      "memory_block m0 = memory_block m" "mem_stats m0 = mem_stats m"
    and less: "bytes_in m (dom g) + length b < 2 ^ 63"
  shows "\<exists>m'. fill_prefix h (me_brk m) m0 = Some m' \<and> memory_ok H (m', g(me_brk m \<mapsto> (n, h))) \<and>
    bytes_in m' (dom (me_heap m')) = bytes_in m (dom g) + length b"
proof -
  let ?p = "me_brk m" and ?b = "set_tag h b" and ?g = "g(me_brk m \<mapsto> (n, h))"
  let ?m = "update_xmalloc_stat_alloc h (word_of_nat (length b)) (m0\<lparr>me_heap := (me_heap m0)(?p \<mapsto> ?b)\<rparr>)"
  have heap: "finite (dom g)" "dom (me_heap m) = dom g" "0 < ?p"
    "\<And>p n h. g p = Some (n, h) \<Longrightarrow> 0 < p \<and> p < ?p \<and> h \<in> H \<and> (\<exists>b. me_heap m p = Some b \<and> n + 4 \<le> length b \<and> tag_of b = h)"
    using ok by (auto simp: memory_ok_def heap_ok_def)
  have new: "?p \<notin> dom g" using heap(4) by fastforce
  have fill: "fill_prefix h ?p m0 = Some ?m" using n m0(1) by (simp add: fill_prefix_def)
  have tag: "tag_of ?b = h" "length ?b = length b" using tag_set_tag [of b h] n by simp_all
  have mh: "me_heap ?m = (me_heap m)(?p \<mapsto> ?b)" "me_brk ?m = ?p + 1" by (simp_all add: stat_frame m0)
  have total: "bytes_in ?m (dom ?g) = bytes_in m (dom g) + length b"
    using bytes_insert [OF heap(1) new _ mh(1)] heap(2) tag(2) by simp
  have own: "bytes_in ?m (owned_by ?g k) = (if k = h then bytes_in m (owned_by g k) + length b else bytes_in m (owned_by g k))" for k
  proof -
    have sub: "finite (owned_by g k)" "owned_by g k \<subseteq> dom (me_heap m)" "?p \<notin> owned_by g k"
      using owned_finite [OF heap(1)] new heap(2) by (auto simp: owned_by_def)
    show ?thesis
    proof (cases "k = h")
      case True
      then show ?thesis using bytes_insert [OF sub(1,3,2) mh(1)] owned_upd [OF new] tag(2) by simp
    next
      case False
      then have "bytes_in m (owned_by g k) = bytes_in ?m (owned_by g k)" using sub mh(1) by (intro bytes_cong) auto
      then show ?thesis using False owned_upd [OF new] by simp
    qed
  qed
  have le: "bytes_in m (owned_by g h) \<le> bytes_in m (dom g)"
    unfolding bytes_in_def by (intro sum_mono2 heap(1)) (auto simp: owned_by_def)
  have "slots_ok H (\<lambda>k. bytes_in ?m (owned_by ?g k)) (mem_stats ?m)"
  proof -
    let ?a = "\<lambda>k. bytes_in m (owned_by g k)"
    have "slots_ok H ?a (mem_stats (m0\<lparr>me_heap := (me_heap m0)(?p \<mapsto> ?b)\<rparr>))" using ok by (simp add: memory_ok_def m0)
    then have "slots_ok H (?a(h := ?a h + length b)) (mem_stats ?m)" using H le less by (intro stat_alloc_ok) simp_all
    moreover have "?a(h := ?a h + length b) = (\<lambda>k. bytes_in ?m (owned_by ?g k))" by (rule ext) (simp add: own)
    ultimately show ?thesis by (simp only:)
  qed
  moreover have "placed (mem_stats ?m)" using ok by (intro placed_keeps) (simp add: memory_ok_def m0)
  moreover have "used_memory ?m = word_of_nat (bytes_in ?m (dom ?g))" "memory_block ?m = word_of_nat (card (dom ?g))"
    unfolding total using ok new heap(1) by (simp_all add: stat_frame m0 memory_ok_def)
  moreover have "heap_ok H ?m ?g"
    unfolding heap_ok_def mh using heap tag n H(2) by (auto simp: less_Suc_eq)
  moreover have "dom (me_heap ?m) = dom ?g" using mh(1) heap(2) by simp
  ultimately show ?thesis using fill total less by (simp add: memory_ok_def del: dom_fun_upd)
qed

lemma take_block_out:
  assumes ok: "memory_ok H (m, g)" and H: "inj_on slot_of H" and p: "g p = Some (n, h)"
  shows "\<exists>m1. clean_prefix p m = Some m1 \<and> me_heap m1 = me_heap m \<and> me_brk m1 = me_brk m \<and>
    memory_ok H (m1\<lparr>me_heap := (me_heap m)(p := None)\<rparr>, g(p := None))"
proof -
  have heap: "finite (dom g)" "dom (me_heap m) = dom g" "0 < me_brk m"
    "\<And>p n h. g p = Some (n, h) \<Longrightarrow> 0 < p \<and> p < me_brk m \<and> h \<in> H \<and> (\<exists>b. me_heap m p = Some b \<and> n + 4 \<le> length b \<and> tag_of b = h)"
    using ok by (auto simp: memory_ok_def heap_ok_def)
  obtain b where b: "me_heap m p = Some b" "n + 4 \<le> length b" "tag_of b = h" "h \<in> H" using heap(4) [OF p] by blast
  let ?m1 = "update_xmalloc_stat_free h (word_of_nat (length b)) m" and ?g = "g(p := None)"
  let ?m = "?m1\<lparr>me_heap := (me_heap m)(p := None)\<rparr>"
  have mh: "me_heap ?m = (me_heap m)(p := None)" by simp
  have pd: "p \<in> dom g" using p by blast
  have total: "bytes_in ?m (dom ?g) + length b = bytes_in m (dom g)"
    using bytes_remove [OF heap(1) pd b(1) mh] by simp
  have own: "bytes_in ?m (owned_by ?g k) = (if k = h then bytes_in m (owned_by g k) - length b else bytes_in m (owned_by g k))" for k
  proof (cases "k = h")
    case True
    have "p \<in> owned_by g k" using p True by (auto simp: owned_by_def)
    from bytes_remove [OF owned_finite [OF heap(1)] this b(1) mh] show ?thesis
      using True by (simp add: owned_del [where g = g and p = p, OF p])
  next
    case False
    then have "p \<notin> owned_by g k" using p by (auto simp: owned_by_def)
    then have "bytes_in m (owned_by g k) = bytes_in ?m (owned_by g k)"
      using heap(2) by (intro bytes_cong) (auto simp: owned_by_def)
    then show ?thesis using False by (simp add: owned_del [where g = g and p = p, OF p])
  qed
  have le: "length b \<le> bytes_in m (owned_by g h)"
    using bytes_remove [OF owned_finite [OF heap(1)] _ b(1) mh, of h] p by (auto simp: owned_by_def)
  have "slots_ok H (\<lambda>k. bytes_in ?m (owned_by ?g k)) (mem_stats ?m)"
  proof -
    let ?a = "\<lambda>k. bytes_in m (owned_by g k)"
    have "slots_ok H ?a (mem_stats m)" using ok by (simp add: memory_ok_def)
    then have "slots_ok H (?a(h := ?a h - length b)) (mem_stats ?m1)" using H b(4) le by (intro stat_free_ok) simp_all
    moreover have "?a(h := ?a h - length b) = (\<lambda>k. bytes_in ?m (owned_by ?g k))" by (rule ext) (simp add: own)
    ultimately show ?thesis by simp
  qed
  moreover have "placed (mem_stats ?m)" using placed_keeps(2) [of m] ok by (simp add: memory_ok_def)
  moreover have "used_memory ?m = word_of_nat (bytes_in ?m (dom ?g))"
  proof -
    have "used_memory ?m = word_of_nat (bytes_in m (dom g)) - word_of_nat (length b)"
      using ok by (simp add: stat_frame memory_ok_def)
    then show ?thesis unfolding total [symmetric] of_nat_add add_diff_cancel_right' .
  qed
  moreover have "memory_block ?m = word_of_nat (card (dom ?g))"
  proof -
    have "card (dom g) = Suc (card (dom ?g))" using card.remove [OF heap(1) pd] by simp
    then show ?thesis using ok by (simp add: stat_frame memory_ok_def)
  qed
  moreover have "heap_ok H ?m ?g" unfolding heap_ok_def using heap by (auto simp: stat_frame)
  ultimately have "memory_ok H (?m, ?g)" using total ok by (simp add: memory_ok_def)
  then show ?thesis using b by (intro exI [of _ ?m1]) (simp add: clean_prefix_def stat_frame)
qed

section \<open>Histories of calls\<close>

lemma new_block:
  assumes ok: "memory_ok H (m, g)" and "inj_on slot_of H" "h \<in> H" "n + 4 \<le> length b"
    and fill: "fill_prefix h (me_brk m) (m\<lparr>me_heap := (me_heap m)(me_brk m \<mapsto> b), me_brk := me_brk m + 1\<rparr>) = Some m'"
    and less: "bytes_in m (dom (me_heap m)) + length b < 2 ^ 63"
  shows "memory_ok H (m', g(me_brk m \<mapsto> (n, h)))"
proof -
  have "dom (me_heap m) = dom g" using ok by (simp add: memory_ok_def heap_ok_def)
  then show ?thesis
    using enter_block [OF ok assms(2-4), of "m\<lparr>me_heap := (me_heap m)(me_brk m \<mapsto> b), me_brk := me_brk m + 1\<rparr>"] fill less by auto
qed

lemma written_tag:
  assumes "off + length bytes + 4 \<le> length b"
  shows "tag_of (take off b @ bytes @ drop (off + length bytes) b) = tag_of b"
    "length (take off b @ bytes @ drop (off + length bytes) b) = length b"
  using assms by (simp_all add: tag_of_def)

lemma write_keeps:
  assumes ok: "memory_ok H (m, g)" and p: "g p = Some (n, h)" and room: "off + length bytes \<le> n"
    and w: "client_write p off bytes m = Some m'"
  shows "memory_ok H (m', g)"
proof -
  have heap: "heap_ok H m g" using ok by (simp add: memory_ok_def)
  then obtain b where b: "me_heap m p = Some b" "n + 4 \<le> length b" "tag_of b = h" using p unfolding heap_ok_def by blast
  let ?b = "take off b @ bytes @ drop (off + length bytes) b"
  have m': "m' = m\<lparr>me_heap := (me_heap m)(p \<mapsto> ?b)\<rparr>" using w b(1) by (auto simp: client_write_def split: option.splits)
  have t: "tag_of ?b = h" "length ?b = length b" using written_tag [of off bytes b] room b by simp_all
  have same: "bytes_in m' S = bytes_in m S" if "S \<subseteq> dom g" for S
  proof -
    have "S \<subseteq> dom (me_heap m)" using that heap by (simp add: heap_ok_def)
    then show ?thesis using t(2) b(1) by (intro bytes_cong [symmetric]) (auto simp: m')
  qed
  have "owned_by g k \<subseteq> dom g" for k by (auto simp: owned_by_def)
  note bytes = same [OF subset_refl] same [OF this]
  have "heap_ok H m' g"
    using heap p b t unfolding heap_ok_def m' by auto
  moreover have "used_memory m' = used_memory m" "memory_block m' = memory_block m" "mem_stats m' = mem_stats m" by (simp_all add: m')
  ultimately show ?thesis using ok by (simp add: memory_ok_def bytes)
qed

text \<open>
  The calls of the services of \<open>H\<close>, and the writes of their owners into the blocks. A call fits when
  the bytes in use stay below \<open>2 ^ 63\<close> with the block that jemalloc gives for it.
\<close>

definition fits :: "jemalloc \<Rightarrow> u64 \<Rightarrow> memory \<Rightarrow> bool" where
  "fits J sz m \<longleftrightarrow> bytes_in m (dom (me_heap m)) + length (je_block J sz) < 2 ^ 63"

inductive mem_step :: "u32 set \<Rightarrow> jemalloc \<Rightarrow> memory \<times> clients \<Rightarrow> memory \<times> clients \<Rightarrow> bool" for H J where
  mem_malloc: "h \<in> H \<Longrightarrow> unat sz < 2 ^ 63 \<Longrightarrow> fits J (sz + PREFIX_SIZE) m \<Longrightarrow> uboss_malloc J h sz m = Some (p, m') \<Longrightarrow>
    mem_step H J (m, g) (m', g(p \<mapsto> (unat sz, h)))"
| mem_calloc: "h \<in> H \<Longrightarrow> unat nmemb * unat sz < 2 ^ 62 \<Longrightarrow> unat sz < 2 ^ 62 \<Longrightarrow> fits J ((nmemb + (PREFIX_SIZE + sz - 1) div sz) * sz) m \<Longrightarrow>
    uboss_calloc J h nmemb sz m = Some (p, m') \<Longrightarrow>
    mem_step H J (m, g) (m', g(p \<mapsto> (unat nmemb * unat sz, h)))"
| mem_realloc: "h \<in> H \<Longrightarrow> unat sz < 2 ^ 63 \<Longrightarrow> fits J (sz + PREFIX_SIZE) m \<Longrightarrow> g p = Some (n, k) \<Longrightarrow>
    uboss_realloc J h p sz m = Some (q, m') \<Longrightarrow>
    mem_step H J (m, g) (m', g(p := None, q \<mapsto> (unat sz, h)))"
| mem_free: "g p = Some (n, k) \<Longrightarrow> uboss_free p m = Some m' \<Longrightarrow> mem_step H J (m, g) (m', g(p := None))"
| mem_write: "g p = Some (n, k) \<Longrightarrow> off + length bytes \<le> n \<Longrightarrow> client_write p off bytes m = Some m' \<Longrightarrow> mem_step H J (m, g) (m', g)"

lemma size_with_prefix:
  assumes "unat (sz :: u64) < 2 ^ 63" shows "unat (sz + PREFIX_SIZE) = unat sz + 4"
  using assms by (subst unat_add_lem [THEN iffD1]) (simp_all add: PREFIX_SIZE_def)

lemma items_cover:
  assumes "unat nmemb * unat sz < 2 ^ 62" "unat (sz :: u64) < 2 ^ 62" "sz \<noteq> 0"
  shows "unat nmemb * unat sz + 4 \<le> unat ((nmemb + (PREFIX_SIZE + sz - 1) div sz) * sz)"
proof -
  let ?n = "unat nmemb" and ?s = "unat sz"
  have pos: "0 < ?s" using assms(3) by (simp add: unat_gt_0)
  have "PREFIX_SIZE + sz - 1 = sz + 3" by (simp add: PREFIX_SIZE_def)
  moreover have "unat (sz + 3) = ?s + 3" using assms(2) by (subst unat_add_lem [THEN iffD1]) simp_all
  ultimately have d: "unat ((PREFIX_SIZE + sz - 1) div sz) = (?s + 3) div ?s" by (simp only: unat_div)
  have d4: "(?s + 3) div ?s \<le> 4" using pos div_le_dividend [of 3 ?s] div_add_self1 [of ?s 3] by linarith
  have n: "?n < 2 ^ 62" using assms(1) pos by (metis le_less_trans mult_le_mono2 mult.right_neutral Suc_leI One_nat_def)
  have items: "unat (nmemb + (PREFIX_SIZE + sz - 1) div sz) = ?n + (?s + 3) div ?s"
    using n d d4 by (subst unat_add_lem [THEN iffD1]) simp_all
  have room: "a + b < 2 ^ 64" if "a < 2 ^ 62" "c < 2 ^ 62" "b \<le> c + 3" for a b c :: nat using that by simp
  have low: "?s + 3 < (?s + 3) div ?s * ?s + ?s" and high: "(?s + 3) div ?s * ?s \<le> ?s + 3"
    using pos dividend_less_div_times [of ?s "?s + 3"] by simp_all
  have "?n * ?s + (?s + 3) div ?s * ?s < 2 ^ 64" by (rule room) (rule assms(1,2) high)+
  then have "unat ((nmemb + (PREFIX_SIZE + sz - 1) div sz) * sz) = (?n + (?s + 3) div ?s) * ?s"
    by (subst unat_mult_lem [THEN iffD1]) (simp_all add: items distrib_right)
  then show ?thesis using low by (simp add: distrib_right)
qed

lemma malloc_keeps:
  assumes ok: "memory_ok H (m, g)" and H: "inj_on slot_of H" "h \<in> H" and J: "\<And>n. unat n \<le> length (je_block J n)"
    and sz: "unat sz < 2 ^ 63" "fits J (sz + PREFIX_SIZE) m" and "uboss_malloc J h sz m = Some (p, m')"
  shows "memory_ok H (m', g(p \<mapsto> (unat sz, h)))"
proof -
  let ?b = "je_block J (sz + PREFIX_SIZE)"
  have "p = me_brk m" "fill_prefix h (me_brk m) (m\<lparr>me_heap := (me_heap m)(me_brk m \<mapsto> ?b), me_brk := me_brk m + 1\<rparr>) = Some m'"
    using assms(7) by (auto simp: uboss_malloc_def je_malloc_def split: if_splits bind_splits)
  moreover have "unat sz + 4 \<le> length ?b" using J [of "sz + PREFIX_SIZE"] size_with_prefix [OF sz(1)] by simp
  ultimately show ?thesis using new_block [OF ok H, of _ ?b m'] sz(2) by (simp add: fits_def)
qed

lemma calloc_keeps:
  assumes ok: "memory_ok H (m, g)" and H: "inj_on slot_of H" "h \<in> H" and J: "\<And>n. unat n \<le> length (je_block J n)"
    and sz: "unat nmemb * unat sz < 2 ^ 62" "unat sz < 2 ^ 62" "fits J ((nmemb + (PREFIX_SIZE + sz - 1) div sz) * sz) m"
    and call: "uboss_calloc J h nmemb sz m = Some (p, m')"
  shows "memory_ok H (m', g(p \<mapsto> (unat nmemb * unat sz, h)))"
proof -
  let ?sz = "(nmemb + (PREFIX_SIZE + sz - 1) div sz) * sz"
  let ?b = "replicate (length (je_block J ?sz)) NUL"
  have "sz \<noteq> 0" "p = me_brk m" "fill_prefix h (me_brk m) (m\<lparr>me_heap := (me_heap m)(me_brk m \<mapsto> ?b), me_brk := me_brk m + 1\<rparr>) = Some m'"
    using call by (auto simp: uboss_calloc_def je_calloc_def Let_def split: if_splits bind_splits)
  moreover from this have "unat nmemb * unat sz + 4 \<le> length ?b" using J [of ?sz] items_cover [OF sz(1,2)] by simp
  ultimately show ?thesis using new_block [OF ok H, of _ ?b m'] sz(3) by (simp add: fits_def)
qed

lemma free_keeps:
  assumes ok: "memory_ok H (m, g)" and H: "inj_on slot_of H" and p: "g p = Some (n, k)" and call: "uboss_free p m = Some m'"
  shows "memory_ok H (m', g(p := None))"
proof -
  obtain m1 where m1: "clean_prefix p m = Some m1" "me_heap m1 = me_heap m"
    "memory_ok H (m1\<lparr>me_heap := (me_heap m)(p := None)\<rparr>, g(p := None))"
    using take_block_out [OF ok H p] by blast
  have "p \<noteq> NULL" using ok p by (auto simp: memory_ok_def heap_ok_def)
  then have "m' = m1\<lparr>me_heap := (me_heap m)(p := None)\<rparr>"
    using call m1(1,2) by (auto simp: uboss_free_def je_free_def split: bind_splits)
  then show ?thesis using m1(3) by simp
qed

lemma realloc_keeps:
  assumes ok: "memory_ok H (m, g)" and H: "inj_on slot_of H" "h \<in> H" and J: "\<And>n. unat n \<le> length (je_block J n)"
    and sz: "unat sz < 2 ^ 63" "fits J (sz + PREFIX_SIZE) m" and p: "g p = Some (n, k)"
    and call: "uboss_realloc J h p sz m = Some (q, m')"
  shows "memory_ok H (m', g(p := None, q \<mapsto> (unat sz, h)))"
proof -
  obtain m1 where m1: "clean_prefix p m = Some m1" "me_heap m1 = me_heap m" "me_brk m1 = me_brk m"
    "memory_ok H (m1\<lparr>me_heap := (me_heap m)(p := None)\<rparr>, g(p := None))"
    using take_block_out [OF ok H(1) p] by blast
  let ?m = "m1\<lparr>me_heap := (me_heap m)(p := None)\<rparr>" and ?new = "je_block J (sz + PREFIX_SIZE)"
  have dom: "dom (me_heap m) = dom g" "finite (dom g)" and "p \<noteq> NULL"
    using ok p by (auto simp: memory_ok_def heap_ok_def)
  then obtain old where old: "me_heap m p = Some old" using p by blast
  let ?b = "take (length ?new) old @ drop (length old) ?new"
  have q: "q = me_brk ?m" "fill_prefix h (me_brk ?m) (?m\<lparr>me_heap := (me_heap ?m)(me_brk ?m \<mapsto> ?b), me_brk := me_brk ?m + 1\<rparr>) = Some m'"
    using call m1(1-3) old \<open>p \<noteq> NULL\<close>
    by (auto simp: uboss_realloc_def je_realloc_def Let_def split: if_splits bind_splits)
  have "length ?b = length ?new" by simp
  moreover have "unat sz + 4 \<le> length ?new" using J [of "sz + PREFIX_SIZE"] size_with_prefix [OF sz(1)] by simp
  moreover have "bytes_in ?m (dom g - {p}) + length old = bytes_in m (dom g)"
    using bytes_remove [OF dom(2) _ old, of ?m] p by auto
  then have "bytes_in ?m (dom (me_heap ?m)) \<le> bytes_in m (dom (me_heap m))" using dom(1) by simp
  ultimately show ?thesis using new_block [OF m1(4) H, of "unat sz" ?b m'] q sz(2) unfolding fits_def by simp
qed

theorem memory_step_keeps:
  assumes "inj_on slot_of H" "\<And>n. unat n \<le> length (je_block J n)" "memory_ok H s" "mem_step H J s s'"
  shows "memory_ok H s'"
  using assms(4,3)
  by cases (auto intro: malloc_keeps calloc_keeps realloc_keeps free_keeps write_keeps assms(1,2))

lemma memory_init_ok: "memory_ok H (memory_init, Map.empty)"
  by (simp add: memory_ok_def memory_init_def heap_ok_def bytes_in_def slots_ok_def owned_by_def placed_def)

interpretation accounting: safe_system
  "\<lambda>s. s = (memory_init, Map.empty) \<and> inj_on slot_of H \<and> (\<forall>n. unat n \<le> length (je_block J n))" "mem_step H J"
  "\<lambda>s. inj_on slot_of H \<and> (\<forall>n. unat n \<le> length (je_block J n)) \<and> memory_ok H s" for H J
  by unfold_locales (auto intro: memory_init_ok memory_step_keeps)

lemma owned_block_freed:
  assumes "memory_ok H (m, g)" "inj_on slot_of H" "p \<in> dom g"
  shows "\<exists>m'. uboss_free p m = Some m'"
proof -
  obtain n k where p: "g p = Some (n, k)" using assms(3) by auto
  obtain m1 where "clean_prefix p m = Some m1" "me_heap m1 = me_heap m" using take_block_out [OF assms(1,2) p] by blast
  moreover obtain b where "me_heap m p = Some b" using assms(1) p by (fastforce simp: memory_ok_def heap_ok_def)
  ultimately show ?thesis by (simp add: uboss_free_def je_free_def)
qed


lemma first_malloc:
  "\<exists>m. uboss_malloc \<lparr>je_refuses = \<lambda>n. False, je_block = \<lambda>n. replicate (unat n) NUL\<rparr> 1 4 memory_init = Some (1, m) \<and>
     (\<exists>b. me_heap m = [1 \<mapsto> b] \<and> length b = 8)"
  by (auto simp: uboss_malloc_def je_malloc_def fill_prefix_def memory_init_def PREFIX_SIZE_def stat_frame
      set_tag_def intro!: exI [of _ "set_tag 1 (replicate 8 NUL)"])


end
