(* ===== verification/SocketBuffer.thy ===== *)
theory SocketBuffer
  imports DataBuffer Bytes Format
begin

text \<open>
  The receive buffers of the socket library, \<open>lib/socket/lua-socket.c\<close>: a list of received blocks for
  each connection and the table of list nodes that all connections of a service share. A block
  belongs to the node that holds it, so the node keeps the bytes and freeing the block is dropping
  them; a node is known by its chunk in the table and its index there. Linked lists are lists of
  nodes; \<open>int\<close> is a 32-bit integer that wraps around. A dereference of a null pointer, a failing
  assertion and a copy from outside a block are \<open>None\<close>.
\<close>

section \<open>Data\<close>

definition LARGE_PAGE_NODE :: nat where "LARGE_PAGE_NODE = 12"

record buffer_node =
  bn_node :: "nat \<times> nat"
  bn_msg :: string
  bn_sz :: int

record socket_buffer =
  sb_size :: int
  sb_offset :: int
  sb_head :: "buffer_node list"
  sb_tail :: "(nat \<times> nat) option"

record buffer_pool =
  \<comment> \<open>the free list at index 1 and the sizes of the chunks at index 2, 3, ...\<close>
  bp_free :: "(nat \<times> nat) list"
  bp_chunks :: "nat list"

definition empty_pool :: buffer_pool where
  "empty_pool = \<lparr>bp_free = [], bp_chunks = []\<rparr>"

section \<open>Nodes\<close>

definition lnewpool :: "nat \<Rightarrow> nat \<Rightarrow> (nat \<times> nat) list" where
  \<comment> \<open>the nodes of chunk \<open>c\<close>, linked in order\<close>
  "lnewpool c sz = map (Pair c) [0..<sz]"

definition lnewbuffer :: socket_buffer where
  "lnewbuffer = \<lparr>sb_size = 0, sb_offset = 0, sb_head = [], sb_tail = None\<rparr>"

definition chunk_size :: "nat \<Rightarrow> nat" where
  \<comment> \<open>\<open>tsz\<close> is the length of the table, with the free list at index 1, and 1 before the first chunk\<close>
  "chunk_size tsz = (if tsz \<le> LARGE_PAGE_NODE - 3 then 8 * 2 ^ tsz else 8 * 2 ^ (LARGE_PAGE_NODE - 3))"

definition take_free_node :: "buffer_pool \<Rightarrow> ((nat \<times> nat) \<times> buffer_pool) option" where
  "take_free_node pool =
     (case bp_free pool of
        nd # rest \<Rightarrow> Some (nd, pool\<lparr>bp_free := rest\<rparr>)
      | [] \<Rightarrow>
          let sz = chunk_size (length (bp_chunks pool) + 1);
              nodes = lnewpool (length (bp_chunks pool)) sz
          in case nodes of
               [] \<Rightarrow> None
             | nd # rest \<Rightarrow> Some (nd, \<lparr>bp_free = rest, bp_chunks = bp_chunks pool @ [sz]\<rparr>))"

definition lpushbuffer :: "socket_buffer \<Rightarrow> buffer_pool \<Rightarrow> string \<Rightarrow> int \<Rightarrow> (int \<times> socket_buffer \<times> buffer_pool) option" where
  \<comment> \<open>the write through the tail goes to the last node of the list, or elsewhere\<close>
  "lpushbuffer sb pool msg sz = do {
     (nd, pool1) \<leftarrow> take_free_node pool;
     guard (sb_tail sb = (if sb_head sb = [] then None else Some (bn_node (last (sb_head sb)))));
     let sb1 = sb\<lparr>sb_head := sb_head sb @ [\<lparr>bn_node = nd, bn_msg = msg, bn_sz = sz\<rparr>], sb_tail := Some nd,
                  sb_size := wrap32 (sb_size sb + sz)\<rparr>;
     Some (sb_size sb1, sb1, pool1) }"

definition return_free_node :: "buffer_pool \<Rightarrow> socket_buffer \<Rightarrow> (socket_buffer \<times> buffer_pool) option" where
  "return_free_node pool sb =
     (case sb_head sb of
        [] \<Rightarrow> None
      | nd # rest \<Rightarrow>
          Some (sb\<lparr>sb_offset := 0, sb_head := rest, sb_tail := (if rest = [] then None else sb_tail sb)\<rparr>,
                pool\<lparr>bp_free := bn_node nd # bp_free pool\<rparr>))"

section \<open>Reading\<close>

fun pop_loop :: "buffer_node list \<Rightarrow> socket_buffer \<Rightarrow> buffer_pool \<Rightarrow> int \<Rightarrow> int \<Rightarrow> (string \<times> socket_buffer \<times> buffer_pool) option" where
  \<comment> \<open>the list is \<open>sb_head sb\<close>\<close>
  "pop_loop [] sb pool sz skip = None"
| "pop_loop (current # rest) sb pool sz skip =
     (let bytes = bn_sz current - sb_offset sb
      in if bytes \<ge> sz then do {
           b \<leftarrow> (if sz > skip then memcpy_from (bn_msg current) (sb_offset sb) (sz - skip) else Some []);
           let sb1 = sb\<lparr>sb_offset := sb_offset sb + sz\<rparr>;
           (sb2, pool2) \<leftarrow> (if bytes = sz then return_free_node pool sb1 else Some (sb1, pool));
           Some (b, sb2, pool2) }
         else do {
           let real_sz = sz - skip;
           b \<leftarrow> (if real_sz > 0 then memcpy_from (bn_msg current) (sb_offset sb) (if real_sz < bytes then real_sz else bytes) else Some []);
           (sb1, pool1) \<leftarrow> return_free_node pool sb;
           if sz - bytes = 0 then Some (b, sb1, pool1)
           else do {
             (b', r) \<leftarrow> pop_loop rest sb1 pool1 (sz - bytes) skip;
             Some (b @ b', r) } })"

definition pop_lstring :: "socket_buffer \<Rightarrow> buffer_pool \<Rightarrow> int \<Rightarrow> int \<Rightarrow> (string \<times> socket_buffer \<times> buffer_pool) option" where
  "pop_lstring sb pool sz skip =
     (case sb_head sb of
        [] \<Rightarrow> None
      | current # _ \<Rightarrow>
          if sz < bn_sz current - sb_offset sb then do {
            b \<leftarrow> memcpy_from (bn_msg current) (sb_offset sb) (sz - skip);
            Some (b, sb\<lparr>sb_offset := sb_offset sb + sz\<rparr>, pool) }
          else if sz = bn_sz current - sb_offset sb then do {
            b \<leftarrow> memcpy_from (bn_msg current) (sb_offset sb) (sz - skip);
            (sb1, pool1) \<leftarrow> return_free_node pool sb;
            Some (b, sb1, pool1) }
          else pop_loop (sb_head sb) sb pool sz skip)"

definition lheader :: "string \<Rightarrow> u64 lua" where
  "lheader s =
     (if 4 < length s \<or> length s < 1 then Raise (''Invalid read '' @ c_str s)
      else Return (foldl (\<lambda>sz c. push_bit 8 sz OR of_char c) 0 s))"

definition lpopbuffer :: "socket_buffer \<Rightarrow> buffer_pool \<Rightarrow> int \<Rightarrow> (string option \<times> int \<times> socket_buffer \<times> buffer_pool) option" where
  "lpopbuffer sb pool sz =
     (if sb_size sb < sz \<or> sz = 0 then Some (None, sb_size sb, sb, pool)
      else do {
        (b, sb1, pool1) \<leftarrow> pop_lstring sb pool sz 0;
        let sb2 = sb1\<lparr>sb_size := sb_size sb1 - sz\<rparr>;
        Some (Some b, sb_size sb2, sb2, pool1) })"

fun clear_nodes :: "buffer_node list \<Rightarrow> socket_buffer \<Rightarrow> buffer_pool \<Rightarrow> (socket_buffer \<times> buffer_pool) option" where
  "clear_nodes [] sb pool = Some (sb, pool)"
| "clear_nodes (_ # rest) sb pool = do { (sb1, pool1) \<leftarrow> return_free_node pool sb; clear_nodes rest sb1 pool1 }"

definition lclearbuffer :: "socket_buffer \<Rightarrow> buffer_pool \<Rightarrow> (socket_buffer \<times> buffer_pool) option" where
  "lclearbuffer sb pool = do {
     (sb1, pool1) \<leftarrow> clear_nodes (sb_head sb) sb pool;
     Some (sb1\<lparr>sb_size := 0\<rparr>, pool1) }"

fun readall_loop :: "buffer_node list \<Rightarrow> socket_buffer \<Rightarrow> buffer_pool \<Rightarrow> (string \<times> socket_buffer \<times> buffer_pool) option" where
  "readall_loop [] sb pool = Some ([], sb, pool)"
| "readall_loop (current # rest) sb pool = do {
     b \<leftarrow> memcpy_from (bn_msg current) (sb_offset sb) (bn_sz current - sb_offset sb);
     (sb1, pool1) \<leftarrow> return_free_node pool sb;
     (b', r) \<leftarrow> readall_loop rest sb1 pool1;
     Some (b @ b', r) }"

definition lreadall :: "socket_buffer \<Rightarrow> buffer_pool \<Rightarrow> (string \<times> socket_buffer \<times> buffer_pool) option" where
  "lreadall sb pool = do {
     (b, sb1, pool1) \<leftarrow> readall_loop (sb_head sb) sb pool;
     Some (b, sb1\<lparr>sb_size := 0\<rparr>, pool1) }"

section \<open>Lines\<close>

fun check_sep :: "buffer_node list \<Rightarrow> int \<Rightarrow> string \<Rightarrow> bool option" where
  \<comment> \<open>the list starts at \<open>node\<close>; \<open>seplen\<close> is the length of the rest of the separator\<close>
  "check_sep [] from sep = None"
| "check_sep (node # rest) from sep =
     (let sz = bn_sz node - from
      in if sz \<ge> int (length sep) then do {
           b \<leftarrow> memcpy_from (bn_msg node) from (int (length sep));
           Some (b = sep) }
         else do {
           same \<leftarrow> (if sz > 0 then do { b \<leftarrow> memcpy_from (bn_msg node) from sz; Some (b = take (nat sz) sep) } else Some True);
           if same then check_sep rest 0 (drop (nat sz) sep) else Some False })"

fun readline_loop :: "nat \<Rightarrow> nat \<Rightarrow> buffer_node list \<Rightarrow> int \<Rightarrow> int \<Rightarrow> string \<Rightarrow> nat option option" where
  \<comment> \<open>the first argument is the number of rounds that the bound on \<open>i\<close> leaves\<close>
  "readline_loop 0 i current from bytes sep = Some None"
| "readline_loop (Suc k) i current from bytes sep = do {
     found \<leftarrow> check_sep current from sep;
     if found then Some (Some i)
     else if bytes - 1 = 0 then
       (case tl current of
          [] \<Rightarrow> Some None
        | node # _ \<Rightarrow> readline_loop k (i + 1) (tl current) 0 (bn_sz node) sep)
     else readline_loop k (i + 1) current (from + 1) (bytes - 1) sep }"

definition find_line :: "socket_buffer \<Rightarrow> string \<Rightarrow> nat option option" where
  "find_line sb sep =
     (case sb_head sb of
        [] \<Rightarrow> Some None
      | current # _ \<Rightarrow>
          readline_loop (nat (sb_size sb - int (length sep) + 1)) 0 (sb_head sb) (sb_offset sb) (bn_sz current - sb_offset sb) sep)"

definition lreadline_check :: "socket_buffer \<Rightarrow> string \<Rightarrow> bool option" where
  \<comment> \<open>without a table of nodes: only whether there is a line; no value is false\<close>
  "lreadline_check sb sep = do { guard (length sep < 2 ^ 31); r \<leftarrow> find_line sb sep; Some (r \<noteq> None) }"

definition lreadline :: "socket_buffer \<Rightarrow> buffer_pool \<Rightarrow> string \<Rightarrow> (string option \<times> socket_buffer \<times> buffer_pool) option" where
  "lreadline sb pool sep = do {
     guard (length sep < 2 ^ 31);
     r \<leftarrow> find_line sb sep;
     case r of
       None \<Rightarrow> Some (None, sb, pool)
     | Some i \<Rightarrow> do {
         (b, sb1, pool1) \<leftarrow> pop_lstring sb pool (int (i + length sep)) (int (length sep));
         Some (Some b, sb1\<lparr>sb_size := sb_size sb1 - int (i + length sep)\<rparr>, pool1) } }"

section \<open>Addresses and strings to send\<close>

definition strchr :: "char \<Rightarrow> string \<Rightarrow> nat option" where
  "strchr c s = (let n = length (takeWhile (\<lambda>x. x \<noteq> c) s) in if n < length s then Some n else None)"

definition strtoul10 :: "string \<Rightarrow> u64" where
  \<comment> \<open>\<open>strtoul(s, NULL, 10)\<close>\<close>
  "strtoul10 s =
     (let (neg, t) = strip_sign s; n = fst (read_digits 10 0 t)
      in if n \<ge> 2 ^ 64 then - 1 else if neg then - word_of_nat n else word_of_nat n)"

definition address_port :: "string \<Rightarrow> i32 option \<Rightarrow> (string \<times> i32) lua option" where
  \<comment> \<open>\<open>addr\<close> without its terminating zero; the port of the call if there is one. A copy of a negative number of bytes has no value.\<close>
  "address_port addr port =
     (case port of
        Some p \<Rightarrow> Some (Return (addr, p))
      | None \<Rightarrow>
         (case strchr CHR ''['' addr of
            Some h \<Rightarrow>
             (let host = h + 1
              in case strchr CHR '']'' addr of
                   None \<Rightarrow> Some (Raise (''Invalid address '' @ addr @ ''.''))
                 | Some sep \<Rightarrow> do {
                     guard (host \<le> sep);
                     let rest = drop (sep + 1) addr;
                     Some (case strchr CHR '':'' rest of
                             None \<Rightarrow> Raise (''Invalid address '' @ addr @ ''.'')
                           | Some col \<Rightarrow> Return (take (sep - host) (drop host addr), ucast (strtoul10 (drop (col + 1) rest)))) })
          | None \<Rightarrow>
             Some (case strchr CHR '':'' addr of
                     None \<Rightarrow> Raise (''Invalid address '' @ addr @ ''.'')
                   | Some sep \<Rightarrow> Return (take sep addr, ucast (strtoul10 (drop (sep + 1) addr))))))"

fun count_size :: "string option list \<Rightarrow> nat lua" where
  \<comment> \<open>the entries of the table up to the first nil; \<open>None\<close> is a value that is no string\<close>
  "count_size [] = Return 0"
| "count_size (None # _) = Raise ''string expected''"
| "count_size (Some s # rest) = lua_bind (count_size rest) (\<lambda>n. Return (length s + n))"

fun concat_table :: "string option list \<Rightarrow> nat \<Rightarrow> string \<Rightarrow> string lua" where
  \<comment> \<open>the last argument is what has been copied\<close>
  "concat_table (Some s # rest) tlen buffer =
     (if tlen < length s then (if tlen \<noteq> 0 then Raise ''Invalid strings table'' else Return buffer)
      else concat_table rest (tlen - length s) (buffer @ s))"
| "concat_table _ tlen buffer = (if tlen \<noteq> 0 then Raise ''Invalid strings table'' else Return buffer)"

definition get_table_buffer :: "string option list \<Rightarrow> string lua" where
  "get_table_buffer table = lua_bind (count_size table) (\<lambda>len. concat_table table len [])"

end
