(* ===== verification/SocketBufferProps.thy ===== *)
theory SocketBufferProps
  imports SocketBuffer
begin

text \<open>
  A receive buffer is a string: pushing appends to it, and what \<open>lpopbuffer\<close>, \<open>lreadline\<close> and \<open>lreadall\<close>
  return is taken from its front, wherever the received blocks begin and end. The list lemmas of
  the gate's buffers carry over, the two kinds of nodes having the same fields.
\<close>

section \<open>The string of a buffer\<close>

definition as_message :: "buffer_node \<Rightarrow> message" where
  "as_message n = \<lparr>ms_node = bn_node n, ms_buffer = bn_msg n, ms_size = bn_sz n\<rparr>"

lemma as_message_simps [simp]: "ms_node (as_message n) = bn_node n" "ms_buffer (as_message n) = bn_msg n" "ms_size (as_message n) = bn_sz n"
  by (simp_all add: as_message_def)

definition chain_bytes :: "int \<Rightarrow> buffer_node list \<Rightarrow> string" where
  "chain_bytes off ns = list_bytes off (map as_message ns)"

definition sb_bytes :: "socket_buffer \<Rightarrow> string" where
  "sb_bytes sb = chain_bytes (sb_offset sb) (sb_head sb)"

definition chain_ok :: "int \<Rightarrow> buffer_node list \<Rightarrow> (nat \<times> nat) option \<Rightarrow> bool" where
  "chain_ok off ns tail \<longleftrightarrow> list_ok off (map as_message ns) tail"

definition sb_nodes :: "socket_buffer \<Rightarrow> (nat \<times> nat) list" where
  "sb_nodes sb = map bn_node (sb_head sb)"

text \<open>\<open>others\<close> are the nodes in the lists of the other connections.\<close>

definition pool_owns :: "buffer_pool \<Rightarrow> (nat \<times> nat) list \<Rightarrow> (nat \<times> nat) set \<Rightarrow> bool" where
  "pool_owns pool used others \<longleftrightarrow> distinct (used @ bp_free pool) \<and> set (used @ bp_free pool) \<inter> others = {} \<and>
     (\<forall>(c, i) \<in> set (used @ bp_free pool) \<union> others. c < length (bp_chunks pool) \<and> i < bp_chunks pool ! c)"

definition holds :: "socket_buffer \<Rightarrow> buffer_pool \<Rightarrow> (nat \<times> nat) set \<Rightarrow> bool" where
  "holds sb pool others \<longleftrightarrow> chain_ok (sb_offset sb) (sb_head sb) (sb_tail sb) \<and> pool_owns pool (sb_nodes sb) others"

lemma head_node:
  assumes "chain_ok off (n # ns) tail"
  shows "0 \<le> off" "off < bn_sz n" "nat (bn_sz n) \<le> length (bn_msg n)"
    "length (chain_bytes off (n # ns)) = nat (bn_sz n - off) + length (chain_bytes 0 ns)"
    "drop (nat (bn_sz n - off)) (chain_bytes off (n # ns)) = chain_bytes 0 ns"
    "\<And>k. 0 \<le> k \<Longrightarrow> k \<le> bn_sz n - off \<Longrightarrow> memcpy_from (bn_msg n) off k = Some (take (nat k) (chain_bytes off (n # ns)))"
proof -
  show off: "0 \<le> off" "off < bn_sz n" "nat (bn_sz n) \<le> length (bn_msg n)"
    using assms by (auto simp: chain_ok_def list_ok_def ms_ok_def)
  have ok: "ms_ok (as_message n)" using assms by (simp add: chain_ok_def list_ok_def)
  have bytes: "chain_bytes off (n # ns) = drop (nat off) (ms_bytes (as_message n)) @ chain_bytes 0 ns"
    using list_bytes_Cons [OF ok, of off] off by (simp add: chain_bytes_def)
  have len: "length (drop (nat off) (ms_bytes (as_message n))) = nat (bn_sz n - off)"
    using ok off by (simp add: nat_diff_distrib)
  show "length (chain_bytes off (n # ns)) = nat (bn_sz n - off) + length (chain_bytes 0 ns)"
    "drop (nat (bn_sz n - off)) (chain_bytes off (n # ns)) = chain_bytes 0 ns"
    unfolding bytes len [symmetric] by (rule length_append, rule append_eq_conv_conj [THEN iffD1, OF refl, THEN conjunct2, symmetric])
  show "memcpy_from (bn_msg n) off k = Some (take (nat k) (chain_bytes off (n # ns)))" if k: "0 \<le> k" "k \<le> bn_sz n - off" for k
  proof -
    have "take (nat k) (chain_bytes off (n # ns)) = take (nat k) (drop (nat off) (ms_bytes (as_message n)))"
      unfolding bytes using len k by simp
    then show ?thesis using memcpy_from_ms [OF ok off(1) k(1)] k by simp
  qed
qed

lemma chain_tl: "chain_ok off (n # ns) tail \<Longrightarrow> chain_ok 0 ns (if ns = [] then None else tail)"
  using list_ok_tl [of off "as_message n" "map as_message ns" tail] by (simp add: chain_ok_def)

lemma chain_advance:
  assumes "chain_ok off (n # ns) tail" "0 \<le> k" "off + k < bn_sz n"
  shows "chain_ok (off + k) (n # ns) tail" "chain_bytes (off + k) (n # ns) = drop (nat k) (chain_bytes off (n # ns))"
  using assms by (auto simp: chain_ok_def list_ok_def chain_bytes_def list_bytes_def nat_add_distrib add.commute)

lemma chain_Nil [simp]: "chain_bytes off [] = []"
  by (simp add: chain_bytes_def)

lemma drop_head:
  assumes "holds sb pool others" "sb_head sb = n # ns"
  shows "\<exists>sb' pool'. (\<forall>x. return_free_node pool (sb\<lparr>sb_offset := x\<rparr>) = Some (sb', pool')) \<and> holds sb' pool' others \<and>
    sb_head sb' = ns \<and> sb_bytes sb' = drop (nat (bn_sz n - sb_offset sb)) (sb_bytes sb) \<and> sb_size sb' = sb_size sb"
proof -
  let ?sb = "sb\<lparr>sb_offset := 0, sb_head := ns, sb_tail := (if ns = [] then None else sb_tail sb)\<rparr>"
  let ?pool = "pool\<lparr>bp_free := bn_node n # bp_free pool\<rparr>"
  have chain: "chain_ok (sb_offset sb) (n # ns) (sb_tail sb)" using assms by (simp add: holds_def)
  have "pool_owns ?pool (map bn_node ns) others" using assms by (auto simp: holds_def pool_owns_def sb_nodes_def)
  then have "holds ?sb ?pool others" using chain_tl [OF chain] by (simp add: holds_def sb_nodes_def)
  moreover have "sb_bytes ?sb = drop (nat (bn_sz n - sb_offset sb)) (sb_bytes sb)"
    using head_node(5) [OF chain] assms(2) by (simp add: sb_bytes_def)
  ultimately show ?thesis using assms(2) by (intro exI [of _ ?sb] exI [of _ ?pool]) (simp add: return_free_node_def)
qed

lemma advance:
  assumes "holds sb pool others" "sb_head sb = n # ns" "0 \<le> k" "sb_offset sb + k < bn_sz n"
  shows "holds (sb\<lparr>sb_offset := sb_offset sb + k\<rparr>) pool others"
    "sb_bytes (sb\<lparr>sb_offset := sb_offset sb + k\<rparr>) = drop (nat k) (sb_bytes sb)"
  using assms chain_advance [of "sb_offset sb" n ns "sb_tail sb" k] by (simp_all add: holds_def sb_bytes_def sb_nodes_def)

lemma head_of:
  assumes "holds sb pool others" "sb_head sb = n # ns"
  shows "0 \<le> sb_offset sb" "sb_offset sb < bn_sz n"
    "length (sb_bytes sb) = nat (bn_sz n - sb_offset sb) + length (chain_bytes 0 ns)"
    "\<And>k. 0 \<le> k \<Longrightarrow> k \<le> bn_sz n - sb_offset sb \<Longrightarrow> memcpy_from (bn_msg n) (sb_offset sb) k = Some (take (nat k) (sb_bytes sb))"
  using assms head_node [of "sb_offset sb" n ns "sb_tail sb"] by (simp_all add: holds_def sb_bytes_def)

section \<open>Taking bytes\<close>

lemma pop_loop_ok:
  assumes "holds sb pool others" "sb_head sb = ns" "0 < sz" "nat sz \<le> length (sb_bytes sb)" "0 \<le> skip"
  shows "\<exists>sb' pool'. pop_loop ns sb pool sz skip = Some (take (nat (sz - skip)) (sb_bytes sb), sb', pool') \<and>
    holds sb' pool' others \<and> sb_bytes sb' = drop (nat sz) (sb_bytes sb) \<and> sb_size sb' = sb_size sb"
  using assms
proof (induction ns arbitrary: sb pool sz)
  case Nil
  then show ?case by (simp add: sb_bytes_def)
next
  case (Cons n ns)
  let ?bytes = "bn_sz n - sb_offset sb"
  note head = head_of [OF Cons.prems(1,2)]
  obtain sb1 pool1 where ret: "\<And>x. return_free_node pool (sb\<lparr>sb_offset := x\<rparr>) = Some (sb1, pool1)" "holds sb1 pool1 others"
      "sb_head sb1 = ns" "sb_bytes sb1 = drop (nat ?bytes) (sb_bytes sb)" "sb_size sb1 = sb_size sb"
    using drop_head [OF Cons.prems(1,2)] by blast
  have ret0: "return_free_node pool sb = Some (sb1, pool1)" using ret(1) [of "sb_offset sb"] by simp
  have copy: "(if sz > skip then memcpy_from (bn_msg n) (sb_offset sb) (sz - skip) else Some []) = Some (take (nat (sz - skip)) (sb_bytes sb))"
    if "sz \<le> ?bytes" using that head(4) [of "sz - skip"] Cons.prems(5) by auto
  consider (inside) "sz < ?bytes" | (exact) "sz = ?bytes" | (beyond) "?bytes < sz" by linarith
  then show ?case
  proof cases
    case inside
    then show ?thesis using copy advance [OF Cons.prems(1,2), of sz] Cons.prems(3) by (simp add: Let_def)
  next
    case exact
    show ?thesis using copy ret unfolding exact by (simp add: Let_def)
  next
    case beyond
    let ?m = "if sz - skip < ?bytes then sz - skip else ?bytes"
    have pos: "0 < ?bytes" using head(2) by simp
    have b: "(if sz - skip > 0 then memcpy_from (bn_msg n) (sb_offset sb) ?m else Some []) = Some (take (nat ?m) (sb_bytes sb))"
      using head(4) [of ?m] pos by auto
    have nsz: "nat sz = nat ?bytes + nat (sz - ?bytes)" using beyond pos by linarith
    have "nat (sz - ?bytes) \<le> length (sb_bytes sb1)" using Cons.prems(4) nsz ret(4) by simp
    then obtain sb2 pool2 where rec: "pop_loop ns sb1 pool1 (sz - ?bytes) skip = Some (take (nat (sz - ?bytes - skip)) (sb_bytes sb1), sb2, pool2)"
        "holds sb2 pool2 others" "sb_bytes sb2 = drop (nat (sz - ?bytes)) (sb_bytes sb1)" "sb_size sb2 = sb_size sb1"
      using Cons.IH [OF ret(2,3), of "sz - ?bytes"] beyond Cons.prems(5) by auto
    have "nat (sz - skip) = nat ?m + nat (sz - ?bytes - skip)" using pos by auto
    moreover have "take (nat (sz - ?bytes - skip)) (sb_bytes sb1) = take (nat (sz - ?bytes - skip)) (drop (nat ?m) (sb_bytes sb))"
      unfolding ret(4) by (auto simp: not_less)
    ultimately have "take (nat ?m) (sb_bytes sb) @ take (nat (sz - ?bytes - skip)) (sb_bytes sb1) = take (nat (sz - skip)) (sb_bytes sb)"
      by (simp only: take_add)
    moreover have "sb_bytes sb2 = drop (nat sz) (sb_bytes sb)" unfolding rec(3) ret(4) nsz by (simp add: add.commute)
    ultimately show ?thesis using b ret0 rec ret(5) beyond by (simp add: Let_def)
  qed
qed

lemma pop_lstring_ok:
  assumes ok: "holds sb pool others" and "sb_head sb \<noteq> []" "0 \<le> skip" "skip \<le> sz" "nat sz \<le> length (sb_bytes sb)"
  shows "\<exists>sb' pool'. pop_lstring sb pool sz skip = Some (take (nat (sz - skip)) (sb_bytes sb), sb', pool') \<and>
    holds sb' pool' others \<and> sb_bytes sb' = drop (nat sz) (sb_bytes sb) \<and> sb_size sb' = sb_size sb"
proof -
  obtain n ns where ns: "sb_head sb = n # ns" using assms(2) by (cases "sb_head sb") auto
  let ?bytes = "bn_sz n - sb_offset sb"
  note head = head_of [OF ok ns]
  consider (inside) "sz < ?bytes" | (exact) "sz = ?bytes" | (beyond) "?bytes < sz" by linarith
  then show ?thesis
  proof cases
    case inside
    then show ?thesis using ns head(4) [of "sz - skip"] advance [OF ok ns, of sz] assms(3,4) by (simp add: pop_lstring_def)
  next
    case exact
    obtain sb1 pool1 where "return_free_node pool sb = Some (sb1, pool1)" "holds sb1 pool1 others"
        "sb_bytes sb1 = drop (nat ?bytes) (sb_bytes sb)" "sb_size sb1 = sb_size sb"
      using drop_head [OF ok ns] by (metis (no_types, lifting) socket_buffer.surjective socket_buffer.update_convs(2))
    then show ?thesis using ns exact head(4) [of "sz - skip"] assms(3,4) by (simp add: pop_lstring_def)
  next
    case beyond
    then have "0 < sz" using head(2) by simp
    then show ?thesis using pop_loop_ok [OF ok ns _ assms(5,3)] ns beyond by (simp add: pop_lstring_def)
  qed
qed

lemma readall_loop_ok:
  assumes "holds sb pool others" "sb_head sb = ns"
  shows "\<exists>sb' pool'. readall_loop ns sb pool = Some (sb_bytes sb, sb', pool') \<and> holds sb' pool' others \<and> sb_head sb' = []"
  using assms
proof (induction ns arbitrary: sb pool)
  case (Cons n ns)
  let ?bytes = "bn_sz n - sb_offset sb"
  note head = head_of [OF Cons.prems]
  obtain sb1 pool1 where ret: "\<And>x. return_free_node pool (sb\<lparr>sb_offset := x\<rparr>) = Some (sb1, pool1)" "holds sb1 pool1 others"
      "sb_head sb1 = ns" "sb_bytes sb1 = drop (nat ?bytes) (sb_bytes sb)" "sb_size sb1 = sb_size sb"
    using drop_head [OF Cons.prems] by blast
  obtain sb2 pool2 where "readall_loop ns sb1 pool1 = Some (sb_bytes sb1, sb2, pool2)" "holds sb2 pool2 others" "sb_head sb2 = []"
    using Cons.IH [OF ret(2,3)] by blast
  then show ?case using ret(1) [of "sb_offset sb"] head(2) head(4) [of ?bytes] ret(4) by simp
qed (simp add: sb_bytes_def)

lemma clear_nodes_ok:
  assumes "holds sb pool others" "sb_head sb = ns"
  shows "\<exists>sb' pool'. clear_nodes ns sb pool = Some (sb', pool') \<and> holds sb' pool' others \<and> sb_head sb' = []"
  using assms
proof (induction ns arbitrary: sb pool)
  case (Cons n ns)
  obtain sb1 pool1 where ret: "\<And>x. return_free_node pool (sb\<lparr>sb_offset := x\<rparr>) = Some (sb1, pool1)" "holds sb1 pool1 others" "sb_head sb1 = ns"
    using drop_head [OF Cons.prems] by blast
  then show ?case using Cons.IH [OF ret(2,3)] ret(1) [of "sb_offset sb"] by simp
qed simp

section \<open>Adding a block\<close>

lemma free_node_ok:
  assumes "pool_owns pool used others"
  shows "\<exists>nd pool'. take_free_node pool = Some (nd, pool') \<and> pool_owns pool' (used @ [nd]) others"
proof (cases "bp_free pool")
  case Nil
  let ?c = "length (bp_chunks pool)"
  let ?sz = "chunk_size (?c + 1)"
  have "0 < ?sz" by (simp add: chunk_size_def)
  then have "lnewpool ?c ?sz = (?c, 0) # map (Pair ?c) [1..<?sz]" by (simp add: lnewpool_def upt_conv_Cons del: upt_Suc)
  then have f: "take_free_node pool = Some ((?c, 0), \<lparr>bp_free = map (Pair ?c) [1..<?sz], bp_chunks = bp_chunks pool @ [?sz]\<rparr>)"
    using Nil by (simp add: take_free_node_def Let_def del: upt_Suc)
  have old: "c < ?c \<and> i < bp_chunks pool ! c" if "(c, i) \<in> set used \<union> others" for c i
    using assms that by (auto simp: pool_owns_def)
  have fresh: "(?c, i) \<notin> set used \<union> others" for i using old by blast
  let ?rest = "map (Pair ?c) [1..<?sz]" and ?pool = "\<lparr>bp_free = map (Pair ?c) [1..<?sz], bp_chunks = bp_chunks pool @ [?sz]\<rparr>"
  have rest: "distinct ?rest" "set ?rest \<subseteq> {?c} \<times> {1..<?sz}" by (auto simp: distinct_map inj_on_def simp del: upt_Suc)
  have used: "distinct used" "set used \<inter> others = {}" using assms by (auto simp: pool_owns_def)
  have new: "(?c, 0) \<notin> set ?rest" "set ?rest \<inter> (set used \<union> others) = {}" using rest(2) fresh by auto
  have "distinct ((used @ [(?c, 0)]) @ ?rest)" using rest(1) used(1) new fresh by auto
  moreover have "set ((used @ [(?c, 0)]) @ ?rest) \<inter> others = {}" using used(2) new(2) fresh by auto
  moreover have all: "c < length (bp_chunks ?pool) \<and> i < bp_chunks ?pool ! c" if "(c, i) \<in> set ((used @ [(?c, 0)]) @ ?rest) \<union> others" for c i
  proof (cases "(c, i) \<in> set used \<union> others")
    case True
    then show ?thesis using old [OF True] by (simp add: nth_append)
  next
    case False
    then have "c = ?c" "i < ?sz" using that rest(2) \<open>0 < ?sz\<close> by auto
    then show ?thesis by simp
  qed
  ultimately have "pool_owns ?pool (used @ [(?c, 0)]) others" unfolding pool_owns_def buffer_pool.simps by blast
  with f show ?thesis by blast
next
  case (Cons nd rest)
  then show ?thesis using assms by (auto simp: take_free_node_def pool_owns_def)
qed

lemma push_ok:
  assumes ok: "holds sb pool others" "sb_size sb = int (length (sb_bytes sb))"
    and sz: "0 < sz" "nat sz \<le> length msg" "length (sb_bytes sb) + nat sz < 2 ^ 31"
  shows "\<exists>sb' pool'. lpushbuffer sb pool msg sz = Some (int (length (sb_bytes sb)) + sz, sb', pool') \<and> holds sb' pool' others \<and>
    sb_bytes sb' = sb_bytes sb @ take (nat sz) msg \<and> sb_size sb' = int (length (sb_bytes sb')) "
proof -
  have chain: "chain_ok (sb_offset sb) (sb_head sb) (sb_tail sb)" using ok(1) by (simp add: holds_def)
  obtain nd pool' where nd: "take_free_node pool = Some (nd, pool')" "pool_owns pool' (sb_nodes sb @ [nd]) others"
    using free_node_ok ok(1) unfolding holds_def by blast
  let ?n = "\<lparr>bn_node = nd, bn_msg = msg, bn_sz = sz\<rparr>"
  let ?sb = "sb\<lparr>sb_head := sb_head sb @ [?n], sb_tail := Some nd, sb_size := sb_size sb + sz\<rparr>"
  have off: "nat (sb_offset sb) \<le> length (concat (map ms_bytes (map as_message (sb_head sb))))"
    using chain by (cases "sb_head sb") (auto simp: chain_ok_def list_ok_def)
  have bytes: "sb_bytes ?sb = sb_bytes sb @ take (nat sz) msg"
    using off by (simp add: sb_bytes_def chain_bytes_def list_bytes_def ms_bytes_def)
  have "chain_ok (sb_offset sb) (sb_head sb @ [?n]) (Some nd)"
    using chain sz by (auto simp: chain_ok_def list_ok_def ms_ok_def split: list.splits)
  then have "holds ?sb pool' others" using nd(2) by (simp add: holds_def sb_nodes_def)
  moreover have "wrap32 (sb_size sb + sz) = sb_size sb + sz" using sz ok(2) by (intro wrap32_small) auto
  moreover have "sb_tail sb = (if sb_head sb = [] then None else Some (bn_node (last (sb_head sb))))"
    using chain by (auto simp: chain_ok_def list_ok_def last_map)
  ultimately show ?thesis using nd(1) bytes ok(2) sz by (simp add: lpushbuffer_def Let_def)
qed

section \<open>Lines\<close>

lemma check_sep_ok:
  assumes "chain_ok from ns tail" "ns \<noteq> []" "length sep \<le> length (chain_bytes from ns)"
  shows "check_sep ns from sep = Some (take (length sep) (chain_bytes from ns) = sep)"
  using assms
proof (induction ns arbitrary: "from" tail sep)
  case (Cons n ns)
  let ?sz = "bn_sz n - from" and ?B = "chain_bytes from (n # ns)"
  note head = head_node [OF Cons.prems(1)]
  show ?case
  proof (cases "int (length sep) \<le> ?sz")
    case True
    then show ?thesis using head(6) [of "int (length sep)"] by simp
  next
    case False
    let ?s1 = "take (nat ?sz) sep" and ?s2 = "drop (nat ?sz) sep"
    have len: "length ?s2 \<le> length (chain_bytes 0 ns)" "nat ?sz < length sep" using Cons.prems(3) head(2,4) False by auto
    then have "chain_bytes 0 ns \<noteq> []" by auto
    then have "ns \<noteq> []" by auto
    from Cons.IH [OF chain_tl [OF Cons.prems(1)] this len(1)]
    have rec: "check_sep ns 0 ?s2 = Some (take (length ?s2) (chain_bytes 0 ns) = ?s2)" .
    have "take (length sep) ?B = take (nat ?sz) ?B @ take (length ?s2) (chain_bytes 0 ns)"
      using len(2) head(5) take_add [of "nat ?sz" "length ?s2" ?B] by simp
    moreover have "length (take (nat ?sz) ?B) = length ?s1" using head(4) len(2) by simp
    ultimately have "(take (length sep) ?B = ?s1 @ ?s2) = (take (nat ?sz) ?B = ?s1 \<and> take (length ?s2) (chain_bytes 0 ns) = ?s2)"
      using append_eq_append_conv [of "take (nat ?sz) ?B" ?s1 "take (length ?s2) (chain_bytes 0 ns)" ?s2] by argo
    then show ?thesis using rec head(6) [of ?sz] head(2) False by (auto simp: Let_def)
  qed
qed simp

lemma readline_loop_ok:
  assumes "k + i + length sep = length B + 1" "chain_ok from (n # ns) tail" "chain_bytes from (n # ns) = drop i B"
  shows "readline_loop k i (n # ns) from (bn_sz n - from) sep =
    Some (List.find (\<lambda>j. take (length sep) (drop j B) = sep) [i..<i + k])"
  using assms
proof (induction k arbitrary: i "from" n ns tail)
  case (Suc k)
  let ?P = "\<lambda>j. take (length sep) (drop j B) = sep"
  note head = head_node [OF Suc.prems(2)]
  have check: "check_sep (n # ns) from sep = Some (?P i)"
    using check_sep_ok [OF Suc.prems(2)] Suc.prems(1,3) by simp
  have upt: "[i..<i + Suc k] = i # [i + 1..<i + 1 + k]" by (simp add: upt_conv_Cons del: upt_Suc)
  have rest: "(if bn_sz n - from - 1 = 0 then
       (case tl (n # ns) of [] \<Rightarrow> Some None | node # _ \<Rightarrow> readline_loop k (i + 1) (tl (n # ns)) 0 (bn_sz node) sep)
     else readline_loop k (i + 1) (n # ns) (from + 1) (bn_sz n - from - 1) sep) = Some (List.find ?P [i + 1..<i + 1 + k])"
    if no: "\<not> ?P i"
  proof (cases "bn_sz n - from - 1 = 0")
    case True
    then have one: "bn_sz n - from = 1" by simp
    then have B: "chain_bytes 0 ns = drop (i + 1) B" using head(5) Suc.prems(3) by simp
    show ?thesis
    proof (cases ns)
      case Nil
      then have "length B \<le> i + 1" using B by simp
      moreover have "sep \<noteq> []" using no by auto
      ultimately have "k = 0" using Suc.prems(1) by (cases sep) auto
      then show ?thesis using True Nil by simp
    next
      case (Cons node ns')
      then show ?thesis using Suc.IH [of "i + 1" 0 node ns'] chain_tl [OF Suc.prems(2)] B Suc.prems(1) True by simp
    qed
  next
    case False
    then have "from + 1 < bn_sz n" using head(2) by simp
    then have "chain_ok (from + 1) (n # ns) tail" "chain_bytes (from + 1) (n # ns) = drop (i + 1) B"
      using chain_advance [OF Suc.prems(2), of 1] Suc.prems(3) by simp_all
    then show ?thesis using Suc.IH [of "i + 1" "from + 1" n ns tail] Suc.prems(1) False by (simp add: algebra_simps)
  qed
  show ?case unfolding upt readline_loop.simps check bind.simps find.simps using rest by presburger
qed simp

definition first_line :: "string \<Rightarrow> string \<Rightarrow> nat option" where
  \<comment> \<open>where the first separator begins\<close>
  "first_line sep B =
     (if B = [] then None else List.find (\<lambda>j. take (length sep) (drop j B) = sep) [0..<length B + 1 - length sep])"

lemma find_line_ok:
  assumes "holds sb pool others" "sb_size sb = int (length (sb_bytes sb))"
  shows "find_line sb sep = Some (first_line sep (sb_bytes sb))"
proof (cases "sb_head sb")
  case Nil
  then show ?thesis by (simp add: find_line_def first_line_def sb_bytes_def)
next
  case (Cons n ns)
  let ?B = "sb_bytes sb"
  have chain: "chain_ok (sb_offset sb) (n # ns) (sb_tail sb)" "chain_bytes (sb_offset sb) (n # ns) = drop 0 ?B"
    using assms(1) Cons by (simp_all add: holds_def sb_bytes_def)
  have ne: "?B \<noteq> []" using head_of(2,3) [OF assms(1) Cons] by auto
  have nat: "nat (sb_size sb - int (length sep) + 1) = length ?B + 1 - length sep" using assms(2) by simp
  show ?thesis
  proof (cases "length sep \<le> length ?B")
    case True
    then show ?thesis using readline_loop_ok [OF _ chain, of "length ?B + 1 - length sep" sep] ne Cons nat
      by (simp add: find_line_def first_line_def del: upt_Suc)
  next
    case False
    then have z: "length ?B + 1 - length sep = 0" by simp
    then show ?thesis unfolding find_line_def first_line_def nat z using Cons by simp
  qed
qed

lemma first_line_bound: "first_line sep B = Some i \<Longrightarrow> i + length sep \<le> length B \<and> take (length sep) (drop i B) = sep"
proof -
  assume "first_line sep B = Some i"
  then have "List.find (\<lambda>j. take (length sep) (drop j B) = sep) [0..<length B + 1 - length sep] = Some i"
    by (simp add: first_line_def split: if_splits del: upt_Suc)
  then show ?thesis unfolding find_Some_iff by auto
qed

section \<open>Buffers of many connections\<close>

datatype buf_op = Push string int | Pop int | Line string | HasLine string | All | Clear

datatype buf_out = Size int | Popped "string option" int | LineRead "string option" | LineThere bool | AllRead string | Cleared

fun buffer_op :: "buf_op \<Rightarrow> socket_buffer \<Rightarrow> buffer_pool \<Rightarrow> (buf_out \<times> socket_buffer \<times> buffer_pool) option" where
  "buffer_op (Push msg sz) sb pool = do { (n, s) \<leftarrow> lpushbuffer sb pool msg sz; Some (Size n, s) }"
| "buffer_op (Pop sz) sb pool = do { (r, n, s) \<leftarrow> lpopbuffer sb pool sz; Some (Popped r n, s) }"
| "buffer_op (Line sep) sb pool = do { (r, s) \<leftarrow> lreadline sb pool sep; Some (LineRead r, s) }"
| "buffer_op (HasLine sep) sb pool = do { r \<leftarrow> lreadline_check sb sep; Some (LineThere r, sb, pool) }"
| "buffer_op All sb pool = do { (r, s) \<leftarrow> lreadall sb pool; Some (AllRead r, s) }"
| "buffer_op Clear sb pool = do { s \<leftarrow> lclearbuffer sb pool; Some (Cleared, s) }"

fun string_op :: "buf_op \<Rightarrow> string \<Rightarrow> buf_out \<times> string" where
  "string_op (Push msg sz) B = (Size (int (length B) + sz), B @ take (nat sz) msg)"
| "string_op (Pop sz) B =
     (if int (length B) < sz \<or> sz = 0 then (Popped None (int (length B)), B)
      else (Popped (Some (take (nat sz) B)) (int (length B) - sz), drop (nat sz) B))"
| "string_op (Line sep) B =
     (case first_line sep B of
        None \<Rightarrow> (LineRead None, B)
      | Some i \<Rightarrow> (LineRead (Some (take i B)), drop (i + length sep) B))"
| "string_op (HasLine sep) B = (LineThere (first_line sep B \<noteq> None), B)"
| "string_op All B = (AllRead B, [])"
| "string_op Clear B = (Cleared, [])"

fun op_allowed :: "buf_op \<Rightarrow> string \<Rightarrow> bool" where
  \<comment> \<open>blocks are not empty and a buffer stays below 2 GB\<close>
  "op_allowed (Push msg sz) B = (0 < sz \<and> sz \<le> int (length msg) \<and> int (length B) + sz < 2 ^ 31)"
| "op_allowed (Pop sz) B = (0 \<le> sz)"
| "op_allowed (Line sep) B = (int (length sep) < 2 ^ 31)"
| "op_allowed (HasLine sep) B = (int (length sep) < 2 ^ 31)"
| "op_allowed _ B = True"

definition sized :: "socket_buffer \<Rightarrow> bool" where
  "sized sb \<longleftrightarrow> sb_size sb = int (length (sb_bytes sb))"

lemma emptied:
  "sb_head sb = [] \<Longrightarrow> holds sb pool others \<Longrightarrow>
   holds (sb\<lparr>sb_size := 0\<rparr>) pool others \<and> sized (sb\<lparr>sb_size := 0\<rparr>) \<and> sb_bytes (sb\<lparr>sb_size := 0\<rparr>) = []"
  by (simp add: holds_def sized_def sb_bytes_def sb_nodes_def)

lemma taken:
  assumes "holds sb pool others" "sized sb0" "sb_size sb = sb_size sb0" "sb_bytes sb = drop k (sb_bytes sb0)" "k \<le> length (sb_bytes sb0)"
  shows "holds (sb\<lparr>sb_size := sb_size sb - int k\<rparr>) pool others" "sized (sb\<lparr>sb_size := sb_size sb - int k\<rparr>)"
    "sb_bytes (sb\<lparr>sb_size := sb_size sb - int k\<rparr>) = drop k (sb_bytes sb0)"
  using assms by (simp_all add: holds_def sized_def sb_bytes_def sb_nodes_def of_nat_diff)

lemma head_there: "sb_bytes sb \<noteq> [] \<Longrightarrow> sb_head sb \<noteq> []"
  by (auto simp: sb_bytes_def)

lemma pop_ok:
  assumes ok: "holds sb pool others" "sized sb" and sz: "0 < sz" "sz \<le> int (length (sb_bytes sb))"
  shows "\<exists>sb' pool'. lpopbuffer sb pool sz = Some (Some (take (nat sz) (sb_bytes sb)), int (length (sb_bytes sb)) - sz, sb', pool') \<and>
    holds sb' pool' others \<and> sized sb' \<and> sb_bytes sb' = drop (nat sz) (sb_bytes sb)"
proof -
  obtain sb1 pool1 where p: "pop_lstring sb pool sz 0 = Some (take (nat sz) (sb_bytes sb), sb1, pool1)" "holds sb1 pool1 others"
      "sb_bytes sb1 = drop (nat sz) (sb_bytes sb)" "sb_size sb1 = sb_size sb"
    using pop_lstring_ok [OF ok(1) head_there, of 0 sz] sz by fastforce
  show ?thesis using taken [OF p(2) ok(2) p(4,3)] p(1,4) sz ok(2) by (simp add: lpopbuffer_def sized_def Let_def)
qed

lemma readline_ok:
  assumes ok: "holds sb pool others" "sized sb" and line: "first_line sep (sb_bytes sb) = Some i" and "length sep < 2 ^ 31"
  shows "\<exists>sb' pool'. lreadline sb pool sep = Some (Some (take i (sb_bytes sb)), sb', pool') \<and>
    holds sb' pool' others \<and> sized sb' \<and> sb_bytes sb' = drop (i + length sep) (sb_bytes sb)"
proof -
  have b: "i + length sep \<le> length (sb_bytes sb)" using first_line_bound [OF line] by blast
  have e: "nat (int (i + length sep) - int (length sep)) = i" "nat (int (i + length sep)) = i + length sep" by simp_all
  have "sb_bytes sb \<noteq> []" using line by (auto simp: first_line_def)
  then obtain sb1 pool1 where p: "pop_lstring sb pool (int (i + length sep)) (int (length sep)) = Some (take i (sb_bytes sb), sb1, pool1)"
      "holds sb1 pool1 others" "sb_bytes sb1 = drop (i + length sep) (sb_bytes sb)" "sb_size sb1 = sb_size sb"
    using pop_lstring_ok [OF ok(1) head_there, of "int (length sep)" "int (i + length sep)", unfolded e] b by auto
  have "find_line sb sep = Some (Some i)" using find_line_ok ok line unfolding sized_def by simp
  then show ?thesis using taken [OF p(2) ok(2) p(4,3) b] p(1,4) assms(4) by (simp add: lreadline_def)
qed

lemma buffer_op_ok:
  assumes ok: "holds sb pool others" "sized sb" and allowed: "op_allowed x (sb_bytes sb)"
  shows "\<exists>sb' pool'. buffer_op x sb pool = Some (fst (string_op x (sb_bytes sb)), sb', pool') \<and>
    holds sb' pool' others \<and> sized sb' \<and> sb_bytes sb' = snd (string_op x (sb_bytes sb))"
proof (cases x)
  case (Push msg sz)
  then have "0 < sz" "nat sz \<le> length msg" "length (sb_bytes sb) + nat sz < 2 ^ 31" using allowed by auto
  then show ?thesis using push_ok [OF ok(1), of sz msg] ok(2) Push by (auto simp: sized_def)
next
  case (Pop sz)
  show ?thesis
  proof (cases "int (length (sb_bytes sb)) < sz \<or> sz = 0")
    case True
    then show ?thesis using ok Pop by (simp add: lpopbuffer_def sized_def)
  next
    case False
    then obtain sb' pool' where "lpopbuffer sb pool sz = Some (Some (take (nat sz) (sb_bytes sb)), int (length (sb_bytes sb)) - sz, sb', pool')"
        "holds sb' pool' others" "sized sb'" "sb_bytes sb' = drop (nat sz) (sb_bytes sb)"
      using pop_ok [OF ok, of sz] allowed Pop by auto
    then show ?thesis using False Pop by simp
  qed
next
  case (Line sep)
  then show ?thesis using readline_ok [OF ok, of sep] find_line_ok [OF ok(1), of sep] ok allowed
    by (cases "first_line sep (sb_bytes sb)") (auto simp: lreadline_def sized_def)
next
  case (HasLine sep)
  then show ?thesis using find_line_ok [OF ok(1), of sep] ok allowed by (simp add: lreadline_check_def sized_def)
next
  case All
  then show ?thesis using readall_loop_ok [OF ok(1) refl] emptied by (fastforce simp: lreadall_def)
next
  case Clear
  then show ?thesis using clear_nodes_ok [OF ok(1) refl] emptied by (fastforce simp: lclearbuffer_def)
qed

definition conn_op :: "nat \<times> buf_op \<Rightarrow> (nat \<Rightarrow> socket_buffer) \<times> buffer_pool \<Rightarrow> (buf_out \<times> (nat \<Rightarrow> socket_buffer) \<times> buffer_pool) option" where
  "conn_op = (\<lambda>(i, x) (bufs, pool). do { (r, sb, pool') \<leftarrow> buffer_op x (bufs i) pool; Some (r, bufs(i := sb), pool') })"

definition conn_spec :: "nat \<times> buf_op \<Rightarrow> (nat \<Rightarrow> string) \<Rightarrow> buf_out \<times> (nat \<Rightarrow> string)" where
  "conn_spec = (\<lambda>(i, x) S. (fst (string_op x (S i)), S(i := snd (string_op x (S i)))))"

definition conn_allowed :: "nat \<times> buf_op \<Rightarrow> (nat \<Rightarrow> string) \<Rightarrow> bool" where
  "conn_allowed = (\<lambda>(i, x) S. op_allowed x (S i))"

definition nodes_elsewhere :: "(nat \<Rightarrow> socket_buffer) \<Rightarrow> nat \<Rightarrow> (nat \<times> nat) set" where
  "nodes_elsewhere bufs i = (\<Union>j \<in> - {i}. set (sb_nodes (bufs j)))"

definition buffers_ok :: "(nat \<Rightarrow> socket_buffer) \<times> buffer_pool \<Rightarrow> (nat \<Rightarrow> string) \<Rightarrow> bool" where
  "buffers_ok = (\<lambda>(bufs, pool) S. \<forall>i. holds (bufs i) pool (nodes_elsewhere bufs i) \<and> sized (bufs i) \<and> sb_bytes (bufs i) = S i)"

lemma others_keep:
  assumes "pool_owns pool (sb_nodes (bufs j)) (nodes_elsewhere bufs j)"
    and "pool_owns pool' (sb_nodes sb) (nodes_elsewhere bufs i)" "j \<noteq> i"
  shows "pool_owns pool' (sb_nodes (bufs j)) (nodes_elsewhere (bufs(i := sb)) j)"
proof -
  have j: "set (sb_nodes (bufs j)) \<subseteq> nodes_elsewhere bufs i" using assms(3) by (auto simp: nodes_elsewhere_def)
  have sub: "nodes_elsewhere (bufs(i := sb)) j \<subseteq> set (sb_nodes sb) \<union> (nodes_elsewhere bufs i \<inter> nodes_elsewhere bufs j)"
    by (auto simp: nodes_elsewhere_def split: if_splits)
  have "distinct (sb_nodes (bufs j))" "set (sb_nodes (bufs j)) \<inter> nodes_elsewhere bufs j = {}"
    using assms(1) by (auto simp: pool_owns_def)
  moreover have "distinct (bp_free pool')" "set (sb_nodes sb) \<inter> set (bp_free pool') = {}"
      "set (sb_nodes sb) \<inter> nodes_elsewhere bufs i = {}" "set (bp_free pool') \<inter> nodes_elsewhere bufs i = {}"
    using assms(2) by (auto simp: pool_owns_def)
  moreover have "\<forall>(c, k) \<in> set (sb_nodes sb) \<union> set (bp_free pool') \<union> nodes_elsewhere bufs i. c < length (bp_chunks pool') \<and> k < bp_chunks pool' ! c"
    using assms(2) by (simp add: pool_owns_def)
  ultimately show ?thesis using j sub unfolding pool_owns_def distinct_append set_append by blast
qed

lemma conn_op_refines:
  assumes "buffers_ok s S" "conn_allowed x S"
  shows "\<exists>s'. conn_op x s = Some (fst (conn_spec x S), s') \<and> buffers_ok s' (snd (conn_spec x S))"
proof -
  obtain bufs pool i y where s: "s = (bufs, pool)" and x: "x = (i, y)" by fastforce
  have ok: "holds (bufs k) pool (nodes_elsewhere bufs k)" "sized (bufs k)" "sb_bytes (bufs k) = S k" for k
    using assms(1) by (auto simp: buffers_ok_def s)
  have "op_allowed y (sb_bytes (bufs i))" using assms(2) ok(3) by (simp add: conn_allowed_def x)
  from buffer_op_ok [OF ok(1,2) this] obtain sb' pool' where
    op: "buffer_op y (bufs i) pool = Some (fst (string_op y (S i)), sb', pool')" "holds sb' pool' (nodes_elsewhere bufs i)"
      "sized sb'" "sb_bytes sb' = snd (string_op y (S i))" unfolding ok(3) by blast
  have same: "nodes_elsewhere (bufs(i := sb')) i = nodes_elsewhere bufs i" by (auto simp: nodes_elsewhere_def)
  have keep: "holds (bufs k) pool' (nodes_elsewhere (bufs(i := sb')) k)" if "k \<noteq> i" for k
    using others_keep [of pool bufs k pool' sb' i] ok(1) [of k] op(2) that unfolding holds_def by blast
  have "buffers_ok (bufs(i := sb'), pool') (S(i := snd (string_op y (S i))))"
    unfolding buffers_ok_def using keep same op(2-4) ok(2,3) by simp
  then show ?thesis using op(1) by (simp add: conn_op_def conn_spec_def s x)
qed

interpretation buffers: op_refinement conn_op conn_spec conn_allowed buffers_ok
  by unfold_locales (rule conn_op_refines)

lemma buffers_start: "buffers_ok (\<lambda>i. lnewbuffer, empty_pool) (\<lambda>i. [])"
  by (simp add: buffers_ok_def holds_def sized_def lnewbuffer_def empty_pool_def sb_bytes_def chain_ok_def list_ok_def
      pool_owns_def sb_nodes_def nodes_elsewhere_def)

text \<open>C27. The receive buffers of the socket library are strings. In every history of \<open>lpushbuffer\<close>, \<open>lpopbuffer\<close>,
  \<open>lreadline\<close>, \<open>lreadall\<close> and \<open>lclearbuffer\<close> on any number of connections that share one table of nodes, every
  call returns what the reference returns on the string of all bytes that the connection received and has not
  handed out yet: \<open>lpopbuffer\<close> its first bytes or nil, \<open>lreadline\<close> what stands before the first separator,
  also where the separator is spread over blocks. No null pointer is followed and no byte outside a
  block is read, the size of a buffer is the length of its string, and no node is in two lists.\<close>

theorem socket_buffers_are_strings:
  assumes "all_allowed conn_allowed conn_spec ops (\<lambda>i. [])"
  shows "\<exists>bufs pool. run_ops conn_op ops (\<lambda>i. lnewbuffer, empty_pool) = Some (fst (spec_ops conn_spec ops (\<lambda>i. [])), bufs, pool) \<and>
    (\<forall>i. sb_bytes (bufs i) = snd (spec_ops conn_spec ops (\<lambda>i. [])) i \<and> sb_size (bufs i) = int (length (sb_bytes (bufs i))) \<and>
       distinct (sb_nodes (bufs i) @ bp_free pool)) \<and>
    (\<forall>i j. i \<noteq> j \<longrightarrow> set (sb_nodes (bufs i)) \<inter> set (sb_nodes (bufs j)) = {})"
proof -
  obtain bufs pool where r: "run_ops conn_op ops (\<lambda>i. lnewbuffer, empty_pool) = Some (fst (spec_ops conn_spec ops (\<lambda>i. [])), bufs, pool)"
    and ok: "buffers_ok (bufs, pool) (snd (spec_ops conn_spec ops (\<lambda>i. [])))"
    using buffers.ops_refine [OF buffers_start assms] by force
  have "set (sb_nodes (bufs i)) \<inter> set (sb_nodes (bufs j)) = {}" if "i \<noteq> j" for i j
  proof -
    have "pool_owns pool (sb_nodes (bufs i)) (nodes_elsewhere bufs i)" using ok by (simp add: buffers_ok_def holds_def)
    then have "set (sb_nodes (bufs i)) \<inter> nodes_elsewhere bufs i = {}" by (auto simp: pool_owns_def)
    moreover have "set (sb_nodes (bufs j)) \<subseteq> nodes_elsewhere bufs i" using that by (auto simp: nodes_elsewhere_def)
    ultimately show ?thesis by blast
  qed
  moreover have "sb_bytes (bufs i) = snd (spec_ops conn_spec ops (\<lambda>i. [])) i \<and> sb_size (bufs i) = int (length (sb_bytes (bufs i))) \<and>
       distinct (sb_nodes (bufs i) @ bp_free pool)" for i
    using ok by (auto simp: buffers_ok_def holds_def pool_owns_def sized_def)
  ultimately show ?thesis using r by blast
qed

text \<open>Two connections; the separator of the first line comes in two blocks.\<close>

theorem socket_buffers_are_strings_witness:
  "let ops = [(1, Push ''ab$'' 3), (2, Push ''xyz'' 3), (1, Line ''$#''), (1, Push ''#cd'' 3), (1, Line ''$#''), (1, Pop 1), (2, Pop 4), (1, All)]
   in \<exists>bufs pool. run_ops conn_op ops (\<lambda>i. lnewbuffer, empty_pool) =
     Some ([Size 3, Size 3, LineRead None, Size 6, LineRead (Some ''ab''), Popped (Some ''c'') 1, Popped None 3, AllRead ''d''], bufs, pool) \<and>
     sb_bytes (bufs 2) = ''xyz''"
proof -
  let ?ops = "[(1, Push ''ab$'' 3), (2, Push ''xyz'' 3), (1, Line ''$#''), (1, Push ''#cd'' 3), (1, Line ''$#''), (1, Pop 1), (2, Pop 4), (1, All)]"
  have spec: "fst (spec_ops conn_spec ?ops (\<lambda>i. [])) =
      [Size 3, Size 3, LineRead None, Size 6, LineRead (Some ''ab''), Popped (Some ''c'') 1, Popped None 3, AllRead ''d'']"
    "snd (spec_ops conn_spec ?ops (\<lambda>i. [])) 2 = ''xyz''" "all_allowed conn_allowed conn_spec ?ops (\<lambda>i. [])"
    by code_simp+
  obtain bufs pool where r: "run_ops conn_op ?ops (\<lambda>i. lnewbuffer, empty_pool) =
      Some ([Size 3, Size 3, LineRead None, Size 6, LineRead (Some ''ab''), Popped (Some ''c'') 1, Popped None 3, AllRead ''d''], bufs, pool)"
    and b: "\<forall>i. sb_bytes (bufs i) = snd (spec_ops conn_spec ?ops (\<lambda>i. [])) i"
    using socket_buffers_are_strings [OF spec(3), unfolded spec(1)] by blast
  have "sb_bytes (bufs 2) = ''xyz''" by (rule trans [OF b [rule_format] spec(2)])
  with r show ?thesis unfolding Let_def by blast
qed

section \<open>Strings to send and addresses\<close>

lemma concat_table_all: "concat_table (map Some ss) (length (concat ss)) buffer = Return (buffer @ concat ss)"
  by (induction ss arbitrary: buffer) simp_all

lemma count_size_all: "count_size (map Some ss) = Return (length (concat ss))"
  by (induction ss) simp_all

lemma table_sent_whole: "get_table_buffer (map Some ss) = Return (concat ss)"
  by (simp add: get_table_buffer_def count_size_all concat_table_all [of ss "[]", simplified])

text \<open>A closing bracket before the opening one makes \<open>address_port\<close> copy a negative number of bytes.\<close>

lemma brackets_reversed: "address_port ''][:1'' None = None"
  by (simp add: address_port_def strchr_def)

end
