(* ===== verification/SprotoPack.thy ===== *)
theory SprotoPack
  imports Bytes Format
begin

text \<open>
  The packing of zero bytes in \<open>lib/sproto/sproto.c\<close> and the two calls from Lua that use it
  (\<open>lib/sproto/lsproto.c\<close>). Eight bytes become a byte that says which of them are not zero and
  those bytes; runs of bytes without many zeros are copied behind a mark and a length. Buffers
  are strings that are written in place; a write or read outside of one is \<open>None\<close>.
\<close>

section \<open>Packing\<close>

fun pack_bytes :: "nat \<Rightarrow> string \<Rightarrow> string \<Rightarrow> nat \<Rightarrow> int \<Rightarrow> u32 \<Rightarrow> nat \<Rightarrow> (string \<times> u32 \<times> nat) option" where
  \<comment> \<open>the loop of \<open>pack_seg\<close> from byte \<open>i\<close> on, writing at \<open>q\<close>\<close>
  "pack_bytes i [] buffer q sz header notzero = Some (buffer, header, notzero)"
| "pack_bytes i (c # src) buffer q sz header notzero =
     (if c \<noteq> NUL then
        if sz > 0 then do {
          guard (q < length buffer);
          pack_bytes (i + 1) src (buffer[q := c]) (q + 1) (sz - 1) (header OR push_bit i 1) (notzero + 1) }
        else pack_bytes (i + 1) src buffer q sz (header OR push_bit i 1) (notzero + 1)
      else pack_bytes (i + 1) src buffer q sz header notzero)"

definition pack_seg :: "string \<Rightarrow> string \<Rightarrow> nat \<Rightarrow> int \<Rightarrow> nat \<Rightarrow> (nat \<times> string) option" where
  \<comment> \<open>\<open>p\<close> is the place of the segment in the buffer, \<open>n\<close> the length of the run it may continue\<close>
  "pack_seg src buffer p sz n = do {
     (buffer1, header, count) \<leftarrow> pack_bytes 0 src buffer (p + 1) (sz - 1) 0 0;
     let notzero = (if (count = 7 \<or> count = 6) \<and> n > 0 then 8 else count);
     if notzero = 8 then Some (if n > 0 then 8 else 10, buffer1)
     else if sz - 1 < 0 then Some (notzero + 1, buffer1)
     else do {
       guard (p < length buffer1);
       Some (notzero + 1, buffer1[p := chr header]) } }"

definition write_ff :: "string \<Rightarrow> string \<Rightarrow> nat \<Rightarrow> nat \<Rightarrow> string option" where
  \<comment> \<open>the first argument are the bytes that can be read at \<open>src\<close>\<close>
  "write_ff src buffer des n =
     (let align8_n = (n + 7) div 8 * 8
      in do {
        guard (n \<le> length src \<and> des + 2 + align8_n \<le> length buffer);
        Some (take des buffer @ [CHR 0xFF, chr (word_of_nat (align8_n div 8) - 1)] @ take n src @ replicate (align8_n - n) NUL @
          drop (des + 2 + align8_n) buffer) })"

datatype src_ptr = Src nat | Tmp string

fun readable :: "string \<Rightarrow> src_ptr \<Rightarrow> string" where
  "readable srcv (Src k) = drop k srcv"
| "readable srcv (Tmp tmp) = tmp"

record packing =
  \<comment> \<open>\<open>size\<close> is also the distance of \<open>buffer\<close> from its start\<close>
  pk_i :: nat
  pk_buffer :: string
  pk_bufsz :: int
  pk_size :: nat
  pk_srcstart :: src_ptr
  pk_desstart :: nat
  pk_ff_n :: nat

definition flush_ff :: "string \<Rightarrow> nat \<Rightarrow> packing \<Rightarrow> packing option" where
  "flush_ff srcv n st =
     (if pk_bufsz st \<ge> 0 then do {
        b \<leftarrow> write_ff (readable srcv (pk_srcstart st)) (pk_buffer st) (pk_desstart st) n;
        Some (st\<lparr>pk_buffer := b, pk_ff_n := 0\<rparr>) }
      else Some (st\<lparr>pk_ff_n := 0\<rparr>))"

definition pack_step :: "string \<Rightarrow> packing \<Rightarrow> packing option" where
  "pack_step srcv st =
     (let padding = pk_i st + 8 - length srcv;
          tmp = drop (pk_i st) srcv @ replicate padding NUL;
          src = (if padding > 0 then Tmp tmp else Src (pk_i st));
          des = pk_size st
      in do {
        (n, b) \<leftarrow> pack_seg (take 8 (readable srcv src)) (pk_buffer st) des (pk_bufsz st) (pk_ff_n st);
        let st1 = st\<lparr>pk_buffer := b, pk_bufsz := pk_bufsz st - int n\<rparr>;
        st2 \<leftarrow>
          (if n = 10 then Some (st1\<lparr>pk_srcstart := src, pk_desstart := des, pk_ff_n := 1\<rparr>)
           else if n = 8 \<and> pk_ff_n st1 > 0 then
             let st2 = st1\<lparr>pk_ff_n := pk_ff_n st1 + 1\<rparr>
             in if pk_ff_n st2 = 256 then flush_ff srcv (256 * 8) st2 else Some st2
           else if pk_ff_n st1 > 0 then flush_ff srcv (pk_ff_n st1 * 8) st1
           else Some st1);
        Some (st2\<lparr>pk_i := pk_i st2 + 8, pk_size := pk_size st2 + n\<rparr>) })"

lemma flush_ff_i: "flush_ff srcv n st = Some st' \<Longrightarrow> pk_i st' = pk_i st"
  by (auto simp: flush_ff_def split: if_splits bind_splits)

lemma pack_step_i: "pack_step srcv st = Some st' \<Longrightarrow> pk_i st' = pk_i st + 8"
  by (auto simp: pack_step_def Let_def dest!: flush_ff_i split: if_splits bind_splits)

function pack_loop :: "string \<Rightarrow> packing \<Rightarrow> packing option" where
  "pack_loop srcv st =
     (if pk_i st < length srcv then do { st1 \<leftarrow> pack_step srcv st; pack_loop srcv st1 } else Some st)"
  by pat_completeness auto
termination
  by (relation "measure (\<lambda>(srcv, st). length srcv - pk_i st)") (auto dest: pack_step_i)

declare pack_loop.simps [simp del]

definition pack_finish :: "string \<Rightarrow> packing \<Rightarrow> packing option" where
  \<comment> \<open>a pointer into \<open>tmp\<close> has no distance from the start of the source\<close>
  "pack_finish srcv st =
     (if pk_bufsz st \<ge> 0 then
        if pk_ff_n st = 1 then flush_ff srcv 8 st
        else if pk_ff_n st > 1 then
          (case pk_srcstart st of Src k \<Rightarrow> flush_ff srcv (length srcv - k) st | Tmp _ \<Rightarrow> None)
        else Some st
      else Some st)"

definition sproto_pack :: "string \<Rightarrow> string \<Rightarrow> nat \<Rightarrow> (nat \<times> string) option" where
  "sproto_pack srcv buffer bufsz = do {
     st \<leftarrow> pack_loop srcv \<lparr>pk_i = 0, pk_buffer = buffer, pk_bufsz = int bufsz, pk_size = 0,
       pk_srcstart = Src 0, pk_desstart = 0, pk_ff_n = 0\<rparr>;
     st \<leftarrow> pack_finish srcv st;
     Some (pk_size st, pk_buffer st) }"

section \<open>Unpacking\<close>

definition put_byte :: "char \<Rightarrow> string \<Rightarrow> nat \<Rightarrow> int \<Rightarrow> (string \<times> nat \<times> int) option" where
  "put_byte c buffer p bufsz =
     (if bufsz > 0 then do { guard (p < length buffer); Some (buffer[p := c], p + 1, bufsz - 1) } else Some (buffer, p, bufsz))"

fun unpack_seg :: "nat \<Rightarrow> u32 \<Rightarrow> string \<Rightarrow> int \<Rightarrow> string \<Rightarrow> nat \<Rightarrow> int \<Rightarrow> (string + string \<times> string \<times> nat \<times> int) option" where
  \<comment> \<open>the bits that are left of the header, lowest first, and the rest of the source; \<open>Inl\<close> is the return of \<open>-1\<close>.
     The check of \<open>srcsz\<close> lets one byte behind the end through, and reading it has no value.\<close>
  "unpack_seg 0 header src srcsz buffer p bufsz = Some (Inr (src, buffer, p, bufsz))"
| "unpack_seg (Suc k) header src srcsz buffer p bufsz =
     (if bit header 0 then
        if srcsz < 0 then Some (Inl buffer)
        else do {
          guard (bufsz > 0 \<longrightarrow> src \<noteq> []);
          (buffer, p, bufsz) \<leftarrow> put_byte (hd src) buffer p bufsz;
          unpack_seg k (drop_bit 1 header) (tl src) (srcsz - 1) buffer p bufsz }
      else do {
        (buffer, p, bufsz) \<leftarrow> put_byte NUL buffer p bufsz;
        unpack_seg k (drop_bit 1 header) src srcsz buffer p bufsz })"

lemma unpack_seg_shorter: "unpack_seg k h src n b p s = Some (Inr (src', r)) \<Longrightarrow> length src' \<le> length src"
  by (induction k h src n b p s rule: unpack_seg.induct) (fastforce split: if_splits bind_splits prod.splits)+

function unpack_loop :: "string \<Rightarrow> string \<Rightarrow> nat \<Rightarrow> int \<Rightarrow> nat \<Rightarrow> (int \<times> string) option" where
  \<comment> \<open>\<open>p\<close> is the place in the buffer; \<open>size\<close> counts on when the buffer is full\<close>
  "unpack_loop [] buffer p bufsz sz = Some (int sz, buffer)"
| "unpack_loop (header # src) buffer p bufsz sz =
     (if header = CHR 0xFF then
        (case src of
           [] \<Rightarrow> None
         | len # src1 \<Rightarrow>
             let n = (unat (byte len) + 1) * 8
             in if length src < n + 1 then Some (- 1, buffer)
                else do {
                  buffer1 \<leftarrow> (if bufsz \<ge> int n then do {
                      guard (p + n \<le> length buffer);
                      Some (take p buffer @ take n src1 @ drop (p + n) buffer) }
                    else Some buffer);
                  unpack_loop (drop n src1) buffer1 (p + n) (bufsz - int n) (sz + n) })
      else
        (case unpack_seg 8 (byte header) src (int (length src)) buffer p bufsz of
           None \<Rightarrow> None
         | Some (Inl buffer1) \<Rightarrow> Some (- 1, buffer1)
         | Some (Inr (src1, buffer1, p1, bufsz1)) \<Rightarrow> unpack_loop src1 buffer1 p1 bufsz1 (sz + 8)))"
  by pat_completeness auto
termination
  by (relation "measure (\<lambda>(src, _). length src)") (auto dest: unpack_seg_shorter simp: le_imp_less_Suc)

definition sproto_unpack :: "string \<Rightarrow> string \<Rightarrow> nat \<Rightarrow> (int \<times> string) option" where
  "sproto_unpack src buffer bufsz = unpack_loop src buffer 0 (int bufsz) 0"

section \<open>Calls from Lua\<close>

definition ENCODE_MAXSIZE :: nat where "ENCODE_MAXSIZE = 0x1000000"

function expand_size :: "nat \<Rightarrow> nat \<Rightarrow> nat option" where
  \<comment> \<open>the loop of \<open>expand_buffer\<close>; an overflow of \<open>int\<close> and a loop without end have no value\<close>
  "expand_size osz nsz =
     (if osz = 0 \<or> 2 ^ 31 \<le> 2 * osz then None
      else if 2 * osz < nsz then expand_size (2 * osz) nsz
      else Some (2 * osz))"
  by pat_completeness auto
termination
  by (relation "measure (\<lambda>(osz, nsz). nsz - osz)") auto

declare expand_size.simps [simp del]

definition expand_buffer :: "nat \<Rightarrow> nat \<Rightarrow> string lua option" where
  "expand_buffer osz nsz = do {
     osz \<leftarrow> expand_size osz nsz;
     Some (if osz > ENCODE_MAXSIZE then Raise ''object is too large (>16777216)'' else Return (replicate osz NUL)) }"

definition lpack_sproto :: "string \<Rightarrow> string \<Rightarrow> (string \<times> string) lua option" where
  \<comment> \<open>\<open>output\<close> is the buffer in the upvalue, returned with what is in the upvalue afterwards\<close>
  "lpack_sproto s output =
     (let maxsz = (length s + 2047) div 2048 * 2 + length s + 2
      in do {
        guard (length s < 2 ^ 31);
        o1 \<leftarrow> (if length output < maxsz then expand_buffer (length output) maxsz else Some (Return output));
        case o1 of
          Raise e \<Rightarrow> Some (Raise e)
        | Return output \<Rightarrow> do {
            (bytes, output) \<leftarrow> sproto_pack s output maxsz;
            Some (if bytes > maxsz then Raise (''packing error, return size = '' @ print_d (int bytes))
                  else Return (take bytes output, output)) } })"

definition lunpack_sproto :: "string \<Rightarrow> string \<Rightarrow> (string \<times> string) lua option" where
  "lunpack_sproto s output = do {
     guard (length s < 2 ^ 31);
     (r, output) \<leftarrow> sproto_unpack s output (length output);
     if r < 0 then Some (Raise ''Invalid unpack stream'')
     else if r > int (length output) then do {
       o1 \<leftarrow> expand_buffer (length output) (nat r);
       case o1 of
         Raise e \<Rightarrow> Some (Raise e)
       | Return output \<Rightarrow> do {
           (r, output) \<leftarrow> sproto_unpack s output (nat r);
           Some (if r < 0 then Raise ''Invalid unpack stream'' else Return (take (nat r) output, output)) } }
     else Some (Return (take (nat r) output, output)) }"

end
