(* ===== verification/SprotoProps.thy ===== *)
theory SprotoProps
  imports SprotoPack
begin

text \<open>
  \<open>sproto_pack\<close> writes what a reference on whole segments writes, whatever room it is given, and within the
  bound that the call from Lua reserves; \<open>sproto_unpack\<close> reverses it up to the padding.
\<close>

section \<open>The packed format\<close>

definition nonzero :: "string \<Rightarrow> string" where
  "nonzero s = filter (\<lambda>c. c \<noteq> NUL) s"

fun seg_header :: "nat \<Rightarrow> string \<Rightarrow> u32" where
  "seg_header i [] = 0"
| "seg_header i (c # s) = (if c \<noteq> NUL then push_bit i 1 else 0) OR seg_header (i + 1) s"

function segs_of :: "string \<Rightarrow> string list" where
  \<comment> \<open>segments of eight bytes, the last one padded with zeros\<close>
  "segs_of s = (if s = [] then [] else (take 8 s @ replicate (8 - length s) NUL) # segs_of (drop 8 s))"
  by pat_completeness auto
termination
  by (relation "measure length") auto

declare segs_of.simps [simp del]

definition run_of :: "nat \<Rightarrow> string list \<Rightarrow> string list" where
  \<comment> \<open>the segments that continue a run of \<open>k\<close>\<close>
  "run_of k ss = takeWhile (\<lambda>s. 6 \<le> length (nonzero s)) (take (256 - k) ss)"

lemma run_of_length: "length (run_of k ss) \<le> length ss"
  unfolding run_of_def by (rule le_trans [OF length_takeWhile_le]) simp

function pack_ref :: "string list \<Rightarrow> string" where
  "pack_ref [] = []"
| "pack_ref (s # ss) =
     (if length (nonzero s) = 8
      then let more = run_of 1 ss in CHR 0xFF # chr (word_of_nat (length more)) # s @ concat more @ pack_ref (drop (length more) ss)
      else chr (seg_header 0 s) # nonzero s @ pack_ref ss)"
  by pat_completeness auto
termination
  by (relation "measure length") auto

declare pack_ref.simps(2) [simp del]

definition pending :: "string list \<Rightarrow> string list \<Rightarrow> string" where
  \<comment> \<open>a run that has begun, and what follows it\<close>
  "pending run ss =
     (if run = [] then pack_ref ss
      else let more = run_of (length run) ss
           in CHR 0xFF # chr (word_of_nat (length run + length more) - 1) # concat run @ concat more @ pack_ref (drop (length more) ss))"

lemma pending_Nil [simp]: "pending [] ss = pack_ref ss"
  by (simp add: pending_def)

lemma pending_start: "length (nonzero s) = 8 \<Longrightarrow> pending [s] ss = pending [] (s # ss)"
  by (simp add: pending_def pack_ref.simps Let_def)

lemma pending_more:
  assumes "run \<noteq> []" "length run < 256" "6 \<le> length (nonzero s)"
  shows "pending (run @ [s]) ss = pending run (s # ss)"
proof -
  have "256 - length run = Suc (256 - Suc (length run))" using assms(2) by simp
  then have "run_of (length run) (s # ss) = s # run_of (Suc (length run)) ss"
    using assms(3) by (simp add: run_of_def)
  then show ?thesis using assms(1) by (simp add: pending_def Let_def)
qed

lemma pending_stop:
  assumes "run \<noteq> []" "length run = 256 \<or> ss = [] \<or> length (nonzero (hd ss)) < 6"
  shows "pending run ss = CHR 0xFF # chr (word_of_nat (length run) - 1) # concat run @ pack_ref ss"
proof -
  have "run_of (length run) ss = []" using assms(2) by (cases ss) (auto simp: run_of_def takeWhile_eq_Nil_iff take_Cons')
  then show ?thesis using assms(1) by (simp add: pending_def)
qed

lemma pack_ref_plain: "length (nonzero s) \<noteq> 8 \<Longrightarrow> pack_ref (s # ss) = chr (seg_header 0 s) # nonzero s @ pack_ref ss"
  by (simp add: pack_ref.simps)

section \<open>One segment\<close>

lemma nonzero_simps [simp]: "nonzero [] = []" "nonzero (c # s) = (if c = NUL then nonzero s else c # nonzero s)"
  by (simp_all add: nonzero_def)

lemma nonzero_length: "length (nonzero s) \<le> length s"
  by (simp add: nonzero_def)

text \<open>\<open>room\<close> is the end of what may be written.\<close>

lemma pack_bytes_ok:
  assumes "room \<le> length buffer"
  shows "\<exists>buffer'. pack_bytes i src buffer q (int room - int q) h k = Some (buffer', h OR seg_header i src, k + length (nonzero src)) \<and>
    length buffer' = length buffer \<and> take q buffer' = take q buffer \<and>
    (q + length (nonzero src) \<le> room \<longrightarrow> take (q + length (nonzero src)) buffer' = take q buffer @ nonzero src)"
  using assms
proof (induction src arbitrary: i buffer q h k)
  case (Cons c src)
  consider (zero) "c = NUL" | (put) "c \<noteq> NUL" "q < room" | (full) "c \<noteq> NUL" "room \<le> q" by linarith
  then show ?case
  proof cases
    case zero
    then show ?thesis using Cons.IH [OF Cons.prems, of "i + 1" q h k] by simp
  next
    case full
    then show ?thesis
      using Cons.IH [OF Cons.prems, of "i + 1" q "h OR push_bit i 1" "k + 1"] by (auto simp: or.assoc)
  next
    case put
    let ?b = "buffer[q := c]"
    have q: "q < length buffer" using put Cons.prems by simp
    obtain buffer' where b: "pack_bytes (i + 1) src ?b (q + 1) (int room - int (q + 1)) (h OR push_bit i 1) (k + 1) =
          Some (buffer', (h OR push_bit i 1) OR seg_header (i + 1) src, k + 1 + length (nonzero src))"
        "length buffer' = length ?b" "take (q + 1) buffer' = take (q + 1) ?b"
        "q + 1 + length (nonzero src) \<le> room \<longrightarrow> take (q + 1 + length (nonzero src)) buffer' = take (q + 1) ?b @ nonzero src"
      using Cons.IH [of ?b "i + 1" "q + 1" "h OR push_bit i 1" "k + 1"] Cons.prems by auto
    have t: "take (q + 1) ?b = take q buffer @ [c]" using q by (simp add: take_Suc_conv_app_nth)
    have "take q buffer' = take q (take (q + 1) buffer')" by simp
    then have "take q buffer' = take q buffer" unfolding b(3) t using q by simp
    then show ?thesis using b t q put by (auto simp: or.assoc algebra_simps)
  qed
qed simp

lemma pack_seg_ok:
  assumes "room \<le> length buffer" "length src = 8"
  shows "\<exists>n buffer'. pack_seg src buffer p (int room - int p) k = Some (n, buffer') \<and> length buffer' = length buffer \<and>
    take p buffer' = take p buffer \<and>
    (if length (nonzero src) = 8 \<or> 6 \<le> length (nonzero src) \<and> 0 < k then n = (if 0 < k then 8 else 10)
     else n = length (nonzero src) + 1 \<and>
       (p + n \<le> room \<longrightarrow> take (p + n) buffer' = take p buffer @ chr (seg_header 0 src) # nonzero src))"
proof -
  let ?c = "length (nonzero src)" and ?h = "chr (seg_header 0 src)"
  obtain b where b: "pack_bytes 0 src buffer (p + 1) (int room - int p - 1) 0 0 = Some (b, seg_header 0 src, ?c)"
      "length b = length buffer" "take (p + 1) b = take (p + 1) buffer"
      "p + 1 + ?c \<le> room \<longrightarrow> take (p + 1 + ?c) b = take (p + 1) buffer @ nonzero src"
    using pack_bytes_ok [OF assms(1), of 0 src "p + 1" 0 0] by (auto simp: algebra_simps)
  have "take p b = take p (take (p + 1) b)" by simp
  then have p: "take p b = take p buffer" unfolding b(3) by simp
  have c8: "?c \<le> 8" using nonzero_length [of src] assms(2) by simp
  have sc: "(?c = 8 \<or> 6 \<le> ?c \<and> 0 < k) \<longleftrightarrow> (if (?c = 7 \<or> ?c = 6) \<and> k > 0 then 8 else ?c) = 8" using c8 by auto
  show ?thesis
  proof (cases "?c = 8 \<or> 6 \<le> ?c \<and> 0 < k")
    case True
    then have "pack_seg src buffer p (int room - int p) k = Some (if 0 < k then 8 else 10, b)"
      using b(1) sc by (simp add: pack_seg_def Let_def)
    then show ?thesis using True b(2) p by simp
  next
    case False
    then have n: "(if (?c = 7 \<or> ?c = 6) \<and> k > 0 then 8 else ?c) = ?c" "?c \<noteq> 8" by auto
    show ?thesis
    proof (cases "p < room")
      case True
      have "take (p + (?c + 1)) (b[p := ?h]) = take p buffer @ ?h # nonzero src" if "p + (?c + 1) \<le> room"
      proof -
        have t: "take (p + 1 + ?c) b = take (p + 1) buffer @ nonzero src" using b(4) that by simp
        have "take (p + (?c + 1)) (b[p := ?h]) = (take (p + 1 + ?c) b)[p := ?h]" by (simp add: take_update_swap add.commute)
        also have "\<dots> = take p buffer @ ?h # nonzero src"
          unfolding t using True assms(1) by (simp add: take_Suc_conv_app_nth list_update_append)
        finally show ?thesis .
      qed
      moreover have "pack_seg src buffer p (int room - int p) k = Some (?c + 1, b[p := ?h])"
        using b(1,2) n True assms(1) unfolding pack_seg_def by (simp add: Let_def)
      ultimately show ?thesis using False b(2) p by auto
    next
      case full: False
      then have "pack_seg src buffer p (int room - int p) k = Some (?c + 1, b)"
        using b(1) n unfolding pack_seg_def by (simp add: Let_def)
      then show ?thesis using False full b(2) p by auto
    qed
  qed
qed

section \<open>Runs\<close>

lemma write_run:
  assumes "take (length out) buffer = out" "length out + 2 + 8 * r \<le> length buffer" "n \<le> length src" "(n + 7) div 8 = r"
  shows "\<exists>b. write_ff src buffer (length out) n = Some b \<and> length b = length buffer \<and>
    take (length out + 2 + 8 * r) b = out @ [CHR 0xFF, chr (word_of_nat r - 1)] @ take n src @ replicate (8 * r - n) NUL \<and>
    drop (length out + 2 + 8 * r) b = drop (length out + 2 + 8 * r) buffer"
proof -
  let ?mid = "[CHR 0xFF, chr (word_of_nat r - 1)] @ take n src @ replicate (8 * r - n) NUL"
  let ?b = "out @ ?mid @ drop (length out + 2 + 8 * r) buffer"
  have "n \<le> 8 * r" using assms(4) by linarith
  then have len: "length (out @ ?mid) = length out + 2 + 8 * r" using assms(3) by simp
  have "write_ff src buffer (length out) n = Some ?b" using assms by (simp add: write_ff_def Let_def mult.commute)
  moreover have split: "take m (xs @ ys) = xs" "drop m (xs @ ys) = ys" if "length xs = m" for m and xs ys :: string using that by auto
  note split [OF len, of "drop (length out + 2 + 8 * r) buffer"]
  moreover have "length ?b = length buffer" using len assms(2) by simp
  ultimately show ?thesis by simp
qed

definition seg_at :: "string \<Rightarrow> nat \<Rightarrow> string" where
  "seg_at srcv i = take 8 (drop i srcv @ replicate 8 NUL)"

lemma seg_at_length [simp]: "length (seg_at srcv i) = 8"
  by (simp add: seg_at_def)

lemma segs_head: "i < length srcv \<Longrightarrow> segs_of (drop i srcv) = seg_at srcv i # segs_of (drop (i + 8) srcv)"
  by (subst segs_of.simps) (auto simp: seg_at_def min_def add.commute)

lemma seg_padded: "nonzero (s @ replicate n NUL) = nonzero s"
  by (simp add: nonzero_def)

lemma seg_at_nonzero: "length (nonzero (seg_at srcv i)) \<le> length srcv - i"
proof -
  have "nonzero (seg_at srcv i) = nonzero (take 8 (drop i srcv))" by (simp add: seg_at_def seg_padded)
  then show ?thesis using nonzero_length [of "take 8 (drop i srcv)"] by simp
qed

section \<open>The loop\<close>

text \<open>\<open>out\<close> is what is finished, \<open>run\<close> the segments of the run that is open, \<open>room\<close> the end of what may be written.\<close>

definition open_run :: "string \<Rightarrow> packing \<Rightarrow> string \<Rightarrow> string list \<Rightarrow> nat \<Rightarrow> bool" where
  "open_run srcv st out run k \<longleftrightarrow> pk_srcstart st = Src k \<and> pk_desstart st = length out \<and> k + 8 \<le> length srcv \<and> k + 8 * length run < length srcv + 8 \<and>
     concat run = take (8 * length run) (drop k srcv @ replicate 8 NUL)"

definition packed :: "string \<Rightarrow> nat \<Rightarrow> packing \<Rightarrow> string \<Rightarrow> string list \<Rightarrow> bool" where
  "packed srcv room st out run \<longleftrightarrow> room \<le> length (pk_buffer st) \<and> pk_bufsz st = int room - int (pk_size st) \<and>
     pk_ff_n st = length run \<and> length run < 256 \<and>
     (length out \<le> room \<longrightarrow> take (length out) (pk_buffer st) = out) \<and>
     (if run = [] then pk_size st = length out
      else pk_size st = length out + 2 + 8 * length run \<and> open_run srcv st out run (pk_i st - 8 * length run) \<and> 8 * length run \<le> pk_i st)"

lemma flush_ok:
  assumes open_: "open_run srcv st out run k" and n: "(n + 7) div 8 = length run" "n \<le> length srcv - k" "n = 8 * length run \<or> n = length srcv - k"
    and room: "0 \<le> pk_bufsz st \<Longrightarrow> length out + 2 + 8 * length run \<le> length (pk_buffer st) \<and> take (length out) (pk_buffer st) = out"
  shows "\<exists>b. flush_ff srcv n st = Some (st\<lparr>pk_buffer := b, pk_ff_n := 0\<rparr>) \<and> length b = length (pk_buffer st) \<and>
    (0 \<le> pk_bufsz st \<longrightarrow> take (length out + 2 + 8 * length run) b = out @ [CHR 0xFF, chr (word_of_nat (length run) - 1)] @ concat run \<and>
      drop (length out + 2 + 8 * length run) b = drop (length out + 2 + 8 * length run) (pk_buffer st))"
proof (cases "0 \<le> pk_bufsz st")
  case True
  have le: "n \<le> 8 * length run" "8 * length run - n \<le> 8" using n(1) by linarith+
  have bytes: "take n (drop k srcv) @ replicate (8 * length run - n) NUL = concat run"
    using open_ n(2,3) le by (auto simp: open_run_def)
  have ptr: "readable srcv (pk_srcstart st) = drop k srcv" "pk_desstart st = length out" using open_ by (simp_all add: open_run_def)
  obtain b where "write_ff (drop k srcv) (pk_buffer st) (length out) n = Some b" "length b = length (pk_buffer st)"
      "take (length out + 2 + 8 * length run) b = out @ [CHR 0xFF, chr (word_of_nat (length run) - 1)] @ take n (drop k srcv) @ replicate (8 * length run - n) NUL"
      "drop (length out + 2 + 8 * length run) b = drop (length out + 2 + 8 * length run) (pk_buffer st)"
    using write_run [of out "pk_buffer st" "length run" n "drop k srcv"] room [OF True] n by auto
  then show ?thesis using True ptr bytes by (intro exI [of _ b]) (simp add: flush_ff_def)
next
  case False
  then show ?thesis by (intro exI [of _ "pk_buffer st"]) (simp add: flush_ff_def)
qed

lemma step_segment:
  assumes "i < length srcv"
  shows "take 8 (readable srcv (if 0 < i + 8 - length srcv then Tmp (drop i srcv @ replicate (i + 8 - length srcv) NUL) else Src i)) = seg_at srcv i"
  using assms by (auto simp: seg_at_def)

definition fitting :: "string \<Rightarrow> bool" where
  \<comment> \<open>a last segment that is not full never completes a run of 256\<close>
  "fitting srcv \<longleftrightarrow> length srcv mod 8 \<le> 5 \<or> length srcv \<le> 2040"

lemma full_run_inside:
  assumes "fitting srcv" "i < length srcv" "i = k + 2040" "6 \<le> length (nonzero (seg_at srcv i))" "8 dvd i"
  shows "i + 8 \<le> length srcv"
proof (rule ccontr)
  assume "\<not> i + 8 \<le> length srcv"
  moreover have "6 \<le> length srcv - i" using seg_at_nonzero [of srcv i] assms(4) by simp
  ultimately have l: "length srcv = i + 6 \<or> length srcv = i + 7" by linarith
  then have "length srcv mod 8 = 6 \<or> length srcv mod 8 = 7" using assms(5) by (auto elim!: dvdE)
  then show False using assms(1,3) l by (auto simp: fitting_def)
qed

lemma step_eq:
  assumes "i = pk_i st" "i < length srcv"
    and "pack_seg (seg_at srcv i) (pk_buffer st) (pk_size st) (pk_bufsz st) (pk_ff_n st) = Some (n, b)"
  shows "pack_step srcv st =
    (let st1 = st\<lparr>pk_buffer := b, pk_bufsz := pk_bufsz st - int n\<rparr>;
         next = (\<lambda>st2. Some (st2\<lparr>pk_i := pk_i st2 + 8, pk_size := pk_size st2 + n\<rparr>))
     in if n = 10 then next (st1\<lparr>pk_srcstart := (if 0 < i + 8 - length srcv then Tmp (drop i srcv @ replicate (i + 8 - length srcv) NUL) else Src i),
            pk_desstart := pk_size st, pk_ff_n := 1\<rparr>)
        else if n = 8 \<and> pk_ff_n st > 0 then
          if pk_ff_n st + 1 = 256 then Option.bind (flush_ff srcv 2048 (st1\<lparr>pk_ff_n := 256\<rparr>)) next else next (st1\<lparr>pk_ff_n := pk_ff_n st + 1\<rparr>)
        else if pk_ff_n st > 0 then Option.bind (flush_ff srcv (pk_ff_n st * 8) st1) next
        else next st1)"
  unfolding pack_step_def Let_def assms(1) [symmetric] step_segment [OF assms(2)] assms(3) by (simp add: Let_def)

lemma step_alone:
  assumes inv: "packed srcv room st out []" and i: "pk_i st < length srcv"
  shows "\<exists>st' out' run'. pack_step srcv st = Some st' \<and> packed srcv room st' out' run' \<and>
    (\<forall>R. out' @ pending run' R = out @ pending [] (seg_at srcv (pk_i st) # R))"
proof -
  let ?i = "pk_i st" and ?s = "seg_at srcv (pk_i st)" and ?p = "pk_size st"
  have p: "?p = length out" "pk_ff_n st = 0" "pk_bufsz st = int room - int ?p" "room \<le> length (pk_buffer st)"
      "length out \<le> room \<Longrightarrow> take (length out) (pk_buffer st) = out" using inv by (auto simp: packed_def)
  obtain n b where seg: "pack_seg ?s (pk_buffer st) ?p (int room - int ?p) 0 = Some (n, b)" "length b = length (pk_buffer st)"
      "take ?p b = take ?p (pk_buffer st)" "length (nonzero ?s) = 8 \<Longrightarrow> n = 10"
      "length (nonzero ?s) \<noteq> 8 \<Longrightarrow> n = length (nonzero ?s) + 1 \<and>
        (?p + n \<le> room \<longrightarrow> take (?p + n) b = take ?p (pk_buffer st) @ chr (seg_header 0 ?s) # nonzero ?s)"
    using pack_seg_ok [OF p(4), of ?s ?p 0] by fastforce
  note step = step_eq [OF refl i, of n b, unfolded p(2,3), OF seg(1)]
  have le: "length (nonzero ?s) \<le> 8" using nonzero_length [of ?s] by simp
  show ?thesis
  proof (cases "length (nonzero ?s) = 8")
    case True
    then have n: "n = 10" using seg(4) by simp
    have i8: "?i + 8 \<le> length srcv" using seg_at_nonzero [of srcv ?i] True by simp
    let ?st = "st\<lparr>pk_buffer := b, pk_bufsz := int room - int ?p - 10, pk_srcstart := Src ?i, pk_desstart := ?p, pk_ff_n := 1,
        pk_i := ?i + 8, pk_size := ?p + 10\<rparr>"
    have "pack_step srcv st = Some ?st" using step n i8 by (simp add: Let_def)
    moreover have "packed srcv room ?st out [?s]"
      using p seg(2,3) i8 by (auto simp: packed_def open_run_def seg_at_def)
    moreover have "\<forall>R. out @ pending [?s] R = out @ pending [] (?s # R)" using pending_start [OF True] by simp
    ultimately show ?thesis by blast
  next
    case False
    let ?out = "out @ chr (seg_header 0 ?s) # nonzero ?s"
    let ?st = "st\<lparr>pk_buffer := b, pk_bufsz := int room - int ?p - int n, pk_i := ?i + 8, pk_size := ?p + n\<rparr>"
    have n: "n = length (nonzero ?s) + 1" using seg(5) False by simp
    then have "n \<noteq> 10" using le False by simp
    then have "pack_step srcv st = Some ?st" using step by (simp add: Let_def)
    moreover have "packed srcv room ?st ?out []"
      using p seg(2) seg(5) [OF False] n by (simp add: packed_def)
    moreover have "\<forall>R. ?out @ pending [] R = out @ pending [] (?s # R)" using pack_ref_plain [OF False] by simp
    ultimately show ?thesis by blast
  qed
qed

lemma run_grows:
  assumes "open_run srcv st out run k" "i = k + 8 * length run" "i < length srcv"
  shows "concat (run @ [seg_at srcv i]) = take (8 * length (run @ [seg_at srcv i])) (drop k srcv @ replicate 8 NUL)"
proof -
  have le: "8 * length run \<le> length (drop k srcv)" using assms(2,3) by simp
  have "concat run = take (8 * length run) (drop k srcv)" using assms(1) le by (simp add: open_run_def)
  moreover have "seg_at srcv i = take 8 (drop (8 * length run) (drop k srcv @ replicate 8 NUL))"
    using le assms(2) by (simp add: seg_at_def add.commute)
  ultimately show ?thesis using le by (simp add: take_add [of "8 * length run" 8, simplified add.commute])
qed

lemma open_facts:
  assumes "packed srcv room st out run" "run \<noteq> []"
  shows "pk_size st = length out + 2 + 8 * length run" "pk_ff_n st = length run" "pk_bufsz st = int room - int (pk_size st)"
    "room \<le> length (pk_buffer st)" "length out \<le> room \<Longrightarrow> take (length out) (pk_buffer st) = out"
    "open_run srcv st out run (pk_i st - 8 * length run)" "pk_i st = pk_i st - 8 * length run + 8 * length run" "length run < 256"
  using assms by (auto simp: packed_def)

lemma seg_in_run:
  assumes inv: "packed srcv room st out run" and run: "run \<noteq> []" and s: "length s = 8"
  obtains n b where "pack_seg s (pk_buffer st) (pk_size st) (pk_bufsz st) (pk_ff_n st) = Some (n, b)" "length b = length (pk_buffer st)"
    "length out \<le> room \<Longrightarrow> take (length out) b = out" "6 \<le> length (nonzero s) \<Longrightarrow> n = 8"
    "length (nonzero s) < 6 \<Longrightarrow> n = length (nonzero s) + 1 \<and>
      (pk_size st + n \<le> room \<longrightarrow> take n (drop (pk_size st) b) = chr (seg_header 0 s) # nonzero s)"
proof -
  let ?p = "pk_size st" and ?hd = "chr (seg_header 0 s) # nonzero s"
  note p = open_facts [OF inv run]
  have r0: "0 < length run" using run by simp
  obtain n b where seg: "pack_seg s (pk_buffer st) ?p (int room - int ?p) (length run) = Some (n, b)" "length b = length (pk_buffer st)"
      "take ?p b = take ?p (pk_buffer st)" "6 \<le> length (nonzero s) \<Longrightarrow> n = 8"
      "length (nonzero s) < 6 \<Longrightarrow> n = length (nonzero s) + 1 \<and> (?p + n \<le> room \<longrightarrow> take (?p + n) b = take ?p (pk_buffer st) @ ?hd)"
    using pack_seg_ok [OF p(4) s, of ?p "length run"] r0 by (fastforce split: if_splits)
  have "take (length out) b = out" if "length out \<le> room"
  proof -
    have "take (length out) b = take (length out) (take ?p b)" using p(1) by simp
    then show ?thesis unfolding seg(3) using p(1,5) that by simp
  qed
  moreover have "take n (drop ?p b) = ?hd" if "length (nonzero s) < 6" "?p + n \<le> room"
  proof -
    have t: "take (?p + n) b = take ?p (pk_buffer st) @ ?hd" using seg(5) that by blast
    have "take n (drop ?p b) = drop ?p (take (?p + n) b)" by (simp add: drop_take)
    then show ?thesis unfolding t using p(4) that by simp
  qed
  ultimately show ?thesis using that [of n b] seg p(2,3) by simp
qed

lemma run_continues:
  assumes inv: "packed srcv room st out run" and run: "run \<noteq> []" and i: "pk_i st < length srcv" "8 dvd pk_i st" and fit: "fitting srcv"
    and nz: "6 \<le> length (nonzero (seg_at srcv (pk_i st)))"
  shows "\<exists>st' out' run'. pack_step srcv st = Some st' \<and> packed srcv room st' out' run' \<and>
    (\<forall>R. out' @ pending run' R = out @ pending run (seg_at srcv (pk_i st) # R))"
proof -
  let ?i = "pk_i st" and ?s = "seg_at srcv (pk_i st)" and ?p = "pk_size st" and ?r = "length run"
  let ?k = "?i - 8 * ?r" and ?run = "run @ [seg_at srcv (pk_i st)]"
  note p = open_facts [OF inv run]
  obtain n b where seg: "pack_seg ?s (pk_buffer st) ?p (pk_bufsz st) (pk_ff_n st) = Some (n, b)" "length b = length (pk_buffer st)"
      "length out \<le> room \<Longrightarrow> take (length out) b = out" and n: "n = 8"
    using seg_in_run [OF inv run, of ?s] nz by (metis seg_at_length)
  note step = step_eq [OF refl i(1) seg(1), unfolded p(2,3) n]
  let ?st1 = "st\<lparr>pk_buffer := b, pk_bufsz := int room - int ?p - 8\<rparr>"
  have whole: "concat ?run = take (8 * length ?run) (drop ?k srcv @ replicate 8 NUL)" by (rule run_grows [OF p(6,7) i(1)])
  have grown: "open_run srcv (st'\<lparr>pk_srcstart := pk_srcstart st, pk_desstart := pk_desstart st\<rparr>) out ?run ?k" for st'
    using p(6) whole i(1) p(7) by (simp add: open_run_def)
  have more: "\<forall>R. out @ pending ?run R = out @ pending run (?s # R)" using pending_more [OF run p(8) nz] by simp
  show ?thesis
  proof (cases "?r + 1 = 256")
    case True
    let ?st2 = "?st1\<lparr>pk_ff_n := 256\<rparr>" and ?out = "out @ [CHR 0xFF, chr (word_of_nat (length ?run) - 1)] @ concat ?run"
    have i8: "?i + 8 \<le> length srcv" using full_run_inside [OF fit i(1), of ?k] nz i(2) True p(7) by simp
    then have "2048 \<le> length srcv - ?k" using p(7) True by linarith
    then obtain b' where f: "flush_ff srcv 2048 ?st2 = Some (?st2\<lparr>pk_buffer := b', pk_ff_n := 0\<rparr>)" "length b' = length b"
        "?p + 8 \<le> room \<longrightarrow> take (length out + 2 + 8 * length ?run) b' = ?out"
      using flush_ok [of srcv ?st2 out ?run ?k 2048] grown [of ?st2] True p(1,4) seg(2,3) by auto
    let ?st = "?st2\<lparr>pk_buffer := b', pk_ff_n := 0, pk_i := ?i + 8, pk_size := ?p + 8\<rparr>"
    have "pack_step srcv st = Some ?st" using step f(1) True run by (simp add: Let_def)
    moreover have "length (concat ?run) = 8 * length ?run" unfolding whole using p(7) i8 by simp
    then have "packed srcv room ?st ?out []" using f(2,3) p(1,4) seg(2) by (simp add: packed_def add.left_commute)
    moreover have "\<forall>R. ?out @ pending [] R = out @ pending run (?s # R)" using more pending_stop [of ?run] True by simp
    ultimately show ?thesis by blast
  next
    case False
    let ?st = "?st1\<lparr>pk_ff_n := ?r + 1, pk_i := ?i + 8, pk_size := ?p + 8\<rparr>"
    have "pack_step srcv st = Some ?st" using step False run by (simp add: Let_def)
    moreover have "packed srcv room ?st out ?run"
      using p(1,4,8) seg(2,3) False grown [of ?st] p(7) by (simp add: packed_def)
    ultimately show ?thesis using more by blast
  qed
qed

lemma run_ends:
  assumes inv: "packed srcv room st out run" and run: "run \<noteq> []" and i: "pk_i st < length srcv"
    and nz: "length (nonzero (seg_at srcv (pk_i st))) < 6"
  shows "\<exists>st' out' run'. pack_step srcv st = Some st' \<and> packed srcv room st' out' run' \<and>
    (\<forall>R. out' @ pending run' R = out @ pending run (seg_at srcv (pk_i st) # R))"
proof -
  let ?i = "pk_i st" and ?s = "seg_at srcv (pk_i st)" and ?p = "pk_size st" and ?r = "length run"
  let ?k = "?i - 8 * ?r" and ?done = "out @ [CHR 0xFF, chr (word_of_nat (length run) - 1)] @ concat run"
  let ?hd = "chr (seg_header 0 ?s) # nonzero ?s"
  note p = open_facts [OF inv run]
  obtain n b where seg: "pack_seg ?s (pk_buffer st) ?p (pk_bufsz st) (pk_ff_n st) = Some (n, b)" "length b = length (pk_buffer st)"
      "length out \<le> room \<Longrightarrow> take (length out) b = out" "?p + n \<le> room \<Longrightarrow> take n (drop ?p b) = ?hd" and n: "n = length (nonzero ?s) + 1"
    using seg_in_run [OF inv run, of ?s] nz by (metis seg_at_length)
  note step = step_eq [OF refl i seg(1), unfolded p(2,3)]
  let ?st1 = "st\<lparr>pk_buffer := b, pk_bufsz := int room - int ?p - int n\<rparr>"
  have run_in: "8 * ?r \<le> length srcv - ?k" using p(7) i by simp
  have "open_run srcv ?st1 out run ?k" using p(6) by (simp add: open_run_def)
  then obtain b' where f: "flush_ff srcv (?r * 8) ?st1 = Some (?st1\<lparr>pk_buffer := b', pk_ff_n := 0\<rparr>)" "length b' = length b"
      "?p + n \<le> room \<longrightarrow> take ?p b' = ?done \<and> drop ?p b' = drop ?p b"
    using flush_ok [of srcv ?st1 out run ?k "?r * 8"] run_in p(1,4) seg(2,3) by auto
  let ?st = "?st1\<lparr>pk_buffer := b', pk_ff_n := 0, pk_i := ?i + 8, pk_size := ?p + n\<rparr>"
  have "pack_step srcv st = Some ?st" using step n f(1) nz run by (simp add: Let_def)
  moreover have "packed srcv room ?st (?done @ ?hd) []"
  proof -
    have "length (concat run) = 8 * ?r" using p(6) run_in by (simp add: open_run_def)
    then have len: "length (?done @ ?hd) = ?p + n" using n p(1) by simp
    have "take (?p + n) b' = ?done @ ?hd" if "?p + n \<le> room"
      unfolding take_add using f(3) seg(4) that by (simp only: simp_thms)
    then show ?thesis using len p(4) seg(2) f(2) unfolding packed_def by (simp only: len) simp
  qed
  moreover have "\<forall>R. (?done @ ?hd) @ pending [] R = out @ pending run (?s # R)"
    using pending_stop [OF run] pack_ref_plain [of ?s] nz by simp
  ultimately show ?thesis by blast
qed

lemma step_ok:
  assumes "packed srcv room st out run" "pk_i st < length srcv" "8 dvd pk_i st" "fitting srcv"
  shows "\<exists>st' out' run'. pack_step srcv st = Some st' \<and> packed srcv room st' out' run' \<and>
    (\<forall>R. out' @ pending run' R = out @ pending run (seg_at srcv (pk_i st) # R))"
proof (cases "run = []")
  case True
  then show ?thesis using step_alone [of srcv room st out] assms by simp
next
  case False
  then show ?thesis using run_continues [OF assms(1) False assms(2-4)] run_ends [OF assms(1) False assms(2)] not_less by blast
qed

lemma loop_ok:
  assumes "packed srcv room st out run" "8 dvd pk_i st" "fitting srcv"
  shows "\<exists>st' out' run'. pack_loop srcv st = Some st' \<and> packed srcv room st' out' run' \<and> length srcv \<le> pk_i st' \<and>
    out' @ pending run' [] = out @ pending run (segs_of (drop (pk_i st) srcv))"
  using assms
proof (induction srcv st arbitrary: out run rule: pack_loop.induct)
  case (1 srcv st)
  show ?case
  proof (cases "pk_i st < length srcv")
    case True
    obtain st1 out1 run1 where s: "pack_step srcv st = Some st1" "packed srcv room st1 out1 run1"
        "\<forall>R. out1 @ pending run1 R = out @ pending run (seg_at srcv (pk_i st) # R)"
      using step_ok [OF 1(2) True 1(3,4)] by blast
    have "pk_i st1 = pk_i st + 8" using pack_step_i [OF s(1)] .
    moreover from this have "8 dvd pk_i st1" using 1(3) by simp
    from 1(1) [OF True s(1,2) this 1(4)] obtain st' out' run' where
      "pack_loop srcv st1 = Some st'" "packed srcv room st' out' run'" "length srcv \<le> pk_i st'"
      "out' @ pending run' [] = out1 @ pending run1 (segs_of (drop (pk_i st1) srcv))" by blast
    ultimately show ?thesis using s(1,3) True segs_head [OF True] by (simp add: pack_loop.simps [of srcv st]) blast
  next
    case False
    then show ?thesis using 1(2) by (simp add: pack_loop.simps [of srcv st] segs_of.simps) blast
  qed
qed

lemma finish_ok:
  assumes inv: "packed srcv room st out run" and i: "length srcv \<le> pk_i st"
  shows "\<exists>st'. pack_finish srcv st = Some st' \<and> pk_size st' = length (out @ pending run []) \<and> length (pk_buffer st') = length (pk_buffer st) \<and>
    (pk_size st' \<le> room \<longrightarrow> take (pk_size st') (pk_buffer st') = out @ pending run [])"
proof (cases "run = []")
  case True
  then show ?thesis using inv by (auto simp: packed_def pack_finish_def)
next
  case False
  let ?r = "length run" and ?k = "pk_i st - 8 * length run"
  note p = open_facts [OF inv False]
  have k: "?k + 8 \<le> length srcv" "?k + 8 * ?r < length srcv + 8" "pk_srcstart st = Src ?k" using p(6) by (simp_all add: open_run_def)
  have pend: "pending run [] = [CHR 0xFF, chr (word_of_nat ?r - 1)] @ concat run" using pending_stop [OF False, of "[]"] by simp
  have "concat run = take (8 * ?r) (drop ?k srcv @ replicate 8 NUL)" using p(6) unfolding open_run_def by blast
  moreover have "8 * ?r \<le> length (drop ?k srcv @ replicate 8 NUL)" using k(1,2) by simp
  ultimately have "length (concat run) = 8 * ?r" by (simp only: length_take min_absorb2)
  then have len: "length (out @ pending run []) = pk_size st" using p(1) pend by simp
  define n where "n = (if ?r = 1 then 8 else length srcv - ?k)"
  have r0: "0 < ?r" using False by simp
  have n: "(n + 7) div 8 = ?r" "n \<le> length srcv - ?k" "n = 8 * ?r \<or> n = length srcv - ?k"
    using k(1,2) p(7) i r0 by (auto simp: n_def div_nat_eqI)
  obtain b where f: "flush_ff srcv n st = Some (st\<lparr>pk_buffer := b, pk_ff_n := 0\<rparr>)" "length b = length (pk_buffer st)"
      "0 \<le> pk_bufsz st \<longrightarrow> take (pk_size st) b = out @ pending run []"
    using flush_ok [OF p(6) n] p(1,3,4,5) pend by auto
  have "pack_finish srcv st = (if 0 \<le> pk_bufsz st then flush_ff srcv n st else Some st)"
  proof -
    have "?r = 1 \<or> 1 < ?r" using r0 by linarith
    then show ?thesis using p(2) k(3) by (auto simp: pack_finish_def n_def)
  qed
  then show ?thesis using f len p(3) by auto
qed

lemma sproto_pack_ok:
  assumes "fitting srcv" "bufsz \<le> length buffer"
  shows "\<exists>b. sproto_pack srcv buffer bufsz = Some (length (pack_ref (segs_of srcv)), b) \<and>
    (length (pack_ref (segs_of srcv)) \<le> bufsz \<longrightarrow> take (length (pack_ref (segs_of srcv))) b = pack_ref (segs_of srcv))"
proof -
  let ?st = "\<lparr>pk_i = 0, pk_buffer = buffer, pk_bufsz = int bufsz, pk_size = 0, pk_srcstart = Src 0, pk_desstart = 0, pk_ff_n = 0\<rparr>"
  have "packed srcv bufsz ?st [] []" using assms(2) by (simp add: packed_def)
  from loop_ok [OF this _ assms(1)] obtain st out run where
    "pack_loop srcv ?st = Some st" "packed srcv bufsz st out run" "length srcv \<le> pk_i st" "out @ pending run [] = pack_ref (segs_of srcv)"
    by auto
  with finish_ok [of srcv bufsz st out run] show ?thesis
    by (auto simp: sproto_pack_def)
qed

section \<open>The size of a packed text\<close>

lemma run_of_stops:
  assumes "drop (length (run_of k ss)) ss = t # ts" "k + length (run_of k ss) < 256"
  shows "length (nonzero t) < 6"
proof -
  let ?P = "\<lambda>s. 6 \<le> length (nonzero s)" and ?m = "length (run_of k ss)"
  have "?m < length ss" using assms(1) by (cases "length ss \<le> ?m") simp_all
  note m = this nth_via_drop [OF assms(1)]
  have "?m < length (take (256 - k) ss)" using m(1) assms(2) by simp
  then have "\<not> ?P (take (256 - k) ss ! ?m)" unfolding run_of_def by (rule nth_length_takeWhile)
  then show ?thesis using m(2) assms(2) by simp
qed

lemma run_of_segs: "s \<in> set (run_of k ss) \<Longrightarrow> s \<in> set ss \<and> 6 \<le> length (nonzero s)"
  unfolding run_of_def by (meson in_set_takeD set_takeWhileD)

lemma run_of_max: "length (run_of k ss) \<le> 256 - k"
  unfolding run_of_def by (rule le_trans [OF length_takeWhile_le]) simp

lemma run_of_prefix: "ss = run_of k ss @ drop (length (run_of k ss)) ss"
proof -
  have "run_of k ss = take (length (run_of k ss)) ss"
    using takeWhile_eq_take [of "\<lambda>s. 6 \<le> length (nonzero s)" "take (256 - k) ss"] run_of_max [of k ss]
    unfolding run_of_def [symmetric] take_take by (simp add: min_absorb1)
  then show ?thesis by (metis append_take_drop_id)
qed

lemma concat_8: "\<forall>s \<in> set ss. length s = 8 \<Longrightarrow> length (concat ss) = 8 * length ss"
  by (induction ss) auto

text \<open>The last segment ends with \<open>pad\<close> zeros that are not part of the text.\<close>

lemma pack_ref_run:
  assumes "\<forall>t \<in> set (s # ss). length t = 8" "length (nonzero s) = 8"
  obtains more rest where "ss = more @ rest" "length more \<le> 255" "\<forall>t \<in> set more. 6 \<le> length (nonzero t)"
    "length (pack_ref (s # ss)) = 10 + 8 * length more + length (pack_ref rest)"
    "\<And>t ts. rest = t # ts \<Longrightarrow> length more < 255 \<Longrightarrow> length (nonzero t) < 6"
proof -
  let ?more = "run_of 1 ss" and ?rest = "drop (length (run_of 1 ss)) ss"
  have ss: "ss = ?more @ ?rest" by (rule run_of_prefix)
  have more: "length ?more \<le> 255" "\<forall>t \<in> set ?more. 6 \<le> length (nonzero t)" using run_of_max [of 1 ss] run_of_segs [of _ 1 ss] by auto
  have "length (concat ?more) = 8 * length ?more" using assms(1) run_of_segs [of _ 1 ss] by (intro concat_8) auto
  then have "length (pack_ref (s # ss)) = 10 + 8 * length ?more + length (pack_ref ?rest)"
    using assms by (simp add: pack_ref.simps Let_def)
  then show ?thesis using that [OF ss more] run_of_stops [of 1 ss] by simp
qed

lemma pack_ref_bound:
  assumes "\<forall>s \<in> set ss. length s = 8" "if ss = [] then pad = 0 else pad < 8 \<and> length (nonzero (last ss)) + pad \<le> 8"
  shows "length (pack_ref ss) + pad \<le> 8 * length ss + 2 * ((length ss + 255) div 256) + 2"
  using assms
proof (induction "length ss" arbitrary: ss rule: less_induct)
  case less
  let ?c = "\<lambda>m :: nat. (m + 255) div 256"
  have mono: "?c a \<le> ?c b" if "a \<le> b" for a b using that by (intro div_le_mono) simp
  show ?case
  proof (cases ss)
    case (Cons s ss')
    have IH: "length (pack_ref ts) + pad \<le> 8 * length ts + 2 * ?c (length ts) + 2"
      if "ss = us @ ts" "us \<noteq> []" "ts \<noteq> []" for us ts
      using less.hyps [of ts] less.prems that by (simp add: last_append split: if_splits)
    show ?thesis
    proof (cases "length (nonzero s) = 8")
      case False
      have "length (nonzero s) \<le> 8" using nonzero_length [of s] less.prems(1) Cons by simp
      then have "length (pack_ref ss) \<le> 8 + length (pack_ref ss')" using False Cons by (simp add: pack_ref_plain)
      then show ?thesis using IH [of "[s]" ss'] less.prems(2) mono [of "length ss'" "length ss"] False Cons
        by (cases "ss' = []") (simp_all add: pack_ref_plain)
    next
      case True
      obtain more rest where ss': "ss' = more @ rest" and more: "length more \<le> 255" "\<forall>t \<in> set more. 6 \<le> length (nonzero t)"
        and len: "length (pack_ref ss) = 10 + 8 * length more + length (pack_ref rest)"
        and stop: "\<And>t ts. rest = t # ts \<Longrightarrow> length more < 255 \<Longrightarrow> length (nonzero t) < 6"
        using pack_ref_run [of s ss'] less.prems(1) True Cons by metis
      have ss: "ss = (s # more) @ rest" using Cons ss' by simp
      show ?thesis
      proof (cases rest)
        case Nil
        have "6 \<le> length (nonzero (last ss))" using ss Nil more(2) True by (cases "more = []") simp_all
        then have "pad \<le> 2" using less.prems(2) ss by simp
        then show ?thesis using len Nil ss mono [of 1 "length ss"] by simp
      next
        case (Cons t ts)
        show ?thesis
        proof (cases "length more = 255")
          case True
          have "(512 + m) div 256 = 1 + (256 + m) div 256" for m :: nat using div_add_self1 [of 256 "256 + m"] by (simp add: add.assoc [symmetric])
          then show ?thesis using IH [OF ss] True Cons len ss by simp
        next
          case False
          then have t: "length (nonzero t) < 6" using stop [OF Cons] more(1) by simp
          then have "length (pack_ref rest) = 1 + length (nonzero t) + length (pack_ref ts)" using Cons by (simp add: pack_ref_plain)
          moreover have "ss = ((s # more) @ [t]) @ ts" using ss Cons by simp
          ultimately show ?thesis
            using IH [of "(s # more) @ [t]" ts] t len less.prems(2) mono [of "length ts" "length ss"] mono [of 1 "length ss"]
            by (cases "ts = []") simp_all
        qed
      qed
    qed
  qed (use less.prems in simp)
qed

lemma segs_of_Nil [simp]: "segs_of [] = []"
  by (simp add: segs_of.simps)

lemma segs_of_length: "length (segs_of s) = (length s + 7) div 8"
proof (induction s rule: segs_of.induct)
  case (1 s)
  have "(length s - 8 + 7) div 8 + 1 = (length s + 7) div 8" if "0 < length s"
  proof (cases "8 \<le> length s")
    case True
    then have "length s + 7 = (length s - 8 + 7) + 8" by simp
    then show ?thesis by (metis add.commute div_add_self2 zero_neq_numeral)
  next
    case False
    then have "length s - 8 + 7 = 7" by simp
    moreover have "(length s + 7) div 8 = 1" by (intro div_nat_eqI) (use that False in \<open>linarith, simp\<close>)
    ultimately show ?thesis by simp
  qed
  then show ?case using 1 by (cases "s = []") (simp_all add: segs_of.simps [of s])
qed

lemma segs_of_8: "t \<in> set (segs_of s) \<Longrightarrow> length t = 8"
  by (induction s rule: segs_of.induct) (subst (asm) (2) segs_of.simps, auto split: if_splits)

lemma segs_of_concat: "concat (segs_of s) = s @ replicate ((8 - length s mod 8) mod 8) NUL"
proof (induction s rule: segs_of.induct)
  case (1 s)
  show ?case
  proof (cases "8 \<le> length s")
    case True
    then have "length (drop 8 s) mod 8 = length s mod 8" "s \<noteq> []" by (auto simp: le_mod_geq [symmetric])
    then show ?thesis using 1 True by (simp add: segs_of.simps [of s])
  next
    case False
    then show ?thesis by (cases "s = []") (simp_all add: segs_of.simps)
  qed
qed

lemma segs_of_last: "s \<noteq> [] \<Longrightarrow> \<exists>t. last (segs_of s) = t @ replicate ((8 - length s mod 8) mod 8) NUL"
proof (induction s rule: segs_of.induct)
  case (1 s)
  show ?case
  proof (cases "8 < length s")
    case True
    then have "length (drop 8 s) mod 8 = length s mod 8" "drop 8 s \<noteq> []" by (auto simp: le_mod_geq [symmetric])
    moreover from this have "segs_of (drop 8 s) \<noteq> []" by (simp add: segs_of.simps [of "drop 8 s"])
    ultimately show ?thesis using 1 by (simp add: segs_of.simps [of s])
  next
    case False
    then have "(8 - length s mod 8) mod 8 = 8 - length s" using 1(2) by (cases "length s = 8") auto
    moreover have "last (segs_of s) = s @ replicate (8 - length s) NUL" using False 1(2) by (simp add: segs_of.simps [of s])
    ultimately show ?thesis by auto
  qed
qed

lemma pack_size_bound: "length (pack_ref (segs_of s)) \<le> (length s + 2047) div 2048 * 2 + length s + 2"
proof (cases "s = []")
  case False
  let ?pad = "(8 - length s mod 8) mod 8" and ?m = "length (segs_of s)"
  obtain t where t: "last (segs_of s) = t @ replicate ?pad NUL" using segs_of_last [OF False] by blast
  have ne: "segs_of s \<noteq> []" using False by (simp add: segs_of.simps [of s])
  then have "length t + ?pad = 8" using segs_of_8 [OF last_in_set] t by fastforce
  then have last8: "length (nonzero (last (segs_of s))) + ?pad \<le> 8" using nonzero_length [of t] t by (simp add: seg_padded)
  have "length (pack_ref (segs_of s)) + ?pad \<le> 8 * ?m + 2 * ((?m + 255) div 256) + 2"
    using last8 ne segs_of_8 by (intro pack_ref_bound) auto
  moreover have "8 * ?m = length s + ?pad" using arg_cong [OF segs_of_concat [of s], of length] concat_8 [of "segs_of s"] segs_of_8 by simp
  moreover have "(?m + 255) div 256 = (length s + 2047) div 2048"
  proof -
    have "?m + 255 = (length s + 2047) div 8" by (simp add: segs_of_length div_add_self2 [symmetric])
    then show ?thesis by (simp add: div_mult2_eq [symmetric])
  qed
  ultimately show ?thesis by simp
qed simp

section \<open>Unpacking\<close>

lemma seg_header_bit: "j < 32 \<Longrightarrow> bit (seg_header i s) j \<longleftrightarrow> i \<le> j \<and> j < i + length s \<and> s ! (j - i) \<noteq> NUL"
proof (induction s arbitrary: i)
  case (Cons c s)
  have one: "bit (push_bit i (1 :: u32)) j \<longleftrightarrow> j = i" using Cons.prems by (auto simp: push_bit_of_1 bit_exp_iff)
  show ?case
  proof (cases "j = i")
    case True
    then show ?thesis using Cons one by (auto simp: bit_or_iff)
  next
    case False
    then have "bit (seg_header i (c # s)) j \<longleftrightarrow> bit (seg_header (i + 1) s) j" using one by (simp add: bit_or_iff)
    then have eq: "bit (seg_header i (c # s)) j \<longleftrightarrow> i + 1 \<le> j \<and> j < i + 1 + length s \<and> s ! (j - (i + 1)) \<noteq> NUL"
      using Cons by blast
    show ?thesis
    proof (cases "i + 1 \<le> j")
      case True
      then have "(c # s) ! (j - i) = s ! (j - (i + 1))" by (simp add: nth_Cons')
      then show ?thesis unfolding eq using True by auto
    qed (use False eq in auto)
  qed
qed simp

lemma header_bit: "length s = 8 \<Longrightarrow> j < 8 \<Longrightarrow> bit (byte (chr (seg_header 0 s))) j \<longleftrightarrow> s ! j \<noteq> NUL"
  by (simp add: byte_chr bit_take_bit_iff seg_header_bit)

lemma header_not_ff:
  assumes "length s = 8" "length (nonzero s) \<noteq> 8"
  shows "chr (seg_header 0 s) \<noteq> CHR 0xFF"
proof
  assume "chr (seg_header 0 s) = CHR 0xFF"
  then have b: "bit (byte (CHR 0xFF)) j \<longleftrightarrow> s ! j \<noteq> NUL" if "j < 8" for j using header_bit [OF assms(1) that] by simp
  have "byte (CHR 0xFF) = 255" by (simp add: byte_def)
  moreover have "bit (255 :: u32) j" if "j < 8" for j
  proof -
    have "(255 :: u32) = mask 8" by (simp add: mask_eq_exp_minus_1)
    then show ?thesis using that by (simp only: bit_mask_iff) simp
  qed
  ultimately have "\<forall>c \<in> set s. c \<noteq> NUL" using b assms(1) by (simp add: all_set_conv_all_nth)
  then have "nonzero s = s" by (simp add: nonzero_def filter_id_conv)
  then show False using assms by simp
qed

lemma put_byte_ok:
  assumes "room \<le> length buffer"
  shows "\<exists>b p'. put_byte c buffer p (int room - int p) = Some (b, p', int room - int p') \<and> length b = length buffer \<and>
    (p + 1 \<le> room \<longrightarrow> p' = p + 1 \<and> take (p + 1) b = take p buffer @ [c])"
  using assms by (cases "p < room") (auto simp: put_byte_def take_Suc_conv_app_nth)

lemma unpack_seg_ok:
  assumes "room \<le> length buffer" "\<forall>j < length s. bit h j \<longleftrightarrow> s ! j \<noteq> NUL"
  shows "\<exists>b p'. unpack_seg (length s) h (nonzero s @ rest) (int (length (nonzero s @ rest))) buffer p (int room - int p) =
      Some (Inr (rest, b, p', int room - int p')) \<and>
    length b = length buffer \<and> (p + length s \<le> room \<longrightarrow> p' = p + length s \<and> take (p + length s) b = take p buffer @ s)"
  using assms
proof (induction s arbitrary: h buffer p)
  case (Cons c s)
  have h0: "bit h 0 \<longleftrightarrow> c \<noteq> NUL" using Cons.prems(2) by (auto dest: spec [of _ 0])
  have h1: "\<forall>j < length s. bit (drop_bit 1 h) j \<longleftrightarrow> s ! j \<noteq> NUL" using Cons.prems(2) by (auto simp: bit_drop_bit_eq dest: spec [of _ "Suc _"])
  obtain b1 p1 where 1: "put_byte c buffer p (int room - int p) = Some (b1, p1, int room - int p1)" "length b1 = length buffer"
      "p + 1 \<le> room \<longrightarrow> p1 = p + 1 \<and> take (p + 1) b1 = take p buffer @ [c]"
    using put_byte_ok [OF Cons.prems(1)] by blast
  obtain b2 p2 where 2: "unpack_seg (length s) (drop_bit 1 h) (nonzero s @ rest) (int (length (nonzero s @ rest))) b1 p1 (int room - int p1) =
        Some (Inr (rest, b2, p2, int room - int p2))"
      "length b2 = length b1" "p1 + length s \<le> room \<longrightarrow> p2 = p1 + length s \<and> take (p1 + length s) b2 = take p1 b1 @ s"
    using Cons.IH [OF _ h1, of b1 p1] Cons.prems(1) 1(2) by auto
  have "unpack_seg (length (c # s)) h (nonzero (c # s) @ rest) (int (length (nonzero (c # s) @ rest))) buffer p (int room - int p) =
      Some (Inr (rest, b2, p2, int room - int p2))"
    using h0 1(1) 2(1) by (cases "c = NUL") simp_all
  moreover have "p2 = p + length (c # s) \<and> take (p + length (c # s)) b2 = take p buffer @ c # s" if "p + length (c # s) \<le> room"
    using that 1(3) 2(3) by auto
  ultimately show ?case using 1(2) 2(2) by auto
qed simp

lemma unpack_run:
  assumes "room \<le> length buffer" "length body = 8 * m + 8" "m \<le> 255"
  shows "\<exists>b. unpack_loop (CHR 0xFF # chr (word_of_nat m) # body @ rest) buffer p (int room - int p) sz =
      unpack_loop rest b (p + length body) (int room - int (p + length body)) (sz + length body) \<and>
    length b = length buffer \<and> (p + length body \<le> room \<longrightarrow> take (p + length body) b = take p buffer @ body)"
proof -
  have "unat (byte (chr (word_of_nat m))) = m" using assms(3) by (simp add: byte_chr unat_low_byte unat_of_nat)
  then have len: "(unat (byte (chr (word_of_nat m))) + 1) * 8 = length body" using assms(2) by simp
  let ?b = "if int (length body) \<le> int room - int p then take p buffer @ body @ drop (p + length body) buffer else buffer"
  have "unpack_loop (CHR 0xFF # chr (word_of_nat m) # body @ rest) buffer p (int room - int p) sz =
      unpack_loop rest ?b (p + length body) (int room - int (p + length body)) (sz + length body)"
    using assms(1) len by (simp add: Let_def algebra_simps)
  moreover have "length ?b = length buffer" "p + length body \<le> room \<longrightarrow> take (p + length body) ?b = take p buffer @ body"
    using assms(1) by auto
  ultimately show ?thesis by blast
qed

lemma unpack_plain:
  assumes "room \<le> length buffer" "length s = 8" "length (nonzero s) \<noteq> 8"
  shows "\<exists>b p'. unpack_loop (chr (seg_header 0 s) # nonzero s @ rest) buffer p (int room - int p) sz =
      unpack_loop rest b p' (int room - int p') (sz + 8) \<and>
    length b = length buffer \<and> (p + 8 \<le> room \<longrightarrow> p' = p + 8 \<and> take (p + 8) b = take p buffer @ s)"
proof -
  obtain b p' where "unpack_seg 8 (byte (chr (seg_header 0 s))) (nonzero s @ rest) (int (length (nonzero s @ rest))) buffer p (int room - int p) =
        Some (Inr (rest, b, p', int room - int p'))" "length b = length buffer"
      "p + 8 \<le> room \<longrightarrow> p' = p + 8 \<and> take (p + 8) b = take p buffer @ s"
    using unpack_seg_ok [OF assms(1), of s "byte (chr (seg_header 0 s))" rest p] header_bit [OF assms(2)] assms(2) by auto
  then show ?thesis using header_not_ff [OF assms(2,3)] by auto
qed

lemma unpack_ref:
  assumes "room \<le> length buffer" "\<forall>s \<in> set ss. length s = 8"
  shows "\<exists>b. unpack_loop (pack_ref ss) buffer p (int room - int p) sz = Some (int (sz + 8 * length ss), b) \<and> length b = length buffer \<and>
    (p + 8 * length ss \<le> room \<longrightarrow> take (p + 8 * length ss) b = take p buffer @ concat ss)"
  using assms
proof (induction ss arbitrary: buffer p sz rule: pack_ref.induct)
  case (2 s ss)
  show ?case
  proof (cases "length (nonzero s) = 8")
    case True
    define more rest where "more = run_of 1 ss" and "rest = drop (length more) ss"
    have ss: "ss = more @ rest" unfolding more_def rest_def by (rule run_of_prefix)
    have body: "length (s @ concat more) = 8 * length more + 8" using concat_8 [of more] 2(4) ss by simp
    have m: "length more \<le> 255" using run_of_max [of 1 ss] by (simp add: more_def)
    have pack: "pack_ref (s # ss) = CHR 0xFF # chr (word_of_nat (length more)) # (s @ concat more) @ pack_ref rest"
      using True by (simp add: pack_ref.simps Let_def more_def rest_def)
    let ?n = "length (s @ concat more)"
    obtain b1 where 1: "unpack_loop (pack_ref (s # ss)) buffer p (int room - int p) sz =
          unpack_loop (pack_ref rest) b1 (p + ?n) (int room - int (p + ?n)) (sz + ?n)" "length b1 = length buffer"
        "p + ?n \<le> room \<longrightarrow> take (p + ?n) b1 = take p buffer @ s @ concat more"
      using unpack_run [OF 2(3) body m] unfolding pack by blast
    obtain b where b: "unpack_loop (pack_ref rest) b1 (p + ?n) (int room - int (p + ?n)) (sz + ?n) = Some (int (sz + ?n + 8 * length rest), b)"
        "length b = length b1" "p + ?n + 8 * length rest \<le> room \<longrightarrow> take (p + ?n + 8 * length rest) b = take (p + ?n) b1 @ concat rest"
      using 2(1) [OF True more_def, folded rest_def, of b1 "p + ?n" "sz + ?n"] 2(3,4) ss 1(2) by auto
    have n8: "?n + 8 * length rest = 8 * length (s # ss)" unfolding body ss by simp
    have tot: "p + ?n + 8 * length rest = p + 8 * length (s # ss)" "sz + ?n + 8 * length rest = sz + 8 * length (s # ss)"
      unfolding n8 [symmetric] by (rule add.assoc)+
    have "take (p + ?n) b1 @ concat rest = take p buffer @ concat (s # ss)" if "p + 8 * length (s # ss) \<le> room"
      using 1(3) that unfolding tot(1) [symmetric] by (simp add: ss)
    then show ?thesis using 1(1,2) b [unfolded tot] by (intro exI [of _ b] conjI impI) (simp_all only:)
  next
    case False
    then obtain b1 p1 where 1: "unpack_loop (pack_ref (s # ss)) buffer p (int room - int p) sz =
          unpack_loop (pack_ref ss) b1 p1 (int room - int p1) (sz + 8)" "length b1 = length buffer"
        "p + 8 \<le> room \<longrightarrow> p1 = p + 8 \<and> take (p + 8) b1 = take p buffer @ s"
      using unpack_plain [OF 2(3) _ False, of "pack_ref ss" p sz] 2(4) by (auto simp: pack_ref_plain)
    obtain b where b: "unpack_loop (pack_ref ss) b1 p1 (int room - int p1) (sz + 8) = Some (int (sz + 8 + 8 * length ss), b)" "length b = length b1"
        "p1 + 8 * length ss \<le> room \<longrightarrow> take (p1 + 8 * length ss) b = take p1 b1 @ concat ss"
      using 2(2) [OF False, of b1 p1 "sz + 8"] 2(3,4) 1(2) by auto
    have "take (p + 8 * length (s # ss)) b = take p buffer @ concat (s # ss)" if "p + 8 * length (s # ss) \<le> room"
    proof -
      have "p1 = p + 8" "take p1 b1 = take p buffer @ s" using 1(3) that by auto
      then show ?thesis using b(3) that by (simp add: add.assoc)
    qed
    then show ?thesis using 1(1,2) b(1,2) by simp
  qed
qed simp

section \<open>Calls from Lua\<close>

lemma expand_size_ok: "0 < osz \<Longrightarrow> osz < nsz \<Longrightarrow> nsz \<le> 2 ^ 23 \<Longrightarrow> \<exists>k. expand_size osz nsz = Some k \<and> nsz \<le> k \<and> k \<le> 2 ^ 24"
proof (induction osz nsz rule: expand_size.induct)
  case (1 osz nsz)
  then have "\<not> (osz = 0 \<or> 2 ^ 31 \<le> 2 * osz)" by simp
  then show ?case using 1 by (cases "2 * osz < nsz") (simp_all add: expand_size.simps [of osz nsz])
qed

lemma expand_buffer_ok:
  assumes "output \<noteq> []" "length output < nsz" "nsz \<le> 2 ^ 23"
  shows "\<exists>b. expand_buffer (length output) nsz = Some (Return b) \<and> nsz \<le> length b"
  using expand_size_ok [of "length output" nsz] assms by (auto simp: expand_buffer_def ENCODE_MAXSIZE_def)

lemma lpack_ok:
  assumes "fitting s" "length s \<le> 2 ^ 22" "output \<noteq> []"
  shows "\<exists>out1. lpack_sproto s output = Some (Return (pack_ref (segs_of s), out1))"
proof -
  let ?max = "(length s + 2047) div 2048 * 2 + length s + 2"
  have max: "?max \<le> 2 ^ 23" using assms(2) by simp
  have enough: "\<exists>b. (if length output < ?max then expand_buffer (length output) ?max else Some (Return output)) = Some (Return b) \<and> ?max \<le> length b"
    using expand_buffer_ok [OF assms(3) _ max] by (cases "length output < ?max") auto
  then obtain b where b: "(if length output < ?max then expand_buffer (length output) ?max else Some (Return output)) = Some (Return b)" "?max \<le> length b"
    by blast
  obtain b' where b': "sproto_pack s b ?max = Some (length (pack_ref (segs_of s)), b')" "take (length (pack_ref (segs_of s))) b' = pack_ref (segs_of s)"
    using sproto_pack_ok [OF assms(1) b(2)] pack_size_bound [of s] by blast
  show ?thesis
    unfolding lpack_sproto_def Let_def b(1) using b' assms(2) pack_size_bound [of s] by simp
qed

lemma lunpack_ok:
  assumes "length s \<le> 2 ^ 22" "output \<noteq> []"
  shows "\<exists>out1. lunpack_sproto (pack_ref (segs_of s)) output = Some (Return (concat (segs_of s), out1))"
proof -
  let ?p = "pack_ref (segs_of s)" and ?r = "8 * length (segs_of s)"
  have eights: "\<forall>t \<in> set (segs_of s). length t = 8" using segs_of_8 by blast
  have r: "?r \<le> 2 ^ 23" using assms(1) by (simp add: segs_of_length)
  have p: "length ?p < 2 ^ 31" using pack_size_bound [of s] assms(1) by simp
  have ok: "\<exists>b'. sproto_unpack ?p b room = Some (int ?r, b') \<and> length b' = length b \<and> (?r \<le> room \<longrightarrow> take ?r b' = concat (segs_of s))"
    if "room \<le> length b" for b room
    using unpack_ref [OF that eights, of 0 0] by (auto simp: sproto_unpack_def)
  obtain b1 where b1: "sproto_unpack ?p output (length output) = Some (int ?r, b1)" "length b1 = length output"
      "?r \<le> length output \<longrightarrow> take ?r b1 = concat (segs_of s)" using ok by blast
  show ?thesis
  proof (cases "length output < ?r")
    case True
    obtain b where b: "expand_buffer (length output) ?r = Some (Return b)" "?r \<le> length b" using expand_buffer_ok [OF assms(2) True r] by blast
    obtain b2 where "sproto_unpack ?p b ?r = Some (int ?r, b2)" "take ?r b2 = concat (segs_of s)" using ok [OF b(2)] by blast
    then show ?thesis using b1 b p True unfolding lunpack_sproto_def by (simp add: nat_mult_distrib)
  next
    case False
    then show ?thesis using b1 p unfolding lunpack_sproto_def by (simp add: nat_mult_distrib)
  qed
qed





end
