(* ===== verification/Stm.thy ===== *)
theory Stm
  imports Prelude
begin

text \<open>
  \<open>lib/stm/lua-stm.c\<close>: one object that a writer updates and any number of readers in other services
  read. The object and every copy of a message count their references. The model has one
  object; a copy and its message are freed together. An access to freed memory and a failing
  assertion are \<open>None\<close>. The sections that the code runs under the lock of the object are one
  step each; the end of \<open>stm_releasereader\<close>, after the reference has been given up, is a step of its own.
\<close>

section \<open>Memory\<close>

record stm_copy =
  sc_reference :: i32
  sc_sz :: u32
  sc_msg :: string

record stm_object =
  so_reference :: i32
  so_copy :: ptr

record stm_mem =
  sm_obj :: "stm_object option"
  sm_copies :: "ptr \<rightharpoonup> stm_copy"
  sm_next :: ptr

section \<open>Operations\<close>

definition stm_newcopy :: "string \<Rightarrow> stm_mem \<Rightarrow> ptr \<times> stm_mem" where
  "stm_newcopy msg m =
     (sm_next m, m\<lparr>sm_copies := (sm_copies m)(sm_next m \<mapsto> \<lparr>sc_reference = 1, sc_sz = word_of_nat (length msg), sc_msg = msg\<rparr>),
        sm_next := sm_next m + 1\<rparr>)"

definition stm_new :: "string \<Rightarrow> stm_mem \<Rightarrow> stm_mem" where
  "stm_new msg m = (let (copy, m) = stm_newcopy msg m in m\<lparr>sm_obj := Some \<lparr>so_reference = 1, so_copy = copy\<rparr>\<rparr>)"

definition stm_releasecopy :: "ptr \<Rightarrow> stm_mem \<Rightarrow> stm_mem option" where
  "stm_releasecopy copy m =
     (if copy = NULL then Some m
      else do {
        c \<leftarrow> sm_copies m copy;
        let ref = sc_reference c - 1;
        Some (m\<lparr>sm_copies := (sm_copies m)(copy := (if ref = 0 then None else Some (c\<lparr>sc_reference := ref\<rparr>)))\<rparr>) })"

definition stm_release :: "stm_mem \<Rightarrow> stm_mem option" where
  "stm_release m = do {
     obj \<leftarrow> sm_obj m;
     guard (so_copy obj \<noteq> NULL);
     m1 \<leftarrow> stm_releasecopy (so_copy obj) m;
     let ref = so_reference obj - 1;
     Some (m1\<lparr>sm_obj := (if 0 <s ref then Some \<lparr>so_reference = ref, so_copy = NULL\<rparr> else None)\<rparr>) }"

definition stm_releasereader :: "stm_mem \<Rightarrow> (bool \<times> stm_mem) option" where
  \<comment> \<open>up to the unlocking, which is left out when the object is freed (\<open>True\<close>)\<close>
  "stm_releasereader m = do {
     obj \<leftarrow> sm_obj m;
     let ref = so_reference obj - 1;
     if ref = 0 then do { guard (so_copy obj = NULL); Some (True, m\<lparr>sm_obj := None\<rparr>) }
     else Some (False, m\<lparr>sm_obj := Some (obj\<lparr>so_reference := ref\<rparr>)\<rparr>) }"

definition stm_runlock :: "stm_mem \<Rightarrow> stm_mem option" where
  \<comment> \<open>the lock is in the object\<close>
  "stm_runlock m = do { obj \<leftarrow> sm_obj m; Some m }"

definition stm_grab :: "stm_mem \<Rightarrow> stm_mem option" where
  "stm_grab m = do {
     obj \<leftarrow> sm_obj m;
     guard (0 <s so_reference obj);
     Some (m\<lparr>sm_obj := Some (obj\<lparr>so_reference := so_reference obj + 1\<rparr>)\<rparr>) }"

definition stm_copy_of :: "stm_mem \<Rightarrow> (ptr \<times> stm_mem) option" where
  "stm_copy_of m = do {
     obj \<leftarrow> sm_obj m;
     let ret = so_copy obj;
     if ret = NULL then Some (ret, m)
     else do {
       c \<leftarrow> sm_copies m ret;
       guard (0 <s sc_reference c);
       Some (ret, m\<lparr>sm_copies := (sm_copies m)(ret \<mapsto> c\<lparr>sc_reference := sc_reference c + 1\<rparr>)\<rparr>) } }"

definition stm_swap :: "string \<Rightarrow> stm_mem \<Rightarrow> (ptr \<times> stm_mem) option" where
  "stm_swap msg m =
     (let (copy, m) = stm_newcopy msg m
      in do {
        obj \<leftarrow> sm_obj m;
        Some (so_copy obj, m\<lparr>sm_obj := Some (obj\<lparr>so_copy := copy\<rparr>)\<rparr>) })"

definition stm_update :: "string \<Rightarrow> stm_mem \<Rightarrow> stm_mem option" where
  "stm_update msg m = do { (oldcopy, m) \<leftarrow> stm_swap msg m; stm_releasecopy oldcopy m }"

section \<open>Calls from Lua\<close>

definition lread_done :: "ptr \<Rightarrow> ptr \<Rightarrow> stm_mem \<Rightarrow> ((string \<times> u32) option \<times> ptr \<times> stm_mem) option" where
  \<comment> \<open>\<open>lread\<close> after \<open>stm_copy\<close>: what the function of the caller gets, if anything, and the new \<open>lastcopy\<close>\<close>
  "lread_done lastcopy copy m =
     (if copy = lastcopy then do { m \<leftarrow> stm_releasecopy copy m; Some (None, lastcopy, m) }
      else do {
        m \<leftarrow> stm_releasecopy lastcopy m;
        if copy = NULL then Some (None, copy, m)
        else do { c \<leftarrow> sm_copies m copy; Some (Some (sc_msg c, sc_sz c), copy, m) } })"

definition lread_stm :: "ptr \<Rightarrow> stm_mem \<Rightarrow> ((string \<times> u32) option \<times> ptr \<times> stm_mem) option" where
  "lread_stm lastcopy m = do { (copy, m) \<leftarrow> stm_copy_of m; lread_done lastcopy copy m }"

definition ldeletereader :: "ptr \<Rightarrow> stm_mem \<Rightarrow> stm_mem option" where
  "ldeletereader lastcopy m = do {
     (freed, m) \<leftarrow> stm_releasereader m;
     m \<leftarrow> (if freed then Some m else stm_runlock m);
     stm_releasecopy lastcopy m }"

section \<open>Threads\<close>

datatype writer_pc = WIdle | WRelease ptr | WGone

datatype reader_pc = RNone | RIdle ptr | RHave ptr ptr | RUnlock ptr | RDrop ptr | RGone

record stm_state =
  \<comment> \<open>\<open>ss_flight\<close> are the pointers of \<open>lcopy\<close> that have not arrived at \<open>lnewreader\<close>; \<open>ss_latest\<close> is the text of the last update\<close>
  ss_mem :: stm_mem
  ss_writer :: writer_pc
  ss_flight :: nat
  ss_reader :: "nat \<Rightarrow> reader_pc"
  ss_latest :: string

definition stm_start :: "string \<Rightarrow> stm_state" where
  \<comment> \<open>after \<open>lnewwriter\<close>\<close>
  "stm_start msg = \<lparr>ss_mem = stm_new msg \<lparr>sm_obj = None, sm_copies = Map.empty, sm_next = 1\<rparr>, ss_writer = WIdle, ss_flight = 0,
     ss_reader = (\<lambda>i. RNone), ss_latest = msg\<rparr>"

definition unlocked :: "nat \<Rightarrow> stm_state \<Rightarrow> bool" where
  \<comment> \<open>no reader holds the lock\<close>
  "unlocked n s \<longleftrightarrow> (\<forall>i<n. \<forall>l. ss_reader s i \<noteq> RUnlock l)"

inductive stm_step :: "nat \<Rightarrow> stm_state \<Rightarrow> stm_state \<Rightarrow> bool" for n where
  s_update: "ss_writer s = WIdle \<Longrightarrow> unlocked n s \<Longrightarrow> stm_swap msg (ss_mem s) = Some (old, m) \<Longrightarrow>
    stm_step n s (s\<lparr>ss_mem := m, ss_writer := WRelease old, ss_latest := msg\<rparr>)"
| s_updated: "ss_writer s = WRelease old \<Longrightarrow> stm_releasecopy old (ss_mem s) = Some m \<Longrightarrow>
    stm_step n s (s\<lparr>ss_mem := m, ss_writer := WIdle\<rparr>)"
| s_delete: "ss_writer s = WIdle \<Longrightarrow> unlocked n s \<Longrightarrow> stm_release (ss_mem s) = Some m \<Longrightarrow>
    stm_step n s (s\<lparr>ss_mem := m, ss_writer := WGone\<rparr>)"
| s_grab: "ss_writer s = WIdle \<Longrightarrow> ss_flight s < 2 ^ 30 \<Longrightarrow> stm_grab (ss_mem s) = Some m \<Longrightarrow>
    stm_step n s (s\<lparr>ss_mem := m, ss_flight := ss_flight s + 1\<rparr>)"
| s_newreader: "0 < ss_flight s \<Longrightarrow> i < n \<Longrightarrow> ss_reader s i = RNone \<Longrightarrow>
    stm_step n s (s\<lparr>ss_flight := ss_flight s - 1, ss_reader := (ss_reader s)(i := RIdle NULL)\<rparr>)"
| s_copy: "i < n \<Longrightarrow> ss_reader s i = RIdle l \<Longrightarrow> stm_copy_of (ss_mem s) = Some (c, m) \<Longrightarrow>
    stm_step n s (s\<lparr>ss_mem := m, ss_reader := (ss_reader s)(i := RHave l c)\<rparr>)"
| s_read: "i < n \<Longrightarrow> ss_reader s i = RHave l c \<Longrightarrow> lread_done l c (ss_mem s) = Some (r, l', m) \<Longrightarrow>
    stm_step n s (s\<lparr>ss_mem := m, ss_reader := (ss_reader s)(i := RIdle l')\<rparr>)"
| s_drop: "i < n \<Longrightarrow> ss_reader s i = RIdle l \<Longrightarrow> stm_releasereader (ss_mem s) = Some (freed, m) \<Longrightarrow>
    stm_step n s (s\<lparr>ss_mem := m, ss_reader := (ss_reader s)(i := (if freed then RDrop l else RUnlock l))\<rparr>)"
| s_unlock: "i < n \<Longrightarrow> ss_reader s i = RUnlock l \<Longrightarrow>
    stm_step n s (s\<lparr>ss_reader := (ss_reader s)(i := RDrop l)\<rparr>)"
| s_dropped: "i < n \<Longrightarrow> ss_reader s i = RDrop l \<Longrightarrow> stm_releasecopy l (ss_mem s) = Some m \<Longrightarrow>
    stm_step n s (s\<lparr>ss_mem := m, ss_reader := (ss_reader s)(i := RGone)\<rparr>)"

end
