(* ===== verification/StmProps.thy ===== *)
theory StmProps
  imports Stm
begin

text \<open>
  Shared objects are memory safe: whatever the order in which the writer and the readers take their
  steps, every reference count counts the references, no copy is used after it was freed, no
  assertion fails, and what is left when all are gone is nothing.
\<close>

section \<open>References\<close>

definition one_if :: "bool \<Rightarrow> nat" where
  "one_if b = (if b then 1 else 0)"

fun reader_refs :: "ptr \<Rightarrow> reader_pc \<Rightarrow> nat" where
  "reader_refs c (RIdle l) = one_if (l = c)"
| "reader_refs c (RHave l k) = one_if (l = c) + one_if (k = c)"
| "reader_refs c (RUnlock l) = one_if (l = c)"
| "reader_refs c (RDrop l) = one_if (l = c)"
| "reader_refs c _ = 0"

fun writer_refs :: "ptr \<Rightarrow> writer_pc \<Rightarrow> nat" where
  "writer_refs c (WRelease l) = one_if (l = c)"
| "writer_refs c _ = 0"

fun reader_handle :: "reader_pc \<Rightarrow> nat" where
  "reader_handle (RIdle l) = 1"
| "reader_handle (RHave l k) = 1"
| "reader_handle _ = 0"

definition object_refs :: "ptr \<Rightarrow> stm_object option \<Rightarrow> nat" where
  "object_refs c obj = (case obj of None \<Rightarrow> 0 | Some ob \<Rightarrow> one_if (so_copy ob = c))"

definition refs :: "nat \<Rightarrow> stm_state \<Rightarrow> ptr \<Rightarrow> nat" where
  "refs n s c = object_refs c (sm_obj (ss_mem s)) + writer_refs c (ss_writer s) + (\<Sum>i<n. reader_refs c (ss_reader s i))"

definition handles :: "nat \<Rightarrow> stm_state \<Rightarrow> nat" where
  "handles n s = one_if (ss_writer s \<noteq> WGone) + ss_flight s + (\<Sum>i<n. reader_handle (ss_reader s i))"

lemma sum_moved:
  fixes f :: "'a \<Rightarrow> nat" and i n :: nat
  assumes "i < n"
  shows "(\<Sum>j<n. f ((g(i := x)) j)) + f (g i) = (\<Sum>j<n. f (g j)) + f x"
proof -
  have "(\<Sum>j<n. f ((g(i := x)) j)) = f x + (\<Sum>j \<in> {..<n} - {i}. f ((g(i := x)) j))"
    using sum.remove [of "{..<n}" i "\<lambda>j. f ((g(i := x)) j)"] assms by simp
  moreover have "(\<Sum>j \<in> {..<n} - {i}. f ((g(i := x)) j)) = (\<Sum>j \<in> {..<n} - {i}. f (g j))" by (intro sum.cong) auto
  moreover have "(\<Sum>j<n. f (g j)) = f (g i) + (\<Sum>j \<in> {..<n} - {i}. f (g j))" using sum.remove [of "{..<n}" i "\<lambda>j. f (g j)"] assms by simp
  ultimately show ?thesis by simp
qed

lemma sum_small: "(\<And>i. f i \<le> k) \<Longrightarrow> (\<Sum>i<n. f i) \<le> k * n" for f :: "nat \<Rightarrow> nat"
  using sum_bounded_above [of "{..<n}" f k] by (simp add: mult.commute)

lemma refs_small: "refs n s c \<le> 2 + 2 * n"
proof -
  have "reader_refs c pc \<le> 2" for pc by (cases pc) (simp_all add: one_if_def)
  then have "(\<Sum>i<n. reader_refs c (ss_reader s i)) \<le> 2 * n" by (rule sum_small)
  moreover have "object_refs c ob \<le> 1" for ob by (cases ob) (simp_all add: object_refs_def one_if_def)
  moreover have "writer_refs c w \<le> 1" for w by (cases w) (simp_all add: one_if_def)
  ultimately show ?thesis unfolding refs_def by (metis add_mono one_add_one)
qed

lemma handles_small: "handles n s \<le> 1 + ss_flight s + n"
proof -
  have "reader_handle pc \<le> 1" for pc by (cases pc) simp_all
  then have "(\<Sum>i<n. reader_handle (ss_reader s i)) \<le> 1 * n" by (rule sum_small)
  then show ?thesis by (simp add: handles_def one_if_def)
qed

section \<open>Counted copies\<close>

definition counted :: "stm_copy option \<Rightarrow> nat \<Rightarrow> bool" where
  "counted copy f \<longleftrightarrow> (case copy of None \<Rightarrow> f = 0 | Some k \<Rightarrow> 0 < f \<and> f < 2 ^ 31 \<and> sc_reference k = word_of_nat f)"

lemma counted_simps [simp]:
  "counted None f \<longleftrightarrow> f = 0" "counted (Some k) f \<longleftrightarrow> 0 < f \<and> f < 2 ^ 31 \<and> sc_reference k = word_of_nat f"
  by (simp_all add: counted_def)

definition counts :: "(ptr \<rightharpoonup> stm_copy) \<Rightarrow> (ptr \<Rightarrow> nat) \<Rightarrow> bool" where
  "counts cs F \<longleftrightarrow> (\<forall>c. c \<noteq> 0 \<longrightarrow> counted (cs c) (F c))"

lemma counts_cong: "counts cs F \<Longrightarrow> (\<And>c. c \<noteq> 0 \<Longrightarrow> F c = G c) \<Longrightarrow> counts cs G"
  unfolding counts_def by metis

lemma counts_at: "counts cs F \<Longrightarrow> c \<noteq> 0 \<Longrightarrow> counted (cs c) (F c)"
  by (simp add: counts_def)

lemma counts_there: "counts cs F \<Longrightarrow> c \<noteq> 0 \<Longrightarrow> 0 < F c \<Longrightarrow>
  \<exists>k. cs c = Some k \<and> sc_reference k = word_of_nat (F c) \<and> F c < 2 ^ 31"
  using counts_at [of cs F c] by (cases "cs c") simp_all

lemma releasecopy_ok:
  assumes cs: "counts (sm_copies m) F" and l: "l = 0 \<or> 0 < F l"
  shows "\<exists>cs'. stm_releasecopy l m = Some (m\<lparr>sm_copies := cs'\<rparr>) \<and> counts cs' (F(l := F l - 1)) \<and>
    (\<forall>c k. sm_copies m c = Some k \<longrightarrow> (c \<noteq> l \<or> l = 0 \<or> 1 < F c) \<longrightarrow> (\<exists>k'. cs' c = Some k' \<and> sc_msg k' = sc_msg k \<and> sc_sz k' = sc_sz k)) \<and>
    dom cs' \<subseteq> dom (sm_copies m)"
proof (cases "l = 0")
  case True
  then have "counts (sm_copies m) (F(l := F l - 1))" by (intro counts_cong [OF cs]) simp
  then show ?thesis using True by (intro exI [of _ "sm_copies m"]) (simp add: stm_releasecopy_def)
next
  case False
  then obtain k where k: "sm_copies m l = Some k" "sc_reference k = word_of_nat (F l)" "F l < 2 ^ 31"
    using counts_there [OF cs] l by blast
  have F: "0 < F l" using l False by simp
  then have ref: "sc_reference k - 1 = word_of_nat (F l - 1)" using k(2) by (simp add: of_nat_diff)
  have zero: "(word_of_nat (F l - 1) :: i32) = 0 \<longleftrightarrow> F l = 1"
  proof -
    have "unat (word_of_nat (F l - 1) :: i32) = F l - 1" using k(3) by (simp add: unat_of_nat take_bit_nat_eq_self_iff)
    then show ?thesis using F by (metis One_nat_def Suc_pred unat_eq_zero diff_is_0_eq' le_refl of_nat_0)
  qed
  have z: "sc_reference k = 1 \<longleftrightarrow> F l = 1" using zero ref by (metis right_minus_eq)
  let ?cs = "(sm_copies m)(l := (if F l = 1 then None else Some (k\<lparr>sc_reference := word_of_nat (F l - 1)\<rparr>)))"
  have "stm_releasecopy l m = Some (m\<lparr>sm_copies := ?cs\<rparr>)" using False k(1) by (simp add: stm_releasecopy_def Let_def z ref)
  moreover have "counts ?cs (F(l := F l - 1))" using cs False F k(3) by (auto simp: counts_def)
  moreover have "\<exists>k'. ?cs c = Some k' \<and> sc_msg k' = sc_msg k2 \<and> sc_sz k' = sc_sz k2"
    if "sm_copies m c = Some k2" "c \<noteq> l \<or> l = 0 \<or> 1 < F c" for c k2 using that False k(1) by auto
  moreover have "dom ?cs \<subseteq> dom (sm_copies m)" using k(1) by auto
  ultimately show ?thesis by blast
qed

lemma copy_counted:
  assumes cs: "counts cs F" and c: "cs c = Some k" "c \<noteq> 0" "F c + 1 < 2 ^ 31"
  shows "0 <s sc_reference k" "counts (cs(c \<mapsto> k\<lparr>sc_reference := sc_reference k + 1\<rparr>)) (F(c := F c + 1))"
proof -
  have k: "0 < F c" "sc_reference k = word_of_nat (F c)" using counts_at [OF cs c(2)] c(1) by simp_all
  have "sint (word_of_nat (F c) :: i32) = int (F c)" using c(3) int_word_sint [of "int (F c)", where 'a = 32] by simp
  then show "0 <s sc_reference k" using k by (simp add: word_sless_alt)
  show "counts (cs(c \<mapsto> k\<lparr>sc_reference := sc_reference k + 1\<rparr>)) (F(c := F c + 1))"
    using cs c k by (auto simp: counts_def add.commute)
qed

section \<open>The invariant\<close>

definition object_ok :: "nat \<Rightarrow> stm_state \<Rightarrow> bool" where
  "object_ok n s \<longleftrightarrow>
     (case sm_obj (ss_mem s) of
        None \<Rightarrow> handles n s = 0
      | Some ob \<Rightarrow> 0 < handles n s \<and> so_reference ob = word_of_nat (handles n s) \<and> (so_copy ob = 0 \<longleftrightarrow> ss_writer s = WGone) \<and>
          (so_copy ob \<noteq> 0 \<longrightarrow> (\<exists>k. sm_copies (ss_mem s) (so_copy ob) = Some k \<and> sc_msg k = ss_latest s \<and>
             sc_sz k = word_of_nat (length (ss_latest s)))))"

definition stm_inv :: "nat \<Rightarrow> stm_state \<Rightarrow> bool" where
  "stm_inv n s \<longleftrightarrow> n < 2 ^ 29 \<and> ss_flight s \<le> 2 ^ 30 \<and> counts (sm_copies (ss_mem s)) (refs n s) \<and> object_ok n s \<and>
     0 < sm_next (ss_mem s) \<and> (\<forall>c \<in> dom (sm_copies (ss_mem s)). 0 < c \<and> c < sm_next (ss_mem s))"

lemma inv_parts:
  assumes "stm_inv n s"
  shows "n < 2 ^ 29" "ss_flight s \<le> 2 ^ 30" "counts (sm_copies (ss_mem s)) (refs n s)" "object_ok n s" "0 < sm_next (ss_mem s)"
    "\<And>c k. sm_copies (ss_mem s) c = Some k \<Longrightarrow> 0 < c \<and> c < sm_next (ss_mem s)" "refs n s c + 1 < 2 ^ 31" "handles n s + 1 < 2 ^ 31"
  using assms refs_small [of n s c] handles_small [of n s] by (auto simp: stm_inv_def)

lemma refs_moved:
  assumes "i < n" "ss_reader s i = pc" "sm_obj m = sm_obj (ss_mem s)"
  shows "refs n (s\<lparr>ss_mem := m, ss_reader := (ss_reader s)(i := pc')\<rparr>) c + reader_refs c pc = refs n s c + reader_refs c pc'"
  using sum_moved [OF assms(1), of "reader_refs c" "ss_reader s" pc'] assms(2,3) by (simp add: refs_def)

lemma handles_moved:
  assumes "i < n" "ss_reader s i = pc"
  shows "handles n (s\<lparr>ss_mem := m, ss_reader := (ss_reader s)(i := pc')\<rparr>) + reader_handle pc = handles n s + reader_handle pc'"
  using sum_moved [OF assms(1), of reader_handle "ss_reader s" pc'] assms(2) by (simp add: handles_def)

lemma reader_counts:
  assumes "i < n"
  shows "object_refs c (sm_obj (ss_mem s)) + writer_refs c (ss_writer s) + reader_refs c (ss_reader s i) \<le> refs n s c"
    "one_if (ss_writer s \<noteq> WGone) + ss_flight s + reader_handle (ss_reader s i) \<le> handles n s"
  unfolding refs_def handles_def using assms
  by (auto intro!: member_le_sum [where f = "\<lambda>i. reader_refs c (ss_reader s i)"] member_le_sum [where f = "\<lambda>i. reader_handle (ss_reader s i)"])

text \<open>A step that gives up one reference to a copy and keeps the object.\<close>

lemma keep_object:
  assumes "object_ok n s" "sm_obj m = sm_obj (ss_mem s)" "handles n s' = handles n s" "ss_writer s' = WGone \<longleftrightarrow> ss_writer s = WGone"
    "ss_latest s' = ss_latest s" "ss_mem s' = m"
    "\<And>ob k. sm_obj (ss_mem s) = Some ob \<Longrightarrow> so_copy ob \<noteq> 0 \<Longrightarrow> sm_copies (ss_mem s) (so_copy ob) = Some k \<Longrightarrow>
       \<exists>k'. sm_copies m (so_copy ob) = Some k' \<and> sc_msg k' = sc_msg k \<and> sc_sz k' = sc_sz k"
  shows "object_ok n s'"
  using assms unfolding object_ok_def by (cases "sm_obj (ss_mem s)") (simp, fastforce)

section \<open>Steps of a reader\<close>

lemma one_if_simps [simp]: "one_if True = 1" "one_if False = 0"
  by (simp_all add: one_if_def)

lemma reader_step_inv:
  assumes inv: "stm_inv n s" and i: "i < n" "ss_reader s i = pc" and h: "reader_handle pc' = reader_handle pc"
    and cs: "counts cs F" "\<And>c. c \<noteq> 0 \<Longrightarrow> F c + reader_refs c pc = refs n s c + reader_refs c pc'"
    and kept: "\<And>ob k. sm_obj (ss_mem s) = Some ob \<Longrightarrow> so_copy ob \<noteq> 0 \<Longrightarrow> sm_copies (ss_mem s) (so_copy ob) = Some k \<Longrightarrow>
      \<exists>k'. cs (so_copy ob) = Some k' \<and> sc_msg k' = sc_msg k \<and> sc_sz k' = sc_sz k"
    and dom: "dom cs \<subseteq> dom (sm_copies (ss_mem s))"
  shows "stm_inv n (s\<lparr>ss_mem := (ss_mem s)\<lparr>sm_copies := cs\<rparr>, ss_reader := (ss_reader s)(i := pc')\<rparr>)"
proof -
  let ?m = "(ss_mem s)\<lparr>sm_copies := cs\<rparr>" let ?s = "s\<lparr>ss_mem := ?m, ss_reader := (ss_reader s)(i := pc')\<rparr>"
  note p = inv_parts [OF inv]
  have "refs n ?s c = F c" if "c \<noteq> 0" for c using refs_moved [OF i, where m = ?m and pc' = pc' and c = c] cs(2) [OF that] by simp
  then have "counts cs (refs n ?s)" using cs(1) by (metis counts_cong)
  moreover have "handles n ?s = handles n s" using handles_moved [OF i, where m = ?m and pc' = pc'] h by simp
  then have "object_ok n ?s" using kept by (intro keep_object [OF p(4), of ?m]) simp_all
  ultimately show ?thesis using p(1,2,5,6) dom by (auto simp: stm_inv_def)
qed

lemma reader_releases:
  assumes inv: "stm_inv n s" and i: "i < n" "ss_reader s i = pc" and l: "l = 0 \<or> 0 < reader_refs l pc"
  shows "\<exists>cs. stm_releasecopy l (ss_mem s) = Some ((ss_mem s)\<lparr>sm_copies := cs\<rparr>) \<and> counts cs ((refs n s)(l := refs n s l - 1)) \<and>
    (\<forall>c k. sm_copies (ss_mem s) c = Some k \<longrightarrow> (c \<noteq> l \<or> l = 0 \<or> 1 < refs n s c) \<longrightarrow>
       (\<exists>k'. cs c = Some k' \<and> sc_msg k' = sc_msg k \<and> sc_sz k' = sc_sz k)) \<and>
    (\<forall>ob k. sm_obj (ss_mem s) = Some ob \<longrightarrow> so_copy ob \<noteq> 0 \<longrightarrow> sm_copies (ss_mem s) (so_copy ob) = Some k \<longrightarrow>
       (\<exists>k'. cs (so_copy ob) = Some k' \<and> sc_msg k' = sc_msg k \<and> sc_sz k' = sc_sz k)) \<and>
    dom cs \<subseteq> dom (sm_copies (ss_mem s))"
proof -
  have le: "object_refs c (sm_obj (ss_mem s)) + reader_refs c pc \<le> refs n s c" for c
    using reader_counts(1) [OF i(1), of c s] i(2) by simp
  have "l = 0 \<or> 0 < refs n s l" using l le [of l] by auto
  from releasecopy_ok [OF inv_parts(3) [OF inv] this] obtain cs where cs: "stm_releasecopy l (ss_mem s) = Some ((ss_mem s)\<lparr>sm_copies := cs\<rparr>)" "counts cs ((refs n s)(l := refs n s l - 1))"
      "\<And>c k. sm_copies (ss_mem s) c = Some k \<Longrightarrow> c \<noteq> l \<or> l = 0 \<or> 1 < refs n s c \<Longrightarrow>
        \<exists>k'. cs c = Some k' \<and> sc_msg k' = sc_msg k \<and> sc_sz k' = sc_sz k"
      "dom cs \<subseteq> dom (sm_copies (ss_mem s))"
    by blast
  have "\<exists>k'. cs (so_copy ob) = Some k' \<and> sc_msg k' = sc_msg k \<and> sc_sz k' = sc_sz k"
    if "sm_obj (ss_mem s) = Some ob" "so_copy ob \<noteq> 0" "sm_copies (ss_mem s) (so_copy ob) = Some k" for ob k
  proof (rule cs(3) [OF that(3)])
    show "so_copy ob \<noteq> l \<or> l = 0 \<or> 1 < refs n s (so_copy ob)" using le [of "so_copy ob"] l that(1) by (auto simp: object_refs_def)
  qed
  then show ?thesis using cs by blast
qed

lemma object_there:
  assumes "stm_inv n s" "0 < handles n s"
  shows "\<exists>ob. sm_obj (ss_mem s) = Some ob \<and> so_reference ob = word_of_nat (handles n s) \<and> (so_copy ob = 0 \<longleftrightarrow> ss_writer s = WGone) \<and>
    (so_copy ob \<noteq> 0 \<longrightarrow> (\<exists>k. sm_copies (ss_mem s) (so_copy ob) = Some k \<and> sc_msg k = ss_latest s \<and> sc_sz k = word_of_nat (length (ss_latest s))))"
  using inv_parts(4) [OF assms(1)] assms(2) unfolding object_ok_def by (cases "sm_obj (ss_mem s)") simp_all

lemma copy_step:
  assumes inv: "stm_inv n s" and i: "i < n" "ss_reader s i = RIdle l"
  shows "\<exists>c m. stm_copy_of (ss_mem s) = Some (c, m) \<and> stm_inv n (s\<lparr>ss_mem := m, ss_reader := (ss_reader s)(i := RHave l c)\<rparr>) \<and>
    (if ss_writer s = WGone then c = 0
     else \<exists>k. sm_copies m c = Some k \<and> c \<noteq> 0 \<and> sc_msg k = ss_latest s \<and> sc_sz k = word_of_nat (length (ss_latest s)))"
proof -
  note p = inv_parts [OF inv]
  have "0 < handles n s" using reader_counts(2) [OF i(1), of s] i(2) by simp
  from object_there [OF inv this] obtain ob where ob: "sm_obj (ss_mem s) = Some ob" "so_copy ob = 0 \<longleftrightarrow> ss_writer s = WGone"
      "so_copy ob \<noteq> 0 \<longrightarrow> (\<exists>k. sm_copies (ss_mem s) (so_copy ob) = Some k \<and> sc_msg k = ss_latest s \<and> sc_sz k = word_of_nat (length (ss_latest s)))"
    by (elim exE conjE)
  show ?thesis
  proof (cases "so_copy ob = 0")
    case True
    have "stm_inv n (s\<lparr>ss_mem := (ss_mem s)\<lparr>sm_copies := sm_copies (ss_mem s)\<rparr>, ss_reader := (ss_reader s)(i := RHave l 0)\<rparr>)"
      by (rule reader_step_inv [OF inv i _ p(3)]) (simp_all add: one_if_def)
    then show ?thesis using ob(1,2) True by (simp add: stm_copy_of_def)
  next
    case False
    let ?c = "so_copy ob"
    obtain k where k: "sm_copies (ss_mem s) ?c = Some k" "sc_msg k = ss_latest s" "sc_sz k = word_of_nat (length (ss_latest s))"
      using ob(3) False by blast
    let ?cs = "(sm_copies (ss_mem s))(?c \<mapsto> k\<lparr>sc_reference := sc_reference k + 1\<rparr>)"
    note more = copy_counted [OF p(3) k(1) False p(7)]
    have "stm_inv n (s\<lparr>ss_mem := (ss_mem s)\<lparr>sm_copies := ?cs\<rparr>, ss_reader := (ss_reader s)(i := RHave l ?c)\<rparr>)"
      by (rule reader_step_inv [OF inv i _ more(2)]) (use k(1) in \<open>auto simp: one_if_def\<close>)
    then show ?thesis using ob(1,2) False k more(1) by (simp add: stm_copy_of_def Let_def)
  qed
qed

lemma read_step:
  assumes inv: "stm_inv n s" and i: "i < n" "ss_reader s i = RHave l c"
  shows "\<exists>r l' m. lread_done l c (ss_mem s) = Some (r, l', m) \<and> stm_inv n (s\<lparr>ss_mem := m, ss_reader := (ss_reader s)(i := RIdle l')\<rparr>) \<and>
    r = (if c = l \<or> c = 0 then None else map_option (\<lambda>k. (sc_msg k, sc_sz k)) (sm_copies (ss_mem s) c)) \<and> (c = 0 \<or> sm_copies (ss_mem s) c \<noteq> None)"
proof -
  note p = inv_parts [OF inv]
  have le: "reader_refs x (RHave l c) \<le> refs n s x" for x using reader_counts(1) [OF i(1), of x s] i(2) by simp
  have there: "\<exists>k. sm_copies (ss_mem s) c = Some k" if "c \<noteq> 0" using counts_there [OF p(3) that] le [of c] by auto
  obtain cs where cs: "stm_releasecopy l (ss_mem s) = Some ((ss_mem s)\<lparr>sm_copies := cs\<rparr>)" "counts cs ((refs n s)(l := refs n s l - 1))"
      "\<forall>x k. sm_copies (ss_mem s) x = Some k \<longrightarrow> (x \<noteq> l \<or> l = 0 \<or> 1 < refs n s x) \<longrightarrow>
        (\<exists>k'. cs x = Some k' \<and> sc_msg k' = sc_msg k \<and> sc_sz k' = sc_sz k)"
      "\<forall>ob k. sm_obj (ss_mem s) = Some ob \<longrightarrow> so_copy ob \<noteq> 0 \<longrightarrow> sm_copies (ss_mem s) (so_copy ob) = Some k \<longrightarrow>
        (\<exists>k'. cs (so_copy ob) = Some k' \<and> sc_msg k' = sc_msg k \<and> sc_sz k' = sc_sz k)"
      "dom cs \<subseteq> dom (sm_copies (ss_mem s))"
    using reader_releases [OF inv i, of l] by auto
  have "0 < refs n s l" using le [of l] by simp
  then have F: "((refs n s)(l := refs n s l - 1)) x + reader_refs x (RHave l c) = refs n s x + reader_refs x (RIdle c)" for x
    by (auto simp: one_if_def)
  have inv': "stm_inv n (s\<lparr>ss_mem := (ss_mem s)\<lparr>sm_copies := cs\<rparr>, ss_reader := (ss_reader s)(i := RIdle c)\<rparr>)"
    using cs(4) by (intro reader_step_inv [OF inv i _ cs(2) F _ cs(5)]) simp_all
  show ?thesis
  proof (cases "c = l \<or> c = 0")
    case True
    then show ?thesis using cs(1) inv' there by (auto simp: lread_done_def)
  next
    case False
    obtain k where k: "sm_copies (ss_mem s) c = Some k" using there False by blast
    then obtain k' where "cs c = Some k'" "sc_msg k' = sc_msg k" "sc_sz k' = sc_sz k" using cs(3) False by blast
    then show ?thesis using cs(1) inv' k False by (simp add: lread_done_def)
  qed
qed

lemma dropped_step:
  assumes inv: "stm_inv n s" and i: "i < n" "ss_reader s i = RDrop l"
  shows "\<exists>m. stm_releasecopy l (ss_mem s) = Some m \<and> stm_inv n (s\<lparr>ss_mem := m, ss_reader := (ss_reader s)(i := RGone)\<rparr>)"
proof -
  obtain cs where cs: "stm_releasecopy l (ss_mem s) = Some ((ss_mem s)\<lparr>sm_copies := cs\<rparr>)" "counts cs ((refs n s)(l := refs n s l - 1))"
      "\<forall>ob k. sm_obj (ss_mem s) = Some ob \<longrightarrow> so_copy ob \<noteq> 0 \<longrightarrow> sm_copies (ss_mem s) (so_copy ob) = Some k \<longrightarrow>
        (\<exists>k'. cs (so_copy ob) = Some k' \<and> sc_msg k' = sc_msg k \<and> sc_sz k' = sc_sz k)"
      "dom cs \<subseteq> dom (sm_copies (ss_mem s))"
    using reader_releases [OF inv i, of l] by auto
  have "0 < refs n s l" using reader_counts(1) [OF i(1), of l s] i(2) by simp
  then have F: "((refs n s)(l := refs n s l - 1)) x + reader_refs x (RDrop l) = refs n s x + reader_refs x RGone" for x
    by (auto simp: one_if_def)
  show ?thesis using cs(1,3) by (auto intro!: reader_step_inv [OF inv i _ cs(2) F _ cs(4)])
qed

lemma unlock_step:
  assumes inv: "stm_inv n s" and i: "i < n" "ss_reader s i = RUnlock l"
  shows "stm_inv n (s\<lparr>ss_reader := (ss_reader s)(i := RDrop l)\<rparr>)"
  using reader_step_inv [OF inv i, of "RDrop l" "sm_copies (ss_mem s)" "refs n s"] inv_parts(3) [OF inv] by simp

lemma small_ref:
  assumes "0 < h" "h < 2 ^ 31"
  shows "(word_of_nat h :: i32) - 1 = word_of_nat (h - 1)" "(word_of_nat h :: i32) - 1 = 0 \<longleftrightarrow> h = 1"
    "0 <s (word_of_nat h :: i32)" "0 <s (word_of_nat h :: i32) - 1 \<longleftrightarrow> 1 < h"
proof -
  have s: "sint (word_of_nat k :: i32) = int k" if "k < 2 ^ 31" for k
    using that int_word_sint [of "int k", where 'a = 32] by simp
  show e: "(word_of_nat h :: i32) - 1 = word_of_nat (h - 1)" using assms by (simp add: of_nat_diff)
  show "0 <s (word_of_nat h :: i32)" using s [of h] assms by (simp add: word_sless_alt)
  show "0 <s (word_of_nat h :: i32) - 1 \<longleftrightarrow> 1 < h" unfolding e using s [of "h - 1"] assms by (auto simp: word_sless_alt)
  show "(word_of_nat h :: i32) - 1 = 0 \<longleftrightarrow> h = 1"
  proof
    assume "(word_of_nat h :: i32) - 1 = 0"
    then have "sint (word_of_nat (h - 1) :: i32) = 0" unfolding e by simp
    then show "h = 1" using s [of "h - 1"] assms by simp
  qed simp
qed

lemma drop_step:
  assumes inv: "stm_inv n s" and i: "i < n" "ss_reader s i = RIdle l"
  shows "\<exists>freed m. stm_releasereader (ss_mem s) = Some (freed, m) \<and>
    stm_inv n (s\<lparr>ss_mem := m, ss_reader := (ss_reader s)(i := (if freed then RDrop l else RUnlock l))\<rparr>)"
proof -
  note p = inv_parts [OF inv]
  have h: "one_if (ss_writer s \<noteq> WGone) + 1 \<le> handles n s" using reader_counts(2) [OF i(1), of s] i(2) by simp
  then have h0: "0 < handles n s" by simp
  from object_there [OF inv h0] obtain ob where ob: "sm_obj (ss_mem s) = Some ob"
      "so_reference ob = word_of_nat (handles n s)" "so_copy ob = 0 \<longleftrightarrow> ss_writer s = WGone"
      "so_copy ob \<noteq> 0 \<longrightarrow> (\<exists>k. sm_copies (ss_mem s) (so_copy ob) = Some k \<and> sc_msg k = ss_latest s \<and> sc_sz k = word_of_nat (length (ss_latest s)))"
    by (elim exE conjE)
  note ref = small_ref [OF h0, OF less_trans [OF less_add_one p(8)]]
  define last where "last \<longleftrightarrow> handles n s = 1"
  let ?ob = "if last then None else Some (ob\<lparr>so_reference := so_reference ob - 1\<rparr>)"
  let ?m = "(ss_mem s)\<lparr>sm_obj := ?ob\<rparr>" and ?pc = "if last then RDrop l else RUnlock l"
  let ?s = "s\<lparr>ss_mem := ?m, ss_reader := (ss_reader s)(i := ?pc)\<rparr>"
  have gone: "last \<Longrightarrow> ss_writer s = WGone" using h by (auto simp: last_def one_if_def split: if_splits)
  have "stm_releasereader (ss_mem s) = Some (last, ?m)"
    using ob(1-3) gone ref h p(8) by (auto simp: stm_releasereader_def Let_def last_def)
  moreover have "refs n ?s c = refs n s c" if "c \<noteq> 0" for c
  proof -
    have "(\<Sum>j<n. reader_refs c (((ss_reader s)(i := ?pc)) j)) = (\<Sum>j<n. reader_refs c (ss_reader s j))"
      using sum_moved [OF i(1), of "reader_refs c" "ss_reader s" ?pc] i(2) by (cases last) simp_all
    moreover have "object_refs c ?ob = object_refs c (sm_obj (ss_mem s))" using ob(1,3) gone that by (auto simp: object_refs_def)
    ultimately show ?thesis by (simp add: refs_def del: fun_upd_apply split del: if_split)
  qed
  then have "counts (sm_copies ?m) (refs n ?s)" using p(3) counts_cong by fastforce
  moreover have "handles n ?s + 1 = handles n s" using handles_moved [OF i, where m = ?m and pc' = ?pc] by simp
  then have hs: "handles n ?s = handles n s - 1" by linarith
  have "so_reference ob - 1 = word_of_nat (handles n s - 1)" using ref(1) ob(2) by simp
  then have "object_ok n ?s" unfolding object_ok_def hs using ob(3,4) h0 by (cases last) (auto simp: last_def)
  ultimately show ?thesis using p(1,2,5,6) by (intro exI [of _ last] exI [of _ ?m]) (auto simp: stm_inv_def)
qed

section \<open>Steps of the writer\<close>

lemma writer_alive:
  assumes "stm_inv n s" "ss_writer s \<noteq> WGone"
  obtains ob k where "sm_obj (ss_mem s) = Some ob" "so_reference ob = word_of_nat (handles n s)" "so_copy ob \<noteq> 0" "0 < handles n s"
    "sm_copies (ss_mem s) (so_copy ob) = Some k" "sc_msg k = ss_latest s" "sc_sz k = word_of_nat (length (ss_latest s))"
proof -
  have h: "0 < handles n s" using assms(2) by (simp add: handles_def)
  show ?thesis using object_there [OF assms(1) h] assms(2) h that by blast
qed

lemma update_step:
  assumes inv: "stm_inv n s" and w: "ss_writer s = WIdle"
  shows "\<exists>old m. stm_swap msg (ss_mem s) = Some (old, m) \<and>
    stm_inv n (s\<lparr>ss_mem := m, ss_writer := WRelease old, ss_latest := msg\<rparr>)"
proof -
  note p = inv_parts [OF inv]
  obtain ob k where ob: "sm_obj (ss_mem s) = Some ob" "so_reference ob = word_of_nat (handles n s)" "so_copy ob \<noteq> 0" "0 < handles n s"
      "sm_copies (ss_mem s) (so_copy ob) = Some k" "sc_msg k = ss_latest s" "sc_sz k = word_of_nat (length (ss_latest s))"
    using writer_alive [OF inv] w by auto
  let ?new = "sm_next (ss_mem s)" and ?k = "\<lparr>sc_reference = 1, sc_sz = word_of_nat (length msg), sc_msg = msg\<rparr>"
  let ?cs = "(sm_copies (ss_mem s))(sm_next (ss_mem s) \<mapsto> ?k)"
  let ?m = "(ss_mem s)\<lparr>sm_copies := ?cs, sm_next := ?new + 1, sm_obj := Some (ob\<lparr>so_copy := ?new\<rparr>)\<rparr>"
  let ?s = "s\<lparr>ss_mem := ?m, ss_writer := WRelease (so_copy ob), ss_latest := msg\<rparr>"
  have none: "sm_copies (ss_mem s) ?new = None" using p(6) [of ?new] by (cases "sm_copies (ss_mem s) ?new") auto
  then have "refs n s ?new = 0" using counts_at [OF p(3), of ?new] p(5) by simp
  moreover have "refs n ?s c = (if c = ?new then 1 else 0) + refs n s c" for c
    using ob(1) w by (simp add: refs_def object_refs_def one_if_def)
  ultimately have "counted (?cs c) (refs n ?s c)" if "c \<noteq> 0" for c using counts_at [OF p(3) that] by simp
  then have "counts (sm_copies ?m) (refs n ?s)" by (simp add: counts_def)
  moreover have "handles n ?s = handles n s" using w by (simp add: handles_def)
  then have "object_ok n ?s" using ob(2,4) p(5) by (simp add: object_ok_def)
  moreover have "0 < c \<and> c < ?new + 1" if "c \<in> dom ?cs" for c using that p(5,6) by (auto simp: less_Suc_eq split: if_splits)
  ultimately have "stm_inv n ?s" using p(1,2) by (simp add: stm_inv_def)
  then show ?thesis using ob(1) by (simp add: stm_swap_def stm_newcopy_def)
qed

lemma updated_step:
  assumes inv: "stm_inv n s" and w: "ss_writer s = WRelease l"
  shows "\<exists>m. stm_releasecopy l (ss_mem s) = Some m \<and> stm_inv n (s\<lparr>ss_mem := m, ss_writer := WIdle\<rparr>)"
proof -
  note p = inv_parts [OF inv]
  have le: "object_refs c (sm_obj (ss_mem s)) + one_if (l = c) \<le> refs n s c" for c using w by (simp add: refs_def)
  then have "0 < refs n s l" by (metis one_if_simps(1) add_is_0 gr0I le_zero_eq one_neq_zero)
  then obtain cs where cs: "stm_releasecopy l (ss_mem s) = Some ((ss_mem s)\<lparr>sm_copies := cs\<rparr>)" "counts cs ((refs n s)(l := refs n s l - 1))"
      "\<forall>c k. sm_copies (ss_mem s) c = Some k \<longrightarrow> (c \<noteq> l \<or> l = 0 \<or> 1 < refs n s c) \<longrightarrow>
        (\<exists>k'. cs c = Some k' \<and> sc_msg k' = sc_msg k \<and> sc_sz k' = sc_sz k)"
      "dom cs \<subseteq> dom (sm_copies (ss_mem s))"
    using releasecopy_ok [OF p(3), of l] by auto
  let ?m = "(ss_mem s)\<lparr>sm_copies := cs\<rparr>" let ?s = "s\<lparr>ss_mem := ?m, ss_writer := WIdle\<rparr>"
  have "refs n ?s c = ((refs n s)(l := refs n s l - 1)) c" for c using w by (auto simp: refs_def one_if_def)
  then have "counts (sm_copies ?m) (refs n ?s)" using cs(2) counts_cong by fastforce
  moreover have "object_ok n ?s"
  proof (rule keep_object [OF p(4), of ?m])
    fix ob k assume ob: "sm_obj (ss_mem s) = Some ob" "so_copy ob \<noteq> 0" "sm_copies (ss_mem s) (so_copy ob) = Some k"
    have "so_copy ob \<noteq> l \<or> l = 0 \<or> 1 < refs n s (so_copy ob)" using le [of "so_copy ob"] ob(1) by (auto simp: object_refs_def)
    then show "\<exists>k'. sm_copies ?m (so_copy ob) = Some k' \<and> sc_msg k' = sc_msg k \<and> sc_sz k' = sc_sz k" using cs(3) ob(3) by simp
  qed (use w in \<open>simp_all add: handles_def\<close>)
  ultimately show ?thesis using cs(1,4) p(1,2,5,6) by (auto simp: stm_inv_def)
qed

lemma delete_step:
  assumes inv: "stm_inv n s" and w: "ss_writer s = WIdle"
  shows "\<exists>m. stm_release (ss_mem s) = Some m \<and> stm_inv n (s\<lparr>ss_mem := m, ss_writer := WGone\<rparr>)"
proof -
  note p = inv_parts [OF inv]
  obtain ob k where ob: "sm_obj (ss_mem s) = Some ob" "so_reference ob = word_of_nat (handles n s)" "so_copy ob \<noteq> 0" "0 < handles n s"
      "sm_copies (ss_mem s) (so_copy ob) = Some k" "sc_msg k = ss_latest s" "sc_sz k = word_of_nat (length (ss_latest s))"
    using writer_alive [OF inv] w by auto
  let ?c = "so_copy ob"
  have pos: "0 < refs n s ?c" using ob(1) by (simp add: refs_def object_refs_def)
  then obtain cs where cs: "stm_releasecopy ?c (ss_mem s) = Some ((ss_mem s)\<lparr>sm_copies := cs\<rparr>)" "counts cs ((refs n s)(?c := refs n s ?c - 1))"
      "dom cs \<subseteq> dom (sm_copies (ss_mem s))"
    using releasecopy_ok [OF p(3), of ?c] by auto
  note ref = small_ref [OF ob(4), OF less_trans [OF less_add_one p(8)]]
  let ?ob = "if 1 < handles n s then Some \<lparr>so_reference = word_of_nat (handles n s - 1), so_copy = 0\<rparr> else None"
  let ?m = "(ss_mem s)\<lparr>sm_copies := cs, sm_obj := ?ob\<rparr>" let ?s = "s\<lparr>ss_mem := ?m, ss_writer := WGone\<rparr>"
  have "so_reference ob - 1 = word_of_nat (handles n s - 1)" unfolding ob(2) by (rule ref(1))
  then have "stm_release (ss_mem s) = Some ?m"
    using ob(1,3) cs(1) ref(4) [unfolded ref(1)] unfolding stm_release_def Let_def by simp
  moreover have "refs n ?s c = ((refs n s)(?c := refs n s ?c - 1)) c" if "c \<noteq> 0" for c
    using w ob(1) that by (auto simp: refs_def object_refs_def one_if_def)
  then have "counts (sm_copies ?m) (refs n ?s)" using counts_cong [OF cs(2)] by simp
  moreover have "handles n ?s = handles n s - 1" using w by (simp add: handles_def)
  then have "object_ok n ?s" using ob(4) by (auto simp: object_ok_def)
  ultimately show ?thesis using cs(3) p(1,2,5,6) by (intro exI [of _ ?m]) (auto simp: stm_inv_def)
qed

lemma grab_step:
  assumes inv: "stm_inv n s" and w: "ss_writer s = WIdle" and flight: "ss_flight s < 2 ^ 30"
  shows "\<exists>m. stm_grab (ss_mem s) = Some m \<and> stm_inv n (s\<lparr>ss_mem := m, ss_flight := ss_flight s + 1\<rparr>)"
proof -
  note p = inv_parts [OF inv]
  obtain ob k where ob: "sm_obj (ss_mem s) = Some ob" "so_reference ob = word_of_nat (handles n s)" "so_copy ob \<noteq> 0" "0 < handles n s"
      "sm_copies (ss_mem s) (so_copy ob) = Some k" "sc_msg k = ss_latest s" "sc_sz k = word_of_nat (length (ss_latest s))"
    using writer_alive [OF inv] w by auto
  let ?m = "(ss_mem s)\<lparr>sm_obj := Some (ob\<lparr>so_reference := so_reference ob + 1\<rparr>)\<rparr>"
  let ?s = "s\<lparr>ss_mem := ?m, ss_flight := ss_flight s + 1\<rparr>"
  have "stm_grab (ss_mem s) = Some ?m" using ob(1,2) small_ref(3) [OF ob(4), OF less_trans [OF less_add_one p(8)]] by (simp add: stm_grab_def)
  moreover have "refs n ?s = refs n s" using ob(1) by (simp add: refs_def object_refs_def fun_eq_iff)
  then have "counts (sm_copies ?m) (refs n ?s)" using p(3) by simp
  moreover have "handles n ?s = handles n s + 1" by (simp add: handles_def)
  then have "object_ok n ?s" using ob w by (simp add: object_ok_def add.commute)
  ultimately show ?thesis using flight p(1,2,5,6) by (auto simp: stm_inv_def)
qed

lemma newreader_step:
  assumes inv: "stm_inv n s" and f: "0 < ss_flight s" and i: "i < n" "ss_reader s i = RNone"
  shows "stm_inv n (s\<lparr>ss_flight := ss_flight s - 1, ss_reader := (ss_reader s)(i := RIdle 0)\<rparr>)"
proof -
  let ?s = "s\<lparr>ss_flight := ss_flight s - 1, ss_reader := (ss_reader s)(i := RIdle 0)\<rparr>"
  note p = inv_parts [OF inv]
  have "refs n ?s c = refs n s c" if "c \<noteq> 0" for c
    using sum_moved [OF i(1), of "reader_refs c" "ss_reader s" "RIdle 0"] i(2) that by (simp add: refs_def)
  then have "counts (sm_copies (ss_mem s)) (refs n ?s)" using counts_cong [OF p(3)] by simp
  moreover have "handles n ?s = handles n s"
    using sum_moved [OF i(1), of reader_handle "ss_reader s" "RIdle 0"] i(2) f by (simp add: handles_def)
  then have "object_ok n ?s" by (intro keep_object [OF p(4), of "ss_mem s"]) simp_all
  ultimately show ?thesis using p(1,2,5,6) by (auto simp: stm_inv_def)
qed

section \<open>All interleavings\<close>

lemma stm_step_inv:
  assumes inv: "stm_inv n s" and step: "stm_step n s s'"
  shows "stm_inv n s'"
  using step
proof cases
  case (s_update msg old m)
  then show ?thesis using update_step [OF inv, of msg] by auto
next
  case (s_updated old m)
  then show ?thesis using updated_step [OF inv, of old] by auto
next
  case (s_delete m)
  then show ?thesis using delete_step [OF inv] by auto
next
  case (s_grab m)
  then show ?thesis using grab_step [OF inv] by auto
next
  case (s_newreader i)
  then show ?thesis using newreader_step [OF inv, of i] by auto
next
  case (s_copy i l c m)
  then show ?thesis using copy_step [OF inv, of i l] by auto
next
  case (s_read i l c r l' m)
  then show ?thesis using read_step [OF inv, of i l c] by auto
next
  case (s_drop i l freed m)
  then show ?thesis using drop_step [OF inv, of i l] by auto
next
  case (s_unlock i l)
  then show ?thesis using unlock_step [OF inv, of i l] by auto
next
  case (s_dropped i l m)
  then show ?thesis using dropped_step [OF inv, of i l] by auto
qed

lemma stm_start_inv:
  assumes "n < 2 ^ 29"
  shows "stm_inv n (stm_start msg)"
proof -
  have "refs n (stm_start msg) c = one_if (c = 1)" for c
    by (auto simp: refs_def stm_start_def stm_new_def stm_newcopy_def object_refs_def one_if_def)
  then have "counts (sm_copies (ss_mem (stm_start msg))) (refs n (stm_start msg))"
    by (auto simp: counts_def stm_start_def stm_new_def stm_newcopy_def one_if_def)
  moreover have "handles n (stm_start msg) = 1" by (simp add: handles_def stm_start_def)
  ultimately show ?thesis using assms
    by (auto simp: stm_inv_def object_ok_def stm_start_def stm_new_def stm_newcopy_def split: if_splits)
qed

interpretation shared: safe_system "\<lambda>s. \<exists>msg. s = stm_start msg \<and> n < 2 ^ 29" "stm_step n" "stm_inv n" for n
  by unfold_locales (auto intro: stm_start_inv stm_step_inv)


text \<open>C33. Nothing is left when all are gone: when the writer has been collected, no pointer is on its way and every
  reader that there was has been collected, the object and all copies with their messages have been freed.\<close>

theorem stm_all_freed:
  assumes "n < 2 ^ 29" "reachable (\<lambda>s. \<exists>msg. s = stm_start msg) (stm_step n) s"
    and "ss_writer s = WGone" "ss_flight s = 0" "\<forall>i<n. ss_reader s i = RNone \<or> ss_reader s i = RGone"
  shows "sm_obj (ss_mem s) = None \<and> sm_copies (ss_mem s) = Map.empty"
proof -
  have "reachable (\<lambda>s. \<exists>msg. s = stm_start msg \<and> n < 2 ^ 29) (stm_step n) s" using assms by simp
  then have inv: "stm_inv n s" by (rule shared.reachable_inv)
  note p = inv_parts [OF inv]
  have "(\<Sum>i<n. reader_handle (ss_reader s i)) = 0" using assms(5) by (intro sum.neutral) auto
  then have "handles n s = 0" using assms(3,4) by (simp add: handles_def)
  then have none: "sm_obj (ss_mem s) = None" using p(4) by (auto simp: object_ok_def split: option.splits)
  have "sm_copies (ss_mem s) c = None" for c
  proof (cases "sm_copies (ss_mem s) c")
    case (Some k)
    have "(\<Sum>i<n. reader_refs c (ss_reader s i)) = 0" using assms(5) by (intro sum.neutral) auto
    then have "refs n s c = 0" using none assms(3) by (simp add: refs_def object_refs_def)
    then show ?thesis using counts_at [OF p(3), of c] p(6) [OF Some] Some by simp
  qed
  then show ?thesis using none by auto
qed

lemmas stm_run = stm_start_def stm_new_def stm_newcopy_def stm_grab_def stm_release_def stm_releasecopy_def stm_releasereader_def unlocked_def Let_def word_sless_alt

lemma first_reader:
  "\<exists>s. reachable (\<lambda>s. \<exists>msg. s = stm_start msg) (stm_step 2) s \<and> ss_reader s = (\<lambda>i. RNone)(0 := RIdle 0) \<and> ss_writer s = WIdle \<and>
     ss_latest s = ''x'' \<and> ss_flight s = 0 \<and> ss_mem s = \<lparr>sm_obj = Some \<lparr>so_reference = 2, so_copy = 1\<rparr>,
       sm_copies = [1 \<mapsto> \<lparr>sc_reference = 1, sc_sz = 1, sc_msg = ''x''\<rparr>], sm_next = 2\<rparr>"
proof -
  let ?s0 = "stm_start ''x''"
  let ?m1 = "(ss_mem ?s0)\<lparr>sm_obj := Some \<lparr>so_reference = 2, so_copy = 1\<rparr>\<rparr>"
  let ?s1 = "?s0\<lparr>ss_mem := ?m1, ss_flight := ss_flight ?s0 + 1\<rparr>"
  let ?s2 = "?s1\<lparr>ss_flight := ss_flight ?s1 - 1, ss_reader := (ss_reader ?s1)(0 := RIdle 0)\<rparr>"
  have "reachable (\<lambda>s. \<exists>msg. s = stm_start msg) (stm_step 2) ?s0" by (rule reachable_init) blast
  moreover have "stm_step 2 ?s0 ?s1" by (rule s_grab) (simp_all add: stm_run)
  moreover have "stm_step 2 ?s1 ?s2" by (rule s_newreader) (simp_all add: stm_run)
  ultimately have "reachable (\<lambda>s. \<exists>msg. s = stm_start msg) (stm_step 2) ?s2" by (meson reachable_step)
  then show ?thesis by (intro exI [of _ ?s2]) (simp add: stm_run)
qed


theorem stm_all_freed_witness:
  "\<exists>s. reachable (\<lambda>s. \<exists>msg. s = stm_start msg) (stm_step 2) s \<and> ss_writer s = WGone \<and> sm_copies (ss_mem s) = Map.empty"
proof -
  let ?s0 = "stm_start ''x''"
  let ?s1 = "?s0\<lparr>ss_mem := (ss_mem ?s0)\<lparr>sm_copies := Map.empty, sm_obj := None\<rparr>, ss_writer := WGone\<rparr>"
  have "stm_step 2 ?s0 ?s1" by (rule s_delete) (simp_all add: stm_run)
  moreover have "reachable (\<lambda>s. \<exists>msg. s = stm_start msg) (stm_step 2) ?s0" by (rule reachable_init) blast
  ultimately have r: "reachable (\<lambda>s. \<exists>msg. s = stm_start msg) (stm_step 2) ?s1" by (rule reachable_step [rotated])
  then show ?thesis using stm_all_freed [OF _ r] by (intro exI [of _ ?s1]) (simp add: stm_start_def)
qed

text \<open>
  Two readers are collected after the writer: the first has given up its reference but has not
  unlocked the object yet, the second frees it, and the first unlocks freed memory.
\<close>

lemma unlock_of_freed_object:
  "\<exists>s. reachable (\<lambda>s. \<exists>msg. s = stm_start msg) (stm_step 2) s \<and> ss_reader s 0 = RUnlock NULL \<and> stm_runlock (ss_mem s) = None"
proof -
  obtain s where s: "reachable (\<lambda>s. \<exists>msg. s = stm_start msg) (stm_step 2) s" "ss_reader s = (\<lambda>i. RNone)(0 := RIdle 0)"
      "ss_writer s = WIdle" "ss_flight s = 0" "ss_mem s = \<lparr>sm_obj = Some \<lparr>so_reference = 2, so_copy = 1\<rparr>,
       sm_copies = [1 \<mapsto> \<lparr>sc_reference = 1, sc_sz = 1, sc_msg = ''x''\<rparr>], sm_next = 2\<rparr>"
    using first_reader by blast
  let ?s1 = "s\<lparr>ss_mem := (ss_mem s)\<lparr>sm_obj := Some \<lparr>so_reference = 3, so_copy = 1\<rparr>\<rparr>, ss_flight := ss_flight s + 1\<rparr>"
  let ?s2 = "?s1\<lparr>ss_flight := ss_flight ?s1 - 1, ss_reader := (ss_reader ?s1)(1 := RIdle 0)\<rparr>"
  let ?s3 = "?s2\<lparr>ss_mem := (ss_mem s)\<lparr>sm_copies := Map.empty, sm_obj := Some \<lparr>so_reference = 2, so_copy = 0\<rparr>\<rparr>, ss_writer := WGone\<rparr>"
  let ?s4 = "?s3\<lparr>ss_mem := (ss_mem ?s3)\<lparr>sm_obj := Some \<lparr>so_reference = 1, so_copy = 0\<rparr>\<rparr>, ss_reader := (ss_reader ?s3)(0 := (if False then RDrop 0 else RUnlock 0))\<rparr>"
  let ?s5 = "?s4\<lparr>ss_mem := (ss_mem ?s4)\<lparr>sm_obj := None\<rparr>, ss_reader := (ss_reader ?s4)(1 := (if True then RDrop 0 else RUnlock 0))\<rparr>"
  have "stm_step 2 s ?s1" by (rule s_grab) (simp_all add: s stm_run)
  moreover have "stm_step 2 ?s1 ?s2" by (rule s_newreader) (simp_all add: s)
  moreover have "stm_step 2 ?s2 ?s3" by (rule s_delete) (simp_all add: s stm_run)
  moreover have "stm_step 2 ?s3 ?s4" by (rule s_drop) (simp_all add: s stm_run)
  moreover have "stm_step 2 ?s4 ?s5" by (rule s_drop) (simp_all add: s stm_run)
  ultimately have "reachable (\<lambda>s. \<exists>msg. s = stm_start msg) (stm_step 2) ?s5" using s(1) by (meson reachable_step)
  then show ?thesis by (intro exI [of _ ?s5]) (simp add: stm_runlock_def)
qed

end
