(* ===== verification/Spec2Isabelle.thy ===== *)
theory Spec2Isabelle
  imports Prelude MsgQueue Handle HandleNames Timer Locks Modules Monitor Format Node Server
    ServerInv ServerProps Command Scheduler SchedPlaces SchedRefs SchedProps
    SocketServer SocketControl SocketProps SocketChecks NodeSocket NodeSocketProps Start
    HashId DataBuffer Gate GateProps Harbor HarborProps
    Bytes Des Crypt CryptProps Sha1 Sha1Props Seri SeriProps
    Ring Netpack NetpackProps Cluster ClusterProps Malloc MallocProps SocketBuffer SocketBufferProps
    SprotoPack SprotoProps Stm StmProps
begin

text \<open>
  A model of the uboss node, an actor framework in C. A node runs services: each has a
  context with a message queue, a handle in a table and a module that supplies its callback.
  Messages are put into the queue of a service; a queue with messages is in the global run
  queue; worker threads take a queue from there, dispatch its messages and put it back. A
  timer thread and a monitor thread run beside the workers.

  Parts and theories:

  \<^item> \<open>Prelude\<close>: words, lists and the shared locales (queues and step systems with an invariant).
  \<^item> \<open>MsgQueue\<close> models \<open>core/uboss_mq.c\<close>: the ring buffer of a service
    (\<open>struct message_queue\<close>, \<open>expand_queue\<close>, \<open>uboss_mq_push\<close>, \<open>uboss_mq_pop\<close>) and the linked
    run queue (\<open>uboss_globalmq_push\<close>, \<open>uboss_globalmq_pop\<close>) over a heap of queues. The ring
    buffer refines a list, the run queue a list of distinct queues.
  \<^item> \<open>Handle\<close>, \<open>HandleNames\<close> model \<open>core/uboss_handle.c\<close>: the open hash table of
    contexts and the sorted array of names, with the map each of them refines.
  \<^item> \<open>Timer\<close> models \<open>core/uboss_timer.c\<close>: the hierarchical wheel; it fires exactly what a plain
    list of deadlines fires.
  \<^item> \<open>Locks\<close> models \<open>core/uboss_lock.h\<close>: the spin lock and the reader-writer lock as step
    relations over any number of threads, one atomic operation a step.
  \<^item> \<open>Malloc\<close> models \<open>core/uboss_malloc.c\<close>: blocks that carry the handle of their service, the
    counters of bytes and blocks and the table of services, over jemalloc as a parameter (record
    \<open>jemalloc\<close>). \<open>MallocProps\<close> shows that the counters are exact after every history of calls and of
    writes inside the blocks.
  \<^item> \<open>Modules\<close> models \<open>core/uboss_module.c\<close>, \<open>Monitor\<close> models \<open>core/uboss_monitor.c\<close> and
    \<open>core/uboss_env.c\<close>, \<open>Format\<close> the text conversions the node uses.
  \<^item> \<open>Node\<close>, \<open>Server\<close> model \<open>core/uboss_server.c\<close>, \<open>core/uboss_error.c\<close>,
    \<open>core/uboss_harbor.c\<close>, \<open>core/uboss_log.c\<close>: one state record holds the tables above, the
    contexts, a heap of message payloads and the log files; what a module, the file system or
    the clock answers is a parameter (record \<open>world\<close>). \<open>ServerInv\<close>, \<open>ServerProps\<close> hold the
    invariant of the node and the properties of sending, releasing and dropping.
  \<^item> \<open>Command\<close> models \<open>core/uboss_command.c\<close>, the text commands of a service.
  \<^item> \<open>Scheduler\<close>, \<open>SchedPlaces\<close>, \<open>SchedRefs\<close>, \<open>SchedProps\<close> model the worker loop of
    \<open>core/uboss_start.c\<close> and \<open>uboss_context_message_dispatch\<close> interleaved with threads that
    send, create, retire and release, one critical section a step. The invariant says where
    every queue is and what every reference count counts; from it follow that no assertion
    fails, that no service runs on two workers and that no wake-up is lost.
  \<^item> \<open>SocketServer\<close>, \<open>SocketControl\<close> model \<open>core/socket_server.c\<close> over \<open>core/socket_epoll.h\<close>: the
    table of sockets (\<open>struct socket_server\<close>), the two write lists of a socket and the direct write
    of a sender, the pipe of requests and its commands (\<open>ctrl_cmd\<close>), reading, accepting and
    connecting, and the poll loop (\<open>socket_server_poll\<close>). The operating system is a parameter
    (record \<open>kernel\<close>) that answers the n-th system call; what is written to a descriptor is kept
    in the state. \<open>SocketProps\<close>, \<open>SocketChecks\<close> show that the bytes of a connection go out in
    order and once, that closing frees what the socket owned, that an id is found whenever
    a slot is free, and that every request on the pipe has the body its type announces.
  \<^item> \<open>NodeSocket\<close> models \<open>core/uboss_socket.c\<close>, the way of socket events into the queues of
    services. Node and socket server have separate payload heaps in the model, so a block
    that crosses is moved. \<open>NodeSocketProps\<close> shows where an event goes and that nothing leaks.
  \<^item> \<open>Start\<close> models \<open>core/uboss_start.c\<close>: start and stop of a node, and the mutex and condition
    variable on which the workers sleep, as a step relation; the end of the node wakes all and
    every worker leaves its loop.
  \<^item> \<open>SocketBuffer\<close> models the receive buffers of \<open>lib/socket/lua-socket.c\<close>: a list of blocks for each
    connection and the table of nodes that they share. \<open>SocketBufferProps\<close> shows that taking bytes and
    reading lines give what they give on the string of received bytes, wherever the blocks end.
  \<^item> \<open>HashId\<close>, \<open>DataBuffer\<close>, \<open>Gate\<close> model the gate service (\<open>module/gate\<close>): the chained table of socket
    ids, the list of received blocks with its pool of nodes, and the service that cuts packets
    from connections and forwards them. The table refines a map; \<open>GateProps\<close> shows that the
    packets are those of a reference splitter of the whole stream and that table and connection
    array stay consistent.
  \<^item> \<open>Harbor\<close> models \<open>module/harbor/module_harbor.c\<close>: queues of messages to other nodes, the
    table of global names, the reader of a link with its states, sending by handle and by name.
    \<open>HarborProps\<close> shows that the queues are first-in first-out, that reading does not depend on how
    the network cuts the stream, and that a message written by one node ends in the queue of
    the service of the other it is for.
  \<^item> \<open>Bytes\<close>: the bytes of words in both orders, and the two ways a function called from Lua ends
    (a value or \<open>luaL_error\<close>), shared by the libraries below.
  \<^item> \<open>Des\<close>, \<open>Crypt\<close> model \<open>lib/crypt/lua-crypt.c\<close>: DES on whole texts, the hash and its keyed form, hex,
    base64 and the key exchange modulo the largest 64-bit prime. Decryption inverts encryption;
    \<open>CryptProps\<close> shows that the power is that of the integers modulo the prime, that two
    partners agree on a secret, and the round trips of hex and base64.
  \<^item> \<open>Sha1\<close> models \<open>lib/crypt/lsha1.c\<close>, the streaming context with its unrolled rounds; \<open>Sha1Props\<close>
    shows that it computes the SHA-1 and the HMAC of the standards, stated there as
    plain functions of the padded text.
  \<^item> \<open>Seri\<close> models \<open>lib/uboss/lua-seri.c\<close>: Lua values are written into a chain of blocks of 128 bytes and read
    back from a buffer. \<open>SeriProps\<close> shows that the values survive, with the tables up to the order of
    their pairs, and that the reader ends on every buffer.
  \<^item> \<open>Netpack\<close> models \<open>lib/netpack/lua-netpack.c\<close>: packets with a length of two bytes are cut from the blocks
    of many sockets, with a hash table for what is incomplete and a ring of packets that are ready.
    \<open>NetpackProps\<close> shows, for any interleaving of sockets, that each gets the packets the
    reference splitter of the gate cuts from its stream.
  \<^item> \<open>Cluster\<close> models \<open>lib/cluster/lua-cluster.c\<close>, the packets of requests to other nodes and their responses;
    \<open>ClusterProps\<close> composes it with the splitter: what is packed is cut and joined to what it was.
  \<^item> \<open>SprotoPack\<close> models the packing of zero bytes in \<open>lib/sproto/sproto.c\<close> and its calls in
    \<open>lib/sproto/lsproto.c\<close>, with every write into the output buffer; \<open>SprotoProps\<close> shows that it writes what a
    reference on whole segments writes, in the room that is reserved, and that unpacking reverses it.
  \<^item> \<open>Stm\<close> models \<open>lib/stm/lua-stm.c\<close>, an object that one writer updates and readers in other services
    read: reference counts of the object and of every copy of a message, and a step relation that
    interleaves writer and readers, one section under the lock a step. \<open>StmProps\<close> shows that the
    counts are exact, that no copy is used after it was freed and that nothing is left at the end; the
    unlocking at the end of \<open>stm_releasereader\<close> may come too late (\<open>unlock_of_freed_object\<close>).
  \<^item> \<open>Ring\<close>: the ring buffers of harbor and packet library as lists.

  Aborts (a failed \<open>assert\<close>, \<open>exit\<close>, a use of freed memory) are the value \<open>None\<close>. Loops are
  structural or have a measure; the sweep of \<open>uboss_handle_retireall\<close> and the drain loops,
  which module code can prolong, are \<open>partial_function (option)\<close>; so are the loops of the socket
  server that a kernel can prolong by interrupting every call (\<open>write_retry\<close>, \<open>send_list_tcp\<close>,
  \<open>send_list_udp\<close>, \<open>send_request\<close>, \<open>socket_server_poll\<close>), the walks along chains of the gate
  (\<open>chain_find\<close>, \<open>chain_prev\<close>, \<open>gate_loop\<close>) and the loops of the harbor over queues and received bytes
  (\<open>release_loop\<close>, \<open>move_queue\<close>, \<open>send_local_loop\<close>, \<open>send_remote_loop\<close>, \<open>socket_loop\<close>), the recursion of the key
  exchange, which does not end for exponent 0 (\<open>pow_mod_p\<close>), the padding loop of SHA-1 (\<open>pad_loop\<close>) and
  the reader of serialised values (\<open>unpack\<close>, \<open>unpack_all\<close>); that the last three return is part of
  their properties. The libraries under \<open>lib\<close> are modelled for a little-endian 64-bit machine and, where
  they count in an \<open>int\<close>, for texts below 2 GB; a longer text is \<open>None\<close>.

  Not modelled: \<open>main\<close> and thread creation, daemon mode and the licence check (calls of the operating
  system), the logger, monitor and Lua services (they print, or hand a message to a Lua state), the
  other Lua bindings under \<open>lib\<close>, schemas, encoding and decoding of sproto, BSON and MD5, and the
  vendored Lua, dlfcn, jemalloc and LPeg.
\<close>

end
